(* ===== verification/Prelude.thy ===== *)
theory Prelude
  imports Main "HOL-Library.AList" "HOL-Library.Multiset"
begin

text \<open>
  Shared vocabulary of the development.

  \<^item> Names of the model's base types: an \<open>Arc<str>\<close> is a \<open>string\<close>, a Bevy \<open>Entity\<close> is an
    opaque number.
  \<^item> Results: \<open>Result<T, E>\<close> is the sum \<open>'e + 'a\<close> with \<open>Inl\<close> for \<open>Err\<close>; \<open>rbind\<close> is the
    question-mark operator, \<open>rfold\<close> and \<open>rmap\<close> are \<open>for\<close> loops that leave early at the first
    error.
  \<^item> Hash maps: a \<open>HashMap\<close> that the code iterates is an association list whose order stands
    for the (unspecified) iteration order; \<open>hm_get\<close>, \<open>hm_insert\<close>, \<open>hm_keys\<close> and \<open>hm_entry\<close>
    are the operations the code uses. The locale \<open>hash_map\<close> is the contract of a \<open>HashMap\<close>
    that the components rely on, discharged for the association lists below.
  \<^item> \<open>remove_nth\<close> is \<open>Vec::remove\<close> for an index within bounds.
  \<^item> \<open>sort_dedup\<close> is the \<open>sort(); dedup();\<close> idiom of the inference code.
\<close>

type_synonym name = string
type_synonym entity = nat

named_theorems result_simps \<open>evaluation of results\<close>

subsection \<open>Results\<close>

definition rbind :: "'e + 'a \<Rightarrow> ('a \<Rightarrow> 'e + 'b) \<Rightarrow> 'e + 'b" where
  "rbind r f = (case r of Inl e \<Rightarrow> Inl e | Inr x \<Rightarrow> f x)"

lemma rbind_Inl [simp, result_simps]: "rbind (Inl e) f = Inl e"
  by (simp add: rbind_def)

lemma rbind_Inr [simp, result_simps]: "rbind (Inr x) f = f x"
  by (simp add: rbind_def)

lemma rbind_eq_Inr: "rbind r f = Inr y \<longleftrightarrow> (\<exists>x. r = Inr x \<and> f x = Inr y)"
  by (cases r) auto

lemma rbind_eq_Inl: "rbind r f = Inl e \<longleftrightarrow> r = Inl e \<or> (\<exists>x. r = Inr x \<and> f x = Inl e)"
  by (cases r) auto

lemma rbind_cong [fundef_cong]:
  "r = r' \<Longrightarrow> (\<And>x. r' = Inr x \<Longrightarrow> f x = f' x) \<Longrightarrow> rbind r f = rbind r' f'"
  by (cases r') auto

fun rfold :: "('s \<Rightarrow> 'a \<Rightarrow> 'e + 's) \<Rightarrow> 's \<Rightarrow> 'a list \<Rightarrow> 'e + 's" where
  "rfold f s [] = Inr s"
| "rfold f s (x # xs) = rbind (f s x) (\<lambda>s'. rfold f s' xs)"

fun rmap :: "('a \<Rightarrow> 'e + 'b) \<Rightarrow> 'a list \<Rightarrow> 'e + 'b list" where
  "rmap f [] = Inr []"
| "rmap f (x # xs) = rbind (f x) (\<lambda>y. rbind (rmap f xs) (\<lambda>ys. Inr (y # ys)))"

fun reach :: "('a \<Rightarrow> 'e + unit) \<Rightarrow> 'a list \<Rightarrow> 'e + unit" where
  "reach f [] = Inr ()"
| "reach f (x # xs) = rbind (f x) (\<lambda>_. reach f xs)"

definition ok_or :: "'a option \<Rightarrow> 'e \<Rightarrow> 'e + 'a" where
  "ok_or x e = (case x of None \<Rightarrow> Inl e | Some y \<Rightarrow> Inr y)"

lemma ok_or_simps [simp, result_simps]:
  "ok_or None e = Inl e" "ok_or (Some x) e = Inr x"
  by (simp_all add: ok_or_def)

lemma ok_or_eq_Inr [simp]: "ok_or y e = Inr x \<longleftrightarrow> y = Some x"
  by (cases y) auto

lemma rmap_eq_Inr:
  "rmap f xs = Inr ys \<longleftrightarrow> list_all2 (\<lambda>x y. f x = Inr y) xs ys"
  by (induction xs arbitrary: ys) (auto simp: rbind_eq_Inr list_all2_Cons1)

lemma rmap_cong [fundef_cong]:
  "xs = ys \<Longrightarrow> (\<And>x. x \<in> set ys \<Longrightarrow> f x = g x) \<Longrightarrow> rmap f xs = rmap g ys"
  by (induction ys arbitrary: xs) auto

lemma reach_eq_Inr: "reach f xs = Inr () \<longleftrightarrow> (\<forall>x \<in> set xs. f x = Inr ())"
  by (induction xs) (auto simp: rbind_eq_Inr)

lemma reach_eq_Inl: "reach f xs = Inl e \<Longrightarrow> \<exists>x \<in> set xs. f x = Inl e"
  by (induction xs) (auto simp: rbind_eq_Inl)

lemma rfold_Cons_InrE:
  assumes "rfold f s (x # xs) = Inr t"
  obtains u where "f s x = Inr u" and "rfold f u xs = Inr t"
  using assms by (auto simp: rbind_eq_Inr)

lemma rfold_append: "rfold f s (xs @ ys) = rbind (rfold f s xs) (\<lambda>t. rfold f t ys)"
proof (induction xs arbitrary: s)
  case (Cons x xs)
  then show ?case by (cases "f s x") simp_all
qed simp

lemma rfold_invariant:
  assumes "rfold f s xs = Inr t" and "P s"
    and "\<And>s x t. x \<in> set xs \<Longrightarrow> P s \<Longrightarrow> f s x = Inr t \<Longrightarrow> P t"
  shows "P t"
  using assms
proof (induction xs arbitrary: s)
  case (Cons x xs)
  from Cons.prems(1) obtain u where u: "f s x = Inr u" "rfold f u xs = Inr t"
    by (auto simp: rbind_eq_Inr)
  have "P u" by (rule Cons.prems(3) [OF _ Cons.prems(2) u(1)]) simp
  then show ?case
    by (rule Cons.IH [OF u(2)]) (rule Cons.prems(3), auto)
qed simp

subsection \<open>Hash maps\<close>

type_synonym ('k, 'v) hmap = "('k \<times> 'v) list"

abbreviation hm_get :: "('k, 'v) hmap \<Rightarrow> 'k \<Rightarrow> 'v option" where
  "hm_get \<equiv> map_of"

abbreviation hm_insert :: "'k \<Rightarrow> 'v \<Rightarrow> ('k, 'v) hmap \<Rightarrow> ('k, 'v) hmap" where
  "hm_insert \<equiv> AList.update"

definition hm_keys :: "('k, 'v) hmap \<Rightarrow> 'k list" where
  "hm_keys m = map fst m"

definition hm_wf :: "('k, 'v) hmap \<Rightarrow> bool" where
  "hm_wf m \<longleftrightarrow> distinct (map fst m)"

definition hm_entry :: "'k \<Rightarrow> 'v \<Rightarrow> ('v \<Rightarrow> 'v) \<Rightarrow> ('k, 'v) hmap \<Rightarrow> ('k, 'v) hmap" where
  "hm_entry k d f m = hm_insert k (f (case hm_get m k of None \<Rightarrow> d | Some v \<Rightarrow> v)) m"

locale hash_map =
  fixes get :: "'m \<Rightarrow> 'k \<Rightarrow> 'v option"
    and insert_entry :: "'k \<Rightarrow> 'v \<Rightarrow> 'm \<Rightarrow> 'm"
    and keys :: "'m \<Rightarrow> 'k list"
    and wf_map :: "'m \<Rightarrow> bool"
  assumes get_insert: "get (insert_entry k v m) = (get m)(k \<mapsto> v)"
    and keys_get: "set (keys m) = dom (get m)"
    and wf_insert: "wf_map m \<Longrightarrow> wf_map (insert_entry k v m)"
    and wf_keys: "wf_map m \<Longrightarrow> distinct (keys m)"
begin

lemma get_insert_same: "get (insert_entry k v m) k = Some v"
  by (simp add: get_insert)

lemma get_insert_other: "k \<noteq> k' \<Longrightarrow> get (insert_entry k v m) k' = get m k'"
  by (simp add: get_insert)

lemma keys_insert: "set (keys (insert_entry k v m)) = insert k (set (keys m))"
  by (auto simp: keys_get get_insert)

lemma keys_overwrite: "k \<in> set (keys m) \<Longrightarrow> set (keys (insert_entry k v m)) = set (keys m)"
  by (simp add: keys_insert insert_absorb)

lemma insert_commute:
  "k \<noteq> k' \<Longrightarrow> get (insert_entry k v (insert_entry k' v' m)) = get (insert_entry k' v' (insert_entry k v m))"
  by (auto simp: get_insert fun_eq_iff)

end

interpretation hm: hash_map map_of AList.update hm_keys hm_wf
proof unfold_locales
  show "map_of (AList.update k v m) = (map_of m)(k \<mapsto> v)" for k :: 'a and v :: 'b and m
    by (simp add: update_conv')
  show "set (hm_keys m) = dom (map_of m)" for m :: "('a \<times> 'b) list"
    by (simp add: hm_keys_def dom_map_of_conv_image_fst)
  show "hm_wf m \<Longrightarrow> hm_wf (AList.update k v m)" for k :: 'a and v :: 'b and m
    by (simp add: hm_wf_def distinct_update)
  show "hm_wf m \<Longrightarrow> distinct (hm_keys m)" for m :: "('a \<times> 'b) list"
    by (simp add: hm_wf_def hm_keys_def)
qed

lemma hm_get_insert [simp]: "hm_get (hm_insert k v m) = (hm_get m)(k \<mapsto> v)"
  by (rule hm.get_insert)

lemma hm_get_delete [simp]: "hm_get (AList.delete k m) = (hm_get m)(k := None)"
  by (simp add: delete_conv')

lemma hm_get_entry [simp]:
  "hm_get (hm_entry k d f m) =
     (hm_get m)(k \<mapsto> f (case hm_get m k of None \<Rightarrow> d | Some v \<Rightarrow> v))"
  by (simp add: hm_entry_def)

lemma hm_wf_entry: "hm_wf m \<Longrightarrow> hm_wf (hm_entry k d f m)"
  by (simp add: hm_entry_def hm.wf_insert)

lemma set_hm_keys: "set (hm_keys m) = dom (hm_get m)"
  by (rule hm.keys_get)

lemma hm_keys_overwrite: "k \<in> dom (hm_get m) \<Longrightarrow> hm_keys (hm_insert k v m) = hm_keys m"
  by (induction m) (auto simp: hm_keys_def)

lemma hm_insert_get_same: "hm_get m k = Some v \<Longrightarrow> hm_insert k v m = m"
  by (induction m) (auto split: if_splits)

lemma in_set_map_filter: "y \<in> set (List.map_filter f xs) \<longleftrightarrow> (\<exists>x \<in> set xs. f x = Some y)"
  by (force simp: map_filter_def)

subsection \<open>Removing by index\<close>

definition remove_nth :: "nat \<Rightarrow> 'x list \<Rightarrow> 'x list" where
  "remove_nth i xs = take i xs @ drop (Suc i) xs"

lemma remove_nth_length [simp]: "remove_nth (length xs) (xs @ x # ys) = xs @ ys"
  by (simp add: remove_nth_def)

subsection \<open>Sorting and removing duplicates\<close>

text \<open>\<open>Vec::dedup\<close> removes consecutive repeated elements, which is \<open>remdups_adj\<close>.\<close>

definition sort_dedup :: "'a :: linorder list \<Rightarrow> 'a list" where
  "sort_dedup xs = remdups_adj (sort xs)"

lemma set_sort_dedup [simp]: "set (sort_dedup xs) = set xs"
  by (simp add: sort_dedup_def)

lemma sorted_distinct_sort_dedup: "sorted (sort_dedup xs) \<and> distinct (sort_dedup xs)"
proof -
  have "sorted ys \<Longrightarrow> distinct (remdups_adj ys)" for ys :: "'a list"
    by (induction ys rule: remdups_adj.induct) (auto simp: less_le)
  then show ?thesis by (simp add: sort_dedup_def sorted_remdups_adj)
qed

lemma sort_dedup_cong: "set xs = set ys \<Longrightarrow> sort_dedup xs = sort_dedup ys"
  using sorted_distinct_sort_dedup [of xs] sorted_distinct_sort_dedup [of ys]
  by (intro sorted_distinct_set_unique) auto

lemma sort_dedup_Nil [simp]: "sort_dedup xs = [] \<longleftrightarrow> xs = []"
  by (metis set_empty set_sort_dedup)

end
