(* ===== verification/Refs.thy ===== *)
theory Refs
  imports Prelude "HOL-Library.Char_ord" "HOL-Library.List_Lexorder"
begin

text \<open>
  The references by which a diagram names its operations and ports:
  \<open>src/src/identifier.rs\<close>, \<open>src/src/diagram/operation_ref.rs\<close>,
  \<open>src/src/diagram/output_ref.rs\<close>, \<open>src/src/diagram/diagram_context.rs\<close> and the
  \<open>NextOperation\<close> part of \<open>src/src/diagram.rs\<close>.

  The datatypes are the source's enums and structs, \<open>in_namespaces\<close> puts a reference below a
  list of parent namespaces, \<open>display_*\<close> are the \<open>Display\<close> implementations.
  The lemmas show that placing references below namespaces composes, is injective, keeps the
  references of sibling operations apart, and that the printed form of a reference with plain
  names determines the reference.
\<close>

subsection \<open>Identifiers\<close>

datatype ident = Name name | Index nat

fun is_name :: "ident \<Rightarrow> bool" where
  "is_name (Name _) = True"
| "is_name (Index _) = False"

fun is_index :: "ident \<Rightarrow> bool" where
  "is_index (Index _) = True"
| "is_index (Name _) = False"

text \<open>The order derived for \<open>Identifier\<close>: variants in order of declaration, then the payload.\<close>

instantiation ident :: linorder
begin

fun less_eq_ident :: "ident \<Rightarrow> ident \<Rightarrow> bool" where
  "less_eq_ident (Name a) (Name b) \<longleftrightarrow> a \<le> b"
| "less_eq_ident (Name a) (Index i) \<longleftrightarrow> True"
| "less_eq_ident (Index i) (Name b) \<longleftrightarrow> False"
| "less_eq_ident (Index i) (Index j) \<longleftrightarrow> i \<le> j"

definition less_ident :: "ident \<Rightarrow> ident \<Rightarrow> bool" where
  "less_ident a b \<longleftrightarrow> a \<le> b \<and> \<not> b \<le> a"

instance
proof
  fix x y z :: ident
  show "x < y \<longleftrightarrow> x \<le> y \<and> \<not> y \<le> x" by (rule less_ident_def)
  show "x \<le> x" by (cases x) auto
  show "x \<le> y \<Longrightarrow> y \<le> z \<Longrightarrow> x \<le> z" by (cases x; cases y; cases z) auto
  show "x \<le> y \<Longrightarrow> y \<le> x \<Longrightarrow> x = y" by (cases x; cases y) auto
  show "x \<le> y \<or> y \<le> x" by (cases x; cases y) auto
qed

end

subsection \<open>Targets written in a diagram\<close>

datatype builtin_target = BuiltinTerminate | BuiltinDispose | BuiltinCancel | BuiltinImplicitCancel

record namespaced_operation =
  nsop_namespace :: name
  nsop_operation :: name

datatype next_operation =
    NextName name
  | NextBuiltin builtin_target
  | NextNamespace namespaced_operation

definition next_dispose :: next_operation where
  "next_dispose = NextBuiltin BuiltinDispose"

definition next_terminate :: next_operation where
  "next_terminate = NextBuiltin BuiltinTerminate"

fun display_builtin_target :: "builtin_target \<Rightarrow> string" where
  "display_builtin_target BuiltinTerminate = ''terminate''"
| "display_builtin_target BuiltinDispose = ''dispose''"
| "display_builtin_target BuiltinCancel = ''cancel''"
| "display_builtin_target BuiltinImplicitCancel = ''implicit_cancel''"

fun display_next_operation :: "next_operation \<Rightarrow> string" where
  "display_next_operation (NextName operation_id) = operation_id"
| "display_next_operation (NextNamespace ns) =
     nsop_namespace ns @ '':'' @ nsop_operation ns"
| "display_next_operation (NextBuiltin builtin) =
     ''builtin:'' @ display_builtin_target builtin"

subsection \<open>Namespaces\<close>

type_synonym namespace_list = "name list"

definition for_child_of :: "name \<Rightarrow> namespace_list" where
  "for_child_of parent = [parent]"

text \<open>Parent namespaces go to the front, the existing ones to the back.\<close>

definition with_parent_namespaces :: "namespace_list \<Rightarrow> name list \<Rightarrow> namespace_list" where
  "with_parent_namespaces self parent_namespaces = parent_namespaces @ self"

definition display_namespaces :: "namespace_list \<Rightarrow> string" where
  "display_namespaces nss = concat (map (\<lambda>n. n @ '':'') nss)"

subsection \<open>References to operations\<close>

record named_operation_ref =
  nor_namespaces :: namespace_list
  nor_exposed_namespace :: "name option"
  nor_name :: name

definition named_in_namespaces :: "name list \<Rightarrow> named_operation_ref \<Rightarrow> named_operation_ref" where
  "named_in_namespaces parents r =
     r\<lparr>nor_namespaces := with_parent_namespaces (nor_namespaces r) parents\<rparr>"

definition named_of_name :: "name \<Rightarrow> named_operation_ref" where
  "named_of_name n = \<lparr>nor_namespaces = [], nor_exposed_namespace = None, nor_name = n\<rparr>"

definition named_of_namespaced :: "namespaced_operation \<Rightarrow> named_operation_ref" where
  "named_of_namespaced op =
     \<lparr>nor_namespaces = [], nor_exposed_namespace = Some (nsop_namespace op),
      nor_name = nsop_operation op\<rparr>"

definition display_named :: "named_operation_ref \<Rightarrow> string" where
  "display_named r =
     display_namespaces (nor_namespaces r)
     @ (case nor_exposed_namespace r of
          Some exposed \<Rightarrow> exposed @ '':(exposed):''
        | None \<Rightarrow> [])
     @ nor_name r"

record stream_out_ref =
  sor_namespaces :: namespace_list
  sor_name :: name

definition stream_in_namespaces :: "name list \<Rightarrow> stream_out_ref \<Rightarrow> stream_out_ref" where
  "stream_in_namespaces parents r =
     r\<lparr>sor_namespaces := with_parent_namespaces (sor_namespaces r) parents\<rparr>"

definition display_stream_out :: "stream_out_ref \<Rightarrow> string" where
  "display_stream_out r =
     display_namespaces (sor_namespaces r) @ ''(stream_out:'' @ sor_name r @ '')''"

datatype operation_ref =
    OpNamed named_operation_ref
  | OpTerminate namespace_list
  | OpDispose
  | OpCancel namespace_list
  | OpImplicitCancel namespace_list
  | OpStreamOut stream_out_ref

fun in_namespaces :: "name list \<Rightarrow> operation_ref \<Rightarrow> operation_ref" where
  "in_namespaces parents (OpNamed named) = OpNamed (named_in_namespaces parents named)"
| "in_namespaces parents (OpTerminate nss) = OpTerminate (with_parent_namespaces nss parents)"
| "in_namespaces parents OpDispose = OpDispose"
| "in_namespaces parents (OpCancel nss) = OpCancel (with_parent_namespaces nss parents)"
| "in_namespaces parents (OpImplicitCancel nss) =
     OpImplicitCancel (with_parent_namespaces nss parents)"
| "in_namespaces parents (OpStreamOut stream) = OpStreamOut (stream_in_namespaces parents stream)"

definition in_namespace :: "name \<Rightarrow> operation_ref \<Rightarrow> operation_ref" where
  "in_namespace parent r = in_namespaces [parent] r"

definition scope_stream_out :: "name \<Rightarrow> name \<Rightarrow> operation_ref" where
  "scope_stream_out scope_name stream_name =
     OpStreamOut \<lparr>sor_namespaces = for_child_of scope_name, sor_name = stream_name\<rparr>"

definition op_stream_out :: "name \<Rightarrow> operation_ref" where
  "op_stream_out stream_name = OpStreamOut \<lparr>sor_namespaces = [], sor_name = stream_name\<rparr>"

definition terminate_for :: "name \<Rightarrow> operation_ref" where
  "terminate_for namespace = OpTerminate (for_child_of namespace)"

definition cancel_for :: "name \<Rightarrow> operation_ref" where
  "cancel_for namespace = OpCancel (for_child_of namespace)"

definition implicit_cancel_for :: "name \<Rightarrow> operation_ref" where
  "implicit_cancel_for namespace = OpImplicitCancel (for_child_of namespace)"

definition exposed_input :: "name \<Rightarrow> name \<Rightarrow> operation_ref" where
  "exposed_input section_id input_id =
     OpNamed \<lparr>nor_namespaces = [], nor_exposed_namespace = Some section_id,
              nor_name = input_id\<rparr>"

fun op_of_next :: "next_operation \<Rightarrow> operation_ref" where
  "op_of_next (NextName n) = OpNamed (named_of_name n)"
| "op_of_next (NextNamespace nsop) = OpNamed (named_of_namespaced nsop)"
| "op_of_next (NextBuiltin BuiltinTerminate) = OpTerminate []"
| "op_of_next (NextBuiltin BuiltinDispose) = OpDispose"
| "op_of_next (NextBuiltin BuiltinCancel) = OpCancel []"
| "op_of_next (NextBuiltin BuiltinImplicitCancel) = OpImplicitCancel []"

definition op_of_name :: "name \<Rightarrow> operation_ref" where
  "op_of_name n = OpNamed (named_of_name n)"

definition next_in_namespace :: "name \<Rightarrow> next_operation \<Rightarrow> operation_ref" where
  "next_in_namespace namespace next = in_namespaces [namespace] (op_of_next next)"

fun display_op :: "operation_ref \<Rightarrow> string" where
  "display_op (OpNamed named) = display_named named"
| "display_op (OpTerminate nss) = display_namespaces nss @ ''(terminate)''"
| "display_op (OpCancel nss) = display_namespaces nss @ ''(cancel)''"
| "display_op (OpImplicitCancel nss) = display_namespaces nss @ ''(implicit_cancel)''"
| "display_op OpDispose = ''(dispose)''"
| "display_op (OpStreamOut stream) = display_stream_out stream"

subsection \<open>References to outputs\<close>

type_synonym output_key = "ident list"

record named_output_ref =
  nout_namespaces :: namespace_list
  nout_operation :: name
  nout_key :: output_key

definition output_key_of :: "name \<Rightarrow> output_key \<Rightarrow> named_output_ref" where
  "output_key_of operation key =
     \<lparr>nout_namespaces = [], nout_operation = operation, nout_key = key\<rparr>"

definition out_next :: "name \<Rightarrow> named_output_ref" where
  "out_next operation = output_key_of operation [Name ''next'']"

definition out_stream_out :: "name \<Rightarrow> name \<Rightarrow> named_output_ref" where
  "out_stream_out operation stream = output_key_of operation [Name ''stream_out'', Name stream]"

definition out_ok :: "name \<Rightarrow> named_output_ref" where
  "out_ok operation = output_key_of operation [Name ''ok'']"

definition out_err :: "name \<Rightarrow> named_output_ref" where
  "out_err operation = output_key_of operation [Name ''err'']"

definition out_next_index :: "name \<Rightarrow> nat \<Rightarrow> named_output_ref" where
  "out_next_index operation i = output_key_of operation [Name ''next'', Index i]"

definition out_sequential :: "name \<Rightarrow> nat \<Rightarrow> named_output_ref" where
  "out_sequential operation i = output_key_of operation [Name ''sequential'', Index i]"

definition out_keyed :: "name \<Rightarrow> name \<Rightarrow> named_output_ref" where
  "out_keyed operation key = output_key_of operation [Name ''keyed'', Name key]"

definition out_remaining :: "name \<Rightarrow> named_output_ref" where
  "out_remaining operation = output_key_of operation [Name ''remaining'']"

definition out_section_output :: "name \<Rightarrow> name \<Rightarrow> named_output_ref" where
  "out_section_output operation output = output_key_of operation [Name ''connect'', Name output]"

definition named_output_in_namespaces :: "name list \<Rightarrow> named_output_ref \<Rightarrow> named_output_ref" where
  "named_output_in_namespaces parents r =
     r\<lparr>nout_namespaces := with_parent_namespaces (nout_namespaces r) parents\<rparr>"

datatype output_ref =
    OutNamed named_output_ref
  | OutStart namespace_list

fun output_in_namespaces :: "name list \<Rightarrow> output_ref \<Rightarrow> output_ref" where
  "output_in_namespaces parents (OutNamed named) =
     OutNamed (named_output_in_namespaces parents named)"
| "output_in_namespaces parents (OutStart nss) = OutStart (with_parent_namespaces nss parents)"

definition out_start :: output_ref where
  "out_start = OutStart []"

subsection \<open>Ports\<close>

datatype port_ref =
    PortIn operation_ref
  | PortOut output_ref

fun port_in_namespaces :: "name list \<Rightarrow> port_ref \<Rightarrow> port_ref" where
  "port_in_namespaces parents (PortIn input) = PortIn (in_namespaces parents input)"
| "port_in_namespaces parents (PortOut output) = PortOut (output_in_namespaces parents output)"

text \<open>
  \<open>DiagramContext::into_operation_ref\<close>, \<open>into_output_ref\<close>, \<open>into_port_ref\<close> and
  \<open>into_child_operation_ref\<close>: the context contributes the namespaces of the operation that is
  being processed.
\<close>

definition into_operation_ref :: "namespace_list \<Rightarrow> operation_ref \<Rightarrow> operation_ref" where
  "into_operation_ref nss r = in_namespaces nss r"

definition into_output_ref :: "namespace_list \<Rightarrow> output_ref \<Rightarrow> output_ref" where
  "into_output_ref nss r = output_in_namespaces nss r"

definition into_port_ref :: "namespace_list \<Rightarrow> port_ref \<Rightarrow> port_ref" where
  "into_port_ref nss r = port_in_namespaces nss r"

definition into_child_operation_ref :: "namespace_list \<Rightarrow> name \<Rightarrow> operation_ref \<Rightarrow> operation_ref" where
  "into_child_operation_ref nss parent child_id =
     in_namespaces nss (in_namespaces [parent] child_id)"

subsection \<open>Placing references below namespaces\<close>

lemma with_parent_namespaces_compose:
  "with_parent_namespaces (with_parent_namespaces nss qs) ps = with_parent_namespaces nss (ps @ qs)"
  by (simp add: with_parent_namespaces_def)

lemma with_parent_namespaces_Nil [simp]: "with_parent_namespaces nss [] = nss"
  by (simp add: with_parent_namespaces_def)

lemma with_parent_namespaces_inj [simp]:
  "with_parent_namespaces nss ps = with_parent_namespaces nss' ps \<longleftrightarrow> nss = nss'"
  by (simp add: with_parent_namespaces_def)

lemma in_namespaces_compose: "in_namespaces ps (in_namespaces qs r) = in_namespaces (ps @ qs) r"
  by (cases r)
     (simp_all add: named_in_namespaces_def stream_in_namespaces_def with_parent_namespaces_compose)

lemma in_namespaces_Nil [simp]: "in_namespaces [] r = r"
  by (cases r) (simp_all add: named_in_namespaces_def stream_in_namespaces_def)

lemma output_in_namespaces_compose:
  "output_in_namespaces ps (output_in_namespaces qs r) = output_in_namespaces (ps @ qs) r"
  by (cases r) (simp_all add: named_output_in_namespaces_def with_parent_namespaces_compose)

lemma port_in_namespaces_compose:
  "port_in_namespaces ps (port_in_namespaces qs r) = port_in_namespaces (ps @ qs) r"
  by (cases r) (simp_all add: in_namespaces_compose output_in_namespaces_compose)

lemma named_in_namespaces_inj [simp]:
  "named_in_namespaces ps r = named_in_namespaces ps r' \<longleftrightarrow> r = r'"
  by (cases r; cases r') (simp add: named_in_namespaces_def)

lemma stream_in_namespaces_inj [simp]:
  "stream_in_namespaces ps r = stream_in_namespaces ps r' \<longleftrightarrow> r = r'"
  by (cases r; cases r') (simp add: stream_in_namespaces_def)

lemma in_namespaces_inj [simp]: "in_namespaces ps r = in_namespaces ps r' \<longleftrightarrow> r = r'"
  by (cases r; cases r') simp_all

lemma named_output_in_namespaces_inj [simp]:
  "named_output_in_namespaces ps r = named_output_in_namespaces ps r' \<longleftrightarrow> r = r'"
  by (cases r; cases r') (simp add: named_output_in_namespaces_def)

lemma output_in_namespaces_inj [simp]:
  "output_in_namespaces ps r = output_in_namespaces ps r' \<longleftrightarrow> r = r'"
  by (cases r; cases r') simp_all

lemma port_in_namespaces_inj [simp]:
  "port_in_namespaces ps r = port_in_namespaces ps r' \<longleftrightarrow> r = r'"
  by (cases r; cases r') simp_all

text \<open>
  The reference of a named operation determines the namespaces it lives in and its name, so
  operations of different scopes and sections never share a key, and an operation exposed by
  a section is never confused with one inside it.
\<close>

lemma into_operation_ref_unique:
  "into_operation_ref ps (op_of_name n) = into_operation_ref qs (op_of_name m)
     \<longleftrightarrow> ps = qs \<and> n = m"
  by (auto simp: into_operation_ref_def op_of_name_def named_of_name_def named_in_namespaces_def
        with_parent_namespaces_def)

lemma into_operation_ref_exposed:
  "into_operation_ref ps (op_of_name n) \<noteq> into_operation_ref qs (exposed_input s m)"
  by (simp add: into_operation_ref_def op_of_name_def named_of_name_def named_in_namespaces_def
        exposed_input_def)

lemma op_of_next_namespaced:
  "op_of_next (NextNamespace \<lparr>nsop_namespace = s, nsop_operation = n\<rparr>) = exposed_input s n"
  by (simp add: named_of_namespaced_def exposed_input_def)

lemma into_child_operation_ref_eq:
  "into_child_operation_ref nss s r = into_operation_ref (nss @ [s]) r"
  by (simp add: into_child_operation_ref_def into_operation_ref_def in_namespaces_compose)

subsection \<open>The printed form of a reference\<close>

text \<open>
  A printed reference is a list of segments joined by colons. \<open>plain\<close> names contain neither a
  colon nor an opening bracket; on references built from plain names the printed form is
  unambiguous.
\<close>

definition plain :: "name \<Rightarrow> bool" where
  "plain n \<longleftrightarrow> CHR '':'' \<notin> set n \<and> CHR ''('' \<notin> set n"

fun plain_ref :: "operation_ref \<Rightarrow> bool" where
  "plain_ref (OpNamed r) \<longleftrightarrow>
     list_all plain (nor_namespaces r) \<and> plain (nor_name r)
     \<and> (case nor_exposed_namespace r of None \<Rightarrow> True | Some e \<Rightarrow> plain e)"
| "plain_ref (OpStreamOut r) \<longleftrightarrow> list_all plain (sor_namespaces r) \<and> plain (sor_name r)"
| "plain_ref (OpTerminate nss) \<longleftrightarrow> list_all plain nss"
| "plain_ref (OpCancel nss) \<longleftrightarrow> list_all plain nss"
| "plain_ref (OpImplicitCancel nss) \<longleftrightarrow> list_all plain nss"
| "plain_ref OpDispose \<longleftrightarrow> True"

fun ref_segments :: "operation_ref \<Rightarrow> string list" where
  "ref_segments (OpNamed r) =
     nor_namespaces r
     @ (case nor_exposed_namespace r of None \<Rightarrow> [] | Some e \<Rightarrow> [e, ''(exposed)''])
     @ [nor_name r]"
| "ref_segments (OpStreamOut r) = sor_namespaces r @ [''(stream_out'', sor_name r @ '')'']"
| "ref_segments (OpTerminate nss) = nss @ [''(terminate)'']"
| "ref_segments (OpCancel nss) = nss @ [''(cancel)'']"
| "ref_segments (OpImplicitCancel nss) = nss @ [''(implicit_cancel)'']"
| "ref_segments OpDispose = [''(dispose)'']"

fun join_colon :: "string list \<Rightarrow> string" where
  "join_colon [] = []"
| "join_colon [s] = s"
| "join_colon (s # t # ss) = s @ '':'' @ join_colon (t # ss)"

lemma join_colon_snoc: "join_colon (nss @ [s]) = display_namespaces nss @ s"
  by (induction nss rule: join_colon.induct) (simp_all add: display_namespaces_def)

lemma display_namespaces_append:
  "display_namespaces (xs @ ys) = display_namespaces xs @ display_namespaces ys"
  by (simp add: display_namespaces_def)

lemma join_colon_snoc2:
  "join_colon (nss @ [s, t]) = display_namespaces nss @ s @ '':'' @ t"
  using join_colon_snoc [of "nss @ [s]" t]
  by (simp add: display_namespaces_append) (simp add: display_namespaces_def)

lemma join_colon_snoc3:
  "join_colon (nss @ [s, t, u]) = display_namespaces nss @ s @ '':'' @ t @ '':'' @ u"
  using join_colon_snoc [of "nss @ [s, t]" u]
  by (simp add: display_namespaces_append) (simp add: display_namespaces_def)

lemma display_op_segments: "display_op r = join_colon (ref_segments r)"
proof (cases r)
  case (OpNamed n)
  then show ?thesis
    by (cases "nor_exposed_namespace n")
       (simp_all add: display_named_def join_colon_snoc join_colon_snoc3)
next
  case OpDispose
  then show ?thesis by simp
qed (simp_all add: display_stream_out_def join_colon_snoc join_colon_snoc2)

lemma split_at_colon:
  assumes "CHR '':'' \<notin> set s" and "CHR '':'' \<notin> set s'"
    and "s @ '':'' @ r = s' @ '':'' @ r'"
  shows "s = s' \<and> r = r'"
  using assms
proof (induction s arbitrary: s')
  case Nil
  then show ?case by (cases s') auto
next
  case (Cons c s)
  then show ?case by (cases s') auto
qed

lemma join_colon_inj:
  assumes "\<forall>s \<in> set xs. CHR '':'' \<notin> set s" and "\<forall>s \<in> set ys. CHR '':'' \<notin> set s"
    and "xs \<noteq> []" and "ys \<noteq> []" and "join_colon xs = join_colon ys"
  shows "xs = ys"
  using assms
proof (induction xs arbitrary: ys rule: join_colon.induct)
  case 1
  then show ?case by simp
next
  case (2 s)
  then show ?case by (cases ys rule: join_colon.cases) auto
next
  case (3 s t ss)
  show ?case
  proof (cases ys rule: join_colon.cases)
    case (3 s' t' ss')
    with "3.prems" split_at_colon [of s s' "join_colon (t # ss)" "join_colon (t' # ss')"]
    have "s = s'" "join_colon (t # ss) = join_colon (t' # ss')" by auto
    with "3.IH" [of "t' # ss'"] "3.prems" 3 show ?thesis by simp
  qed (use "3.prems" in auto)
qed

lemma plain_colon: "plain n \<Longrightarrow> CHR '':'' \<notin> set n"
  by (simp add: plain_def)

lemma plain_bracket: "plain n \<Longrightarrow> n \<noteq> CHR ''('' # s"
  by (auto simp: plain_def)

lemma plain_in_namespaces: "list_all plain nss \<Longrightarrow> s \<in> set nss \<Longrightarrow> plain s"
  by (simp add: list_all_iff)

lemma ref_segments_colon_free:
  "plain_ref r \<Longrightarrow> s \<in> set (ref_segments r) \<Longrightarrow> CHR '':'' \<notin> set s"
  by (cases r) (auto simp: list_all_iff plain_def split: option.splits)

lemma ref_segments_nonempty: "ref_segments r \<noteq> []"
  by (cases r) simp_all

text \<open>The last three segments tell the variants of a reference apart: they can be read back.\<close>

definition read_reversed :: "string \<Rightarrow> string list \<Rightarrow> operation_ref" where
  "read_reversed s ss =
     (if s = ''(terminate)'' then OpTerminate (rev ss)
      else if s = ''(cancel)'' then OpCancel (rev ss)
      else if s = ''(implicit_cancel)'' then OpImplicitCancel (rev ss)
      else if s = ''(dispose)'' then OpDispose
      else if ss \<noteq> [] \<and> hd ss = ''(stream_out''
        then OpStreamOut \<lparr>sor_namespaces = rev (tl ss), sor_name = butlast s\<rparr>
      else if ss \<noteq> [] \<and> hd ss = ''(exposed)''
        then OpNamed \<lparr>nor_namespaces = rev (tl (tl ss)),
               nor_exposed_namespace = Some (hd (tl ss)), nor_name = s\<rparr>
      else OpNamed \<lparr>nor_namespaces = rev ss, nor_exposed_namespace = None, nor_name = s\<rparr>)"

definition read_segments :: "string list \<Rightarrow> operation_ref" where
  "read_segments ss = read_reversed (hd (rev ss)) (tl (rev ss))"

lemma plain_neq_bracket: "plain n \<Longrightarrow> hd (n @ s) = CHR ''('' \<Longrightarrow> n = []"
  by (cases n) (auto simp: plain_def)

lemma plain_name_neq:
  assumes "plain n"
  shows "n \<noteq> CHR ''('' # s" and "n @ '')'' \<noteq> CHR ''('' # s"
  using assms by (cases n; auto simp: plain_def)+

lemma plain_hd: "list_all plain nss \<Longrightarrow> nss \<noteq> [] \<Longrightarrow> hd (rev nss) \<noteq> CHR ''('' # s"
  using plain_name_neq(1) by (metis hd_in_set list_all_iff rev_is_Nil_conv set_rev)

lemma read_segments_ref: "plain_ref r \<Longrightarrow> read_segments (ref_segments r) = r"
proof (cases r)
  case (OpNamed n)
  moreover assume "plain_ref r"
  ultimately show ?thesis
    by (cases n; cases "nor_exposed_namespace n")
       (auto simp: read_segments_def read_reversed_def plain_name_neq plain_hd)
next
  case (OpStreamOut x)
  moreover assume "plain_ref r"
  ultimately show ?thesis
    by (cases x) (simp add: read_segments_def read_reversed_def plain_name_neq)
qed (simp_all add: read_segments_def read_reversed_def)

lemma display_op_determines:
  assumes "plain_ref r" and "plain_ref r'" and "display_op r = display_op r'"
  shows "r = r'"
proof -
  have "ref_segments r = ref_segments r'"
    using assms ref_segments_colon_free ref_segments_nonempty
    by (intro join_colon_inj) (auto simp: display_op_segments)
  then show ?thesis
    using read_segments_ref assms(1,2) by metis
qed

end
