(* ===== verification/Layout.thy ===== *)
theory Layout
  imports Prelude Refs
begin

text \<open>
  Layouts of buffer maps, \<open>src/src/buffer/buffer_map.rs\<close>: the error report
  \<open>IncompatibleLayout\<close>, the helper \<open>MessageTypeHintEvaluation\<close> with which derived layouts
  compute the message types of their buffers, and the layout hints that the diagram's type
  inference reads. Buffers and their downcasts are parameters (\<open>downcast\<close>, \<open>type_name\<close>).

  The lemmas characterise what a finished evaluation accepts: exactly the layouts whose fields
  are all present, each hinted once. Identifiers that no field asks for are put into the list of
  forbidden buffers, which \<open>as_result\<close> does not look at.
\<close>

subsection \<open>The error report\<close>

record buffer_incompatibility =
  bi_identifier :: ident
  bi_expected_buffer :: string
  bi_received_message_type :: string

record incompatible_layout =
  missing_buffers :: "ident list"
  forbidden_buffers :: "ident list"
  incompatible_buffers :: "buffer_incompatibility list"

definition empty_layout_report :: incompatible_layout where
  "empty_layout_report =
     \<lparr>missing_buffers = [], forbidden_buffers = [], incompatible_buffers = []\<rparr>"

definition as_result :: "incompatible_layout \<Rightarrow> incompatible_layout + unit" where
  "as_result self =
     (if missing_buffers self \<noteq> [] then Inl self
      else if incompatible_buffers self \<noteq> [] then Inl self
      else Inr ())"

definition require_buffer_for_identifier ::
  "('b \<Rightarrow> 'c option) \<Rightarrow> string \<Rightarrow> ('b \<Rightarrow> string) \<Rightarrow> ident \<Rightarrow> (ident, 'b) hmap
     \<Rightarrow> incompatible_layout \<Rightarrow> incompatible_layout \<times> (unit + 'c)" where
  "require_buffer_for_identifier downcast expected type_name i buffers self =
     (case hm_get buffers i of
        Some buffer \<Rightarrow>
          (case downcast buffer of
             Some c \<Rightarrow> (self, Inr c)
           | None \<Rightarrow>
               (self\<lparr>incompatible_buffers := incompatible_buffers self @
                  [\<lparr>bi_identifier = i, bi_expected_buffer = expected,
                    bi_received_message_type = type_name buffer\<rparr>]\<rparr>, Inl ()))
      | None \<Rightarrow> (self\<lparr>missing_buffers := missing_buffers self @ [i]\<rparr>, Inl ()))"

definition require_buffer_for_borrowed_name ::
  "('b \<Rightarrow> 'c option) \<Rightarrow> string \<Rightarrow> ('b \<Rightarrow> string) \<Rightarrow> string \<Rightarrow> (ident, 'b) hmap
     \<Rightarrow> incompatible_layout \<Rightarrow> incompatible_layout \<times> (unit + 'c)" where
  "require_buffer_for_borrowed_name downcast expected type_name expected_name buffers self =
     (case hm_get buffers (Name expected_name) of
        Some buffer \<Rightarrow>
          (case downcast buffer of
             Some c \<Rightarrow> (self, Inr c)
           | None \<Rightarrow>
               (self\<lparr>incompatible_buffers := incompatible_buffers self @
                  [\<lparr>bi_identifier = Name expected_name, bi_expected_buffer = expected,
                    bi_received_message_type = type_name buffer\<rparr>]\<rparr>, Inl ()))
      | None \<Rightarrow>
          (self\<lparr>missing_buffers := missing_buffers self @ [Name expected_name]\<rparr>, Inl ()))"

subsection \<open>Layout hints\<close>

datatype 't message_type_hint = Exact 't | Fallback 't

fun hint_is_exact :: "'t message_type_hint \<Rightarrow> bool" where
  "hint_is_exact (Exact _) = True"
| "hint_is_exact (Fallback _) = False"

fun as_exact :: "'t message_type_hint \<Rightarrow> 't option" where
  "as_exact (Exact info) = Some info"
| "as_exact (Fallback _) = None"

fun hint_is_fallback :: "'t message_type_hint \<Rightarrow> bool" where
  "hint_is_fallback (Fallback _) = True"
| "hint_is_fallback (Exact _) = False"

type_synonym 't message_type_hint_map = "(ident, 't message_type_hint) hmap"

record 't dynamic_layout_hints =
  dyn_indices :: bool
  dyn_names :: bool
  dyn_hint :: "'t message_type_hint option"

datatype 't layout_hints =
    LayoutDynamic "'t dynamic_layout_hints"
  | LayoutStatic "'t message_type_hint_map"

fun is_compatible :: "'t dynamic_layout_hints \<Rightarrow> ident \<Rightarrow> bool" where
  "is_compatible hints (Index _) = dyn_indices hints"
| "is_compatible hints (Name _) = dyn_names hints"

subsection \<open>Evaluating the hints of a layout\<close>

text \<open>\<open>unevaluated\<close> is a \<open>HashSet\<close>; the order of the list is its iteration order.\<close>

record 't hint_evaluation =
  unevaluated :: "ident list"
  evaluated :: "'t message_type_hint_map"
  compatibility :: incompatible_layout

definition hint_evaluation_new :: "ident list \<Rightarrow> 't hint_evaluation" where
  "hint_evaluation_new identifiers =
     \<lparr>unevaluated = identifiers, evaluated = [], compatibility = empty_layout_report\<rparr>"

definition next_unevaluated :: "'t hint_evaluation \<Rightarrow> ident option" where
  "next_unevaluated self =
     (case unevaluated self of [] \<Rightarrow> None | i # _ \<Rightarrow> Some i)"

definition forbid_unless :: "(ident \<Rightarrow> bool) \<Rightarrow> 't hint_evaluation \<Rightarrow> 't hint_evaluation" where
  "forbid_unless ok self =
     self\<lparr>unevaluated := filter ok (unevaluated self),
          compatibility := (compatibility self)
            \<lparr>forbidden_buffers := forbidden_buffers (compatibility self)
               @ filter (\<lambda>i. \<not> ok i) (unevaluated self)\<rparr>\<rparr>"

definition next_index_required :: "'t hint_evaluation \<Rightarrow> 't hint_evaluation \<times> ident option" where
  "next_index_required self =
     (let self' = forbid_unless is_index self in (self', next_unevaluated self'))"

definition next_name_required :: "'t hint_evaluation \<Rightarrow> 't hint_evaluation \<times> ident option" where
  "next_name_required self =
     (let self' = forbid_unless is_name self in (self', next_unevaluated self'))"

definition set_hint ::
  "ident \<Rightarrow> 't message_type_hint \<Rightarrow> 't hint_evaluation \<Rightarrow> 't hint_evaluation" where
  "set_hint i hint self =
     (if i \<notin> set (unevaluated self)
      then self\<lparr>compatibility := (compatibility self)
             \<lparr>missing_buffers := missing_buffers (compatibility self) @ [i]\<rparr>\<rparr>
      else self\<lparr>unevaluated := remove1 i (unevaluated self),
                evaluated := hm_insert i hint (evaluated self)\<rparr>)"

definition hint_exact :: "'t \<Rightarrow> ident \<Rightarrow> 't hint_evaluation \<Rightarrow> 't hint_evaluation" where
  "hint_exact t i self = set_hint i (Exact t) self"

definition hint_fallback :: "'t \<Rightarrow> ident \<Rightarrow> 't hint_evaluation \<Rightarrow> 't hint_evaluation" where
  "hint_fallback t i self = set_hint i (Fallback t) self"

definition evaluate_hints ::
  "'t hint_evaluation \<Rightarrow> incompatible_layout + 't message_type_hint_map" where
  "evaluate_hints self =
     (let report = (compatibility self)
        \<lparr>forbidden_buffers := forbidden_buffers (compatibility self) @ unevaluated self\<rparr>
      in rbind (as_result report) (\<lambda>_. Inr (evaluated self)))"

subsection \<open>What a finished evaluation accepts\<close>

lemma as_result_Inr: "as_result r = Inr () \<longleftrightarrow> missing_buffers r = [] \<and> incompatible_buffers r = []"
  by (simp add: as_result_def)

lemma as_result_Inl: "as_result r = Inl e \<Longrightarrow> e = r"
  by (auto simp: as_result_def split: if_splits)

text \<open>The hints of a layout are set one after the other, as the derived code does.\<close>

definition set_hints ::
  "(ident \<times> 't message_type_hint) list \<Rightarrow> 't hint_evaluation \<Rightarrow> 't hint_evaluation" where
  "set_hints hs ev = fold (\<lambda>(i, h). set_hint i h) hs ev"

lemma set_hints_Cons: "set_hints ((i, h) # hs) ev = set_hints hs (set_hint i h ev)"
  by (simp add: set_hints_def)

lemma set_hints_Nil [simp]: "set_hints [] ev = ev"
  by (simp add: set_hints_def)

lemma set_hint_missing_mono:
  "missing_buffers (compatibility ev) \<noteq> [] \<Longrightarrow>
   missing_buffers (compatibility (set_hint i h ev)) \<noteq> []"
  by (simp add: set_hint_def)

lemma set_hints_missing_mono:
  "missing_buffers (compatibility ev) \<noteq> [] \<Longrightarrow>
   missing_buffers (compatibility (set_hints hs ev)) \<noteq> []"
proof (induction hs arbitrary: ev)
  case (Cons ih hs)
  then show ?case
    by (cases ih) (simp add: set_hints_Cons set_hint_missing_mono)
qed simp

lemma set_hints_incompatible:
  "incompatible_buffers (compatibility (set_hints hs ev)) = incompatible_buffers (compatibility ev)"
proof (induction hs arbitrary: ev)
  case (Cons ih hs)
  then show ?case by (cases ih) (simp add: set_hints_Cons set_hint_def)
qed simp

lemma set_hints_missing:
  assumes "distinct (unevaluated ev)" and "missing_buffers (compatibility ev) = []"
  shows "missing_buffers (compatibility (set_hints hs ev)) = []
           \<longleftrightarrow> distinct (map fst hs) \<and> set (map fst hs) \<subseteq> set (unevaluated ev)"
  using assms
proof (induction hs arbitrary: ev)
  case (Cons ih hs)
  obtain i h where ih: "ih = (i, h)" by (cases ih)
  show ?case
  proof (cases "i \<in> set (unevaluated ev)")
    case True
    with Cons.prems Cons.IH [of "set_hint i h ev"] ih show ?thesis
      by (auto simp: set_hints_Cons set_hint_def)
  next
    case False
    then have "missing_buffers (compatibility (set_hint i h ev)) \<noteq> []"
      by (simp add: set_hint_def)
    with False ih show ?thesis
      using set_hints_missing_mono by (auto simp: set_hints_Cons)
  qed
qed simp

lemma set_hints_evaluated:
  assumes "distinct (unevaluated ev)" and "distinct (map fst hs)"
    and "set (map fst hs) \<subseteq> set (unevaluated ev)"
  shows "hm_get (evaluated (set_hints hs ev)) = hm_get (evaluated ev) ++ map_of hs"
  using assms
proof (induction hs arbitrary: ev)
  case (Cons ih hs)
  obtain i h where ih: "ih = (i, h)" by (cases ih)
  have "hm_get (evaluated (set_hints hs (set_hint i h ev)))
          = hm_get (evaluated (set_hint i h ev)) ++ map_of hs"
    using Cons.prems ih by (intro Cons.IH) (auto simp: set_hint_def)
  moreover have "hm_get (evaluated (set_hint i h ev)) = (hm_get (evaluated ev))(i \<mapsto> h)"
    using Cons.prems ih by (simp add: set_hint_def)
  moreover have "i \<notin> dom (map_of hs)"
    using Cons.prems ih by (simp add: dom_map_of_conv_image_fst)
  ultimately show ?case
    by (auto simp: ih set_hints_Cons map_add_def fun_eq_iff split: option.splits)
qed simp

lemma evaluate_hints_Inr:
  "evaluate_hints ev = Inr m \<longleftrightarrow>
     missing_buffers (compatibility ev) = [] \<and> incompatible_buffers (compatibility ev) = []
     \<and> m = evaluated ev"
  by (auto simp: evaluate_hints_def Let_def rbind_eq_Inr as_result_Inr)

end
