(* ===== verification/Errors.thy ===== *)
theory Errors
  imports Prelude Refs Layout
begin

text \<open>
  The errors of the diagram layer, \<open>DiagramErrorCode\<close> and \<open>DiagramError\<close> of
  \<open>src/src/diagram.rs\<close>, and the message type constraints of \<open>src/src/diagram/inference.rs\<close>
  (an inference failure carries them).

  Payloads that come from code outside the repository (\<open>anyhow::Error\<close>, \<open>serde_json::Error\<close>,
  CEL errors, the type id of a Rust type) are represented by their printed text.
  A \<open>fault\<close> is what an operation of the inference ends with when it does not succeed: an error
  code, or the panic of a failed assertion.
\<close>

type_synonym type_info = string
type_synonym builder_id = name

subsection \<open>Message type constraints\<close>

datatype constraint =
    ExactMatch port_ref
  | CloneInput operation_ref "operation_ref list"
  | ResultInto operation_ref operation_ref operation_ref
  | OkFrom operation_ref
  | ErrFrom operation_ref
  | UnzipInput operation_ref
  | UnzipOutput operation_ref nat
  | BufferInput operation_ref
  | BufferAccessInput operation_ref
  | SplitInput operation_ref
  | SplitOutput operation_ref

subsection \<open>Error codes\<close>

datatype section_error = UnknownOutput name

datatype split_connection_error = KeyAlreadyUsed | KeyOutOfBounds

datatype transform_error =
    TransformParse string
  | TransformExecution string
  | TransformSerialization string
  | ConvertToJson string

record type_mismatch =
  tm_source_type :: type_info
  tm_target_type :: type_info

record missing_stream =
  ms_missing_name :: name
  ms_available_names :: "name list"

datatype incremental_scope_error =
    RequestMismatch type_info type_info
  | ResponseMismatch type_info type_info
  | ScopeUnfinished bool bool

record inference_failure =
  no_valid_choice :: "port_ref list"
  ambiguous_choice :: "(port_ref \<times> name list) list"
  failure_constraints :: "(port_ref, constraint option) hmap"

datatype (plugins only: code) diagram_error_code =
    BuilderNotFound builder_id
  | NodeBuildingError builder_id string
  | SectionBuildingError builder_id string
  | ScriptEnvironmentBuildingError builder_id string
  | ScriptCompileError builder_id string
  | OperationNotFound next_operation
  | TemplateNotFound name
  | TypeMismatch type_mismatch
  | InvalidDowncast type_info type_info
  | MissingStream missing_stream
  | DuplicateInputsCreated operation_ref
  | DuplicateBuffersCreated operation_ref
  | MissingStartOrTerminate
  | NoConnection operation_ref
  | AmbiguousMessageType "string list"
  | NotSerializable type_info
  | NotDeserializable type_info
  | NotScriptable type_info
  | NotCloneable string
  | NotUnzippable string
  | InvalidUnzip string nat
  | CannotForkResult string
  | NotSplittable string
  | NotJoinable string
  | EmptyJoin
  | DuplicateBufferInJoin entity
  | UnknownJoinField ident "ident list"
  | UnknownOperation operation_ref
  | UnknownTemplate name
  | UnknownScriptEnvironment name
  | UnknownScriptEnvironmentBuilder name
  | UnknownPort port_ref
  | CannotInferType port_ref
  | UnknownMessageTypeIndex nat nat
  | MessageTypeNotInferred port_ref
  | InvalidOperation operation_ref
  | CannotTransform transform_error
  | CannotBoxOrUnbox
  | CannotAccessBuffers string
  | CannotListen string
  | IncompatibleBuffers incompatible_layout
  | InconsistentBufferHints "type_info message_type_hint list"
  | BrokenBufferMessageTypeHint ident
  | SectionError section_error
  | IncompleteDiagram
  | ConfigError string
  | TraceInfoError string
  | ConnectionError split_connection_error
  | UnregisteredTypes "string list"
  | BuildHalted "(operation_ref \<times> diagram_error_code) list"
  | ExcessiveIterations
  | InvalidUseOfReservedName name
  | NestedError diagram_error
  | CircularRedirect "operation_ref list"
  | CircularOperationDependency "name list"
  | FinishingErrors "(operation_ref \<times> diagram_error_code) list"
  | IncrementalScopeError incremental_scope_error
  | MessageTypeInferenceFailure inference_failure
and diagram_error = DiagramError (error_port: "port_ref option") (error_code: diagram_error_code)

definition code_in_port :: "diagram_error_code \<Rightarrow> port_ref \<Rightarrow> diagram_error" where
  "code_in_port code port_id = DiagramError (Some port_id) code"

definition error_of_code :: "diagram_error_code \<Rightarrow> diagram_error" where
  "error_of_code code = DiagramError None code"

definition operation_name_not_found :: "name \<Rightarrow> diagram_error_code" where
  "operation_name_not_found n = OperationNotFound (NextName n)"

text \<open>\<open>WithContext::in_port\<close> adds the port to an error and leaves a value alone.\<close>

definition in_port :: "(diagram_error_code + 'a) \<Rightarrow> port_ref \<Rightarrow> diagram_error + 'a" where
  "in_port r port = (case r of Inr ok \<Rightarrow> Inr ok | Inl err \<Rightarrow> Inl (code_in_port err port))"

text \<open>\<open>DiagramErrorCode: From<TryJoinError>\<close>.\<close>

datatype try_join_error =
    JoinIncompatibleLayout incompatible_layout
  | JoinDuplicateBuffer entity

fun code_of_try_join_error :: "try_join_error \<Rightarrow> diagram_error_code" where
  "code_of_try_join_error (JoinIncompatibleLayout err) = IncompatibleBuffers err"
| "code_of_try_join_error (JoinDuplicateBuffer err) = DuplicateBufferInJoin err"

subsection \<open>Faults\<close>

datatype 'e fault = Failed 'e | Panicked string

definition may_fail :: "'e + 'a \<Rightarrow> 'e fault + 'a" where
  "may_fail r = (case r of Inr x \<Rightarrow> Inr x | Inl e \<Rightarrow> Inl (Failed e))"

text \<open>The question mark converts an error code to an error without a port.\<close>

definition may_fail_code :: "diagram_error_code + 'a \<Rightarrow> diagram_error fault + 'a" where
  "may_fail_code r = (case r of Inr x \<Rightarrow> Inr x | Inl c \<Rightarrow> Inl (Failed (error_of_code c)))"

definition fault_in_port ::
  "diagram_error_code fault + 'a \<Rightarrow> port_ref \<Rightarrow> diagram_error fault + 'a" where
  "fault_in_port r port =
     (case r of
        Inr x \<Rightarrow> Inr x
      | Inl (Failed c) \<Rightarrow> Inl (Failed (code_in_port c port))
      | Inl (Panicked m) \<Rightarrow> Inl (Panicked m))"

lemma in_port_simps [simp]:
  "in_port (Inr x) p = Inr x" "in_port (Inl c) p = Inl (code_in_port c p)"
  by (simp_all add: in_port_def)

lemma in_port_eq_Inr [simp]: "in_port r p = Inr x \<longleftrightarrow> r = Inr x"
  by (cases r) simp_all

lemma may_fail_simps [simp]:
  "may_fail (Inr x) = Inr x" "may_fail (Inl e) = Inl (Failed e)"
  by (simp_all add: may_fail_def)

lemma may_fail_eq_Inr [simp]: "may_fail r = Inr x \<longleftrightarrow> r = Inr x"
  by (cases r) simp_all

lemma may_fail_code_simps [simp]:
  "may_fail_code (Inr x) = Inr x" "may_fail_code (Inl c) = Inl (Failed (error_of_code c))"
  by (simp_all add: may_fail_code_def)

lemma may_fail_code_eq_Inr [simp]: "may_fail_code r = Inr x \<longleftrightarrow> r = Inr x"
  by (cases r) simp_all

lemma fault_in_port_Inr [simp]: "fault_in_port (Inr x) p = Inr x"
  by (simp add: fault_in_port_def)

lemma fault_in_port_eq_Inr [simp]: "fault_in_port r p = Inr x \<longleftrightarrow> r = Inr x"
  by (auto simp: fault_in_port_def split: sum.splits fault.splits)

end
