(* ===== verification/Validation.thy ===== *)
theory Validation
  imports Prelude Diagram
begin

text \<open>
  Validation of diagrams, \<open>src/src/diagram.rs\<close>: the check for circular operation dependencies
  (\<open>OperationStack\<close>, \<open>check_circular_operation_dependency\<close>) and the traversals
  \<open>Diagram::validate_operation_names\<close> and \<open>Diagram::validate_template_usage\<close>.

  A work list is a list whose head is the top of the source's \<open>Vec\<close>. The circularity check is
  total: every stack popped is replaced by stacks of smaller \<open>stack_measure\<close>. A diagram that
  passes it is nested to a finite depth (\<open>nested_within\<close>), which makes both traversals return;
  a diagram nested to a finite depth is never rejected as circular.
\<close>

subsection \<open>The circularity check\<close>

record operation_stack =
  os_used :: "operations list"
  os_names :: "name list"
  os_next :: operations

definition stack_new :: "operations \<Rightarrow> operation_stack" where
  "stack_new ops = \<lparr>os_used = [ops], os_names = [], os_next = ops\<rparr>"

definition ptr_eq :: "operations \<Rightarrow> operations \<Rightarrow> bool" where
  "ptr_eq a b \<longleftrightarrow> ops_ptr a = ops_ptr b"

definition stack_child ::
  "operation_stack \<Rightarrow> name \<Rightarrow> operations \<Rightarrow> diagram_error_code + operation_stack" where
  "stack_child self n next =
     (let child = self\<lparr>os_used := os_used self @ [os_next self], os_names := os_names self @ [n]\<rparr>
      in if list_ex (\<lambda>ops. ptr_eq ops next) (os_used self)
         then Inl (CircularOperationDependency (os_names child))
         else Inr (child\<lparr>os_next := next\<rparr>))"

definition stack_children ::
  "templates \<Rightarrow> operation_stack \<Rightarrow> diagram_error_code + operation_stack list" where
  "stack_children templates self =
     rfold (\<lambda>children (n, next_op).
         rbind (child_operations templates next_op) (\<lambda>c.
           case c of
             None \<Rightarrow> Inr children
           | Some child_ops \<Rightarrow>
               rbind (stack_child self n child_ops) (\<lambda>child. Inr (children @ [child]))))
       [] (ops_map (os_next self))"

text \<open>The pointers that occur in an operation map, and those of all templates.\<close>

primrec op_ptrs :: "diagram_operation \<Rightarrow> nat set"
  and scope_ptrs :: "scope_schema \<Rightarrow> nat set"
  and ops_ptrs :: "operations \<Rightarrow> nat set" where
  "op_ptrs (OpNode _) = {}"
| "op_ptrs (OpSection _) = {}"
| "op_ptrs (OpScope s) = scope_ptrs s"
| "op_ptrs (OpStreamOutput _) = {}"
| "op_ptrs (OpForkClone _) = {}"
| "op_ptrs (OpUnzip _) = {}"
| "op_ptrs (OpForkResult _) = {}"
| "op_ptrs (OpSplit _) = {}"
| "op_ptrs (OpJoin _) = {}"
| "op_ptrs (OpTransform _) = {}"
| "op_ptrs (OpBuffer _) = {}"
| "op_ptrs (OpBufferAccess _) = {}"
| "op_ptrs (OpListen _) = {}"
| "op_ptrs (OpScript _) = {}"
| "scope_ptrs (ScopeSchema _ _ ops _ _ _ _) = ops_ptrs ops"
| "ops_ptrs (Operations p m) = insert p (\<Union> (set (map snd (map (map_prod id op_ptrs) m))))"

lemma finite_ptrs: "finite (op_ptrs x)" "finite (scope_ptrs s)" "finite (ops_ptrs ops)"
  by (induction x and s and ops) auto

lemma ops_ptr_in_ptrs: "ops_ptr ops \<in> ops_ptrs ops"
  by (cases ops) simp

lemma op_ptrs_subset: "(n, op) \<in> set (ops_map ops) \<Longrightarrow> op_ptrs op \<subseteq> ops_ptrs ops"
  by (cases ops) force

definition template_ptrs :: "templates \<Rightarrow> nat set" where
  "template_ptrs templates = (\<Union>(n, t) \<in> set templates. ops_ptrs (template_ops t))"

lemma finite_template_ptrs: "finite (template_ptrs templates)"
  by (auto simp: template_ptrs_def finite_ptrs)

lemma child_operations_ptrs:
  assumes "(n, op) \<in> set (ops_map ops)" and "child_operations templates op = Inr (Some c)"
  shows "ops_ptrs c \<subseteq> ops_ptrs ops \<union> template_ptrs templates"
proof (cases op)
  case (OpScope s)
  with assms op_ptrs_subset [OF assms(1)] show ?thesis by (cases s) auto
next
  case (OpSection s)
  with assms(2) obtain k t where "hm_get templates k = Some t" "c = template_ops t"
    by (auto simp: rbind_eq_Inr get_template_def split: section_provider.splits)
  then show ?thesis
    by (auto simp: template_ptrs_def dest!: map_of_SomeD)
qed (use assms(2) in auto)

definition used_ptrs :: "operation_stack \<Rightarrow> nat set" where
  "used_ptrs s = ops_ptr ` set (os_used s)"

definition stack_measure :: "templates \<Rightarrow> operation_stack \<Rightarrow> nat" where
  "stack_measure templates s =
     2 * card ((ops_ptrs (os_next s) \<union> template_ptrs templates) - used_ptrs s)
     + (if ops_ptr (os_next s) \<in> used_ptrs s then 1 else 0)"

lemma stack_child_Inr:
  "stack_child self n next = Inr child \<longleftrightarrow>
     ops_ptr next \<notin> used_ptrs self
     \<and> child = \<lparr>os_used = os_used self @ [os_next self], os_names = os_names self @ [n],
                os_next = next\<rparr>"
  by (cases self)
     (auto simp: stack_child_def Let_def list_ex_iff ptr_eq_def used_ptrs_def image_iff, metis)

lemma stack_child_measure:
  assumes "stack_child self n next = Inr child"
    and "ops_ptrs next \<subseteq> ops_ptrs (os_next self) \<union> template_ptrs templates"
  shows "stack_measure templates child < stack_measure templates self"
proof -
  let ?U = "ops_ptrs (os_next self) \<union> template_ptrs templates"
  let ?V = "ops_ptrs next \<union> template_ptrs templates"
  let ?p = "ops_ptr (os_next self)"
  have child: "used_ptrs child = insert ?p (used_ptrs self)" "os_next child = next"
    and fresh: "ops_ptr next \<notin> used_ptrs self"
    using assms(1) by (auto simp: stack_child_Inr used_ptrs_def)
  have fin: "finite ?U" by (simp add: finite_ptrs finite_template_ptrs)
  show ?thesis
  proof (cases "?p \<in> used_ptrs self")
    case True
    then have "card (?V - used_ptrs child) \<le> card (?U - used_ptrs self)"
      using assms(2) fin child by (intro card_mono) auto
    with True fresh child show ?thesis
      by (simp add: stack_measure_def insert_absorb)
  next
    case False
    then have "?V - used_ptrs child \<subset> ?U - used_ptrs self"
      using assms(2) child ops_ptr_in_ptrs [of "os_next self"] by auto
    then have "card (?V - used_ptrs child) < card (?U - used_ptrs self)"
      using fin by (intro psubset_card_mono) auto
    with False child show ?thesis by (simp add: stack_measure_def)
  qed
qed

lemma stack_children_step:
  assumes "rfold (\<lambda>children (n, next_op).
         rbind (child_operations templates next_op) (\<lambda>c.
           case c of
             None \<Rightarrow> Inr children
           | Some child_ops \<Rightarrow>
               rbind (stack_child self n child_ops) (\<lambda>child. Inr (children @ [child]))))
       acc m = Inr cs"
  shows "\<exists>new. cs = acc @ new \<and> (\<forall>child \<in> set new. \<exists>n op c. (n, op) \<in> set m
           \<and> child_operations templates op = Inr (Some c) \<and> stack_child self n c = Inr child)"
  using assms
proof (induction m arbitrary: acc)
  case (Cons nop m)
  obtain n op where nop: "nop = (n, op)" by (cases nop)
  from Cons.prems obtain c where c: "child_operations templates op = Inr c"
    by (auto simp: nop rbind_eq_Inr)
  show ?case
  proof (cases c)
    case None
    with Cons c nop show ?thesis by fastforce
  next
    case (Some d)
    with Cons.prems c nop obtain child where child: "stack_child self n d = Inr child"
      by (auto simp: rbind_eq_Inr)
    with Cons.prems c nop Some Cons.IH [of "acc @ [child]"] show ?thesis by fastforce
  qed
qed simp

lemma stack_children_measure:
  assumes "stack_children templates self = Inr cs" and "child \<in> set cs"
  shows "stack_measure templates child < stack_measure templates self"
proof -
  obtain n op c where "(n, op) \<in> set (ops_map (os_next self))"
      "child_operations templates op = Inr (Some c)" "stack_child self n c = Inr child"
    using stack_children_step [OF assms(1) [unfolded stack_children_def]] assms(2) by auto
  then show ?thesis
    using child_operations_ptrs stack_child_measure by blast
qed

function check_stacks :: "templates \<Rightarrow> operation_stack list \<Rightarrow> diagram_error_code + unit" where
  "check_stacks templates [] = Inr ()"
| "check_stacks templates (frame # queue) =
     (case stack_children templates frame of
        Inl e \<Rightarrow> Inl e
      | Inr children \<Rightarrow> check_stacks templates (rev children @ queue))"
  by pat_completeness auto
termination
proof (relation "inv_image (mult less_than) (\<lambda>(ts, q). mset (map (stack_measure ts) q))")
  show "wf (inv_image (mult less_than) (\<lambda>(ts, q). mset (map (stack_measure ts) q)))"
    by (simp add: wf_mult)
next
  fix templates frame queue children
  assume cs: "stack_children templates frame = Inr children"
  have "(mset (map (stack_measure templates) queue)
           + mset (map (stack_measure templates) (rev children)),
         mset (map (stack_measure templates) queue) + {#stack_measure templates frame#})
        \<in> mult less_than"
    using stack_children_measure [OF cs] by (intro one_step_implies_mult) auto
  then show "((templates, rev children @ queue), (templates, frame # queue))
      \<in> inv_image (mult less_than) (\<lambda>(ts, q). mset (map (stack_measure ts) q))"
    by (simp add: ac_simps)
qed

definition check_circular_operation_dependency ::
  "operations \<Rightarrow> templates \<Rightarrow> diagram_error_code + unit" where
  "check_circular_operation_dependency start_from templates =
     check_stacks templates [stack_new start_from]"

subsection \<open>Traversals\<close>

text \<open>The maps of child operations that a traversal pushes, or the first error.\<close>

definition push_children :: "templates \<Rightarrow> operations \<Rightarrow> diagram_error_code + operations list" where
  "push_children templates ops =
     rfold (\<lambda>children (n, op).
         rbind (child_operations templates op) (\<lambda>c.
           case c of None \<Rightarrow> Inr children | Some child \<Rightarrow> Inr (children @ [child])))
       [] (ops_map ops)"

partial_function (option) validate_all_names ::
  "templates \<Rightarrow> operations list \<Rightarrow> (diagram_error_code + unit) option" where
  "validate_all_names templates all_ops =
     (case all_ops of
        [] \<Rightarrow> Some (Inr ())
      | ops # rest \<Rightarrow>
          (case push_children templates ops of
             Inl e \<Rightarrow> Some (Inl e)
           | Inr children \<Rightarrow>
               (case validate_names_of (ops_map ops) of
                  Inl e \<Rightarrow> Some (Inl e)
                | Inr _ \<Rightarrow> validate_all_names templates (rev children @ rest))))"

declare validate_all_names.simps [code]

definition validate_operation_names :: "diagram \<Rightarrow> (diagram_error_code + unit) option" where
  "validate_operation_names d =
     (case check_circular_operation_dependency (dg_ops d) (dg_templates d) of
        Inl e \<Rightarrow> Some (Inl e)
      | Inr _ \<Rightarrow>
          (case validate_all_names (dg_templates d) [dg_ops d] of
             None \<Rightarrow> None
           | Some (Inl e) \<Rightarrow> Some (Inl e)
           | Some (Inr _) \<Rightarrow> Some (templates_validate_operation_names (dg_templates d))))"

definition validate_template :: "templates \<Rightarrow> name \<Rightarrow> diagram_error_code + unit" where
  "validate_template templates template_id =
     rbind (get_template templates template_id) (\<lambda>t.
       check_circular_operation_dependency (template_ops t) templates)"

text \<open>One map of the template traversal: collect the children, validate the templates used.\<close>

definition template_usage_of :: "templates \<Rightarrow> operations \<Rightarrow> diagram_error_code + operations list" where
  "template_usage_of templates ops =
     rfold (\<lambda>children (n, op).
         rbind (child_operations templates op) (\<lambda>c.
           let children' = (case c of None \<Rightarrow> children | Some child \<Rightarrow> children @ [child])
           in case op of
                OpSection s \<Rightarrow>
                  (case section_provider s of
                     ProviderTemplate template \<Rightarrow>
                       rbind (validate_template templates template) (\<lambda>_. Inr children')
                   | ProviderBuilder _ \<Rightarrow> Inr children')
              | _ \<Rightarrow> Inr children'))
       [] (ops_map ops)"

partial_function (option) validate_all_templates ::
  "templates \<Rightarrow> operations list \<Rightarrow> (diagram_error_code + unit) option" where
  "validate_all_templates templates all_ops =
     (case all_ops of
        [] \<Rightarrow> Some (Inr ())
      | ops # rest \<Rightarrow>
          (case template_usage_of templates ops of
             Inl e \<Rightarrow> Some (Inl e)
           | Inr children \<Rightarrow> validate_all_templates templates (rev children @ rest)))"

declare validate_all_templates.simps [code]

definition validate_template_usage :: "diagram \<Rightarrow> (diagram_error_code + unit) option" where
  "validate_template_usage d = validate_all_templates (dg_templates d) [dg_ops d]"

subsection \<open>Finite nesting\<close>

text \<open>
  \<open>child_maps\<close> lists the operation maps directly inside a map; \<open>nested_within n\<close> says that no
  path of such steps is longer than \<open>n\<close>. This is the abstract notion of a diagram without
  circular dependencies.
\<close>

definition child_maps :: "templates \<Rightarrow> operations \<Rightarrow> operations list" where
  "child_maps templates ops =
     List.map_filter (\<lambda>(n, op). case child_operations templates op of Inr c \<Rightarrow> c | Inl _ \<Rightarrow> None)
       (ops_map ops)"

fun nested_within :: "nat \<Rightarrow> templates \<Rightarrow> operations \<Rightarrow> bool" where
  "nested_within 0 templates ops \<longleftrightarrow> child_maps templates ops = []"
| "nested_within (Suc n) templates ops \<longleftrightarrow>
     list_all (nested_within n templates) (child_maps templates ops)"

lemma nested_within_Suc: "nested_within n templates ops \<Longrightarrow> nested_within (Suc n) templates ops"
proof (induction n arbitrary: ops)
  case (Suc n)
  then show ?case unfolding nested_within.simps(2) [of "Suc n"] by (auto simp: list_all_iff)
qed simp

lemma nested_within_mono: "n \<le> m \<Longrightarrow> nested_within n templates ops \<Longrightarrow> nested_within m templates ops"
  by (induction m rule: dec_induct) (auto intro: nested_within_Suc simp del: nested_within.simps)

lemma nested_within_list:
  assumes "\<forall>c \<in> set cs. \<exists>n. nested_within n templates c"
  shows "\<exists>n. \<forall>c \<in> set cs. nested_within n templates c"
  using assms
proof (induction cs)
  case (Cons c cs)
  then obtain n m where "nested_within n templates c" "\<forall>c \<in> set cs. nested_within m templates c"
    by auto
  then have "\<forall>c \<in> set (c # cs). nested_within (max n m) templates c"
    using nested_within_mono [of n "max n m"] nested_within_mono [of m "max n m"] by auto
  then show ?case by blast
qed simp

lemma nested_within_children:
  "(\<exists>n. nested_within n templates ops)
     \<longleftrightarrow> (\<forall>c \<in> set (child_maps templates ops). \<exists>n. nested_within n templates c)" (is "?l \<longleftrightarrow> ?r")
proof
  assume ?l
  then obtain n where n: "nested_within n templates ops" by blast
  then show ?r by (cases n) (auto simp: list_all_iff)
next
  assume ?r
  then obtain n where "\<forall>c \<in> set (child_maps templates ops). nested_within n templates c"
    using nested_within_list by blast
  then have "nested_within (Suc n) templates ops" by (simp add: list_all_iff)
  then show ?l by blast
qed

lemma in_child_maps:
  "c \<in> set (child_maps templates ops) \<longleftrightarrow>
     (\<exists>n op. (n, op) \<in> set (ops_map ops) \<and> child_operations templates op = Inr (Some c))"
proof -
  have "(case r of Inr x \<Rightarrow> x | Inl e \<Rightarrow> None) = Some c \<longleftrightarrow> r = Inr (Some c)"
    for r :: "diagram_error_code + operations option"
    by (cases r) auto
  then show ?thesis
    by (simp add: child_maps_def in_set_map_filter split_beta Bex_def)
qed

subsection \<open>What the circularity check accepts\<close>

lemma rfold_child_maps:
  assumes "rfold (\<lambda>children (n, op). rbind (child_operations templates op) (\<lambda>c.
      case c of None \<Rightarrow> Inr children | Some child \<Rightarrow> g children n op child)) acc m = Inr cs"
    and "\<And>children n op child cs'. g children n op child = Inr cs' \<Longrightarrow>
       \<exists>x. cs' = children @ [x] \<and> h x = child"
  shows "map h cs = map h acc @
     List.map_filter (\<lambda>(n, op). case child_operations templates op of Inr c \<Rightarrow> c | Inl _ \<Rightarrow> None) m"
  using assms(1)
proof (induction m arbitrary: acc)
  case (Cons nop m)
  obtain n op where nop: "nop = (n, op)" by (cases nop)
  from Cons.prems obtain c where c: "child_operations templates op = Inr c"
    by (auto simp: nop rbind_eq_Inr)
  show ?case
  proof (cases c)
    case None
    with Cons c nop show ?thesis by (simp add: map_filter_simps)
  next
    case (Some d)
    with Cons.prems c nop obtain cs' where cs': "g acc n op d = Inr cs'"
      by (auto simp: rbind_eq_Inr)
    then obtain x where "cs' = acc @ [x]" "h x = d" using assms(2) by blast
    with Cons.prems c nop Some cs' Cons.IH [of "acc @ [x]"] show ?thesis
      by (simp add: map_filter_simps)
  qed
qed (simp add: map_filter_simps)

lemma stack_children_maps:
  "stack_children templates self = Inr cs \<Longrightarrow> map os_next cs = child_maps templates (os_next self)"
  unfolding stack_children_def child_maps_def
  by (drule rfold_child_maps [where h = os_next])
     (auto simp: rbind_eq_Inr stack_child_Inr)

lemma check_stacks_nested:
  "check_stacks templates q = Inr () \<Longrightarrow> f \<in> set q \<Longrightarrow> \<exists>n. nested_within n templates (os_next f)"
proof (induction templates q arbitrary: f rule: check_stacks.induct)
  case (2 templates frame queue)
  then obtain cs where cs: "stack_children templates frame = Inr cs"
    and rest: "check_stacks templates (rev cs @ queue) = Inr ()"
    by (auto split: sum.splits)
  have IH: "\<exists>n. nested_within n templates (os_next g)" if "g \<in> set (rev cs @ queue)" for g
    using "2.IH" [OF cs rest that] .
  show ?case
  proof (cases "f = frame")
    case True
    have "\<forall>c \<in> set (map os_next cs). \<exists>n. nested_within n templates c" using IH by auto
    with True stack_children_maps [OF cs] show ?thesis
      by (simp add: nested_within_children [of templates "os_next frame"])
  next
    case False
    with "2.prems"(2) IH show ?thesis by auto
  qed
qed simp

lemma check_circular_nested:
  "check_circular_operation_dependency ops templates = Inr () \<Longrightarrow>
   \<exists>n. nested_within n templates ops"
  using check_stacks_nested [of templates "[stack_new ops]" "stack_new ops"]
  by (simp add: check_circular_operation_dependency_def stack_new_def)

text \<open>Conversely, a finitely nested diagram is never rejected as circular.\<close>

inductive sub_map :: "templates \<Rightarrow> operations \<Rightarrow> operations \<Rightarrow> bool" for templates where
  sub_refl: "sub_map templates ops ops"
| sub_child: "sub_map templates ops a \<Longrightarrow> b \<in> set (child_maps templates a) \<Longrightarrow> sub_map templates ops b"

definition operations_consistent :: "templates \<Rightarrow> operations \<Rightarrow> bool" where
  "operations_consistent templates root \<longleftrightarrow>
     (\<forall>a b. sub_map templates root a \<longrightarrow> sub_map templates root b \<longrightarrow> ops_ptr a = ops_ptr b \<longrightarrow> a = b)"

lemma sub_map_trans: "sub_map templates b c \<Longrightarrow> sub_map templates a b \<Longrightarrow> sub_map templates a c"
  by (induction rule: sub_map.induct) (auto intro: sub_map.intros)

lemma nested_within_sub: "sub_map templates a b \<Longrightarrow> nested_within n templates a \<Longrightarrow> nested_within n templates b"
proof (induction rule: sub_map.induct)
  case (sub_child ops a b)
  then show ?case by (cases n) (auto simp: list_all_iff intro: nested_within_Suc simp del: nested_within.simps(2) elim!: nested_within.elims)
qed

lemma no_cycle:
  assumes "nested_within n templates a" and "sub_map templates a b"
    and "a \<in> set (child_maps templates b)"
  shows False
  using assms
proof (induction n)
  case 0
  then have "child_maps templates b = []" using nested_within_sub [of templates a b 0] by simp
  with 0 show ?case by simp
next
  case (Suc n)
  then have "nested_within (Suc n) templates b" by (blast intro: nested_within_sub)
  with Suc.prems(3) have "nested_within n templates a" by (simp add: list_all_iff)
  then show ?case using Suc.IH Suc.prems by blast
qed

definition frame_ok :: "templates \<Rightarrow> operations \<Rightarrow> operation_stack \<Rightarrow> bool" where
  "frame_ok templates root f \<longleftrightarrow>
     sub_map templates root (os_next f)
     \<and> (\<forall>u \<in> set (os_used f). sub_map templates root u \<and> sub_map templates u (os_next f))"

lemma stack_child_not_circular:
  assumes "frame_ok templates root f" and "nested_within d templates root"
    and "operations_consistent templates root" and "c \<in> set (child_maps templates (os_next f))"
  shows "\<exists>child. stack_child f n c = Inr child \<and> frame_ok templates root child"
proof -
  have root_c: "sub_map templates root c"
    using assms(1,4) by (auto simp: frame_ok_def intro: sub_map.intros)
  have "ops_ptr c \<noteq> ops_ptr u" if "u \<in> set (os_used f)" for u
  proof
    assume "ops_ptr c = ops_ptr u"
    moreover have u: "sub_map templates root u" "sub_map templates u (os_next f)"
      using that assms(1) by (auto simp: frame_ok_def)
    ultimately have "c = u" using assms(3) root_c by (auto simp: operations_consistent_def)
    moreover have "nested_within d templates u" using assms(2) u nested_within_sub by blast
    ultimately show False using no_cycle u(2) assms(4) by blast
  qed
  then have "ops_ptr c \<notin> used_ptrs f" by (auto simp: used_ptrs_def)
  moreover have "sub_map templates u c" if "u \<in> set (os_used f @ [os_next f])" for u
    using that assms(1,4) by (auto simp: frame_ok_def intro: sub_map.intros)
  ultimately show ?thesis
    using assms(1) root_c by (auto simp: stack_child_Inr frame_ok_def)
qed

lemma stack_children_not_circular:
  assumes "frame_ok templates root f" and "nested_within d templates root"
    and "operations_consistent templates root"
  shows "(\<forall>names. stack_children templates f \<noteq> Inl (CircularOperationDependency names))
     \<and> (\<forall>cs. stack_children templates f = Inr cs \<longrightarrow> list_all (frame_ok templates root) cs)"
proof -
  let ?g = "\<lambda>children (n, next_op). rbind (child_operations templates next_op) (\<lambda>c.
           case c of None \<Rightarrow> Inr children
           | Some child_ops \<Rightarrow> rbind (stack_child f n child_ops) (\<lambda>child. Inr (children @ [child])))"
  have circ: "child_operations templates op \<noteq> Inl (CircularOperationDependency names)" for op names
    by (cases op) (auto simp: rbind_eq_Inl get_template_def ok_or_def split: section_provider.splits option.splits)
  have "(\<forall>names. rfold ?g acc m \<noteq> Inl (CircularOperationDependency names))
     \<and> (\<forall>cs. rfold ?g acc m = Inr cs \<longrightarrow> list_all (frame_ok templates root) cs)"
    if "set m \<subseteq> set (ops_map (os_next f))" and "list_all (frame_ok templates root) acc" for acc m
    using that
  proof (induction m arbitrary: acc)
    case (Cons nop m)
    obtain n op where nop: "nop = (n, op)" by (cases nop)
    show ?case
    proof (cases "child_operations templates op")
      case (Inl e)
      with circ nop show ?thesis by auto
    next
      case (Inr c)
      show ?thesis
      proof (cases c)
        case None
        with Cons Inr nop show ?thesis by simp
      next
        case (Some d)
        then have "d \<in> set (child_maps templates (os_next f))"
          using Cons.prems(1) Inr nop by (auto simp: in_child_maps)
        then obtain child where "stack_child f n d = Inr child" "frame_ok templates root child"
          using stack_child_not_circular assms by blast
        with Cons.IH [of "acc @ [child]"] Cons.prems Inr Some nop show ?thesis by simp
      qed
    qed
  qed simp
  from this [of "ops_map (os_next f)" "[]"] show ?thesis by (simp add: stack_children_def)
qed

lemma check_stacks_not_circular:
  assumes "nested_within d templates root" and "operations_consistent templates root"
    and "list_all (frame_ok templates root) q"
  shows "check_stacks templates q \<noteq> Inl (CircularOperationDependency names)"
  using assms
proof (induction templates q rule: check_stacks.induct)
  case (2 templates frame queue)
  then have frame: "(\<forall>names. stack_children templates frame \<noteq> Inl (CircularOperationDependency names))
     \<and> (\<forall>cs. stack_children templates frame = Inr cs \<longrightarrow> list_all (frame_ok templates root) cs)"
    using stack_children_not_circular [of templates root frame d] by simp
  then show ?case
    using 2 by (auto split: sum.splits)
qed simp

lemma check_circular_complete:
  assumes "nested_within d templates ops" and "operations_consistent templates ops"
  shows "check_circular_operation_dependency ops templates \<noteq> Inl (CircularOperationDependency names)"
  unfolding check_circular_operation_dependency_def
  by (rule check_stacks_not_circular [OF assms])
     (simp add: frame_ok_def stack_new_def sub_map.sub_refl)

subsection \<open>Traversals of nested maps\<close>

text \<open>
  The contract of a traversal: a step that checks one map and returns its child maps, and a loop
  that takes maps from a stack and pushes what the step returns. On finitely nested maps such a
  loop returns; it succeeds only if every map below the stack passes the step, and it fails only
  with the error of a map below the stack.
\<close>

lemma sub_map_unfold:
  "sub_map templates x y \<longleftrightarrow> x = y \<or> (\<exists>c \<in> set (child_maps templates x). sub_map templates c y)"
proof
  assume "sub_map templates x y"
  then show "x = y \<or> (\<exists>c \<in> set (child_maps templates x). sub_map templates c y)"
    by (induction rule: sub_map.induct) (auto intro: sub_map.intros)
next
  assume "x = y \<or> (\<exists>c \<in> set (child_maps templates x). sub_map templates c y)"
  then show "sub_map templates x y"
    using sub_map_trans sub_map.intros by metis
qed

locale nested_traversal =
  fixes templates :: templates
    and step :: "operations \<Rightarrow> diagram_error_code + operations list"
    and loop :: "operations list \<Rightarrow> (diagram_error_code + unit) option"
  assumes loop_Nil: "loop [] = Some (Inr ())"
    and loop_Cons: "loop (x # rest) =
          (case step x of Inl e \<Rightarrow> Some (Inl e) | Inr children \<Rightarrow> loop (rev children @ rest))"
    and step_children: "step x = Inr children \<Longrightarrow> children = child_maps templates x"
begin

definition settles :: "operations list \<Rightarrow> bool" where
  "settles q \<longleftrightarrow> (\<exists>r. loop q = Some r
     \<and> (case r of
          Inr _ \<Rightarrow> \<forall>x \<in> set q. \<forall>y. sub_map templates x y \<longrightarrow> (\<exists>cs. step y = Inr cs)
        | Inl e \<Rightarrow> \<exists>x \<in> set q. \<exists>y. sub_map templates x y \<and> step y = Inl e))"

lemma settles_append:
  assumes "settles rest" and "\<And>c rest. c \<in> set cs \<Longrightarrow> settles rest \<Longrightarrow> settles (c # rest)"
  shows "settles (cs @ rest)"
  using assms by (induction cs) auto

lemma settles_Cons_Inl: "step x = Inl e \<Longrightarrow> settles (x # rest)"
  unfolding settles_def by (auto simp: loop_Cons intro: sub_map.sub_refl)

lemma settles_Cons_Inr:
  assumes "step x = Inr cs" and "settles (rev cs @ rest)"
  shows "settles (x # rest)"
proof -
  have cs: "cs = child_maps templates x" using assms(1) by (rule step_children)
  obtain r where r: "loop (rev cs @ rest) = Some r"
    and post: "case r of
          Inr _ \<Rightarrow> \<forall>x \<in> set (rev cs @ rest). \<forall>y. sub_map templates x y \<longrightarrow> (\<exists>cs. step y = Inr cs)
        | Inl e \<Rightarrow> \<exists>x \<in> set (rev cs @ rest). \<exists>y. sub_map templates x y \<and> step y = Inl e"
    using assms(2) by (auto simp: settles_def)
  have "loop (x # rest) = Some r" using assms(1) r by (simp add: loop_Cons)
  moreover have "case r of
          Inr _ \<Rightarrow> \<forall>x' \<in> set (x # rest). \<forall>y. sub_map templates x' y \<longrightarrow> (\<exists>cs. step y = Inr cs)
        | Inl e \<Rightarrow> \<exists>x' \<in> set (x # rest). \<exists>y. sub_map templates x' y \<and> step y = Inl e"
    using post assms(1) cs sub_map_unfold [of templates x] by (cases r) auto
  ultimately show ?thesis by (auto simp: settles_def)
qed

lemma settles_Cons: "nested_within n templates x \<Longrightarrow> settles rest \<Longrightarrow> settles (x # rest)"
proof (induction n arbitrary: x rest)
  case 0
  then show ?case
    using step_children settles_Cons_Inl settles_Cons_Inr by (cases "step x") fastforce+
next
  case (Suc n)
  show ?case
  proof (cases "step x")
    case (Inr cs)
    have "settles (rev cs @ rest)"
      using Suc step_children [OF Inr] by (intro settles_append) (auto simp: list_all_iff)
    with Inr show ?thesis by (rule settles_Cons_Inr)
  qed (rule settles_Cons_Inl)
qed

lemma settles_nested:
  assumes "\<forall>x \<in> set q. \<exists>n. nested_within n templates x"
  shows "settles q"
  using assms
proof (induction q)
  case Nil
  show ?case by (simp add: settles_def loop_Nil)
next
  case (Cons x q)
  then show ?case using settles_Cons by auto
qed

lemma loop_returns: "\<forall>x \<in> set q. \<exists>n. nested_within n templates x \<Longrightarrow> \<exists>r. loop q = Some r"
  using settles_nested by (auto simp: settles_def)

lemma loop_success:
  assumes "\<forall>x \<in> set q. \<exists>n. nested_within n templates x" and "loop q = Some (Inr ())"
    and "x \<in> set q" and "sub_map templates x y"
  shows "\<exists>cs. step y = Inr cs"
  using settles_nested [OF assms(1)] assms(2-) by (auto simp: settles_def)

lemma loop_failure:
  assumes "\<forall>x \<in> set q. \<exists>n. nested_within n templates x" and "loop q = Some (Inl e)"
  shows "\<exists>x \<in> set q. \<exists>y. sub_map templates x y \<and> step y = Inl e"
  using settles_nested [OF assms(1)] assms(2) by (auto simp: settles_def)

end

text \<open>The two traversals of the validation meet the contract.\<close>

definition names_step :: "templates \<Rightarrow> operations \<Rightarrow> diagram_error_code + operations list" where
  "names_step templates ops =
     rbind (push_children templates ops) (\<lambda>children.
       rbind (validate_names_of (ops_map ops)) (\<lambda>_. Inr children))"

lemma push_children_maps: "push_children templates ops = Inr cs \<Longrightarrow> cs = child_maps templates ops"
  unfolding push_children_def child_maps_def
  by (drule rfold_child_maps [where h = "\<lambda>x. x"]) auto

lemma template_usage_maps:
  "template_usage_of templates ops = Inr cs \<Longrightarrow> cs = child_maps templates ops"
proof -
  let ?f = "\<lambda>children (n :: name, op). rbind (child_operations templates op) (\<lambda>c.
           let children' = (case c of None \<Rightarrow> children | Some child \<Rightarrow> children @ [child])
           in case op of
                OpSection s \<Rightarrow>
                  (case section_provider s of
                     ProviderTemplate template \<Rightarrow>
                       rbind (validate_template templates template) (\<lambda>_. Inr children')
                   | ProviderBuilder _ \<Rightarrow> Inr children')
              | _ \<Rightarrow> Inr children')"
  let ?h = "\<lambda>(n, op). case child_operations templates op of Inr c \<Rightarrow> c | Inl _ \<Rightarrow> None"
  have step: "\<exists>c. child_operations templates op = Inr c
      \<and> t = acc @ (case c of None \<Rightarrow> [] | Some child \<Rightarrow> [child])"
    if "?f acc (n, op) = Inr t" for acc n op t
    using that
    by (cases op) (auto simp: Let_def rbind_eq_Inr split: option.splits section_provider.splits)
  have "cs = acc @ List.map_filter ?h m" if "rfold ?f acc m = Inr cs" for acc m
    using that
  proof (induction m arbitrary: acc)
    case (Cons nop m)
    obtain n op where nop: "nop = (n, op)" by (cases nop)
    from Cons.prems obtain t where t: "?f acc nop = Inr t" "rfold ?f t m = Inr cs"
      by (rule rfold_Cons_InrE)
    from step [OF t(1) [unfolded nop]] obtain c where c: "child_operations templates op = Inr c"
      "t = acc @ (case c of None \<Rightarrow> [] | Some child \<Rightarrow> [child])" by blast
    with Cons.IH [OF t(2)] nop show ?case
      by (cases c) (simp_all add: map_filter_simps)
  qed (simp add: map_filter_simps)
  then show "template_usage_of templates ops = Inr cs \<Longrightarrow> cs = child_maps templates ops"
    by (auto simp: template_usage_of_def child_maps_def)
qed

interpretation names: nested_traversal templates "names_step templates" "validate_all_names templates"
  for templates
proof unfold_locales
  show "validate_all_names templates [] = Some (Inr ())"
    by (simp add: validate_all_names.simps)
  show "validate_all_names templates (x # rest) =
      (case names_step templates x of Inl e \<Rightarrow> Some (Inl e)
       | Inr children \<Rightarrow> validate_all_names templates (rev children @ rest))" for x rest
    by (subst validate_all_names.simps) (auto simp: names_step_def rbind_def split: sum.splits)
  show "names_step templates x = Inr cs \<Longrightarrow> cs = child_maps templates x" for x cs
    by (auto simp: names_step_def rbind_eq_Inr push_children_maps)
qed

interpretation usage: nested_traversal templates "template_usage_of templates"
  "validate_all_templates templates"
  for templates
proof unfold_locales
  show "validate_all_templates templates [] = Some (Inr ())"
    by (simp add: validate_all_templates.simps)
  show "validate_all_templates templates (x # rest) =
      (case template_usage_of templates x of Inl e \<Rightarrow> Some (Inl e)
       | Inr children \<Rightarrow> validate_all_templates templates (rev children @ rest))" for x rest
    by (subst validate_all_templates.simps) simp
qed (rule template_usage_maps)

lemma validate_operation_names_cases:
  assumes "validate_operation_names d = Some (Inr ())"
  shows "check_circular_operation_dependency (dg_ops d) (dg_templates d) = Inr ()"
    and "validate_all_names (dg_templates d) [dg_ops d] = Some (Inr ())"
    and "templates_validate_operation_names (dg_templates d) = Inr ()"
  using assms by (auto simp: validate_operation_names_def split: sum.splits option.splits)

end
