(* ===== verification/Metadata.thy ===== *)
theory Metadata
  imports Prelude Errors
begin

text \<open>
  The registered elements a diagram can use, as the type inference sees them:
  \<open>DiagramElementMetadata\<close> of \<open>src/src/diagram/registration/registration_metadata.rs\<close> with the
  message, node and section metadata it holds, and its implementation of \<open>MetadataAccess\<close>.

  A message type is its index into the list of registered messages. The type names of
  \<open>JsonMessage\<close> and \<open>ScriptMessage\<close> appear in error messages only. Fields that no operation of
  the model reads (schemas, descriptions, examples) are left out of the records.
\<close>

subsection \<open>Metadata records\<close>

record buffer_access_metadata =
  bam_request_message :: nat
  bam_layout :: "nat layout_hints"

record message_operations_metadata =
  mo_deserialize :: bool
  mo_serialize :: bool
  mo_into_script_message :: bool
  mo_from_script_message :: bool
  mo_fork_clone :: bool
  mo_unzip :: "nat list option"
  mo_fork_result :: "(nat \<times> nat) option"
  mo_split :: "nat option"
  mo_join :: "nat layout_hints option"
  mo_buffer_access :: "buffer_access_metadata option"
  mo_listen :: "nat layout_hints option"
  mo_into :: "nat list"
  mo_try_into :: "nat list"
  mo_from :: "nat list"
  mo_try_from :: "nat list"

record message_metadata =
  mm_type_name :: string
  mm_operations :: "message_operations_metadata option"

record reverse_message_lookup =
  rml_result :: "((nat \<times> nat), nat) hmap"
  rml_unzip :: "(nat list, nat) hmap"
  rml_split :: "(nat, nat list) hmap"
  rml_json_message :: "nat option"
  rml_script_message :: "nat option"

record node_metadata =
  nm_request :: nat
  nm_response :: nat
  nm_streams :: "(name, nat) hmap"

record section_interface =
  si_inputs :: "(name, nat) hmap"
  si_outputs :: "(name, nat) hmap"
  si_buffers :: "(name, nat option) hmap"

record section_metadata =
  sm_interface :: section_interface

record element_metadata =
  em_nodes :: "(builder_id, node_metadata) hmap"
  em_sections :: "(builder_id, section_metadata) hmap"
  em_messages :: "message_metadata list"
  em_reverse_message_lookup :: reverse_message_lookup

subsection \<open>Access to the metadata\<close>

definition json_message_type_name :: string where
  "json_message_type_name = ''serde_json::value::Value''"

definition script_message_type_name :: string where
  "script_message_type_name = ''ScriptMessage''"

definition em_message :: "element_metadata \<Rightarrow> nat \<Rightarrow> diagram_error_code + message_metadata" where
  "em_message self i =
     (if i < length (em_messages self) then Inr (em_messages self ! i)
      else Inl (UnknownMessageTypeIndex i (length (em_messages self))))"

definition message_operations_for ::
  "element_metadata \<Rightarrow> nat \<Rightarrow> diagram_error_code + message_operations_metadata" where
  "message_operations_for self i =
     rbind (em_message self i) (\<lambda>msg.
       ok_or (mm_operations msg) (UnregisteredTypes [mm_type_name msg]))"

definition json_message_index :: "element_metadata \<Rightarrow> diagram_error_code + nat" where
  "json_message_index self =
     ok_or (rml_json_message (em_reverse_message_lookup self))
       (UnregisteredTypes [json_message_type_name])"

definition script_message_index :: "element_metadata \<Rightarrow> diagram_error_code + nat" where
  "script_message_index self =
     ok_or (rml_script_message (em_reverse_message_lookup self))
       (UnregisteredTypes [script_message_type_name])"

definition node_metadata_of ::
  "element_metadata \<Rightarrow> builder_id \<Rightarrow> diagram_error_code + node_metadata" where
  "node_metadata_of self builder = ok_or (hm_get (em_nodes self) builder) (BuilderNotFound builder)"

definition section_metadata_of ::
  "element_metadata \<Rightarrow> builder_id \<Rightarrow> diagram_error_code + section_metadata" where
  "section_metadata_of self builder =
     ok_or (hm_get (em_sections self) builder) (BuilderNotFound builder)"

definition message_type_name :: "element_metadata \<Rightarrow> nat \<Rightarrow> diagram_error_code + string" where
  "message_type_name self i = rbind (em_message self i) (\<lambda>msg. Inr (mm_type_name msg))"

text \<open>
  The look-ups of one supported operation share a shape: the operations of the message type, then
  the entry, then an error that names the type.
\<close>

definition supported_entry ::
  "(message_operations_metadata \<Rightarrow> 'a option) \<Rightarrow> (string \<Rightarrow> diagram_error_code)
     \<Rightarrow> element_metadata \<Rightarrow> nat \<Rightarrow> diagram_error_code + 'a" where
  "supported_entry field missing self i =
     rbind (message_operations_for self i) (\<lambda>ops.
       case field ops of
         Some x \<Rightarrow> Inr x
       | None \<Rightarrow> rbind (message_type_name self i) (\<lambda>type_name. Inl (missing type_name)))"

definition join_layout :: "element_metadata \<Rightarrow> nat \<Rightarrow> diagram_error_code + nat layout_hints" where
  "join_layout = supported_entry mo_join NotJoinable"

definition buffer_access_request_type :: "element_metadata \<Rightarrow> nat \<Rightarrow> diagram_error_code + nat" where
  "buffer_access_request_type =
     supported_entry (\<lambda>ops. map_option bam_request_message (mo_buffer_access ops)) CannotAccessBuffers"

definition buffer_access_layout ::
  "element_metadata \<Rightarrow> nat \<Rightarrow> diagram_error_code + nat layout_hints" where
  "buffer_access_layout =
     supported_entry (\<lambda>ops. map_option bam_layout (mo_buffer_access ops)) CannotAccessBuffers"

definition listen_layout :: "element_metadata \<Rightarrow> nat \<Rightarrow> diagram_error_code + nat layout_hints" where
  "listen_layout = supported_entry mo_listen CannotListen"

definition can_convert :: "element_metadata \<Rightarrow> nat \<Rightarrow> nat \<Rightarrow> diagram_error_code + bool" where
  "can_convert self from_index to_index =
     rbind (message_operations_for self from_index) (\<lambda>ops. Inr (to_index \<in> set (mo_into ops)))"

definition can_clone :: "element_metadata \<Rightarrow> nat \<Rightarrow> diagram_error_code + bool" where
  "can_clone self i = rbind (message_operations_for self i) (\<lambda>ops. Inr (mo_fork_clone ops))"

definition can_serialize :: "element_metadata \<Rightarrow> nat \<Rightarrow> diagram_error_code + bool" where
  "can_serialize self i = rbind (message_operations_for self i) (\<lambda>ops. Inr (mo_serialize ops))"

definition can_deserialize :: "element_metadata \<Rightarrow> nat \<Rightarrow> diagram_error_code + bool" where
  "can_deserialize self i = rbind (message_operations_for self i) (\<lambda>ops. Inr (mo_deserialize ops))"

definition into_script_message :: "element_metadata \<Rightarrow> nat \<Rightarrow> diagram_error_code + bool" where
  "into_script_message self i =
     rbind (message_operations_for self i) (\<lambda>ops. Inr (mo_into_script_message ops))"

definition from_script_message :: "element_metadata \<Rightarrow> nat \<Rightarrow> diagram_error_code + bool" where
  "from_script_message self i =
     rbind (message_operations_for self i) (\<lambda>ops. Inr (mo_from_script_message ops))"

definition fork_result_output_types ::
  "element_metadata \<Rightarrow> nat \<Rightarrow> diagram_error_code + (nat \<times> nat)" where
  "fork_result_output_types = supported_entry mo_fork_result CannotForkResult"

definition unzip_output_types :: "element_metadata \<Rightarrow> nat \<Rightarrow> diagram_error_code + nat list" where
  "unzip_output_types = supported_entry mo_unzip NotUnzippable"

definition split_output_type :: "element_metadata \<Rightarrow> nat \<Rightarrow> diagram_error_code + nat" where
  "split_output_type = supported_entry mo_split NotSplittable"

definition can_split :: "element_metadata \<Rightarrow> nat \<Rightarrow> diagram_error_code + bool" where
  "can_split self i = rbind (message_operations_for self i) (\<lambda>ops. Inr (mo_split ops \<noteq> None))"

subsection \<open>Laws of the access functions\<close>

lemma message_operations_for_known:
  "message_operations_for self i = Inr ops \<Longrightarrow> i < length (em_messages self)"
  by (auto simp: message_operations_for_def em_message_def rbind_eq_Inr split: if_splits)

lemma message_type_name_known:
  "i < length (em_messages self) \<Longrightarrow>
   message_type_name self i = Inr (mm_type_name (em_messages self ! i))"
  by (simp add: message_type_name_def em_message_def)

text \<open>
  A look-up of a supported operation succeeds with the entry, and it reports a missing entry
  with the name of the type: the second look-up of the name cannot fail.
\<close>

lemma supported_entry_cases:
  assumes "message_operations_for self i = Inr ops"
  shows "supported_entry field missing self i =
     (case field ops of Some x \<Rightarrow> Inr x
      | None \<Rightarrow> Inl (missing (mm_type_name (em_messages self ! i))))"
  using message_operations_for_known [OF assms] assms
  by (auto simp: supported_entry_def message_type_name_known split: option.splits)

lemma supported_entry_Inr:
  "supported_entry field missing self i = Inr x
     \<longleftrightarrow> (\<exists>ops. message_operations_for self i = Inr ops \<and> field ops = Some x)"
  by (auto simp: supported_entry_def rbind_eq_Inr split: option.splits)

lemma can_split_iff:
  "message_operations_for self i = Inr ops \<Longrightarrow>
   can_split self i = Inr (\<exists>t. split_output_type self i = Inr t)"
  by (auto simp: can_split_def split_output_type_def supported_entry_Inr)

end
