(* ===== verification/Constraints.thy ===== *)
theory Constraints
  imports Prelude Metadata Diagram
begin

text \<open>
  Generating message type constraints, \<open>src/src/diagram/inference.rs\<close>: the state \<open>Inferences\<close>
  and the operations of \<open>InferenceContext\<close>, one per kind of diagram operation, through which
  \<open>apply_message_type_constraints\<close> of each schema records what is known about its ports.

  The state is threaded explicitly. \<open>constrain\<close> contains the assertion of the source that a port
  is constrained at most once: its failure is the fault \<open>Panicked\<close>. Sets of connections are lists
  without repetition; their order stands for the iteration order of the hash set.
\<close>

subsection \<open>State\<close>

record message_type_inference =
  mti_message_type :: "nat option"
  mti_constraint :: "constraint option"

definition default_inference :: message_type_inference where
  "default_inference = \<lparr>mti_message_type = None, mti_constraint = None\<rparr>"

text \<open>The function pointer in a \<open>BufferInference\<close> is one of three closures.\<close>

datatype buffer_hint_fn = JoinHint | AccessHint | ListenHint

record buffer_inference =
  bfi_used_by :: port_ref
  bfi_member :: ident
  bfi_evaluate :: buffer_hint_fn

record inferences =
  inf_evaluations :: "(port_ref, message_type_inference) hmap"
  inf_connections_into :: "(operation_ref, output_ref list) hmap"
  inf_connection_from :: "(output_ref, operation_ref) hmap"
  inf_redirected_input :: "(operation_ref, operation_ref) hmap"
  inf_redirections_into :: "(operation_ref, operation_ref list) hmap"
  inf_buffer_hints :: "(operation_ref, buffer_inference list) hmap"

definition default_inferences :: inferences where
  "default_inferences =
     \<lparr>inf_evaluations = [], inf_connections_into = [], inf_connection_from = [],
      inf_redirected_input = [], inf_redirections_into = [], inf_buffer_hints = []\<rparr>"

record unfinished_operation =
  uo_id :: name
  uo_namespaces :: namespace_list
  uo_op :: diagram_operation
  uo_sibling_ops :: operations
  uo_on_implicit_error :: operation_ref

definition unfinished_new ::
  "name \<Rightarrow> diagram_operation \<Rightarrow> operations \<Rightarrow> operation_ref \<Rightarrow> unfinished_operation" where
  "unfinished_new op_id op sibling_ops on_implicit_error =
     \<lparr>uo_id = op_id, uo_namespaces = [], uo_op = op, uo_sibling_ops = sibling_ops,
      uo_on_implicit_error = on_implicit_error\<rparr>"

record diagram_context =
  dc_operations :: operations
  dc_templates :: templates
  dc_on_implicit_error :: operation_ref
  dc_script_environments :: "(name, script_environment_schema) hmap"
  dc_default_trace :: trace_toggle
  dc_namespaces :: namespace_list

record inference_state =
  is_inference :: inferences
  is_generated :: "unfinished_operation list"

subsection \<open>Basic operations\<close>

definition set_insert :: "'a \<Rightarrow> 'a list \<Rightarrow> 'a list" where
  "set_insert x xs = (if x \<in> set xs then xs else xs @ [x])"

lemma set_set_insert [simp]: "set (set_insert x xs) = insert x (set xs)"
  by (auto simp: set_insert_def)

definition fixed :: "port_ref \<Rightarrow> nat \<Rightarrow> inferences \<Rightarrow> inferences" where
  "fixed port message_type self =
     self\<lparr>inf_evaluations := hm_entry port default_inference
            (\<lambda>e. e\<lparr>mti_message_type := Some message_type\<rparr>) (inf_evaluations self)\<rparr>"

definition constrain ::
  "port_ref \<Rightarrow> constraint \<Rightarrow> inferences \<Rightarrow> diagram_error_code fault + inferences" where
  "constrain key c self =
     (case hm_get (inf_evaluations self) key of
        Some e \<Rightarrow>
          (if mti_constraint e \<noteq> None
           then Inl (Panicked ''assertion failed: port_constraint.is_none()'')
           else Inr (self\<lparr>inf_evaluations :=
                  hm_insert key (e\<lparr>mti_constraint := Some c\<rparr>) (inf_evaluations self)\<rparr>))
      | None \<Rightarrow>
          Inr (self\<lparr>inf_evaluations :=
            hm_insert key (default_inference\<lparr>mti_constraint := Some c\<rparr>)
              (inf_evaluations self)\<rparr>))"

definition connect :: "output_ref \<Rightarrow> operation_ref \<Rightarrow> inferences \<Rightarrow> inferences" where
  "connect output input self =
     self\<lparr>inf_connection_from := hm_insert output input (inf_connection_from self),
          inf_connections_into :=
            hm_entry input [] (set_insert output) (inf_connections_into self)\<rparr>"

definition infer_from_downstream ::
  "output_ref \<Rightarrow> operation_ref \<Rightarrow> inferences \<Rightarrow> diagram_error_code fault + inferences" where
  "infer_from_downstream output input self =
     rbind (constrain (PortOut output) (ExactMatch (PortIn input)) self) (\<lambda>self.
       Inr (connect output input self))"

definition redirect ::
  "operation_ref \<Rightarrow> operation_ref \<Rightarrow> inferences \<Rightarrow> diagram_error_code fault + inferences" where
  "redirect from_op into_op self =
     rbind (constrain (PortIn from_op) (ExactMatch (PortIn into_op)) self) (\<lambda>self.
       Inr (self\<lparr>inf_redirected_input := hm_insert from_op into_op (inf_redirected_input self),
                 inf_redirections_into :=
                   hm_entry into_op [] (set_insert from_op) (inf_redirections_into self)\<rparr>))"

definition add_buffer_hints ::
  "namespace_list \<Rightarrow> buffer_selection \<Rightarrow> output_ref \<Rightarrow> buffer_hint_fn \<Rightarrow> inferences \<Rightarrow> inferences" where
  "add_buffer_hints nss selection output evaluate self =
     fold (\<lambda>(member, buffer) self.
         let buffer = into_operation_ref nss (op_of_next buffer)
         in self\<lparr>inf_buffer_hints := hm_entry buffer []
                  (\<lambda>hints. hints @ [\<lparr>bfi_used_by = PortOut output, bfi_member = member,
                                     bfi_evaluate = evaluate\<rparr>])
                  (inf_buffer_hints self)\<rparr>)
       (selection_iter selection) self"

subsection \<open>One operation per schema\<close>

definition ctx_node ::
  "element_metadata \<Rightarrow> namespace_list \<Rightarrow> name \<Rightarrow> node_schema \<Rightarrow> inferences
     \<Rightarrow> diagram_error_code fault + inferences" where
  "ctx_node md nss operation_name schema self =
     rbind (may_fail (node_metadata_of md (node_builder schema))) (\<lambda>node.
       let input = into_operation_ref nss (op_of_name operation_name);
           self = fixed (PortIn input) (nm_request node) self;
           output = into_output_ref nss (OutNamed (out_next operation_name));
           target = into_operation_ref nss (op_of_next (node_next schema));
           self = fixed (PortOut output) (nm_response node) self;
           self = connect output target self;
           self = fold (\<lambda>(stream_id, stream_type) self.
               let stream = into_output_ref nss (OutNamed (out_stream_out operation_name stream_id))
               in fixed (PortOut stream) stream_type self)
             (nm_streams node) self;
           self = fold (\<lambda>(stream_id, stream_target) self.
               let stream = into_output_ref nss (OutNamed (out_stream_out operation_name stream_id));
                   stream_target = into_operation_ref nss (op_of_next stream_target)
               in connect stream stream_target self)
             (node_stream_out schema) self
       in Inr self)"

definition ctx_transform ::
  "element_metadata \<Rightarrow> namespace_list \<Rightarrow> name \<Rightarrow> next_operation \<Rightarrow> inferences
     \<Rightarrow> diagram_error_code fault + inferences" where
  "ctx_transform md nss operation_name next self =
     rbind (may_fail (json_message_index md)) (\<lambda>json_index.
       let operation = into_operation_ref nss (op_of_name operation_name);
           output = into_output_ref nss (OutNamed (out_next operation_name));
           target = into_operation_ref nss (op_of_next next);
           self = fixed (PortIn operation) json_index self;
           self = fixed (PortOut output) json_index self
       in Inr (connect output target self))"

definition ctx_stream_out ::
  "namespace_list \<Rightarrow> name \<Rightarrow> name \<Rightarrow> inferences \<Rightarrow> diagram_error_code fault + inferences" where
  "ctx_stream_out nss operation_name stream_name self =
     (let operation = into_operation_ref nss (op_of_name operation_name);
          stream = into_operation_ref nss (op_stream_out stream_name)
      in constrain (PortIn operation) (ExactMatch (PortIn stream)) self)"

definition ctx_fork_clone ::
  "namespace_list \<Rightarrow> name \<Rightarrow> next_operation list \<Rightarrow> inferences
     \<Rightarrow> diagram_error_code fault + inferences" where
  "ctx_fork_clone nss operation_name next self =
     (let operation = into_operation_ref nss (op_of_name operation_name);
          targets = map (\<lambda>target. into_operation_ref nss (op_of_next target)) next
      in rbind (rfold (\<lambda>self (i, target).
               let output = into_output_ref nss (OutNamed (out_next_index operation_name i));
                   self = connect output target self
               in constrain (PortOut output) (ExactMatch (PortIn operation)) self)
             self (enumerate 0 targets)) (\<lambda>self.
         constrain (PortIn operation) (CloneInput operation targets) self))"

definition ctx_result ::
  "namespace_list \<Rightarrow> name \<Rightarrow> next_operation \<Rightarrow> next_operation \<Rightarrow> inferences
     \<Rightarrow> diagram_error_code fault + inferences" where
  "ctx_result nss operation_name ok err self =
     (let operation = into_operation_ref nss (op_of_name operation_name);
          ok_output = into_output_ref nss (OutNamed (out_ok operation_name));
          err_output = into_output_ref nss (OutNamed (out_err operation_name));
          ok_target = into_operation_ref nss (op_of_next ok);
          err_target = into_operation_ref nss (op_of_next err)
      in rbind (constrain (PortOut ok_output) (OkFrom operation) self) (\<lambda>self.
         rbind (constrain (PortOut err_output) (ErrFrom operation) self) (\<lambda>self.
         rbind (constrain (PortIn operation) (ResultInto operation ok_target err_target) self) (\<lambda>self.
           Inr (connect err_output err_target (connect ok_output ok_target self))))))"

definition ctx_unzip ::
  "namespace_list \<Rightarrow> name \<Rightarrow> next_operation list \<Rightarrow> inferences
     \<Rightarrow> diagram_error_code fault + inferences" where
  "ctx_unzip nss unzippable_name targets self =
     (let unzippable = into_operation_ref nss (op_of_name unzippable_name)
      in rbind (rfold (\<lambda>self (i, target).
               let element_output = into_output_ref nss (OutNamed (out_next_index unzippable_name i))
               in rbind (constrain (PortOut element_output) (UnzipOutput unzippable i) self) (\<lambda>self.
                    Inr (connect element_output (into_operation_ref nss (op_of_next target)) self)))
             self (enumerate 0 targets)) (\<lambda>self.
         constrain (PortIn unzippable) (UnzipInput unzippable) self))"

definition ctx_buffer ::
  "element_metadata \<Rightarrow> namespace_list \<Rightarrow> name \<Rightarrow> bool \<Rightarrow> inferences
     \<Rightarrow> diagram_error_code fault + inferences" where
  "ctx_buffer md nss operation_name serialize self =
     (let operation = into_operation_ref nss (op_of_name operation_name)
      in if serialize
         then rbind (may_fail (json_message_index md)) (\<lambda>json_index.
                Inr (fixed (PortIn operation) json_index self))
         else constrain (PortIn operation) (BufferInput operation) self)"

definition ctx_join ::
  "element_metadata \<Rightarrow> namespace_list \<Rightarrow> name \<Rightarrow> buffer_selection \<Rightarrow> next_operation \<Rightarrow> bool
     \<Rightarrow> inferences \<Rightarrow> diagram_error_code fault + inferences" where
  "ctx_join md nss operation_name selection next serialize self =
     (let output = into_output_ref nss (OutNamed (out_next operation_name));
          target = into_operation_ref nss (op_of_next next);
          self = add_buffer_hints nss selection output JoinHint self
      in if serialize
         then rbind (may_fail (json_message_index md)) (\<lambda>json_index.
                Inr (connect output target (fixed (PortOut output) json_index self)))
         else infer_from_downstream output target self)"

definition ctx_buffer_access ::
  "namespace_list \<Rightarrow> name \<Rightarrow> buffer_selection \<Rightarrow> next_operation \<Rightarrow> inferences
     \<Rightarrow> diagram_error_code fault + inferences" where
  "ctx_buffer_access nss operation_name selection next self =
     (let operation = into_operation_ref nss (op_of_name operation_name);
          output = into_output_ref nss (OutNamed (out_next operation_name));
          target = into_operation_ref nss (op_of_next next);
          self = add_buffer_hints nss selection output AccessHint self
      in rbind (infer_from_downstream output target self) (\<lambda>self.
           constrain (PortIn operation) (BufferAccessInput target) self))"

definition ctx_listen ::
  "namespace_list \<Rightarrow> name \<Rightarrow> buffer_selection \<Rightarrow> next_operation \<Rightarrow> inferences
     \<Rightarrow> diagram_error_code fault + inferences" where
  "ctx_listen nss operation_name selection next self =
     (let output = into_output_ref nss (OutNamed (out_next operation_name));
          target = into_operation_ref nss (op_of_next next);
          self = add_buffer_hints nss selection output ListenHint self
      in infer_from_downstream output target self)"

definition split_output ::
  "namespace_list \<Rightarrow> operation_ref \<Rightarrow> named_output_ref \<Rightarrow> next_operation \<Rightarrow> inferences
     \<Rightarrow> diagram_error_code fault + inferences" where
  "split_output nss split out target self =
     (let output = into_output_ref nss (OutNamed out)
      in rbind (constrain (PortOut output) (SplitOutput split) self) (\<lambda>self.
           Inr (connect output (into_operation_ref nss (op_of_next target)) self)))"

definition ctx_split ::
  "namespace_list \<Rightarrow> name \<Rightarrow> next_operation list \<Rightarrow> (name, next_operation) hmap
     \<Rightarrow> next_operation option \<Rightarrow> inferences \<Rightarrow> diagram_error_code fault + inferences" where
  "ctx_split nss split_name sequential keyed remaining self =
     (let split = into_operation_ref nss (op_of_name split_name)
      in rbind (rfold (\<lambda>self (i, target).
               split_output nss split (out_next_index split_name i) target self)
             self (enumerate 0 sequential)) (\<lambda>self.
         rbind (rfold (\<lambda>self (key, target).
               split_output nss split (out_keyed split_name key) target self)
             self keyed) (\<lambda>self.
         rbind (case remaining of
                  Some target \<Rightarrow> split_output nss split (out_remaining split_name) target self
                | None \<Rightarrow> Inr self) (\<lambda>self.
           constrain (PortIn split) (SplitInput split) self))))"

definition ctx_script ::
  "element_metadata \<Rightarrow> namespace_list \<Rightarrow> name \<Rightarrow> script_schema \<Rightarrow> inferences
     \<Rightarrow> diagram_error_code fault + inferences" where
  "ctx_script md nss operation_name schema self =
     rbind (may_fail (script_message_index md)) (\<lambda>script_index.
       let input = into_operation_ref nss (op_of_name operation_name);
           self = fixed (PortIn input) script_index self;
           output = into_output_ref nss (OutNamed (out_next operation_name));
           target = into_operation_ref nss (op_of_next (script_next schema));
           self = fixed (PortOut output) script_index self;
           self = connect output target self;
           self = fold (\<lambda>(stream_id, stream_target) self.
               let stream = into_output_ref nss (OutNamed (out_stream_out operation_name stream_id));
                   self = fixed (PortOut stream) script_index self
               in connect stream (into_operation_ref nss (op_of_next stream_target)) self)
             (script_stream_out schema) self
       in Inr self)"

subsection \<open>Operations with children\<close>

definition add_child_operation ::
  "diagram_context \<Rightarrow> name \<Rightarrow> name \<Rightarrow> diagram_operation \<Rightarrow> operations \<Rightarrow> next_operation option
     \<Rightarrow> inference_state \<Rightarrow> inference_state" where
  "add_child_operation ctx parent child_id op sibling_ops on_implicit_error st =
     (let namespaces = dc_namespaces ctx @ [parent];
          on_implicit_error' =
            (case on_implicit_error of
               Some err_op \<Rightarrow> in_namespaces namespaces (op_of_next err_op)
             | None \<Rightarrow> dc_on_implicit_error ctx)
      in st\<lparr>is_generated := is_generated st @
             [\<lparr>uo_id = child_id, uo_namespaces = namespaces, uo_op = op,
               uo_sibling_ops = sibling_ops, uo_on_implicit_error = on_implicit_error'\<rparr>]\<rparr>)"

definition on_inference ::
  "(inferences \<Rightarrow> 'e + inferences) \<Rightarrow> inference_state \<Rightarrow> 'e + inference_state" where
  "on_inference f st = rbind (f (is_inference st)) (\<lambda>inf. Inr (st\<lparr>is_inference := inf\<rparr>))"

text \<open>A section that is built by a registered builder: the ports of its interface are fixed.\<close>

definition section_from_builder ::
  "namespace_list \<Rightarrow> name \<Rightarrow> section_interface \<Rightarrow> (name, next_operation) hmap \<Rightarrow> inferences \<Rightarrow> inferences" where
  "section_from_builder nss section_id interface connections self =
     (let exposed = (\<lambda>n. into_port_ref nss (PortIn (op_of_next
              (NextNamespace \<lparr>nsop_namespace = section_id, nsop_operation = n\<rparr>))));
          self = fold (\<lambda>(input_name, message_type) self.
              fixed (exposed input_name) message_type self) (si_inputs interface) self;
          self = fold (\<lambda>(buffer_name, buffer_message_type) self.
              case buffer_message_type of
                Some message_type \<Rightarrow> fixed (exposed buffer_name) message_type self
              | None \<Rightarrow> self) (si_buffers interface) self;
          self = fold (\<lambda>(output_name, message_type) self.
              fixed (into_port_ref nss (PortOut (OutNamed (out_section_output section_id output_name))))
                message_type self) (si_outputs interface) self
      in fold (\<lambda>(output_name, next) self.
              connect (into_output_ref nss (OutNamed (out_section_output section_id output_name)))
                (into_operation_ref nss (op_of_next next)) self) connections self)"

text \<open>The redirections of a section that is made from a template.\<close>

definition template_redirections ::
  "namespace_list \<Rightarrow> name \<Rightarrow> section_template \<Rightarrow> (name, next_operation) hmap \<Rightarrow> inferences
     \<Rightarrow> diagram_error_code fault + inferences" where
  "template_redirections nss section_id section connections self =
     (let expose = (\<lambda>op next self.
            redirect (into_operation_ref nss (exposed_input section_id op))
              (into_operation_ref nss (next_in_namespace section_id next)) self)
      in rbind (remapping_redirect expose (template_inputs section) self) (\<lambda>self.
         rbind (remapping_redirect expose (template_buffers section) self) (\<lambda>self.
         rbind (reach (\<lambda>expected_output.
                  if expected_output \<in> set (template_outputs section) then Inr ()
                  else Inl (Failed (SectionError (UnknownOutput expected_output))))
                (hm_keys connections)) (\<lambda>_.
           rfold (\<lambda>self output.
               case hm_get connections output of
                 Some target \<Rightarrow>
                   redirect (into_operation_ref nss (next_in_namespace section_id (NextName output)))
                     (into_operation_ref nss (op_of_next target)) self
               | None \<Rightarrow> Inr self)
             self (template_outputs section)))))"

definition ctx_section ::
  "element_metadata \<Rightarrow> diagram_context \<Rightarrow> name \<Rightarrow> section_schema \<Rightarrow> inference_state
     \<Rightarrow> diagram_error_code fault + inference_state" where
  "ctx_section md ctx section_id schema st =
     (let nss = dc_namespaces ctx
      in rbind (case section_provider schema of
             ProviderBuilder section_builder \<Rightarrow>
               rbind (may_fail (section_metadata_of md section_builder)) (\<lambda>metadata.
                 Inr (st\<lparr>is_inference := section_from_builder nss section_id
                        (sm_interface metadata) (section_connect schema) (is_inference st)\<rparr>))
           | ProviderTemplate section_template \<Rightarrow>
               rbind (may_fail (get_template (dc_templates ctx) section_template)) (\<lambda>section.
                 let st = fold (\<lambda>(child_id, op) st.
                       add_child_operation ctx section_id child_id op (template_ops section) None st)
                     (ops_map (template_ops section)) st
                 in on_inference
                      (template_redirections nss section_id section (section_connect schema)) st))
         (\<lambda>st. on_inference
            (redirect (into_operation_ref nss (terminate_for section_id))
               (into_operation_ref nss (op_of_next next_terminate))) st))"

definition ctx_scope ::
  "diagram_context \<Rightarrow> name \<Rightarrow> scope_schema \<Rightarrow> inference_state
     \<Rightarrow> diagram_error_code fault + inference_state" where
  "ctx_scope ctx scope_id schema st =
     (let nss = dc_namespaces ctx;
          operation = into_operation_ref nss (op_of_name scope_id);
          start_target = into_operation_ref nss (in_namespace scope_id (op_of_next (scope_start schema)))
      in rbind (on_inference (redirect operation start_target) st) (\<lambda>st.
         rbind (on_inference (\<lambda>self. rfold (\<lambda>self (stream_name, stream_target).
                  redirect (into_operation_ref nss (scope_stream_out scope_id stream_name))
                    (into_operation_ref nss (op_of_next stream_target)) self)
                self (scope_stream_outs schema)) st) (\<lambda>st.
         rbind (on_inference
                 (redirect (into_operation_ref nss (terminate_for scope_id))
                    (into_operation_ref nss (op_of_next (scope_next schema)))) st) (\<lambda>st.
           Inr (fold (\<lambda>(child_id, op) st.
                 add_child_operation ctx scope_id child_id op (scope_ops schema)
                   (Some (scope_on_implicit_error schema)) st)
               (ops_map (scope_ops schema)) st)))))"

text \<open>\<open>DiagramOperation::apply_message_type_constraints\<close> with the implementations of the schemas.\<close>

fun apply_message_type_constraints ::
  "element_metadata \<Rightarrow> diagram_context \<Rightarrow> name \<Rightarrow> diagram_operation \<Rightarrow> inference_state
     \<Rightarrow> diagram_error_code fault + inference_state" where
  "apply_message_type_constraints md ctx n (OpBuffer op) st =
     on_inference (ctx_buffer md (dc_namespaces ctx) n (buffer_serialize op)) st"
| "apply_message_type_constraints md ctx n (OpBufferAccess op) st =
     on_inference (ctx_buffer_access (dc_namespaces ctx) n (access_buffers op) (access_next op)) st"
| "apply_message_type_constraints md ctx n (OpForkClone op) st =
     on_inference (ctx_fork_clone (dc_namespaces ctx) n (fork_clone_next op)) st"
| "apply_message_type_constraints md ctx n (OpForkResult op) st =
     on_inference (ctx_result (dc_namespaces ctx) n (fork_result_ok op) (fork_result_err op)) st"
| "apply_message_type_constraints md ctx n (OpJoin op) st =
     on_inference (ctx_join md (dc_namespaces ctx) n (join_buffers op) (join_next op)
       (join_serialize op)) st"
| "apply_message_type_constraints md ctx n (OpListen op) st =
     on_inference (ctx_listen (dc_namespaces ctx) n (listen_buffers op) (listen_next op)) st"
| "apply_message_type_constraints md ctx n (OpNode op) st =
     on_inference (ctx_node md (dc_namespaces ctx) n op) st"
| "apply_message_type_constraints md ctx n (OpScope op) st = ctx_scope ctx n op st"
| "apply_message_type_constraints md ctx n (OpScript op) st =
     on_inference (ctx_script md (dc_namespaces ctx) n op) st"
| "apply_message_type_constraints md ctx n (OpSection op) st = ctx_section md ctx n op st"
| "apply_message_type_constraints md ctx n (OpSplit op) st =
     on_inference (ctx_split (dc_namespaces ctx) n (split_sequential op) (split_keyed op)
       (split_remaining op)) st"
| "apply_message_type_constraints md ctx n (OpStreamOutput op) st =
     on_inference (ctx_stream_out (dc_namespaces ctx) n (stream_out_name op)) st"
| "apply_message_type_constraints md ctx n (OpTransform op) st =
     on_inference (ctx_transform md (dc_namespaces ctx) n (transform_next op)) st"
| "apply_message_type_constraints md ctx n (OpUnzip op) st =
     on_inference (ctx_unzip (dc_namespaces ctx) n (unzip_next op)) st"

end
