(* ===== verification/Evaluation.thy ===== *)
theory Evaluation
  imports Constraints
begin

text \<open>
  Evaluating message type constraints, \<open>src/src/diagram/inference.rs\<close>: the functions of
  \<open>ConstraintContext\<close>, the hints that buffers get from their accessors, and the two methods of the
  trait \<open>MessageTypeConstraint\<close>, \<open>evaluate\<close> and \<open>dependencies\<close>, for its eleven implementations.

  The inferences and the metadata that a \<open>ConstraintContext\<close> holds are the first two arguments.
  The lemmas say which message types flow into an operation (those of the outputs connected to it
  or to an operation that is redirected into it), and that an evaluation only reads the types of
  the ports in its read set.
\<close>

subsection \<open>Reading the inferences\<close>

definition get_inference_of :: "inferences \<Rightarrow> port_ref \<Rightarrow> diagram_error_code + nat option" where
  "get_inference_of infs port =
     rbind (ok_or (hm_get (inf_evaluations infs) port) (UnknownPort port)) (\<lambda>inference.
       Inr (mti_message_type inference))"

definition connections_into :: "inferences \<Rightarrow> operation_ref \<Rightarrow> output_ref list" where
  "connections_into infs operation =
     (case hm_get (inf_connections_into infs) operation of
        Some connections \<Rightarrow> connections
      | None \<Rightarrow> [])"

definition redirections_into :: "inferences \<Rightarrow> operation_ref \<Rightarrow> operation_ref list" where
  "redirections_into infs operation =
     (case hm_get (inf_redirections_into infs) operation of
        Some redirections \<Rightarrow> redirections
      | None \<Rightarrow> [])"

text \<open>The message types of the outputs that connect directly into an operation.\<close>

definition connected_types ::
  "inferences \<Rightarrow> operation_ref \<Rightarrow> diagram_error_code + nat list" where
  "connected_types infs input =
     rbind (rmap (\<lambda>connection. get_inference_of infs (PortOut connection))
             (connections_into infs input))
       (\<lambda>types. Inr (List.map_filter (\<lambda>t. t) types))"

text \<open>
  The loop of \<open>impl_get_message_types_into\<close>: \<open>input_queue\<close> is used as a stack, its head is the
  next element to pop. It returns because an operation that has redirections is visited once.
\<close>

function (sequential) message_types_loop ::
  "inferences \<Rightarrow> bool \<Rightarrow> operation_ref list \<Rightarrow> operation_ref list \<Rightarrow> nat list
     \<Rightarrow> diagram_error_code + nat list" where
  "message_types_loop infs necessary [] visited types = Inr types"
| "message_types_loop infs necessary (input # input_queue) visited types =
     (if input \<in> set visited then Inl (CircularRedirect visited)
      else if necessary \<and> connections_into infs input = [] \<and> redirections_into infs input = []
      then Inl (NoConnection input)
      else rbind (connected_types infs input) (\<lambda>connected.
        message_types_loop infs necessary (rev (redirections_into infs input) @ input_queue)
          (input # visited) (types @ connected)))"
  by pat_completeness auto

termination
proof (relation "(\<lambda>(infs, _, _, visited, _). card (dom (hm_get (inf_redirections_into infs)) - set visited))
    <*mlex*> measure (\<lambda>(_, _, input_queue, _, _). length input_queue)", goal_cases)
  case 1
  show ?case by (simp add: wf_mlex)
next
  case (2 infs necessary input input_queue visited types connected)
  let ?D = "dom (hm_get (inf_redirections_into infs))"
  show ?case
  proof (cases "input \<in> ?D")
    case True
    have "finite ?D" by (rule finite_dom_map_of)
    then have "card (?D - set (input # visited)) < card (?D - set visited)"
      using True 2(1) by (intro psubset_card_mono) auto
    then show ?thesis by (simp add: mlex_less)
  next
    case False
    then have "redirections_into infs input = []"
      by (auto simp: redirections_into_def split: option.splits)
    moreover from False have "?D - set (input # visited) = ?D - set visited" by auto
    ultimately show ?thesis by (intro mlex_leq) auto
  qed
qed

definition impl_get_message_types_into ::
  "inferences \<Rightarrow> operation_ref \<Rightarrow> bool \<Rightarrow> diagram_error_code + nat list" where
  "impl_get_message_types_into infs input connection_necessary =
     rbind (message_types_loop infs connection_necessary [input] [] []) (\<lambda>types.
       Inr (sort_dedup types))"

definition get_message_types_into ::
  "inferences \<Rightarrow> operation_ref \<Rightarrow> diagram_error_code + nat list" where
  "get_message_types_into infs input = impl_get_message_types_into infs input True"

definition try_get_message_types_into ::
  "inferences \<Rightarrow> operation_ref \<Rightarrow> diagram_error_code + nat list" where
  "try_get_message_types_into infs input = impl_get_message_types_into infs input False"

definition type_name_for :: "element_metadata \<Rightarrow> nat \<Rightarrow> diagram_error_code + string" where
  "type_name_for md i = message_type_name md i"

definition type_info_for_slice ::
  "element_metadata \<Rightarrow> nat list \<Rightarrow> diagram_error_code + string list" where
  "type_info_for_slice md indices = rmap (type_name_for md) indices"

definition ambiguous :: "element_metadata \<Rightarrow> nat list \<Rightarrow> diagram_error_code + 'a" where
  "ambiguous md types =
     rbind (type_info_for_slice md types) (\<lambda>info. Inl (AmbiguousMessageType info))"

subsection \<open>Evaluation of each kind of port\<close>

definition same_output_type ::
  "inferences \<Rightarrow> element_metadata \<Rightarrow> operation_ref list \<Rightarrow> diagram_error_code + nat option" where
  "same_output_type infs md targets =
     rbind (rmap (\<lambda>target. get_inference_of infs (PortIn target)) targets) (\<lambda>known.
       let message_types = sort_dedup (List.map_filter (\<lambda>t. t) known)
       in case message_types of
            [] \<Rightarrow> Inr None
          | [message_type] \<Rightarrow> Inr (Some message_type)
          | _ \<Rightarrow>
             (case json_message_index md of
                Inl _ \<Rightarrow> Inr None
              | Inr json_index \<Rightarrow>
                 rbind (rmap (\<lambda>message_type.
                     rbind (can_deserialize md message_type) (\<lambda>deserializable.
                     rbind (from_script_message md message_type) (\<lambda>scriptable.
                       Inr (deserializable, scriptable)))) message_types) (\<lambda>abilities.
                   let deserializable = list_all fst abilities;
                       scriptable = list_all snd abilities;
                       has_script_message =
                         list_ex (\<lambda>message_type. script_message_index md = Inr message_type) message_types
                   in if \<not> has_script_message \<and> deserializable then Inr (Some json_index)
                      else if scriptable
                      then (case script_message_index md of
                              Inr script_index \<Rightarrow> Inr (Some script_index)
                            | Inl _ \<Rightarrow> Inr None)
                      else Inr None)))"

text \<open>The choice of \<open>evaluate_clone_input\<close> before it checks that the type can be cloned.\<close>

definition select_clone_type ::
  "inferences \<Rightarrow> element_metadata \<Rightarrow> operation_ref list \<Rightarrow> nat list
     \<Rightarrow> diagram_error_code + nat option" where
  "select_clone_type infs md targets incoming =
     (case incoming of
        [] \<Rightarrow> same_output_type infs md targets
      | [message_type] \<Rightarrow> Inr (Some message_type)
      | _ \<Rightarrow>
         rbind (same_output_type infs md targets) (\<lambda>output_type.
           case output_type of
             Some output_message_type \<Rightarrow>
               rbind (rmap (\<lambda>incoming. can_convert md incoming output_message_type) incoming)
                 (\<lambda>compatible.
                   if list_all (\<lambda>b. b) compatible then Inr (Some output_message_type)
                   else ambiguous md incoming)
           | None \<Rightarrow>
               rbind (reach (\<lambda>message_type.
                   rbind (can_serialize md message_type) (\<lambda>serializable.
                     if serializable then Inr () else ambiguous md incoming)) incoming) (\<lambda>_.
                 case json_message_index md of
                   Inr json_index \<Rightarrow> Inr (Some json_index)
                 | Inl _ \<Rightarrow> ambiguous md incoming)))"

definition evaluate_clone_input ::
  "inferences \<Rightarrow> element_metadata \<Rightarrow> operation_ref \<Rightarrow> operation_ref list
     \<Rightarrow> diagram_error_code + nat option" where
  "evaluate_clone_input infs md operation targets =
     rbind (get_message_types_into infs operation) (\<lambda>incoming.
     rbind (select_clone_type infs md targets incoming) (\<lambda>selected.
       case selected of
         None \<Rightarrow> Inr None
       | Some selected_input_type \<Rightarrow>
           rbind (can_clone md selected_input_type) (\<lambda>cloneable.
             if cloneable then Inr (Some selected_input_type)
             else rbind (type_name_for md selected_input_type) (\<lambda>type_name.
               Inl (NotCloneable type_name)))))"

definition select_result_type ::
  "inferences \<Rightarrow> element_metadata \<Rightarrow> operation_ref \<Rightarrow> operation_ref \<Rightarrow> nat list
     \<Rightarrow> diagram_error_code + nat option" where
  "select_result_type infs md ok_target err_target incoming =
     (case incoming of
        [] \<Rightarrow>
          rbind (get_inference_of infs (PortIn ok_target)) (\<lambda>ok_inference.
            case ok_inference of
              None \<Rightarrow> Inr None
            | Some ok_type \<Rightarrow>
                rbind (get_inference_of infs (PortIn err_target)) (\<lambda>err_inference.
                  case err_inference of
                    None \<Rightarrow> Inr None
                  | Some err_type \<Rightarrow>
                      Inr (hm_get (rml_result (em_reverse_message_lookup md)) (ok_type, err_type))))
      | [message_type] \<Rightarrow> Inr (Some message_type)
      | _ \<Rightarrow> Inr None)"

definition evaluate_result_input ::
  "inferences \<Rightarrow> element_metadata \<Rightarrow> operation_ref \<Rightarrow> operation_ref \<Rightarrow> operation_ref
     \<Rightarrow> diagram_error_code + nat option" where
  "evaluate_result_input infs md operation ok_target err_target =
     rbind (get_message_types_into infs operation) (\<lambda>incoming.
     rbind (select_result_type infs md ok_target err_target incoming) (\<lambda>selected.
       case selected of
         None \<Rightarrow> Inr None
       | Some selected_input_type \<Rightarrow>
           rbind (fork_result_output_types md selected_input_type) (\<lambda>_.
             Inr (Some selected_input_type))))"

text \<open>The pair \<open>output_types\<close> is indexed with 0 or 1; \<open>first\<close> selects index 0.\<close>

definition evaluate_result_output ::
  "inferences \<Rightarrow> element_metadata \<Rightarrow> operation_ref \<Rightarrow> bool \<Rightarrow> diagram_error_code + nat option" where
  "evaluate_result_output infs md from_result first =
     rbind (get_inference_of infs (PortIn from_result)) (\<lambda>inference.
       case inference of
         None \<Rightarrow> Inr None
       | Some result_type \<Rightarrow>
           rbind (fork_result_output_types md result_type) (\<lambda>output_types.
             Inr (Some (if first then fst output_types else snd output_types))))"

definition evaluate_unzip_input ::
  "inferences \<Rightarrow> element_metadata \<Rightarrow> operation_ref \<Rightarrow> diagram_error_code + nat option" where
  "evaluate_unzip_input infs md operation =
     rbind (get_message_types_into infs operation) (\<lambda>incoming.
       case incoming of
         [] \<Rightarrow> Inr None
       | [unzip_msg] \<Rightarrow>
           rbind (unzip_output_types md unzip_msg) (\<lambda>_. Inr (Some unzip_msg))
       | _ \<Rightarrow> ambiguous md incoming)"

definition evaluate_unzip_output ::
  "inferences \<Rightarrow> element_metadata \<Rightarrow> operation_ref \<Rightarrow> nat \<Rightarrow> diagram_error_code + nat option" where
  "evaluate_unzip_output infs md input element =
     rbind (get_inference_of infs (PortIn input)) (\<lambda>inference.
       case inference of
         None \<Rightarrow> Inr None
       | Some unzip_type \<Rightarrow>
           rbind (unzip_output_types md unzip_type) (\<lambda>unzip_outputs.
             if element < length unzip_outputs then Inr (Some (unzip_outputs ! element))
             else rbind (type_name_for md unzip_type) (\<lambda>type_name.
               Inl (InvalidUnzip type_name element))))"

definition evaluate_buffer_hint ::
  "nat layout_hints \<Rightarrow> ident \<Rightarrow> diagram_error_code + nat option" where
  "evaluate_buffer_hint layout member =
     (case layout of
        LayoutDynamic dynamic \<Rightarrow>
          (if is_compatible dynamic member
           then Inr (case dyn_hint dynamic of Some h \<Rightarrow> as_exact h | None \<Rightarrow> None)
           else Inl (IncompatibleBuffers (empty_layout_report\<lparr>forbidden_buffers := [member]\<rparr>)))
      | LayoutStatic hints \<Rightarrow>
          (case hm_get hints member of
             Some hint \<Rightarrow> Inr (as_exact hint)
           | None \<Rightarrow> Inr None))"

fun hint_layout ::
  "element_metadata \<Rightarrow> buffer_hint_fn \<Rightarrow> nat \<Rightarrow> diagram_error_code + nat layout_hints" where
  "hint_layout md JoinHint msg = join_layout md msg"
| "hint_layout md AccessHint msg = buffer_access_layout md msg"
| "hint_layout md ListenHint msg = listen_layout md msg"

definition evaluate_buffer_inference ::
  "inferences \<Rightarrow> element_metadata \<Rightarrow> buffer_inference \<Rightarrow> diagram_error_code + nat option" where
  "evaluate_buffer_inference infs md self =
     rbind (get_inference_of infs (bfi_used_by self)) (\<lambda>inference.
       case inference of
         None \<Rightarrow> Inr None
       | Some target_type \<Rightarrow>
           rbind (hint_layout md (bfi_evaluate self) target_type) (\<lambda>layout.
             evaluate_buffer_hint layout (bfi_member self)))"

definition evaluate_buffer_input ::
  "inferences \<Rightarrow> element_metadata \<Rightarrow> operation_ref \<Rightarrow> diagram_error_code + nat option" where
  "evaluate_buffer_input infs md input =
     rbind (try_get_message_types_into infs input) (\<lambda>incoming.
       case incoming of
         [] \<Rightarrow>
           (case hm_get (inf_buffer_hints infs) input of
              None \<Rightarrow> Inr None
            | Some hints \<Rightarrow>
                rbind (rmap (evaluate_buffer_inference infs md) hints) (\<lambda>evaluations.
                  let hint_message_types = sort_dedup (List.map_filter (\<lambda>t. t) evaluations)
                  in case hint_message_types of
                       [] \<Rightarrow> Inr None
                     | [message_type] \<Rightarrow> Inr (Some message_type)
                     | _ \<Rightarrow> ambiguous md hint_message_types))
       | [message_type] \<Rightarrow> Inr (Some message_type)
       | _ \<Rightarrow> ambiguous md incoming)"

definition evaluate_buffer_access_input ::
  "inferences \<Rightarrow> element_metadata \<Rightarrow> operation_ref \<Rightarrow> diagram_error_code + nat option" where
  "evaluate_buffer_access_input infs md target =
     rbind (get_inference_of infs (PortIn target)) (\<lambda>inference.
       case inference of
         None \<Rightarrow> Inr None
       | Some target_type \<Rightarrow>
           rbind (buffer_access_request_type md target_type) (\<lambda>request_message.
             Inr (Some request_message)))"

definition evaluate_split_input ::
  "inferences \<Rightarrow> element_metadata \<Rightarrow> operation_ref \<Rightarrow> diagram_error_code + nat option" where
  "evaluate_split_input infs md operation =
     rbind (get_message_types_into infs operation) (\<lambda>incoming.
       case incoming of
         [] \<Rightarrow> Inr None
       | [message_type] \<Rightarrow>
           rbind (can_split md message_type) (\<lambda>splittable.
           rbind (can_serialize md message_type) (\<lambda>serializable.
             if splittable then Inr (Some message_type)
             else
               let not_splittable =
                     rbind (type_name_for md message_type) (\<lambda>type_name. Inl (NotSplittable type_name))
               in if serializable
                  then (case json_message_index md of
                          Inr json_index \<Rightarrow> Inr (Some json_index)
                        | Inl _ \<Rightarrow> not_splittable)
                  else not_splittable))
       | _ \<Rightarrow>
           (case json_message_index md of
              Inl _ \<Rightarrow> ambiguous md incoming
            | Inr json_index \<Rightarrow>
                rbind (reach (\<lambda>message_type.
                    rbind (can_serialize md message_type) (\<lambda>serializable.
                      if serializable then Inr () else ambiguous md incoming)) incoming) (\<lambda>_.
                  Inr (Some json_index))))"

definition evaluate_split_output ::
  "inferences \<Rightarrow> element_metadata \<Rightarrow> operation_ref \<Rightarrow> diagram_error_code + nat option" where
  "evaluate_split_output infs md operation =
     rbind (get_inference_of infs (PortIn operation)) (\<lambda>inference.
       case inference of
         None \<Rightarrow> Inr None
       | Some split_type \<Rightarrow>
           rbind (split_output_type md split_type) (\<lambda>output_type. Inr (Some output_type)))"

subsection \<open>The constraint trait\<close>

fun evaluate_constraint ::
  "inferences \<Rightarrow> element_metadata \<Rightarrow> constraint \<Rightarrow> diagram_error_code + nat option" where
  "evaluate_constraint infs md (ExactMatch port) = get_inference_of infs port"
| "evaluate_constraint infs md (CloneInput operation targets) =
     evaluate_clone_input infs md operation targets"
| "evaluate_constraint infs md (ResultInto operation ok err) =
     evaluate_result_input infs md operation ok err"
| "evaluate_constraint infs md (OkFrom operation) = evaluate_result_output infs md operation True"
| "evaluate_constraint infs md (ErrFrom operation) = evaluate_result_output infs md operation False"
| "evaluate_constraint infs md (UnzipInput operation) = evaluate_unzip_input infs md operation"
| "evaluate_constraint infs md (UnzipOutput operation element) =
     evaluate_unzip_output infs md operation element"
| "evaluate_constraint infs md (BufferInput operation) = evaluate_buffer_input infs md operation"
| "evaluate_constraint infs md (BufferAccessInput target) = evaluate_buffer_access_input infs md target"
| "evaluate_constraint infs md (SplitInput operation) = evaluate_split_input infs md operation"
| "evaluate_constraint infs md (SplitOutput operation) = evaluate_split_output infs md operation"

fun dependencies :: "inferences \<Rightarrow> constraint \<Rightarrow> port_ref list" where
  "dependencies infs (ExactMatch port) = [port]"
| "dependencies infs (CloneInput operation targets) =
     map PortIn targets @ map PortOut (connections_into infs operation)"
| "dependencies infs (ResultInto operation ok err) =
     map PortOut (connections_into infs operation) @ [PortIn ok, PortIn err]"
| "dependencies infs (OkFrom operation) = [PortIn operation]"
| "dependencies infs (ErrFrom operation) = [PortIn operation]"
| "dependencies infs (UnzipInput operation) = map PortOut (connections_into infs operation)"
| "dependencies infs (UnzipOutput operation element) = [PortIn operation]"
| "dependencies infs (BufferInput operation) =
     map PortOut (connections_into infs operation)
     @ (case hm_get (inf_buffer_hints infs) operation of
          Some hints \<Rightarrow> map bfi_used_by hints
        | None \<Rightarrow> [])"
| "dependencies infs (BufferAccessInput target) = [PortIn target]"
| "dependencies infs (SplitInput operation) = map PortOut (connections_into infs operation)"
| "dependencies infs (SplitOutput operation) = [PortIn operation]"

definition evaluate_inference ::
  "inferences \<Rightarrow> element_metadata \<Rightarrow> message_type_inference \<Rightarrow> diagram_error_code + nat option" where
  "evaluate_inference infs md self =
     (case mti_constraint self of
        None \<Rightarrow> Inr None
      | Some c \<Rightarrow> evaluate_constraint infs md c)"

definition get_evaluation ::
  "inferences \<Rightarrow> port_ref \<Rightarrow> diagram_error_code + message_type_inference" where
  "get_evaluation infs key = ok_or (hm_get (inf_evaluations infs) key) (UnknownPort key)"

subsection \<open>Which types flow into an operation\<close>

text \<open>
  \<open>upstream infs input\<close> holds the operations whose connections count as connections into
  \<open>input\<close>: \<open>input\<close> itself and every operation that is redirected into it, in any number of steps.
\<close>

definition redirect_edges :: "inferences \<Rightarrow> (operation_ref \<times> operation_ref) set" where
  "redirect_edges infs = {(from_op, into_op). from_op \<in> set (redirections_into infs into_op)}"

definition upstream :: "inferences \<Rightarrow> operation_ref \<Rightarrow> operation_ref set" where
  "upstream infs input = {from_op. (from_op, input) \<in> (redirect_edges infs)\<^sup>*}"

lemma upstream_unfold:
  "upstream infs input = insert input (\<Union>r \<in> set (redirections_into infs input). upstream infs r)"
proof -
  have "(x, input) \<in> (redirect_edges infs)\<^sup>* \<longleftrightarrow>
      x = input \<or> (\<exists>r \<in> set (redirections_into infs input). (x, r) \<in> (redirect_edges infs)\<^sup>*)" for x
    by (subst rtrancl.simps) (auto simp: redirect_edges_def)
  then show ?thesis by (auto simp: upstream_def)
qed

lemma upstream_unredirected [simp]:
  "redirections_into infs input = [] \<Longrightarrow> upstream infs input = {input}"
  by (subst upstream_unfold) simp

definition types_flowing_into :: "inferences \<Rightarrow> operation_ref \<Rightarrow> nat set" where
  "types_flowing_into infs input =
     {t. \<exists>from_op \<in> upstream infs input. \<exists>connection \<in> set (connections_into infs from_op).
        get_inference_of infs (PortOut connection) = Inr (Some t)}"

lemma connected_types_set:
  assumes "connected_types infs input = Inr ts"
  shows "set ts = {t. \<exists>connection \<in> set (connections_into infs input).
           get_inference_of infs (PortOut connection) = Inr (Some t)}"
proof -
  from assms obtain ks where
    ks: "list_all2 (\<lambda>connection k. get_inference_of infs (PortOut connection) = Inr k)
           (connections_into infs input) ks"
    and ts: "ts = List.map_filter (\<lambda>t. t) ks"
    by (auto simp: connected_types_def rbind_eq_Inr rmap_eq_Inr)
  from ks have "Some t \<in> set ks \<longleftrightarrow> (\<exists>connection \<in> set (connections_into infs input).
      get_inference_of infs (PortOut connection) = Inr (Some t))" for t
    by (induction rule: list_all2_induct) auto
  then show ?thesis by (auto simp: ts in_set_map_filter)
qed

lemma types_flowing_unfold:
  "types_flowing_into infs input =
     {t. \<exists>connection \<in> set (connections_into infs input).
        get_inference_of infs (PortOut connection) = Inr (Some t)}
     \<union> (\<Union>r \<in> set (redirections_into infs input). types_flowing_into infs r)"
  unfolding types_flowing_into_def by (subst upstream_unfold) blast

lemma message_types_loop_set:
  "message_types_loop infs necessary input_queue visited types = Inr ts \<Longrightarrow>
   set ts = set types \<union> (\<Union>input \<in> set input_queue. types_flowing_into infs input)"
proof (induction infs necessary input_queue visited types rule: message_types_loop.induct)
  case (2 infs necessary input input_queue visited types)
  then obtain connected where connected: "connected_types infs input = Inr connected"
    and loop: "message_types_loop infs necessary (rev (redirections_into infs input) @ input_queue)
      (input # visited) (types @ connected) = Inr ts"
    by (auto simp: rbind_eq_Inr split: if_splits)
  have "set ts = set (types @ connected)
      \<union> (\<Union>i \<in> set (rev (redirections_into infs input) @ input_queue). types_flowing_into infs i)"
    by (rule "2.IH" [OF _ _ connected loop]) (use 2(2) in \<open>auto split: if_splits\<close>)
  then show ?case
    using connected_types_set [OF connected] types_flowing_unfold [of infs input] by auto
qed simp

lemma impl_get_message_types_into_Inr:
  assumes "impl_get_message_types_into infs input necessary = Inr ts"
  shows "set ts = types_flowing_into infs input \<and> sorted ts \<and> distinct ts"
proof -
  from assms obtain ts' where "message_types_loop infs necessary [input] [] [] = Inr ts'"
    and "ts = sort_dedup ts'"
    by (auto simp: impl_get_message_types_into_def rbind_eq_Inr)
  then show ?thesis
    using message_types_loop_set [of infs necessary "[input]" "[]" "[]" ts']
      sorted_distinct_sort_dedup [of ts'] by simp
qed

subsection \<open>What an evaluation reads\<close>

fun source_operation :: "constraint \<Rightarrow> operation_ref option" where
  "source_operation (CloneInput operation _) = Some operation"
| "source_operation (ResultInto operation _ _) = Some operation"
| "source_operation (UnzipInput operation) = Some operation"
| "source_operation (BufferInput operation) = Some operation"
| "source_operation (SplitInput operation) = Some operation"
| "source_operation _ = None"

definition read_set :: "inferences \<Rightarrow> constraint \<Rightarrow> port_ref set" where
  "read_set infs c = set (dependencies infs c)
     \<union> (case source_operation c of
          None \<Rightarrow> {}
        | Some operation \<Rightarrow>
            \<Union>from_op \<in> upstream infs operation. PortOut ` set (connections_into infs from_op))"

text \<open>Without redirections into the operation, an evaluation reads its dependencies only.\<close>

lemma read_set_dependencies:
  assumes "\<And>operation. source_operation c = Some operation \<Longrightarrow> redirections_into infs operation = []"
  shows "read_set infs c = set (dependencies infs c)"
  using assms by (cases c) (auto simp: read_set_def)

definition same_wiring :: "inferences \<Rightarrow> inferences \<Rightarrow> bool" where
  "same_wiring a b \<longleftrightarrow>
     inf_connections_into a = inf_connections_into b
     \<and> inf_redirections_into a = inf_redirections_into b
     \<and> inf_buffer_hints a = inf_buffer_hints b"

lemma same_wiring_eq:
  assumes "same_wiring a b"
  shows "connections_into a = connections_into b" and "redirections_into a = redirections_into b"
    and "inf_buffer_hints a = inf_buffer_hints b" and "upstream a = upstream b"
    and "dependencies a = dependencies b" and "read_set a = read_set b"
proof -
  show c: "connections_into a = connections_into b" and r: "redirections_into a = redirections_into b"
    and h: "inf_buffer_hints a = inf_buffer_hints b"
    using assms by (auto simp: same_wiring_def connections_into_def redirections_into_def)
  from r show u: "upstream a = upstream b" by (simp add: upstream_def redirect_edges_def fun_eq_iff)
  have "dependencies a k = dependencies b k" for k by (cases k) (simp_all add: c h)
  then show d: "dependencies a = dependencies b" by (simp add: fun_eq_iff)
  show "read_set a = read_set b" by (rule ext) (simp add: read_set_def c u d split: option.split)
qed

lemma connected_types_agree:
  assumes "same_wiring a b"
    and "\<And>o'. o' \<in> set (connections_into b input) \<Longrightarrow>
      get_inference_of a (PortOut o') = get_inference_of b (PortOut o')"
  shows "connected_types a input = connected_types b input"
proof -
  have "rmap (\<lambda>connection. get_inference_of a (PortOut connection)) (connections_into b input) =
      rmap (\<lambda>connection. get_inference_of b (PortOut connection)) (connections_into b input)"
    by (rule rmap_cong) (simp_all add: assms(2))
  then show ?thesis by (simp add: connected_types_def same_wiring_eq [OF assms(1)])
qed

lemma message_types_loop_agree:
  assumes "same_wiring a b"
    and "\<And>i x o'. i \<in> set input_queue \<Longrightarrow> x \<in> upstream b i \<Longrightarrow> o' \<in> set (connections_into b x) \<Longrightarrow>
      get_inference_of a (PortOut o') = get_inference_of b (PortOut o')"
  shows "message_types_loop a necessary input_queue visited types =
    message_types_loop b necessary input_queue visited types"
  using assms
proof (induction b necessary input_queue visited types rule: message_types_loop.induct)
  case (2 b necessary input input_queue visited types)
  note eqs = same_wiring_eq [OF "2.prems"(1)]
  have connected: "connected_types a input = connected_types b input"
    by (rule connected_types_agree [OF "2.prems"(1)])
      (rule "2.prems"(2) [of input input], auto simp: upstream_def)
  show ?case
  proof (cases "input \<in> set visited
      \<or> necessary \<and> connections_into b input = [] \<and> redirections_into b input = []")
    case True
    then show ?thesis by (auto simp: eqs)
  next
    case False
    have "message_types_loop a necessary (rev (redirections_into b input) @ input_queue)
        (input # visited) (types @ ts) =
      message_types_loop b necessary (rev (redirections_into b input) @ input_queue)
        (input # visited) (types @ ts)" if "connected_types b input = Inr ts" for ts
    proof (rule "2.IH" [OF _ _ that "2.prems"(1)])
      fix i x o'
      assume i: "i \<in> set (rev (redirections_into b input) @ input_queue)"
        and x: "x \<in> upstream b i" and o': "o' \<in> set (connections_into b x)"
      show "get_inference_of a (PortOut o') = get_inference_of b (PortOut o')"
      proof (cases "i \<in> set input_queue")
        case True
        then show ?thesis using "2.prems"(2) [OF _ x o'] by simp
      next
        case False
        then have "x \<in> upstream b input" using i x upstream_unfold [of b input] by auto
        then show ?thesis using "2.prems"(2) [OF _ _ o', of input] by simp
      qed
    qed (use False in auto)
    then have step: "rbind (connected_types b input) (\<lambda>connected.
        message_types_loop a necessary (rev (redirections_into b input) @ input_queue)
          (input # visited) (types @ connected)) =
      rbind (connected_types b input) (\<lambda>connected.
        message_types_loop b necessary (rev (redirections_into b input) @ input_queue)
          (input # visited) (types @ connected))"
      by (intro rbind_cong) simp_all
    show ?thesis using False by (auto simp: eqs connected step)
  qed
qed simp

lemma impl_get_message_types_agree:
  assumes "same_wiring a b"
    and "\<And>x o'. x \<in> upstream b input \<Longrightarrow> o' \<in> set (connections_into b x) \<Longrightarrow>
      get_inference_of a (PortOut o') = get_inference_of b (PortOut o')"
  shows "impl_get_message_types_into a input necessary = impl_get_message_types_into b input necessary"
  unfolding impl_get_message_types_into_def
  by (subst message_types_loop_agree [OF assms(1), of "[input]" necessary "[]" "[]"])
    (use assms(2) in auto)

lemma same_output_type_agree:
  assumes "\<And>target. target \<in> set targets \<Longrightarrow>
    get_inference_of a (PortIn target) = get_inference_of b (PortIn target)"
  shows "same_output_type a md targets = same_output_type b md targets"
proof -
  have "rmap (\<lambda>target. get_inference_of a (PortIn target)) targets =
      rmap (\<lambda>target. get_inference_of b (PortIn target)) targets"
    by (rule rmap_cong) (simp_all add: assms)
  then show ?thesis by (simp add: same_output_type_def)
qed

lemma evaluate_buffer_input_agree:
  assumes "same_wiring a b"
    and "impl_get_message_types_into a input False = impl_get_message_types_into b input False"
    and "\<And>hints hint. hm_get (inf_buffer_hints b) input = Some hints \<Longrightarrow> hint \<in> set hints \<Longrightarrow>
      get_inference_of a (bfi_used_by hint) = get_inference_of b (bfi_used_by hint)"
  shows "evaluate_buffer_input a md input = evaluate_buffer_input b md input"
proof -
  have "rmap (evaluate_buffer_inference a md) hints = rmap (evaluate_buffer_inference b md) hints"
    if "hm_get (inf_buffer_hints b) input = Some hints" for hints
    by (rule rmap_cong) (simp_all add: evaluate_buffer_inference_def assms(3) [OF that])
  then show ?thesis
    by (auto simp: evaluate_buffer_input_def try_get_message_types_into_def assms(2)
        same_wiring_eq [OF assms(1)] intro!: rbind_cong split: list.splits option.splits)
qed

theorem evaluate_constraint_agree:
  assumes "same_wiring a b"
    and "\<And>port. port \<in> read_set b c \<Longrightarrow> get_inference_of a port = get_inference_of b port"
  shows "evaluate_constraint a md c = evaluate_constraint b md c"
proof -
  have types: "impl_get_message_types_into a operation necessary =
      impl_get_message_types_into b operation necessary"
    if "source_operation c = Some operation" for operation necessary
    by (rule impl_get_message_types_agree [OF assms(1)], rule assms(2))
      (use that in \<open>auto simp: read_set_def\<close>)
  note reads = assms(2) [unfolded read_set_def]
  show ?thesis
  proof (cases c)
    case (CloneInput operation targets)
    have "same_output_type a md targets = same_output_type b md targets"
      by (rule same_output_type_agree, rule reads) (simp add: CloneInput)
    then have "select_clone_type a md targets = select_clone_type b md targets"
      unfolding select_clone_type_def by (simp only:)
    then show ?thesis
      using types [of operation]
      by (simp add: CloneInput evaluate_clone_input_def get_message_types_into_def)
  next
    case (ResultInto operation ok err)
    then have "get_inference_of a (PortIn ok) = get_inference_of b (PortIn ok)"
        "get_inference_of a (PortIn err) = get_inference_of b (PortIn err)"
      by (auto intro!: reads)
    then have "select_result_type a md ok err = select_result_type b md ok err"
      unfolding select_result_type_def by (simp only:)
    then show ?thesis
      using types [of operation] ResultInto
      by (simp add: evaluate_result_input_def get_message_types_into_def)
  next
    case (BufferInput operation)
    then show ?thesis
      using types [of operation] reads
      by (auto intro!: evaluate_buffer_input_agree [OF assms(1)])
  qed (use types reads in \<open>simp_all add: evaluate_unzip_input_def evaluate_split_input_def
      get_message_types_into_def evaluate_result_output_def evaluate_unzip_output_def
      evaluate_buffer_access_input_def evaluate_split_output_def\<close>)
qed

subsection \<open>What an evaluation guarantees\<close>

text \<open>
  A type that an evaluation selects for the input of an operation supports that operation, and a
  type selected for an output is the one the registration lists.
\<close>

lemma list_two_cases:
  obtains "xs = []" | x where "xs = [x]" | x y zs where "xs = x # y # zs"
  by (metis neq_Nil_conv)

lemma evaluate_clone_input_sound:
  "evaluate_clone_input infs md operation targets = Inr (Some t) \<Longrightarrow> can_clone md t = Inr True"
  by (auto simp: evaluate_clone_input_def rbind_eq_Inr split: option.splits if_splits)

lemma evaluate_result_input_sound:
  "evaluate_result_input infs md operation ok err = Inr (Some t) \<Longrightarrow>
   \<exists>outputs. fork_result_output_types md t = Inr outputs"
  by (auto simp: evaluate_result_input_def rbind_eq_Inr split: option.splits)

lemma evaluate_unzip_input_sound:
  "evaluate_unzip_input infs md operation = Inr (Some t) \<Longrightarrow>
   \<exists>outputs. unzip_output_types md t = Inr outputs"
  unfolding evaluate_unzip_input_def ambiguous_def rbind_eq_Inr
  by (elim exE conjE) (case_tac x rule: list_two_cases, auto simp: rbind_eq_Inr)

lemma evaluate_split_input_sound:
  "evaluate_split_input infs md operation = Inr (Some t) \<Longrightarrow>
   can_split md t = Inr True \<or> json_message_index md = Inr t"
  unfolding evaluate_split_input_def ambiguous_def rbind_eq_Inr
  by (elim exE conjE) (case_tac x rule: list_two_cases,
      auto simp: rbind_eq_Inr Let_def split: sum.splits if_splits)

end
