(* ===== verification/Worklist.thy ===== *)
theory Worklist
  imports Prelude
begin

text \<open>
  The propagation loop of \<open>evaluate_message_type_inferences\<close> in \<open>src/src/diagram/inference.rs\<close>,
  with the evaluation of a port, its current value, the assignment of a value and the dependents
  of a port as arguments.

  The loop may run forever, so it is a partial function into \<open>option\<close>: \<open>None\<close> stands for a run
  that never returns. Two locales are the contract between the loop and the state it
  works on, in two layers. Under \<open>dataflow_state\<close> values are never lost, ports that cannot be
  evaluated keep their value, every new value comes from an evaluation, and the loop returns when
  the dependents are ranked. \<open>dataflow\<close> adds that an evaluation depends on the ports whose
  dependents include it; then a run that returns leaves a fixpoint behind.
\<close>

subsection \<open>The loop\<close>

definition enqueue :: "'p list \<Rightarrow> 'p list \<Rightarrow> 'p list" where
  "enqueue deps queue = fold (\<lambda>dep queue. if dep \<in> set queue then queue else queue @ [dep]) deps queue"

definition worklist_step ::
  "('s \<Rightarrow> 'p \<Rightarrow> 'e + 'v option) \<Rightarrow> ('s \<Rightarrow> 'p \<Rightarrow> 'v option) \<Rightarrow> ('p \<Rightarrow> 'v \<Rightarrow> 's \<Rightarrow> 's)
     \<Rightarrow> ('p \<Rightarrow> 'p list) \<Rightarrow> 'p \<Rightarrow> 'p list \<Rightarrow> 's \<Rightarrow> 'e + 'p list \<times> 's" where
  "worklist_step eval val assign dependents port queue s =
     rbind (eval s port) (\<lambda>evaluation.
       case evaluation of
         None \<Rightarrow> Inr (queue, s)
       | Some v \<Rightarrow>
           (if val s port \<noteq> Some v
            then Inr (enqueue (dependents port) queue, assign port v s)
            else Inr (queue, s)))"

partial_function (option) worklist ::
  "('s \<Rightarrow> 'p \<Rightarrow> 'e + 'v option) \<Rightarrow> ('s \<Rightarrow> 'p \<Rightarrow> 'v option) \<Rightarrow> ('p \<Rightarrow> 'v \<Rightarrow> 's \<Rightarrow> 's)
     \<Rightarrow> ('p \<Rightarrow> 'p list) \<Rightarrow> 'p list \<Rightarrow> 's \<Rightarrow> ('e + 's) option" where
  "worklist eval val assign dependents queue s =
     (case queue of
        [] \<Rightarrow> Some (Inr s)
      | port # queue' \<Rightarrow>
          (case worklist_step eval val assign dependents port queue' s of
             Inl e \<Rightarrow> Some (Inl e)
           | Inr (queue'', s') \<Rightarrow> worklist eval val assign dependents queue'' s'))"

declare worklist.simps [code]

lemma worklist_Nil [simp]: "worklist eval val assign dependents [] s = Some (Inr s)"
  by (simp add: worklist.simps)

lemma worklist_Cons:
  "worklist eval val assign dependents (port # queue) s =
     (case worklist_step eval val assign dependents port queue s of
        Inl e \<Rightarrow> Some (Inl e)
      | Inr (queue', s') \<Rightarrow> worklist eval val assign dependents queue' s')"
  by (subst worklist.simps) simp

lemma set_enqueue [simp]: "set (enqueue deps queue) = set queue \<union> set deps"
  unfolding enqueue_def by (induction deps arbitrary: queue) auto

lemma enqueue_decompose:
  "\<exists>new. enqueue deps queue = queue @ new \<and> set new \<subseteq> set deps"
  unfolding enqueue_def
proof (induction deps arbitrary: queue)
  case (Cons d deps)
  show ?case
  proof (cases "d \<in> set queue")
    case True
    then show ?thesis using Cons [of queue] by auto
  next
    case False
    from Cons [of "queue @ [d]"] obtain new where
      "fold (\<lambda>dep queue. if dep \<in> set queue then queue else queue @ [dep]) deps (queue @ [d])
         = (queue @ [d]) @ new" and "set new \<subseteq> set deps"
      by blast
    then show ?thesis using False by auto
  qed
qed simp

subsection \<open>Invariants of a run\<close>

lemma worklist_run_induct:
  assumes run: "worklist eval val assign dependents queue s = Some r"
    and init: "I queue s"
    and finish: "\<And>s. I [] s \<Longrightarrow> Q (Inr s)"
    and error: "\<And>port queue s e. I (port # queue) s \<Longrightarrow> eval s port = Inl e \<Longrightarrow> Q (Inl e)"
    and keep: "\<And>port queue s v. I (port # queue) s \<Longrightarrow> eval s port = Inr v
       \<Longrightarrow> v = None \<or> v = val s port \<Longrightarrow> I queue s"
    and change: "\<And>port queue s v. I (port # queue) s \<Longrightarrow> eval s port = Inr (Some v)
       \<Longrightarrow> val s port \<noteq> Some v \<Longrightarrow> I (enqueue (dependents port) queue) (assign port v s)"
  shows "Q r"
proof -
  let ?P = "\<lambda>eval' val' assign' dependents' queue s r.
    eval' = eval \<longrightarrow> val' = val \<longrightarrow> assign' = assign \<longrightarrow> dependents' = dependents
      \<longrightarrow> I queue s \<longrightarrow> Q r"
  have "?P eval val assign dependents queue s r"
  proof (rule worklist.raw_induct [of ?P, OF _ run], intro impI)
    fix wl eval' val' assign' dependents' queue s r
    assume IH: "\<And>eval val assign dependents queue s r. wl eval val assign dependents queue s = Some r
        \<Longrightarrow> ?P eval val assign dependents queue s r"
      and body: "(case queue of [] \<Rightarrow> Some (Inr s) | port # queue' \<Rightarrow>
          (case worklist_step eval' val' assign' dependents' port queue' s of
             Inl e \<Rightarrow> Some (Inl e)
           | Inr (queue'', s') \<Rightarrow> wl eval' val' assign' dependents' queue'' s')) = Some r"
      and same: "eval' = eval" "val' = val" "assign' = assign" "dependents' = dependents"
      and inv: "I queue s"
    show "Q r"
    proof (cases queue)
      case Nil
      then show ?thesis using body inv finish by auto
    next
      case (Cons port rest)
      note inv = inv [unfolded Cons]
      show ?thesis
      proof (cases "eval s port")
        case (Inl e)
        then show ?thesis
          using body error [OF inv Inl] by (simp add: Cons same worklist_step_def)
      next
        case (Inr v)
        show ?thesis
        proof (cases "v = None \<or> v = val s port")
          case True
          then have "worklist_step eval val assign dependents port rest s = Inr (rest, s)"
            using Inr by (auto simp: worklist_step_def split: option.splits)
          then show ?thesis using body IH keep [OF inv Inr True] by (simp add: Cons same)
        next
          case False
          then obtain w where w: "v = Some w" "val s port \<noteq> Some w" by auto
          then have "worklist_step eval val assign dependents port rest s =
              Inr (enqueue (dependents port) rest, assign port w s)"
            using Inr by (simp add: worklist_step_def)
          then show ?thesis
            using body IH change [OF inv Inr [unfolded w(1)] w(2)] by (simp add: Cons same)
        qed
      qed
    qed
  qed
  then show ?thesis using init by simp
qed

subsection \<open>The contract of the loop\<close>

text \<open>
  \<open>live s p\<close> says that port \<open>p\<close> has something to evaluate. An assignment to a live port changes
  its value only, and the evaluation of a port that is not among its dependents is unaffected.
\<close>

locale dataflow_state =
  fixes eval :: "'s \<Rightarrow> 'p \<Rightarrow> 'e + 'v option"
    and val :: "'s \<Rightarrow> 'p \<Rightarrow> 'v option"
    and assign :: "'p \<Rightarrow> 'v \<Rightarrow> 's \<Rightarrow> 's"
    and dependents :: "'p \<Rightarrow> 'p list"
    and ok :: "'s \<Rightarrow> bool"
    and live :: "'p \<Rightarrow> bool"
  assumes eval_live: "ok s \<Longrightarrow> eval s p = Inr (Some v) \<Longrightarrow> live p"
    and ok_assign: "ok s \<Longrightarrow> live p \<Longrightarrow> ok (assign p v s)"
    and val_assign: "ok s \<Longrightarrow> live p \<Longrightarrow> val (assign p v s) q = (if q = p then Some v else val s q)"
begin

definition ranked :: "('p \<Rightarrow> nat) \<Rightarrow> bool" where
  "ranked r \<longleftrightarrow> (\<forall>p. live p \<longrightarrow> (\<forall>q \<in> set (dependents p). r q < r p))"

lemma progress:
  assumes "worklist eval val assign dependents queue s = Some (Inr t)" and "ok s"
  shows "ok t \<and> (val s q \<noteq> None \<longrightarrow> val t q \<noteq> None) \<and> (\<not> live q \<longrightarrow> val t q = val s q)"
proof -
  let ?R = "\<lambda>u. ok u \<and> (val s q \<noteq> None \<longrightarrow> val u q \<noteq> None) \<and> (\<not> live q \<longrightarrow> val u q = val s q)"
  let ?Q = "\<lambda>r :: 'e + 's. case r of Inl _ \<Rightarrow> True | Inr t \<Rightarrow> ?R t"
  have "?Q (Inr t)"
    by (rule worklist_run_induct [where I = "\<lambda>_. ?R" and Q = ?Q, OF assms(1)])
      (use assms(2) in \<open>auto simp: eval_live ok_assign val_assign\<close>)
  then show ?thesis by simp
qed

text \<open>
  Where a value comes from: it was there at the start, or an evaluation in a state that satisfies
  the contract produced it.
\<close>

lemma provenance:
  assumes "worklist eval val assign dependents queue s = Some (Inr t)" and "ok s"
  shows "val t q = val s q \<or> (\<exists>u v. ok u \<and> eval u q = Inr (Some v) \<and> val t q = Some v)"
proof -
  let ?R = "\<lambda>t. ok t \<and> (val t q = val s q \<or> (\<exists>u v. ok u \<and> eval u q = Inr (Some v) \<and> val t q = Some v))"
  let ?Q = "\<lambda>r :: 'e + 's. case r of Inl _ \<Rightarrow> True | Inr t \<Rightarrow> ?R t"
  have "?Q (Inr t)"
  proof (rule worklist_run_induct [where I = "\<lambda>_. ?R" and Q = ?Q, OF assms(1)])
    fix port queue u v
    assume "?R u" and e: "eval u port = Inr (Some v)"
    then show "?R (assign port v u)"
      using ok_assign [OF _ eval_live [OF _ e]] val_assign [OF _ eval_live [OF _ e]] by auto
  qed (use assms(2) in auto)
  then show ?thesis by simp
qed

lemma returns:
  assumes "ranked r" and "ok s"
  shows "\<exists>x. worklist eval val assign dependents queue s = Some x"
proof -
  have "\<forall>queue s. M = mset (map r queue) \<longrightarrow> ok s
     \<longrightarrow> (\<exists>x. worklist eval val assign dependents queue s = Some x)" for M
  proof (induction M rule: wf_induct [OF wf_mult [OF wf_less]])
    case (1 M)
    have IH: "\<exists>x. worklist eval val assign dependents q s = Some x"
      if "(mset (map r q), M) \<in> mult {(x, y). x < y}" and "ok s" for q s
      using 1 that by blast
    show ?case
    proof (intro allI impI)
      fix queue s
      assume M: "M = mset (map r queue)" and "ok s"
      show "\<exists>x. worklist eval val assign dependents queue s = Some x"
      proof (cases queue)
        case (Cons port rest)
        have smaller: "(mset (map r (rest @ new)), M) \<in> mult {(x, y). x < y}"
          if "\<forall>q \<in> set new. r q < r port" for new
        proof -
          have "(mset (map r rest) + mset (map r new), mset (map r rest) + {#r port#})
              \<in> mult {(x, y). x < y}"
            by (rule one_step_implies_mult) (use that in auto)
          then show ?thesis by (simp add: M Cons)
        qed
        show ?thesis
        proof (cases "worklist_step eval val assign dependents port rest s")
          case (Inr next_state)
          consider "next_state = (rest, s)"
            | v where "eval s port = Inr (Some v)"
                "next_state = (enqueue (dependents port) rest, assign port v s)"
            using Inr by (auto simp: worklist_step_def rbind_eq_Inr split: option.splits if_splits)
          then show ?thesis
          proof cases
            case 1
            then show ?thesis
              using Inr IH [OF _ \<open>ok s\<close>] smaller [of "[]"] by (simp add: Cons worklist_Cons)
          next
            case (2 v)
            note live = eval_live [OF \<open>ok s\<close> 2(1)]
            obtain new where new: "enqueue (dependents port) rest = rest @ new"
              "set new \<subseteq> set (dependents port)"
              using enqueue_decompose [of "dependents port" rest] by blast
            then have "\<forall>q \<in> set new. r q < r port"
              using assms(1) live by (auto simp: ranked_def)
            from IH [OF smaller [OF this] ok_assign [OF \<open>ok s\<close> live, of v]]
            have "\<exists>x. worklist eval val assign dependents (enqueue (dependents port) rest)
                (assign port v s) = Some x"
              by (simp only: new(1))
            then show ?thesis using Inr 2(2) by (simp add: Cons worklist_Cons)
          qed
        qed (simp add: Cons worklist_Cons)
      qed simp
    qed
  qed
  then show ?thesis using assms(2) by blast
qed

end

locale dataflow = dataflow_state eval val assign dependents ok live
  for eval :: "'s \<Rightarrow> 'p \<Rightarrow> 'e + 'v option"
    and val :: "'s \<Rightarrow> 'p \<Rightarrow> 'v option"
    and assign :: "'p \<Rightarrow> 'v \<Rightarrow> 's \<Rightarrow> 's"
    and dependents :: "'p \<Rightarrow> 'p list"
    and ok :: "'s \<Rightarrow> bool"
    and live :: "'p \<Rightarrow> bool" +
  assumes eval_assign: "ok s \<Longrightarrow> live p \<Longrightarrow> q \<notin> set (dependents p) \<Longrightarrow> eval (assign p v s) q = eval s q"
begin

definition stable :: "'s \<Rightarrow> 'p \<Rightarrow> bool" where
  "stable s q \<longleftrightarrow> eval s q = Inr None \<or> eval s q = Inr (val s q)"

lemma stable_keep:
  assumes "eval s p = Inr v" and "v = None \<or> v = val s p"
  shows "stable s p"
  using assms by (auto simp: stable_def)

lemma stable_assign:
  assumes "ok s" and "eval s p = Inr (Some v)" and "q \<notin> set (dependents p)"
    and "q \<noteq> p \<Longrightarrow> stable s q"
  shows "stable (assign p v s) q"
proof -
  note live = eval_live [OF assms(1,2)]
  show ?thesis
  proof (cases "q = p")
    case True
    then show ?thesis
      using assms(2) eval_assign [OF assms(1) live assms(3)] val_assign [OF assms(1) live]
      by (simp add: stable_def)
  next
    case False
    then show ?thesis
      using assms(4) eval_assign [OF assms(1) live assms(3)] val_assign [OF assms(1) live]
      by (simp add: stable_def)
  qed
qed

lemma fixpoint:
  assumes "worklist eval val assign dependents queue s = Some (Inr t)"
    and "ok s" and "\<And>q. q \<in> U \<Longrightarrow> q \<notin> set queue \<Longrightarrow> stable s q"
  shows "ok t \<and> (\<forall>q \<in> U. stable t q)"
proof -
  let ?I = "\<lambda>queue s. ok s \<and> (\<forall>q \<in> U. q \<notin> set queue \<longrightarrow> stable s q)"
  let ?Q = "\<lambda>r :: 'e + 's. case r of Inl _ \<Rightarrow> True | Inr t \<Rightarrow> ok t \<and> (\<forall>q \<in> U. stable t q)"
  have "?Q (Inr t)"
  proof (rule worklist_run_induct [where I = ?I and Q = ?Q, OF assms(1)])
    show "?I queue s" using assms(2,3) by blast
  next
    fix port queue s v
    assume "?I (port # queue) s" and "eval s port = Inr v" and "v = None \<or> v = val s port"
    then show "?I queue s" using stable_keep [of s port v] by auto
  next
    fix port queue s v
    assume inv: "?I (port # queue) s" and e: "eval s port = Inr (Some v)"
    then show "?I (enqueue (dependents port) queue) (assign port v s)"
      using ok_assign [OF _ eval_live [OF _ e]] stable_assign [OF _ e] by auto
  qed auto
  then show ?thesis by simp
qed

end

subsection \<open>Runs that never return\<close>

lemma worklist_diverges:
  assumes "(queue, s) \<in> C"
    and "\<And>queue s. (queue, s) \<in> C \<Longrightarrow> \<exists>port rest queue' s'. queue = port # rest
       \<and> worklist_step eval val assign dependents port rest s = Inr (queue', s') \<and> (queue', s') \<in> C"
  shows "worklist eval val assign dependents queue s = None"
proof (rule ccontr)
  assume "worklist eval val assign dependents queue s \<noteq> None"
  then obtain r where run: "worklist eval val assign dependents queue s = Some r" by blast
  have "False"
  proof (rule worklist_run_induct [where I = "\<lambda>queue s. (queue, s) \<in> C" and Q = "\<lambda>_. False", OF run assms(1)])
    show "([], s) \<in> C \<Longrightarrow> False" for s using assms(2) by blast
  next
    show "(port # queue, s) \<in> C \<Longrightarrow> eval s port = Inl e \<Longrightarrow> False" for port queue s e
      using assms(2) [of "port # queue" s] by (auto simp: worklist_step_def)
  next
    show "(port # queue, s) \<in> C \<Longrightarrow> eval s port = Inr v \<Longrightarrow> v = None \<or> v = val s port
        \<Longrightarrow> (queue, s) \<in> C" for port queue s v
      using assms(2) [of "port # queue" s] by (auto simp: worklist_step_def split: if_splits option.splits)
  next
    show "(port # queue, s) \<in> C \<Longrightarrow> eval s port = Inr (Some v) \<Longrightarrow> val s port \<noteq> Some v
        \<Longrightarrow> (enqueue (dependents port) queue, assign port v s) \<in> C" for port queue s v
      using assms(2) [of "port # queue" s] by (auto simp: worklist_step_def split: if_splits option.splits)
  qed
  then show False .
qed

text \<open>A run that comes back to a configuration it has met never returns.\<close>

fun worklist_steps ::
  "nat \<Rightarrow> ('s \<Rightarrow> 'p \<Rightarrow> 'e + 'v option) \<Rightarrow> ('s \<Rightarrow> 'p \<Rightarrow> 'v option) \<Rightarrow> ('p \<Rightarrow> 'v \<Rightarrow> 's \<Rightarrow> 's)
     \<Rightarrow> ('p \<Rightarrow> 'p list) \<Rightarrow> 'p list \<times> 's \<Rightarrow> ('p list \<times> 's) option" where
  "worklist_steps 0 eval val assign dependents c = Some c"
| "worklist_steps (Suc n) eval val assign dependents (queue, s) =
     (case queue of
        [] \<Rightarrow> None
      | port # rest \<Rightarrow>
          (case worklist_step eval val assign dependents port rest s of
             Inl _ \<Rightarrow> None
           | Inr c \<Rightarrow> worklist_steps n eval val assign dependents c))"

lemma worklist_steps_add:
  "worklist_steps (n + m) eval val assign dependents c =
     Option.bind (worklist_steps n eval val assign dependents c)
       (worklist_steps m eval val assign dependents)"
  by (induction n eval val assign dependents c rule: worklist_steps.induct)
    (auto split: list.split sum.split)

lemma worklist_steps_worklist:
  "worklist_steps n eval val assign dependents (queue, s) = Some (queue', s') \<Longrightarrow>
   worklist eval val assign dependents queue s = worklist eval val assign dependents queue' s'"
  by (induction n arbitrary: queue s)
    (auto simp: worklist_Cons split: list.splits sum.splits prod.splits)

lemma worklist_periodic:
  assumes "worklist_steps n eval val assign dependents (queue, s) = Some c"
    and "worklist_steps (Suc m) eval val assign dependents c = Some c"
  shows "worklist eval val assign dependents queue s = None"
proof -
  let ?steps = "\<lambda>n. worklist_steps n eval val assign dependents"
  let ?C = "{c'. \<exists>k. ?steps k c' = Some c}"
  have next_in: "\<exists>port rest queue' s'. queue = port # rest
      \<and> worklist_step eval val assign dependents port rest s = Inr (queue', s') \<and> (queue', s') \<in> ?C"
    if "(queue, s) \<in> ?C" for queue s
  proof -
    from that obtain k where "?steps k (queue, s) = Some c" by blast
    then have "?steps (k + Suc m) (queue, s) = Some c"
      using assms(2) by (simp only: worklist_steps_add) simp
    then have "?steps (Suc (k + m)) (queue, s) = Some c" by simp
    then show ?thesis by (auto split: list.splits sum.splits)
  qed
  have "(queue, s) \<in> ?C" using assms(1) by blast
  then show ?thesis by (rule worklist_diverges) (rule next_in)
qed

end
