(* ===== verification/Inference.thy ===== *)
theory Inference
  imports Validation Evaluation Worklist
begin

text \<open>
  The entry points of the type inference, \<open>src/src/diagram/inference.rs\<close>:
  \<open>Diagram::infer_message_types\<close>, \<open>infer_message_types_for_ports\<close> and the phases of
  \<open>evaluate_message_type_inferences\<close> in their order: the two validations, the rounds that generate
  constraints, the test for circular redirections, the table of dependents, the boundary
  conditions, and the propagation loop.

  Phases that might not return have the value \<open>None\<close> for a run without end. A fault is an error of
  the code or a failed assertion.
\<close>

subsection \<open>Boundary conditions\<close>

record boundary_conditions =
  bc_request :: nat
  bc_response :: nat
  bc_streams :: "(name, nat) hmap"

definition json_messages ::
  "element_metadata \<Rightarrow> name list \<Rightarrow> diagram_error_code + boundary_conditions" where
  "json_messages md stream_names =
     rbind (json_message_index md) (\<lambda>json_index.
       Inr \<lparr>bc_request = json_index, bc_response = json_index,
            bc_streams = fold (\<lambda>n. hm_insert n json_index) stream_names []\<rparr>)"

subsection \<open>Generating the constraints\<close>

definition unfinished_operations :: "diagram \<Rightarrow> unfinished_operation list" where
  "unfinished_operations d =
     map (\<lambda>(op_id, op). unfinished_new op_id op (dg_ops d) (op_of_next (diagram_on_implicit_error d)))
       (ops_map (dg_ops d))"

definition unfinished_context :: "diagram \<Rightarrow> unfinished_operation \<Rightarrow> diagram_context" where
  "unfinished_context d unfinished =
     \<lparr>dc_operations = uo_sibling_ops unfinished, dc_templates = dg_templates d,
      dc_on_implicit_error = uo_on_implicit_error unfinished,
      dc_script_environments = dg_script_environments d, dc_default_trace = dg_default_trace d,
      dc_namespaces = uo_namespaces unfinished\<rparr>"

definition generate_operation ::
  "element_metadata \<Rightarrow> diagram \<Rightarrow> inference_state \<Rightarrow> unfinished_operation
     \<Rightarrow> diagram_error fault + inference_state" where
  "generate_operation md d st unfinished =
     fault_in_port
       (apply_message_type_constraints md (unfinished_context d unfinished) (uo_id unfinished)
         (uo_op unfinished) st)
       (PortIn (in_namespaces (uo_namespaces unfinished) (op_of_name (uo_id unfinished))))"

definition generate_round ::
  "element_metadata \<Rightarrow> diagram \<Rightarrow> unfinished_operation list \<Rightarrow> inferences
     \<Rightarrow> diagram_error fault + inference_state" where
  "generate_round md d unfinished infs =
     rfold (generate_operation md d) \<lparr>is_inference = infs, is_generated = []\<rparr> unfinished"

partial_function (option) generate ::
  "element_metadata \<Rightarrow> diagram \<Rightarrow> unfinished_operation list \<Rightarrow> inferences
     \<Rightarrow> (diagram_error fault + inferences) option" where
  "generate md d unfinished infs =
     (if unfinished = [] then Some (Inr infs)
      else case generate_round md d unfinished infs of
             Inl e \<Rightarrow> Some (Inl e)
           | Inr st \<Rightarrow> generate md d (is_generated st) (is_inference st))"

declare generate.simps [code]

subsection \<open>Circular redirections\<close>

function follow_redirects ::
  "inferences \<Rightarrow> operation_ref \<Rightarrow> operation_ref list \<Rightarrow> diagram_error_code + unit" where
  "follow_redirects infs start visited =
     (if start \<in> set visited then Inl (CircularRedirect (visited @ [start]))
      else case hm_get (inf_redirected_input infs) start of
             None \<Rightarrow> Inr ()
           | Some next \<Rightarrow> follow_redirects infs next (visited @ [start]))"
  by pat_completeness auto

termination
proof (relation "measure (\<lambda>(infs, start, visited).
    card (dom (hm_get (inf_redirected_input infs)) - set visited))", goal_cases)
  case (2 infs start visited target)
  let ?D = "dom (hm_get (inf_redirected_input infs))"
  have "finite ?D" by (rule finite_dom_map_of)
  moreover have "start \<in> ?D" using 2 by blast
  ultimately have "card (?D - set (visited @ [start])) < card (?D - set visited)"
    using 2(1) by (intro psubset_card_mono) auto
  then show ?case by simp
qed simp

declare follow_redirects.simps [simp del]

definition test_circular_redirects :: "inferences \<Rightarrow> diagram_error_code + unit" where
  "test_circular_redirects infs =
     reach (\<lambda>redirect_from. follow_redirects infs redirect_from [])
       (hm_keys (inf_redirected_input infs))"

subsection \<open>Propagation\<close>

type_synonym dependents_map = "(port_ref, port_ref list) hmap"

definition add_dependents ::
  "inferences \<Rightarrow> port_ref \<times> message_type_inference \<Rightarrow> dependents_map \<Rightarrow> dependents_map" where
  "add_dependents infs = (\<lambda>(port, inference) dependents.
     case mti_constraint inference of
       None \<Rightarrow> dependents
     | Some c \<Rightarrow>
         fold (\<lambda>dependency. hm_entry dependency [] (\<lambda>ports. ports @ [port]))
           (dependencies infs c) dependents)"

definition collect_dependents :: "inferences \<Rightarrow> dependents_map" where
  "collect_dependents infs = fold (add_dependents infs) (inf_evaluations infs) []"

definition set_boundary_conditions ::
  "diagram \<Rightarrow> boundary_conditions \<Rightarrow> inferences \<Rightarrow> inferences" where
  "set_boundary_conditions d boundary self =
     (let self = connect (OutStart []) (into_operation_ref [] (op_of_next (dg_start d))) self;
          self = fixed (into_port_ref [] (PortOut (OutStart []))) (bc_request boundary) self;
          self = fixed (into_port_ref [] (PortIn (OpTerminate []))) (bc_response boundary) self
      in fold (\<lambda>(n, stream_type) self.
             fixed (into_port_ref [] (PortIn (op_stream_out n))) stream_type self)
           (bc_streams boundary) self)"

definition evaluate_port ::
  "element_metadata \<Rightarrow> inferences \<Rightarrow> port_ref \<Rightarrow> diagram_error + nat option" where
  "evaluate_port md infs port =
     rbind (in_port (get_evaluation infs port) port) (\<lambda>evaluation.
       in_port (evaluate_inference infs md evaluation) port)"

definition port_type :: "inferences \<Rightarrow> port_ref \<Rightarrow> nat option" where
  "port_type infs port =
     (case hm_get (inf_evaluations infs) port of
        Some evaluation \<Rightarrow> mti_message_type evaluation
      | None \<Rightarrow> None)"

definition dependents_of :: "dependents_map \<Rightarrow> port_ref \<Rightarrow> port_ref list" where
  "dependents_of dependents port =
     (case hm_get dependents port of Some deps \<Rightarrow> deps | None \<Rightarrow> [])"

definition propagate ::
  "element_metadata \<Rightarrow> dependents_map \<Rightarrow> port_ref list \<Rightarrow> inferences
     \<Rightarrow> (diagram_error + inferences) option" where
  "propagate md dependents queue infs =
     worklist (evaluate_port md) port_type fixed (dependents_of dependents) queue infs"

subsection \<open>The entry points\<close>

definition solve_inferences ::
  "element_metadata \<Rightarrow> diagram \<Rightarrow> boundary_conditions \<Rightarrow> inferences
     \<Rightarrow> (diagram_error fault + inferences) option" where
  "solve_inferences md d boundary infs =
     (case test_circular_redirects infs of
        Inl e \<Rightarrow> Some (Inl (Failed (error_of_code e)))
      | Inr _ \<Rightarrow>
          map_option may_fail
            (propagate md (collect_dependents infs) (hm_keys (inf_evaluations infs))
              (set_boundary_conditions d boundary infs)))"

definition evaluate_message_type_inferences ::
  "diagram \<Rightarrow> element_metadata \<Rightarrow> boundary_conditions \<Rightarrow> (diagram_error fault + inferences) option" where
  "evaluate_message_type_inferences d md boundary =
     Option.bind (validate_operation_names d) (\<lambda>names.
     case names of
       Inl e \<Rightarrow> Some (Inl (Failed (error_of_code e)))
     | Inr _ \<Rightarrow>
         Option.bind (validate_template_usage d) (\<lambda>usage.
         case usage of
           Inl e \<Rightarrow> Some (Inl (Failed (error_of_code e)))
         | Inr _ \<Rightarrow>
             Option.bind (generate md d (unfinished_operations d) default_inferences) (\<lambda>generated.
             case generated of
               Inl e \<Rightarrow> Some (Inl e)
             | Inr infs \<Rightarrow> solve_inferences md d boundary infs)))"

definition try_infer_types :: "inferences \<Rightarrow> diagram_error_code + (port_ref, nat) hmap" where
  "try_infer_types infs =
     rmap (\<lambda>(port, evaluation).
         case mti_message_type evaluation of
           None \<Rightarrow> Inl (CannotInferType port)
         | Some message_type \<Rightarrow> Inr (port, message_type))
       (inf_evaluations infs)"

definition infer_message_types ::
  "diagram \<Rightarrow> element_metadata \<Rightarrow> boundary_conditions
     \<Rightarrow> (diagram_error fault + (port_ref, nat) hmap) option" where
  "infer_message_types d md boundary =
     map_option (\<lambda>r. rbind r (\<lambda>infs. may_fail_code (try_infer_types infs)))
       (evaluate_message_type_inferences d md boundary)"

definition infer_message_types_for_ports ::
  "diagram \<Rightarrow> element_metadata \<Rightarrow> boundary_conditions \<Rightarrow> port_ref list
     \<Rightarrow> (diagram_error fault + (port_ref, nat) hmap) option" where
  "infer_message_types_for_ports d md boundary ports =
     map_option (\<lambda>r. rbind r (\<lambda>infs.
         rfold (\<lambda>inferred port.
             rbind (may_fail (in_port (get_evaluation infs port) port)) (\<lambda>evaluation.
               case mti_message_type evaluation of
                 None \<Rightarrow> Inl (Failed (code_in_port (CannotInferType port) port))
               | Some message_type \<Rightarrow> Inr (hm_insert port message_type inferred)))
           [] ports))
       (evaluate_message_type_inferences d md boundary)"

subsection \<open>The propagation loop and its contract\<close>

definition constraint_of :: "inferences \<Rightarrow> port_ref \<Rightarrow> constraint option" where
  "constraint_of infs port = Option.bind (hm_get (inf_evaluations infs) port) mti_constraint"

definition same_shape :: "inferences \<Rightarrow> inferences \<Rightarrow> bool" where
  "same_shape a b \<longleftrightarrow>
     same_wiring a b \<and> constraint_of a = constraint_of b
     \<and> dom (hm_get (inf_evaluations a)) = dom (hm_get (inf_evaluations b))"

definition covers_reads :: "dependents_map \<Rightarrow> inferences \<Rightarrow> bool" where
  "covers_reads dependents infs \<longleftrightarrow>
     (\<forall>port c dependency. constraint_of infs port = Some c \<longrightarrow> dependency \<in> read_set infs c
        \<longrightarrow> constraint_of infs dependency \<noteq> None \<longrightarrow> port \<in> set (dependents_of dependents dependency))"

lemma evaluate_port_eq:
  "evaluate_port md infs port =
     (if port \<in> dom (hm_get (inf_evaluations infs))
      then in_port (case constraint_of infs port of
              None \<Rightarrow> Inr None | Some c \<Rightarrow> evaluate_constraint infs md c) port
      else Inl (code_in_port (UnknownPort port) port))"
  by (cases "hm_get (inf_evaluations infs) port")
    (auto simp: evaluate_port_def get_evaluation_def evaluate_inference_def constraint_of_def)

lemma get_inference_of_eq:
  "get_inference_of infs port =
     (if port \<in> dom (hm_get (inf_evaluations infs)) then Inr (port_type infs port)
      else Inl (UnknownPort port))"
  by (cases "hm_get (inf_evaluations infs) port") (auto simp: get_inference_of_def port_type_def)

lemma port_type_fixed [simp]:
  "port_type (fixed p v infs) q = (if q = p then Some v else port_type infs q)"
  by (simp add: port_type_def fixed_def)

lemma constraint_of_fixed [simp]: "constraint_of (fixed p v infs) = constraint_of infs"
  by (auto simp: constraint_of_def fixed_def default_inference_def fun_eq_iff split: option.splits)

lemma wiring_fixed [simp]: "same_wiring (fixed p v infs) infs"
  by (simp add: same_wiring_def fixed_def)

lemma dom_fixed [simp]:
  "dom (hm_get (inf_evaluations (fixed p v infs))) = insert p (dom (hm_get (inf_evaluations infs)))"
  by (simp add: fixed_def)

lemma constraint_of_dom:
  "constraint_of infs p = Some c \<Longrightarrow> p \<in> dom (hm_get (inf_evaluations infs))"
  by (auto simp: constraint_of_def bind_eq_Some_conv)

lemma same_wiring_trans: "same_wiring a b \<Longrightarrow> same_wiring b c \<Longrightarrow> same_wiring a c"
  by (simp add: same_wiring_def)

lemma same_shape_fixed:
  "same_shape s infs \<Longrightarrow> constraint_of infs p \<noteq> None \<Longrightarrow> same_shape (fixed p v s) infs"
  using same_wiring_trans [OF wiring_fixed, of s infs p v] constraint_of_dom [of infs p]
  by (auto simp: same_shape_def)

lemma covers_reads_cong: "same_shape a b \<Longrightarrow> covers_reads deps a = covers_reads deps b"
  using same_wiring_eq(6) by (auto simp: covers_reads_def same_shape_def)

interpretation assignment: dataflow_state "evaluate_port md" port_type fixed "dependents_of deps"
    "\<lambda>s. same_shape s infs" "\<lambda>p. constraint_of infs p \<noteq> None"
  for md deps infs
proof unfold_locales
  fix s p v
  assume ok: "same_shape s infs"
  show "evaluate_port md s p = Inr (Some v) \<Longrightarrow> constraint_of infs p \<noteq> None"
    using ok by (auto simp: evaluate_port_eq same_shape_def split: if_splits option.splits)
  assume "constraint_of infs p \<noteq> None"
  then show "same_shape (fixed p v s) infs" using ok same_shape_fixed by blast
  show "port_type (fixed p v s) q = (if q = p then Some v else port_type s q)" for q
    by simp
qed

interpretation propagation: dataflow "evaluate_port md" port_type fixed "dependents_of deps"
    "\<lambda>s. same_shape s infs \<and> covers_reads deps infs" "\<lambda>p. constraint_of infs p \<noteq> None"
  for md deps infs
proof unfold_locales
  fix s p v
  assume ok: "same_shape s infs \<and> covers_reads deps infs"
  show "evaluate_port md s p = Inr (Some v) \<Longrightarrow> constraint_of infs p \<noteq> None"
    using ok assignment.eval_live by blast
  assume live: "constraint_of infs p \<noteq> None"
  show "same_shape (fixed p v s) infs \<and> covers_reads deps infs"
    using ok live same_shape_fixed by blast
  show "port_type (fixed p v s) q = (if q = p then Some v else port_type s q)" for q
    by simp
  fix q
  assume q: "q \<notin> set (dependents_of deps p)"
  have dom: "dom (hm_get (inf_evaluations (fixed p v s))) = dom (hm_get (inf_evaluations s))"
    using ok live constraint_of_dom [of infs p] by (auto simp: same_shape_def)
  have "evaluate_constraint (fixed p v s) md c = evaluate_constraint s md c"
    if c: "constraint_of s q = Some c" for c
  proof (rule evaluate_constraint_agree [OF wiring_fixed])
    fix r
    assume r: "r \<in> read_set s c"
    have "r \<noteq> p"
    proof
      assume "r = p"
      moreover have "covers_reads deps s" using ok covers_reads_cong by blast
      moreover have "constraint_of s p \<noteq> None" using ok live by (simp add: same_shape_def)
      ultimately show False using c r q unfolding covers_reads_def by blast
    qed
    then show "get_inference_of (fixed p v s) r = get_inference_of s r"
      by (simp add: get_inference_of_eq dom del: dom_fixed)
  qed
  then show "evaluate_port md (fixed p v s) q = evaluate_port md s q"
    by (simp add: evaluate_port_eq dom del: dom_fixed split: option.split)
qed

end
