(* ===== verification/Generation.thy ===== *)
theory Generation
  imports Inference
begin

text \<open>
  Laws of the rounds that generate constraints (\<open>Inference.generate\<close>).

  \<^item> The locale \<open>generation_invariant\<close> collects what a property of the inferences has to satisfy to
    survive all the rounds: it is kept by the four primitive operations of \<open>InferenceContext\<close>.
  \<^item> The rounds return for every diagram whose operations are finitely nested, which is what the
    validation establishes before.
\<close>

subsection \<open>Induction over the rounds\<close>

lemma generate_run_induct:
  assumes run: "generate md d unfinished infs = Some r"
    and init: "I unfinished infs"
    and finish: "\<And>infs. I [] infs \<Longrightarrow> Q (Inr infs)"
    and error: "\<And>unfinished infs e. I unfinished infs
       \<Longrightarrow> generate_round md d unfinished infs = Inl e \<Longrightarrow> Q (Inl e)"
    and step: "\<And>unfinished infs st. I unfinished infs \<Longrightarrow> unfinished \<noteq> []
       \<Longrightarrow> generate_round md d unfinished infs = Inr st \<Longrightarrow> I (is_generated st) (is_inference st)"
  shows "Q r"
proof -
  let ?P = "\<lambda>md' d' unfinished infs r. md' = md \<longrightarrow> d' = d \<longrightarrow> I unfinished infs \<longrightarrow> Q r"
  have "?P md d unfinished infs r"
  proof (rule generate.raw_induct [of ?P, OF _ run], intro impI)
    fix gen md' d' unfinished infs r
    assume IH: "\<And>md d unfinished infs r. gen md d unfinished infs = Some r \<Longrightarrow> ?P md d unfinished infs r"
      and body: "(if unfinished = [] then Some (Inr infs)
        else case generate_round md' d' unfinished infs of
               Inl e \<Rightarrow> Some (Inl e)
             | Inr st \<Rightarrow> gen md' d' (is_generated st) (is_inference st)) = Some r"
      and same: "md' = md" "d' = d" and inv: "I unfinished infs"
    show "Q r"
    proof (cases "generate_round md d unfinished infs")
      case (Inl e)
      then show ?thesis
        using body inv finish error [OF inv] by (auto simp: same split: if_splits)
    next
      case (Inr st)
      then show ?thesis
        using body inv finish IH step [OF inv _ Inr] by (auto simp: same split: if_splits)
    qed
  qed
  then show ?thesis using init by simp
qed

subsection \<open>Properties that every operation keeps\<close>

lemma fold_preserves:
  assumes "\<And>x s. x \<in> set xs \<Longrightarrow> P s \<Longrightarrow> P (f x s)" and "P s"
  shows "P (fold f xs s)"
  using assms by (induction xs arbitrary: s) auto

lemma into_output_ref_named: "\<exists>n. into_output_ref nss (OutNamed out) = OutNamed n"
  by (simp add: into_output_ref_def)

definition starts_workflow :: "port_ref \<Rightarrow> bool" where
  "starts_workflow port \<longleftrightarrow> (\<exists>ns. port = PortOut (OutStart ns))"

lemma starts_workflow_simps [simp]:
  "\<not> starts_workflow (PortIn x)"
  "\<not> starts_workflow (PortOut (OutNamed n))"
  "\<not> starts_workflow (PortOut (into_output_ref nss (OutNamed n)))"
  using into_output_ref_named [of nss n] by (auto simp: starts_workflow_def)

locale generation_invariant =
  fixes P :: "inferences \<Rightarrow> bool"
  assumes P_fixed: "P s \<Longrightarrow> P (fixed port t s)"
    and P_constrain: "P s \<Longrightarrow> \<not> starts_workflow port \<Longrightarrow> constrain port c s = Inr s' \<Longrightarrow> P s'"
    and P_connect: "P s \<Longrightarrow> P (connect output input s)"
    and P_redirect: "P s \<Longrightarrow> redirect from_op into_op s = Inr s' \<Longrightarrow> P s'"
    and P_hints: "P s \<Longrightarrow> P (add_buffer_hints nss selection output evaluate s)"
begin

lemma P_fold:
  assumes "\<And>x s. x \<in> set xs \<Longrightarrow> P s \<Longrightarrow> P (f x s)" and "P s"
  shows "P (fold f xs s)"
  by (rule fold_preserves) (use assms in auto)

lemma P_in: "constrain (PortIn operation) c s = Inr s' \<Longrightarrow> P s \<Longrightarrow> P s'"
  by (rule P_constrain) simp_all

lemma P_out: "constrain (PortOut (into_output_ref nss (OutNamed n))) c s = Inr s' \<Longrightarrow> P s \<Longrightarrow> P s'"
  by (rule P_constrain) simp_all

lemma P_infer_from_downstream:
  "infer_from_downstream (into_output_ref nss (OutNamed n)) input s = Inr s' \<Longrightarrow> P s \<Longrightarrow> P s'"
  by (auto simp: infer_from_downstream_def rbind_eq_Inr intro: P_in P_out P_connect)

lemma P_node: "ctx_node md nss n schema s = Inr s' \<Longrightarrow> P s \<Longrightarrow> P s'"
  by (auto simp: ctx_node_def rbind_eq_Inr Let_def intro!: P_fold P_fixed P_connect)

lemma P_transform: "ctx_transform md nss n target s = Inr s' \<Longrightarrow> P s \<Longrightarrow> P s'"
  by (auto simp: ctx_transform_def rbind_eq_Inr Let_def intro!: P_fixed P_connect)

lemma P_stream_out: "ctx_stream_out nss n stream s = Inr s' \<Longrightarrow> P s \<Longrightarrow> P s'"
  by (auto simp: ctx_stream_out_def Let_def intro: P_in)

lemma P_rfold:
  assumes "rfold f s xs = Inr s'" and "P s"
    and "\<And>x s t. x \<in> set xs \<Longrightarrow> f s x = Inr t \<Longrightarrow> P s \<Longrightarrow> P t"
  shows "P s'"
  by (rule rfold_invariant [OF assms(1), of P]) (use assms(2,3) in auto)

lemma P_fork_clone: "ctx_fork_clone nss n targets s = Inr s' \<Longrightarrow> P s \<Longrightarrow> P s'"
  unfolding ctx_fork_clone_def Let_def rbind_eq_Inr
  by (elim exE conjE, erule P_in, erule P_rfold)
    (auto intro: P_out P_connect)

lemma P_result: "ctx_result nss n ok err s = Inr s' \<Longrightarrow> P s \<Longrightarrow> P s'"
  unfolding ctx_result_def Let_def rbind_eq_Inr
  by (elim exE conjE) (drule P_out P_in, assumption | clarsimp intro!: P_connect)+

lemma P_unzip: "ctx_unzip nss n targets s = Inr s' \<Longrightarrow> P s \<Longrightarrow> P s'"
  unfolding ctx_unzip_def Let_def rbind_eq_Inr
  by (elim exE conjE, erule P_in, erule P_rfold)
    (auto simp: rbind_eq_Inr intro!: P_connect elim: P_out)

lemma P_buffer: "ctx_buffer md nss n serialize s = Inr s' \<Longrightarrow> P s \<Longrightarrow> P s'"
  by (auto simp: ctx_buffer_def Let_def rbind_eq_Inr split: if_splits intro: P_in P_fixed)

lemma P_join: "ctx_join md nss n selection target serialize s = Inr s' \<Longrightarrow> P s \<Longrightarrow> P s'"
  by (auto simp: ctx_join_def Let_def rbind_eq_Inr split: if_splits
      intro: P_connect P_fixed P_hints P_infer_from_downstream)

lemma P_buffer_access: "ctx_buffer_access nss n selection target s = Inr s' \<Longrightarrow> P s \<Longrightarrow> P s'"
  unfolding ctx_buffer_access_def Let_def rbind_eq_Inr
  by (elim exE conjE, erule P_in, erule P_infer_from_downstream) (rule P_hints)

lemma P_listen: "ctx_listen nss n selection target s = Inr s' \<Longrightarrow> P s \<Longrightarrow> P s'"
  by (auto simp: ctx_listen_def Let_def intro: P_hints P_infer_from_downstream)

lemma P_split_output: "split_output nss split out target s = Inr s' \<Longrightarrow> P s \<Longrightarrow> P s'"
  by (auto simp: split_output_def Let_def rbind_eq_Inr intro: P_out P_connect)

lemma P_split: "ctx_split nss n sequential keyed remaining s = Inr s' \<Longrightarrow> P s \<Longrightarrow> P s'"
  unfolding ctx_split_def Let_def rbind_eq_Inr
proof (elim exE conjE)
  fix a b c
  let ?split = "into_operation_ref nss (op_of_name n)"
  assume start: "P s"
    and a: "rfold (\<lambda>s (i, target). split_output nss ?split (out_next_index n i) target s) s
        (enumerate 0 sequential) = Inr a"
    and b: "rfold (\<lambda>s (key, target). split_output nss ?split (out_keyed n key) target s) a keyed = Inr b"
    and c: "(case remaining of
        Some target \<Rightarrow> split_output nss ?split (out_remaining n) target b | None \<Rightarrow> Inr b) = Inr c"
    and d: "constrain (PortIn ?split) (SplitInput ?split) c = Inr s'"
  have "P a" by (rule P_rfold [OF a start]) (auto intro: P_split_output)
  then have "P b" by (rule P_rfold [OF b]) (auto intro: P_split_output)
  then have "P c" using c by (auto split: option.splits intro: P_split_output)
  then show "P s'" by (rule P_in [OF d])
qed

lemma P_script: "ctx_script md nss n schema s = Inr s' \<Longrightarrow> P s \<Longrightarrow> P s'"
  by (auto simp: ctx_script_def rbind_eq_Inr Let_def intro!: P_fold P_fixed P_connect)

lemma P_section_from_builder: "P s \<Longrightarrow> P (section_from_builder nss n interface connections s)"
  unfolding section_from_builder_def Let_def
  by (intro P_fold) (auto split: option.split intro!: P_fixed P_connect)

lemma P_remapping:
  assumes "remapping_redirect (\<lambda>op target s. redirect (f op) (g target) s) remapping s = Inr s'" and "P s"
  shows "P s'"
proof (cases remapping)
  case (RemapForward operations)
  with assms(1) have "rfold (\<lambda>s op. redirect (f op) (g (NextName op)) s) s operations = Inr s'"
    by simp
  then show ?thesis by (rule P_rfold) (auto intro: P_redirect assms(2))
next
  case (RemapTo remap)
  with assms(1) have "rfold (\<lambda>s (op, target). redirect (f op) (g target) s) s remap = Inr s'"
    by simp
  then show ?thesis by (rule P_rfold) (auto intro: P_redirect assms(2))
qed

lemma P_template: "template_redirections nss n section connections s = Inr s' \<Longrightarrow> P s \<Longrightarrow> P s'"
  unfolding template_redirections_def Let_def rbind_eq_Inr
  by (elim exE conjE, erule P_rfold, (erule P_remapping)+)
    (auto split: option.splits intro: P_redirect)

lemma P_on_inference:
  assumes "on_inference f st = Inr st'" and "P (is_inference st)"
    and "\<And>s s'. f s = Inr s' \<Longrightarrow> P s \<Longrightarrow> P s'"
  shows "P (is_inference st')"
  using assms by (auto simp: on_inference_def rbind_eq_Inr)

lemma P_add_children:
  "is_inference (fold (\<lambda>(child_id, op) st. add_child_operation ctx parent child_id op ops err st)
     children st) = is_inference st"
  by (rule fold_preserves) (auto simp: add_child_operation_def Let_def)

lemma P_section:
  assumes "ctx_section md ctx n schema st = Inr st'" and "P (is_inference st)"
  shows "P (is_inference st')"
proof -
  let ?nss = "dc_namespaces ctx"
  from assms(1) obtain u where
    u: "(case section_provider schema of
             ProviderBuilder section_builder \<Rightarrow>
               rbind (may_fail (section_metadata_of md section_builder)) (\<lambda>metadata.
                 Inr (st\<lparr>is_inference := section_from_builder ?nss n
                        (sm_interface metadata) (section_connect schema) (is_inference st)\<rparr>))
           | ProviderTemplate section_template \<Rightarrow>
               rbind (may_fail (get_template (dc_templates ctx) section_template)) (\<lambda>section.
                 on_inference (template_redirections ?nss n section (section_connect schema))
                   (fold (\<lambda>(child_id, op) st.
                       add_child_operation ctx n child_id op (template_ops section) None st)
                     (ops_map (template_ops section)) st))) = Inr u"
    and r: "on_inference (redirect (into_operation_ref ?nss (terminate_for n))
               (into_operation_ref ?nss (op_of_next next_terminate))) u = Inr st'"
    using assms(1) unfolding ctx_section_def Let_def rbind_eq_Inr by blast
  have "P (is_inference u)"
  proof (cases "section_provider schema")
    case (ProviderBuilder b)
    then show ?thesis using u P_section_from_builder [OF assms(2)] by (auto simp: rbind_eq_Inr)
  next
    case (ProviderTemplate t)
    then obtain sec where
      "on_inference (template_redirections ?nss n sec (section_connect schema))
         (fold (\<lambda>(child_id, op) st.
             add_child_operation ctx n child_id op (template_ops sec) None st)
           (ops_map (template_ops sec)) st) = Inr u"
      using u by (auto simp: rbind_eq_Inr)
    then show ?thesis
      by (rule P_on_inference) (use assms(2) P_add_children P_template in auto)
  qed
  then show ?thesis by (rule P_on_inference [OF r]) (rule P_redirect)
qed

lemma P_scope:
  assumes "ctx_scope ctx n schema st = Inr st'" and "P (is_inference st)"
  shows "P (is_inference st')"
  using assms unfolding ctx_scope_def Let_def rbind_eq_Inr
proof (elim exE conjE)
  let ?nss = "dc_namespaces ctx"
  fix a b c
  assume a: "on_inference (redirect (into_operation_ref ?nss (op_of_name n))
        (into_operation_ref ?nss (in_namespace n (op_of_next (scope_start schema))))) st = Inr a"
    and b: "on_inference (\<lambda>self. rfold (\<lambda>self (stream_name, stream_target).
          redirect (into_operation_ref ?nss (scope_stream_out n stream_name))
            (into_operation_ref ?nss (op_of_next stream_target)) self)
        self (scope_stream_outs schema)) a = Inr b"
    and c: "on_inference (redirect (into_operation_ref ?nss (terminate_for n))
        (into_operation_ref ?nss (op_of_next (scope_next schema)))) b = Inr c"
    and st': "Inr (fold (\<lambda>(child_id, op) st. add_child_operation ctx n child_id op (scope_ops schema)
          (Some (scope_on_implicit_error schema)) st) (ops_map (scope_ops schema)) c) = Inr st'"
    and st: "P (is_inference st)"
  have "P (is_inference a)" by (rule P_on_inference [OF a st]) (rule P_redirect)
  then have "P (is_inference b)"
    by (rule P_on_inference [OF b], elim P_rfold) (auto intro: P_redirect)
  then have "P (is_inference c)" by (rule P_on_inference [OF c]) (rule P_redirect)
  then show "P (is_inference st')" using st' P_add_children by auto
qed

lemmas P_operation = P_node P_transform P_stream_out P_fork_clone P_result P_unzip P_buffer P_join
  P_buffer_access P_listen P_split P_script

lemma P_apply:
  assumes "apply_message_type_constraints md ctx n op st = Inr st'" and "P (is_inference st)"
  shows "P (is_inference st')"
  using assms
  by (cases op) (auto elim: P_on_inference P_section P_scope dest: P_operation)

lemma P_round:
  assumes "generate_round md d unfinished infs = Inr st" and "P infs"
  shows "P (is_inference st)"
  using assms(1) unfolding generate_round_def
  by (rule rfold_invariant [where P = "\<lambda>st. P (is_inference st)"])
    (use assms(2) P_apply in \<open>auto simp: generate_operation_def\<close>)

lemma P_generate:
  assumes "generate md d unfinished infs = Some (Inr result)" and "P infs"
  shows "P result"
proof -
  let ?Q = "\<lambda>r :: diagram_error fault + inferences. case r of Inl _ \<Rightarrow> True | Inr result \<Rightarrow> P result"
  have "?Q (Inr result)"
    by (rule generate_run_induct [where I = "\<lambda>_. P" and Q = ?Q, OF assms(1)])
      (use assms(2) P_round in auto)
  then show ?thesis by simp
qed

end

subsection \<open>Well-formed inferences\<close>

definition wf_inferences :: "inferences \<Rightarrow> bool" where
  "wf_inferences infs \<longleftrightarrow>
     hm_wf (inf_evaluations infs)
     \<and> (\<forall>port. starts_workflow port \<longrightarrow> constraint_of infs port = None)"

lemma constrain_Inr:
  "constrain port c infs = Inr infs' \<longleftrightarrow>
     constraint_of infs port = None
     \<and> infs' = infs\<lparr>inf_evaluations :=
          hm_entry port default_inference (\<lambda>e. e\<lparr>mti_constraint := Some c\<rparr>) (inf_evaluations infs)\<rparr>"
  by (auto simp: constrain_def constraint_of_def hm_entry_def split: option.splits)

lemma constrain_effect:
  assumes "constrain port c infs = Inr infs'"
  shows "constraint_of infs port = None"
    and "constraint_of infs' = (constraint_of infs)(port \<mapsto> c)"
    and "same_wiring infs' infs" and "inf_redirected_input infs' = inf_redirected_input infs"
    and "port_type infs' = port_type infs"
    and "dom (hm_get (inf_evaluations infs')) = insert port (dom (hm_get (inf_evaluations infs)))"
    and "hm_wf (inf_evaluations infs) \<Longrightarrow> hm_wf (inf_evaluations infs')"
  using assms
  by (auto simp: constrain_Inr constraint_of_def same_wiring_def port_type_def default_inference_def
      fun_eq_iff hm_wf_entry split: option.splits)

lemma constraint_of_evaluations:
  "inf_evaluations a = inf_evaluations b \<Longrightarrow> constraint_of a = constraint_of b"
  by (simp add: constraint_of_def fun_eq_iff)

lemma evaluations_connect [simp]: "inf_evaluations (connect output input infs) = inf_evaluations infs"
  by (simp add: connect_def)

lemma evaluations_hints [simp]:
  "inf_evaluations (add_buffer_hints nss selection output evaluate infs) = inf_evaluations infs"
  unfolding add_buffer_hints_def by (rule fold_preserves) (auto simp: Let_def)

lemma redirect_Inr:
  assumes "redirect from_op into_op infs = Inr infs'"
  obtains u where "constrain (PortIn from_op) (ExactMatch (PortIn into_op)) infs = Inr u"
    and "inf_evaluations infs' = inf_evaluations u"
    and "inf_redirected_input infs' = hm_insert from_op into_op (inf_redirected_input infs)"
    and "redirections_into infs' = (redirections_into infs)
           (into_op := set_insert from_op (redirections_into infs into_op))"
    and "connections_into infs' = connections_into infs"
proof -
  from assms obtain u where
    u: "constrain (PortIn from_op) (ExactMatch (PortIn into_op)) infs = Inr u"
    and infs': "infs' = u\<lparr>inf_redirected_input := hm_insert from_op into_op (inf_redirected_input u),
        inf_redirections_into := hm_entry into_op [] (set_insert from_op) (inf_redirections_into u)\<rparr>"
    by (auto simp: redirect_def rbind_eq_Inr)
  note eqs = constrain_effect(4) [OF u] same_wiring_eq(1,2) [OF constrain_effect(3) [OF u]]
  have "redirections_into infs' = (redirections_into u)
      (into_op := set_insert from_op (redirections_into u into_op))"
    by (auto simp: infs' redirections_into_def fun_eq_iff split: option.split)
  moreover have "connections_into infs' = connections_into u"
    by (simp add: infs' connections_into_def fun_eq_iff)
  ultimately show ?thesis using that [OF u] by (simp add: infs' eqs)
qed

interpretation well_formed: generation_invariant wf_inferences
proof unfold_locales
  show "wf_inferences s \<Longrightarrow> wf_inferences (fixed port t s)" for s port t
    by (simp add: wf_inferences_def) (simp add: fixed_def hm_wf_entry)
  show "wf_inferences s \<Longrightarrow> \<not> starts_workflow port \<Longrightarrow> constrain port c s = Inr s' \<Longrightarrow> wf_inferences s'"
    for s port c s'
    by (auto simp: wf_inferences_def constrain_effect)
  show "wf_inferences s \<Longrightarrow> wf_inferences (connect out_port input s)" for s out_port input
    using constraint_of_evaluations [of "connect out_port input s" s] by (simp add: wf_inferences_def)
  show "wf_inferences s \<Longrightarrow> wf_inferences (add_buffer_hints nss selection out_port evaluate s)"
    for s nss selection out_port evaluate
    using constraint_of_evaluations [of "add_buffer_hints nss selection out_port evaluate s" s]
    by (simp add: wf_inferences_def)
  fix s from_op into_op s'
  assume wf: "wf_inferences s" and "redirect from_op into_op s = Inr s'"
  then obtain u where u: "constrain (PortIn from_op) (ExactMatch (PortIn into_op)) s = Inr u"
    and "inf_evaluations s' = inf_evaluations u"
    by (elim redirect_Inr)
  moreover have "wf_inferences u" using wf u by (auto simp: wf_inferences_def constrain_effect)
  ultimately show "wf_inferences s'"
    using constraint_of_evaluations [of s' u] by (simp add: wf_inferences_def)
qed

text \<open>
  Redirections form a partial function whose inverse is stored in \<open>redirections_into\<close>: the
  assertion in \<open>constrain\<close> rules out a second redirection of the same operation.
\<close>

definition redirect_function :: "inferences \<Rightarrow> bool" where
  "redirect_function infs \<longleftrightarrow>
     (\<forall>a b. hm_get (inf_redirected_input infs) a = Some b \<longleftrightarrow> a \<in> set (redirections_into infs b))
     \<and> (\<forall>b. distinct (redirections_into infs b))
     \<and> (\<forall>a b. hm_get (inf_redirected_input infs) a = Some b
          \<longrightarrow> constraint_of infs (PortIn a) = Some (ExactMatch (PortIn b)))"

lemma redirect_function_cong:
  assumes "inf_redirected_input a = inf_redirected_input b"
    and "redirections_into a = redirections_into b"
    and "\<And>p c. constraint_of b p = Some c \<Longrightarrow> constraint_of a p = Some c"
    and "redirect_function b"
  shows "redirect_function a"
  using assms by (auto simp: redirect_function_def)

lemma redirections_add_buffer_hints:
  "redirections_into (add_buffer_hints nss selection output evaluate s) = redirections_into s
   \<and> inf_redirected_input (add_buffer_hints nss selection output evaluate s) = inf_redirected_input s"
  unfolding add_buffer_hints_def
  by (rule fold_preserves) (auto simp: Let_def redirections_into_def fun_eq_iff)

interpretation redirections: generation_invariant redirect_function
proof unfold_locales
  show "redirect_function (fixed port t s)" if "redirect_function s" for s port t
    by (rule redirect_function_cong [OF _ _ _ that])
      (simp_all add: fixed_def redirections_into_def fun_eq_iff constraint_of_fixed [unfolded fixed_def])
  show "redirect_function s'"
    if "redirect_function s" "constrain port c s = Inr s'" for s port c s'
    by (rule redirect_function_cong [OF _ _ _ that(1)])
      (use constrain_effect [OF that(2)] same_wiring_eq(2) in auto)
  show "redirect_function (connect out_port input s)" if "redirect_function s" for s out_port input
    by (rule redirect_function_cong [OF _ _ _ that])
      (simp_all add: connect_def redirections_into_def fun_eq_iff constraint_of_def)
  show "redirect_function (add_buffer_hints nss selection out_port evaluate s)"
    if "redirect_function s" for s nss selection out_port evaluate
    by (rule redirect_function_cong [OF _ _ _ that])
      (simp_all add: redirections_add_buffer_hints constraint_of_def)
  fix s from_op into_op s'
  assume rf: "redirect_function s" and "redirect from_op into_op s = Inr s'"
  then obtain u where u: "constrain (PortIn from_op) (ExactMatch (PortIn into_op)) s = Inr u"
    and e: "inf_evaluations s' = inf_evaluations u"
    and r: "inf_redirected_input s' = hm_insert from_op into_op (inf_redirected_input s)"
      "redirections_into s' = (redirections_into s)
         (into_op := set_insert from_op (redirections_into s into_op))"
    by (elim redirect_Inr)
  have c: "constraint_of s' = (constraint_of s)(PortIn from_op \<mapsto> ExactMatch (PortIn into_op))"
    using constraint_of_evaluations [OF e] constrain_effect(2) [OF u] by simp
  have fresh: "hm_get (inf_redirected_input s) from_op = None"
    using rf constrain_effect(1) [OF u] by (cases "hm_get (inf_redirected_input s) from_op")
      (auto simp: redirect_function_def)
  then have unused: "from_op \<notin> set (redirections_into s b)" for b
    using rf unfolding redirect_function_def by (metis option.distinct(1))
  have distinct: "distinct (set_insert from_op xs)" if "distinct xs" for xs
    using that by (simp add: set_insert_def)
  show "redirect_function s'"
    using rf unused distinct by (auto simp: redirect_function_def r c)
qed

lemma default_inferences_ok:
  "wf_inferences default_inferences" "redirect_function default_inferences"
  by (auto simp: wf_inferences_def redirect_function_def default_inferences_def hm_wf_def
      constraint_of_def redirections_into_def)

subsection \<open>Circular redirections\<close>

text \<open>
  After the test for circular redirections, the search for the types that flow into an operation
  never meets an operation twice: its own report of a circular redirection is unreachable.
\<close>

definition redirect_step :: "inferences \<Rightarrow> (operation_ref \<times> operation_ref) set" where
  "redirect_step infs = {(a, b). hm_get (inf_redirected_input infs) a = Some b}"

lemma redirect_function_edges:
  "redirect_function infs \<Longrightarrow> redirect_edges infs = redirect_step infs"
  by (auto simp: redirect_function_def redirect_edges_def redirect_step_def)

lemma follow_redirects_avoids:
  "follow_redirects infs a visited = Inr () \<Longrightarrow>
   (a, b) \<in> (redirect_step infs)\<^sup>* \<Longrightarrow> b \<notin> set visited"
proof (induction infs a visited rule: follow_redirects.induct)
  case (1 infs a visited)
  from "1.prems"(1) have "a \<notin> set visited" by (auto simp: follow_redirects.simps split: if_splits)
  from "1.prems"(2) show ?case
  proof (cases rule: converse_rtranclE)
    case (step c)
    then have c: "hm_get (inf_redirected_input infs) a = Some c" by (simp add: redirect_step_def)
    have "follow_redirects infs c (visited @ [a]) = Inr ()"
      using "1.prems"(1) \<open>a \<notin> set visited\<close> c by (simp add: follow_redirects.simps [of infs a])
    from "1.IH" [OF \<open>a \<notin> set visited\<close> c this step(2)] show ?thesis by simp
  qed (use \<open>a \<notin> set visited\<close> in simp)
qed

lemma test_circular_redirects_acyclic:
  assumes "test_circular_redirects infs = Inr ()"
  shows "acyclic (redirect_step infs)"
proof (rule acyclicI, intro allI notI)
  fix a
  assume "(a, a) \<in> (redirect_step infs)\<^sup>+"
  then obtain c where c: "(a, c) \<in> redirect_step infs" "(c, a) \<in> (redirect_step infs)\<^sup>*"
    by (blast dest: tranclD)
  then have get: "hm_get (inf_redirected_input infs) a = Some c" by (simp add: redirect_step_def)
  then have "a \<in> set (hm_keys (inf_redirected_input infs))" by (auto simp: set_hm_keys)
  then have "follow_redirects infs a [] = Inr ()"
    using assms by (auto simp: test_circular_redirects_def reach_eq_Inr)
  then have "follow_redirects infs c [a] = Inr ()"
    using get by (simp add: follow_redirects.simps [of infs a])
  from follow_redirects_avoids [OF this c(2)] show False by simp
qed

definition disjoint_upstream :: "inferences \<Rightarrow> operation_ref list \<Rightarrow> operation_ref list \<Rightarrow> bool" where
  "disjoint_upstream infs input_queue visited \<longleftrightarrow>
     (\<forall>a \<in> set input_queue. upstream infs a \<inter> set visited = {})
     \<and> sorted_wrt (\<lambda>a b. upstream infs a \<inter> upstream infs b = {}) input_queue"

lemma distinct_sorted_wrt: "distinct xs \<Longrightarrow> sorted_wrt (\<noteq>) xs"
  by (induction xs) auto

lemma sibling_upstream_disjoint:
  assumes "redirect_function infs" and "acyclic (redirect_step infs)"
    and "a \<in> set (redirections_into infs c)" and "b \<in> set (redirections_into infs c)" and "a \<noteq> b"
  shows "upstream infs a \<inter> upstream infs b = {}"
proof (rule ccontr)
  let ?R = "redirect_step infs"
  have edge: "(x, c) \<in> ?R" if "x = a \<or> x = b" for x
    using that assms redirect_function_edges by (auto simp: redirect_edges_def)
  assume "\<not> ?thesis"
  then obtain x where "(x, a) \<in> ?R\<^sup>*" "(x, b) \<in> ?R\<^sup>*"
    using redirect_function_edges [OF assms(1)] by (auto simp: upstream_def)
  moreover have "single_valued ?R" by (auto simp: single_valued_def redirect_step_def)
  ultimately have "(a, b) \<in> ?R\<^sup>* \<or> (b, a) \<in> ?R\<^sup>*" by (simp add: single_valued_confluent)
  moreover have False if ab: "(a', b') \<in> ?R\<^sup>*" "a' \<noteq> b'" "(a', c) \<in> ?R" "(b', c) \<in> ?R" for a' b'
  proof -
    from ab(1,2) obtain d where d: "(a', d) \<in> ?R" "(d, b') \<in> ?R\<^sup>*"
      by (auto elim: converse_rtranclE)
    then have "d = c" using ab(3) by (simp add: redirect_step_def)
    then have "(c, c) \<in> ?R\<^sup>+" using d(2) ab(4) by auto
    then show False using assms(2) by (simp add: acyclic_def)
  qed
  ultimately show False using edge assms(5) by blast
qed

lemma not_upstream_of_redirection:
  assumes "redirect_function infs" and "acyclic (redirect_step infs)"
    and "a \<in> set (redirections_into infs c)"
  shows "c \<notin> upstream infs a"
proof
  assume "c \<in> upstream infs a"
  then have "(c, a) \<in> (redirect_step infs)\<^sup>*"
    by (simp add: upstream_def redirect_function_edges [OF assms(1)])
  moreover have "(a, c) \<in> redirect_step infs"
    using assms(3) redirect_function_edges [OF assms(1)] by (auto simp: redirect_edges_def)
  ultimately have "(c, c) \<in> (redirect_step infs)\<^sup>+" by simp
  then show False using assms(2) by (simp add: acyclic_def)
qed

lemma disjoint_upstream_step:
  assumes "redirect_function infs" and "acyclic (redirect_step infs)"
    and "disjoint_upstream infs (input # input_queue) visited"
  shows "disjoint_upstream infs (rev (redirections_into infs input) @ input_queue) (input # visited)"
proof -
  have sub: "upstream infs a \<subseteq> upstream infs input" if "a \<in> set (redirections_into infs input)" for a
    using that upstream_unfold [of infs input] by auto
  have self: "input \<in> upstream infs input" by (simp add: upstream_def)
  have siblings: "sorted_wrt (\<lambda>a b. upstream infs a \<inter> upstream infs b = {})
      (rev (redirections_into infs input))"
  proof -
    have "distinct (rev (redirections_into infs input))"
      using assms(1) by (simp add: redirect_function_def)
    then have "sorted_wrt (\<noteq>) (rev (redirections_into infs input))"
      using distinct_sorted_wrt by blast
    then show ?thesis
      by (rule sorted_wrt_mono_rel [rotated])
        (use sibling_upstream_disjoint [OF assms(1,2)] in simp)
  qed
  have queue: "upstream infs a \<inter> set visited = {}" "upstream infs input \<inter> upstream infs a = {}"
    if "a \<in> set input_queue" for a
    using assms(3) that by (auto simp: disjoint_upstream_def)
  have visited: "upstream infs input \<inter> set visited = {}"
    using assms(3) by (simp add: disjoint_upstream_def)
  have "upstream infs a \<inter> set (input # visited) = {}"
    if "a \<in> set (redirections_into infs input)" for a
    using that sub visited not_upstream_of_redirection [OF assms(1,2) that] by auto
  moreover have "upstream infs a \<inter> set (input # visited) = {}" if "a \<in> set input_queue" for a
    using queue [OF that] self by auto
  moreover have "upstream infs a \<inter> upstream infs b = {}"
    if "a \<in> set (redirections_into infs input)" "b \<in> set input_queue" for a b
    using sub [OF that(1)] queue(2) [OF that(2)] by blast
  moreover have "sorted_wrt (\<lambda>a b. upstream infs a \<inter> upstream infs b = {}) input_queue"
    using assms(3) by (simp add: disjoint_upstream_def)
  ultimately show ?thesis
    using siblings unfolding disjoint_upstream_def sorted_wrt_append set_append set_rev by blast
qed

lemma message_types_loop_not_circular:
  assumes "redirect_function infs" and "acyclic (redirect_step infs)"
    and "disjoint_upstream infs input_queue visited"
  shows "message_types_loop infs necessary input_queue visited types \<noteq> Inl (CircularRedirect ops)"
  using assms
proof (induction infs necessary input_queue visited types rule: message_types_loop.induct)
  case (2 infs necessary input input_queue visited types)
  have "input \<in> upstream infs input" by (simp add: upstream_def)
  then have "input \<notin> set visited" using "2.prems"(3) by (auto simp: disjoint_upstream_def)
  have "connected_types infs input \<noteq> Inl (CircularRedirect ops)"
  proof
    assume "connected_types infs input = Inl (CircularRedirect ops)"
    moreover have "rmap (\<lambda>connection. get_inference_of infs (PortOut connection)) xs
        \<noteq> Inl (CircularRedirect ops)" for xs
      by (induction xs) (auto simp: rbind_eq_Inl get_inference_of_eq split: if_splits)
    ultimately show False by (auto simp: connected_types_def rbind_eq_Inl)
  qed
  then show ?case
    using "2.IH" [OF \<open>input \<notin> set visited\<close> _ _ "2.prems"(1,2)
        disjoint_upstream_step [OF "2.prems"]] \<open>input \<notin> set visited\<close>
    by (auto simp: rbind_eq_Inl)
qed simp

lemma types_into_not_circular:
  assumes "redirect_function infs" and "test_circular_redirects infs = Inr ()"
  shows "impl_get_message_types_into infs input necessary \<noteq> Inl (CircularRedirect ops)"
  using message_types_loop_not_circular [OF assms(1) test_circular_redirects_acyclic [OF assms(2)],
      of "[input]" "[]"]
  by (auto simp: impl_get_message_types_into_def rbind_eq_Inl disjoint_upstream_def)

subsection \<open>The rounds return\<close>

definition unfinished_nested :: "nat \<Rightarrow> templates \<Rightarrow> unfinished_operation \<Rightarrow> bool" where
  "unfinished_nested n templates u \<longleftrightarrow>
     nested_within n templates (uo_sibling_ops u)
     \<and> (uo_id u, uo_op u) \<in> set (ops_map (uo_sibling_ops u))"

definition children_of :: "templates \<Rightarrow> diagram_operation \<Rightarrow> unfinished_operation list \<Rightarrow> bool" where
  "children_of templates op us \<longleftrightarrow>
     (\<forall>u \<in> set us. child_operations templates op = Inr (Some (uo_sibling_ops u))
        \<and> (uo_id u, uo_op u) \<in> set (ops_map (uo_sibling_ops u)))"

lemma on_inference_generated:
  "on_inference f st = Inr st' \<Longrightarrow> is_generated st' = is_generated st"
  by (auto simp: on_inference_def rbind_eq_Inr)

lemma add_children_generated:
  assumes "set children \<subseteq> set (ops_map ops)"
  shows "\<exists>new. is_generated (fold (\<lambda>(child_id, op) st.
        add_child_operation ctx parent child_id op ops err st) children st) = is_generated st @ new
      \<and> (\<forall>u \<in> set new. uo_sibling_ops u = ops \<and> (uo_id u, uo_op u) \<in> set (ops_map ops))"
  using assms
proof (induction children arbitrary: st)
  case (Cons x children)
  obtain child_id op where x: "x = (child_id, op)" by fastforce
  obtain u where u: "is_generated (add_child_operation ctx parent child_id op ops err st) =
      is_generated st @ [u]" "uo_sibling_ops u = ops" "uo_id u = child_id" "uo_op u = op"
    by (auto simp: add_child_operation_def Let_def)
  from Cons.IH [of "add_child_operation ctx parent child_id op ops err st"] Cons.prems
  obtain new where new: "is_generated (fold (\<lambda>(child_id, op) st.
        add_child_operation ctx parent child_id op ops err st) children
        (add_child_operation ctx parent child_id op ops err st)) = is_generated st @ u # new"
    "\<forall>u \<in> set new. uo_sibling_ops u = ops \<and> (uo_id u, uo_op u) \<in> set (ops_map ops)"
    using u(1) by auto
  then show ?case using u Cons.prems by (intro exI [of _ "u # new"]) (simp add: x)
qed simp

lemma ctx_section_generated:
  assumes "ctx_section md ctx n schema st = Inr st'"
  shows "\<exists>new. is_generated st' = is_generated st @ new
    \<and> children_of (dc_templates ctx) (OpSection schema) new"
proof (cases "section_provider schema")
  case (ProviderBuilder b)
  then show ?thesis
    using assms by (auto simp: ctx_section_def Let_def rbind_eq_Inr children_of_def
        dest!: on_inference_generated)
next
  case (ProviderTemplate t)
  then obtain sec where sec: "get_template (dc_templates ctx) t = Inr sec"
    and "is_generated st' = is_generated (fold (\<lambda>(child_id, op) st.
          add_child_operation ctx n child_id op (template_ops sec) None st)
        (ops_map (template_ops sec)) st)"
    using assms by (auto simp: ctx_section_def Let_def rbind_eq_Inr dest!: on_inference_generated)
  then show ?thesis
    using add_children_generated [of "ops_map (template_ops sec)" "template_ops sec" ctx n None st]
    by (fastforce simp: children_of_def ProviderTemplate sec)
qed

lemma ctx_scope_generated:
  assumes "ctx_scope ctx n schema st = Inr st'"
  shows "\<exists>new. is_generated st' = is_generated st @ new
    \<and> children_of (dc_templates ctx) (OpScope schema) new"
proof -
  obtain u where "is_generated u = is_generated st"
    and "st' = fold (\<lambda>(child_id, op) st. add_child_operation ctx n child_id op (scope_ops schema)
          (Some (scope_on_implicit_error schema)) st) (ops_map (scope_ops schema)) u"
    using assms by (auto simp: ctx_scope_def Let_def rbind_eq_Inr dest!: on_inference_generated)
  then show ?thesis
    using add_children_generated [of "ops_map (scope_ops schema)" "scope_ops schema" ctx n
        "Some (scope_on_implicit_error schema)" u]
    by (fastforce simp: children_of_def)
qed

lemma apply_generated:
  assumes "apply_message_type_constraints md ctx n op st = Inr st'"
  shows "\<exists>new. is_generated st' = is_generated st @ new \<and> children_of (dc_templates ctx) op new"
proof (cases "(\<exists>schema. op = OpSection schema) \<or> (\<exists>schema. op = OpScope schema)")
  case True
  then show ?thesis using assms ctx_section_generated ctx_scope_generated by auto
next
  case False
  then have "is_generated st' = is_generated st"
    using assms by (cases op) (auto dest!: on_inference_generated)
  then show ?thesis by (simp add: children_of_def)
qed

lemma generate_round_nested:
  assumes "generate_round md d unfinished infs = Inr st"
    and "\<forall>u \<in> set unfinished. unfinished_nested n (dg_templates d) u"
  shows "\<forall>u \<in> set (is_generated st). n \<noteq> 0 \<and> unfinished_nested (n - 1) (dg_templates d) u"
  using assms(1) unfolding generate_round_def
proof (rule rfold_invariant)
  fix u st st'
  let ?P = "\<lambda>st. \<forall>u \<in> set (is_generated st). n \<noteq> 0 \<and> unfinished_nested (n - 1) (dg_templates d) u"
  assume u: "u \<in> set unfinished" and st: "?P st" and "generate_operation md d st u = Inr st'"
  then obtain new where new: "is_generated st' = is_generated st @ new"
    "children_of (dg_templates d) (uo_op u) new"
    by (auto simp: generate_operation_def unfinished_context_def dest!: apply_generated)
  have nested: "unfinished_nested n (dg_templates d) u" using assms(2) u by simp
  have "n \<noteq> 0 \<and> unfinished_nested (n - 1) (dg_templates d) v" if "v \<in> set new" for v
  proof -
    have "uo_sibling_ops v \<in> set (child_maps (dg_templates d) (uo_sibling_ops u))"
      using new(2) that nested by (auto simp: children_of_def unfinished_nested_def in_child_maps)
    then show ?thesis
      using nested new(2) that
      by (cases n) (auto simp: unfinished_nested_def children_of_def list_all_iff)
  qed
  then show "?P st'" using st new(1) by auto
qed simp

lemma generate_returns:
  assumes "\<forall>u \<in> set unfinished. unfinished_nested n (dg_templates d) u"
  shows "\<exists>r. generate md d unfinished infs = Some r"
  using assms
proof (induction n arbitrary: unfinished infs)
  case 0
  show ?case
  proof (cases "generate_round md d unfinished infs")
    case (Inr st)
    then have "is_generated st = []" using generate_round_nested [OF Inr 0] by (cases "is_generated st") auto
    then show ?thesis using Inr by (simp add: generate.simps)
  qed (simp add: generate.simps)
next
  case (Suc n)
  show ?case
  proof (cases "generate_round md d unfinished infs")
    case (Inr st)
    then have "\<exists>r. generate md d (is_generated st) (is_inference st) = Some r"
      using generate_round_nested [OF Inr Suc.prems] by (intro Suc.IH) simp
    then show ?thesis using Inr by (simp add: generate.simps [of md d unfinished])
  qed (simp add: generate.simps)
qed

lemma unfinished_operations_nested:
  assumes "nested_within n (dg_templates d) (dg_ops d)"
  shows "\<forall>u \<in> set (unfinished_operations d). unfinished_nested n (dg_templates d) u"
  using assms by (auto simp: unfinished_operations_def unfinished_new_def unfinished_nested_def)

end
