(* ===== verification/Solution.thy ===== *)
theory Solution
  imports Generation
begin

text \<open>
  What \<open>Diagram::infer_message_types\<close> computes: the phases of \<open>Inference\<close> put together.

  \<^item> The only phase that can fail to return is the propagation loop, and it returns when the
    dependencies between the ports are ranked.
  \<^item> When it returns, every port is at a fixpoint of its constraint, if no operation that looks at
    its incoming types is the target of a redirection.
  \<^item> Every type that the loop assigns is the result of an evaluation, which is why the types
    inferred for inputs of clone, result, unzip and split operations support the operation.
\<close>

subsection \<open>Decomposition into phases\<close>

lemma validate_operation_names_returns: "\<exists>r. validate_operation_names d = Some r"
proof (cases "check_circular_operation_dependency (dg_ops d) (dg_templates d)")
  case (Inr u)
  then have "\<exists>n. nested_within n (dg_templates d) (dg_ops d)"
    by (intro check_circular_nested) simp
  then obtain r where "validate_all_names (dg_templates d) [dg_ops d] = Some r"
    using names.loop_returns [of "[dg_ops d]" "dg_templates d"] by auto
  then show ?thesis using Inr by (cases r) (simp_all add: validate_operation_names_def)
qed (simp add: validate_operation_names_def)

lemma validate_template_usage_returns:
  assumes "validate_operation_names d = Some (Inr ())"
  shows "\<exists>r. validate_template_usage d = Some r"
proof -
  have "\<exists>n. nested_within n (dg_templates d) (dg_ops d)"
    using validate_operation_names_cases(1) [OF assms] by (rule check_circular_nested)
  then show ?thesis unfolding validate_template_usage_def by (intro usage.loop_returns) simp
qed

lemma evaluate_inferences_None:
  assumes "evaluate_message_type_inferences d md boundary = None"
  obtains gen where "generate md d (unfinished_operations d) default_inferences = Some (Inr gen)"
    and "test_circular_redirects gen = Inr ()"
    and "propagate md (collect_dependents gen) (hm_keys (inf_evaluations gen))
           (set_boundary_conditions d boundary gen) = None"
proof -
  have names: "\<exists>r. validate_operation_names d = Some r" by (rule validate_operation_names_returns)
  have accepted: "\<exists>n. nested_within n (dg_templates d) (dg_ops d)"
    if "validate_operation_names d = Some (Inr ())"
    using validate_operation_names_cases(1) [OF that] by (rule check_circular_nested)
  have rounds: "\<exists>r. generate md d (unfinished_operations d) default_inferences = Some r"
    if "validate_operation_names d = Some (Inr ())"
    using accepted [OF that] generate_returns unfinished_operations_nested by blast
  obtain nr where nr: "validate_operation_names d = Some nr" using names by blast
  then have ok: "validate_operation_names d = Some (Inr ())"
    using assms by (cases nr) (auto simp: evaluate_message_type_inferences_def)
  obtain ur where "validate_template_usage d = Some ur" using validate_template_usage_returns [OF ok] by blast
  then have ok2: "validate_template_usage d = Some (Inr ())"
    using assms ok by (cases ur) (auto simp: evaluate_message_type_inferences_def)
  obtain gr where gr: "generate md d (unfinished_operations d) default_inferences = Some gr"
    using rounds [OF ok] by blast
  with assms ok ok2 obtain gen where gen: "gr = Inr gen" and "solve_inferences md d boundary gen = None"
    by (cases gr) (auto simp: evaluate_message_type_inferences_def)
  then show ?thesis
    using that [of gen] gr by (auto simp: solve_inferences_def split: sum.splits)
qed

lemma evaluate_inferences_Inr:
  assumes "evaluate_message_type_inferences d md boundary = Some (Inr infs)"
  obtains gen where "generate md d (unfinished_operations d) default_inferences = Some (Inr gen)"
    and "test_circular_redirects gen = Inr ()"
    and "propagate md (collect_dependents gen) (hm_keys (inf_evaluations gen))
           (set_boundary_conditions d boundary gen) = Some (Inr infs)"
proof -
  from assms obtain nr where "validate_operation_names d = Some nr" "\<exists>u. nr = Inr u"
    by (cases "validate_operation_names d") (auto simp: evaluate_message_type_inferences_def split: sum.splits)
  with assms obtain ur where "validate_template_usage d = Some ur" "\<exists>u. ur = Inr u"
    by (cases "validate_template_usage d") (auto simp: evaluate_message_type_inferences_def split: sum.splits)
  with assms \<open>validate_operation_names d = Some nr\<close> \<open>\<exists>u. nr = Inr u\<close> obtain gen where
    gen: "generate md d (unfinished_operations d) default_inferences = Some (Inr gen)"
    and solve: "solve_inferences md d boundary gen = Some (Inr infs)"
    by (cases "generate md d (unfinished_operations d) default_inferences")
      (auto simp: evaluate_message_type_inferences_def split: sum.splits)
  from solve have "test_circular_redirects gen = Inr ()"
    by (cases "test_circular_redirects gen") (auto simp: solve_inferences_def)
  with solve show ?thesis using that [OF gen] by (auto simp: solve_inferences_def)
qed

subsection \<open>The table of dependents\<close>

lemma dependents_of_push:
  "set (dependents_of (fold (\<lambda>dependency. hm_entry dependency [] (\<lambda>ports. ports @ [port])) deps m) q) =
     set (dependents_of m q) \<union> (if q \<in> set deps then {port} else {})"
proof (induction deps arbitrary: m)
  case (Cons x deps)
  have "set (dependents_of (hm_entry x [] (\<lambda>ports. ports @ [port]) m) q) =
      set (dependents_of m q) \<union> (if q = x then {port} else {})"
    by (auto simp: dependents_of_def split: option.splits)
  then show ?case by (simp add: Cons.IH)
qed simp

lemma dependents_of_collect:
  "p \<in> set (dependents_of (collect_dependents infs) q) \<longleftrightarrow>
     (\<exists>e c. (p, e) \<in> set (inf_evaluations infs) \<and> mti_constraint e = Some c
        \<and> q \<in> set (dependencies infs c))"
proof -
  have "p \<in> set (dependents_of (fold (add_dependents infs) es m) q) \<longleftrightarrow>
     p \<in> set (dependents_of m q)
     \<or> (\<exists>e c. (p, e) \<in> set es \<and> mti_constraint e = Some c \<and> q \<in> set (dependencies infs c))" for es m
  proof (induction es arbitrary: m)
    case (Cons x es)
    obtain port e where x: "x = (port, e)" by fastforce
    show ?case
      unfolding fold_simps Cons.IH
      by (auto simp: x add_dependents_def dependents_of_push split: option.splits if_splits)
  qed simp
  from this [of "inf_evaluations infs" "[]"] show ?thesis
    by (simp add: collect_dependents_def dependents_of_def)
qed

lemma constraint_of_entry:
  assumes "hm_wf (inf_evaluations infs)"
  shows "constraint_of infs p = Some c \<longleftrightarrow>
     (\<exists>e. (p, e) \<in> set (inf_evaluations infs) \<and> mti_constraint e = Some c)"
  using assms by (auto simp: constraint_of_def bind_eq_Some_conv hm_wf_def map_of_eq_Some_iff)

subsection \<open>Boundary conditions\<close>

lemma set_boundary_shape:
  "constraint_of (set_boundary_conditions d b infs) = constraint_of infs"
  "redirections_into (set_boundary_conditions d b infs) = redirections_into infs"
  "inf_buffer_hints (set_boundary_conditions d b infs) = inf_buffer_hints infs"
  "set (connections_into (set_boundary_conditions d b infs) op) \<subseteq>
     insert (OutStart []) (set (connections_into infs op))"
  "set (connections_into infs op) \<subseteq> set (connections_into (set_boundary_conditions d b infs) op)"
proof -
  let ?c = "connect (OutStart []) (into_operation_ref [] (op_of_next (dg_start d))) infs"
  let ?P = "\<lambda>s. same_wiring s ?c \<and> constraint_of s = constraint_of ?c"
  have step: "?P s \<Longrightarrow> ?P (fixed p v s)" for s p v
    using same_wiring_trans [OF wiring_fixed, of s ?c p v] by simp
  have "?P ?c" by (simp add: same_wiring_def)
  then have "?P (set_boundary_conditions d b infs)"
    unfolding set_boundary_conditions_def Let_def
    by (intro fold_preserves [where P = ?P]) (auto intro!: step [THEN conjunct1] step)
  then have w: "same_wiring (set_boundary_conditions d b infs) ?c"
    and c: "constraint_of (set_boundary_conditions d b infs) = constraint_of ?c"
    by blast+
  show "constraint_of (set_boundary_conditions d b infs) = constraint_of infs"
    using c constraint_of_evaluations [of ?c infs] by simp
  show "redirections_into (set_boundary_conditions d b infs) = redirections_into infs"
    "inf_buffer_hints (set_boundary_conditions d b infs) = inf_buffer_hints infs"
    using same_wiring_eq(2,3) [OF w] by (simp_all add: connect_def redirections_into_def fun_eq_iff)
  have ci: "connections_into (set_boundary_conditions d b infs) = connections_into ?c"
    using same_wiring_eq(1) [OF w] .
  have new: "connections_into ?c op = (if op = into_operation_ref [] (op_of_next (dg_start d))
      then set_insert (OutStart []) (connections_into infs op) else connections_into infs op)"
    by (auto simp: connect_def connections_into_def split: option.split)
  show "set (connections_into (set_boundary_conditions d b infs) op) \<subseteq>
     insert (OutStart []) (set (connections_into infs op))"
    and "set (connections_into infs op) \<subseteq> set (connections_into (set_boundary_conditions d b infs) op)"
    by (auto simp: ci new)
qed

lemma set_boundary_wf:
  assumes "hm_wf (inf_evaluations infs)"
  shows "hm_wf (inf_evaluations (set_boundary_conditions d b infs))"
  unfolding set_boundary_conditions_def Let_def
  by (intro fold_preserves [where P = "\<lambda>s. hm_wf (inf_evaluations s)"])
    (auto simp: fixed_def assms hm_wf_entry)

text \<open>The dependencies of a port before and after the boundary conditions are set.\<close>

lemma dependencies_boundary:
  "set (dependencies (set_boundary_conditions d b infs) c) \<subseteq>
     insert (PortOut (OutStart [])) (set (dependencies infs c))"
proof -
  note conn = set_boundary_shape(4) [of d b infs]
  show ?thesis
    by (cases c) (auto simp: set_boundary_shape(3) dest!: subsetD [OF conn] split: option.split)
qed

subsection \<open>Fixpoints\<close>

definition unredirected_inputs :: "inferences \<Rightarrow> bool" where
  "unredirected_inputs infs \<longleftrightarrow>
     list_all (\<lambda>(port, e).
         case Option.bind (mti_constraint e) source_operation of
           None \<Rightarrow> True
         | Some operation \<Rightarrow> redirections_into infs operation = [])
       (inf_evaluations infs)"

lemma unredirected_inputs_iff:
  assumes "hm_wf (inf_evaluations infs)"
  shows "unredirected_inputs infs \<longleftrightarrow>
    (\<forall>port c operation. constraint_of infs port = Some c \<longrightarrow> source_operation c = Some operation
       \<longrightarrow> redirections_into infs operation = [])"
proof -
  have "unredirected_inputs infs \<longleftrightarrow>
      (\<forall>port e c operation. (port, e) \<in> set (inf_evaluations infs) \<longrightarrow> mti_constraint e = Some c
        \<longrightarrow> source_operation c = Some operation \<longrightarrow> redirections_into infs operation = [])"
    by (auto simp: unredirected_inputs_def list_all_iff bind_eq_Some_conv split: option.splits)
  then show ?thesis using constraint_of_entry [OF assms] by metis
qed

lemma covers_reads_boundary:
  assumes "wf_inferences gen"
    and "\<And>port c operation. constraint_of gen port = Some c \<Longrightarrow> source_operation c = Some operation
       \<Longrightarrow> redirections_into gen operation = []"
  shows "covers_reads (collect_dependents gen) (set_boundary_conditions d b gen)"
  unfolding covers_reads_def
proof (intro allI impI)
  fix port c dependency
  let ?s = "set_boundary_conditions d b gen"
  assume c: "constraint_of ?s port = Some c" and dep: "dependency \<in> read_set ?s c"
    and live: "constraint_of ?s dependency \<noteq> None"
  have c': "constraint_of gen port = Some c" using c by (simp add: set_boundary_shape)
  have "read_set ?s c = set (dependencies ?s c)"
    by (rule read_set_dependencies) (use assms(2) [OF c'] in \<open>simp add: set_boundary_shape(2)\<close>)
  moreover have "dependency \<noteq> PortOut (OutStart [])"
    using live assms(1) by (auto simp: set_boundary_shape wf_inferences_def starts_workflow_def)
  ultimately have "dependency \<in> set (dependencies gen c)"
    using dep dependencies_boundary by blast
  then show "port \<in> set (dependents_of (collect_dependents gen) dependency)"
    using c' constraint_of_entry [of gen port c] assms(1)
    by (auto simp: dependents_of_collect wf_inferences_def)
qed

lemma generate_default:
  assumes "generate md d unfinished default_inferences = Some (Inr gen)"
  shows "wf_inferences gen" and "redirect_function gen"
  using well_formed.P_generate [OF assms] redirections.P_generate [OF assms] default_inferences_ok
  by blast+

lemma unconstrained_stable:
  assumes "constraint_of s q = None" and "q \<in> dom (hm_get (inf_evaluations s))"
  shows "evaluate_port md s q = Inr None"
  using assms by (simp add: evaluate_port_eq)

lemma keys_evaluations: "set (hm_keys (inf_evaluations infs)) = dom (hm_get (inf_evaluations infs))"
  by (rule set_hm_keys)

lemma evaluate_inferences_shape:
  assumes "generate md d (unfinished_operations d) default_inferences = Some (Inr gen)"
    and "propagate md (collect_dependents gen) (hm_keys (inf_evaluations gen))
           (set_boundary_conditions d boundary gen) = Some (Inr infs)"
  shows "same_shape infs (set_boundary_conditions d boundary gen)"
proof -
  let ?b = "set_boundary_conditions d boundary gen"
  have "same_shape ?b ?b" by (simp add: same_shape_def same_wiring_def)
  from assignment.progress [OF assms(2) [unfolded propagate_def] this] show ?thesis by blast
qed

lemma propagate_wf:
  assumes "propagate md deps queue s = Some (Inr infs)" and "hm_wf (inf_evaluations s)"
  shows "hm_wf (inf_evaluations infs)"
proof -
  let ?Q = "\<lambda>r :: diagram_error + inferences. case r of Inl _ \<Rightarrow> True | Inr i \<Rightarrow> hm_wf (inf_evaluations i)"
  have "?Q (Inr infs)"
    by (rule worklist_run_induct [where I = "\<lambda>_ s. hm_wf (inf_evaluations s)" and Q = ?Q,
          OF assms(1) [unfolded propagate_def] assms(2)])
      (auto simp: fixed_def hm_wf_entry)
  then show ?thesis by simp
qed

theorem inferred_fixpoint:
  assumes "evaluate_message_type_inferences d md boundary = Some (Inr infs)"
    and "unredirected_inputs infs" and "port \<in> set (hm_keys (inf_evaluations infs))"
  shows "evaluate_port md infs port = Inr None
    \<or> evaluate_port md infs port = Inr (port_type infs port)"
proof -
  from assms(1) obtain gen where
    gen: "generate md d (unfinished_operations d) default_inferences = Some (Inr gen)"
    and run: "propagate md (collect_dependents gen) (hm_keys (inf_evaluations gen))
           (set_boundary_conditions d boundary gen) = Some (Inr infs)"
    by (rule evaluate_inferences_Inr)
  let ?b = "set_boundary_conditions d boundary gen"
  note wf = generate_default(1) [OF gen]
  have shape: "same_shape infs ?b" by (rule evaluate_inferences_shape [OF gen run])
  have wf_infs: "hm_wf (inf_evaluations infs)"
    by (rule propagate_wf [OF run], rule set_boundary_wf) (use wf in \<open>simp add: wf_inferences_def\<close>)
  have unredirected: "redirections_into gen operation = []"
    if "constraint_of gen p = Some c" "source_operation c = Some operation" for p c operation
    using assms(2) [unfolded unredirected_inputs_iff [OF wf_infs]] that shape
      same_wiring_eq(2) [of infs ?b]
    by (auto simp: same_shape_def set_boundary_shape)
  let ?U = "{q. q \<in> dom (hm_get (inf_evaluations ?b))}"
  have start: "propagation.stable md ?b q"
    if "q \<in> ?U" "q \<notin> set (hm_keys (inf_evaluations gen))" for q
  proof -
    have "constraint_of ?b q = None"
      using that(2) constraint_of_dom [of gen q] by (auto simp: set_boundary_shape keys_evaluations)
    then show ?thesis
      using unconstrained_stable [of ?b q md] that(1) by (simp add: propagation.stable_def)
  qed
  have ok: "same_shape ?b ?b \<and> covers_reads (collect_dependents gen) ?b"
    using covers_reads_boundary [OF wf unredirected] by (simp add: same_shape_def same_wiring_def)
  have "\<forall>q \<in> ?U. propagation.stable md infs q"
    using propagation.fixpoint [OF run [unfolded propagate_def] ok, of ?U] start by blast
  moreover have "port \<in> ?U" using assms(3) shape by (simp add: keys_evaluations same_shape_def)
  ultimately show ?thesis by (simp add: propagation.stable_def)
qed

subsection \<open>Termination\<close>

text \<open>
  \<open>ranked_dependencies rank infs\<close>: along every dependency on a port that has a constraint itself
  the rank decreases. Such a rank exists when these dependencies are acyclic.
\<close>

definition ranked_dependencies :: "(port_ref \<Rightarrow> nat) \<Rightarrow> inferences \<Rightarrow> bool" where
  "ranked_dependencies rank infs \<longleftrightarrow>
     list_all (\<lambda>(port, e).
         case mti_constraint e of
           None \<Rightarrow> True
         | Some c \<Rightarrow>
             list_all (\<lambda>dep. constraint_of infs dep = None \<or> rank port < rank dep) (dependencies infs c))
       (inf_evaluations infs)"

lemma ranked_dependencies_ranked:
  assumes "ranked_dependencies rank gen"
  shows "assignment.ranked (collect_dependents gen) (set_boundary_conditions d b gen) rank"
proof -
  have "rank p < rank q"
    if "p \<in> set (dependents_of (collect_dependents gen) q)" "constraint_of gen q \<noteq> None" for p q
  proof -
    from that(1) obtain e c where e: "(p, e) \<in> set (inf_evaluations gen)" "mti_constraint e = Some c"
      and "q \<in> set (dependencies gen c)"
      by (auto simp: dependents_of_collect)
    moreover from e assms have
      "\<forall>dep \<in> set (dependencies gen c). constraint_of gen dep = None \<or> rank p < rank dep"
      unfolding ranked_dependencies_def list_all_iff by fastforce
    ultimately show ?thesis using that(2) by auto
  qed
  then show ?thesis unfolding assignment.ranked_def set_boundary_shape by blast
qed

lemma evaluate_inferences_returns:
  assumes "\<And>gen. generate md d (unfinished_operations d) default_inferences = Some (Inr gen)
    \<Longrightarrow> ranked_dependencies rank gen"
  shows "\<exists>r. evaluate_message_type_inferences d md boundary = Some r"
proof (rule ccontr)
  assume "\<not> ?thesis"
  then have "evaluate_message_type_inferences d md boundary = None" by auto
  then obtain gen where
    gen: "generate md d (unfinished_operations d) default_inferences = Some (Inr gen)"
    and run: "propagate md (collect_dependents gen) (hm_keys (inf_evaluations gen))
      (set_boundary_conditions d boundary gen) = None"
    by (rule evaluate_inferences_None)
  have "same_shape (set_boundary_conditions d boundary gen) (set_boundary_conditions d boundary gen)"
    by (simp add: same_shape_def same_wiring_def)
  then have "\<exists>x. propagate md (collect_dependents gen) (hm_keys (inf_evaluations gen))
      (set_boundary_conditions d boundary gen) = Some x"
    unfolding propagate_def
    by (rule assignment.returns [OF ranked_dependencies_ranked [OF assms [OF gen]]])
  then show False using run by simp
qed

subsection \<open>Soundness of the inferred types\<close>

fun type_supported :: "element_metadata \<Rightarrow> constraint \<Rightarrow> nat \<Rightarrow> bool" where
  "type_supported md (CloneInput _ _) t \<longleftrightarrow> can_clone md t = Inr True"
| "type_supported md (ResultInto _ _ _) t \<longleftrightarrow> (\<exists>outputs. fork_result_output_types md t = Inr outputs)"
| "type_supported md (UnzipInput _) t \<longleftrightarrow> (\<exists>outputs. unzip_output_types md t = Inr outputs)"
| "type_supported md (SplitInput _) t \<longleftrightarrow> can_split md t = Inr True"
| "type_supported md _ t \<longleftrightarrow> True"

text \<open>The input of a split may be converted to a JSON message, so support needs that these can be split, as
  in every registry with the built-in messages (\<open>register_builtin_messages\<close>).\<close>

definition splits_json :: "element_metadata \<Rightarrow> bool" where
  "splits_json md \<longleftrightarrow> (case json_message_index md of Inl _ \<Rightarrow> True | Inr json_index \<Rightarrow> can_split md json_index = Inr True)"

lemma evaluate_constraint_supported:
  "evaluate_constraint infs md c = Inr (Some t) \<Longrightarrow> splits_json md \<Longrightarrow> type_supported md c t"
  by (cases c) (auto simp: splits_json_def dest: evaluate_clone_input_sound evaluate_result_input_sound
      evaluate_unzip_input_sound evaluate_split_input_sound)

lemma propagate_supported:
  assumes "propagate md deps queue s = Some (Inr infs)"
    and "constraint_of s port = Some c" and "port_type infs port = Some t" and "port_type s port \<noteq> Some t"
    and "splits_json md"
  shows "type_supported md c t"
proof -
  have "same_shape s s" by (simp add: same_shape_def same_wiring_def)
  from assignment.provenance [OF assms(1) [unfolded propagate_def] this, of port] assms(3,4)
  obtain u where u: "same_shape u s" "evaluate_port md u port = Inr (Some t)" by auto
  then have "evaluate_constraint u md c = Inr (Some t)"
    using assms(2) by (auto simp: evaluate_port_eq same_shape_def split: if_splits)
  then show ?thesis using assms(5) by (rule evaluate_constraint_supported)
qed

lemma inferred_supported:
  assumes "evaluate_message_type_inferences d md boundary = Some (Inr infs)"
    and "generate md d (unfinished_operations d) default_inferences = Some (Inr gen)"
    and "constraint_of infs port = Some c" and "port_type infs port = Some t"
    and "port_type (set_boundary_conditions d boundary gen) port = None" and "splits_json md"
  shows "type_supported md c t"
proof -
  from assms(1) obtain gen' where
    gen: "generate md d (unfinished_operations d) default_inferences = Some (Inr gen')"
    and run: "propagate md (collect_dependents gen') (hm_keys (inf_evaluations gen'))
           (set_boundary_conditions d boundary gen') = Some (Inr infs)"
    by (rule evaluate_inferences_Inr)
  then have "gen' = gen" using assms(2) by simp
  have "constraint_of (set_boundary_conditions d boundary gen) port = Some c"
    using assms(3) evaluate_inferences_shape [OF gen run] \<open>gen' = gen\<close> by (simp add: same_shape_def)
  from propagate_supported [OF run [unfolded \<open>gen' = gen\<close>] this assms(4)] assms(5,6)
  show ?thesis by simp
qed

subsection \<open>Results\<close>

text \<open>The result of a successful inference is the type of every port, and every port has one.\<close>

lemma try_infer_types_Inr:
  "try_infer_types infs = Inr types \<longleftrightarrow>
     list_all2 (\<lambda>(port, e) (port', t). port' = port \<and> mti_message_type e = Some t)
       (inf_evaluations infs) types"
proof -
  have "(\<lambda>x y. (case x of (port, e :: message_type_inference) \<Rightarrow> case mti_message_type e of
        None \<Rightarrow> Inl (CannotInferType port) | Some t \<Rightarrow> Inr (port, t)) =
          (Inr y :: diagram_error_code + port_ref \<times> nat)) =
      (\<lambda>(port, e) (port', t). port' = port \<and> mti_message_type e = Some t)"
    by (auto simp: fun_eq_iff split: option.splits)
  then show ?thesis by (simp add: try_infer_types_def rmap_eq_Inr)
qed

lemma list_all2_map_of:
  assumes "list_all2 (\<lambda>(k, v) (k', w). k' = k \<and> f v = Some w) xs ys"
  shows "map_of ys k = Option.bind (map_of xs k) f"
  using assms by (induction rule: list_all2_induct) (auto split: prod.splits)

lemma infer_message_types_lookup:
  assumes "infer_message_types d md boundary = Some (Inr types)"
  obtains infs where "evaluate_message_type_inferences d md boundary = Some (Inr infs)"
    and "hm_get types = port_type infs"
    and "\<forall>port \<in> set (hm_keys (inf_evaluations infs)). hm_get types port \<noteq> None"
proof -
  from assms obtain infs where infs: "evaluate_message_type_inferences d md boundary = Some (Inr infs)"
    and t: "try_infer_types infs = Inr types"
    by (auto simp: infer_message_types_def rbind_eq_Inr)
  note all = t [unfolded try_infer_types_Inr]
  have get: "hm_get types port = Option.bind (hm_get (inf_evaluations infs) port) mti_message_type" for port
    using all by (rule list_all2_map_of)
  then have "hm_get types = port_type infs"
    by (auto simp: port_type_def fun_eq_iff split: option.split)
  moreover have "map fst types = map fst (inf_evaluations infs)"
    using all by (induction rule: list_all2_induct) (auto split: prod.splits)
  then have "dom (hm_get types) = dom (hm_get (inf_evaluations infs))"
    by (metis dom_map_of_conv_image_fst list.set_map)
  then have "\<forall>port \<in> set (hm_keys (inf_evaluations infs)). hm_get types port \<noteq> None"
    by (auto simp: set_hm_keys)
  ultimately show ?thesis using that [OF infs] by blast
qed

text \<open>The types of boundary ports are the ones that the caller fixes.\<close>

lemma boundary_types:
  assumes "evaluate_message_type_inferences d md boundary = Some (Inr infs)"
  shows "port_type infs (PortOut (OutStart [])) = Some (bc_request boundary)"
proof -
  from assms obtain gen where
    gen: "generate md d (unfinished_operations d) default_inferences = Some (Inr gen)"
    and run: "propagate md (collect_dependents gen) (hm_keys (inf_evaluations gen))
           (set_boundary_conditions d boundary gen) = Some (Inr infs)"
    by (rule evaluate_inferences_Inr)
  let ?b = "set_boundary_conditions d boundary gen" and ?p = "PortOut (OutStart [])"
  have "constraint_of ?b ?p = None"
    using generate_default(1) [OF gen]
    by (simp add: set_boundary_shape wf_inferences_def starts_workflow_def)
  moreover have "same_shape ?b ?b" by (simp add: same_shape_def same_wiring_def)
  ultimately have "port_type infs ?p = port_type ?b ?p"
    using assignment.progress [OF run [unfolded propagate_def], of ?b ?p] by blast
  moreover have "port_type ?b ?p = Some (bc_request boundary)"
    unfolding set_boundary_conditions_def Let_def
    by (rule fold_preserves [where P = "\<lambda>s. port_type s ?p = Some (bc_request boundary)"])
      (auto simp: into_port_ref_def)
  ultimately show ?thesis by simp
qed

end
