(* ===== verification/Examples.thy ===== *)
theory Examples
  imports Solution
begin

text \<open>
  Concrete registries and diagrams on which the model is evaluated.

  \<open>seesaw\<close> is a diagram whose type inference never returns: a \<open>fork_clone\<close> and a \<open>split\<close> feed each
  other, and the registry has two message types whose split output is the other one.
\<close>

definition no_trace :: trace_settings where
  "no_trace = \<lparr>ts_display_text = None, ts_trace = None, ts_extensions = None\<rparr>"

definition plain_operations :: message_operations_metadata where
  "plain_operations =
     \<lparr>mo_deserialize = False, mo_serialize = False, mo_into_script_message = False,
      mo_from_script_message = False, mo_fork_clone = True, mo_unzip = None, mo_fork_result = None,
      mo_split = None, mo_join = None, mo_buffer_access = None, mo_listen = None, mo_into = [],
      mo_try_into = [], mo_from = [], mo_try_from = []\<rparr>"

definition seesaw_metadata :: element_metadata where
  "seesaw_metadata =
     \<lparr>em_nodes = [(''sink'', \<lparr>nm_request = 0, nm_response = 0, nm_streams = []\<rparr>)],
      em_sections = [],
      em_messages =
        [\<lparr>mm_type_name = ''A'', mm_operations = Some (plain_operations\<lparr>mo_split := Some 1\<rparr>)\<rparr>,
         \<lparr>mm_type_name = ''B'', mm_operations = Some (plain_operations\<lparr>mo_split := Some 0\<rparr>)\<rparr>],
      em_reverse_message_lookup =
        \<lparr>rml_result = [], rml_unzip = [], rml_split = [(0, [1]), (1, [0])],
         rml_json_message = None, rml_script_message = None\<rparr>\<rparr>"

definition sink_node :: diagram_operation where
  "sink_node = OpNode \<lparr>node_builder = ''sink'', node_config = '''', node_next = next_terminate,
     node_stream_out = [], node_trace = no_trace\<rparr>"

definition root_diagram :: "(name \<times> diagram_operation) list \<Rightarrow> next_operation \<Rightarrow> diagram" where
  "root_diagram ops start =
     \<lparr>dg_templates = [], dg_script_environments = [], dg_start = start,
      dg_on_implicit_error = None, dg_ops = Operations 0 ops, dg_default_trace = TraceOff\<rparr>"

definition seesaw :: diagram where
  "seesaw = root_diagram
     [(''clone'', OpForkClone \<lparr>fork_clone_next = [NextName ''split'', NextName ''sink''],
         fork_clone_trace = no_trace\<rparr>),
      (''split'', OpSplit \<lparr>split_sequential = [NextName ''clone''], split_keyed = [],
         split_remaining = None, split_trace = no_trace\<rparr>),
      (''sink'', sink_node)] (NextName ''sink'')"

definition seesaw_boundary :: boundary_conditions where
  "seesaw_boundary = \<lparr>bc_request = 0, bc_response = 0, bc_streams = []\<rparr>"

definition generated :: "element_metadata \<Rightarrow> diagram \<Rightarrow> inferences" where
  "generated md d =
     (case generate md d (unfinished_operations d) default_inferences of
        Some (Inr gen) \<Rightarrow> gen
      | _ \<Rightarrow> default_inferences)"

definition propagation_steps ::
  "nat \<Rightarrow> element_metadata \<Rightarrow> diagram \<Rightarrow> boundary_conditions \<Rightarrow> (port_ref list \<times> inferences) option" where
  "propagation_steps n md d b =
     (let gen = generated md d
      in worklist_steps n (evaluate_port md) port_type fixed (dependents_of (collect_dependents gen))
           (hm_keys (inf_evaluations gen), set_boundary_conditions d b gen))"

lemma seesaw_generated:
  "generate seesaw_metadata seesaw (unfinished_operations seesaw) default_inferences =
     Some (Inr (generated seesaw_metadata seesaw))"
  by code_simp

lemma seesaw_orbit:
  "case propagation_steps 12 seesaw_metadata seesaw seesaw_boundary of
     None \<Rightarrow> False
   | Some c \<Rightarrow> worklist_steps (Suc 11) (evaluate_port seesaw_metadata) port_type fixed
       (dependents_of (collect_dependents (generated seesaw_metadata seesaw))) c = Some c"
  by code_simp

lemma seesaw_accepted:
  "validate_operation_names seesaw = Some (Inr ())"
  "validate_template_usage seesaw = Some (Inr ())"
  "test_circular_redirects (generated seesaw_metadata seesaw) = Inr ()"
  by code_simp+

lemma seesaw_diverges:
  "infer_message_types seesaw seesaw_metadata seesaw_boundary = None"
proof -
  let ?gen = "generated seesaw_metadata seesaw"
  obtain c where c: "propagation_steps 12 seesaw_metadata seesaw seesaw_boundary = Some c"
    and "worklist_steps (Suc 11) (evaluate_port seesaw_metadata) port_type fixed
       (dependents_of (collect_dependents ?gen)) c = Some c"
    using seesaw_orbit by (auto split: option.splits)
  then have "propagate seesaw_metadata (collect_dependents ?gen) (hm_keys (inf_evaluations ?gen))
      (set_boundary_conditions seesaw seesaw_boundary ?gen) = None"
    unfolding propagate_def propagation_steps_def Let_def by (rule worklist_periodic)
  then show ?thesis
    by (simp add: infer_message_types_def evaluate_message_type_inferences_def seesaw_accepted
        seesaw_generated solve_inferences_def)
qed

subsection \<open>A diagram whose inference depends on the order of evaluation\<close>

text \<open>
  A chain of two \<open>fork_clone\<close> operations, the second of which only has \<open>dispose\<close> as target. As long
  as the message type of the first one is unknown, the second one looks at its targets, and
  \<open>dispose\<close> is not a port that the inference knows.
\<close>

definition cascade :: diagram where
  "cascade = root_diagram
     [(''source'', OpNode \<lparr>node_builder = ''sink'', node_config = '''', node_next = NextName ''first'',
         node_stream_out = [], node_trace = no_trace\<rparr>),
      (''first'', OpForkClone \<lparr>fork_clone_next = [NextName ''second'', next_terminate],
         fork_clone_trace = no_trace\<rparr>),
      (''second'', OpForkClone \<lparr>fork_clone_next = [next_dispose, next_dispose],
         fork_clone_trace = no_trace\<rparr>)] (NextName ''source'')"

definition propagation_in_order ::
  "port_ref list \<Rightarrow> element_metadata \<Rightarrow> diagram \<Rightarrow> boundary_conditions
     \<Rightarrow> (diagram_error + inferences) option" where
  "propagation_in_order queue md d b =
     (let gen = generated md d
      in propagate md (collect_dependents gen) queue (set_boundary_conditions d b gen))"

definition evaluation_order :: "element_metadata \<Rightarrow> diagram \<Rightarrow> port_ref list" where
  "evaluation_order md d = hm_keys (inf_evaluations (generated md d))"

lemma cascade_fails:
  "propagation_in_order (evaluation_order seesaw_metadata cascade) seesaw_metadata cascade seesaw_boundary =
     Some (Inl (code_in_port (UnknownPort (PortIn OpDispose)) (PortIn (op_of_name ''second''))))"
  by code_simp

definition evaluation_order' :: "element_metadata \<Rightarrow> diagram \<Rightarrow> port_ref list" where
  "evaluation_order' md d =
     (let first = PortIn (op_of_name ''first'') in first # remove1 first (evaluation_order md d))"

lemma cascade_succeeds:
  "\<exists>infs. propagation_in_order (evaluation_order' seesaw_metadata cascade) seesaw_metadata cascade
       seesaw_boundary = Some (Inr infs)"
proof -
  have "case propagation_in_order (evaluation_order' seesaw_metadata cascade) seesaw_metadata
      cascade seesaw_boundary of Some (Inr _) \<Rightarrow> True | _ \<Rightarrow> False"
    by code_simp
  then show ?thesis by (auto split: option.splits sum.splits)
qed

lemma cascade_orders:
  "mset (evaluation_order' seesaw_metadata cascade) = mset (evaluation_order seesaw_metadata cascade)"
proof -
  have "PortIn (op_of_name ''first'') \<in> set (evaluation_order seesaw_metadata cascade)" by code_simp
  then show ?thesis by (simp add: evaluation_order'_def Let_def)
qed

subsection \<open>A section that exposes one operation twice\<close>

definition doubled :: diagram where
  "doubled =
     (root_diagram
        [(''section'', OpSection \<lparr>section_provider = ProviderTemplate ''template'', section_config = '''',
            section_connect = [], section_trace = no_trace\<rparr>)] (NextName ''section''))
      \<lparr>dg_templates :=
         [(''template'', \<lparr>template_inputs = RemapForward [''sink''], template_outputs = [],
             template_buffers = RemapForward [''sink''], template_ops = Operations 1 [(''sink'', sink_node)]\<rparr>)]\<rparr>"

lemma doubled_accepted:
  "validate_operation_names doubled = Some (Inr ())"
  "validate_template_usage doubled = Some (Inr ())"
  by code_simp+

lemma doubled_panics:
  "infer_message_types doubled seesaw_metadata seesaw_boundary =
     Some (Inl (Panicked ''assertion failed: port_constraint.is_none()''))"
  by code_simp

subsection \<open>A diagram that is solved\<close>

definition fan :: diagram where
  "fan = root_diagram
     [(''source'', OpNode \<lparr>node_builder = ''sink'', node_config = '''', node_next = NextName ''clone'',
         node_stream_out = [], node_trace = no_trace\<rparr>),
      (''clone'', OpForkClone \<lparr>fork_clone_next = [next_terminate, next_terminate],
         fork_clone_trace = no_trace\<rparr>)] (NextName ''source'')"

definition fan_solution :: inferences where
  "fan_solution =
     (case evaluate_message_type_inferences fan seesaw_metadata seesaw_boundary of
        Some (Inr infs) \<Rightarrow> infs
      | _ \<Rightarrow> default_inferences)"

definition fan_types :: "(port_ref, nat) hmap" where
  "fan_types = map (\<lambda>(port, e). (port, the (mti_message_type e))) (inf_evaluations fan_solution)"

fun fan_rank :: "port_ref \<Rightarrow> nat" where
  "fan_rank (PortIn _) = 1"
| "fan_rank (PortOut _) = 0"

abbreviation fan_clone :: port_ref where
  "fan_clone \<equiv> PortIn (op_of_name ''clone'')"

lemma fan_solved:
  "evaluate_message_type_inferences fan seesaw_metadata seesaw_boundary = Some (Inr fan_solution)"
  by code_simp

lemma fan_inferred:
  "infer_message_types fan seesaw_metadata seesaw_boundary = Some (Inr fan_types)"
  by code_simp

lemma fan_generated:
  "generate seesaw_metadata fan (unfinished_operations fan) default_inferences =
     Some (Inr (generated seesaw_metadata fan))"
  by code_simp

lemma fan_ranked: "ranked_dependencies fan_rank (generated seesaw_metadata fan)"
  by code_simp

lemma fan_facts:
  "unredirected_inputs fan_solution"
  "fan_clone \<in> set (hm_keys (inf_evaluations fan_solution))"
  "constraint_of fan_solution fan_clone =
     Some (CloneInput (op_of_name ''clone'') [OpTerminate [], OpTerminate []])"
  "port_type fan_solution fan_clone = Some 0"
  "port_type (set_boundary_conditions fan seesaw_boundary (generated seesaw_metadata fan)) fan_clone = None"
  "test_circular_redirects (generated seesaw_metadata fan) = Inr ()"
  by code_simp+

end
