(* ===== verification/BufferStore.thy ===== *)
theory BufferStore
  imports Prelude Diagram "HOL-Library.Word"
begin

text \<open>
  The storage of a buffer, \<open>src/src/buffer/buffer_manager.rs\<close>: \<open>BufferStorage\<close> with one queue per
  session, and the operations of \<open>BufferManager\<close> on the queue of its session. The settings are those
  of \<open>src/src/buffer.rs\<close>.

  \<^item> As in the code a queue is kept in reverse: index 0 is the newest entry, the last index the
    oldest. The sequence number of an entry comes from the \<open>Wrapping<u32>\<close> counter of the input
    storage of the buffer, a 32 bit word.
  \<^item> The methods that hand out a mutable borrow (\<open>oldest_mut\<close>, \<open>get_mut\<close>, ...) take the
    modification of the caller as a function; \<open>False\<close> in the result stands for \<open>None\<close>.
  \<^item> The optional tracing of accesses is left out.

  The abstract view of a buffer is the list of its messages, oldest first, and \<open>retain\<close> says what a
  push does to it under each retention policy. The locale \<open>retention_queue\<close> is the contract of a
  queue that refines this view; the manager is an interpretation of it.
\<close>

subsection \<open>Storage\<close>

type_synonym seq = "32 word"

record 't buffer_entry =
  be_seq :: seq
  be_message :: 't

record 't buffer_storage =
  bst_settings :: buffer_settings
  bst_reverse_queues :: "(entity, 't buffer_entry list) hmap"

definition buffer_settings_new :: "retention_policy \<Rightarrow> buffer_settings" where
  "buffer_settings_new retention = \<lparr>bs_retention = retention\<rparr>"

definition default_retention :: retention_policy where
  "default_retention = KeepLast 1"

definition storage_new :: "buffer_settings \<Rightarrow> 't buffer_storage" where
  "storage_new settings = \<lparr>bst_settings = settings, bst_reverse_queues = []\<rparr>"

definition storage_count :: "entity \<Rightarrow> 't buffer_storage \<Rightarrow> nat" where
  "storage_count session self =
     (case hm_get (bst_reverse_queues self) session of Some q \<Rightarrow> length q | None \<Rightarrow> 0)"

definition active_sessions :: "'t buffer_storage \<Rightarrow> entity list" where
  "active_sessions self = hm_keys (bst_reverse_queues self)"

definition storage_iter :: "entity \<Rightarrow> 't buffer_storage \<Rightarrow> 't list" where
  "storage_iter session self =
     (case hm_get (bst_reverse_queues self) session of
        Some q \<Rightarrow> rev (map be_message q)
      | None \<Rightarrow> [])"

definition first_entry :: "'a list \<Rightarrow> 'a option" where
  "first_entry q = (case q of [] \<Rightarrow> None | e # _ \<Rightarrow> Some e)"

definition last_entry :: "'a list \<Rightarrow> 'a option" where
  "last_entry q = (if q = [] then None else Some (last q))"

definition storage_oldest :: "entity \<Rightarrow> 't buffer_storage \<Rightarrow> 't option" where
  "storage_oldest session self =
     map_option be_message (Option.bind (hm_get (bst_reverse_queues self) session) last_entry)"

definition storage_newest :: "entity \<Rightarrow> 't buffer_storage \<Rightarrow> 't option" where
  "storage_newest session self =
     map_option be_message (Option.bind (hm_get (bst_reverse_queues self) session) first_entry)"

definition storage_get :: "entity \<Rightarrow> nat \<Rightarrow> 't buffer_storage \<Rightarrow> 't option" where
  "storage_get session i self =
     Option.bind (hm_get (bst_reverse_queues self) session) (\<lambda>reverse_queue.
       let len = length reverse_queue
       in if len \<le> i then None else Some (be_message (reverse_queue ! (len - i - 1))))"

definition ensure_session :: "entity \<Rightarrow> 't buffer_storage \<Rightarrow> 't buffer_storage" where
  "ensure_session session self =
     self\<lparr>bst_reverse_queues := hm_entry session [] (\<lambda>q. q) (bst_reverse_queues self)\<rparr>"

definition remove_session :: "entity \<Rightarrow> 't buffer_storage \<Rightarrow> 't buffer_storage" where
  "remove_session session self =
     self\<lparr>bst_reverse_queues := AList.delete session (bst_reverse_queues self)\<rparr>"

subsection \<open>The manager of one session\<close>

record 't buffer_manager =
  bm_storage :: "'t buffer_storage"
  bm_sequence :: seq
  bm_session :: entity

definition increment_seq :: "'t buffer_manager \<Rightarrow> seq \<times> 't buffer_manager" where
  "increment_seq self = (bm_sequence self, self\<lparr>bm_sequence := bm_sequence self + 1\<rparr>)"

definition manager_retention :: "'t buffer_manager \<Rightarrow> retention_policy" where
  "manager_retention self = bs_retention (bst_settings (bm_storage self))"

definition manager_queue :: "'t buffer_manager \<Rightarrow> 't buffer_entry list option" where
  "manager_queue self = hm_get (bst_reverse_queues (bm_storage self)) (bm_session self)"

definition set_queue :: "'t buffer_entry list \<Rightarrow> 't buffer_manager \<Rightarrow> 't buffer_manager" where
  "set_queue q self =
     self\<lparr>bm_storage := (bm_storage self)
       \<lparr>bst_reverse_queues := hm_insert (bm_session self) q (bst_reverse_queues (bm_storage self))\<rparr>\<rparr>"

definition manager_len :: "'t buffer_manager \<Rightarrow> nat" where
  "manager_len self = storage_count (bm_session self) (bm_storage self)"

definition manager_iter :: "'t buffer_manager \<Rightarrow> 't list" where
  "manager_iter self = storage_iter (bm_session self) (bm_storage self)"

definition manager_oldest :: "'t buffer_manager \<Rightarrow> 't option" where
  "manager_oldest self = storage_oldest (bm_session self) (bm_storage self)"

definition manager_newest :: "'t buffer_manager \<Rightarrow> 't option" where
  "manager_newest self = storage_newest (bm_session self) (bm_storage self)"

definition manager_get :: "nat \<Rightarrow> 't buffer_manager \<Rightarrow> 't option" where
  "manager_get i self = storage_get (bm_session self) i (bm_storage self)"

text \<open>The result of \<open>impl_push\<close> is the queue after the call and the entry that the call returns.\<close>

definition impl_push ::
  "'t buffer_entry list \<Rightarrow> retention_policy \<Rightarrow> seq \<Rightarrow> 't
     \<Rightarrow> 't buffer_entry list \<times> 't buffer_entry option" where
  "impl_push reverse_queue retention seq message =
     (let entry = \<lparr>be_seq = seq, be_message = message\<rparr>
      in case retention of
           KeepFirst n \<Rightarrow>
             (if length reverse_queue \<ge> n then (reverse_queue, Some entry)
              else (entry # reverse_queue, None))
         | KeepLast n \<Rightarrow>
             (if n > 0 \<and> length reverse_queue \<ge> n
              then (entry # butlast reverse_queue, last_entry reverse_queue)
              else if n = 0 then (reverse_queue, Some entry)
              else (entry # reverse_queue, None))
         | KeepAll \<Rightarrow> (entry # reverse_queue, None))"

definition force_push :: "'t \<Rightarrow> 't buffer_manager \<Rightarrow> 't buffer_manager \<times> 't option" where
  "force_push message self =
     (let (seq, self) = increment_seq self;
          q = (case manager_queue self of Some q \<Rightarrow> q | None \<Rightarrow> []);
          (q', removed) = impl_push q (manager_retention self) seq message
      in (set_queue q' self, map_option be_message removed))"

definition manager_push :: "'t \<Rightarrow> 't buffer_manager \<Rightarrow> 't buffer_manager \<times> 't option" where
  "manager_push message self =
     (case manager_queue self of
        None \<Rightarrow> (self, Some message)
      | Some q \<Rightarrow>
          let (seq, self) = increment_seq self;
              (q', removed) = impl_push q (manager_retention self) seq message
          in (set_queue q' self, map_option be_message removed))"

definition push_as_oldest :: "'t \<Rightarrow> 't buffer_manager \<Rightarrow> 't buffer_manager \<times> 't option" where
  "push_as_oldest message self =
     (case manager_queue self of
        None \<Rightarrow> (self, Some message)
      | Some q \<Rightarrow>
          let (seq, self) = increment_seq self;
              entry = \<lparr>be_seq = seq, be_message = message\<rparr>
          in case manager_retention self of
               KeepFirst n \<Rightarrow>
                 (if n > 0 \<and> length q \<ge> n
                  then (set_queue (tl q @ [entry]) self, map_option be_message (first_entry q))
                  else (set_queue (q @ [entry]) self, None))
             | KeepLast n \<Rightarrow>
                 (if length q \<ge> n then (self, Some message)
                  else (set_queue (q @ [entry]) self, None))
             | KeepAll \<Rightarrow> (set_queue (q @ [entry]) self, None))"

definition manager_pull :: "'t buffer_manager \<Rightarrow> 't buffer_manager \<times> 't option" where
  "manager_pull self =
     (case manager_queue self of
        None \<Rightarrow> (self, None)
      | Some q \<Rightarrow> (set_queue (butlast q) self, map_option be_message (last_entry q)))"

definition pull_newest :: "'t buffer_manager \<Rightarrow> 't buffer_manager \<times> 't option" where
  "pull_newest self =
     (case manager_queue self of
        None \<Rightarrow> (self, None)
      | Some q \<Rightarrow>
          (if q = [] then (self, None)
           else (set_queue (tl q) self, map_option be_message (first_entry q))))"

subsection \<open>Modifying entries in place\<close>

definition modify_entry :: "('t \<Rightarrow> 't) \<Rightarrow> 't buffer_entry \<Rightarrow> 't buffer_entry" where
  "modify_entry f e = e\<lparr>be_message := f (be_message e)\<rparr>"

definition iter_mut :: "('t \<Rightarrow> 't) \<Rightarrow> 't buffer_manager \<Rightarrow> 't buffer_manager" where
  "iter_mut f self =
     (case manager_queue self of
        None \<Rightarrow> self
      | Some q \<Rightarrow> set_queue (map (modify_entry f) q) self)"

definition modify_at :: "nat \<Rightarrow> ('t \<Rightarrow> 't) \<Rightarrow> 't buffer_entry list \<Rightarrow> 't buffer_entry list" where
  "modify_at i f q = q[i := modify_entry f (q ! i)]"

definition oldest_mut :: "('t \<Rightarrow> 't) \<Rightarrow> 't buffer_manager \<Rightarrow> 't buffer_manager \<times> bool" where
  "oldest_mut f self =
     (case manager_queue self of
        None \<Rightarrow> (self, False)
      | Some q \<Rightarrow>
          (if q = [] then (self, False) else (set_queue (modify_at (length q - 1) f q) self, True)))"

definition newest_mut :: "('t \<Rightarrow> 't) \<Rightarrow> 't buffer_manager \<Rightarrow> 't buffer_manager \<times> bool" where
  "newest_mut f self =
     (case manager_queue self of
        None \<Rightarrow> (self, False)
      | Some q \<Rightarrow> (if q = [] then (self, False) else (set_queue (modify_at 0 f q) self, True)))"

definition newest_mut_or_else ::
  "'t \<Rightarrow> ('t \<Rightarrow> 't) \<Rightarrow> 't buffer_manager \<Rightarrow> 't buffer_manager \<times> bool" where
  "newest_mut_or_else init f self =
     (case manager_queue self of
        None \<Rightarrow> (self, False)
      | Some [] \<Rightarrow>
          let (seq, self) = increment_seq self;
              (q', _) = impl_push [] (manager_retention self) seq init
          in newest_mut f (set_queue q' self)
      | Some _ \<Rightarrow> newest_mut f self)"

definition get_mut :: "nat \<Rightarrow> ('t \<Rightarrow> 't) \<Rightarrow> 't buffer_manager \<Rightarrow> 't buffer_manager \<times> bool" where
  "get_mut i f self =
     (case manager_queue self of
        None \<Rightarrow> (self, False)
      | Some q \<Rightarrow>
          (let len = length q
           in if len \<le> i then (self, False)
              else (set_queue (modify_at (len - i - 1) f q) self, True)))"

text \<open>
  \<open>drain\<close> with the range \<open>lower..upper\<close> of indices; \<open>None\<close> stands for the panic of
  \<open>SmallVec::drain\<close> on a range that is out of bounds. The range counts from the newest entry.
\<close>

definition manager_drain ::
  "nat \<Rightarrow> nat \<Rightarrow> 't buffer_manager \<Rightarrow> ('t buffer_manager \<times> 't list) option" where
  "manager_drain lower upper self =
     (case manager_queue self of
        None \<Rightarrow> Some (self, [])
      | Some q \<Rightarrow>
          (if lower \<le> upper \<and> upper \<le> length q
           then Some (set_queue (take lower q @ drop upper q) self,
                  rev (map be_message (take (upper - lower) (drop lower q))))
           else None))"

subsection \<open>The abstract buffer\<close>

text \<open>
  \<open>retain policy v xs\<close>: the contents (oldest first) after pushing \<open>v\<close> and the message that is
  given up, as the documentation of \<open>RetentionPolicy\<close> describes it.
\<close>

fun retain :: "retention_policy \<Rightarrow> 'v \<Rightarrow> 'v list \<Rightarrow> 'v list \<times> 'v option" where
  "retain (KeepLast n) v xs =
     (if n = 0 then (xs, Some v)
      else if length xs \<ge> n then (tl xs @ [v], first_entry xs)
      else (xs @ [v], None))"
| "retain (KeepFirst n) v xs =
     (if length xs \<ge> n then (xs, Some v) else (xs @ [v], None))"
| "retain KeepAll v xs = (xs @ [v], None)"

fun within_limit :: "retention_policy \<Rightarrow> nat \<Rightarrow> bool" where
  "within_limit (KeepLast n) len \<longleftrightarrow> len \<le> n"
| "within_limit (KeepFirst n) len \<longleftrightarrow> len \<le> n"
| "within_limit KeepAll len \<longleftrightarrow> True"

text \<open>What is left of the contents \<open>xs\<close> and further messages \<open>vs\<close> once all are pushed.\<close>

fun retained :: "retention_policy \<Rightarrow> 'v list \<Rightarrow> 'v list" where
  "retained (KeepLast n) xs = drop (length xs - n) xs"
| "retained (KeepFirst n) xs = take n xs"
| "retained KeepAll xs = xs"

lemma retain_conserves:
  "mset (fst (retain policy v xs)) + mset (case snd (retain policy v xs) of None \<Rightarrow> [] | Some r \<Rightarrow> [r])
     = mset xs + {#v#}"
  by (cases policy; cases xs) (auto simp: first_entry_def)

lemma retain_within_limit:
  "within_limit policy (length xs) \<Longrightarrow> within_limit policy (length (fst (retain policy v xs)))"
  by (cases policy) auto

lemma retain_retained:
  assumes "within_limit policy (length xs)"
  shows "fst (retain policy v xs) = retained policy (xs @ [v])"
proof (cases policy)
  case (KeepLast n)
  show ?thesis
  proof (cases "length xs = n")
    case True
    then show ?thesis using KeepLast by (cases xs) auto
  next
    case False
    then show ?thesis using KeepLast assms by simp
  qed
qed (use assms in auto)

lemma retained_append:
  "retained policy (retained policy xs @ ys) = retained policy (xs @ ys)"
proof (cases policy)
  case (KeepLast n)
  show ?thesis
  proof (cases "length xs \<le> n")
    case True
    then show ?thesis using KeepLast by simp
  next
    case False
    then have "length (drop (length xs - n) xs @ ys) - n = length ys" by simp
    then show ?thesis using KeepLast False by (simp add: add.commute)
  qed
next
  case (KeepFirst n)
  then show ?thesis by (simp add: take_append min_def)
qed simp

lemma retained_within: "within_limit policy (length xs) \<Longrightarrow> retained policy xs = xs"
  by (cases policy) auto

subsection \<open>The contract of a retention queue\<close>

locale retention_queue =
  fixes view :: "'s \<Rightarrow> 'v list"
    and push :: "'v \<Rightarrow> 's \<Rightarrow> 's \<times> 'v option"
    and pull :: "'s \<Rightarrow> 's \<times> 'v option"
    and policy :: "'s \<Rightarrow> retention_policy"
    and wf :: "'s \<Rightarrow> bool"
  assumes push_refines: "wf s \<Longrightarrow> push v s = (s', r) \<Longrightarrow>
      wf s' \<and> policy s' = policy s \<and> (view s', r) = retain (policy s) v (view s)"
    and pull_refines: "wf s \<Longrightarrow> pull s = (s', r) \<Longrightarrow>
      wf s' \<and> policy s' = policy s \<and> view s' = tl (view s) \<and> r = first_entry (view s)"
begin

definition push_all :: "'v list \<Rightarrow> 's \<Rightarrow> 's" where
  "push_all vs s = fold (\<lambda>v s. fst (push v s)) vs s"

definition bounded :: "'s \<Rightarrow> bool" where
  "bounded s \<longleftrightarrow> wf s \<and> within_limit (policy s) (length (view s))"

lemma push_bounded:
  assumes "bounded s" and "push v s = (s', r)"
  shows "bounded s'"
proof -
  have "view s' = fst (retain (policy s) v (view s))" "wf s'" "policy s' = policy s"
    using push_refines [of s v s' r] assms by (auto simp: bounded_def dest: arg_cong [where f = fst])
  then show ?thesis using assms(1) retain_within_limit by (auto simp: bounded_def)
qed

lemma pull_bounded:
  assumes "bounded s" and "pull s = (s', r)"
  shows "bounded s'"
  using pull_refines [of s s' r] assms
  by (cases "policy s") (auto simp: bounded_def)

lemma push_conserves:
  assumes "wf s" and "push v s = (s', r)"
  shows "mset (view s') + mset (case r of None \<Rightarrow> [] | Some x \<Rightarrow> [x]) = mset (view s) + {#v#}"
proof -
  have "view s' = fst (retain (policy s) v (view s))" "r = snd (retain (policy s) v (view s))"
    using push_refines [OF assms] by (metis fst_conv, metis snd_conv)
  then show ?thesis using retain_conserves [of "policy s" v "view s"] by simp
qed

lemma push_all_view:
  assumes "bounded s"
  shows "bounded (push_all vs s) \<and> policy (push_all vs s) = policy s
    \<and> view (push_all vs s) = retained (policy s) (view s @ vs)"
  using assms
proof (induction vs arbitrary: s)
  case Nil
  then show ?case by (auto simp: push_all_def bounded_def retained_within)
next
  case (Cons v vs)
  obtain s' r where s': "push v s = (s', r)" by fastforce
  have step: "policy s' = policy s" "(view s', r) = retain (policy s) v (view s)"
    using push_refines [OF _ s'] Cons.prems by (auto simp: bounded_def)
  then have "view s' = fst (retain (policy s) v (view s))" by (metis fst_conv)
  then have view: "view s' = retained (policy s) (view s @ [v])"
    using Cons.prems retain_retained by (auto simp: bounded_def)
  have "push_all (v # vs) s = push_all vs s'" by (simp add: push_all_def s')
  then show ?case
    using Cons.IH [OF push_bounded [OF Cons.prems s']] step(1) view
    by (simp add: retained_append)
qed

text \<open>Messages come out in the order in which they went in.\<close>

primrec pull_all :: "nat \<Rightarrow> 's \<Rightarrow> 'v option list" where
  "pull_all 0 s = []"
| "pull_all (Suc n) s = snd (pull s) # pull_all n (fst (pull s))"

lemma pull_all_view:
  assumes "wf s" and "n \<le> length (view s)"
  shows "pull_all n s = map Some (take n (view s))"
  using assms
proof (induction n arbitrary: s)
  case (Suc n)
  obtain s' r where s': "pull s = (s', r)" by fastforce
  from pull_refines [OF Suc.prems(1) s'] Suc.IH [of s'] Suc.prems(2)
  show ?case by (cases "view s") (auto simp: s' first_entry_def)
qed simp

lemma push_pull_fifo:
  assumes "bounded s" and "view s = []"
  shows "pull_all (length (retained (policy s) vs)) (push_all vs s)
    = map Some (retained (policy s) vs)"
  using push_all_view [OF assms(1), of vs] pull_all_view [of "push_all vs s"] assms(2)
  by (simp add: bounded_def)

end

subsection \<open>The manager refines the abstract buffer\<close>

definition manager_active :: "'t buffer_manager \<Rightarrow> bool" where
  "manager_active self \<longleftrightarrow> manager_queue self \<noteq> None"

lemma manager_iter_queue:
  "manager_iter self = (case manager_queue self of Some q \<Rightarrow> rev (map be_message q) | None \<Rightarrow> [])"
  by (simp add: manager_iter_def storage_iter_def manager_queue_def)

lemma set_queue_simps [simp]:
  "manager_queue (set_queue q self) = Some q"
  "manager_retention (set_queue q self) = manager_retention self"
  "manager_active (set_queue q self)"
  "manager_iter (set_queue q self) = rev (map be_message q)"
  "bm_sequence (set_queue q self) = bm_sequence self"
  "bm_session (set_queue q self) = bm_session self"
  by (simp_all add: manager_queue_def set_queue_def manager_retention_def manager_active_def
      manager_iter_queue)

lemma increment_seq_simps [simp]:
  "manager_queue (self\<lparr>bm_sequence := n\<rparr>) = manager_queue self"
  "manager_retention (self\<lparr>bm_sequence := n\<rparr>) = manager_retention self"
  by (simp_all add: manager_queue_def manager_retention_def)

lemma last_entry_rev: "first_entry (rev q) = last_entry q"
  by (cases q rule: rev_cases) (simp_all add: first_entry_def last_entry_def)

lemma first_entry_map: "first_entry (map f q) = map_option f (first_entry q)"
  by (cases q) (simp_all add: first_entry_def)

lemma tl_rev: "tl (rev q) = rev (butlast q)"
  by (cases q rule: rev_cases) simp_all

lemma impl_push_refines:
  assumes "impl_push q policy seq v = (q', removed)"
  shows "(rev (map be_message q'), map_option be_message removed) = retain policy v (rev (map be_message q))"
  using assms
  by (cases policy)
    (auto simp: impl_push_def Let_def rev_map first_entry_map last_entry_rev tl_rev map_butlast
      split: if_splits simp flip: map_tl)

lemma manager_push_active:
  assumes "manager_queue self = Some q"
  shows "manager_push v self =
    (let (q', removed) = impl_push q (manager_retention self) (bm_sequence self) v
     in (set_queue q' (self\<lparr>bm_sequence := bm_sequence self + 1\<rparr>), map_option be_message removed))"
  using assms by (simp add: manager_push_def increment_seq_def)

lemma manager_push_refines:
  assumes "manager_active self" and "manager_push v self = (self', r)"
  shows "manager_active self' \<and> manager_retention self' = manager_retention self
    \<and> (manager_iter self', r) = retain (manager_retention self) v (manager_iter self)"
proof -
  obtain q where q: "manager_queue self = Some q" using assms(1) by (auto simp: manager_active_def)
  obtain q' removed where p: "impl_push q (manager_retention self) (bm_sequence self) v = (q', removed)"
    by fastforce
  then show ?thesis
    using assms(2) impl_push_refines [OF p] by (auto simp: manager_push_active [OF q] manager_iter_queue q)
qed

lemma manager_pull_refines:
  assumes "manager_active self" and "manager_pull self = (self', r)"
  shows "manager_active self' \<and> manager_retention self' = manager_retention self
    \<and> manager_iter self' = tl (manager_iter self) \<and> r = first_entry (manager_iter self)"
proof -
  obtain q where "manager_queue self = Some q" using assms(1) by (auto simp: manager_active_def)
  then show ?thesis
    using assms(2)
    by (auto simp: manager_pull_def manager_iter_queue rev_map first_entry_map last_entry_rev tl_rev
        simp flip: map_tl)
qed

interpretation manager: retention_queue manager_iter manager_push manager_pull manager_retention
  manager_active
  by unfold_locales (blast dest: manager_push_refines manager_pull_refines)+

subsection \<open>Reading the contents\<close>

lemma rev_map_nth:
  "i < length q \<Longrightarrow> be_message (q ! (length q - i - 1)) = rev (map be_message q) ! i"
  by (simp add: rev_nth)

lemma manager_reads:
  "manager_len self = length (manager_iter self)"
  "manager_get i self = (if i < length (manager_iter self) then Some (manager_iter self ! i) else None)"
  "manager_oldest self = first_entry (manager_iter self)"
  "manager_newest self = last_entry (manager_iter self)"
proof -
  let ?m = "hm_get (bst_reverse_queues (bm_storage self)) (bm_session self)"
  show "manager_len self = length (manager_iter self)"
    by (cases ?m) (simp_all add: manager_len_def storage_count_def manager_iter_def storage_iter_def)
  show "manager_get i self = (if i < length (manager_iter self) then Some (manager_iter self ! i) else None)"
    by (cases ?m) (auto simp: manager_get_def storage_get_def manager_iter_def storage_iter_def
        Let_def rev_nth)
  show "manager_oldest self = first_entry (manager_iter self)"
    by (cases ?m) (auto simp: manager_oldest_def storage_oldest_def manager_iter_def storage_iter_def
        rev_map first_entry_map last_entry_rev, simp add: first_entry_def)
  show "manager_newest self = last_entry (manager_iter self)"
  proof (cases ?m)
    case None
    then show ?thesis
      by (simp add: manager_newest_def storage_newest_def manager_iter_def storage_iter_def last_entry_def)
  next
    case (Some q)
    then show ?thesis
      by (cases q) (simp_all add: manager_newest_def storage_newest_def manager_iter_def
          storage_iter_def first_entry_def last_entry_def)
  qed
qed

subsection \<open>Modifying entries\<close>

lemma rev_update: "i < length xs \<Longrightarrow> rev (xs[i := y]) = (rev xs)[length xs - i - 1 := y]"
  by (simp add: rev_update)

lemma modify_at_view:
  "i < length q \<Longrightarrow> rev (map be_message (modify_at i f q)) =
     (let xs = rev (map be_message q); j = length q - i - 1 in xs[j := f (xs ! j)])"
  by (simp add: modify_at_def modify_entry_def map_update rev_update rev_nth Let_def Suc_diff_Suc)

lemma get_mut_view:
  "get_mut i f self = (self', found) \<Longrightarrow>
     found = (i < length (manager_iter self))
     \<and> manager_iter self' = (if found then (manager_iter self)[i := f (manager_iter self ! i)]
         else manager_iter self)"
  by (auto simp: get_mut_def manager_iter_queue Let_def modify_at_view Suc_diff_Suc
      split: option.splits if_splits)

lemma oldest_mut_view:
  "oldest_mut f self = (self', found) \<Longrightarrow>
     found = (manager_iter self \<noteq> [])
     \<and> manager_iter self' = (case manager_iter self of [] \<Rightarrow> [] | x # xs \<Rightarrow> f x # xs)"
proof (cases "manager_queue self")
  case (Some q)
  then show "oldest_mut f self = (self', found) \<Longrightarrow> ?thesis"
    by (cases q rule: rev_cases) (auto simp: oldest_mut_def manager_iter_queue modify_at_def
        modify_entry_def list_update_append)
qed (auto simp: oldest_mut_def manager_iter_queue)

subsection \<open>Isolation of sessions\<close>

definition other_queues :: "entity \<Rightarrow> 't buffer_manager \<Rightarrow> 't buffer_entry list option" where
  "other_queues session self = hm_get (bst_reverse_queues (bm_storage self)) session"

lemma set_queue_other:
  "session \<noteq> bm_session self \<Longrightarrow> other_queues session (set_queue q self) = other_queues session self"
  by (simp add: other_queues_def set_queue_def)

lemma other_queues_seq [simp]: "other_queues session (self\<lparr>bm_sequence := n\<rparr>) = other_queues session self"
  by (simp add: other_queues_def)

lemma push_pull_other:
  assumes "session \<noteq> bm_session self"
  shows "other_queues session (fst (manager_push v self)) = other_queues session self"
    and "other_queues session (fst (force_push v self)) = other_queues session self"
    and "other_queues session (fst (manager_pull self)) = other_queues session self"
    and "other_queues session (fst (pull_newest self)) = other_queues session self"
    and "other_queues session (fst (push_as_oldest v self)) = other_queues session self"
  using assms
  by (auto simp: manager_push_def force_push_def manager_pull_def pull_newest_def push_as_oldest_def
      increment_seq_def set_queue_other Let_def split: option.split prod.split retention_policy.split)

lemma inactive_push: "\<not> manager_active self \<Longrightarrow> manager_push v self = (self, Some v)"
  by (simp add: manager_active_def manager_push_def)

lemma force_push_view:
  assumes "force_push v self = (self', r)"
  shows "manager_active self' \<and> (manager_iter self', r) = retain (manager_retention self) v (manager_iter self)"
proof -
  let ?q = "case manager_queue self of Some q \<Rightarrow> q | None \<Rightarrow> []"
  obtain q' removed where p: "impl_push ?q (manager_retention self) (bm_sequence self) v = (q', removed)"
    by fastforce
  have "manager_iter self = rev (map be_message ?q)" by (simp add: manager_iter_queue split: option.split)
  then show ?thesis
    using assms p impl_push_refines [OF p] by (auto simp: force_push_def increment_seq_def Let_def)
qed

lemma push_as_oldest_unlimited:
  assumes "manager_active self" and "manager_retention self = KeepFirst 0"
  shows "manager_active (fst (push_as_oldest v self)) \<and> manager_retention (fst (push_as_oldest v self)) = KeepFirst 0
    \<and> manager_iter (fst (push_as_oldest v self)) = v # manager_iter self \<and> snd (push_as_oldest v self) = None"
  using assms
  by (auto simp: push_as_oldest_def manager_active_def increment_seq_def manager_iter_queue
      split: option.splits)

subsection \<open>Properties\<close>

text \<open>C7: a buffer holds what its retention policy promises. After any sequence of pushes into an active
  session it holds all messages (\<open>KeepAll\<close>), the last \<open>n\<close> (\<open>KeepLast n\<close>) or the first \<open>n\<close>
  (\<open>KeepFirst n\<close>) of its old contents followed by the pushed messages, in order.\<close>

theorem pushes_are_retained:
  assumes "manager_active m" and "within_limit (manager_retention m) (length (manager_iter m))"
  shows "manager_iter (fold (\<lambda>v m. fst (manager_push v m)) vs m) =
    retained (manager_retention m) (manager_iter m @ vs)"
  using manager.push_all_view [of m vs] assms
  by (simp add: manager.bounded_def manager.push_all_def)

definition demo_manager :: "retention_policy \<Rightarrow> nat list \<Rightarrow> nat buffer_manager" where
  "demo_manager policy contents =
     \<lparr>bm_storage = \<lparr>bst_settings = \<lparr>bs_retention = policy\<rparr>,
        bst_reverse_queues = [(7, map (\<lambda>v. \<lparr>be_seq = 0, be_message = v\<rparr>) (rev contents))]\<rparr>,
      bm_sequence = 0, bm_session = 7\<rparr>"

lemma demo_manager_active: "manager_active (demo_manager policy contents)"
  "manager_retention (demo_manager policy contents) = policy"
  "manager_iter (demo_manager policy contents) = contents"
  by (simp_all add: demo_manager_def manager_active_def manager_queue_def manager_retention_def
      manager_iter_def storage_iter_def rev_map o_def)

lemma pushes_are_retained_witness:
  "manager_iter (fold (\<lambda>v m. fst (manager_push v m)) [4, 5] (demo_manager (KeepLast 3) [1, 2])) = [2, 4, 5]"
  using pushes_are_retained [of "demo_manager (KeepLast 3) [1, 2]" "[4, 5]"]
  by (simp add: demo_manager_active)

text \<open>No message disappears silently: the contents after a push and the message that the push returns
  are together the contents before the push and the pushed message.\<close>

theorem push_loses_nothing:
  assumes "manager_active m" and "manager_push v m = (m', r)"
  shows "mset (manager_iter m') + mset (case r of None \<Rightarrow> [] | Some x \<Rightarrow> [x]) = mset (manager_iter m) + {#v#}"
  using assms by (rule manager.push_conserves)

lemma push_loses_nothing_witness:
  "mset (manager_iter (fst (manager_push 9 (demo_manager (KeepLast 1) [8]))))
     + mset (case snd (manager_push 9 (demo_manager (KeepLast 1) [8])) of None \<Rightarrow> [] | Some x \<Rightarrow> [x])
   = mset (manager_iter (demo_manager (KeepLast 1) [8])) + {#9#}"
  by (rule push_loses_nothing [OF demo_manager_active(1) prod.collapse [symmetric]])

primrec manager_pulls :: "nat \<Rightarrow> 't buffer_manager \<Rightarrow> 't option list" where
  "manager_pulls 0 m = []"
| "manager_pulls (Suc n) m = snd (manager_pull m) # manager_pulls n (fst (manager_pull m))"

lemma manager_pulls_all: "manager_pulls n m = manager.pull_all n m"
  by (induction n arbitrary: m) simp_all

text \<open>C32: a buffer is first-in, first-out: pulling \<open>n\<close> times returns the \<open>n\<close> oldest messages in order, and
  the reads by position (\<open>len\<close>, \<open>get\<close>, \<open>oldest\<close>, \<open>newest\<close>) agree with the iteration order.\<close>

theorem pulls_are_fifo:
  assumes "manager_active m" and "n \<le> length (manager_iter m)"
  shows "manager_pulls n m = map Some (take n (manager_iter m))
    \<and> manager_len m = length (manager_iter m)
    \<and> (\<forall>i. manager_get i m = (if i < length (manager_iter m) then Some (manager_iter m ! i) else None))
    \<and> manager_oldest m = first_entry (manager_iter m) \<and> manager_newest m = last_entry (manager_iter m)"
  using manager.pull_all_view [OF assms] manager_reads [where self = m] by (simp add: manager_pulls_all)

lemma pulls_are_fifo_witness:
  "manager_pulls 2 (demo_manager KeepAll [1, 2, 3]) = [Some 1, Some 2]"
  using pulls_are_fifo [of "demo_manager KeepAll [1, 2, 3]" 2]
  by (simp add: demo_manager_active numeral_2_eq_2)

text \<open>The range of \<open>drain\<close> counts from the newest message: \<open>drain lower upper\<close> returns and removes the
  positions \<open>len - upper\<close> to \<open>len - lower\<close> of the iteration, oldest first, while \<open>get 0\<close> is the oldest.
  It panics exactly when the range is out of bounds.\<close>

theorem drain_counts_from_newest:
  assumes "manager_active m"
  defines "xs \<equiv> manager_iter m"
  shows "(case manager_drain lower upper m of
      Some (m', drained) \<Rightarrow> lower \<le> upper \<and> upper \<le> length xs
        \<and> drained = take (upper - lower) (drop (length xs - upper) xs)
        \<and> manager_iter m' = take (length xs - upper) xs @ drop (length xs - lower) xs
    | None \<Rightarrow> \<not> (lower \<le> upper \<and> upper \<le> length xs))"
proof -
  obtain q where q: "manager_queue m = Some q" using assms(1) by (auto simp: manager_active_def)
  have xs: "xs = map be_message (rev q)" by (simp add: xs_def manager_iter_queue q rev_map)
  have "rev (take (upper - lower) (drop lower q)) = take (upper - lower) (drop (length q - upper) (rev q))"
    if "lower \<le> upper" "upper \<le> length q"
  proof -
    have "rev (take (upper - lower) (drop lower q)) = drop (length q - upper) (take (length q - lower) (rev q))"
      using that by (simp add: rev_take rev_drop)
    then show ?thesis using that by (simp add: take_drop add.commute)
  qed
  then show ?thesis
    by (auto simp: manager_drain_def q xs rev_map take_map drop_map rev_take rev_drop map_append)
qed

lemma drain_counts_from_newest_witness:
  "map_option snd (manager_drain 0 1 (demo_manager KeepAll [1, 2, 3])) = Some [3]"
proof -
  have "manager_drain 0 1 (demo_manager KeepAll [1, 2, 3]) \<noteq> None"
    by (simp add: manager_drain_def demo_manager_def manager_queue_def)
  then show ?thesis
    using drain_counts_from_newest [of "demo_manager KeepAll [1, 2, 3]" 0 1]
    by (auto simp: demo_manager_active)
qed

text \<open>The sessions of a buffer are isolated: no operation of a manager changes the queue of another
  session.\<close>

theorem sessions_are_isolated:
  assumes "session \<noteq> bm_session m"
  shows "other_queues session (fst (manager_push v m)) = other_queues session m
    \<and> other_queues session (fst (force_push v m)) = other_queues session m
    \<and> other_queues session (fst (push_as_oldest v m)) = other_queues session m
    \<and> other_queues session (fst (manager_pull m)) = other_queues session m
    \<and> other_queues session (fst (pull_newest m)) = other_queues session m"
  using push_pull_other [OF assms] by blast

lemma sessions_are_isolated_witness:
  "other_queues 8 (fst (manager_push 5 (demo_manager (KeepLast 1) [4]))) = None"
  using sessions_are_isolated [of 8 "demo_manager (KeepLast 1) [4]" 5]
  by (simp add: demo_manager_def other_queues_def)

text \<open>\<open>push_as_oldest\<close> ignores the policy \<open>KeepFirst 0\<close>: although that policy keeps nothing, every
  message is stored, so the buffer grows without bound.\<close>

theorem push_as_oldest_exceeds_limit:
  assumes "manager_active m" and "manager_retention m = KeepFirst 0"
  shows "manager_iter (fold (\<lambda>v m. fst (push_as_oldest v m)) vs m) = rev vs @ manager_iter m"
  using assms
proof (induction vs arbitrary: m)
  case (Cons v vs)
  then show ?case using push_as_oldest_unlimited [of m v] by simp
qed simp

lemma push_as_oldest_exceeds_limit_witness:
  "manager_iter (fold (\<lambda>v m. fst (push_as_oldest v m)) [1, 2] (demo_manager (KeepFirst 0) [])) = [2, 1]"
  using push_as_oldest_exceeds_limit [of "demo_manager (KeepFirst 0) []" "[1, 2]"]
  by (simp add: demo_manager_active)

end
