(* ===== verification/Inputs.thy ===== *)
theory Inputs
  imports Prelude BufferStore
begin

text \<open>
  Passing messages to operations, \<open>src/src/input.rs\<close>: \<open>InputStorage\<close> and the methods of
  \<open>ManageInput\<close>, with the parts of the ECS world and of the \<open>OperationRoster\<close> (\<open>src/src/operation.rs\<close>)
  that they read and write.

  \<^item> The world holds, for each entity, the components these methods look at. All messages of the
    model have one type \<open>'t\<close>; an entity without an input storage stands for one that expects
    another type as well.
  \<^item> \<open>finalize_series_cancel\<close> (\<open>src/src/series/internal.rs\<close>) calls a callback that the last
    operation of the series stores and despawns the session; here the call is recorded in
    \<open>mw_cancelled\<close> and the status of the session is removed.
  \<^item> Input is taken here as in a build without the feature \<open>trace\<close>, or with it while no debugging is
    active. An active debugger can hold messages back; \<open>Debugger\<close> holds that branch of
    \<open>try_take_input\<close>.
\<close>

subsection \<open>Requests and routes\<close>

record request_id =
  rq_session :: entity
  rq_source :: entity
  rq_seq :: seq

datatype operation_error = Broken | NotReady

record 'c dropped =
  dr_stop_at :: entity
  dr_cancellation :: 'c

datatype 'c session_status = Active | Cleaning | Dropped "'c dropped"

fun is_active :: "'c session_status \<Rightarrow> bool" where
  "is_active Active = True"
| "is_active _ = False"

fun is_cleaning :: "'c session_status \<Rightarrow> bool" where
  "is_cleaning Cleaning = True"
| "is_cleaning _ = False"

fun status_cancellation :: "'c session_status \<Rightarrow> 'c option" where
  "status_cancellation (Dropped d) = Some (dr_cancellation d)"
| "status_cancellation _ = None"

record route_target =
  rt_session :: entity
  rt_target :: entity

subsection \<open>Input storage\<close>

record 't op_input =
  in_session :: entity
  in_seq :: seq
  in_data :: 't

record 't input_storage =
  ins_reverse_queue :: "'t op_input list"
  ins_sequence :: seq

definition input_storage_new :: "'t input_storage" where
  "input_storage_new = \<lparr>ins_reverse_queue = [], ins_sequence = 0\<rparr>"

definition contains_session :: "entity \<Rightarrow> 't input_storage \<Rightarrow> bool" where
  "contains_session session self = list_ex (\<lambda>i. in_session i = session) (ins_reverse_queue self)"

definition input_increment_seq :: "'t input_storage \<Rightarrow> seq \<times> 't input_storage" where
  "input_increment_seq self = (ins_sequence self, self\<lparr>ins_sequence := ins_sequence self + 1\<rparr>)"

definition input_push :: "entity \<Rightarrow> 't \<Rightarrow> 't input_storage \<Rightarrow> seq \<times> 't input_storage" where
  "input_push session data self =
     (let (seq, self) = input_increment_seq self
      in (seq, self\<lparr>ins_reverse_queue :=
            \<lparr>in_session = session, in_seq = seq, in_data = data\<rparr> # ins_reverse_queue self\<rparr>))"

definition input_pop :: "'t input_storage \<Rightarrow> 't op_input option \<times> 't input_storage" where
  "input_pop self =
     (last_entry (ins_reverse_queue self),
      self\<lparr>ins_reverse_queue := butlast (ins_reverse_queue self)\<rparr>)"

subsection \<open>World and roster\<close>

record ('t, 'c) message_world =
  mw_inputs :: "entity \<Rightarrow> 't input_storage option"
  mw_unused_target :: "entity \<Rightarrow> bool"
  mw_detached :: "entity \<Rightarrow> bool option"
  mw_status :: "entity \<Rightarrow> 'c session_status option"
  mw_progress :: "entity \<Rightarrow> entity option option"
  mw_cancelled :: "(entity \<times> 'c) list"
  mw_mismatches :: "entity list"

record roster =
  ro_queue :: "entity list"
  ro_awake :: "entity list"
  ro_deferred_queue :: "entity list"
  ro_deferred_session_despawn :: "entity list"

definition empty_roster :: roster where
  "empty_roster = \<lparr>ro_queue = [], ro_awake = [], ro_deferred_queue = [], ro_deferred_session_despawn = []\<rparr>"

definition roster_queue :: "entity \<Rightarrow> roster \<Rightarrow> roster" where
  "roster_queue source self = self\<lparr>ro_queue := ro_queue self @ [source]\<rparr>"

definition roster_defer :: "entity \<Rightarrow> roster \<Rightarrow> roster" where
  "roster_defer source self = self\<lparr>ro_deferred_queue := ro_deferred_queue self @ [source]\<rparr>"

definition roster_defer_despawn_session :: "entity \<Rightarrow> roster \<Rightarrow> roster" where
  "roster_defer_despawn_session session self =
     self\<lparr>ro_deferred_session_despawn := ro_deferred_session_despawn self @ [session]\<rparr>"

definition finalize_series_cancel ::
  "entity \<Rightarrow> 'c \<Rightarrow> ('t, 'c) message_world \<Rightarrow> ('t, 'c) message_world" where
  "finalize_series_cancel session cancellation w =
     w\<lparr>mw_cancelled := mw_cancelled w @ [(session, cancellation)],
       mw_status := (mw_status w)(session := None)\<rparr>"

subsection \<open>Giving input\<close>

text \<open>
  \<open>deliver_input\<close> is \<open>sneak_input\<close> after its test of the session: progress of a series, then the
  push into the storage of the target or the reason why there is none.
\<close>

definition deliver_input ::
  "route_target \<Rightarrow> 't \<Rightarrow> ('t, 'c) message_world \<Rightarrow> roster
     \<Rightarrow> ('t, 'c) message_world \<times> roster \<times> (operation_error + bool)" where
  "deliver_input route data w roster =
     (let session = rt_session route;
          target = rt_target route;
          w = (case mw_progress w session of
                 Some _ \<Rightarrow> w\<lparr>mw_progress := (mw_progress w)(session := Some (Some target))\<rparr>
               | None \<Rightarrow> w)
      in case mw_inputs w target of
           Some storage \<Rightarrow>
             let (_, storage) = input_push session data storage
             in (w\<lparr>mw_inputs := (mw_inputs w)(target := Some storage)\<rparr>, roster, Inr True)
         | None \<Rightarrow>
             if mw_unused_target w target then (w, roster, Inr True)
             else if mw_detached w target = Some True
             then (w, roster_defer_despawn_session session roster, Inr False)
             else (w\<lparr>mw_mismatches := mw_mismatches w @ [target]\<rparr>, roster, Inl Broken))"

definition sneak_input ::
  "route_target \<Rightarrow> 't \<Rightarrow> bool \<Rightarrow> ('t, 'c) message_world \<Rightarrow> roster
     \<Rightarrow> ('t, 'c) message_world \<times> roster \<times> (operation_error + bool)" where
  "sneak_input route data only_if_active w roster =
     (if \<not> only_if_active then deliver_input route data w roster
      else case mw_status w (rt_session route) of
             None \<Rightarrow> (w, roster, Inr False)
           | Some (Dropped d) \<Rightarrow>
               if dr_stop_at d = rt_target route
               then (finalize_series_cancel (rt_session route) (dr_cancellation d) w, roster, Inr False)
               else deliver_input route data w roster
           | Some status \<Rightarrow>
               if \<not> is_active status then (w, roster, Inr False)
               else deliver_input route data w roster)"

definition wake_if ::
  "(roster \<Rightarrow> roster) \<Rightarrow> ('t, 'c) message_world \<times> roster \<times> (operation_error + bool)
     \<Rightarrow> ('t, 'c) message_world \<times> roster \<times> (operation_error + unit)" where
  "wake_if wake = (\<lambda>(w, roster, r).
     case r of
       Inl e \<Rightarrow> (w, roster, Inl e)
     | Inr True \<Rightarrow> (w, wake roster, Inr ())
     | Inr False \<Rightarrow> (w, roster, Inr ()))"

definition give_input ::
  "route_target \<Rightarrow> 't \<Rightarrow> ('t, 'c) message_world \<Rightarrow> roster
     \<Rightarrow> ('t, 'c) message_world \<times> roster \<times> (operation_error + unit)" where
  "give_input route data w roster =
     wake_if (roster_queue (rt_target route)) (sneak_input route data True w roster)"

definition defer_input ::
  "route_target \<Rightarrow> 't \<Rightarrow> ('t, 'c) message_world \<Rightarrow> roster
     \<Rightarrow> ('t, 'c) message_world \<times> roster \<times> (operation_error + unit)" where
  "defer_input route data w roster =
     wake_if (roster_defer (rt_target route)) (sneak_input route data True w roster)"

subsection \<open>Taking input\<close>

text \<open>The branches without a debugger and with an inactive one, which are the same.\<close>

definition try_take_input ::
  "entity \<Rightarrow> ('t, 'c) message_world \<Rightarrow> ('t, 'c) message_world \<times> (operation_error + 't op_input option)" where
  "try_take_input source w =
     (case mw_inputs w source of
        None \<Rightarrow> (w, Inl Broken)
      | Some storage \<Rightarrow>
          let (input, storage) = input_pop storage
          in (w\<lparr>mw_inputs := (mw_inputs w)(source := Some storage)\<rparr>, Inr input))"

definition take_input ::
  "entity \<Rightarrow> ('t, 'c) message_world \<Rightarrow> ('t, 'c) message_world \<times> (operation_error + 't op_input)" where
  "take_input source w =
     (let (w, r) = try_take_input source w
      in (w, rbind r (\<lambda>input. ok_or input NotReady)))"

definition has_input :: "entity \<Rightarrow> entity \<Rightarrow> ('t, 'c) message_world \<Rightarrow> operation_error + bool" where
  "has_input source session w =
     rbind (ok_or (mw_inputs w source) Broken) (\<lambda>inputs. Inr (contains_session session inputs))"

definition increment_input_seq ::
  "entity \<Rightarrow> ('t, 'c) message_world \<Rightarrow> ('t, 'c) message_world \<times> (operation_error + seq)" where
  "increment_input_seq source w =
     (case mw_inputs w source of
        None \<Rightarrow> (w, Inl Broken)
      | Some storage \<Rightarrow>
          let (seq, storage) = input_increment_seq storage
          in (w\<lparr>mw_inputs := (mw_inputs w)(source := Some storage)\<rparr>, Inr seq))"

text \<open>\<open>cleanup_inputs\<close> of an operation that is not a buffer; for buffers see \<open>BufferNode\<close>.\<close>

definition drop_session_inputs :: "entity \<Rightarrow> 't input_storage \<Rightarrow> 't input_storage" where
  "drop_session_inputs session self =
     self\<lparr>ins_reverse_queue := filter (\<lambda>i. in_session i \<noteq> session) (ins_reverse_queue self)\<rparr>"

definition cleanup_inputs :: "entity \<Rightarrow> entity \<Rightarrow> ('t, 'c) message_world \<Rightarrow> ('t, 'c) message_world" where
  "cleanup_inputs source session w =
     (case mw_inputs w source of
        None \<Rightarrow> w
      | Some storage \<Rightarrow>
          w\<lparr>mw_inputs := (mw_inputs w)(source := Some (drop_session_inputs session storage))\<rparr>)"

subsection \<open>Pending messages\<close>

text \<open>The messages waiting at an operation, oldest first.\<close>

definition pending :: "entity \<Rightarrow> ('t, 'c) message_world \<Rightarrow> (entity \<times> 't) list" where
  "pending target w =
     (case mw_inputs w target of
        None \<Rightarrow> []
      | Some storage \<Rightarrow> rev (map (\<lambda>i. (in_session i, in_data i)) (ins_reverse_queue storage)))"

text \<open>
  An active session: the message is appended to the queue of its target, the target is woken, and
  nothing else that is waiting changes. A session that is being cleaned, or is gone, receives
  nothing and wakes nobody.
\<close>

lemma give_input_active:
  assumes "mw_status w session = Some Active" and "mw_inputs w target \<noteq> None"
    and "give_input \<lparr>rt_session = session, rt_target = target\<rparr> data w roster = (w', roster', r)"
  shows "r = Inr () \<and> ro_queue roster' = ro_queue roster @ [target]
    \<and> pending target w' = pending target w @ [(session, data)]
    \<and> (\<forall>other. other \<noteq> target \<longrightarrow> mw_inputs w' other = mw_inputs w other)"
  using assms
  by (auto simp: give_input_def sneak_input_def deliver_input_def wake_if_def input_push_def
      input_increment_seq_def pending_def roster_queue_def Let_def split: option.splits)

lemma give_input_inactive:
  assumes "mw_status w session = None \<or> mw_status w session = Some Cleaning"
  shows "give_input \<lparr>rt_session = session, rt_target = target\<rparr> data w roster = (w, roster, Inr ())"
  using assms by (auto simp: give_input_def sneak_input_def wake_if_def)

lemma give_input_stop:
  assumes "mw_status w session = Some (Dropped \<lparr>dr_stop_at = target, dr_cancellation = c\<rparr>)"
  shows "give_input \<lparr>rt_session = session, rt_target = target\<rparr> data w roster =
    (finalize_series_cancel session c w, roster, Inr ())"
  using assms by (simp add: give_input_def sneak_input_def wake_if_def)

lemma take_input_oldest:
  assumes "take_input source w = (w', r)"
  shows "case r of
      Inr input \<Rightarrow> pending source w = (in_session input, in_data input) # pending source w'
    | Inl NotReady \<Rightarrow> mw_inputs w source \<noteq> None \<and> pending source w = []
    | Inl Broken \<Rightarrow> mw_inputs w source = None"
proof (cases "mw_inputs w source")
  case (Some storage)
  then show ?thesis
    using assms
    by (cases "ins_reverse_queue storage" rule: rev_cases)
      (auto simp: take_input_def try_take_input_def input_pop_def last_entry_def pending_def Let_def)
qed (use assms in \<open>auto simp: take_input_def try_take_input_def Let_def\<close>)

lemma cleanup_inputs_pending:
  "pending source (cleanup_inputs source session w) =
     filter (\<lambda>(s, _). s \<noteq> session) (pending source w)"
  by (auto simp: cleanup_inputs_def pending_def drop_session_inputs_def filter_map o_def
      split: option.split simp flip: rev_filter)

subsection \<open>Properties\<close>

text \<open>C19: while a session is active, and no debugger is, messages that are given to an operation with an
  input storage are received first-in, first-out and neither lost nor duplicated. The message is
  appended to what waits at its target only, and the target is woken once; taking input from the
  target then returns the oldest message that waits there and removes it. (For a session that is not
  active the message is dropped, see \<open>give_input_inactive\<close>; for an active debugger see \<open>Debugger\<close>.)\<close>

theorem messages_are_fifo:
  assumes "mw_status w session = Some Active" and "mw_inputs w target \<noteq> None"
  shows "\<exists>w'. give_input \<lparr>rt_session = session, rt_target = target\<rparr> data w roster =
        (w', roster_queue target roster, Inr ())
      \<and> (\<forall>t. pending t w' = pending t w @ (if t = target then [(session, data)] else []))
      \<and> (\<exists>w'' input. take_input target w' = (w'', Inr input)
          \<and> (in_session input, in_data input) # pending target w'' = pending target w @ [(session, data)])"
proof -
  obtain w' roster' r where g:
    "give_input \<lparr>rt_session = session, rt_target = target\<rparr> data w roster = (w', roster', r)"
    by (metis prod_cases3)
  then have r: "r = Inr ()" "roster' = roster_queue target roster"
    using assms by (auto simp: give_input_def sneak_input_def deliver_input_def wake_if_def
        input_push_def input_increment_seq_def Let_def split: option.splits)
  note act = give_input_active [OF assms g]
  have p: "pending t w' = pending t w @ (if t = target then [(session, data)] else [])" for t
    using act by (cases "t = target") (simp_all add: pending_def)
  obtain w'' x where t: "take_input target w' = (w'', x)" by fastforce
  have "\<exists>input. x = Inr input"
    using take_input_oldest [OF t] p [of target] by (cases x) (auto simp: pending_def split: operation_error.splits)
  then show ?thesis using g r p t take_input_oldest [OF t] by fastforce
qed

definition demo_world :: "(nat, nat) message_world" where
  "demo_world =
     \<lparr>mw_inputs = (\<lambda>e. if e = 3 then Some input_storage_new else None),
      mw_unused_target = (\<lambda>_. False), mw_detached = (\<lambda>_. None), mw_status = (\<lambda>s. if s = 7 then Some Active else None),
      mw_progress = (\<lambda>_. None), mw_cancelled = [], mw_mismatches = []\<rparr>"

lemma messages_are_fifo_witness:
  "\<exists>w'. give_input \<lparr>rt_session = 7, rt_target = 3\<rparr> 5 demo_world empty_roster =
      (w', roster_queue 3 empty_roster, Inr ()) \<and> pending 3 w' = [(7, 5)]"
  using messages_are_fifo [of demo_world 7 3 5 empty_roster]
  by (auto simp: demo_world_def pending_def input_storage_new_def)

end
