(* ===== verification/BufferNode.thy ===== *)
theory BufferNode
  imports Inputs
begin

text \<open>
  The buffer operation of a workflow: \<open>src/src/operation/operate_buffer.rs\<close> (execution, gates,
  notification of listeners), \<open>BufferMut\<close> of \<open>src/src/buffer.rs\<close>, \<open>src/src/buffer/buffer_gate.rs\<close>,
  \<open>src/src/gate.rs\<close>, \<open>src/src/buffer/inspect_buffer_sessions.rs\<close> and the buffer branch of
  \<open>cleanup_inputs\<close> in \<open>src/src/input.rs\<close>.

  The state is that of one buffer entity after \<open>setup\<close>, which inserts all of its components, with
  the messages for its listeners: their type is \<open>unit\<close>. Commands that the code queues while a
  \<open>BufferMut\<close> is alive are applied right after it is dropped, as \<open>SystemState::apply\<close> does.
\<close>

subsection \<open>State\<close>

datatype gate = Open | Closed

fun gate_is_open :: "gate \<Rightarrow> bool" where
  "gate_is_open Open = True"
| "gate_is_open Closed = False"

fun gate_is_closed :: "gate \<Rightarrow> bool" where
  "gate_is_closed Closed = True"
| "gate_is_closed Open = False"

record ('t, 'c) buffer_world =
  bw_storage :: "'t buffer_storage"
  bw_input :: "'t input_storage"
  bw_gates :: "(entity, gate) hmap"
  bw_listeners :: "entity list"
  bw_broadcast :: "(entity, seq) hmap"
  bw_messages :: "(unit, 'c) message_world"
  bw_deferred :: roster
  bw_broken :: "entity list"

definition gate_get :: "entity \<Rightarrow> ('t, 'c) buffer_world \<Rightarrow> gate" where
  "gate_get session w = (case hm_get (bw_gates w) session of Some g \<Rightarrow> g | None \<Rightarrow> Open)"

definition session_gate_closed :: "entity \<Rightarrow> ('t, 'c) buffer_world \<Rightarrow> bool" where
  "session_gate_closed session w = gate_is_closed (gate_get session w)"

subsection \<open>Notifying listeners\<close>

fun give_all ::
  "entity \<Rightarrow> entity list \<Rightarrow> (unit, 'c) message_world \<Rightarrow> roster
     \<Rightarrow> (unit, 'c) message_world \<times> roster \<times> (operation_error + unit)" where
  "give_all session [] w roster = (w, roster, Inr ())"
| "give_all session (target # targets) w roster =
     (let (w, roster, r) = give_input \<lparr>rt_session = session, rt_target = target\<rparr> () w roster
      in case r of
           Inl e \<Rightarrow> (w, roster, Inl e)
         | Inr _ \<Rightarrow> give_all session targets w roster)"

definition notify_listeners ::
  "entity \<Rightarrow> entity option \<Rightarrow> ('t, 'c) buffer_world \<Rightarrow> roster
     \<Rightarrow> ('t, 'c) buffer_world \<times> roster \<times> (operation_error + unit)" where
  "notify_listeners session accessor w roster =
     (let targets = filter (\<lambda>t. accessor \<noteq> Some t) (bw_listeners w);
          (mw, roster, r) = give_all session targets (bw_messages w) roster;
          w = w\<lparr>bw_messages := mw\<rparr>
      in case r of
           Inl e \<Rightarrow> (w, roster, Inl e)
         | Inr _ \<Rightarrow>
             (case hm_get (bw_broadcast w) session of
                Some n \<Rightarrow> (w\<lparr>bw_broadcast := hm_insert session (n + 1) (bw_broadcast w)\<rparr>, roster, Inr ())
              | None \<Rightarrow> (w, roster, Inr ())))"

record notify_buffer_update =
  nbu_buffer :: entity
  nbu_req :: request_id
  nbu_session :: entity
  nbu_accessor :: "entity option"

definition apply_notify :: "notify_buffer_update \<Rightarrow> ('t, 'c) buffer_world \<Rightarrow> ('t, 'c) buffer_world" where
  "apply_notify self w =
     (if session_gate_closed (rq_session (nbu_req self)) w then w
      else
        let (w, deferred, r) = notify_listeners (nbu_session self) (nbu_accessor self) w (bw_deferred w);
            w = w\<lparr>bw_deferred := deferred\<rparr>
        in case r of
             Inl Broken \<Rightarrow> w\<lparr>bw_broken := bw_broken w @ [nbu_buffer self]\<rparr>
           | _ \<Rightarrow> w)"

subsection \<open>Mutable access to a buffer\<close>

record 't buffer_mut =
  bmu_manager :: "'t buffer_manager"
  bmu_accessor :: "entity option"
  bmu_modified :: bool

definition modifying ::
  "('t buffer_manager \<Rightarrow> 't buffer_manager \<times> 'r) \<Rightarrow> 't buffer_mut \<Rightarrow> 't buffer_mut \<times> 'r" where
  "modifying f self =
     (let (m, r) = f (bmu_manager self)
      in (self\<lparr>bmu_manager := m, bmu_modified := True\<rparr>, r))"

definition allow_closed_loops :: "'t buffer_mut \<Rightarrow> 't buffer_mut" where
  "allow_closed_loops self = self\<lparr>bmu_accessor := None\<rparr>"

definition bmu_push :: "'t \<Rightarrow> 't buffer_mut \<Rightarrow> 't buffer_mut \<times> 't option" where
  "bmu_push v = modifying (manager_push v)"

definition bmu_push_as_oldest :: "'t \<Rightarrow> 't buffer_mut \<Rightarrow> 't buffer_mut \<times> 't option" where
  "bmu_push_as_oldest v = modifying (push_as_oldest v)"

definition bmu_force_push :: "'t \<Rightarrow> 't buffer_mut \<Rightarrow> 't buffer_mut \<times> 't option" where
  "bmu_force_push v = modifying (force_push v)"

definition bmu_pull :: "'t buffer_mut \<Rightarrow> 't buffer_mut \<times> 't option" where
  "bmu_pull = modifying manager_pull"

definition bmu_pull_newest :: "'t buffer_mut \<Rightarrow> 't buffer_mut \<times> 't option" where
  "bmu_pull_newest = modifying pull_newest"

definition bmu_get_mut :: "nat \<Rightarrow> ('t \<Rightarrow> 't) \<Rightarrow> 't buffer_mut \<Rightarrow> 't buffer_mut \<times> bool" where
  "bmu_get_mut i f = modifying (get_mut i f)"

definition bmu_pulse :: "'t buffer_mut \<Rightarrow> 't buffer_mut" where
  "bmu_pulse self = self\<lparr>bmu_modified := True\<rparr>"

text \<open>
  \<open>unchecked_buffer_mut\<close>: the closure runs on a fresh \<open>BufferMut\<close>; dropping it queues a
  notification if something was modified, and the queue is applied afterwards.
\<close>

definition open_buffer_mut ::
  "request_id \<Rightarrow> entity \<Rightarrow> entity \<Rightarrow> ('t, 'c) buffer_world \<Rightarrow> 't buffer_mut" where
  "open_buffer_mut req session accessor w =
     \<lparr>bmu_manager = \<lparr>bm_storage = bw_storage w, bm_sequence = ins_sequence (bw_input w), bm_session = session\<rparr>,
      bmu_accessor = Some accessor, bmu_modified = False\<rparr>"

definition unchecked_buffer_mut ::
  "entity \<Rightarrow> request_id \<Rightarrow> entity \<Rightarrow> entity \<Rightarrow> ('t buffer_mut \<Rightarrow> 't buffer_mut)
     \<Rightarrow> ('t, 'c) buffer_world \<Rightarrow> ('t, 'c) buffer_world" where
  "unchecked_buffer_mut buffer req session accessor f w =
     (let b = f (open_buffer_mut req session accessor w);
          w = w\<lparr>bw_storage := bm_storage (bmu_manager b),
                bw_input := (bw_input w)\<lparr>ins_sequence := bm_sequence (bmu_manager b)\<rparr>\<rparr>
      in if bmu_modified b
         then apply_notify \<lparr>nbu_buffer = buffer, nbu_req = req,
                nbu_session = bm_session (bmu_manager b), nbu_accessor = bmu_accessor b\<rparr> w
         else w)"

subsection \<open>The operation\<close>

definition execute_buffer ::
  "entity \<Rightarrow> ('t, 'c) buffer_world \<Rightarrow> ('t, 'c) buffer_world \<times> (operation_error + unit)" where
  "execute_buffer source w =
     (case input_pop (bw_input w) of
        (None, _) \<Rightarrow> (w, Inl NotReady)
      | (Some input, storage) \<Rightarrow>
          (unchecked_buffer_mut source
             \<lparr>rq_session = in_session input, rq_source = source, rq_seq = in_seq input\<rparr>
             (in_session input) source (\<lambda>b. fst (bmu_force_push (in_data input) b))
             (w\<lparr>bw_input := storage\<rparr>), Inr ()))"

text \<open>
  \<open>cleanup_inputs\<close> of a buffer: the waiting inputs of the session go into the buffer. The indices
  are collected from the newest to the oldest input, the inputs are removed from the oldest to the
  newest, and the removed ones are pushed in the opposite order again.
\<close>

definition cleanup_buffer_inputs ::
  "entity \<Rightarrow> entity \<Rightarrow> ('t, 'c) buffer_world \<Rightarrow> ('t, 'c) buffer_world" where
  "cleanup_buffer_inputs source session w =
     (let inputs = ins_reverse_queue (bw_input w);
          reverse_remaining = rev (filter (\<lambda>i. in_session i = session) inputs);
          w = w\<lparr>bw_input := drop_session_inputs session (bw_input w)\<rparr>
      in fold (\<lambda>input. unchecked_buffer_mut source
             \<lparr>rq_session = in_session input, rq_source = source, rq_seq = in_seq input\<rparr>
             (in_session input) source (\<lambda>b. fst (bmu_force_push (in_data input) b)))
           (rev reverse_remaining) w)"

subsection \<open>Gates\<close>

definition gate_state_apply ::
  "entity \<Rightarrow> gate \<Rightarrow> ('t, 'c) buffer_world \<Rightarrow> roster
     \<Rightarrow> ('t, 'c) buffer_world \<times> roster \<times> (operation_error + unit)" where
  "gate_state_apply session action w roster =
     (let state = gate_get session w;
          w = w\<lparr>bw_gates := hm_insert session state (bw_gates w)\<rparr>
      in if state = action then (w, roster, Inr ())
         else
           let w = w\<lparr>bw_gates := hm_insert session action (bw_gates w)\<rparr>
           in if gate_is_open action then notify_listeners session None w roster
              else (w, roster, Inr ()))"

record buffer_gate_mut =
  bgm_gates :: "(entity, gate) hmap"
  bgm_session :: entity
  bgm_accessor :: "entity option"
  bgm_modified :: bool

definition gate_mut_get :: "buffer_gate_mut \<Rightarrow> gate" where
  "gate_mut_get self = (case hm_get (bgm_gates self) (bgm_session self) of Some g \<Rightarrow> g | None \<Rightarrow> Open)"

definition open_gate :: "buffer_gate_mut \<Rightarrow> buffer_gate_mut" where
  "open_gate self =
     (case hm_get (bgm_gates self) (bgm_session self) of
        Some g \<Rightarrow>
          (if g \<noteq> Open
           then self\<lparr>bgm_gates := hm_insert (bgm_session self) Open (bgm_gates self), bgm_modified := True\<rparr>
           else self)
      | None \<Rightarrow> self)"

definition close_gate :: "buffer_gate_mut \<Rightarrow> buffer_gate_mut" where
  "close_gate self =
     (case hm_get (bgm_gates self) (bgm_session self) of
        Some _ \<Rightarrow> self\<lparr>bgm_gates := hm_insert (bgm_session self) Closed (bgm_gates self)\<rparr>
      | None \<Rightarrow> self)"

fun gate_action :: "gate \<Rightarrow> buffer_gate_mut \<Rightarrow> buffer_gate_mut" where
  "gate_action Open self = open_gate self"
| "gate_action Closed self = close_gate self"

subsection \<open>Sessions of a buffer\<close>

definition ensure_buffer_session :: "entity \<Rightarrow> ('t, 'c) buffer_world \<Rightarrow> ('t, 'c) buffer_world" where
  "ensure_buffer_session session w = w\<lparr>bw_storage := ensure_session session (bw_storage w)\<rparr>"

definition remove_buffer_session :: "entity \<Rightarrow> ('t, 'c) buffer_world \<Rightarrow> ('t, 'c) buffer_world" where
  "remove_buffer_session session w =
     w\<lparr>bw_storage := remove_session session (bw_storage w),
       bw_broadcast := AList.delete session (bw_broadcast w)\<rparr>"

definition get_buffer_seen :: "entity \<Rightarrow> ('t, 'c) buffer_world \<Rightarrow> seq \<times> ('t, 'c) buffer_world" where
  "get_buffer_seen session w =
     (case hm_get (bw_broadcast w) session of
        Some n \<Rightarrow> (n, w)
      | None \<Rightarrow> (0, w\<lparr>bw_broadcast := hm_insert session 0 (bw_broadcast w)\<rparr>))"

subsection \<open>Waking listeners\<close>

text \<open>\<open>deliverable session targets w\<close>: messages of the session can be delivered to all targets.\<close>

definition deliverable :: "entity \<Rightarrow> entity list \<Rightarrow> ('t, 'c) message_world \<Rightarrow> bool" where
  "deliverable session targets w \<longleftrightarrow>
     mw_status w session = Some Active \<and> (\<forall>t \<in> set targets. mw_inputs w t \<noteq> None)"

lemma give_input_deliverable:
  assumes "deliverable session (target # targets) w"
    and "give_input \<lparr>rt_session = session, rt_target = target\<rparr> data w roster = (w', roster', r)"
  shows "r = Inr () \<and> roster' = roster_queue target roster \<and> deliverable session targets w'
    \<and> pending t w' = pending t w @ (if t = target then [(session, data)] else [])"
  using assms
  by (auto simp: deliverable_def give_input_def sneak_input_def deliver_input_def wake_if_def
      input_push_def input_increment_seq_def pending_def Let_def split: option.splits)

lemma give_all_deliverable:
  assumes "deliverable session targets w" and "give_all session targets w roster = (w', roster', r)"
  shows "r = Inr () \<and> roster' = roster\<lparr>ro_queue := ro_queue roster @ targets\<rparr>
    \<and> pending t w' = pending t w @ replicate (count_list targets t) (session, ())"
  using assms
proof (induction targets arbitrary: w roster)
  case (Cons target targets)
  obtain w1 roster1 r1 where g:
    "give_input \<lparr>rt_session = session, rt_target = target\<rparr> () w roster = (w1, roster1, r1)"
    by (metis prod_cases3)
  note g1 = give_input_deliverable [OF Cons.prems(1) g]
  have "give_all session targets w1 roster1 = (w', roster', r)"
    using Cons.prems(2) g g1 by simp
  from Cons.IH [OF _ this] show ?case using g1 [of t] by (auto simp: roster_queue_def)
qed simp

lemma give_all_inactive:
  assumes "mw_status w session = None \<or> mw_status w session = Some Cleaning"
  shows "give_all session targets w roster = (w, roster, Inr ())"
  by (induction targets) (simp_all add: give_input_inactive [OF assms])

lemma notify_listeners_deliverable:
  assumes "deliverable session (bw_listeners w) (bw_messages w)"
    and "notify_listeners session accessor w roster = (w', roster', r)"
  defines "targets \<equiv> filter (\<lambda>t. accessor \<noteq> Some t) (bw_listeners w)"
  shows "r = Inr () \<and> roster' = roster\<lparr>ro_queue := ro_queue roster @ targets\<rparr>
    \<and> pending t (bw_messages w') = pending t (bw_messages w) @ replicate (count_list targets t) (session, ())
    \<and> bw_storage w' = bw_storage w \<and> bw_input w' = bw_input w \<and> bw_gates w' = bw_gates w
    \<and> bw_listeners w' = bw_listeners w \<and> bw_deferred w' = bw_deferred w"
proof -
  obtain mw ro r' where g: "give_all session targets (bw_messages w) roster = (mw, ro, r')"
    by (metis prod_cases3)
  have "deliverable session targets (bw_messages w)"
    using assms(1) by (auto simp: deliverable_def targets_def)
  from give_all_deliverable [OF this g] show ?thesis
    using assms(2) g by (auto simp: notify_listeners_def targets_def Let_def split: option.splits)
qed

subsection \<open>Executing the buffer\<close>

definition buffer_contents :: "entity \<Rightarrow> ('t, 'c) buffer_world \<Rightarrow> 't list" where
  "buffer_contents session w = storage_iter session (bw_storage w)"

definition buffer_policy :: "('t, 'c) buffer_world \<Rightarrow> retention_policy" where
  "buffer_policy w = bs_retention (bst_settings (bw_storage w))"

definition waiting :: "('t, 'c) buffer_world \<Rightarrow> (entity \<times> 't) list" where
  "waiting w = rev (map (\<lambda>i. (in_session i, in_data i)) (ins_reverse_queue (bw_input w)))"

lemma apply_notify_buffer [simp]:
  "bw_storage (apply_notify n w) = bw_storage w"
  "bw_input (apply_notify n w) = bw_input w"
  "bw_gates (apply_notify n w) = bw_gates w"
  "bw_listeners (apply_notify n w) = bw_listeners w"
  by (simp_all add: apply_notify_def notify_listeners_def Let_def
      split: prod.split sum.split option.split operation_error.split)

lemma apply_notify_closed:
  "session_gate_closed (rq_session (nbu_req n)) w \<Longrightarrow> apply_notify n w = w"
  by (simp add: apply_notify_def)

lemma set_queue_storage:
  "bst_settings (bm_storage (set_queue q self)) = bst_settings (bm_storage self)"
  "hm_get (bst_reverse_queues (bm_storage (set_queue q self))) =
     (hm_get (bst_reverse_queues (bm_storage self)))(bm_session self \<mapsto> q)"
  by (simp_all add: set_queue_def update_conv')

lemma force_push_storage:
  assumes "force_push v self = (self', r)"
  shows "bst_settings (bm_storage self') = bst_settings (bm_storage self)"
    and "storage_iter session (bm_storage self') =
      (if session = bm_session self then fst (retain (manager_retention self) v (manager_iter self))
       else storage_iter session (bm_storage self))"
    and "bm_session self' = bm_session self"
proof -
  let ?q = "case manager_queue self of Some q \<Rightarrow> q | None \<Rightarrow> []"
  obtain q' removed where p: "impl_push ?q (manager_retention self) (bm_sequence self) v = (q', removed)"
    by fastforce
  have self': "self' = set_queue q' (self\<lparr>bm_sequence := bm_sequence self + 1\<rparr>)"
    using assms p by (auto simp: force_push_def increment_seq_def)
  show "bst_settings (bm_storage self') = bst_settings (bm_storage self)" "bm_session self' = bm_session self"
    by (simp_all add: self' set_queue_storage)
  have "rev (map be_message q') = fst (retain (manager_retention self) v (manager_iter self))"
    using arg_cong [OF impl_push_refines [OF p], of fst]
    by (simp add: manager_iter_queue split: option.split_asm)
  then show "storage_iter session (bm_storage self') =
      (if session = bm_session self then fst (retain (manager_retention self) v (manager_iter self))
       else storage_iter session (bm_storage self))"
    by (simp add: self' storage_iter_def set_queue_storage)
qed

lemma unchecked_force_push:
  fixes v :: 't
  defines "f \<equiv> \<lambda>b. fst (bmu_force_push v b)"
  assumes "unchecked_buffer_mut buffer req session accessor f w = w'"
  shows "buffer_contents s w' = (if s = session then fst (retain (buffer_policy w) v (buffer_contents s w))
      else buffer_contents s w)"
    and "buffer_policy w' = buffer_policy w"
    and "ins_reverse_queue (bw_input w') = ins_reverse_queue (bw_input w)"
    and "bw_gates w' = bw_gates w" and "bw_listeners w' = bw_listeners w"
proof -
  let ?m = "\<lparr>bm_storage = bw_storage w, bm_sequence = ins_sequence (bw_input w), bm_session = session\<rparr>"
  obtain m' r where p: "force_push v ?m = (m', r)" by fastforce
  note storage = force_push_storage [OF p]
  have f: "f (open_buffer_mut req session accessor w) =
      \<lparr>bmu_manager = m', bmu_accessor = Some accessor, bmu_modified = True\<rparr>"
    by (simp add: f_def bmu_force_push_def modifying_def open_buffer_mut_def p)
  have w': "w' = apply_notify \<lparr>nbu_buffer = buffer, nbu_req = req, nbu_session = bm_session m',
        nbu_accessor = Some accessor\<rparr>
      (w\<lparr>bw_storage := bm_storage m', bw_input := (bw_input w)\<lparr>ins_sequence := bm_sequence m'\<rparr>\<rparr>)"
    using assms(2) by (auto simp: unchecked_buffer_mut_def f)
  show "buffer_contents s w' = (if s = session then fst (retain (buffer_policy w) v (buffer_contents s w))
      else buffer_contents s w)"
    using storage(2) [of s]
    by (simp add: w' buffer_contents_def buffer_policy_def manager_iter_def manager_retention_def)
  show "buffer_policy w' = buffer_policy w" using storage(1) by (simp add: w' buffer_policy_def)
  show "ins_reverse_queue (bw_input w') = ins_reverse_queue (bw_input w)"
    "bw_gates w' = bw_gates w" "bw_listeners w' = bw_listeners w" by (simp_all add: w')
qed

text \<open>One execution moves the oldest waiting input into the queue of its session.\<close>

lemma execute_buffer_moves:
  assumes "waiting w = (session, v) # rest" and "execute_buffer source w = (w', r)"
  shows "r = Inr () \<and> waiting w' = rest \<and> buffer_policy w' = buffer_policy w
    \<and> bw_gates w' = bw_gates w \<and> bw_listeners w' = bw_listeners w
    \<and> buffer_contents s w' = (if s = session then fst (retain (buffer_policy w) v (buffer_contents s w))
        else buffer_contents s w)"
proof -
  obtain q i where q: "ins_reverse_queue (bw_input w) = q @ [i]"
    using assms(1) by (cases "ins_reverse_queue (bw_input w)" rule: rev_cases) (auto simp: waiting_def)
  then have i: "in_session i = session" "in_data i = v"
    and rest: "rest = rev (map (\<lambda>i. (in_session i, in_data i)) q)"
    using assms(1) by (auto simp: waiting_def)
  let ?w = "w\<lparr>bw_input := (bw_input w)\<lparr>ins_reverse_queue := q\<rparr>\<rparr>"
  have run: "unchecked_buffer_mut source \<lparr>rq_session = session, rq_source = source, rq_seq = in_seq i\<rparr>
      session source (\<lambda>b. fst (bmu_force_push v b)) ?w = w'" "r = Inr ()"
    using assms(2) by (simp_all add: execute_buffer_def input_pop_def last_entry_def q i)
  show ?thesis
    using unchecked_force_push [OF run(1)] run(2) rest
    by (simp add: waiting_def buffer_contents_def buffer_policy_def)
qed

lemma execute_buffer_idle:
  "waiting w = [] \<Longrightarrow> execute_buffer source w = (w, Inl NotReady)"
  by (cases w) (simp add: execute_buffer_def input_pop_def waiting_def last_entry_def)

text \<open>What an execution does for the listeners, depending on the gate of the session.\<close>

lemma execute_buffer_notifies:
  assumes "waiting w = (session, v) # rest" and "execute_buffer source w = (w', r)"
  shows "session_gate_closed session w \<Longrightarrow> bw_messages w' = bw_messages w \<and> bw_deferred w' = bw_deferred w"
    and "\<lbrakk>\<not> session_gate_closed session w; deliverable session (bw_listeners w) (bw_messages w)\<rbrakk> \<Longrightarrow>
      (let targets = filter (\<lambda>t. t \<noteq> source) (bw_listeners w)
       in bw_deferred w' = (bw_deferred w)\<lparr>ro_queue := ro_queue (bw_deferred w) @ targets\<rparr>
        \<and> pending t (bw_messages w') =
            pending t (bw_messages w) @ replicate (count_list targets t) (session, ()))"
proof -
  obtain q i where q: "ins_reverse_queue (bw_input w) = q @ [i]"
    using assms(1) by (cases "ins_reverse_queue (bw_input w)" rule: rev_cases) (auto simp: waiting_def)
  then have i: "in_session i = session" using assms(1) by (auto simp: waiting_def)
  let ?w = "w\<lparr>bw_input := (bw_input w)\<lparr>ins_reverse_queue := q\<rparr>\<rparr>"
  let ?m = "\<lparr>bm_storage = bw_storage w, bm_sequence = ins_sequence (bw_input w), bm_session = session\<rparr>"
  obtain m' x where m': "force_push (in_data i) ?m = (m', x)" by fastforce
  define u where "u = ?w\<lparr>bw_storage := bm_storage m',
    bw_input := (bw_input ?w)\<lparr>ins_sequence := bm_sequence m'\<rparr>\<rparr>"
  define n where "n = \<lparr>nbu_buffer = source,
    nbu_req = \<lparr>rq_session = session, rq_source = source, rq_seq = in_seq i\<rparr>,
    nbu_session = session, nbu_accessor = Some source\<rparr>"
  have w': "w' = apply_notify n u"
    using assms(2) force_push_storage(3) [OF m'] m'
    by (auto simp: execute_buffer_def input_pop_def last_entry_def q i unchecked_buffer_mut_def u_def n_def
        bmu_force_push_def modifying_def open_buffer_mut_def Let_def)
  have u: "session_gate_closed session u = session_gate_closed session w"
    "bw_messages u = bw_messages w" "bw_deferred u = bw_deferred w" "bw_listeners u = bw_listeners w"
    by (simp_all add: u_def session_gate_closed_def gate_get_def)
  show "bw_messages w' = bw_messages w \<and> bw_deferred w' = bw_deferred w" if "session_gate_closed session w"
    using that u by (simp add: w' apply_notify_closed n_def)
  assume open_gate: "\<not> session_gate_closed session w"
    and ready: "deliverable session (bw_listeners w) (bw_messages w)"
  obtain w1 ro r1 where l: "notify_listeners session (Some source) u (bw_deferred u) = (w1, ro, r1)"
    by (metis prod_cases3)
  have targets: "filter (\<lambda>t. Some source \<noteq> Some t) (bw_listeners u) = filter (\<lambda>t. t \<noteq> source) (bw_listeners w)"
    using u(4) by (auto intro: filter_cong)
  note l1 = notify_listeners_deliverable [OF _ l, of t, unfolded targets]
  have "w' = w1\<lparr>bw_deferred := ro\<rparr>"
    using l l1 open_gate ready u by (simp add: w' apply_notify_def n_def)
  then show "let targets = filter (\<lambda>t. t \<noteq> source) (bw_listeners w)
       in bw_deferred w' = (bw_deferred w)\<lparr>ro_queue := ro_queue (bw_deferred w) @ targets\<rparr>
        \<and> pending t (bw_messages w') =
            pending t (bw_messages w) @ replicate (count_list targets t) (session, ())"
    using l1 ready u by simp
qed

subsection \<open>Gates and cleaning\<close>

text \<open>Opening a closed gate wakes every listener once; every other gate action wakes nobody.\<close>

lemma gate_state_apply_gate:
  "gate_get s (fst (gate_state_apply session action w roster)) = (if s = session then action else gate_get s w)"
  by (auto simp: gate_state_apply_def gate_get_def notify_listeners_def update_conv' Let_def
      split: prod.split sum.split option.split gate.split)

lemma gate_state_apply_wakes:
  assumes "deliverable session (bw_listeners w) (bw_messages w)"
    and "gate_state_apply session action w roster = (w', roster', r)"
  defines "targets \<equiv> if session_gate_closed session w \<and> gate_is_open action then bw_listeners w else []"
  shows "r = Inr () \<and> roster' = roster\<lparr>ro_queue := ro_queue roster @ targets\<rparr>
    \<and> pending t (bw_messages w') = pending t (bw_messages w) @ replicate (count_list targets t) (session, ())
    \<and> bw_storage w' = bw_storage w"
proof (cases "session_gate_closed session w \<and> gate_is_open action")
  case True
  let ?w = "w\<lparr>bw_gates := hm_insert session action (hm_insert session (gate_get session w) (bw_gates w))\<rparr>"
  have "gate_get session w \<noteq> action"
    using True by (cases action) (auto simp: session_gate_closed_def)
  then have "notify_listeners session None ?w roster = (w', roster', r)"
    using True assms(2) by (simp add: gate_state_apply_def Let_def)
  from notify_listeners_deliverable [OF _ this, of t] show ?thesis
    using True assms(1) by (simp add: targets_def)
next
  case False
  then have "gate_get session w = action \<or> \<not> gate_is_open action"
    by (cases action; cases "gate_get session w") (auto simp: session_gate_closed_def)
  then show ?thesis
    using False assms(2) by (auto simp: gate_state_apply_def Let_def targets_def split: if_splits)
qed

text \<open>A gate that was never touched counts as open, and \<open>close_gate\<close> leaves it open.\<close>

lemma close_gate_untouched:
  "hm_get (bgm_gates g) (bgm_session g) = None \<Longrightarrow> gate_action a g = g \<and> gate_mut_get g = Open"
  by (cases a) (simp_all add: close_gate_def open_gate_def gate_mut_get_def)

lemma gate_action_touched:
  "hm_get (bgm_gates g) (bgm_session g) \<noteq> None \<Longrightarrow> gate_mut_get (gate_action a g) = a"
  by (cases a) (auto simp: close_gate_def open_gate_def gate_mut_get_def update_conv')

text \<open>
  Cleaning up the inputs of a session pushes them into the buffer starting with the newest: the
  messages end up in reverse order.
\<close>

lemma fold_force_push_contents:
  fixes source :: entity
  defines "insert_input \<equiv> \<lambda>input. unchecked_buffer_mut source
             \<lparr>rq_session = in_session input, rq_source = source, rq_seq = in_seq input\<rparr>
             (in_session input) source (\<lambda>b. fst (bmu_force_push (in_data input) b))"
  assumes "list_all (\<lambda>i. in_session i = session) inputs"
  shows "buffer_contents session (fold insert_input inputs w) =
      fold (\<lambda>v xs. fst (retain (buffer_policy w) v xs)) (map in_data inputs) (buffer_contents session w)
    \<and> ins_reverse_queue (bw_input (fold insert_input inputs w)) = ins_reverse_queue (bw_input w)"
  using assms(2)
proof (induction inputs arbitrary: w)
  case (Cons i inputs)
  note step = unchecked_force_push [OF refl]
  show ?case
    using Cons.IH [of "insert_input i w"] Cons.prems by (simp add: insert_input_def step)
qed simp

lemma cleanup_buffer_inputs_contents:
  "buffer_contents session (cleanup_buffer_inputs source session w) =
     fold (\<lambda>v xs. fst (retain (buffer_policy w) v xs))
       (rev (map snd (filter (\<lambda>(s, _). s = session) (waiting w)))) (buffer_contents session w)
   \<and> waiting (cleanup_buffer_inputs source session w) = filter (\<lambda>(s, _). s \<noteq> session) (waiting w)"
proof -
  let ?is = "filter (\<lambda>i. in_session i = session) (ins_reverse_queue (bw_input w))"
  let ?w = "w\<lparr>bw_input := drop_session_inputs session (bw_input w)\<rparr>"
  have "list_all (\<lambda>i. in_session i = session) ?is" by (simp add: list_all_iff)
  note step = fold_force_push_contents [OF this, of source ?w]
  have "map in_data ?is = rev (map snd (filter (\<lambda>(s, _). s = session) (waiting w)))"
    by (simp add: waiting_def filter_map o_def rev_map flip: rev_filter)
  then show ?thesis
    using step
    by (simp add: cleanup_buffer_inputs_def Let_def buffer_contents_def buffer_policy_def
        waiting_def drop_session_inputs_def filter_map o_def flip: rev_filter)
qed

lemma fold_retain_all: "fold (\<lambda>v xs. fst (retain KeepAll v xs)) vs xs = xs @ vs"
  by (induction vs arbitrary: xs) simp_all

lemma fold_retain:
  "within_limit policy (length xs) \<Longrightarrow> fold (\<lambda>v xs. fst (retain policy v xs)) vs xs = retained policy (xs @ vs)"
proof (induction vs arbitrary: xs)
  case (Cons v vs)
  then show ?case
    using retain_within_limit [of policy xs v] by (simp add: retain_retained retained_append)
qed (simp add: retained_within)

subsection \<open>Properties\<close>

text \<open>One execution of a buffer moves exactly its oldest waiting input into the queue of the session
  of that input, under the retention policy; the other sessions and the other inputs are untouched.
  It never fails while an input is waiting.\<close>

theorem execute_buffer_stores:
  assumes "waiting w = (session, v) # rest"
  shows "\<exists>w'. execute_buffer source w = (w', Inr ()) \<and> waiting w' = rest
    \<and> buffer_contents session w' = fst (retain (buffer_policy w) v (buffer_contents session w))
    \<and> (\<forall>other. other \<noteq> session \<longrightarrow> buffer_contents other w' = buffer_contents other w)"
proof -
  obtain w' r where "execute_buffer source w = (w', r)" by fastforce
  with execute_buffer_moves [OF assms this] show ?thesis by auto
qed

text \<open>A buffer at entity 10 with two listeners (11 and 12), a session 7 and three waiting inputs.\<close>

definition demo_buffer :: "retention_policy \<Rightarrow> (entity, gate) hmap \<Rightarrow> (nat, nat) buffer_world" where
  "demo_buffer policy gates =
     \<lparr>bw_storage = storage_new \<lparr>bs_retention = policy\<rparr>,
      bw_input = \<lparr>ins_reverse_queue = map (\<lambda>v. \<lparr>in_session = 7, in_seq = 0, in_data = v\<rparr>) [3, 2, 1],
        ins_sequence = 3\<rparr>,
      bw_gates = gates, bw_listeners = [11, 12], bw_broadcast = [],
      bw_messages = \<lparr>mw_inputs = (\<lambda>e. if e \<in> {11, 12} then Some input_storage_new else None),
        mw_unused_target = (\<lambda>_. False), mw_detached = (\<lambda>_. None), mw_status = (\<lambda>s. if s = 7 then Some Active else None),
        mw_progress = (\<lambda>_. None), mw_cancelled = [], mw_mismatches = []\<rparr>,
      bw_deferred = empty_roster, bw_broken = []\<rparr>"

lemma demo_buffer_facts:
  "waiting (demo_buffer policy gates) = [(7, 1), (7, 2), (7, 3)]"
  "buffer_policy (demo_buffer policy gates) = policy"
  "buffer_contents s (demo_buffer policy gates) = []"
  "session_gate_closed s (demo_buffer policy []) = False"
  "session_gate_closed 7 (demo_buffer policy [(7, Closed)]) = True"
  "deliverable 7 (bw_listeners (demo_buffer policy gates)) (bw_messages (demo_buffer policy gates))"
  "bw_listeners (demo_buffer policy gates) = [11, 12]"
  "ro_queue (bw_deferred (demo_buffer policy gates)) = []"
  by (simp_all add: demo_buffer_def waiting_def buffer_policy_def buffer_contents_def storage_new_def
      storage_iter_def session_gate_closed_def gate_get_def deliverable_def empty_roster_def)

lemma execute_buffer_stores_witness:
  "\<exists>w'. execute_buffer 10 (demo_buffer KeepAll []) = (w', Inr ()) \<and> buffer_contents 7 w' = [1]"
  using execute_buffer_stores [OF demo_buffer_facts(1), of 10 KeepAll "[]"]
  by (auto simp: demo_buffer_facts)

text \<open>While the gate of a session is closed its buffer stores inputs silently. While it is open, storing
  an input wakes every listener exactly once, except a listener that is the accessor itself.\<close>

theorem execute_buffer_wakes_listeners:
  fixes source :: entity
  assumes "waiting w = (session, v) # rest"
    and "deliverable session (bw_listeners w) (bw_messages w)"
  defines "targets \<equiv> if session_gate_closed session w then [] else filter (\<lambda>t. t \<noteq> source) (bw_listeners w)"
    and "w' \<equiv> fst (execute_buffer source w)"
  shows "ro_queue (bw_deferred w') = ro_queue (bw_deferred w) @ targets
    \<and> (\<forall>t. pending t (bw_messages w') = pending t (bw_messages w) @ replicate (count_list targets t) (session, ()))"
proof -
  note step = execute_buffer_notifies [OF assms(1), where source = source and w' = w' and r = "snd (execute_buffer source w)"]
  have run: "execute_buffer source w = (w', snd (execute_buffer source w))" by (simp add: w'_def)
  show ?thesis
  proof (cases "session_gate_closed session w")
    case True
    then show ?thesis using step(1) [OF run] by (simp add: targets_def)
  next
    case False
    then show ?thesis using step(2) [OF run False assms(2)] by (simp add: targets_def Let_def)
  qed
qed

lemma execute_buffer_wakes_listeners_witness:
  "ro_queue (bw_deferred (fst (execute_buffer 10 (demo_buffer KeepAll [])))) = [11, 12]"
  using execute_buffer_wakes_listeners [OF demo_buffer_facts(1,6), of 10 KeepAll "[]"]
  by (simp add: demo_buffer_facts)

text \<open>A gate operation sets the gate of its session only. Opening a closed gate wakes every listener of
  the buffer exactly once; opening an open gate and closing wake nobody.\<close>

theorem gate_operation_spec:
  fixes action :: gate
  assumes "deliverable session (bw_listeners w) (bw_messages w)"
  defines "targets \<equiv> if session_gate_closed session w \<and> gate_is_open action then bw_listeners w else []"
  shows "\<exists>w' roster'. gate_state_apply session action w roster = (w', roster', Inr ())
    \<and> ro_queue roster' = ro_queue roster @ targets
    \<and> (\<forall>t. pending t (bw_messages w') = pending t (bw_messages w) @ replicate (count_list targets t) (session, ()))
    \<and> (\<forall>s. gate_get s w' = (if s = session then action else gate_get s w))"
proof -
  obtain w' roster' r where g: "gate_state_apply session action w roster = (w', roster', r)"
    by (metis prod_cases3)
  note wakes = gate_state_apply_wakes [OF assms(1) g, folded targets_def]
  have "gate_get s w' = (if s = session then action else gate_get s w)" for s
    using gate_state_apply_gate [of s session action w roster] g by simp
  moreover have "r = Inr () \<and> ro_queue roster' = ro_queue roster @ targets" using wakes by simp
  ultimately show ?thesis using wakes g by blast
qed

lemma gate_operation_spec_witness:
  "\<exists>w' roster'. gate_state_apply 7 Open (demo_buffer KeepAll [(7, Closed)]) empty_roster = (w', roster', Inr ())
    \<and> ro_queue roster' = [11, 12]"
  using gate_operation_spec [OF demo_buffer_facts(6), of Open KeepAll "[(7, Closed)]" empty_roster]
  by (auto simp: demo_buffer_facts empty_roster_def)

text \<open>The gate handle that a \<open>BufferGateAccessMut\<close> gives to systems ignores a request to close a gate
  that no gate operation has touched yet in that session: the gate stays open. Once the session has
  an entry, every request takes effect.\<close>

theorem close_gate_needs_entry:
  "gate_mut_get (gate_action action g) =
     (if hm_get (bgm_gates g) (bgm_session g) = None then Open else action)"
  using close_gate_untouched [of g action] gate_action_touched [of g action]
  by (cases "hm_get (bgm_gates g) (bgm_session g)") simp_all

text \<open>When a session is cleaned, the inputs still waiting at a buffer are pushed into it from the newest
  to the oldest, so they end up in reverse order: with \<open>KeepAll\<close> the contents are followed by the
  reversed inputs, and with the default policy \<open>KeepLast 1\<close> the oldest waiting input survives.\<close>

theorem cleanup_reverses_inputs:
  assumes "within_limit (buffer_policy w) (length (buffer_contents session w))"
  shows "buffer_contents session (cleanup_buffer_inputs source session w) =
    retained (buffer_policy w)
      (buffer_contents session w @ rev (map snd (filter (\<lambda>(s, _). s = session) (waiting w))))"
  using cleanup_buffer_inputs_contents [of session source w] fold_retain [OF assms] by simp

lemma cleanup_reverses_inputs_witness:
  "buffer_contents 7 (cleanup_buffer_inputs 10 7 (demo_buffer KeepAll [])) = [3, 2, 1]
   \<and> buffer_contents 7 (cleanup_buffer_inputs 10 7 (demo_buffer default_retention [])) = [1]"
  using cleanup_reverses_inputs [of "demo_buffer KeepAll []" 7 10]
    cleanup_reverses_inputs [of "demo_buffer default_retention []" 7 10]
  by (simp add: demo_buffer_facts default_retention_def)

end
