(* ===== verification/Delivery.thy ===== *)
theory Delivery
  imports Inputs
begin

text \<open>
  The queue of requests to a provider that serves them one at a time, \<open>src/src/service/delivery.rs\<close>,
  with the instructions of \<open>src/src/service.rs\<close> that label requests.

  \<^item> A \<open>DeliveryLabelId\<close> is a value of a type \<open>'l\<close> with equality, the request an opaque \<open>'r\<close>.
  \<^item> The assertion of \<open>insert_serial_order\<close> and the two \<open>expect\<close>s of \<open>pop_next_delivery\<close> are values
    of \<open>delivery_panic\<close>.
  \<^item> The function pointer \<open>serve_next\<close> of a \<open>Blocker\<close> is fixed by the provider; it is left out of the
    record and supplied by the theory of the service.

  A delivery is a family of slots, one for a \<open>Serial\<close> delivery and one per label for a \<open>Parallel\<close>
  one. A slot that delivers something is busy. \<open>balanced d ks\<close> says that the requests that hold the
  slots \<open>ks\<close> hold different, busy slots: the reason why a slot never runs two requests at once.
\<close>

subsection \<open>Instructions\<close>

record 'l delivery_instructions =
  di_label :: 'l
  di_preempt :: bool
  di_ensure :: bool

definition instructions_new :: "'l \<Rightarrow> 'l delivery_instructions" where
  "instructions_new label = \<lparr>di_label = label, di_preempt = False, di_ensure = False\<rparr>"

definition with_preemptive :: "bool \<Rightarrow> 'l delivery_instructions \<Rightarrow> 'l delivery_instructions" where
  "with_preemptive b self = self\<lparr>di_preempt := b\<rparr>"

definition with_ensured :: "bool \<Rightarrow> 'l delivery_instructions \<Rightarrow> 'l delivery_instructions" where
  "with_ensured b self = self\<lparr>di_ensure := b\<rparr>"

subsection \<open>Deliveries\<close>

record 'l blocker =
  bl_provider :: entity
  bl_request_id :: request_id
  bl_label :: "'l option"

record ('r, 'l) delivery_order =
  do_request_id :: request_id
  do_task_id :: entity
  do_request :: 'r
  do_instructions :: "'l delivery_instructions option"

record 'l active_delivery =
  ad_request_id :: request_id
  ad_task_id :: entity
  ad_instructions :: "'l delivery_instructions option"

record ('r, 'l) serial_delivery =
  sd_delivering :: "'l active_delivery option"
  sd_queue :: "('r, 'l) delivery_order list"

datatype ('r, 'l) delivery =
    Serial "('r, 'l) serial_delivery"
  | Parallel "('l, ('r, 'l) serial_delivery) hmap"

record delivery_stoppage =
  ds_request_id :: request_id
  ds_task_id :: entity

datatype ('r, 'l) delivery_update =
    Immediate (up_blocking: "'l option option") (up_request: 'r) (up_seq: seq)
  | Queued (up_cancelled: "delivery_stoppage list") (up_stop: "delivery_stoppage option")
      (up_label: "'l option")

record ('r, 'l) deliver =
  dl_request :: 'r
  dl_task_id :: entity
  dl_blocker :: "'l blocker"

datatype delivery_panic = QueueNotEmpty | BlockingWithoutLabel | QueueErased

definition serial_default :: "('r, 'l) serial_delivery" where
  "serial_default = \<lparr>sd_delivering = None, sd_queue = []\<rparr>"

subsection \<open>Inserting an order\<close>

definition should_discard :: "'l delivery_instructions \<Rightarrow> 'l delivery_instructions \<Rightarrow> bool" where
  "should_discard incoming prior \<longleftrightarrow> di_label prior = di_label incoming \<and> \<not> di_ensure prior"

definition discards :: "'l delivery_instructions \<Rightarrow> 'l delivery_instructions option \<Rightarrow> bool" where
  "discards incoming prior = (case prior of None \<Rightarrow> False | Some p \<Rightarrow> should_discard incoming p)"

definition insert_serial_order ::
  "('r, 'l) serial_delivery \<Rightarrow> ('r, 'l) delivery_order
     \<Rightarrow> delivery_panic + ('r, 'l) serial_delivery \<times> ('r, 'l) delivery_update" where
  "insert_serial_order serial order =
     (case sd_delivering serial of
        None \<Rightarrow>
          (if sd_queue serial \<noteq> [] then Inl QueueNotEmpty
           else Inr (serial\<lparr>sd_delivering := Some \<lparr>ad_request_id = do_request_id order,
                       ad_task_id = do_task_id order, ad_instructions = do_instructions order\<rparr>\<rparr>,
                  Immediate (Some (map_option di_label (do_instructions order)))
                    (do_request order) (rq_seq (do_request_id order))))
      | Some delivering \<Rightarrow>
          (case do_instructions order of
             None \<Rightarrow> Inr (serial\<lparr>sd_queue := sd_queue serial @ [order]\<rparr>, Queued [] None None)
           | Some incoming \<Rightarrow>
               let discard = (\<lambda>e. discards incoming (do_instructions e));
                   cancelled = (if di_preempt incoming
                     then map (\<lambda>e. \<lparr>ds_request_id = do_request_id e, ds_task_id = do_task_id e\<rparr>)
                       (filter discard (sd_queue serial))
                     else []);
                   queue = (if di_preempt incoming then filter (\<lambda>e. \<not> discard e) (sd_queue serial)
                     else sd_queue serial);
                   stop = (if di_preempt incoming \<and> discards incoming (ad_instructions delivering)
                     then Some \<lparr>ds_request_id = ad_request_id delivering, ds_task_id = ad_task_id delivering\<rparr>
                     else None)
               in Inr (serial\<lparr>sd_queue := queue @ [order]\<rparr>,
                    Queued cancelled stop (Some (di_label incoming)))))"

definition insert_new_order ::
  "('r, 'l) delivery \<Rightarrow> ('r, 'l) delivery_order
     \<Rightarrow> delivery_panic + ('r, 'l) delivery \<times> ('r, 'l) delivery_update" where
  "insert_new_order delivery order =
     (case delivery of
        Serial serial \<Rightarrow>
          rbind (insert_serial_order serial order) (\<lambda>(serial, update). Inr (Serial serial, update))
      | Parallel labeled \<Rightarrow>
          (case do_instructions order of
             Some instructions \<Rightarrow>
               let label = di_label instructions;
                   serial = (case hm_get labeled label of Some s \<Rightarrow> s | None \<Rightarrow> serial_default)
               in rbind (insert_serial_order serial order)
                    (\<lambda>(serial, update). Inr (Parallel (hm_insert label serial labeled), update))
           | None \<Rightarrow> Inr (Parallel labeled,
               Immediate None (do_request order) (rq_seq (do_request_id order)))))"

subsection \<open>Popping the next order\<close>

definition pop_next_delivery_impl ::
  "entity \<Rightarrow> ('r, 'l) serial_delivery \<Rightarrow> ('r, 'l) serial_delivery \<times> ('r, 'l) deliver option" where
  "pop_next_delivery_impl provider serial =
     (case sd_queue serial of
        [] \<Rightarrow> (serial\<lparr>sd_delivering := None\<rparr>, None)
      | order # queue \<Rightarrow>
          (\<lparr>sd_delivering = Some \<lparr>ad_request_id = do_request_id order, ad_task_id = do_task_id order,
              ad_instructions = do_instructions order\<rparr>, sd_queue = queue\<rparr>,
           Some \<lparr>dl_request = do_request order, dl_task_id = do_task_id order,
             dl_blocker = \<lparr>bl_provider = provider, bl_request_id = do_request_id order,
               bl_label = map_option di_label (do_instructions order)\<rparr>\<rparr>))"

definition pop_next_delivery ::
  "entity \<Rightarrow> 'l option \<Rightarrow> ('r, 'l) delivery
     \<Rightarrow> delivery_panic + ('r, 'l) delivery \<times> ('r, 'l) deliver option" where
  "pop_next_delivery provider label delivery =
     (case delivery of
        Serial serial \<Rightarrow>
          let (serial, d) = pop_next_delivery_impl provider serial in Inr (Serial serial, d)
      | Parallel labeled \<Rightarrow>
          (case label of
             None \<Rightarrow> Inl BlockingWithoutLabel
           | Some label \<Rightarrow>
               (case hm_get labeled label of
                  None \<Rightarrow> Inl QueueErased
                | Some serial \<Rightarrow>
                    let (serial, d) = pop_next_delivery_impl provider serial
                    in Inr (Parallel (hm_insert label serial labeled), d))))"

subsection \<open>Sessions\<close>

definition serial_contains_session :: "entity \<Rightarrow> ('r, 'l) serial_delivery \<Rightarrow> bool" where
  "serial_contains_session session self =
     list_ex (\<lambda>order. rq_session (do_request_id order) = session) (sd_queue self)"

definition serial_cleanup :: "entity \<Rightarrow> ('r, 'l) serial_delivery \<Rightarrow> ('r, 'l) serial_delivery" where
  "serial_cleanup session self =
     self\<lparr>sd_queue := filter (\<lambda>order. rq_session (do_request_id order) \<noteq> session) (sd_queue self)\<rparr>"

fun contains_session_delivery :: "entity \<Rightarrow> ('r, 'l) delivery \<Rightarrow> bool" where
  "contains_session_delivery session (Serial serial) = serial_contains_session session serial"
| "contains_session_delivery session (Parallel labeled) =
     list_ex (\<lambda>(_, serial). serial_contains_session session serial) labeled"

fun cleanup_delivery :: "entity \<Rightarrow> ('r, 'l) delivery \<Rightarrow> ('r, 'l) delivery" where
  "cleanup_delivery session (Serial serial) = Serial (serial_cleanup session serial)"
| "cleanup_delivery session (Parallel labeled) =
     Parallel (map (\<lambda>(label, serial). (label, serial_cleanup session serial)) labeled)"

subsection \<open>Slots\<close>

definition order_label :: "('r, 'l) delivery_order \<Rightarrow> 'l option" where
  "order_label order = map_option di_label (do_instructions order)"

definition slot_key :: "('r, 'l) delivery \<Rightarrow> 'l option \<Rightarrow> 'l option" where
  "slot_key d label = (case d of Serial _ \<Rightarrow> None | Parallel _ \<Rightarrow> label)"

definition serial_at :: "('r, 'l) delivery \<Rightarrow> 'l option \<Rightarrow> ('r, 'l) serial_delivery option" where
  "serial_at d k = (case d of
     Serial s \<Rightarrow> if k = None then Some s else None
   | Parallel m \<Rightarrow> Option.bind k (hm_get m))"

definition busy :: "('r, 'l) delivery \<Rightarrow> 'l option \<Rightarrow> bool" where
  "busy d k \<longleftrightarrow> (\<exists>s. serial_at d k = Some s \<and> sd_delivering s \<noteq> None)"

definition waiting_orders :: "('r, 'l) delivery \<Rightarrow> 'l option \<Rightarrow> ('r, 'l) delivery_order list" where
  "waiting_orders d k = (case serial_at d k of Some s \<Rightarrow> sd_queue s | None \<Rightarrow> [])"

definition wf_delivery :: "('r, 'l) delivery \<Rightarrow> bool" where
  "wf_delivery d \<longleftrightarrow> (\<forall>k s. serial_at d k = Some s \<longrightarrow>
     (sd_delivering s = None \<longrightarrow> sd_queue s = [])
     \<and> (\<forall>order \<in> set (sd_queue s). slot_key d (order_label order) = k))"

lemma slot_simps [simp]:
  "slot_key (Serial s) label = None" "slot_key (Parallel m) label = label"
  "serial_at (Serial s) k = (if k = None then Some s else None)"
  "serial_at (Parallel m) None = None" "serial_at (Parallel m) (Some l) = hm_get m l"
  by (simp_all add: slot_key_def serial_at_def)

lemma serial_at_update:
  "serial_at (Parallel (hm_insert l s m)) k = (if k = Some l then Some s else serial_at (Parallel m) k)"
  by (cases k) (simp_all add: update_conv')

definition insert_shape ::
  "('r, 'l) serial_delivery \<Rightarrow> ('r, 'l) delivery_order \<Rightarrow> ('r, 'l) serial_delivery
     \<Rightarrow> ('r, 'l) delivery_update \<Rightarrow> bool" where
  "insert_shape s order s' update \<longleftrightarrow> (case update of
      Immediate blocking request seq \<Rightarrow> blocking = Some (order_label order) \<and> request = do_request order
        \<and> seq = rq_seq (do_request_id order) \<and> sd_delivering s = None \<and> sd_delivering s' \<noteq> None
        \<and> sd_queue s' = []
    | Queued cancelled stop label \<Rightarrow> sd_delivering s \<noteq> None \<and> sd_delivering s' = sd_delivering s
        \<and> label = order_label order
        \<and> (\<exists>kept. sd_queue s' = kept @ [order] \<and> set kept \<subseteq> set (sd_queue s)))"

lemma insert_serial_order_shape:
  assumes "insert_serial_order s order = Inr (s', update)"
  shows "insert_shape s order s' update"
  using assms
  by (auto simp: insert_serial_order_def insert_shape_def order_label_def Let_def
      split: option.splits if_splits)

lemma insert_serial_order_total:
  "(sd_delivering s = None \<longrightarrow> sd_queue s = []) \<Longrightarrow> \<exists>x. insert_serial_order s order = Inr x"
  by (auto simp: insert_serial_order_def Let_def split: option.split)

lemma insert_new_order_total:
  assumes "wf_delivery d"
  shows "\<exists>x. insert_new_order d order = Inr x"
proof (cases d)
  case (Serial s)
  then have "sd_delivering s = None \<longrightarrow> sd_queue s = []" using assms by (auto simp: wf_delivery_def)
  from insert_serial_order_total [OF this, of order] show ?thesis
    using Serial by (auto simp: insert_new_order_def)
next
  case (Parallel m)
  show ?thesis
  proof (cases "do_instructions order")
    case (Some i)
    let ?s = "case hm_get m (di_label i) of Some s \<Rightarrow> s | None \<Rightarrow> serial_default"
    have "sd_delivering s = None \<longrightarrow> sd_queue s = []" if "hm_get m l = Some s" for l s
      using assms that Parallel by (auto simp: wf_delivery_def elim!: allE [of _ "Some l"])
    then have "sd_delivering ?s = None \<longrightarrow> sd_queue ?s = []"
      by (auto simp: serial_default_def split: option.split)
    from insert_serial_order_total [OF this, of order] show ?thesis
      using Parallel Some by (auto simp: insert_new_order_def)
  qed (simp add: insert_new_order_def Parallel)
qed

text \<open>What an insertion does to the slots.\<close>

lemma insert_new_order_slots:
  assumes "wf_delivery d" and "insert_new_order d order = Inr (d', update)"
  shows "wf_delivery d' \<and> slot_key d' = slot_key d
    \<and> (case update of
         Immediate blocking request seq \<Rightarrow> request = do_request order
           \<and> (case blocking of
                None \<Rightarrow> d' = d
              | Some label \<Rightarrow> label = order_label order \<and> \<not> busy d (slot_key d label)
                  \<and> (\<forall>k. busy d' k \<longleftrightarrow> busy d k \<or> k = slot_key d label))
       | Queued cancelled stop label \<Rightarrow> label = order_label order \<and> busy d (slot_key d label)
           \<and> (\<forall>k. busy d' k \<longleftrightarrow> busy d k))"
proof (cases d)
  case (Serial s)
  then obtain s' where s': "insert_serial_order s order = Inr (s', update)" "d' = Serial s'"
    using assms(2) by (auto simp: insert_new_order_def rbind_eq_Inr)
  show ?thesis
    using insert_serial_order_shape [OF s'(1)] assms(1) Serial s'(2)
    by (cases update) (auto simp: insert_shape_def wf_delivery_def busy_def fun_eq_iff)
next
  case (Parallel m)
  show ?thesis
  proof (cases "do_instructions order")
    case None
    then show ?thesis using assms Parallel by (auto simp: insert_new_order_def)
  next
    case (Some i)
    let ?l = "di_label i"
    let ?s = "case hm_get m ?l of Some s \<Rightarrow> s | None \<Rightarrow> serial_default"
    obtain s' where s': "insert_serial_order ?s order = Inr (s', update)" "d' = Parallel (hm_insert ?l s' m)"
      using assms(2) Parallel Some by (auto simp: insert_new_order_def rbind_eq_Inr Let_def)
    have label: "order_label order = Some ?l" by (simp add: order_label_def Some)
    have busy: "busy d k \<longleftrightarrow> (\<exists>s. serial_at d k = Some s \<and> sd_delivering s \<noteq> None)" for k by (rule busy_def)
    have at: "serial_at d' k = (if k = Some ?l then Some s' else serial_at d k)" for k
      by (simp only: s'(2) serial_at_update Parallel)
    have old: "busy d (Some ?l) \<longleftrightarrow> sd_delivering ?s \<noteq> None"
      by (auto simp: busy_def Parallel serial_default_def split: option.split)
    have queue: "set (sd_queue ?s) \<subseteq> {order. order_label order = Some ?l}"
      using assms(1) Parallel by (auto simp: wf_delivery_def serial_default_def split: option.splits)
    have key: "slot_key d' = slot_key d" by (simp add: s'(2) Parallel fun_eq_iff)
    have "wf_delivery d'"
      unfolding wf_delivery_def at key
      using insert_serial_order_shape [OF s'(1)] assms(1) queue label Parallel
      by (cases update) (auto simp: insert_shape_def wf_delivery_def)
    then show ?thesis
      using insert_serial_order_shape [OF s'(1)] key at old label
      by (cases update) (auto simp: insert_shape_def busy_def Parallel)
  qed
qed

lemma pop_next_delivery_total:
  "serial_at d (slot_key d label) \<noteq> None \<Longrightarrow> \<exists>x. pop_next_delivery provider label d = Inr x"
  by (cases d; cases label) (auto simp: pop_next_delivery_def Let_def split: prod.split option.split)

lemma pop_next_delivery_slots:
  assumes "wf_delivery d" and "pop_next_delivery provider label d = Inr (d', next)"
  shows "wf_delivery d' \<and> slot_key d' = slot_key d
    \<and> (case next of
         None \<Rightarrow> waiting_orders d (slot_key d label) = [] \<and> (\<forall>k. busy d' k \<longleftrightarrow> busy d k \<and> k \<noteq> slot_key d label)
       | Some x \<Rightarrow> slot_key d (bl_label (dl_blocker x)) = slot_key d label
           \<and> (\<exists>order. waiting_orders d (slot_key d label) = order # waiting_orders d' (slot_key d label)
                \<and> dl_request x = do_request order \<and> dl_task_id x = do_task_id order
                \<and> bl_request_id (dl_blocker x) = do_request_id order)
           \<and> (\<forall>k. busy d' k \<longleftrightarrow> busy d k \<or> k = slot_key d label))"
proof (cases d)
  case (Serial s)
  then obtain s' where s': "pop_next_delivery_impl provider s = (s', next)" "d' = Serial s'"
    using assms(2) by (auto simp: pop_next_delivery_def split: prod.splits)
  then show ?thesis
    using assms(1) Serial
    by (auto simp: pop_next_delivery_impl_def wf_delivery_def busy_def waiting_orders_def fun_eq_iff
        split: list.splits)
next
  case (Parallel m)
  obtain l s s' where l: "label = Some l" and s: "hm_get m l = Some s"
    and s': "pop_next_delivery_impl provider s = (s', next)" "d' = Parallel (hm_insert l s' m)"
    using assms(2) Parallel by (auto simp: pop_next_delivery_def split: prod.splits option.splits)
  have at: "serial_at d' k = (if k = Some l then Some s' else serial_at d k)" for k
    by (simp only: s'(2) serial_at_update Parallel)
  have key: "slot_key d' = slot_key d" by (simp add: s'(2) Parallel fun_eq_iff)
  have at_l: "serial_at d (Some l) = Some s" by (simp add: Parallel s)
  have queue: "\<forall>order \<in> set (sd_queue s). order_label order = Some l"
    using assms(1) at_l Parallel by (auto simp: wf_delivery_def)
  have "wf_delivery d'"
    unfolding wf_delivery_def at key
    using s'(1) assms(1) queue Parallel
    by (auto simp: pop_next_delivery_impl_def wf_delivery_def split: list.splits)
  then show ?thesis
    using s'(1) key at at_l l queue
    by (auto simp: pop_next_delivery_impl_def busy_def waiting_orders_def Parallel order_label_def
        split: list.splits)
qed

lemma cleanup_delivery_slots:
  assumes "wf_delivery d"
  shows "wf_delivery (cleanup_delivery session d) \<and> slot_key (cleanup_delivery session d) = slot_key d
    \<and> busy (cleanup_delivery session d) k = busy d k"
proof -
  have at: "serial_at (cleanup_delivery session d) k = map_option (serial_cleanup session) (serial_at d k)" for k
  proof (cases d)
    case (Parallel m)
    have "map_of (map (\<lambda>(l, s). (l, serial_cleanup session s)) m) = map_option (serial_cleanup session) \<circ> map_of m"
      by (rule map_of_map)
    then show ?thesis using Parallel by (cases k) simp_all
  qed simp
  have key: "slot_key (cleanup_delivery session d) = slot_key d" by (cases d) (simp_all add: fun_eq_iff)
  show ?thesis
    using assms unfolding wf_delivery_def busy_def at key by (auto simp: serial_cleanup_def)
qed

subsection \<open>Holders of slots\<close>

definition balanced :: "('r, 'l) delivery \<Rightarrow> 'l option multiset \<Rightarrow> bool" where
  "balanced d ks \<longleftrightarrow> wf_delivery d \<and> (\<forall>k. count ks k \<le> 1) \<and> (\<forall>k. k \<in># ks \<longrightarrow> busy d k)"

lemma balanced_mono: "balanced d ks \<Longrightarrow> ks' \<subseteq># ks \<Longrightarrow> balanced d ks'"
  by (meson balanced_def mset_subset_eqD mset_subset_eq_count order_trans)

lemma balanced_add: "balanced d (add_mset k ks) \<longleftrightarrow> balanced d ks \<and> k \<notin># ks \<and> busy d k"
  by (auto simp: balanced_def not_in_iff split: if_splits)

lemma balanced_cleanup: "balanced d ks \<Longrightarrow> balanced (cleanup_delivery session d) ks"
  using cleanup_delivery_slots [of d session] by (auto simp: balanced_def)

lemma balanced_insert:
  assumes "balanced d ks" and "insert_new_order d order = Inr (d', update)"
  shows "case update of
      Immediate (Some label) _ _ \<Rightarrow> balanced d' (add_mset (slot_key d label) ks)
    | _ \<Rightarrow> balanced d' ks"
  using assms insert_new_order_slots [OF _ assms(2)]
  by (auto simp: balanced_add split: delivery_update.split option.split) (auto simp: balanced_def)

lemma balanced_pop:
  assumes "balanced d (add_mset (slot_key d label) ks)" and "pop_next_delivery provider label d = Inr (d', next)"
  shows "case next of
      Some x \<Rightarrow> balanced d' (add_mset (slot_key d (bl_label (dl_blocker x))) ks)
    | None \<Rightarrow> balanced d' ks"
proof -
  have wf: "wf_delivery d" and ks: "balanced d ks" "slot_key d label \<notin># ks"
    using assms(1) by (simp_all add: balanced_add) (simp add: balanced_def)
  show ?thesis
  proof (cases "next")
    case None
    then have "wf_delivery d'" "\<forall>k. busy d' k \<longleftrightarrow> busy d k \<and> k \<noteq> slot_key d label"
      using pop_next_delivery_slots [OF wf assms(2)] by auto
    then show ?thesis using ks None by (auto simp: balanced_def)
  next
    case (Some x)
    then have "wf_delivery d'" "slot_key d (bl_label (dl_blocker x)) = slot_key d label"
      "\<forall>k. busy d' k \<longleftrightarrow> busy d k \<or> k = slot_key d label"
      using pop_next_delivery_slots [OF wf assms(2)] by auto
    then show ?thesis using ks Some by (simp add: balanced_add) (simp add: balanced_def)
  qed
qed

lemma balanced_pop_total:
  "balanced d (add_mset (slot_key d label) ks) \<Longrightarrow> \<exists>x. pop_next_delivery provider label d = Inr x"
  by (rule pop_next_delivery_total) (auto simp: balanced_add busy_def)

subsection \<open>Properties\<close>

definition preempted_by :: "('r, 'l) delivery_order \<Rightarrow> ('r, 'l) delivery_order \<Rightarrow> bool" where
  "preempted_by order prior \<longleftrightarrow> (case (do_instructions order, do_instructions prior) of
     (Some incoming, Some p) \<Rightarrow> di_preempt incoming \<and> di_label p = di_label incoming \<and> \<not> di_ensure p
   | _ \<Rightarrow> False)"

definition stoppage_of :: "('r, 'l) delivery_order \<Rightarrow> delivery_stoppage" where
  "stoppage_of order = \<lparr>ds_request_id = do_request_id order, ds_task_id = do_task_id order\<rparr>"

lemma insert_serial_order_queued:
  assumes "insert_serial_order s order = Inr (s', Queued cancelled stop label)"
  shows "sd_queue s' = filter (\<lambda>o'. \<not> preempted_by order o') (sd_queue s) @ [order]
    \<and> cancelled = map stoppage_of (filter (preempted_by order) (sd_queue s))"
proof -
  have eq: "discards i (do_instructions o') \<and> di_preempt i \<longleftrightarrow> preempted_by order o'"
    if "do_instructions order = Some i" for i o'
    using that by (auto simp: preempted_by_def discards_def should_discard_def split: option.split)
  have none: "\<not> preempted_by order o'" if "do_instructions order = None" for o'
    using that by (simp add: preempted_by_def)
  show ?thesis
  proof (cases "do_instructions order")
    case None
    then show ?thesis
      using assms none by (auto simp: insert_serial_order_def split: option.splits if_splits)
  next
    case (Some i)
    have "filter (\<lambda>e. discards i (do_instructions e)) q = filter (preempted_by order) q"
      "filter (\<lambda>e. \<not> discards i (do_instructions e)) q = filter (\<lambda>o'. \<not> preempted_by order o') q"
      if "di_preempt i" for q
      using eq [OF Some] that by (auto intro!: filter_cong)
    moreover have "\<not> preempted_by order o'" if "\<not> di_preempt i" for o' using eq [OF Some] that by blast
    ultimately show ?thesis
      using assms Some
      by (auto simp: insert_serial_order_def Let_def stoppage_of_def split: option.splits if_splits)
  qed
qed

text \<open>C31: an order that has to wait cancels exactly the waiting orders that it preempts, in the order of the
  queue, and goes to the end. An order with preemptive instructions preempts the orders with its label
  that are not ensured; any other order preempts none. The orders that are not preempted keep their
  place, and the queues of other labels do not change.\<close>

theorem insertion_cancels_exactly_preempted:
  assumes "insert_new_order d order = Inr (d', Queued cancelled stop label)"
  defines "k \<equiv> slot_key d (order_label order)"
  shows "waiting_orders d' k = filter (\<lambda>o'. \<not> preempted_by order o') (waiting_orders d k) @ [order]
    \<and> cancelled = map stoppage_of (filter (preempted_by order) (waiting_orders d k))
    \<and> (\<forall>k'. k' \<noteq> k \<longrightarrow> waiting_orders d' k' = waiting_orders d k')"
proof (cases d)
  case (Serial s)
  then obtain s' where s': "insert_serial_order s order = Inr (s', Queued cancelled stop label)" "d' = Serial s'"
    using assms(1) by (auto simp: insert_new_order_def rbind_eq_Inr)
  then show ?thesis using insert_serial_order_queued [OF s'(1)] Serial by (simp add: waiting_orders_def k_def)
next
  case (Parallel m)
  then obtain i where i: "do_instructions order = Some i"
    using assms(1) by (cases "do_instructions order") (auto simp: insert_new_order_def)
  let ?s = "case hm_get m (di_label i) of Some s \<Rightarrow> s | None \<Rightarrow> serial_default"
  obtain s' where s': "insert_serial_order ?s order = Inr (s', Queued cancelled stop label)"
      "d' = Parallel (hm_insert (di_label i) s' m)"
    using assms(1) Parallel i by (auto simp: insert_new_order_def rbind_eq_Inr Let_def)
  have k: "k = Some (di_label i)" by (simp add: k_def Parallel order_label_def i)
  have old: "waiting_orders d k = sd_queue ?s"
    by (auto simp: waiting_orders_def k Parallel serial_default_def split: option.split)
  have new: "waiting_orders d' k' = (if k' = k then sd_queue s' else waiting_orders d k')" for k'
    by (simp add: waiting_orders_def s'(2) serial_at_update k Parallel del: slot_simps)
  show ?thesis using insert_serial_order_queued [OF s'(1)] by (simp add: old new)
qed

definition demo_order :: "nat \<Rightarrow> nat delivery_instructions \<Rightarrow> (nat, nat) delivery_order" where
  "demo_order n i = \<lparr>do_request_id = \<lparr>rq_session = 7, rq_source = 5, rq_seq = of_nat n\<rparr>, do_task_id = n,
     do_request = n, do_instructions = Some i\<rparr>"

definition demo_delivery :: "(nat, nat) delivery" where
  "demo_delivery = Serial \<lparr>sd_delivering = Some \<lparr>ad_request_id = \<lparr>rq_session = 7, rq_source = 5, rq_seq = 0\<rparr>,
      ad_task_id = 0, ad_instructions = None\<rparr>,
     sd_queue = [demo_order 1 (instructions_new 1), demo_order 2 (with_ensured True (instructions_new 1)),
       demo_order 3 (instructions_new 2)]\<rparr>"

lemma insertion_cancels_exactly_preempted_witness:
  "\<exists>d' stop label. insert_new_order demo_delivery (demo_order 4 (with_preemptive True (instructions_new 1))) =
      Inr (d', Queued [stoppage_of (demo_order 1 (instructions_new 1))] stop label)
    \<and> map do_task_id (waiting_orders d' None) = [2, 3, 4]"
proof -
  let ?o = "demo_order 4 (with_preemptive True (instructions_new 1))"
  obtain d' cancelled stop label where i: "insert_new_order demo_delivery ?o = Inr (d', Queued cancelled stop label)"
    by (simp add: insert_new_order_def demo_delivery_def insert_serial_order_def demo_order_def Let_def)
  from insertion_cancels_exactly_preempted [OF i] i show ?thesis
    by (simp add: demo_delivery_def waiting_orders_def preempted_by_def demo_order_def instructions_new_def
        with_preemptive_def with_ensured_def)
qed

end
