(* ===== verification/Effects.thy ===== *)
theory Effects
  imports Prelude
begin

text \<open>
  Operations on a state that may fail: a function from the state to the state and a result. An
  operation that fails keeps the changes it made before, as a method on \<open>&mut World\<close> does that
  returns early with \<open>?\<close>.

  \<^item> \<open>ebind\<close> is the question-mark operator in sequence, \<open>each\<close> a \<open>for\<close> loop over a body that may
    return early, \<open>attempt\<close> runs an operation whose error is only logged.
  \<^item> \<open>keeps P m\<close>: the operation \<open>m\<close> preserves \<open>P\<close>, whether it fails or not. Its rules decompose
    operations along their syntax; they are collected in \<open>keeps_rules\<close>.
\<close>

named_theorems keeps_rules \<open>preservation of a predicate by compound operations\<close>

definition ebind ::
  "('w \<Rightarrow> 'w \<times> ('e + 'a)) \<Rightarrow> ('a \<Rightarrow> 'w \<Rightarrow> 'w \<times> ('e + 'b)) \<Rightarrow> 'w \<Rightarrow> 'w \<times> ('e + 'b)" where
  "ebind m f w = (case m w of (w', Inl e) \<Rightarrow> (w', Inl e) | (w', Inr x) \<Rightarrow> f x w')"

lemma ebind_Inr: "m w = (w', Inr x) \<Longrightarrow> ebind m f w = f x w'"
  by (simp add: ebind_def)

lemma ebind_Inl: "m w = (w', Inl e) \<Longrightarrow> ebind m f w = (w', Inl e)"
  by (simp add: ebind_def)

fun each :: "('a \<Rightarrow> 'w \<Rightarrow> 'w \<times> ('e + unit)) \<Rightarrow> 'a list \<Rightarrow> 'w \<Rightarrow> 'w \<times> ('e + unit)" where
  "each f [] w = (w, Inr ())"
| "each f (x # xs) w = ebind (f x) (\<lambda>_. each f xs) w"

definition attempt :: "('w \<Rightarrow> 'w \<times> ('e + 'a)) \<Rightarrow> 'w \<Rightarrow> 'w" where
  "attempt m w = fst (m w)"

definition or_error :: "'e \<Rightarrow> ('w \<Rightarrow> 'a option) \<Rightarrow> 'w \<Rightarrow> 'w \<times> ('e + 'a)" where
  "or_error e get w = (w, ok_or (get w) e)"

definition modify :: "('w \<Rightarrow> 'w) \<Rightarrow> 'w \<Rightarrow> 'w \<times> ('e + unit)" where
  "modify f w = (f w, Inr ())"

primrec update_first :: "('a \<Rightarrow> bool) \<Rightarrow> ('a \<Rightarrow> 'a) \<Rightarrow> 'a list \<Rightarrow> 'a list" where
  "update_first P f [] = []"
| "update_first P f (x # xs) = (if P x then f x # xs else x # update_first P f xs)"

lemma map_update_first: "(\<And>x. g (f x) = g x) \<Longrightarrow> map g (update_first P f xs) = map g xs"
  by (induction xs) simp_all

lemma set_update_first: "y \<in> set (update_first P f xs) \<Longrightarrow> y \<in> set xs \<or> (\<exists>x \<in> set xs. P x \<and> y = f x)"
  by (induction xs) (auto split: if_splits)

subsection \<open>Preservation\<close>

definition keeps :: "('w \<Rightarrow> bool) \<Rightarrow> ('w \<Rightarrow> 'w \<times> ('e + 'a)) \<Rightarrow> bool" where
  "keeps P m \<longleftrightarrow> (\<forall>w. P w \<longrightarrow> P (fst (m w)))"

lemma keepsI: "(\<And>w. P w \<Longrightarrow> P (fst (m w))) \<Longrightarrow> keeps P m"
  by (simp add: keeps_def)

lemma keepsD: "keeps P m \<Longrightarrow> P w \<Longrightarrow> P (fst (m w))"
  by (simp add: keeps_def)

lemma keeps_ebind [keeps_rules]:
  assumes "keeps P m" and "\<And>x. keeps P (f x)"
  shows "keeps P (ebind m f)"
proof (rule keepsI)
  fix w assume "P w"
  obtain w' r where m: "m w = (w', r)" by fastforce
  have "P w'" using keepsD [OF assms(1) \<open>P w\<close>] m by simp
  then show "P (fst (ebind m f w))"
    using assms(2) m by (cases r) (auto simp: ebind_def keeps_def)
qed

lemma keeps_each [keeps_rules]: "(\<And>x. x \<in> set xs \<Longrightarrow> keeps P (f x)) \<Longrightarrow> keeps P (each f xs)"
proof (induction xs)
  case (Cons x xs)
  have "keeps P (ebind (f x) (\<lambda>_. each f xs))" by (intro keeps_ebind) (simp_all add: Cons)
  then show ?case by (simp add: keeps_def)
qed (simp add: keeps_def)

lemma keeps_or_error [keeps_rules]: "keeps P (or_error e get)"
  by (simp add: keeps_def or_error_def)

lemma keeps_modify [keeps_rules]: "(\<And>w. P w \<Longrightarrow> P (f w)) \<Longrightarrow> keeps P (modify f)"
  by (simp add: keeps_def modify_def)

lemma keeps_if [keeps_rules]:
  "(b \<Longrightarrow> keeps P m) \<Longrightarrow> (\<not> b \<Longrightarrow> keeps P m') \<Longrightarrow> keeps P (if b then m else m')"
  by simp

lemma keeps_attempt: "keeps P m \<Longrightarrow> P w \<Longrightarrow> P (attempt m w)"
  by (simp add: keeps_def attempt_def)

lemma fold_keeps: "(\<And>x w. x \<in> set xs \<Longrightarrow> P w \<Longrightarrow> P (f x w)) \<Longrightarrow> P w \<Longrightarrow> P (fold f xs w)"
  by (induction xs arbitrary: w) auto

subsection \<open>Triples\<close>

text \<open>
  \<open>triple P m E Q\<close>: started in a state with \<open>P\<close>, the operation \<open>m\<close> ends with a result and a state in
  \<open>Q\<close> or with an error in \<open>E\<close>.
\<close>

named_theorems triple_rules \<open>triples of compound operations\<close>

definition triple ::
  "('w \<Rightarrow> bool) \<Rightarrow> ('w \<Rightarrow> 'w \<times> ('e + 'a)) \<Rightarrow> ('e \<Rightarrow> bool) \<Rightarrow> ('a \<Rightarrow> 'w \<Rightarrow> bool) \<Rightarrow> bool" where
  "triple P m E Q \<longleftrightarrow>
     (\<forall>w. P w \<longrightarrow> (case m w of (w', Inl e) \<Rightarrow> E e | (w', Inr x) \<Rightarrow> Q x w'))"

lemma tripleI:
  "(\<And>w w' e. P w \<Longrightarrow> m w = (w', Inl e) \<Longrightarrow> E e) \<Longrightarrow> (\<And>w w' x. P w \<Longrightarrow> m w = (w', Inr x) \<Longrightarrow> Q x w')
     \<Longrightarrow> triple P m E Q"
  by (auto simp: triple_def split: prod.split sum.split)

lemma triple_Inl: "triple P m E Q \<Longrightarrow> P w \<Longrightarrow> m w = (w', Inl e) \<Longrightarrow> E e"
  by (force simp: triple_def)

lemma triple_Inr: "triple P m E Q \<Longrightarrow> P w \<Longrightarrow> m w = (w', Inr x) \<Longrightarrow> Q x w'"
  by (force simp: triple_def)

lemma triple_ebind:
  assumes "triple P m E Q" and "\<And>x. triple (Q x) (f x) E R"
  shows "triple P (ebind m f) E R"
  unfolding triple_def
proof (intro allI impI)
  fix w assume "P w"
  obtain w' r where m: "m w = (w', r)" by fastforce
  show "case ebind m f w of (w', Inl e) \<Rightarrow> E e | (w', Inr x) \<Rightarrow> R x w'"
  proof (cases r)
    case (Inl e)
    then show ?thesis using triple_Inl [OF assms(1) \<open>P w\<close>] m by (simp add: ebind_def)
  next
    case (Inr x)
    then have "Q x w'" using triple_Inr [OF assms(1) \<open>P w\<close>] m by simp
    then show ?thesis using assms(2) [of x] m Inr by (simp add: ebind_def triple_def)
  qed
qed

lemma triple_if:
  "(b \<Longrightarrow> triple P m E Q) \<Longrightarrow> (\<not> b \<Longrightarrow> triple P m' E Q) \<Longrightarrow> triple P (if b then m else m') E Q"
  by simp

lemma triple_weaken:
  "triple P m E Q \<Longrightarrow> (\<And>w. P' w \<Longrightarrow> P w) \<Longrightarrow> (\<And>x w. Q x w \<Longrightarrow> Q' x w) \<Longrightarrow> triple P' m E Q'"
  by (fastforce simp: triple_def split: prod.splits sum.splits)

definition return :: "'a \<Rightarrow> 'w \<Rightarrow> 'w \<times> ('e + 'a)" where
  "return x w = (w, Inr x)"

lemma triple_return: "(\<And>w. P w \<Longrightarrow> Q x w) \<Longrightarrow> triple P (return x) E Q"
  by (simp add: triple_def return_def)

text \<open>\<open>first_true\<close> is a \<open>for\<close> loop whose body may return \<open>true\<close> early.\<close>

fun first_true :: "('a \<Rightarrow> 'w \<Rightarrow> 'w \<times> ('e + bool)) \<Rightarrow> 'a list \<Rightarrow> 'w \<Rightarrow> 'w \<times> ('e + bool)" where
  "first_true f [] w = (w, Inr False)"
| "first_true f (x # xs) w = ebind (f x) (\<lambda>b. if b then return True else first_true f xs) w"

lemma first_true_Nil: "first_true f [] = return False"
  by (rule ext) (simp add: return_def)

lemma first_true_Cons: "first_true f (x # xs) = ebind (f x) (\<lambda>b. if b then return True else first_true f xs)"
  by (rule ext) simp

end
