(* ===== verification/CleanupTracking.thy ===== *)
theory CleanupTracking
  imports Effects Inputs
begin

text \<open>
  How the entity that asked for a cleanup learns that all nodes are clean: \<open>Cleanup\<close> and
  \<open>CleanupContents\<close> of \<open>src/src/operation/cleanup.rs\<close>. \<open>cleaners\<close> are the \<open>CleanupContents\<close>
  components of all entities that have one; the list of cleanups is the \<open>cleanup_finished\<close> stack of
  the roster, which the flush pops from its end.
\<close>

record cleanup =
  cu_cleaner :: entity
  cu_node :: entity
  cu_session :: entity
  cu_id :: request_id

type_synonym cleanup_contents = "(request_id, entity list) hmap"
type_synonym cleaners = "(entity, cleanup_contents) hmap"

definition add_cleanup :: "request_id \<Rightarrow> entity list \<Rightarrow> cleanup_contents \<Rightarrow> cleanup_contents" where
  "add_cleanup cleanup_id nodes self = hm_insert cleanup_id nodes self"

definition register_cleanup_of_node ::
  "request_id \<Rightarrow> entity \<Rightarrow> cleanup_contents \<Rightarrow> cleanup_contents \<times> bool" where
  "register_cleanup_of_node cleanup_id node self =
     (case hm_get self cleanup_id of
        None \<Rightarrow> (self, False)
      | Some nodes \<Rightarrow>
          let nodes = filter (\<lambda>n. n \<noteq> node) nodes
          in (hm_insert cleanup_id nodes self, nodes = []))"

definition notify_cleaner ::
  "cleanup \<Rightarrow> cleaners \<times> cleanup list \<Rightarrow> (cleaners \<times> cleanup list) \<times> (operation_error + unit)" where
  "notify_cleaner c = (\<lambda>(cleaners, finished).
     case hm_get cleaners (cu_cleaner c) of
       None \<Rightarrow> ((cleaners, finished), Inl Broken)
     | Some contents \<Rightarrow>
         let (contents, last) = register_cleanup_of_node (cu_id c) (cu_node c) contents
         in if last
            then ((hm_insert (cu_cleaner c) (AList.delete (cu_id c) contents) cleaners, finished @ [c]), Inr ())
            else ((hm_insert (cu_cleaner c) contents cleaners, finished), Inr ()))"

definition forget_cleanup :: "cleanup \<Rightarrow> cleaners \<Rightarrow> cleaners" where
  "forget_cleanup c cleaners =
     (case hm_get cleaners (cu_cleaner c) of
        None \<Rightarrow> cleaners
      | Some contents \<Rightarrow> hm_insert (cu_cleaner c) (AList.delete (cu_id c) contents) cleaners)"

subsection \<open>What a cleaner waits for\<close>

definition awaited :: "cleaners \<Rightarrow> entity \<Rightarrow> request_id \<Rightarrow> entity list option" where
  "awaited cleaners cleaner cleanup_id =
     (case hm_get cleaners cleaner of None \<Rightarrow> None | Some contents \<Rightarrow> hm_get contents cleanup_id)"

lemma awaited_forget:
  "awaited (forget_cleanup c m) e i = (if e = cu_cleaner c \<and> i = cu_id c then None else awaited m e i)"
  by (auto simp: awaited_def forget_cleanup_def split: option.split)

text \<open>
  A notification removes its node from what the cleaner awaits; the cleanup is finished when none is
  left. It changes nothing if the cleaner awaits nothing under its id.
\<close>

lemma notify_cleaner_cases:
  assumes "notify_cleaner c (m, fs) = ((m', fs'), r)"
  shows "dom (hm_get m') = dom (hm_get m)
    \<and> (case awaited m (cu_cleaner c) (cu_id c) of
        None \<Rightarrow> fs' = fs \<and> awaited m' = awaited m
      | Some nodes \<Rightarrow>
          let rest = filter (\<lambda>n. n \<noteq> cu_node c) nodes
          in fs' = (if rest = [] then fs @ [c] else fs)
           \<and> awaited m' = (awaited m)(cu_cleaner c := (awaited m (cu_cleaner c))
                (cu_id c := if rest = [] then None else Some rest)))"
proof (cases "hm_get m (cu_cleaner c)")
  case None
  then show ?thesis using assms by (auto simp: notify_cleaner_def awaited_def)
next
  case (Some contents)
  show ?thesis
  proof (cases "hm_get contents (cu_id c)")
    case None
    then show ?thesis
      using assms Some
      by (auto simp: notify_cleaner_def register_cleanup_of_node_def awaited_def hm_insert_get_same)
  next
    case (Some nodes)
    then show ?thesis
      using assms \<open>hm_get m (cu_cleaner c) = Some contents\<close>
      by (auto simp: notify_cleaner_def register_cleanup_of_node_def Let_def awaited_def fun_eq_iff
          split: if_splits)
  qed
qed

end
