(* ===== verification/AsyncService.thy ===== *)
theory AsyncService
  imports Delivery CleanupTracking
begin

text \<open>
  An asynchronous service and its tasks: \<open>src/src/service/async_srv.rs\<close> (serving, the loop that
  serves the next request) and \<open>src/src/operation/operate_task.rs\<close> (tasks: finishing, stopping,
  cleaning), on top of the queue of \<open>Delivery\<close>.

  \<^item> The state is that of one provider: its \<open>Delivery\<close> component (\<open>None\<close> once it is gone), the task
    entities that are alive, those with an \<open>OperateTask\<close> component, those marked \<open>AlreadyStopping\<close>,
    the \<open>ActiveTasksStorage\<close> entries of all nodes that use the provider, the \<open>unblock\<close> queue of the
    roster, and the closures that dropped or cleaned tasks send once their cancellation is through.
  \<^item> What the world decides is the environment of a step: whether the node that made a request still
    has a target, and whether \<open>serve_async_request\<close> gets as far as adding the task (the provider
    still has its service and the streams of the channel could be set up).
  \<^item> The disposal of the inputs that wait at nodes of a despawned provider, streams, tracing and the
    polling of futures are left out; a task that finishes is a step that can happen at any time.
\<close>

subsection \<open>State\<close>

record 'l task =
  tk_id :: entity
  tk_request :: request_id
  tk_blocker :: "'l blocker option"
  tk_being_cleaned :: "cleanup option"

record active_task =
  at_node :: entity
  at_task :: entity
  at_session :: entity
  at_being_cleaned :: "cleanup option"

record 'l closure =
  cs_task :: entity
  cs_node :: entity
  cs_unblock :: "'l blocker option"
  cs_being_cleaned :: "cleanup option"
  cs_disposal :: "(request_id \<times> request_id) option"

record ('r, 'l) service_world =
  sv_provider :: entity
  sv_delivery :: "('r, 'l) delivery option"
  sv_next_entity :: entity
  sv_entities :: "entity list"
  sv_tasks :: "'l task list"
  sv_stopping :: "entity list"
  sv_active :: "active_task list"
  sv_unblock :: "'l blocker list"
  sv_closures :: "'l closure list"
  sv_supplanted :: "(request_id \<times> request_id) list"
  sv_stop_failures :: "entity list"
  sv_cleaned :: "cleanup list"

record 'r environment =
  env_has_target :: "entity \<Rightarrow> bool"
  env_launches :: "request_id \<Rightarrow> 'r \<Rightarrow> bool"

definition roster_unblock :: "'l blocker \<Rightarrow> ('r, 'l) service_world \<Rightarrow> ('r, 'l) service_world" where
  "roster_unblock b w = w\<lparr>sv_unblock := sv_unblock w @ [b]\<rparr>"

definition notify_cleaned :: "cleanup \<Rightarrow> ('r, 'l) service_world \<Rightarrow> ('r, 'l) service_world" where
  "notify_cleaned c w = w\<lparr>sv_cleaned := sv_cleaned w @ [c]\<rparr>"

subsection \<open>Tasks\<close>

definition blocked_by_cleanup :: "entity \<Rightarrow> cleanup \<Rightarrow> active_task \<Rightarrow> bool" where
  "blocked_by_cleanup node c other \<longleftrightarrow> at_node other = node
     \<and> (case at_being_cleaned other of Some c' \<Rightarrow> cu_id c' = cu_id c | None \<Rightarrow> False)"

definition cleanup_task ::
  "entity \<Rightarrow> entity \<Rightarrow> 'l blocker option \<Rightarrow> cleanup option
     \<Rightarrow> ('r, 'l) service_world \<Rightarrow> ('r, 'l) service_world" where
  "cleanup_task source node unblock being_cleaned w =
     (let w = (case unblock of Some b \<Rightarrow> roster_unblock b w | None \<Rightarrow> w);
          active = filter (\<lambda>a. \<not> (at_node a = node \<and> at_task a = source)) (sv_active w);
          w = w\<lparr>sv_active := active\<rparr>;
          w = (case being_cleaned of
                 Some c \<Rightarrow> if list_ex (blocked_by_cleanup node c) active then w else notify_cleaned c w
               | None \<Rightarrow> w)
      in w\<lparr>sv_entities := filter (\<lambda>e. e \<noteq> source) (sv_entities w),
           sv_tasks := filter (\<lambda>t. tk_id t \<noteq> source) (sv_tasks w),
           sv_stopping := filter (\<lambda>e. e \<noteq> source) (sv_stopping w)\<rparr>)"

text \<open>\<open>OperateTask::add\<close> with its \<open>setup\<close>.\<close>

definition add_task ::
  "entity \<Rightarrow> request_id \<Rightarrow> 'l blocker option \<Rightarrow> ('r, 'l) service_world \<Rightarrow> ('r, 'l) service_world" where
  "add_task source req blocker w =
     w\<lparr>sv_tasks := sv_tasks w @ [\<lparr>tk_id = source, tk_request = req, tk_blocker = blocker,
          tk_being_cleaned = None\<rparr>],
       sv_active := sv_active w @ [\<lparr>at_node = rq_source req, at_task = source,
          at_session = rq_session req, at_being_cleaned = None\<rparr>]\<rparr>"

definition find_task :: "entity \<Rightarrow> ('r, 'l) service_world \<Rightarrow> 'l task option" where
  "find_task source w = find (\<lambda>t. tk_id t = source) (sv_tasks w)"

text \<open>\<open>OperateTask::execute\<close> when the poll says that the future is ready.\<close>

definition finish_task :: "entity \<Rightarrow> ('r, 'l) service_world \<Rightarrow> ('r, 'l) service_world" where
  "finish_task source w =
     (case find_task source w of
        None \<Rightarrow> w
      | Some t \<Rightarrow>
          (if tk_being_cleaned t \<noteq> None then w
           else cleanup_task source (rq_source (tk_request t)) (tk_blocker t) None w))"

text \<open>
  \<open>stop_task\<close>: taking the \<open>OperateTask\<close> component drops it; its \<open>Drop\<close> sends a closure once the
  task is cancelled, unless the task finished normally or is being cleaned already.
\<close>

definition stop_task ::
  "entity \<Rightarrow> request_id \<Rightarrow> ('r, 'l) service_world \<Rightarrow> ('r, 'l) service_world \<times> (operation_error + unit)" where
  "stop_task source supplanter w =
     (case find_task source w of
        Some t \<Rightarrow>
          let w = w\<lparr>sv_tasks := filter (\<lambda>t. tk_id t \<noteq> source) (sv_tasks w),
                    sv_stopping := sv_stopping w @ [source]\<rparr>
          in (if tk_being_cleaned t \<noteq> None then w
              else w\<lparr>sv_closures := sv_closures w @ [\<lparr>cs_task = source,
                     cs_node = rq_source (tk_request t), cs_unblock = tk_blocker t,
                     cs_being_cleaned = None, cs_disposal = Some (tk_request t, supplanter)\<rparr>]\<rparr>,
              Inr ())
      | None \<Rightarrow> (w, if source \<in> set (sv_stopping w) then Inr () else Inl Broken))"

text \<open>The closure that a cancelled task sends through the channel.\<close>

definition run_closure :: "'l closure \<Rightarrow> ('r, 'l) service_world \<Rightarrow> ('r, 'l) service_world" where
  "run_closure c w =
     (let w = cleanup_task (cs_task c) (cs_node c) (cs_unblock c) (cs_being_cleaned c) w
      in case cs_disposal c of
           Some d \<Rightarrow> w\<lparr>sv_supplanted := sv_supplanted w @ [d]\<rparr>
         | None \<Rightarrow> w)"

subsection \<open>Cleaning a session\<close>

text \<open>\<open>OperateTask::cleanup\<close>: nothing happens (an error is logged) if the component is gone.\<close>

definition cleanup_operate_task ::
  "cleanup \<Rightarrow> entity \<Rightarrow> ('r, 'l) service_world \<Rightarrow> ('r, 'l) service_world" where
  "cleanup_operate_task c source w =
     (case find_task source w of
        None \<Rightarrow> w
      | Some t \<Rightarrow>
          let w' = w\<lparr>sv_tasks := map (\<lambda>t. if tk_id t = source
                then t\<lparr>tk_being_cleaned := Some c, tk_blocker := None\<rparr> else t) (sv_tasks w)\<rparr>;
              node = rq_source (tk_request t)
          in if tk_being_cleaned t = None
             then w'\<lparr>sv_closures := sv_closures w @ [\<lparr>cs_task = source, cs_node = node,
                    cs_unblock = tk_blocker t, cs_being_cleaned = Some c, cs_disposal = None\<rparr>]\<rparr>
             else cleanup_task source node (tk_blocker t) (Some c) w')"

text \<open>\<open>OperateService::cleanup\<close> from \<open>Delivery::cleanup\<close> on, for a provider that is no workflow.\<close>

definition cleanup_service ::
  "cleanup \<Rightarrow> ('r, 'l) service_world \<Rightarrow> ('r, 'l) service_world" where
  "cleanup_service c w =
     (let w = w\<lparr>sv_delivery := map_option (cleanup_delivery (cu_session c)) (sv_delivery w)\<rparr>;
          mine = (\<lambda>a. at_node a = cu_node c \<and> at_session a = cu_session c);
          to_cleanup = map at_task (filter mine (sv_active w));
          w = w\<lparr>sv_active := map (\<lambda>a. if mine a then a\<lparr>at_being_cleaned := Some c\<rparr> else a) (sv_active w)\<rparr>;
          w = fold (cleanup_operate_task c) to_cleanup w
      in if to_cleanup = [] then notify_cleaned c w else w)"

subsection \<open>Serving\<close>

definition serve_async_request ::
  "'r environment \<Rightarrow> 'r \<Rightarrow> 'l blocker option \<Rightarrow> request_id \<Rightarrow> entity
     \<Rightarrow> ('r, 'l) service_world \<Rightarrow> ('r, 'l) service_world \<times> (operation_error + unit)" where
  "serve_async_request env request blocker req task_id w =
     (if env_launches env req request then (add_task task_id req blocker w, Inr ())
      else (w, Inl NotReady))"

definition despawn_cancelled ::
  "request_id \<Rightarrow> delivery_stoppage \<Rightarrow> ('r, 'l) service_world \<Rightarrow> ('r, 'l) service_world" where
  "despawn_cancelled supplanter s w =
     w\<lparr>sv_supplanted := sv_supplanted w @ [(ds_request_id s, supplanter)],
       sv_entities := filter (\<lambda>e. e \<noteq> ds_task_id s) (sv_entities w)\<rparr>"

definition stop_delivering ::
  "request_id \<Rightarrow> 'l option \<Rightarrow> delivery_stoppage \<Rightarrow> ('r, 'l) service_world \<Rightarrow> ('r, 'l) service_world" where
  "stop_delivering supplanter label s w =
     (let (w, r) = stop_task (ds_task_id s) supplanter w
      in case r of
           Inl Broken \<Rightarrow>
             roster_unblock \<lparr>bl_provider = sv_provider w, bl_request_id = ds_request_id s, bl_label = label\<rparr>
               (w\<lparr>sv_stop_failures := sv_stop_failures w @ [ds_task_id s]\<rparr>)
         | _ \<Rightarrow> w)"

definition serve_async ::
  "'r environment \<Rightarrow> request_id \<Rightarrow> 'r \<Rightarrow> 'l delivery_instructions option
     \<Rightarrow> ('r, 'l) service_world \<Rightarrow> delivery_panic + ('r, 'l) service_world" where
  "serve_async env req request instructions w =
     (let task_id = sv_next_entity w;
          w = w\<lparr>sv_next_entity := Suc task_id, sv_entities := sv_entities w @ [task_id]\<rparr>
      in case sv_delivery w of
           None \<Rightarrow> Inr w
         | Some delivery \<Rightarrow>
             rbind (insert_new_order delivery \<lparr>do_request_id = req, do_task_id = task_id,
                 do_request = request, do_instructions = instructions\<rparr>)
               (\<lambda>(delivery, update).
                 let w = w\<lparr>sv_delivery := Some delivery\<rparr>
                 in case update of
                      Immediate blocking request seq \<Rightarrow>
                        let blocker = map_option (\<lambda>label. \<lparr>bl_provider = sv_provider w,
                              bl_request_id = req, bl_label = label\<rparr>) blocking
                        in Inr (fst (serve_async_request env request blocker req task_id w))
                    | Queued cancelled stop label \<Rightarrow>
                        let w = fold (despawn_cancelled req) cancelled w
                        in Inr (case stop of
                             None \<Rightarrow> w
                           | Some s \<Rightarrow> stop_delivering req label s w)))"

subsection \<open>Serving the next request\<close>

fun queued_orders :: "('r, 'l) delivery \<Rightarrow> nat" where
  "queued_orders (Serial s) = length (sd_queue s)"
| "queued_orders (Parallel m) = sum_list (map (\<lambda>(_, s). length (sd_queue s)) m)"

lemma queued_orders_update:
  "hm_get m l = Some s \<Longrightarrow> length (sd_queue s') < length (sd_queue s) \<Longrightarrow>
     sum_list (map (\<lambda>(_, s). length (sd_queue s)) (hm_insert l s' m))
       < sum_list (map (\<lambda>(_, s). length (sd_queue s)) m)"
  by (induction m) (auto split: if_splits)

lemma pop_next_delivery_impl_less:
  "pop_next_delivery_impl provider s = (s', Some d) \<Longrightarrow> length (sd_queue s') < length (sd_queue s)"
  by (auto simp: pop_next_delivery_impl_def split: list.splits)

lemma pop_next_delivery_less:
  "pop_next_delivery provider label delivery = Inr (delivery', Some d) \<Longrightarrow>
     queued_orders delivery' < queued_orders delivery"
  by (cases delivery)
    (auto simp: pop_next_delivery_def Let_def split: option.splits prod.splits
      dest!: pop_next_delivery_impl_less intro: queued_orders_update)

function serve_next_async_request ::
  "'r environment \<Rightarrow> 'l option \<Rightarrow> ('r, 'l) service_world \<Rightarrow> delivery_panic + ('r, 'l) service_world" where
  "serve_next_async_request env label w =
     (case sv_delivery w of
        None \<Rightarrow> Inr w
      | Some delivery \<Rightarrow>
          (case pop_next_delivery (sv_provider w) label delivery of
             Inl p \<Rightarrow> Inl p
           | Inr (delivery, None) \<Rightarrow> Inr (w\<lparr>sv_delivery := Some delivery\<rparr>)
           | Inr (delivery, Some d) \<Rightarrow>
               let w = w\<lparr>sv_delivery := Some delivery\<rparr>;
                   req = bl_request_id (dl_blocker d)
               in if env_has_target env (rq_source req) \<and> env_launches env req (dl_request d)
                  then Inr (fst (serve_async_request env (dl_request d) (Some (dl_blocker d)) req (dl_task_id d) w))
                  else serve_next_async_request env label w))"
  by pat_completeness auto
termination
  by (relation "measure (\<lambda>(env, label, w). case sv_delivery w of None \<Rightarrow> 0 | Some d \<Rightarrow> queued_orders d)")
    (auto dest: pop_next_delivery_less)

declare serve_next_async_request.simps [simp del]

text \<open>The flush takes the front of the \<open>unblock\<close> queue and serves the next request for its label.\<close>

definition process_unblock ::
  "'r environment \<Rightarrow> ('r, 'l) service_world \<Rightarrow> delivery_panic + ('r, 'l) service_world" where
  "process_unblock env w =
     (case sv_unblock w of
        [] \<Rightarrow> Inr w
      | b # bs \<Rightarrow> serve_next_async_request env (bl_label b) (w\<lparr>sv_unblock := bs\<rparr>))"

subsection \<open>Runs\<close>

definition service_init :: "entity \<Rightarrow> ('r, 'l) delivery \<Rightarrow> ('r, 'l) service_world" where
  "service_init provider delivery =
     \<lparr>sv_provider = provider, sv_delivery = Some delivery, sv_next_entity = 0, sv_entities = [],
      sv_tasks = [], sv_stopping = [], sv_active = [], sv_unblock = [], sv_closures = [],
      sv_supplanted = [], sv_stop_failures = [], sv_cleaned = []\<rparr>"

definition empty_delivery :: "('r, 'l) delivery \<Rightarrow> bool" where
  "empty_delivery d \<longleftrightarrow> d = Serial serial_default \<or> d = Parallel []"

text \<open>
  One step: a request arrives, a task finishes, a closure of a cancelled task arrives, an unblock is
  processed, a session of a node is cleaned, or the provider loses its delivery.
\<close>

inductive service_step :: "('r, 'l) service_world \<Rightarrow> ('r, 'l) service_world \<Rightarrow> bool" where
  serve: "serve_async env req request instructions w = Inr w' \<Longrightarrow> service_step w w'"
| finish: "service_step w (finish_task source w)"
| closure: "c \<in> set (sv_closures w) \<Longrightarrow>
     service_step w (run_closure c (w\<lparr>sv_closures := remove1 c (sv_closures w)\<rparr>))"
| unblock: "process_unblock env w = Inr w' \<Longrightarrow> service_step w w'"
| clean: "service_step w (cleanup_service c w)"
| remove: "service_step w (w\<lparr>sv_delivery := None\<rparr>)"

inductive_cases service_stepE: "service_step w w'"

inductive service_reachable :: "('r, 'l) service_world \<Rightarrow> bool" where
  init: "empty_delivery delivery \<Longrightarrow> service_reachable (service_init provider delivery)"
| step: "service_reachable w \<Longrightarrow> service_step w w' \<Longrightarrow> service_reachable w'"

subsection \<open>Who holds a slot\<close>

text \<open>The blockers that tasks, closures in flight and pending unblocks hold.\<close>

definition opt_mset :: "'a option \<Rightarrow> 'a multiset" where
  "opt_mset x = (case x of Some y \<Rightarrow> {#y#} | None \<Rightarrow> {#})"

lemma opt_mset_simps [simp]: "opt_mset None = {#}" "opt_mset (Some x) = {#x#}"
  by (simp_all add: opt_mset_def)

definition task_blockers :: "'l task list \<Rightarrow> 'l blocker multiset" where
  "task_blockers ts = sum_list (map (opt_mset \<circ> tk_blocker) ts)"

definition closure_blockers :: "'l closure list \<Rightarrow> 'l blocker multiset" where
  "closure_blockers cs = sum_list (map (opt_mset \<circ> cs_unblock) cs)"

definition blockers :: "('r, 'l) service_world \<Rightarrow> 'l blocker multiset" where
  "blockers w = task_blockers (sv_tasks w) + closure_blockers (sv_closures w) + mset (sv_unblock w)"

definition held_slots :: "('r, 'l) delivery \<Rightarrow> ('r, 'l) service_world \<Rightarrow> 'l option multiset" where
  "held_slots d w = image_mset (\<lambda>b. slot_key d (bl_label b)) (blockers w)"

definition exclusive :: "('r, 'l) service_world \<Rightarrow> bool" where
  "exclusive w \<longleftrightarrow> (\<forall>d. sv_delivery w = Some d \<longrightarrow> balanced d (held_slots d w))"

lemma task_blockers_simps [simp]:
  "task_blockers [] = {#}"
  "task_blockers (t # ts) = opt_mset (tk_blocker t) + task_blockers ts"
  "task_blockers (ts @ us) = task_blockers ts + task_blockers us"
  by (simp_all add: task_blockers_def)

lemma closure_blockers_simps [simp]:
  "closure_blockers [] = {#}"
  "closure_blockers (c # cs) = opt_mset (cs_unblock c) + closure_blockers cs"
  "closure_blockers (cs @ ds) = closure_blockers cs + closure_blockers ds"
  by (simp_all add: closure_blockers_def)

lemma closure_blockers_remove1:
  "c \<in> set cs \<Longrightarrow> opt_mset (cs_unblock c) + closure_blockers (remove1 c cs) = closure_blockers cs"
  by (induction cs) (auto simp: ac_simps)

lemma task_blockers_filter: "task_blockers (filter P ts) \<subseteq># task_blockers ts"
  by (induction ts) (auto intro: subset_mset.add_increasing)

lemma find_SomeD: "find P xs = Some x \<Longrightarrow> x \<in> set xs \<and> P x"
  by (metis find_Some_iff nth_mem)

lemma task_blockers_remove:
  "find (\<lambda>t. tk_id t = source) ts = Some t \<Longrightarrow>
     opt_mset (tk_blocker t) + task_blockers (filter (\<lambda>t. tk_id t \<noteq> source) ts) \<subseteq># task_blockers ts"
  by (induction ts) (auto simp: task_blockers_filter ac_simps split: if_splits
      intro: subset_mset.add_increasing)

lemma task_blockers_release:
  "find (\<lambda>t. tk_id t = source) ts = Some t \<Longrightarrow>
     opt_mset (tk_blocker t) + task_blockers (map (\<lambda>t. if tk_id t = source
        then t\<lparr>tk_being_cleaned := x, tk_blocker := None\<rparr> else t) ts) \<subseteq># task_blockers ts"
proof (induction ts)
  case (Cons u ts)
  have mono: "task_blockers (map (\<lambda>t. if tk_id t = source
        then t\<lparr>tk_being_cleaned := x, tk_blocker := None\<rparr> else t) ts) \<subseteq># task_blockers ts"
    by (induction ts) (auto intro: subset_mset.add_increasing)
  show ?case
    using Cons mono by (auto simp: ac_simps split: if_splits intro: subset_mset.add_increasing)
qed simp

subsection \<open>What the operations release\<close>

text \<open>
  \<open>hands_over w x w'\<close>: the delivery is untouched and the holders in \<open>w'\<close> are among those of \<open>w\<close>
  and the ones handed over in \<open>x\<close>.
\<close>

definition hands_over ::
  "('r, 'l) service_world \<Rightarrow> 'l blocker multiset \<Rightarrow> ('r, 'l) service_world \<Rightarrow> bool" where
  "hands_over w x w' \<longleftrightarrow> sv_delivery w' = sv_delivery w \<and> blockers w' \<subseteq># x + blockers w
     \<and> sv_stop_failures w' = sv_stop_failures w"

lemma hands_over_exclusive: "hands_over w {#} w' \<Longrightarrow> exclusive w \<Longrightarrow> exclusive w'"
  by (auto simp: hands_over_def exclusive_def held_slots_def intro: balanced_mono image_mset_subseteq_mono)

lemma hands_over_trans: "hands_over w {#} w' \<Longrightarrow> hands_over w' {#} w'' \<Longrightarrow> hands_over w {#} w''"
  by (auto simp: hands_over_def intro: subset_mset.order_trans)

lemma cleanup_task_hands_over: "hands_over w (opt_mset unblock) (cleanup_task source node unblock c w)"
  by (auto simp: cleanup_task_def hands_over_def blockers_def roster_unblock_def notify_cleaned_def
      Let_def task_blockers_filter ac_simps split: option.split)

lemma cleanup_task_tasks [simp]:
  "sv_tasks (cleanup_task source node unblock c w) = filter (\<lambda>t. tk_id t \<noteq> source) (sv_tasks w)"
  "sv_closures (cleanup_task source node unblock c w) = sv_closures w"
  "sv_unblock (cleanup_task source node unblock c w) =
     sv_unblock w @ (case unblock of Some b \<Rightarrow> [b] | None \<Rightarrow> [])"
  "sv_delivery (cleanup_task source node unblock c w) = sv_delivery w"
  "sv_stop_failures (cleanup_task source node unblock c w) = sv_stop_failures w"
  by (auto simp: cleanup_task_def roster_unblock_def notify_cleaned_def Let_def split: option.split)

lemma blockers_cleanup_task:
  "blockers (cleanup_task source node unblock c w) =
     task_blockers (filter (\<lambda>t. tk_id t \<noteq> source) (sv_tasks w)) + closure_blockers (sv_closures w)
       + mset (sv_unblock w) + opt_mset unblock"
  by (simp add: blockers_def split: option.split)

lemma finish_task_hands_over: "hands_over w {#} (finish_task source w)"
proof (cases "find_task source w")
  case (Some t)
  then show ?thesis
    using task_blockers_remove [of source "sv_tasks w" t]
    by (auto simp: finish_task_def hands_over_def blockers_cleanup_task find_task_def)
      (simp add: blockers_def ac_simps)
qed (simp add: finish_task_def hands_over_def)

lemma run_closure_hands_over:
  assumes "c \<in> set (sv_closures w)"
  shows "hands_over w {#} (run_closure c (w\<lparr>sv_closures := remove1 c (sv_closures w)\<rparr>))"
proof -
  let ?w = "cleanup_task (cs_task c) (cs_node c) (cs_unblock c) (cs_being_cleaned c)
    (w\<lparr>sv_closures := remove1 c (sv_closures w)\<rparr>)"
  have "blockers ?w = task_blockers (filter (\<lambda>t. tk_id t \<noteq> cs_task c) (sv_tasks w))
      + closure_blockers (sv_closures w) + mset (sv_unblock w)"
    unfolding blockers_cleanup_task closure_blockers_remove1 [OF assms, symmetric] by (simp add: ac_simps)
  then have "blockers ?w \<subseteq># blockers w"
    using task_blockers_filter [of "\<lambda>t. tk_id t \<noteq> cs_task c" "sv_tasks w"] by (simp add: blockers_def)
  then show ?thesis
    by (auto simp: run_closure_def hands_over_def Let_def blockers_def split: option.split)
qed

lemma stop_task_hands_over:
  "stop_task source supplanter w = (w', r) \<Longrightarrow> hands_over w {#} w'"
proof (cases "find_task source w")
  case (Some t)
  then show "stop_task source supplanter w = (w', r) \<Longrightarrow> ?thesis"
    using task_blockers_remove [of source "sv_tasks w" t] task_blockers_filter [of "\<lambda>t. tk_id t \<noteq> source" "sv_tasks w"]
    by (auto simp: stop_task_def hands_over_def blockers_def find_task_def Let_def ac_simps)
qed (auto simp: stop_task_def hands_over_def)

lemma cleanup_operate_task_hands_over: "hands_over w {#} (cleanup_operate_task c source w)"
proof (cases "find_task source w")
  case (Some t)
  let ?ts = "map (\<lambda>t. if tk_id t = source
        then t\<lparr>tk_being_cleaned := Some c, tk_blocker := None\<rparr> else t) (sv_tasks w)"
  have "opt_mset (tk_blocker t) + task_blockers ?ts \<subseteq># task_blockers (sv_tasks w)"
    using task_blockers_release Some unfolding find_task_def .
  moreover have "task_blockers (filter (\<lambda>t. tk_id t \<noteq> source) ?ts) \<subseteq># task_blockers ?ts"
    by (rule task_blockers_filter)
  ultimately have "opt_mset (tk_blocker t) + task_blockers (filter (\<lambda>t. tk_id t \<noteq> source) ?ts)
      \<subseteq># task_blockers (sv_tasks w)"
    by (meson subset_mset.add_left_mono subset_mset.order_trans)
  with \<open>opt_mset (tk_blocker t) + task_blockers ?ts \<subseteq># _\<close> show ?thesis
    using Some
    by (auto simp: cleanup_operate_task_def hands_over_def blockers_cleanup_task Let_def)
      (auto simp: blockers_def ac_simps intro: subset_mset.order_trans)
qed (simp add: cleanup_operate_task_def hands_over_def)

subsection \<open>Every step keeps slots exclusive\<close>

lemma cleanup_service_exclusive:
  assumes "exclusive w"
  shows "exclusive (cleanup_service c w) \<and> sv_stop_failures (cleanup_service c w) = sv_stop_failures w"
proof -
  define mine where "mine = (\<lambda>a :: active_task. at_node a = cu_node c \<and> at_session a = cu_session c)"
  define w1 where "w1 = w\<lparr>sv_delivery := map_option (cleanup_delivery (cu_session c)) (sv_delivery w),
    sv_active := map (\<lambda>a. if mine a then a\<lparr>at_being_cleaned := Some c\<rparr> else a) (sv_active w)\<rparr>"
  have fold: "hands_over u {#} (fold (cleanup_operate_task c) xs u)" for xs and u :: "('a, 'b) service_world"
  proof (induction xs arbitrary: u)
    case (Cons x xs)
    show ?case by (simp add: hands_over_trans [OF cleanup_operate_task_hands_over Cons.IH])
  qed (simp add: hands_over_def)
  have "exclusive w1"
  proof -
    have "balanced (cleanup_delivery (cu_session c) d) (held_slots (cleanup_delivery (cu_session c) d) w1)"
      if d: "sv_delivery w = Some d" for d
    proof -
      have "balanced d (held_slots d w)" using assms d by (simp add: exclusive_def)
      moreover have "slot_key (cleanup_delivery (cu_session c) d) = slot_key d"
        using calculation cleanup_delivery_slots [of d] by (auto simp: balanced_def)
      ultimately show ?thesis
        by (simp add: balanced_cleanup held_slots_def blockers_def w1_def)
    qed
    then show ?thesis by (auto simp: exclusive_def w1_def)
  qed
  then have "exclusive (fold (cleanup_operate_task c) xs w1)" for xs
    using hands_over_exclusive [OF fold] by blast
  moreover have "sv_stop_failures (fold (cleanup_operate_task c) xs w1) = sv_stop_failures w" for xs
    using fold [of w1 xs] by (simp add: hands_over_def w1_def)
  moreover have "cleanup_service c w =
      (let u = fold (cleanup_operate_task c) (map at_task (filter mine (sv_active w))) w1
       in if map at_task (filter mine (sv_active w)) = [] then notify_cleaned c u else u)"
    by (simp add: cleanup_service_def w1_def mine_def Let_def)
  moreover have "exclusive (notify_cleaned c u) = exclusive u"
    "sv_stop_failures (notify_cleaned c u) = sv_stop_failures u" for u :: "('a, 'b) service_world"
    by (simp_all add: notify_cleaned_def exclusive_def held_slots_def blockers_def)
  ultimately show ?thesis by (simp only: Let_def split: if_split) simp
qed

lemma stop_delivering_exclusive:
  assumes "exclusive w"
  shows "sv_stop_failures (stop_delivering supplanter label s w) = [] \<Longrightarrow>
      exclusive (stop_delivering supplanter label s w)"
    and "sv_stop_failures (stop_delivering supplanter label s w) = [] \<Longrightarrow> sv_stop_failures w = []"
proof -
  obtain w' r where s: "stop_task (ds_task_id s) supplanter w = (w', r)" by fastforce
  note h = stop_task_hands_over [OF s]
  show "exclusive (stop_delivering supplanter label s w)"
    if "sv_stop_failures (stop_delivering supplanter label s w) = []"
    using that hands_over_exclusive [OF h assms]
    by (auto simp: stop_delivering_def s roster_unblock_def split: sum.splits operation_error.splits)
  show "sv_stop_failures w = []" if "sv_stop_failures (stop_delivering supplanter label s w) = []"
    using that h
    by (auto simp: stop_delivering_def s roster_unblock_def hands_over_def split: sum.splits operation_error.splits)
qed

lemma despawn_cancelled_fold [simp]:
  "sv_delivery (fold (despawn_cancelled x) ss w) = sv_delivery w"
  "sv_stop_failures (fold (despawn_cancelled x) ss w) = sv_stop_failures w"
  "blockers (fold (despawn_cancelled x) ss w) = blockers w"
  "sv_tasks (fold (despawn_cancelled x) ss w) = sv_tasks w"
  by (induction ss arbitrary: w) (simp_all add: despawn_cancelled_def blockers_def)

lemma serve_async_request_blockers:
  assumes "serve_async_request env request blocker req task w = (w', r)"
  shows "sv_delivery w' = sv_delivery w \<and> sv_stop_failures w' = sv_stop_failures w
    \<and> blockers w' \<subseteq># opt_mset blocker + blockers w"
  using assms
  by (auto simp: serve_async_request_def add_task_def blockers_def ac_simps split: if_splits)

lemma serve_async_exclusive:
  assumes "exclusive w"
  shows "\<exists>w'. serve_async env req request instructions w = Inr w'
    \<and> (sv_stop_failures w' = [] \<longrightarrow> sv_stop_failures w = [] \<and> exclusive w')"
proof (cases "sv_delivery w")
  case None
  then show ?thesis by (simp add: serve_async_def exclusive_def Let_def)
next
  case (Some d)
  let ?order = "\<lparr>do_request_id = req, do_task_id = sv_next_entity w, do_request = request,
    do_instructions = instructions\<rparr>"
  have bal: "balanced d (held_slots d w)" using assms Some by (simp add: exclusive_def)
  then have wf: "wf_delivery d" by (simp add: balanced_def)
  obtain d' update where ins: "insert_new_order d ?order = Inr (d', update)"
    using insert_new_order_total [OF wf, of ?order] by auto
  note bal' = balanced_insert [OF bal ins]
  have key: "slot_key d' = slot_key d" using insert_new_order_slots [OF wf ins] by simp
  let ?w = "w\<lparr>sv_next_entity := Suc (sv_next_entity w),
    sv_entities := sv_entities w @ [sv_next_entity w], sv_delivery := Some d'\<rparr>"
  have held: "held_slots d' ?w = held_slots d w" by (simp add: held_slots_def blockers_def key)
  show ?thesis
  proof (cases update)
    case (Immediate blocking r seq)
    let ?b = "map_option (\<lambda>label. \<lparr>bl_provider = sv_provider w, bl_request_id = req, bl_label = label\<rparr>) blocking"
    obtain w' x where l: "serve_async_request env r ?b req (sv_next_entity w) ?w = (w', x)" by fastforce
    note s = serve_async_request_blockers [OF l]
    have "held_slots d' w' \<subseteq># image_mset (\<lambda>b. slot_key d' (bl_label b)) (opt_mset ?b + blockers ?w)"
      unfolding held_slots_def using s by (blast intro: image_mset_subseteq_mono)
    then have "held_slots d' w' \<subseteq># opt_mset (map_option (slot_key d) blocking) + held_slots d w"
      using held by (cases blocking) (simp_all add: held_slots_def key)
    moreover have "balanced d' (opt_mset (map_option (slot_key d) blocking) + held_slots d w)"
      using bal' Immediate by (cases blocking) simp_all
    ultimately have "exclusive w'" using s by (auto simp: exclusive_def intro: balanced_mono)
    then show ?thesis using s l Immediate ins Some by (simp add: serve_async_def Let_def)
  next
    case (Queued cancelled stop label)
    let ?u = "fold (despawn_cancelled req) cancelled ?w"
    have u: "exclusive ?u"
      using bal' Queued held by (auto simp: exclusive_def held_slots_def)
    have run: "serve_async env req request instructions w =
        Inr (case stop of None \<Rightarrow> ?u | Some s \<Rightarrow> stop_delivering req label s ?u)"
      using Queued ins Some by (simp add: serve_async_def Let_def)
    show ?thesis
    proof (cases stop)
      case None
      then show ?thesis using run u by simp
    next
      case (Some s)
      then show ?thesis using run stop_delivering_exclusive [OF u, of req label s] by simp
    qed
  qed
qed

lemma serve_next_exclusive:
  assumes "\<And>d. sv_delivery w = Some d \<Longrightarrow> balanced d (add_mset (slot_key d label) (held_slots d w))"
  shows "\<exists>w'. serve_next_async_request env label w = Inr w' \<and> exclusive w'
    \<and> sv_stop_failures w' = sv_stop_failures w"
  using assms
proof (induction env label w rule: serve_next_async_request.induct)
  case (1 env label w)
  show ?case
  proof (cases "sv_delivery w")
    case None
    then show ?thesis by (simp add: serve_next_async_request.simps exclusive_def)
  next
    case (Some d)
    note bal = "1.prems" [OF Some]
    have wf: "wf_delivery d" using bal by (simp add: balanced_def)
    obtain d' x where pop: "pop_next_delivery (sv_provider w) label d = Inr (d', x)"
      using balanced_pop_total [OF bal] by force
    note bal' = balanced_pop [OF bal pop]
    have key: "slot_key d' = slot_key d" using pop_next_delivery_slots [OF wf pop] by simp
    let ?w = "w\<lparr>sv_delivery := Some d'\<rparr>"
    have held: "held_slots d' ?w = held_slots d w" by (simp add: held_slots_def blockers_def key)
    show ?thesis
    proof (cases x)
      case None
      then show ?thesis
        using bal' Some pop held by (simp add: serve_next_async_request.simps [of env label w] exclusive_def)
    next
      case x: (Some y)
      let ?req = "bl_request_id (dl_blocker y)"
      have y: "slot_key d (bl_label (dl_blocker y)) = slot_key d label"
        using pop_next_delivery_slots [OF wf pop] x by simp
      show ?thesis
      proof (cases "env_has_target env (rq_source ?req) \<and> env_launches env ?req (dl_request y)")
        case True
        obtain w' r where l: "serve_async_request env (dl_request y) (Some (dl_blocker y)) ?req (dl_task_id y) ?w = (w', r)"
          by fastforce
        note s = serve_async_request_blockers [OF l]
        have "held_slots d' w' \<subseteq># image_mset (\<lambda>b. slot_key d' (bl_label b)) (opt_mset (Some (dl_blocker y)) + blockers ?w)"
          unfolding held_slots_def using s by (blast intro: image_mset_subseteq_mono)
        then have "held_slots d' w' \<subseteq># add_mset (slot_key d (bl_label (dl_blocker y))) (held_slots d w)"
          using held by (simp add: held_slots_def key)
        then have "exclusive w'" using bal' x s by (auto simp: exclusive_def intro: balanced_mono)
        then show ?thesis
          using True s l x Some pop by (simp add: serve_next_async_request.simps [of env label w] Let_def)
      next
        case False
        have "\<exists>w'. serve_next_async_request env label ?w = Inr w' \<and> exclusive w'
            \<and> sv_stop_failures w' = sv_stop_failures ?w"
          using "1.IH" [OF Some pop refl x refl refl False] bal' x held y by (simp add: key)
        then show ?thesis
          using False x Some pop by (auto simp: serve_next_async_request.simps [of env label w] Let_def)
      qed
    qed
  qed
qed

lemma process_unblock_exclusive:
  assumes "exclusive w"
  shows "\<exists>w'. process_unblock env w = Inr w' \<and> exclusive w' \<and> sv_stop_failures w' = sv_stop_failures w"
proof (cases "sv_unblock w")
  case (Cons b bs)
  let ?w = "w\<lparr>sv_unblock := bs\<rparr>"
  have "balanced d (add_mset (slot_key d (bl_label b)) (held_slots d ?w))" if "sv_delivery ?w = Some d" for d
    using assms that Cons by (simp add: exclusive_def held_slots_def blockers_def)
  from serve_next_exclusive [OF this] show ?thesis by (simp add: process_unblock_def Cons)
qed (simp add: process_unblock_def assms)

lemma service_step_exclusive:
  assumes "service_step w w'" and "exclusive w" and "sv_stop_failures w' = []"
  shows "exclusive w' \<and> sv_stop_failures w = []"
  using assms(1)
proof cases
  case (serve env req request instructions)
  then show ?thesis using serve_async_exclusive [OF assms(2), of env req request instructions] assms(3) by auto
next
  case (finish source)
  have "hands_over w {#} w'" by (simp only: finish finish_task_hands_over)
  from hands_over_exclusive [OF this assms(2)] this show ?thesis using assms(3) by (simp add: hands_over_def)
next
  case (closure c)
  have "hands_over w {#} w'" by (simp only: closure run_closure_hands_over [OF closure(2)])
  from hands_over_exclusive [OF this assms(2)] this show ?thesis using assms(3) by (simp add: hands_over_def)
next
  case (unblock env)
  then show ?thesis using process_unblock_exclusive [OF assms(2), of env] assms(3) by auto
next
  case (clean c)
  then show ?thesis using cleanup_service_exclusive [OF assms(2)] assms(3) by simp
next
  case remove
  then show ?thesis using assms(3) by (simp add: exclusive_def)
qed

text \<open>Failures to stop a task are never forgotten.\<close>

lemma serve_next_failures:
  "serve_next_async_request env label w = Inr w' \<Longrightarrow> sv_stop_failures w' = sv_stop_failures w"
proof (induction env label w rule: serve_next_async_request.induct)
  case (1 env label w)
  have request: "sv_stop_failures (fst (serve_async_request env r b req t u)) = sv_stop_failures u"
    for r b req t and u :: "('a, 'b) service_world"
    by (simp add: serve_async_request_def add_task_def)
  note unfold = "1.prems" [unfolded serve_next_async_request.simps [of env label w]]
  show ?case
  proof (cases "sv_delivery w")
    case (Some d)
    then obtain d' x where pop: "pop_next_delivery (sv_provider w) label d = Inr (d', x)"
      using unfold by (cases "pop_next_delivery (sv_provider w) label d") auto
    show ?thesis
    proof (cases x)
      case x: (Some y)
      let ?req = "bl_request_id (dl_blocker y)"
      show ?thesis
      proof (cases "env_has_target env (rq_source ?req) \<and> env_launches env ?req (dl_request y)")
        case True
        then show ?thesis using unfold Some pop x by (auto simp: Let_def request)
      next
        case False
        then have "serve_next_async_request env label (w\<lparr>sv_delivery := Some d'\<rparr>) = Inr w'"
          using unfold Some pop x by (auto simp: Let_def)
        then show ?thesis using "1.IH" [OF Some pop refl x refl refl False] by simp
      qed
    qed (use unfold Some pop in auto)
  qed (use unfold in auto)
qed

lemma cleanup_service_failures: "sv_stop_failures (cleanup_service c w) = sv_stop_failures w"
proof -
  have "sv_stop_failures (fold (cleanup_operate_task c) xs u) = sv_stop_failures u"
    for xs and u :: "('a, 'b) service_world"
  proof (induction xs arbitrary: u)
    case (Cons x xs)
    then show ?case using cleanup_operate_task_hands_over [of u c x] by (simp add: hands_over_def)
  qed simp
  then show ?thesis by (simp add: cleanup_service_def notify_cleaned_def Let_def)
qed

lemma stop_delivering_failures:
  "\<exists>xs. sv_stop_failures (stop_delivering req label s u) = sv_stop_failures u @ xs"
proof -
  obtain u' r where s: "stop_task (ds_task_id s) req u = (u', r)" by fastforce
  have "sv_stop_failures u' = sv_stop_failures u" using stop_task_hands_over [OF s] by (simp add: hands_over_def)
  then show ?thesis
    by (simp add: stop_delivering_def roster_unblock_def s split: sum.split operation_error.split)
qed

lemma serve_async_failures:
  assumes "serve_async env req request instructions w = Inr w'"
  shows "\<exists>xs. sv_stop_failures w' = sv_stop_failures w @ xs"
proof (cases "sv_delivery w")
  case (Some d)
  obtain d' update where ins: "insert_new_order d \<lparr>do_request_id = req, do_task_id = sv_next_entity w,
      do_request = request, do_instructions = instructions\<rparr> = Inr (d', update)"
    using assms Some unfolding serve_async_def Let_def by (auto simp: rbind_eq_Inr simp del: split_paired_All split_paired_Ex)
  let ?w = "w\<lparr>sv_next_entity := Suc (sv_next_entity w),
    sv_entities := sv_entities w @ [sv_next_entity w], sv_delivery := Some d'\<rparr>"
  show ?thesis
  proof (cases update)
    case (Immediate blocking r seq)
    then have "w' = fst (serve_async_request env r (map_option (\<lambda>label. \<lparr>bl_provider = sv_provider w,
        bl_request_id = req, bl_label = label\<rparr>) blocking) req (sv_next_entity w) ?w)"
      using assms Some ins by (simp add: serve_async_def Let_def)
    then show ?thesis by (simp add: serve_async_request_def add_task_def)
  next
    case (Queued cancelled stop label)
    then have "w' = (case stop of None \<Rightarrow> fold (despawn_cancelled req) cancelled ?w
        | Some s \<Rightarrow> stop_delivering req label s (fold (despawn_cancelled req) cancelled ?w))"
      using assms Some ins by (simp add: serve_async_def Let_def)
    then show ?thesis
      using stop_delivering_failures [of req label _ "fold (despawn_cancelled req) cancelled ?w"]
      by (cases stop) simp_all
  qed
qed (use assms in \<open>auto simp: serve_async_def Let_def\<close>)

lemma service_step_failures:
  assumes "service_step w w'"
  shows "\<exists>xs. sv_stop_failures w' = sv_stop_failures w @ xs"
  using assms
proof cases
  case (serve env req request instructions)
  then show ?thesis by (rule serve_async_failures)
next
  case (finish source)
  then show ?thesis using finish_task_hands_over [of w source] by (simp add: hands_over_def)
next
  case (closure c)
  then show ?thesis using run_closure_hands_over [of c w] by (simp add: hands_over_def)
next
  case (unblock env)
  then show ?thesis
    by (cases "sv_unblock w") (simp_all add: process_unblock_def serve_next_failures)
qed (simp_all add: cleanup_service_failures)

end
