(* ===== verification/ServiceRuns.thy ===== *)
theory ServiceRuns
  imports AsyncService
begin

text \<open>
  Properties of the asynchronous services of \<open>AsyncService\<close>: what is guaranteed in every reachable
  state, and three concrete runs in which the code does not keep its promises: a preempting request
  that arrives between the end of a task and the processing of its unblock, a task that could not be
  launched, and a session that is cleaned while its task is being stopped.
\<close>

subsection \<open>Guarantees\<close>

lemma service_init_exclusive: "empty_delivery d \<Longrightarrow> exclusive (service_init provider d)"
  by (auto simp: exclusive_def service_init_def balanced_def empty_delivery_def wf_delivery_def
      held_slots_def blockers_def serial_default_def serial_at_def split: if_splits option.splits)

lemma service_reachable_exclusive:
  assumes "service_reachable w" and "sv_stop_failures w = []"
  shows "exclusive w"
  using assms
proof (induction rule: service_reachable.induct)
  case (init delivery provider)
  then show ?case by (simp add: service_init_exclusive)
next
  case (step w w')
  then have "sv_stop_failures w = []" using service_step_failures by force
  then show ?case using step service_step_exclusive by blast
qed

lemma task_blockers_nth1:
  "i < length ts \<Longrightarrow> opt_mset (tk_blocker (ts ! i)) \<subseteq># task_blockers ts"
proof (induction ts arbitrary: i)
  case (Cons t ts)
  then show ?case by (cases i) (auto intro: subset_mset.add_increasing)
qed simp

lemma task_blockers_nth:
  "i < j \<Longrightarrow> j < length ts \<Longrightarrow>
     opt_mset (tk_blocker (ts ! i)) + opt_mset (tk_blocker (ts ! j)) \<subseteq># task_blockers ts"
proof (induction ts arbitrary: i j)
  case (Cons t ts)
  obtain j' where j: "j = Suc j'" using Cons.prems(1) by (cases j) auto
  show ?case
  proof (cases i)
    case 0
    then show ?thesis using Cons.prems j task_blockers_nth1 [of j' ts] by simp
  next
    case (Suc i')
    then show ?thesis using Cons.prems j Cons.IH [of i' j'] by (auto intro: subset_mset.add_increasing)
  qed
qed simp

text \<open>C1: mutual exclusion. In every reachable state two running tasks that block a service block
  different slots: with a serial delivery at most one task runs, and with a parallel delivery at most
  one task per label. The only condition is that no attempt to stop a task has failed.\<close>

theorem service_mutual_exclusion:
  assumes "service_reachable w" and "sv_stop_failures w = []" and "sv_delivery w = Some d"
    and "i < j" and "j < length (sv_tasks w)"
    and "tk_blocker (sv_tasks w ! i) = Some b" and "tk_blocker (sv_tasks w ! j) = Some b'"
  shows "slot_key d (bl_label b) \<noteq> slot_key d (bl_label b')"
proof
  assume same: "slot_key d (bl_label b) = slot_key d (bl_label b')"
  have "{#b, b'#} \<subseteq># task_blockers (sv_tasks w)"
    using task_blockers_nth [OF assms(4,5)] assms(6,7) by (simp add: add_mset_commute)
  also have "\<dots> \<subseteq># blockers w" by (simp add: blockers_def add.assoc)
  finally have "{#b, b'#} \<subseteq># blockers w" .
  then have "image_mset (\<lambda>b. slot_key d (bl_label b)) {#b, b'#} \<subseteq># held_slots d w"
    unfolding held_slots_def by (rule image_mset_subseteq_mono)
  then have "2 \<le> count (held_slots d w) (slot_key d (bl_label b))"
    using same by (auto dest: mset_subset_eq_count [of _ _ "slot_key d (bl_label b)"])
  moreover have "balanced d (held_slots d w)"
    using service_reachable_exclusive [OF assms(1,2)] assms(3) by (simp add: exclusive_def)
  ultimately show False by (metis balanced_def not_numeral_le_zero numeral_One numeral_le_iff
      order_trans semiring_norm(69))
qed

text \<open>C16: the assertion of \<open>insert_serial_order\<close> and the \<open>expect\<close>s of \<open>pop_next_delivery\<close> cannot fail: in
  every reachable state in which no attempt to stop a task has failed, serving a request and
  processing an unblock succeed.\<close>

theorem service_never_panics:
  assumes "service_reachable w" and "sv_stop_failures w = []"
  shows "(\<exists>w'. serve_async env req request instructions w = Inr w') \<and> (\<exists>w'. process_unblock env w = Inr w')"
  using serve_async_exclusive [OF service_reachable_exclusive [OF assms], of env req request instructions]
    process_unblock_exclusive [OF service_reachable_exclusive [OF assms], of env] by auto

subsection \<open>Concrete runs\<close>

definition always :: "'r environment" where
  "always = \<lparr>env_has_target = (\<lambda>_. True), env_launches = (\<lambda>_ _. True)\<rparr>"

definition demo_request :: "entity \<Rightarrow> request_id" where
  "demo_request session = \<lparr>rq_session = session, rq_source = 50, rq_seq = 0\<rparr>"

definition labelled :: "bool \<Rightarrow> nat delivery_instructions" where
  "labelled preempt = with_preemptive preempt (instructions_new 1)"

datatype event = Serve entity "nat delivery_instructions option" | Finish entity | NextClosure | Unblock | Clean cleanup

fun run_event :: "event \<Rightarrow> (nat, nat) service_world \<Rightarrow> delivery_panic + (nat, nat) service_world" where
  "run_event (Serve session i) w = serve_async always (demo_request session) session i w"
| "run_event (Finish task) w = Inr (finish_task task w)"
| "run_event NextClosure w = (case sv_closures w of
     [] \<Rightarrow> Inr w
   | c # cs \<Rightarrow> Inr (run_closure c (w\<lparr>sv_closures := remove1 c (sv_closures w)\<rparr>)))"
| "run_event Unblock w = process_unblock always w"
| "run_event (Clean c) w = Inr (cleanup_service c w)"

lemma run_event_reachable:
  assumes "service_reachable w" and "run_event e w = Inr w'"
  shows "service_reachable w'"
proof (cases e)
  case NextClosure
  show ?thesis
  proof (cases "sv_closures w")
    case (Cons c cs)
    then have "service_step w w'" using assms(2) NextClosure service_step.closure [of c w] by simp
    with assms(1) show ?thesis by (rule service_reachable.step)
  qed (use assms NextClosure in simp)
qed (use assms in \<open>auto intro: service_reachable.step service_step.intros\<close>)

lemma run_events_reachable:
  "service_reachable w \<Longrightarrow> rfold (\<lambda>w e. run_event e w) w es = Inr w' \<Longrightarrow> service_reachable w'"
  by (rule rfold_invariant [where P = service_reachable]) (auto intro: run_event_reachable)

definition demo_start :: "(nat, nat) service_world" where
  "demo_start = service_init 40 (Parallel [])"

lemma demo_start_reachable: "service_reachable demo_start"
  unfolding demo_start_def by (rule service_reachable.init) (simp add: empty_delivery_def)

definition demo_run :: "event list \<Rightarrow> (nat, nat) service_world" where
  "demo_run es = projr (rfold (\<lambda>w e. run_event e w) demo_start es)"

lemma demo_run_reachable:
  "isl (rfold (\<lambda>w e. run_event e w) demo_start es) = False \<Longrightarrow> service_reachable (demo_run es)"
  unfolding demo_run_def
  by (rule run_events_reachable [OF demo_start_reachable]) (auto split: sum.splits simp: isl_def)

lemma service_mutual_exclusion_witness:
  "slot_key (the (sv_delivery (demo_run [Serve 7 (Some (labelled False)), Serve 8 (Some (instructions_new 2))]))) (Some 1)
     \<noteq> slot_key (the (sv_delivery (demo_run [Serve 7 (Some (labelled False)), Serve 8 (Some (instructions_new 2))]))) (Some 2)"
proof -
  let ?w = "demo_run [Serve 7 (Some (labelled False)), Serve 8 (Some (instructions_new 2))]"
  have "bl_label (the (tk_blocker (sv_tasks ?w ! 0))) = Some 1" "bl_label (the (tk_blocker (sv_tasks ?w ! 1))) = Some 2"
    by code_simp+
  moreover have "slot_key (the (sv_delivery ?w)) (bl_label (the (tk_blocker (sv_tasks ?w ! 0))))
      \<noteq> slot_key (the (sv_delivery ?w)) (bl_label (the (tk_blocker (sv_tasks ?w ! 1))))"
  proof (rule service_mutual_exclusion [of ?w _ 0 1])
    show "service_reachable ?w" by (rule demo_run_reachable) code_simp
  qed code_simp+
  ultimately show ?thesis by simp
qed

lemma service_never_panics_witness:
  "\<exists>w'. process_unblock always (demo_run [Serve 7 (Some (labelled False)), Finish 0]) = Inr w'"
proof -
  let ?w = "demo_run [Serve 7 (Some (labelled False)), Finish 0]"
  have "service_reachable ?w" "sv_stop_failures ?w = []" by (rule demo_run_reachable) code_simp+
  from service_never_panics [OF this] show ?thesis by blast
qed

text \<open>Mutual exclusion can fail. If a preempting request with the same label arrives after the running
  task has finished but before its unblock is processed, stopping that task fails, a second unblock
  is queued, and two queued requests with the same label end up running at the same time.\<close>

theorem label_runs_twice:
  "let w = demo_run [Serve 7 (Some (labelled False)), Finish 0, Serve 8 (Some (labelled True)),
       Serve 9 (Some (labelled False)), Unblock, Unblock]
   in service_reachable w \<and> sv_delivery w \<noteq> None \<and> sv_stop_failures w = [0]
     \<and> map (map_option bl_label \<circ> tk_blocker) (sv_tasks w) = [Some (Some 1), Some (Some 1)]"
proof -
  let ?es = "[Serve 7 (Some (labelled False)), Finish 0, Serve 8 (Some (labelled True)),
    Serve 9 (Some (labelled False)), Unblock, Unblock]"
  have "service_reachable (demo_run ?es)" by (rule demo_run_reachable) code_simp
  moreover have "let w = demo_run ?es in sv_delivery w \<noteq> None \<and> sv_stop_failures w = [0]
     \<and> map (map_option bl_label \<circ> tk_blocker) (sv_tasks w) = [Some (Some 1), Some (Some 1)]"
    by code_simp
  ultimately show ?thesis by (simp only: Let_def simp_thms)
qed

text \<open>A slot whose order could not be launched: it counts as busy, and nobody will ever unblock it.\<close>

definition dead_slot :: "('r, 'l) service_world \<Rightarrow> bool" where
  "dead_slot w \<longleftrightarrow> (\<exists>s a. sv_delivery w = Some (Serial s) \<and> sd_delivering s = Some a \<and> ad_instructions a = None)
     \<and> sv_tasks w = [] \<and> sv_unblock w = [] \<and> sv_closures w = []"

lemma dead_slot_stays:
  assumes "dead_slot w" and "serve_async env req request instructions w = Inr w'"
  shows "dead_slot w'"
proof -
  obtain s a where s: "sv_delivery w = Some (Serial s)" "sd_delivering s = Some a" "ad_instructions a = None"
    using assms(1) by (auto simp: dead_slot_def)
  have "sv_unblock (fold (despawn_cancelled req) ss u) = sv_unblock u
      \<and> sv_closures (fold (despawn_cancelled req) ss u) = sv_closures u" for ss and u :: "('a, 'b) service_world"
    by (induction ss arbitrary: u) (simp_all add: despawn_cancelled_def)
  then show ?thesis
    using assms s
    by (auto simp: dead_slot_def serve_async_def insert_new_order_def insert_serial_order_def discards_def
        Let_def split: option.splits)
qed

text \<open>A serial service whose first request cannot be launched is blocked for good: \<open>delivering\<close> stays
  set, and whatever requests arrive later, with whatever instructions, none is ever launched and
  there is no unblock and no task that could end the wait.\<close>

theorem failed_launch_blocks_service:
  assumes "\<not> env_launches env req request"
    and "serve_async env req request None (service_init provider (Serial serial_default)) = Inr w"
    and "rfold (\<lambda>w (env, req, request, instructions). serve_async env req request instructions w) w later = Inr w'"
  shows "sv_tasks w' = [] \<and> sv_unblock w' = [] \<and> sv_closures w' = []
    \<and> (\<exists>d. sv_delivery w' = Some d \<and> busy d None)"
proof -
  have "dead_slot w"
    using assms(1,2)
    by (auto simp: dead_slot_def serve_async_def service_init_def insert_new_order_def
        insert_serial_order_def serial_default_def serve_async_request_def Let_def)
  from rfold_invariant [where P = dead_slot, OF assms(3) this] have "dead_slot w'"
    by (auto intro: dead_slot_stays)
  then show ?thesis by (auto simp: dead_slot_def busy_def)
qed

lemma failed_launch_blocks_service_witness:
  "\<exists>w :: (nat, nat) service_world. sv_tasks w = [] \<and> (\<exists>d. sv_delivery w = Some d \<and> busy d None)"
proof -
  let ?no = "\<lparr>env_has_target = (\<lambda>_. True), env_launches = (\<lambda>_ _. False)\<rparr> :: nat environment"
  let ?w0 = "service_init 40 (Serial serial_default) :: (nat, nat) service_world"
  obtain w where w: "serve_async ?no (demo_request 7) 1 None ?w0 = Inr w"
    using serve_async_exclusive [of ?w0 ?no "demo_request 7" 1 None] service_init_exclusive [of "Serial serial_default" 40]
    by (auto simp: empty_delivery_def)
  have "sv_tasks w = [] \<and> sv_unblock w = [] \<and> sv_closures w = [] \<and> (\<exists>d. sv_delivery w = Some d \<and> busy d None)"
    by (rule failed_launch_blocks_service [OF _ w, where later = "[]"]) simp_all
  then show ?thesis by blast
qed

text \<open>Cleaning a session while its task is being stopped by a preempting request never completes: the
  closure of the stopped task carries no cleanup, so once it has run no task of the session is left
  and the cleaner has not been notified. Without the preempting request it is notified.\<close>

theorem cleanup_of_stopping_task_is_lost:
  fixes c :: cleanup
  defines "c \<equiv> \<lparr>cu_cleaner = 60, cu_node = 50, cu_session = 7, cu_id = demo_request 3\<rparr>"
    and "first \<equiv> Serve 7 (Some (labelled False))" and "preempting \<equiv> Serve 8 (Some (labelled True))"
  shows "(let w = demo_run [first, preempting, Clean c, NextClosure, Unblock]
      in service_reachable w \<and> sv_closures w = [] \<and> sv_unblock w = []
        \<and> map at_session (sv_active w) = [8] \<and> map at_being_cleaned (sv_active w) = [None]
        \<and> sv_cleaned w = [])
    \<and> sv_cleaned (demo_run [first, Clean c, NextClosure, Unblock]) = [c]"
proof -
  have "service_reachable (demo_run [first, preempting, Clean c, NextClosure, Unblock])"
    unfolding c_def first_def preempting_def by (rule demo_run_reachable) code_simp
  moreover have "let w = demo_run [first, preempting, Clean c, NextClosure, Unblock]
      in sv_closures w = [] \<and> sv_unblock w = []
        \<and> map at_session (sv_active w) = [8] \<and> map at_being_cleaned (sv_active w) = [None]
        \<and> sv_cleaned w = []"
    unfolding c_def first_def preempting_def by code_simp
  moreover have "sv_cleaned (demo_run [first, Clean c, NextClosure, Unblock]) = [c]"
    unfolding c_def first_def by code_simp
  ultimately show ?thesis by (simp add: Let_def)
qed

end
