(* ===== verification/Continuous.thy ===== *)
theory Continuous
  imports AsyncService
begin

text \<open>
  Continuous services (\<open>src/src/service/continuous.rs\<close>): a system that runs in every cycle, sees the
  queue of active orders and may respond to any of them, on top of the queue of \<open>Delivery\<close>.

  \<^item> The state is that of one provider: its \<open>Delivery\<close> and its \<open>ContinuousQueueStorage\<close> (\<open>None\<close> once
    they are gone), the task entities, the \<open>unblock\<close> queue of the roster, and what the service has
    reported: responses, supplanted requests, finished streams and broken nodes.
  \<^item> What the world decides is \<open>continuous_environment\<close>: whether the node of a request has a target and
    whether that target takes a response, whether the service has streams, and which nodes are in scope.
  \<^item> The system of a user is the list of the responses that it tries to give, by index. The end of its run
    queues the command \<open>DeliverResponses\<close>, which is applied in a step of its own: in between the provider
    may get requests, a session may be cleaned, and other systems with a copy of the key may run. The
    command finds the orders by the index that they had in the run.
  \<^item> A command whose responses belong to several providers does to each of them what its own responses
    say, so that here it is the command of one provider. Streams, tracing and the disposal of the inputs
    that wait at nodes of a despawned provider are left out.
\<close>

subsection \<open>State\<close>

record ('r, 'l) continuous_order =
  cor_data :: 'r
  cor_request_id :: request_id
  cor_task_id :: entity
  cor_unblock :: "'l blocker option"

record 'a deliver_response =
  dr_request_id :: request_id
  dr_task_id :: entity
  dr_data :: 'a
  dr_index :: nat

record ('r, 'a, 'l) continuous_world =
  cw_provider :: entity
  cw_delivery :: "('r, 'l) delivery option"
  cw_queue :: "('r, 'l) continuous_order list option"
  cw_next_entity :: entity
  cw_entities :: "entity list"
  cw_unblock :: "'l blocker list"
  cw_responses :: "(request_id \<times> 'a) list"
  cw_supplanted :: "(request_id \<times> request_id) list"
  cw_stream_disposals :: "request_id list"
  cw_broken :: "entity list"
  cw_stop_failures :: "entity list"
  cw_cleaned :: "cleanup list"
  cw_commands :: "'a deliver_response list list"

record 'a continuous_environment =
  cenv_has_target :: "entity \<Rightarrow> bool"
  cenv_accepts :: "request_id \<Rightarrow> 'a \<Rightarrow> bool"
  cenv_has_streams :: bool
  cenv_in_scope :: "entity \<Rightarrow> bool"

text \<open>Removing an order from the queue panics when the index is out of bounds.\<close>

datatype continuous_panic = DeliveryPanic delivery_panic | IndexOutOfBounds

fun lift_panic :: "delivery_panic + 'a \<Rightarrow> continuous_panic + 'a" where
  "lift_panic (Inl p) = Inl (DeliveryPanic p)"
| "lift_panic (Inr x) = Inr x"

subsection \<open>Serving\<close>

definition serve_continuous_request ::
  "'r \<Rightarrow> 'l blocker option \<Rightarrow> request_id \<Rightarrow> entity \<Rightarrow> ('r, 'a, 'l) continuous_world
     \<Rightarrow> ('r, 'a, 'l) continuous_world \<times> (operation_error + unit)" where
  "serve_continuous_request request blocker req task_id w =
     (case cw_queue w of
        None \<Rightarrow> (w, Inl Broken)
      | Some queue \<Rightarrow> (w\<lparr>cw_queue := Some (queue @ [\<lparr>cor_data = request, cor_request_id = req,
            cor_task_id = task_id, cor_unblock = blocker\<rparr>])\<rparr>, Inr ()))"

function serve_next_continuous_request ::
  "(entity \<Rightarrow> bool) \<Rightarrow> 'l option \<Rightarrow> ('r, 'a, 'l) continuous_world \<Rightarrow> delivery_panic + ('r, 'a, 'l) continuous_world" where
  "serve_next_continuous_request has_target label w =
     (case cw_delivery w of
        None \<Rightarrow> Inr w
      | Some delivery \<Rightarrow>
          (case pop_next_delivery (cw_provider w) label delivery of
             Inl p \<Rightarrow> Inl p
           | Inr (delivery, None) \<Rightarrow> Inr (w\<lparr>cw_delivery := Some delivery\<rparr>)
           | Inr (delivery, Some d) \<Rightarrow>
               let w = w\<lparr>cw_delivery := Some delivery\<rparr>;
                   req = bl_request_id (dl_blocker d);
                   (w', r) = serve_continuous_request (dl_request d) (Some (dl_blocker d)) req (dl_task_id d) w
               in if has_target (rq_source req) \<and> r = Inr () then Inr w'
                  else serve_next_continuous_request has_target label w))"
  by pat_completeness auto
termination
  by (relation "measure (\<lambda>(_, label, w). case cw_delivery w of None \<Rightarrow> 0 | Some d \<Rightarrow> queued_orders d)")
    (auto dest: pop_next_delivery_less)

declare serve_next_continuous_request.simps [simp del]

definition supplant ::
  "request_id \<Rightarrow> delivery_stoppage \<Rightarrow> ('r, 'a, 'l) continuous_world \<Rightarrow> ('r, 'a, 'l) continuous_world" where
  "supplant supplanter s w =
     w\<lparr>cw_supplanted := cw_supplanted w @ [(ds_request_id s, supplanter)],
       cw_entities := filter (\<lambda>e. e \<noteq> ds_task_id s) (cw_entities w)\<rparr>"

fun index_of_task :: "entity \<Rightarrow> ('r, 'l) continuous_order list \<Rightarrow> nat option" where
  "index_of_task task [] = None"
| "index_of_task task (x # xs) =
     (if cor_task_id x = task then Some 0 else map_option Suc (index_of_task task xs))"

text \<open>The order that is being stopped is taken out of the queue, and its slot serves the next request at
  once. If there was none to take out, an unblock is queued; \<open>cw_stop_failures\<close> remembers that.\<close>

definition stop_continuous ::
  "(entity \<Rightarrow> bool) \<Rightarrow> request_id \<Rightarrow> 'l option \<Rightarrow> delivery_stoppage \<Rightarrow> ('r, 'a, 'l) continuous_world
     \<Rightarrow> delivery_panic + ('r, 'a, 'l) continuous_world" where
  "stop_continuous has_target supplanter label s w =
     (case cw_queue w of
        None \<Rightarrow> Inr w
      | Some queue \<Rightarrow>
          let (w, unblock) = (case index_of_task (ds_task_id s) queue of
                None \<Rightarrow> (w, None)
              | Some i \<Rightarrow> (w\<lparr>cw_queue := Some (remove_nth i queue)\<rparr>, cor_unblock (queue ! i)))
          in rbind (case unblock of
                Some b \<Rightarrow> serve_next_continuous_request has_target (bl_label b) w
              | None \<Rightarrow> Inr (w\<lparr>cw_unblock := cw_unblock w @ [\<lparr>bl_provider = cw_provider w,
                   bl_request_id = ds_request_id s, bl_label = label\<rparr>],
                   cw_stop_failures := cw_stop_failures w @ [ds_task_id s]\<rparr>))
             (\<lambda>w. Inr (supplant supplanter s w)))"

definition serve_continuous ::
  "(entity \<Rightarrow> bool) \<Rightarrow> request_id \<Rightarrow> 'r \<Rightarrow> 'l delivery_instructions option
     \<Rightarrow> ('r, 'a, 'l) continuous_world \<Rightarrow> delivery_panic + ('r, 'a, 'l) continuous_world" where
  "serve_continuous has_target req request instructions w =
     (let task_id = cw_next_entity w;
          w = w\<lparr>cw_next_entity := Suc task_id, cw_entities := cw_entities w @ [task_id]\<rparr>
      in case cw_delivery w of
           None \<Rightarrow> Inr w
         | Some delivery \<Rightarrow>
             rbind (insert_new_order delivery \<lparr>do_request_id = req, do_task_id = task_id,
                 do_request = request, do_instructions = instructions\<rparr>)
               (\<lambda>(delivery, update).
                 let w = w\<lparr>cw_delivery := Some delivery\<rparr>
                 in case update of
                      Immediate blocking request seq \<Rightarrow>
                        let blocker = map_option (\<lambda>label. \<lparr>bl_provider = cw_provider w,
                              bl_request_id = req, bl_label = label\<rparr>) blocking
                        in Inr (fst (serve_continuous_request request blocker req task_id w))
                    | Queued cancelled stop label \<Rightarrow>
                        let w = fold (supplant req) cancelled w
                        in case stop of
                             None \<Rightarrow> Inr w
                           | Some s \<Rightarrow> stop_continuous has_target req label s w))"

definition process_continuous_unblock ::
  "(entity \<Rightarrow> bool) \<Rightarrow> ('r, 'a, 'l) continuous_world \<Rightarrow> delivery_panic + ('r, 'a, 'l) continuous_world" where
  "process_continuous_unblock has_target w =
     (case cw_unblock w of
        [] \<Rightarrow> Inr w
      | b # bs \<Rightarrow> serve_next_continuous_request has_target (bl_label b) (w\<lparr>cw_unblock := bs\<rparr>))"

subsection \<open>The system\<close>

text \<open>\<open>ContinuousQueueMut\<close>: the queue and what was delivered in this run. An order that has a response
  already cannot be reached any more.\<close>

definition is_delivered :: "nat \<Rightarrow> 'a deliver_response list \<Rightarrow> bool" where
  "is_delivered index delivered \<longleftrightarrow> list_ex (\<lambda>d. dr_index d = index) delivered"

definition queue_get ::
  "('r, 'l) continuous_order list \<Rightarrow> 'a deliver_response list \<Rightarrow> nat \<Rightarrow> ('r, 'l) continuous_order option" where
  "queue_get queue delivered index =
     (if is_delivered index delivered then None
      else if index < length queue then Some (queue ! index) else None)"

definition queue_iter ::
  "('r, 'l) continuous_order list \<Rightarrow> 'a deliver_response list \<Rightarrow> (nat \<times> ('r, 'l) continuous_order) list" where
  "queue_iter queue delivered = filter (\<lambda>(i, _). \<not> is_delivered i delivered) (enumerate 0 queue)"

definition queue_len :: "('r, 'l) continuous_order list \<Rightarrow> 'a deliver_response list \<Rightarrow> nat" where
  "queue_len queue delivered = length queue - length delivered"

definition respond ::
  "('r, 'l) continuous_order list \<Rightarrow> nat \<times> 'a \<Rightarrow> 'a deliver_response list \<Rightarrow> 'a deliver_response list" where
  "respond queue = (\<lambda>(index, response) delivered.
     case queue_get queue delivered index of
       None \<Rightarrow> delivered
     | Some order \<Rightarrow> delivered @ [\<lparr>dr_request_id = cor_request_id order, dr_task_id = cor_task_id order,
         dr_data = response, dr_index = index\<rparr>])"

definition give_response ::
  "'a continuous_environment \<Rightarrow> 'a deliver_response \<Rightarrow> ('r, 'a, 'l) continuous_world \<Rightarrow> ('r, 'a, 'l) continuous_world" where
  "give_response env d w =
     (let req = dr_request_id d;
          w = (if cenv_has_target env (rq_source req) \<and> cenv_accepts env req (dr_data d)
               then w\<lparr>cw_responses := cw_responses w @ [(req, dr_data d)]\<rparr>
               else w\<lparr>cw_broken := cw_broken w @ [cw_provider w]\<rparr>);
          w = (if cenv_has_streams env \<and> cenv_in_scope env (rq_source req)
               then w\<lparr>cw_stream_disposals := cw_stream_disposals w @ [req]\<rparr> else w)
      in w\<lparr>cw_entities := filter (\<lambda>e. e \<noteq> dr_task_id d) (cw_entities w)\<rparr>)"

definition try_retire_request ::
  "(entity \<Rightarrow> bool) \<Rightarrow> ('r, 'a, 'l) continuous_world \<Rightarrow> nat \<Rightarrow> continuous_panic + ('r, 'a, 'l) continuous_world" where
  "try_retire_request has_target w index =
     (case cw_queue w of
        None \<Rightarrow> Inr (w\<lparr>cw_broken := cw_broken w @ [cw_provider w]\<rparr>)
      | Some queue \<Rightarrow>
          (if length queue \<le> index then Inl IndexOutOfBounds
           else let w = w\<lparr>cw_queue := Some (remove_nth index queue)\<rparr>
                in case cor_unblock (queue ! index) of
                     None \<Rightarrow> Inr w
                   | Some b \<Rightarrow> lift_panic (serve_next_continuous_request has_target (bl_label b) w)))"

text \<open>\<open>DeliverResponses\<close>: all responses are given first; then the orders are removed from the last to
  the first, so that a removal does not shift the orders that are still to be removed.\<close>

definition deliver_responses ::
  "'a continuous_environment \<Rightarrow> 'a deliver_response list \<Rightarrow> ('r, 'a, 'l) continuous_world
     \<Rightarrow> continuous_panic + ('r, 'a, 'l) continuous_world" where
  "deliver_responses env responses w =
     rfold (try_retire_request (cenv_has_target env)) (fold (give_response env) responses w)
       (rev (sort (map dr_index responses)))"

text \<open>One run of the system, which tries to give \<open>replies\<close>. Its end (the \<open>drop\<close> of the \<open>ContinuousQuery\<close>)
  queues a command, which is applied later.\<close>

definition run_continuous ::
  "(nat \<times> 'a) list \<Rightarrow> ('r, 'a, 'l) continuous_world \<Rightarrow> ('r, 'a, 'l) continuous_world" where
  "run_continuous replies w =
     (case cw_queue w of
        None \<Rightarrow> w
      | Some queue \<Rightarrow>
          let responses = fold (respond queue) replies []
          in if responses = [] then w else w\<lparr>cw_commands := cw_commands w @ [responses]\<rparr>)"

definition apply_continuous_command ::
  "'a continuous_environment \<Rightarrow> ('r, 'a, 'l) continuous_world \<Rightarrow> continuous_panic + ('r, 'a, 'l) continuous_world" where
  "apply_continuous_command env w =
     (case cw_commands w of
        [] \<Rightarrow> Inr w
      | responses # commands \<Rightarrow> deliver_responses env responses (w\<lparr>cw_commands := commands\<rparr>))"

subsection \<open>Sessions\<close>

text \<open>\<open>OperateService::cleanup\<close> for a node of the provider: the queue first, then the delivery.\<close>

definition cleanup_continuous :: "cleanup \<Rightarrow> ('r, 'a, 'l) continuous_world \<Rightarrow> ('r, 'a, 'l) continuous_world" where
  "cleanup_continuous c w =
     w\<lparr>cw_queue := map_option (filter (\<lambda>order. rq_session (cor_request_id order) \<noteq> cu_session c)) (cw_queue w),
       cw_delivery := map_option (cleanup_delivery (cu_session c)) (cw_delivery w),
       cw_cleaned := cw_cleaned w @ [c]\<rparr>"

subsection \<open>Runs\<close>

definition continuous_init :: "entity \<Rightarrow> ('r, 'l) delivery \<Rightarrow> ('r, 'a, 'l) continuous_world" where
  "continuous_init provider delivery =
     \<lparr>cw_provider = provider, cw_delivery = Some delivery, cw_queue = Some [], cw_next_entity = 0,
      cw_entities = [], cw_unblock = [], cw_responses = [], cw_supplanted = [], cw_stream_disposals = [],
      cw_broken = [], cw_stop_failures = [], cw_cleaned = [], cw_commands = []\<rparr>"

inductive continuous_step ::
  "('r, 'a, 'l) continuous_world \<Rightarrow> ('r, 'a, 'l) continuous_world \<Rightarrow> bool" where
  serve: "serve_continuous has_target req request instructions w = Inr w' \<Longrightarrow> continuous_step w w'"
| run: "continuous_step w (run_continuous replies w)"
| deliver: "apply_continuous_command env w = Inr w' \<Longrightarrow> continuous_step w w'"
| unblock: "process_continuous_unblock has_target w = Inr w' \<Longrightarrow> continuous_step w w'"
| clean: "continuous_step w (cleanup_continuous c w)"
| remove: "continuous_step w (w\<lparr>cw_delivery := None, cw_queue := None\<rparr>)"

inductive_cases continuous_stepE: "continuous_step w w'"

inductive continuous_reachable :: "('r, 'a, 'l) continuous_world \<Rightarrow> bool" where
  init: "delivery = Serial serial_default \<or> delivery = Parallel [] \<Longrightarrow>
    continuous_reachable (continuous_init provider delivery)"
| step: "continuous_reachable w \<Longrightarrow> continuous_step w w' \<Longrightarrow> continuous_reachable w'"

subsection \<open>Who holds a slot\<close>

text \<open>The blockers of the active orders and those of pending unblocks.\<close>

definition order_blockers :: "('r, 'l) continuous_order list \<Rightarrow> 'l blocker multiset" where
  "order_blockers queue = sum_list (map (opt_mset \<circ> cor_unblock) queue)"

definition queue_of :: "('r, 'a, 'l) continuous_world \<Rightarrow> ('r, 'l) continuous_order list" where
  "queue_of w = (case cw_queue w of Some queue \<Rightarrow> queue | None \<Rightarrow> [])"

definition continuous_slots :: "('r, 'l) delivery \<Rightarrow> ('r, 'a, 'l) continuous_world \<Rightarrow> 'l option multiset" where
  "continuous_slots d w = image_mset (\<lambda>b. slot_key d (bl_label b)) (order_blockers (queue_of w) + mset (cw_unblock w))"

definition continuous_exclusive :: "('r, 'a, 'l) continuous_world \<Rightarrow> bool" where
  "continuous_exclusive w \<longleftrightarrow> (\<forall>d. cw_delivery w = Some d \<longrightarrow> balanced d (continuous_slots d w))"

lemma order_blockers_simps [simp]:
  "order_blockers [] = {#}"
  "order_blockers (x # xs) = opt_mset (cor_unblock x) + order_blockers xs"
  "order_blockers (xs @ ys) = order_blockers xs + order_blockers ys"
  by (simp_all add: order_blockers_def)

lemma order_blockers_remove:
  "i < length queue \<Longrightarrow> opt_mset (cor_unblock (queue ! i)) + order_blockers (remove_nth i queue) = order_blockers queue"
  by (subst (3) id_take_nth_drop [of i]) (simp_all add: remove_nth_def ac_simps)

lemma order_blockers_filter: "order_blockers (filter P queue) \<subseteq># order_blockers queue"
  by (induction queue) (auto intro: subset_mset.add_increasing)

text \<open>Serving the next request hands the slot to it. The orders it adds go to the end of the queue and hold
  blockers.\<close>

definition is_serial :: "('r, 'a, 'l) continuous_world \<Rightarrow> bool" where
  "is_serial w \<longleftrightarrow> (\<exists>s. cw_delivery w = Some (Serial s))"

definition grows :: "('r, 'a, 'l) continuous_world \<Rightarrow> ('r, 'a, 'l) continuous_world \<Rightarrow> bool" where
  "grows w w' \<longleftrightarrow> (\<exists>served. cw_queue w' = map_option (\<lambda>queue. queue @ served) (cw_queue w)
        \<and> (\<forall>order \<in> set served. cor_unblock order \<noteq> None))
     \<and> cw_responses w' = cw_responses w \<and> cw_stop_failures w' = cw_stop_failures w
     \<and> cw_commands w' = cw_commands w \<and> (is_serial w' \<longleftrightarrow> is_serial w)"

lemma growsI:
  "cw_queue w' = map_option (\<lambda>queue. queue @ served) (cw_queue w) \<Longrightarrow> \<forall>order \<in> set served. cor_unblock order \<noteq> None
     \<Longrightarrow> cw_responses w' = cw_responses w \<Longrightarrow> cw_stop_failures w' = cw_stop_failures w
     \<Longrightarrow> cw_commands w' = cw_commands w \<Longrightarrow> is_serial w' = is_serial w \<Longrightarrow> grows w w'"
  by (auto simp: grows_def)

lemma pop_next_delivery_serial:
  "pop_next_delivery provider label d = Inr (d', x) \<Longrightarrow> (\<exists>s. d' = Serial s) \<longleftrightarrow> (\<exists>s. d = Serial s)"
  by (cases d) (auto simp: pop_next_delivery_def split: option.splits prod.splits)

lemma serve_next_grows:
  "serve_next_continuous_request has_target label w = Inr w' \<Longrightarrow> grows w w'"
proof (induction has_target label w rule: serve_next_continuous_request.induct)
  case (1 has_target label w)
  note unfold = "1.prems" [unfolded serve_next_continuous_request.simps [of has_target label w]]
  show ?case
  proof (cases "cw_delivery w")
    case None
    then have "w' = w" using unfold by simp
    then show ?thesis by (auto intro!: growsI [where served = "[]"] simp: option.map_ident)
  next
    case (Some d)
    then obtain d' x where pop: "pop_next_delivery (cw_provider w) label d = Inr (d', x)"
      using unfold by (cases "pop_next_delivery (cw_provider w) label d") auto
    have serial: "is_serial (w\<lparr>cw_delivery := Some d'\<rparr>) = is_serial w"
      using pop_next_delivery_serial [OF pop] Some by (auto simp: is_serial_def)
    show ?thesis
    proof (cases x)
      case None
      then have "w' = w\<lparr>cw_delivery := Some d'\<rparr>" using unfold Some pop by simp
      then show ?thesis using serial by (auto intro!: growsI [where served = "[]"] simp: option.map_ident)
    next
      case x: (Some y)
      let ?w = "w\<lparr>cw_delivery := Some d'\<rparr>" and ?req = "bl_request_id (dl_blocker y)"
      obtain v r where v: "serve_continuous_request (dl_request y) (Some (dl_blocker y)) ?req (dl_task_id y) ?w = (v, r)"
        by fastforce
      show ?thesis
      proof (cases "has_target (rq_source ?req) \<and> r = Inr ()")
        case True
        then have "w' = v" using unfold Some pop x v by (simp add: Let_def)
        then show ?thesis
          using v True serial by (auto simp: serve_continuous_request_def grows_def is_serial_def split: option.splits)
      next
        case False
        then have "serve_next_continuous_request has_target label ?w = Inr w'"
          using unfold Some pop x v by (simp add: Let_def split: if_splits)
        then have "grows ?w w'" using "1.IH" [OF Some pop refl x refl refl v [symmetric] _ False] by auto
        then show ?thesis using serial by (simp add: grows_def)
      qed
    qed
  qed
qed

lemma serve_next_continuous_exclusive:
  assumes "\<And>d. cw_delivery w = Some d \<Longrightarrow> balanced d (add_mset (slot_key d label) (continuous_slots d w))"
  shows "\<exists>w'. serve_next_continuous_request has_target label w = Inr w' \<and> continuous_exclusive w'"
  using assms
proof (induction has_target label w rule: serve_next_continuous_request.induct)
  case (1 has_target label w)
  show ?case
  proof (cases "cw_delivery w")
    case None
    then show ?thesis by (simp add: serve_next_continuous_request.simps continuous_exclusive_def)
  next
    case (Some d)
    note bal = "1.prems" [OF Some]
    have wf: "wf_delivery d" using bal by (simp add: balanced_def)
    obtain d' x where pop: "pop_next_delivery (cw_provider w) label d = Inr (d', x)"
      using balanced_pop_total [OF bal] by force
    note bal' = balanced_pop [OF bal pop]
    have key: "slot_key d' = slot_key d" using pop_next_delivery_slots [OF wf pop] by simp
    let ?w = "w\<lparr>cw_delivery := Some d'\<rparr>"
    have held: "continuous_slots d' ?w = continuous_slots d w" by (simp add: continuous_slots_def key queue_of_def)
    show ?thesis
    proof (cases x)
      case None
      then show ?thesis
        using bal' Some pop held
        by (simp add: serve_next_continuous_request.simps [of has_target label w] continuous_exclusive_def)
    next
      case x: (Some y)
      let ?req = "bl_request_id (dl_blocker y)"
      obtain v r where v: "serve_continuous_request (dl_request y) (Some (dl_blocker y)) ?req (dl_task_id y) ?w = (v, r)"
        by fastforce
      show ?thesis
      proof (cases "has_target (rq_source ?req) \<and> r = Inr ()")
        case True
        then have "cw_delivery v = Some d'"
          "continuous_slots d' v = add_mset (slot_key d (bl_label (dl_blocker y))) (continuous_slots d w)"
          using v by (auto simp: serve_continuous_request_def continuous_slots_def queue_of_def key split: option.splits)
        then have "continuous_exclusive v" using bal' x by (simp add: continuous_exclusive_def)
        then show ?thesis
          using Some pop x v True by (simp add: serve_next_continuous_request.simps [of has_target label w] Let_def)
      next
        case False
        have "balanced d' (add_mset (slot_key d' label) (continuous_slots d' ?w))"
          using bal' x held key pop_next_delivery_slots [OF wf pop] by simp
        then have "\<exists>w'. serve_next_continuous_request has_target label ?w = Inr w' \<and> continuous_exclusive w'"
          using "1.IH" [OF Some pop refl x refl refl v [symmetric] _ False] by auto
        then show ?thesis
          using Some pop x v False by (auto simp: serve_next_continuous_request.simps [of has_target label w] Let_def)
      qed
    qed
  qed
qed

lemma continuous_handed_over:
  assumes "continuous_exclusive w" and "cw_delivery w' = cw_delivery w"
    and "add_mset b (order_blockers (queue_of w') + mset (cw_unblock w')) \<subseteq># order_blockers (queue_of w) + mset (cw_unblock w)"
    and "cw_delivery w' = Some d"
  shows "balanced d (add_mset (slot_key d (bl_label b)) (continuous_slots d w'))"
proof -
  have "add_mset (slot_key d (bl_label b)) (continuous_slots d w') \<subseteq># continuous_slots d w"
    using image_mset_subseteq_mono [OF assms(3), of "\<lambda>b. slot_key d (bl_label b)"] by (simp add: continuous_slots_def)
  moreover have "balanced d (continuous_slots d w)" using assms(1,2,4) by (simp add: continuous_exclusive_def)
  ultimately show ?thesis by (rule balanced_mono [rotated])
qed

lemma continuous_exclusive_less:
  assumes "continuous_exclusive w" and "cw_delivery w' = cw_delivery w"
    and "order_blockers (queue_of w') + mset (cw_unblock w') \<subseteq># order_blockers (queue_of w) + mset (cw_unblock w)"
  shows "continuous_exclusive w'"
  using assms(1,2) image_mset_subseteq_mono [OF assms(3)]
  by (auto simp: continuous_exclusive_def continuous_slots_def intro: balanced_mono)

lemma process_continuous_unblock_exclusive:
  assumes "continuous_exclusive w"
  shows "\<exists>w'. process_continuous_unblock has_target w = Inr w' \<and> continuous_exclusive w' \<and> cw_stop_failures w' = cw_stop_failures w"
proof (cases "cw_unblock w")
  case (Cons b bs)
  have "balanced d (add_mset (slot_key d (bl_label b)) (continuous_slots d (w\<lparr>cw_unblock := bs\<rparr>)))"
    if "cw_delivery (w\<lparr>cw_unblock := bs\<rparr>) = Some d" for d
    by (rule continuous_handed_over [OF assms _ _ that]) (simp_all add: Cons queue_of_def)
  from serve_next_continuous_exclusive [OF this, of has_target] obtain w' where
    w': "serve_next_continuous_request has_target (bl_label b) (w\<lparr>cw_unblock := bs\<rparr>) = Inr w'" "continuous_exclusive w'"
    by blast
  with serve_next_grows [OF w'(1)] show ?thesis by (auto simp: process_continuous_unblock_def Cons grows_def)
qed (simp add: process_continuous_unblock_def assms)

lemma index_of_task_less: "index_of_task task queue = Some i \<Longrightarrow> i < length queue"
  by (induction queue arbitrary: i) (auto split: if_splits)

lemma supplant_parts [simp]:
  "cw_delivery (supplant r s w) = cw_delivery w" "cw_queue (supplant r s w) = cw_queue w"
  "cw_unblock (supplant r s w) = cw_unblock w" "cw_stop_failures (supplant r s w) = cw_stop_failures w"
  "cw_responses (supplant r s w) = cw_responses w" "cw_provider (supplant r s w) = cw_provider w"
  "cw_commands (supplant r s w) = cw_commands w"
  by (simp_all add: supplant_def)

lemma supplant_all_parts [simp]:
  "cw_delivery (fold (supplant r) ss w) = cw_delivery w" "cw_queue (fold (supplant r) ss w) = cw_queue w"
  "cw_unblock (fold (supplant r) ss w) = cw_unblock w" "cw_stop_failures (fold (supplant r) ss w) = cw_stop_failures w"
  "cw_responses (fold (supplant r) ss w) = cw_responses w" "cw_commands (fold (supplant r) ss w) = cw_commands w"
  by (induction ss arbitrary: w) simp_all

lemma supplant_exclusive [simp]: "continuous_exclusive (supplant r s w) \<longleftrightarrow> continuous_exclusive w"
  by (simp add: continuous_exclusive_def continuous_slots_def queue_of_def)

lemma stop_continuous_exclusive:
  assumes "continuous_exclusive w"
  shows "\<exists>w'. stop_continuous has_target r label s w = Inr w'
    \<and> (cw_stop_failures w' = [] \<longrightarrow> cw_stop_failures w = [] \<and> continuous_exclusive w')"
proof (cases "cw_queue w")
  case None
  then show ?thesis using assms by (simp add: stop_continuous_def)
next
  case (Some queue)
  show ?thesis
  proof (cases "index_of_task (ds_task_id s) queue")
    case None
    then show ?thesis using Some by (simp add: stop_continuous_def)
  next
    case i: (Some i)
    show ?thesis
    proof (cases "cor_unblock (queue ! i)")
      case None
      then show ?thesis using Some i by (simp add: stop_continuous_def)
    next
      case b: (Some b)
      let ?w = "w\<lparr>cw_queue := Some (remove_nth i queue)\<rparr>"
      have "add_mset b (order_blockers (remove_nth i queue)) = order_blockers queue"
        using order_blockers_remove [OF index_of_task_less [OF i]] b by simp
      then have "balanced d (add_mset (slot_key d (bl_label b)) (continuous_slots d ?w))"
        if "cw_delivery ?w = Some d" for d
        by (intro continuous_handed_over [OF assms _ _ that]) (simp_all add: queue_of_def Some)
      from serve_next_continuous_exclusive [OF this, of has_target] obtain w' where
        w': "serve_next_continuous_request has_target (bl_label b) ?w = Inr w'" "continuous_exclusive w'"
        by blast
      with serve_next_grows [OF w'(1)] show ?thesis
        using Some i b by (auto simp: stop_continuous_def grows_def)
    qed
  qed
qed

lemma serve_continuous_exclusive:
  assumes "continuous_exclusive w"
  shows "\<exists>w'. serve_continuous has_target req request instructions w = Inr w'
    \<and> (cw_stop_failures w' = [] \<longrightarrow> cw_stop_failures w = [] \<and> continuous_exclusive w')"
proof (cases "cw_delivery w")
  case None
  then show ?thesis by (simp add: serve_continuous_def continuous_exclusive_def Let_def)
next
  case (Some d)
  let ?order = "\<lparr>do_request_id = req, do_task_id = cw_next_entity w, do_request = request, do_instructions = instructions\<rparr>"
  have bal: "balanced d (continuous_slots d w)" using assms Some by (simp add: continuous_exclusive_def)
  then have wf: "wf_delivery d" by (simp add: balanced_def)
  obtain d' update where ins: "insert_new_order d ?order = Inr (d', update)"
    using insert_new_order_total [OF wf, of ?order] by auto
  note bal' = balanced_insert [OF bal ins]
  have key: "slot_key d' = slot_key d" using insert_new_order_slots [OF wf ins] by simp
  let ?w = "w\<lparr>cw_next_entity := Suc (cw_next_entity w),
    cw_entities := cw_entities w @ [cw_next_entity w], cw_delivery := Some d'\<rparr>"
  have held: "continuous_slots d' ?w = continuous_slots d w" by (simp add: continuous_slots_def queue_of_def key)
  show ?thesis
  proof (cases update)
    case (Immediate blocking r seq)
    let ?b = "map_option (\<lambda>label. \<lparr>bl_provider = cw_provider w, bl_request_id = req, bl_label = label\<rparr>) blocking"
    let ?v = "fst (serve_continuous_request r ?b req (cw_next_entity w) ?w)"
    have v: "cw_delivery ?v = Some d'" "cw_stop_failures ?v = cw_stop_failures w"
      by (simp_all add: serve_continuous_request_def split: option.split)
    have "continuous_slots d' ?v \<subseteq># opt_mset (map_option (slot_key d) blocking) + continuous_slots d w"
      using held by (cases blocking)
        (auto simp: serve_continuous_request_def continuous_slots_def queue_of_def key split: option.split)
    moreover have "balanced d' (opt_mset (map_option (slot_key d) blocking) + continuous_slots d w)"
      using bal' Immediate by (cases blocking) simp_all
    ultimately have "continuous_exclusive ?v" using v by (auto simp: continuous_exclusive_def intro: balanced_mono)
    moreover have "r = request" using insert_new_order_slots [OF wf ins] Immediate by simp
    ultimately show ?thesis using v Immediate ins Some by (simp add: serve_continuous_def Let_def)
  next
    case (Queued cancelled stop label)
    let ?u = "fold (supplant req) cancelled ?w"
    have u: "continuous_exclusive ?u"
      using bal' Queued held by (simp add: continuous_exclusive_def continuous_slots_def queue_of_def)
    have run: "serve_continuous has_target req request instructions w =
        (case stop of None \<Rightarrow> Inr ?u | Some s \<Rightarrow> stop_continuous has_target req label s ?u)"
      using Queued ins Some by (simp add: serve_continuous_def Let_def)
    show ?thesis
    proof (cases stop)
      case None
      then show ?thesis using run u by simp
    next
      case (Some s)
      then show ?thesis using run stop_continuous_exclusive [OF u, of has_target req label s] by simp
    qed
  qed
qed

lemma cleanup_continuous_exclusive: "continuous_exclusive w \<Longrightarrow> continuous_exclusive (cleanup_continuous c w)"
proof -
  assume "continuous_exclusive w"
  then have "continuous_exclusive (w\<lparr>cw_queue := cw_queue (cleanup_continuous c w)\<rparr>)"
    by (rule continuous_exclusive_less)
       (auto simp: cleanup_continuous_def queue_of_def order_blockers_filter split: option.split)
  then have "balanced (cleanup_delivery (cu_session c) d) (continuous_slots d (cleanup_continuous c w))"
    if "cw_delivery w = Some d" for d
    using that by (intro balanced_cleanup) (simp add: continuous_exclusive_def continuous_slots_def queue_of_def cleanup_continuous_def)
  moreover have "slot_key (cleanup_delivery session d) = slot_key d" for session and d :: "('a, 'c) delivery"
    by (cases d) (simp_all add: fun_eq_iff)
  ultimately show ?thesis
    by (auto simp: continuous_exclusive_def continuous_slots_def cleanup_continuous_def)
qed

end
