(* ===== verification/ContinuousRuns.thy ===== *)
theory ContinuousRuns
  imports Continuous
begin

text \<open>
  Properties of the continuous services of \<open>Continuous\<close>: what one run of the system and the command that
  it queues do to the queue, what a command does that finds another queue than its run saw, mutual
  exclusion in every reachable state, and how a serial service is blocked for good because a session
  was cleaned while one of its orders was active.
\<close>

subsection \<open>The responses of one run\<close>




lemma give_responses_parts [simp]:
  "cw_queue (fold (give_response env) ds w) = cw_queue w" "cw_delivery (fold (give_response env) ds w) = cw_delivery w"
  "cw_unblock (fold (give_response env) ds w) = cw_unblock w"
  "cw_stop_failures (fold (give_response env) ds w) = cw_stop_failures w"
  "cw_commands (fold (give_response env) ds w) = cw_commands w"
  "is_serial (fold (give_response env) ds w) = is_serial w"
  "queue_of (fold (give_response env) ds w) = queue_of w"
  by (induction ds arbitrary: w) (simp_all add: give_response_def is_serial_def queue_of_def Let_def)

lemma lift_panic_Inr: "lift_panic r = Inr x \<longleftrightarrow> r = Inr x"
  by (cases r) simp_all

lemma run_continuous_parts [simp]:
  "cw_queue (run_continuous replies w) = cw_queue w" "cw_delivery (run_continuous replies w) = cw_delivery w"
  "cw_unblock (run_continuous replies w) = cw_unblock w" "cw_responses (run_continuous replies w) = cw_responses w"
  "cw_stop_failures (run_continuous replies w) = cw_stop_failures w"
  by (simp_all add: run_continuous_def Let_def split: option.split)

lemma run_continuous_exclusive [simp]: "continuous_exclusive (run_continuous replies w) \<longleftrightarrow> continuous_exclusive w"
  by (simp add: continuous_exclusive_def continuous_slots_def queue_of_def)

lemma run_continuous_commands:
  "cw_queue w = Some queue \<Longrightarrow> cw_commands (run_continuous replies w) =
     cw_commands w @ (let ds = fold (respond queue) replies [] in if ds = [] then [] else [ds])"
  by (simp add: run_continuous_def Let_def)

text \<open>Retiring one order hands its slot over, whichever order the index finds.\<close>

lemma try_retire_exclusive:
  assumes "cw_queue w = Some queue" and "i < length queue" and "continuous_exclusive w"
  shows "\<exists>v served. try_retire_request has_target w i = Inr v \<and> cw_queue v = Some (remove_nth i queue @ served)
    \<and> (\<forall>order \<in> set served. cor_unblock order \<noteq> None) \<and> (is_serial v \<longleftrightarrow> is_serial w)
    \<and> cw_responses v = cw_responses w \<and> cw_stop_failures v = cw_stop_failures w
    \<and> cw_commands v = cw_commands w \<and> continuous_exclusive v"
proof -
  let ?w = "w\<lparr>cw_queue := Some (remove_nth i queue)\<rparr>"
  note blockers = order_blockers_remove [OF assms(2)]
  show ?thesis
  proof (cases "cor_unblock (queue ! i)")
    case None
    have "continuous_exclusive ?w"
      by (rule continuous_exclusive_less [OF assms(3)]) (use blockers None in \<open>simp_all add: queue_of_def assms(1)\<close>)
    then show ?thesis using None assms(1,2) by (simp add: try_retire_request_def is_serial_def)
  next
    case (Some b)
    have "balanced d (add_mset (slot_key d (bl_label b)) (continuous_slots d ?w))" if "cw_delivery ?w = Some d" for d
      by (rule continuous_handed_over [OF assms(3) _ _ that])
         (use blockers Some in \<open>simp_all add: queue_of_def assms(1)\<close>)
    from serve_next_continuous_exclusive [OF this, of has_target] obtain v where
      v: "serve_next_continuous_request has_target (bl_label b) ?w = Inr v" "continuous_exclusive v" by blast
    with serve_next_grows [OF v(1)] show ?thesis
      using Some assms(1,2) by (auto simp: try_retire_request_def grows_def is_serial_def)
  qed
qed




text \<open>A command that finds any queue at all keeps the slots exclusive, if it does not panic.\<close>

lemma deliver_responses_keeps:
  assumes "deliver_responses env ds w = Inr w'" and "continuous_exclusive w"
  shows "continuous_exclusive w' \<and> cw_stop_failures w' = cw_stop_failures w"
proof -
  let ?v = "fold (give_response env) ds w"
  have v: "continuous_exclusive ?v" using assms(2) by (simp add: continuous_exclusive_def continuous_slots_def queue_of_def)
  have "rfold (try_retire_request (cenv_has_target env)) ?v (rev (sort (map dr_index ds))) = Inr w'"
    using assms(1) by (simp add: deliver_responses_def)
  then have "continuous_exclusive w' \<and> cw_stop_failures w' = cw_stop_failures ?v"
  proof (rule rfold_invariant [where P = "\<lambda>u. continuous_exclusive u \<and> cw_stop_failures u = cw_stop_failures ?v"])
    fix i u u'
    assume u: "continuous_exclusive u \<and> cw_stop_failures u = cw_stop_failures ?v"
      and retire: "try_retire_request (cenv_has_target env) u i = Inr u'"
    show "continuous_exclusive u' \<and> cw_stop_failures u' = cw_stop_failures ?v"
    proof (cases "cw_queue u")
      case None
      then have "u' = u\<lparr>cw_broken := cw_broken u @ [cw_provider u]\<rparr>" using retire by (simp add: try_retire_request_def)
      then show ?thesis using u by (simp add: continuous_exclusive_def continuous_slots_def queue_of_def)
    next
      case (Some queue)
      then have "i < length queue" using retire by (simp add: try_retire_request_def split: if_splits)
      from try_retire_exclusive [OF Some this, of "cenv_has_target env"] u retire show ?thesis by auto
    qed
  qed (use v in simp)
  then show ?thesis by simp
qed

lemma apply_command_keeps:
  assumes "apply_continuous_command env w = Inr w'" and "continuous_exclusive w"
  shows "continuous_exclusive w' \<and> cw_stop_failures w' = cw_stop_failures w"
proof (cases "cw_commands w")
  case (Cons ds commands)
  have "continuous_exclusive (w\<lparr>cw_commands := commands\<rparr>)"
    using assms(2) by (simp add: continuous_exclusive_def continuous_slots_def queue_of_def)
  then show ?thesis using deliver_responses_keeps [of env ds "w\<lparr>cw_commands := commands\<rparr>" w'] assms(1) Cons
    by (simp add: apply_continuous_command_def)
qed (use assms in \<open>simp add: apply_continuous_command_def\<close>)

subsection \<open>Guarantees\<close>


text \<open>The queue only grows at its end while requests without preemptive instructions arrive and unblocks are
  processed.\<close>

lemma unblock_appends:
  assumes "process_continuous_unblock has_target w = Inr w'" and "cw_queue w = Some queue"
  shows "(\<exists>extra. cw_queue w' = Some (queue @ extra)) \<and> cw_commands w' = cw_commands w"
proof (cases "cw_unblock w")
  case (Cons b bs)
  then show ?thesis using assms serve_next_grows [of has_target "bl_label b" "w\<lparr>cw_unblock := bs\<rparr>" w']
    by (auto simp: process_continuous_unblock_def grows_def)
qed (use assms in \<open>simp add: process_continuous_unblock_def\<close>)



text \<open>Nothing orders the application of the command before other changes of the queue. When a session is
  cleaned in between, the index is that of another order: the order behind the one that got the reply is
  retired without a response, or there is none and the removal panics.\<close>

lemma stale_command_retires_wrong_order:
  assumes "cw_queue w = Some (a # b # rest)" and "cw_commands w = []" and "continuous_exclusive w"
    and "cu_session c = rq_session (cor_request_id a)"
    and "rq_session (cor_request_id b) \<noteq> cu_session c"
  shows "\<exists>w' rest' served. apply_continuous_command env (cleanup_continuous c (run_continuous [(0, x)] w)) = Inr w'
    \<and> cw_queue w' = Some (filter (\<lambda>order. rq_session (cor_request_id order) \<noteq> cu_session c) rest @ served)
    \<and> set (cw_responses w') \<subseteq> set (cw_responses w) \<union> {(cor_request_id a, x)}"
proof -
  let ?d = "\<lparr>dr_request_id = cor_request_id a, dr_task_id = cor_task_id a, dr_data = x, dr_index = 0\<rparr>"
  let ?v = "cleanup_continuous c (run_continuous [(0, x)] w)"
  let ?rest = "filter (\<lambda>order. rq_session (cor_request_id order) \<noteq> cu_session c) rest"
  let ?u = "give_response env ?d (?v\<lparr>cw_commands := []\<rparr>)"
  have commands: "cw_commands ?v = [[?d]]"
    using run_continuous_commands [OF assms(1), of "[(0, x)]"] assms(2)
    by (simp add: cleanup_continuous_def respond_def queue_get_def is_delivered_def)
  have "cw_queue ?v = Some (b # ?rest)" using assms(1,4,5) by (simp add: cleanup_continuous_def)
  then have queue: "cw_queue ?u = Some (b # ?rest)" by (simp add: give_response_def Let_def)
  have "continuous_exclusive ?v" using assms(3) by (simp add: cleanup_continuous_exclusive)
  then have "continuous_exclusive ?u"
    by (simp add: give_response_def continuous_exclusive_def continuous_slots_def queue_of_def Let_def)
  from try_retire_exclusive [OF queue _ this, of 0 "cenv_has_target env"] obtain w' served where
    w': "try_retire_request (cenv_has_target env) ?u 0 = Inr w'" "cw_queue w' = Some (?rest @ served)"
    "cw_responses w' = cw_responses ?u"
    by (auto simp: remove_nth_def)
  have "cw_responses ?v = cw_responses w" by (simp add: cleanup_continuous_def)
  then have "set (cw_responses w') \<subseteq> set (cw_responses w) \<union> {(cor_request_id a, x)}"
    using w'(3) by (auto simp: give_response_def Let_def)
  then show ?thesis
    using w'(1,2) by (simp add: apply_continuous_command_def deliver_responses_def commands)
qed

lemma stale_command_panics:
  assumes "cw_queue w = Some [a]" and "cw_commands w = []" and "cu_session c = rq_session (cor_request_id a)"
  shows "apply_continuous_command env (cleanup_continuous c (run_continuous [(0, x)] w)) = Inl IndexOutOfBounds"
  using run_continuous_commands [OF assms(1), of "[(0, x)]"] assms
  by (simp add: cleanup_continuous_def respond_def queue_get_def is_delivered_def apply_continuous_command_def
      deliver_responses_def try_retire_request_def give_response_def Let_def)

lemma continuous_init_exclusive:
  "d = Serial serial_default \<or> d = Parallel [] \<Longrightarrow> continuous_exclusive (continuous_init provider d)"
  by (auto simp: continuous_exclusive_def continuous_init_def balanced_def wf_delivery_def
      continuous_slots_def queue_of_def serial_default_def serial_at_def split: if_splits option.splits)

text \<open>Attempts to stop a request without an active order are never forgotten.\<close>

lemma stop_continuous_failures:
  assumes "stop_continuous has_target r label s w = Inr w'" and "cw_stop_failures w \<noteq> []"
  shows "cw_stop_failures w' \<noteq> []"
  using assms by (auto simp: stop_continuous_def rbind_eq_Inr grows_def split: option.splits dest!: serve_next_grows)

lemma serve_continuous_failures:
  assumes "serve_continuous has_target req request instructions w = Inr w'" and "cw_stop_failures w \<noteq> []"
  shows "cw_stop_failures w' \<noteq> []"
proof (cases "cw_delivery w")
  case None
  then show ?thesis using assms by (auto simp: serve_continuous_def Let_def)
next
  case (Some d)
  let ?order = "\<lparr>do_request_id = req, do_task_id = cw_next_entity w, do_request = request, do_instructions = instructions\<rparr>"
  obtain d' update where ins: "insert_new_order d ?order = Inr (d', update)"
    using assms(1) Some by (auto simp: serve_continuous_def Let_def rbind_eq_Inr)
  show ?thesis
  proof (cases update)
    case (Immediate blocking r seq)
    then show ?thesis
      using assms Some ins by (auto simp: serve_continuous_def serve_continuous_request_def Let_def split: option.splits)
  next
    case (Queued cancelled stop label)
    let ?u = "fold (supplant req) cancelled (w\<lparr>cw_next_entity := Suc (cw_next_entity w),
      cw_entities := cw_entities w @ [cw_next_entity w], cw_delivery := Some d'\<rparr>)"
    have "(case stop of None \<Rightarrow> Inr ?u | Some s \<Rightarrow> stop_continuous has_target req label s ?u) = Inr w'"
      using Queued ins Some assms(1) by (simp add: serve_continuous_def Let_def)
    then show ?thesis using assms(2) stop_continuous_failures [of has_target req label _ ?u w']
      by (auto split: option.splits)
  qed
qed

lemma try_retire_failures:
  "try_retire_request has_target w i = Inr w' \<Longrightarrow> cw_stop_failures w' = cw_stop_failures w"
  by (auto simp: try_retire_request_def grows_def lift_panic_Inr Let_def split: option.splits if_splits dest!: serve_next_grows)

lemma apply_command_failures:
  assumes "apply_continuous_command env w = Inr w'"
  shows "cw_stop_failures w' = cw_stop_failures w"
proof -
  have "cw_stop_failures u = cw_stop_failures v"
    if "rfold (try_retire_request (cenv_has_target env)) (fold (give_response env) ds v) xs = Inr u" for ds xs u v
    by (rule rfold_invariant [where P = "\<lambda>u. cw_stop_failures u = cw_stop_failures v", OF that])
       (simp_all add: try_retire_failures)
  then show ?thesis
    using assms by (fastforce simp: apply_continuous_command_def deliver_responses_def split: list.splits)
qed

lemma continuous_step_exclusive:
  assumes "continuous_step w w'" and "continuous_exclusive w" and "cw_stop_failures w' = []"
  shows "continuous_exclusive w' \<and> cw_stop_failures w = []"
  using assms(1)
proof cases
  case (serve has_target req request instructions)
  then show ?thesis using serve_continuous_exclusive [OF assms(2), of has_target req request instructions] assms(3) by auto
next
  case (run replies)
  then show ?thesis using assms(2,3) by simp
next
  case (deliver env)
  from apply_command_keeps [OF this assms(2)] show ?thesis using assms(3) by simp
next
  case (unblock has_target)
  then show ?thesis using process_continuous_unblock_exclusive [OF assms(2), of has_target] assms(3) by auto
next
  case (clean c)
  then show ?thesis using cleanup_continuous_exclusive [OF assms(2)] assms(3) by (simp add: cleanup_continuous_def)
next
  case remove
  then show ?thesis using assms(3) by (simp add: continuous_exclusive_def)
qed

lemma continuous_reachable_exclusive:
  assumes "continuous_reachable w" and "cw_stop_failures w = []"
  shows "continuous_exclusive w"
  using assms
proof (induction rule: continuous_reachable.induct)
  case (init delivery provider)
  then show ?case by (simp add: continuous_init_exclusive)
next
  case (step w w')
  show ?case
  proof (cases "cw_stop_failures w = []")
    case True
    then show ?thesis using step continuous_step_exclusive by blast
  next
    case False
    have "cw_stop_failures w' \<noteq> []"
      using step(2) False
    proof cases
      case (serve has_target req request instructions)
      from serve_continuous_failures [OF this False] show ?thesis .
    next
      case (run replies)
      then show ?thesis using False by simp
    next
      case (deliver env)
      from apply_command_failures [OF this] False show ?thesis by simp
    next
      case (unblock has_target)
      then show ?thesis
        using False by (auto simp: process_continuous_unblock_def grows_def split: list.splits dest: serve_next_grows)
    qed (use False in \<open>simp_all add: cleanup_continuous_def\<close>)
    then show ?thesis using step.prems by simp
  qed
qed

lemma order_blockers_two:
  assumes "i < j" and "j < length queue"
  shows "opt_mset (cor_unblock (queue ! i)) + opt_mset (cor_unblock (queue ! j)) \<subseteq># order_blockers queue"
proof -
  have "i < length (remove_nth j queue)" "remove_nth j queue ! i = queue ! i"
    using assms by (simp_all add: remove_nth_def nth_append)
  from order_blockers_remove [OF this(1)] this(2) order_blockers_remove [OF assms(2)]
  have "opt_mset (cor_unblock (queue ! j)) + (opt_mset (cor_unblock (queue ! i)) + order_blockers (remove_nth i (remove_nth j queue)))
      = order_blockers queue" by simp
  then show ?thesis by (metis add.assoc add.commute mset_subset_eq_add_left)
qed

text \<open>C18: mutual exclusion for continuous services. In every reachable state two active orders that block
  the service block different slots: a serial service has at most one of them, a parallel one at most
  one per label. The condition is that no request was to be stopped that had no active order.\<close>

theorem continuous_mutual_exclusion:
  assumes "continuous_reachable w" and "cw_stop_failures w = []"
    and "cw_delivery w = Some d" and "cw_queue w = Some queue" and "i < j" and "j < length queue"
    and "cor_unblock (queue ! i) = Some b" and "cor_unblock (queue ! j) = Some b'"
  shows "slot_key d (bl_label b) \<noteq> slot_key d (bl_label b')"
proof
  assume same: "slot_key d (bl_label b) = slot_key d (bl_label b')"
  have "{#b, b'#} \<subseteq># order_blockers queue"
    using order_blockers_two [OF assms(5,6)] assms(7,8) by (simp add: add_mset_commute)
  also have "\<dots> \<subseteq># order_blockers (queue_of w) + mset (cw_unblock w)" by (simp add: queue_of_def assms(4))
  finally have "image_mset (\<lambda>b. slot_key d (bl_label b)) {#b, b'#} \<subseteq># continuous_slots d w"
    unfolding continuous_slots_def by (rule image_mset_subseteq_mono)
  then have "2 \<le> count (continuous_slots d w) (slot_key d (bl_label b))"
    using same by (auto dest: mset_subset_eq_count [of _ _ "slot_key d (bl_label b)"])
  moreover have "count (continuous_slots d w) (slot_key d (bl_label b)) \<le> 1"
    using continuous_reachable_exclusive [OF assms(1,2)] assms(3) by (simp add: continuous_exclusive_def balanced_def)
  ultimately show False by simp
qed

subsection \<open>Concrete runs\<close>

definition continuous_request :: "entity \<Rightarrow> request_id" where
  "continuous_request session = \<lparr>rq_session = session, rq_source = 50, rq_seq = 0\<rparr>"

definition serve_all ::
  "('r, 'l) delivery \<Rightarrow> (entity \<times> 'r \<times> 'l delivery_instructions option) list \<Rightarrow> delivery_panic + ('r, nat, 'l) continuous_world" where
  "serve_all delivery requests =
     rfold (\<lambda>w (session, request, instructions). serve_continuous (\<lambda>_. True) (continuous_request session) request instructions w)
       (continuous_init 40 delivery) requests"

lemma serve_all_reachable:
  assumes "serve_all delivery requests = Inr w" and "delivery = Serial serial_default \<or> delivery = Parallel []"
  shows "continuous_reachable w"
  using assms(1) unfolding serve_all_def
proof (rule rfold_invariant)
  show "continuous_reachable (continuous_init 40 delivery)" using assms(2) by (rule continuous_reachable.init)
qed (auto intro: continuous_reachable.step continuous_step.serve)

definition two_labels :: "(nat, nat, nat) continuous_world" where
  "two_labels = projr (serve_all (Parallel []) [(7, 1, Some (instructions_new 1)), (8, 2, Some (instructions_new 2))])"

lemma two_labels_served:
  "serve_all (Parallel []) [(7, 1::nat, Some (instructions_new (1::nat))), (8, 2, Some (instructions_new 2))] = Inr two_labels"
proof -
  have "\<not> isl (serve_all (Parallel []) [(7, 1::nat, Some (instructions_new (1::nat))), (8, 2, Some (instructions_new 2))])"
    by code_simp
  then show ?thesis unfolding two_labels_def by (rule sum.collapse(2) [symmetric])
qed

lemma two_labels_reachable: "continuous_reachable two_labels"
  by (rule serve_all_reachable [OF two_labels_served]) simp

lemma two_labels_queue: "\<exists>d a b. cw_delivery two_labels = Some d \<and> cw_queue two_labels = Some [a, b]
    \<and> map_option bl_label (cor_unblock a) = Some (Some 1) \<and> map_option bl_label (cor_unblock b) = Some (Some 2)
    \<and> cw_stop_failures two_labels = []"
proof -
  have "cw_delivery two_labels \<noteq> None \<and> map_option (map (map_option bl_label \<circ> cor_unblock)) (cw_queue two_labels)
      = Some [Some (Some 1), Some (Some 2)] \<and> cw_stop_failures two_labels = []"
    by code_simp
  then show ?thesis by (auto simp: map_eq_Cons_conv)
qed

lemma continuous_mutual_exclusion_witness:
  "\<exists>d. cw_delivery two_labels = Some d \<and> slot_key d (Some 1) \<noteq> slot_key d (Some 2)"
proof -
  obtain d a b where two: "cw_delivery two_labels = Some d" "cw_queue two_labels = Some [a, b]"
    "map_option bl_label (cor_unblock a) = Some (Some 1)" "map_option bl_label (cor_unblock b) = Some (Some 2)"
    "cw_stop_failures two_labels = []"
    using two_labels_queue by blast
  then obtain x y where "cor_unblock a = Some x" "cor_unblock b = Some y" "bl_label x = Some 1" "bl_label y = Some 2"
    by auto
  with continuous_mutual_exclusion [OF two_labels_reachable two(5,1,2), of 0 1 x y] two(1) show ?thesis by simp
qed




subsection \<open>A cleaned session blocks the service\<close>

text \<open>In a serial service every active order holds a blocker.\<close>

definition orders_block :: "('r, 'a, 'l) continuous_world \<Rightarrow> bool" where
  "orders_block w \<longleftrightarrow> (is_serial w \<longrightarrow> (\<forall>order \<in> set (queue_of w). cor_unblock order \<noteq> None))"

lemma orders_block_grows: "grows w w' \<Longrightarrow> orders_block w \<Longrightarrow> orders_block w'"
  by (cases "cw_queue w") (auto simp: grows_def orders_block_def queue_of_def)

lemma orders_block_less:
  "orders_block w \<Longrightarrow> set (queue_of w') \<subseteq> set (queue_of w) \<Longrightarrow> is_serial w' = is_serial w \<Longrightarrow> orders_block w'"
  by (auto simp: orders_block_def)

lemma set_remove_nth: "set (remove_nth i xs) \<subseteq> set xs"
  by (auto simp: remove_nth_def dest: in_set_takeD in_set_dropD)

lemma supplant_serial [simp]: "is_serial (supplant r s w) = is_serial w"
  "is_serial (fold (supplant r) ss w) = is_serial w" "queue_of (supplant r s w) = queue_of w"
  "queue_of (fold (supplant r) ss w) = queue_of w"
  by (simp_all add: is_serial_def queue_of_def)

lemma orders_block_stop:
  assumes "stop_continuous has_target r label s w = Inr w'" and "orders_block w"
  shows "orders_block w'"
proof (cases "cw_queue w")
  case (Some queue)
  show ?thesis
  proof (cases "index_of_task (ds_task_id s) queue")
    case None
    then show ?thesis
      using assms Some by (auto simp: stop_continuous_def orders_block_def queue_of_def is_serial_def)
  next
    case i: (Some i)
    let ?w = "w\<lparr>cw_queue := Some (remove_nth i queue)\<rparr>"
    have w: "orders_block ?w"
      by (rule orders_block_less [OF assms(2)]) (use Some set_remove_nth [of i queue] in \<open>auto simp: queue_of_def is_serial_def\<close>)
    show ?thesis
    proof (cases "cor_unblock (queue ! i)")
      case None
      then show ?thesis using assms(1) Some i w
        by (auto simp: stop_continuous_def orders_block_def queue_of_def is_serial_def)
    next
      case b: (Some b)
      then obtain v where v: "serve_next_continuous_request has_target (bl_label b) ?w = Inr v" "w' = supplant r s v"
        using assms(1) Some i by (auto simp: stop_continuous_def rbind_eq_Inr)
      from orders_block_grows [OF serve_next_grows [OF v(1)] w] show ?thesis by (simp add: v(2) orders_block_def)
    qed
  qed
qed (use assms in \<open>simp add: stop_continuous_def\<close>)

lemma insert_new_order_serial:
  "insert_new_order d order = Inr (d', update) \<Longrightarrow> (\<exists>s. d' = Serial s) \<longleftrightarrow> (\<exists>s. d = Serial s)"
  by (cases d) (auto simp: insert_new_order_def rbind_eq_Inr Let_def split: option.splits)

lemma insert_serial_blocks:
  "insert_new_order (Serial s) order = Inr (d', Immediate blocking r seq) \<Longrightarrow> blocking \<noteq> None"
  by (auto simp: insert_new_order_def insert_serial_order_def rbind_eq_Inr Let_def split: option.splits if_splits)

lemma orders_block_serve:
  assumes "serve_continuous has_target req request instructions w = Inr w'" and "orders_block w"
  shows "orders_block w'"
proof (cases "cw_delivery w")
  case None
  then show ?thesis using assms by (auto simp: serve_continuous_def orders_block_def is_serial_def Let_def)
next
  case (Some d)
  let ?order = "\<lparr>do_request_id = req, do_task_id = cw_next_entity w, do_request = request, do_instructions = instructions\<rparr>"
  obtain d' update where ins: "insert_new_order d ?order = Inr (d', update)"
    using assms(1) Some by (auto simp: serve_continuous_def Let_def rbind_eq_Inr)
  let ?w = "w\<lparr>cw_next_entity := Suc (cw_next_entity w),
    cw_entities := cw_entities w @ [cw_next_entity w], cw_delivery := Some d'\<rparr>"
  have serial: "is_serial ?w = is_serial w" using insert_new_order_serial [OF ins] Some by (auto simp: is_serial_def)
  have w: "orders_block ?w" by (rule orders_block_less [OF assms(2) _ serial]) (simp add: queue_of_def)
  show ?thesis
  proof (cases update)
    case (Immediate blocking r seq)
    have "blocking \<noteq> None" if "is_serial w"
      using insert_serial_blocks [of _ ?order d' blocking r seq] ins Some Immediate that by (auto simp: is_serial_def)
    then show ?thesis
      using assms(1) Some ins Immediate w serial
      by (auto simp: serve_continuous_def serve_continuous_request_def orders_block_def queue_of_def is_serial_def Let_def
          split: option.splits)
  next
    case (Queued cancelled stop label)
    let ?u = "fold (supplant req) cancelled ?w"
    have u: "orders_block ?u" using w by (simp add: orders_block_def)
    have "(case stop of None \<Rightarrow> Inr ?u | Some s \<Rightarrow> stop_continuous has_target req label s ?u) = Inr w'"
      using Queued ins Some assms(1) by (simp add: serve_continuous_def Let_def)
    then show ?thesis using u orders_block_stop by (auto split: option.splits)
  qed
qed

lemma orders_block_retire:
  assumes "try_retire_request has_target w i = Inr w'" and "orders_block w"
  shows "orders_block w'"
proof (cases "cw_queue w")
  case None
  then have "w' = w\<lparr>cw_broken := cw_broken w @ [cw_provider w]\<rparr>" using assms(1) by (simp add: try_retire_request_def)
  then show ?thesis using assms(2) by (simp add: orders_block_def queue_of_def is_serial_def)
next
  case (Some queue)
  let ?w = "w\<lparr>cw_queue := Some (remove_nth i queue)\<rparr>"
  have w: "orders_block ?w"
    by (rule orders_block_less [OF assms(2)]) (use Some set_remove_nth [of i queue] in \<open>auto simp: queue_of_def is_serial_def\<close>)
  show ?thesis
  proof (cases "cor_unblock (queue ! i)")
    case None
    then show ?thesis using assms(1) Some w by (auto simp: try_retire_request_def split: if_splits)
  next
    case (Some b)
    then have "serve_next_continuous_request has_target (bl_label b) ?w = Inr w'"
      using assms(1) \<open>cw_queue w = Some queue\<close> by (simp add: try_retire_request_def lift_panic_Inr split: if_splits)
    from orders_block_grows [OF serve_next_grows [OF this] w] show ?thesis .
  qed
qed

lemma orders_block_apply:
  assumes "apply_continuous_command env w = Inr w'" and "orders_block w"
  shows "orders_block w'"
proof (cases "cw_commands w")
  case (Cons ds commands)
  let ?u = "fold (give_response env) ds (w\<lparr>cw_commands := commands\<rparr>)"
  have "is_serial (w\<lparr>cw_commands := commands\<rparr>) = is_serial w" "queue_of (w\<lparr>cw_commands := commands\<rparr>) = queue_of w"
    by (simp_all add: is_serial_def queue_of_def)
  then have u: "orders_block ?u" using assms(2) by (simp add: orders_block_def)
  have "rfold (try_retire_request (cenv_has_target env)) ?u (rev (sort (map dr_index ds))) = Inr w'"
    using assms(1) Cons by (simp add: apply_continuous_command_def deliver_responses_def)
  then show ?thesis by (rule rfold_invariant) (use u orders_block_retire in auto)
qed (use assms in \<open>simp add: apply_continuous_command_def\<close>)

lemma cleanup_serial [simp]: "is_serial (cleanup_continuous c w) = is_serial w"
proof -
  have "(\<exists>s. cleanup_delivery session d = Serial s) \<longleftrightarrow> (\<exists>s. d = Serial s)" for session and d :: "('a, 'c) delivery"
    by (cases d) simp_all
  then show ?thesis by (cases "cw_delivery w") (simp_all add: is_serial_def cleanup_continuous_def)
qed

lemma reachable_orders_block: "continuous_reachable w \<Longrightarrow> orders_block w"
proof (induction rule: continuous_reachable.induct)
  case (init delivery provider)
  then show ?case by (simp add: orders_block_def continuous_init_def queue_of_def)
next
  case (step w w')
  from step(2) show ?case
  proof cases
    case (serve has_target req request instructions)
    from orders_block_serve [OF this step.IH] show ?thesis .
  next
    case (run replies)
    then show ?thesis using step.IH by (auto simp: orders_block_def queue_of_def is_serial_def)
  next
    case (deliver env)
    from orders_block_apply [OF this step.IH] show ?thesis .
  next
    case (unblock has_target)
    show ?thesis
    proof (cases "cw_unblock w")
      case (Cons b bs)
      have "orders_block (w\<lparr>cw_unblock := bs\<rparr>)"
        by (rule orders_block_less [OF step.IH]) (simp_all add: queue_of_def is_serial_def)
      moreover have "serve_next_continuous_request has_target (bl_label b) (w\<lparr>cw_unblock := bs\<rparr>) = Inr w'"
        using unblock Cons by (simp add: process_continuous_unblock_def)
      ultimately show ?thesis using orders_block_grows serve_next_grows by blast
    qed (use unblock step.IH in \<open>simp add: process_continuous_unblock_def\<close>)
  next
    case (clean c)
    show ?thesis unfolding clean
      by (rule orders_block_less [OF step.IH _ cleanup_serial])
         (auto simp: queue_of_def cleanup_continuous_def split: option.splits)
  next
    case remove
    then show ?thesis by (simp add: orders_block_def is_serial_def)
  qed
qed

lemma size_order_blockers: "\<forall>order \<in> set queue. cor_unblock order \<noteq> None \<Longrightarrow> size (order_blockers queue) = length queue"
  by (induction queue) auto

text \<open>So a serial service has at most one active order, and while it has one, no unblock is pending.\<close>

lemma serial_single_order:
  assumes "continuous_reachable w" and "cw_stop_failures w = []" and "cw_delivery w = Some (Serial s)"
    and "order \<in> set (queue_of w)"
  shows "queue_of w = [order] \<and> cw_unblock w = [] \<and> sd_delivering s \<noteq> None"
proof -
  have bal: "balanced (Serial s) (continuous_slots (Serial s) w)"
    using continuous_reachable_exclusive [OF assms(1,2)] assms(3) by (simp add: continuous_exclusive_def)
  have slots: "continuous_slots (Serial s) w = replicate_mset (size (order_blockers (queue_of w)) + length (cw_unblock w)) None"
    by (simp add: continuous_slots_def image_mset_const_eq)
  have "size (order_blockers (queue_of w)) = length (queue_of w)"
    using reachable_orders_block [OF assms(1)] assms(3)
    by (intro size_order_blockers) (auto simp: orders_block_def is_serial_def)
  then have count: "count (continuous_slots (Serial s) w) None = length (queue_of w) + length (cw_unblock w)"
    by (simp add: slots)
  have queue: "length (queue_of w) + length (cw_unblock w) \<le> 1" using bal count by (metis balanced_def)
  moreover have "queue_of w \<noteq> []" using assms(4) by auto
  ultimately have "length (queue_of w) = 1" "cw_unblock w = []" by (cases "queue_of w"; simp)+
  then have "queue_of w = [order]" "None \<in># continuous_slots (Serial s) w"
    using assms(4) count by (auto simp: length_Suc_conv simp flip: count_greater_zero_iff)
  then show ?thesis using bal \<open>cw_unblock w = []\<close> by (auto simp: balanced_def busy_def)
qed

text \<open>A serial service that counts as busy while no order is active and no unblock is pending, and whose
  delivering order cannot be preempted.\<close>

definition unpreemptable :: "'l active_delivery \<Rightarrow> bool" where
  "unpreemptable a \<longleftrightarrow> (case ad_instructions a of None \<Rightarrow> True | Some i \<Rightarrow> di_ensure i)"

definition blocked_service :: "(request_id \<times> 'a) list \<Rightarrow> ('r, 'a, 'l) continuous_world \<Rightarrow> bool" where
  "blocked_service given w \<longleftrightarrow>
     (\<exists>s a. cw_delivery w = Some (Serial s) \<and> sd_delivering s = Some a \<and> unpreemptable a)
     \<and> cw_queue w = Some [] \<and> cw_unblock w = [] \<and> cw_responses w = given"

lemma respond_empty [simp]: "fold (respond []) replies ds = ds"
  by (induction replies arbitrary: ds) (auto simp: respond_def queue_get_def)

lemma not_discarded: "unpreemptable a \<Longrightarrow> \<not> discards incoming (ad_instructions a)"
  by (auto simp: unpreemptable_def discards_def should_discard_def split: option.splits)

lemma blocked_service_serve:
  assumes "blocked_service given w" and "serve_continuous has_target req request instructions w = Inr w'"
  shows "blocked_service given w'"
  using assms
  by (auto simp: blocked_service_def serve_continuous_def insert_new_order_def insert_serial_order_def not_discarded
      Let_def split: option.splits)

text \<open>A command that is still pending finds no order to remove and panics.\<close>

lemma blocked_service_apply:
  assumes "blocked_service given w" and "apply_continuous_command env w = Inr w'"
  shows "blocked_service given w'"
proof (cases "cw_commands w")
  case (Cons ds commands)
  have "ds = []"
  proof (rule ccontr)
    assume "ds \<noteq> []"
    then have "length (rev (sort (map dr_index ds))) \<noteq> 0" by simp
    then obtain i indices where "rev (sort (map dr_index ds)) = i # indices"
      by (cases "rev (sort (map dr_index ds))") simp_all
    moreover have "cw_queue (fold (give_response env) ds (w\<lparr>cw_commands := commands\<rparr>)) = Some []"
      using assms(1) by (simp add: blocked_service_def)
    ultimately show False
      using assms(2) Cons by (simp add: apply_continuous_command_def deliver_responses_def try_retire_request_def)
  qed
  then show ?thesis using assms Cons
    by (auto simp: apply_continuous_command_def deliver_responses_def blocked_service_def)
qed (use assms in \<open>simp add: apply_continuous_command_def\<close>)

lemma blocked_service_stays:
  assumes "continuous_step w w'" and "blocked_service given w" and "cw_delivery w' \<noteq> None"
  shows "blocked_service given w'"
  using assms(1)
proof cases
  case (serve has_target req request instructions)
  from blocked_service_serve [OF assms(2) this] show ?thesis .
next
  case (run replies)
  then show ?thesis using assms(2) by (auto simp: run_continuous_def blocked_service_def)
next
  case (deliver env)
  from blocked_service_apply [OF assms(2) this] show ?thesis .
next
  case (unblock has_target)
  then show ?thesis using assms(2) by (auto simp: process_continuous_unblock_def blocked_service_def)
next
  case (clean c)
  then show ?thesis using assms(2) by (auto simp: blocked_service_def cleanup_continuous_def serial_cleanup_def)
next
  case remove
  then show ?thesis using assms(3) by simp
qed

text \<open>C37: a serial continuous service is blocked for good when a session is cleaned while its order is active
  and cannot be preempted (it has no instructions or is ensured). The cleanup drops the order with its
  blocker, so nothing ever frees the slot: in whatever way the service goes on without a panic, as long
  as it exists no request is served and none is answered. The service may be in any reachable state
  without a failed stop, with any orders waiting.\<close>

theorem cleaned_session_blocks_service:
  assumes "continuous_reachable w" and "cw_stop_failures w = []" and "cw_delivery w = Some (Serial s)"
    and "order \<in> set (queue_of w)" and "cu_session c = rq_session (cor_request_id order)"
    and "unpreemptable (the (sd_delivering s))"
    and "(\<lambda>u v. continuous_step u v \<and> cw_delivery v \<noteq> None)\<^sup>*\<^sup>* (cleanup_continuous c w) w'"
  shows "cw_queue w' = Some [] \<and> cw_unblock w' = [] \<and> cw_responses w' = cw_responses w
    \<and> (\<exists>d. cw_delivery w' = Some d \<and> busy d None)"
proof -
  from serial_single_order [OF assms(1-4)] obtain a where
    single: "queue_of w = [order]" "cw_unblock w = []" "sd_delivering s = Some a"
    by auto
  then have "cw_queue w = Some [order]" by (auto simp: queue_of_def split: option.splits)
  then have "blocked_service (cw_responses w) (cleanup_continuous c w)"
    using assms(3,5,6) single by (auto simp: blocked_service_def cleanup_continuous_def serial_cleanup_def)
  with assms(7) have "blocked_service (cw_responses w) w'"
    by (induction rule: rtranclp_induct) (auto intro: blocked_service_stays)
  then show ?thesis by (auto simp: blocked_service_def busy_def)
qed

text \<open>A service with an order of session 7 and one of session 8 that waits.\<close>

definition serial_pair :: "(nat, nat, nat) continuous_world" where
  "serial_pair = projr (serve_all (Serial serial_default) [(7, 1, None), (8, 2, None)])"

lemma serial_pair_served: "serve_all (Serial serial_default) [(7, 1::nat, None), (8, 2, None)] = Inr serial_pair"
proof -
  have "\<not> isl (serve_all (Serial serial_default) [(7, 1::nat, None :: nat delivery_instructions option), (8, 2, None)])"
    by code_simp
  then show ?thesis unfolding serial_pair_def by (rule sum.collapse(2) [symmetric])
qed

lemma serial_pair_state:
  "\<exists>s order. cw_delivery serial_pair = Some (Serial s) \<and> map do_request (sd_queue s) = [2]
     \<and> unpreemptable (the (sd_delivering s)) \<and> queue_of serial_pair = [order] \<and> rq_session (cor_request_id order) = 7
     \<and> cw_stop_failures serial_pair = []"
proof -
  have "cw_stop_failures serial_pair = []" "map (rq_session \<circ> cor_request_id) (queue_of serial_pair) = [7]"
    "case cw_delivery serial_pair of Some (Serial s) \<Rightarrow> map do_request (sd_queue s) = [2] \<and> unpreemptable (the (sd_delivering s))
       | _ \<Rightarrow> False" by code_simp+
  then show ?thesis by (auto split: option.splits delivery.splits)
qed

lemma cleaned_session_blocks_service_witness:
  "\<exists>c :: cleanup. cu_session c = 7 \<and> queue_of serial_pair \<noteq> []
     \<and> queue_of (run_continuous [(0, 5)] (cleanup_continuous c serial_pair)) = []
     \<and> cw_responses (run_continuous [(0, 5)] (cleanup_continuous c serial_pair)) = cw_responses serial_pair"
proof -
  let ?c = "\<lparr>cu_cleaner = 60, cu_node = 50, cu_session = 7, cu_id = continuous_request 3\<rparr>"
  let ?w = "run_continuous [(0, 5)] (cleanup_continuous ?c serial_pair)"
  obtain s order where pair: "cw_delivery serial_pair = Some (Serial s)" "unpreemptable (the (sd_delivering s))"
    "queue_of serial_pair = [order]" "rq_session (cor_request_id order) = 7" "cw_stop_failures serial_pair = []"
    using serial_pair_state by blast
  have reachable: "continuous_reachable serial_pair" by (rule serve_all_reachable [OF serial_pair_served]) simp
  have "(\<lambda>u v. continuous_step u v \<and> cw_delivery v \<noteq> None)\<^sup>*\<^sup>* (cleanup_continuous ?c serial_pair) ?w"
    using pair(1) continuous_step.run [of "cleanup_continuous ?c serial_pair" "[(0, 5)]"]
    by (intro r_into_rtranclp) (simp add: cleanup_continuous_def)
  moreover have "order \<in> set (queue_of serial_pair)" "cu_session ?c = rq_session (cor_request_id order)"
    using pair(3,4) by simp_all
  ultimately have "cw_queue ?w = Some [] \<and> cw_unblock ?w = [] \<and> cw_responses ?w = cw_responses serial_pair
      \<and> (\<exists>d. cw_delivery ?w = Some d \<and> busy d None)"
    by (intro cleaned_session_blocks_service [OF reachable pair(5,1) _ _ pair(2)])
  then have "queue_of ?w = []" "cw_responses ?w = cw_responses serial_pair" by (simp_all add: queue_of_def)
  then show ?thesis using pair(3) by (intro exI [of _ ?c]) simp
qed

end
