(* ===== verification/Scope.thy ===== *)
theory Scope
  imports CleanupTracking Delivery
begin

text \<open>
  One scope operation and its scoped sessions, \<open>src/src/operation/scope.rs\<close>: beginning a session,
  termination, cancellation, early cleanup by the parent, the cleanup of all nodes, cleanup workflows
  and the finalisation of a session, with the parts of \<open>src/src/session.rs\<close> that spawn and despawn
  sessions and \<open>begin_workflow\<close> of \<open>src/src/service/workflow.rs\<close>.

  \<^item> \<open>scope_structure\<close> is what the builder fixes: the endpoints, the nodes, the settings and the
    cleanup workflows. \<open>scope_world\<close> holds the components that change. Messages and sessions are
    those of \<open>Inputs\<close>.
  \<^item> How a node cleans itself is its own business; here it notifies the cleaner at once
    (\<open>sc_prompt\<close>) or its \<open>Cleanup\<close> stays in \<open>sw_cleaning\<close> until a later step.
  \<^item> The answer of the reachability check and the search for circular collects are parameters
    (\<open>scope_environment\<close>), as are the buffer keys that a cleanup workflow receives.
  \<^item> Disposals are recorded in \<open>sw_disposals\<close>, released blockers in \<open>sw_released\<close>, and \<open>sw_outcomes\<close>
    records for each scoped session what its end told the requester. Streams, tracing, the clearing
    of buffers, and the reports of broken operations are left out.
\<close>

subsection \<open>Sessions of a scope\<close>

datatype scoped_session_status = Ongoing | Terminated | DeferredCleanup | CleanedUp | Cancelled

definition to_cleanup :: "bool \<Rightarrow> scoped_session_status \<Rightarrow> scoped_session_status \<times> bool" where
  "to_cleanup uninterruptible self =
     (if self = CleanedUp then (self, False)
      else if uninterruptible then (DeferredCleanup, False)
      else (CleanedUp, True))"

definition to_finished :: "scoped_session_status \<Rightarrow> scoped_session_status \<times> bool" where
  "to_finished self =
     (if self = Ongoing then (Terminated, True)
      else if self = DeferredCleanup then (CleanedUp, True)
      else (self, False))"

definition to_cancelled :: "scoped_session_status \<Rightarrow> scoped_session_status \<times> bool" where
  "to_cancelled self =
     (if self \<in> {Ongoing, DeferredCleanup} then (Cancelled, True) else (self, False))"

record scoped_session =
  ss_parent :: entity
  ss_scoped :: entity
  ss_status :: scoped_session_status
  ss_request_id :: request_id

definition session_ongoing :: "entity \<Rightarrow> entity \<Rightarrow> request_id \<Rightarrow> scoped_session" where
  "session_ongoing parent scoped req =
     \<lparr>ss_parent = parent, ss_scoped = scoped, ss_status = Ongoing, ss_request_id = req\<rparr>"

text \<open>
  The loops over the stored sessions that change a status and collect those for which it changed.
\<close>

definition change_sessions ::
  "(scoped_session \<Rightarrow> bool) \<Rightarrow> (scoped_session_status \<Rightarrow> scoped_session_status \<times> bool)
     \<Rightarrow> scoped_session list \<Rightarrow> scoped_session list \<times> scoped_session list" where
  "change_sessions P f ss =
     (map (\<lambda>p. if P p then p\<lparr>ss_status := fst (f (ss_status p))\<rparr> else p) ss,
      filter (\<lambda>p. P p \<and> snd (f (ss_status p))) ss)"

subsection \<open>Cancellations and outcomes\<close>

datatype 'c cancellation = Cancellation 'c "'c cancellation list"

fun push_while_cancelling :: "'c cancellation \<Rightarrow> 'c cancellation \<Rightarrow> 'c cancellation" where
  "push_while_cancelling inner (Cancellation cause while_cancelling) =
     Cancellation cause (while_cancelling @ [inner])"

datatype 'c finish_status =
    FinishTerminated
  | FinishEarlyCleanup
  | FinishCancelled "'c cancellation"

fun finish_is_terminated :: "'c finish_status \<Rightarrow> bool" where
  "finish_is_terminated FinishTerminated = True"
| "finish_is_terminated _ = False"

fun finish_is_early_cleanup :: "'c finish_status \<Rightarrow> bool" where
  "finish_is_early_cleanup FinishEarlyCleanup = True"
| "finish_is_early_cleanup _ = False"

record 'c awaiting_cleanup =
  aw_session :: entity
  aw_parent :: entity
  aw_cleanup :: cleanup
  aw_status :: "'c finish_status"
  aw_workflows :: "entity list option"
  aw_finished :: "request_id list"

record 'l exit_target =
  et_target :: entity
  et_request_id :: request_id
  et_parent :: entity
  et_blocker :: "'l blocker option"

datatype ('t, 'c) outcome = Delivered 't | Disposed "'c cancellation"

datatype 'c initial_reachability = Confirmed | Invalidated | InitialError "'c cancellation"

record 't cleanup_workflow =
  cw_source :: entity
  cw_target :: entity
  cw_on_terminate :: bool
  cw_on_cancelled :: bool
  cw_keys :: 't

record 't scope_structure =
  sc_scope :: entity
  sc_enter :: entity
  sc_terminate :: entity
  sc_cancel :: entity
  sc_finish :: entity
  sc_nodes :: "entity list"
  sc_uninterruptible :: bool
  sc_workflows :: "'t cleanup_workflow list"
  sc_prompt :: "entity \<Rightarrow> bool"

record ('t, 'c, 'l) scope_world =
  sw_messages :: "('t, 'c cancellation) message_world"
  sw_roster :: roster
  sw_cleaners :: cleaners
  sw_cleanup_finished :: "cleanup list"
  sw_parents :: "(entity, entity) hmap"
  sw_next_entity :: entity
  sw_sessions :: "scoped_session list"
  sw_exits :: "(entity, 'l exit_target) hmap option"
  sw_target :: "entity option"
  sw_staging :: "(entity, 't op_input) hmap"
  sw_awaiting :: "'c awaiting_cleanup list"
  sw_initial :: "'c initial_reachability option"
  sw_cleaning :: "cleanup list"
  sw_disposals :: "(request_id \<times> 'c cancellation) list"
  sw_released :: "'l blocker list"
  sw_outcomes :: "(entity \<times> ('t, 'c) outcome) list"

record ('t, 'c, 'l) scope_environment =
  en_reachable :: "entity \<Rightarrow> ('t, 'c, 'l) scope_world \<Rightarrow> bool"
  en_unreachable :: "entity \<Rightarrow> ('t, 'c, 'l) scope_world \<Rightarrow> 'c"
  en_circular :: "'c cancellation option"

type_synonym ('t, 'c, 'l, 'a) scope_operation =
  "('t, 'c, 'l) scope_world \<Rightarrow> ('t, 'c, 'l) scope_world \<times> (operation_error + 'a)"

subsection \<open>Messages and sessions\<close>

definition on_messages ::
  "(('t, 'c cancellation) message_world \<Rightarrow> ('t, 'c cancellation) message_world \<times> (operation_error + 'a))
     \<Rightarrow> ('t, 'c, 'l, 'a) scope_operation" where
  "on_messages f w = (let (mw, r) = f (sw_messages w) in (w\<lparr>sw_messages := mw\<rparr>, r))"

definition scope_give ::
  "entity \<Rightarrow> entity \<Rightarrow> 't \<Rightarrow> ('t, 'c, 'l, unit) scope_operation" where
  "scope_give session target data w =
     (let (mw, roster, r) = give_input \<lparr>rt_session = session, rt_target = target\<rparr> data
            (sw_messages w) (sw_roster w)
      in (w\<lparr>sw_messages := mw, sw_roster := roster\<rparr>, r))"

definition session_status_of :: "entity \<Rightarrow> ('t, 'c, 'l) scope_world \<Rightarrow> 'c cancellation session_status option" where
  "session_status_of session w = mw_status (sw_messages w) session"

definition set_session_status ::
  "entity \<Rightarrow> 'c cancellation session_status option \<Rightarrow> ('t, 'c, 'l) scope_world \<Rightarrow> ('t, 'c, 'l) scope_world" where
  "set_session_status session st w =
     w\<lparr>sw_messages := (sw_messages w)\<lparr>mw_status := (mw_status (sw_messages w))(session := st)\<rparr>\<rparr>"

text \<open>A scoped session is spawned as an active child of its parent.\<close>

definition spawn_session :: "entity \<Rightarrow> ('t, 'c, 'l) scope_world \<Rightarrow> ('t, 'c, 'l) scope_world \<times> entity" where
  "spawn_session parent w =
     (let session = sw_next_entity w
      in (set_session_status session (Some Active)
            (w\<lparr>sw_next_entity := Suc session, sw_parents := (session, parent) # sw_parents w\<rparr>), session))"

text \<open>
  \<open>is_descendent_session\<close> follows the parents of a session. Children are younger than their parents,
  so the entry of a parent comes later in the list.
\<close>

fun is_descendent_session :: "(entity, entity) hmap \<Rightarrow> entity \<Rightarrow> entity \<Rightarrow> bool" where
  "is_descendent_session [] parent session = (parent = session)"
| "is_descendent_session ((c, p) # parents) parent session =
     (parent = session
      \<or> (if c = session then is_descendent_session parents parent p
         else is_descendent_session parents parent session))"

text \<open>Despawning an entity of the ECS despawns its children as well.\<close>

definition despawn_session :: "entity \<Rightarrow> ('t, 'c, 'l) scope_world \<Rightarrow> ('t, 'c, 'l) scope_world" where
  "despawn_session session w =
     (if session_status_of session w = None then w
      else w\<lparr>sw_messages := (sw_messages w)\<lparr>mw_status := (\<lambda>s.
             if is_descendent_session (sw_parents w) session s then None
             else mw_status (sw_messages w) s)\<rparr>\<rparr>)"

subsection \<open>Cleaning up a session\<close>

definition scope_notify :: "cleanup \<Rightarrow> ('t, 'c, 'l, unit) scope_operation" where
  "scope_notify c w =
     (let ((cleaners, finished), r) = notify_cleaner c (sw_cleaners w, sw_cleanup_finished w)
      in (w\<lparr>sw_cleaners := cleaners, sw_cleanup_finished := finished\<rparr>, r))"

definition node_cleanup :: "'t scope_structure \<Rightarrow> entity \<Rightarrow> request_id \<Rightarrow> entity \<Rightarrow> cleanup" where
  "node_cleanup sc session cleanup_id node =
     \<lparr>cu_cleaner = sc_scope sc, cu_node = node, cu_session = session, cu_id = cleanup_id\<rparr>"

definition clean_node ::
  "'t scope_structure \<Rightarrow> entity \<Rightarrow> request_id \<Rightarrow> entity
     \<Rightarrow> ('t, 'c, 'l) scope_world \<Rightarrow> ('t, 'c, 'l) scope_world" where
  "clean_node sc session cleanup_id node w =
     (let c = node_cleanup sc session cleanup_id node
      in if sc_prompt sc node then attempt (scope_notify c) w
         else w\<lparr>sw_cleaning := sw_cleaning w @ [c]\<rparr>)"

definition clean_nodes ::
  "'t scope_structure \<Rightarrow> entity \<Rightarrow> request_id \<Rightarrow> ('t, 'c, 'l, unit) scope_operation" where
  "clean_nodes sc session cleanup_id w =
     (if sc_nodes sc = [] then
        (w\<lparr>sw_cleanup_finished := sw_cleanup_finished w @ [node_cleanup sc session cleanup_id (sc_scope sc)]\<rparr>,
         Inr ())
      else case hm_get (sw_cleaners w) (sc_scope sc) of
             None \<Rightarrow> (w, Inl Broken)
           | Some contents \<Rightarrow>
               let w = w\<lparr>sw_cleaners := hm_insert (sc_scope sc)
                          (add_cleanup cleanup_id (sc_nodes sc) contents) (sw_cleaners w)\<rparr>
               in (fold (clean_node sc session cleanup_id) (sc_nodes sc) w, Inr ()))"

definition cleanup_session ::
  "'t scope_structure \<Rightarrow> cleanup \<Rightarrow> 'c finish_status \<Rightarrow> entity \<Rightarrow> ('t, 'c, 'l, unit) scope_operation" where
  "cleanup_session sc cleanup status session =
     ebind (or_error Broken (session_status_of session)) (\<lambda>st.
       if is_cleaning st then modify id
       else
         ebind (or_error Broken (\<lambda>w. hm_get (sw_parents w) session)) (\<lambda>parent.
         ebind (modify (\<lambda>w. w\<lparr>sw_awaiting := sw_awaiting w @
                  [\<lparr>aw_session = session, aw_parent = parent, aw_cleanup = cleanup, aw_status = status,
                    aw_workflows = None, aw_finished = []\<rparr>]\<rparr>)) (\<lambda>_.
         ebind (clean_nodes sc session (cu_id cleanup)) (\<lambda>_.
         ebind (or_error Broken (session_status_of session)) (\<lambda>_.
           modify (set_session_status session (Some Cleaning)))))))"

definition cleanup_entire_scope ::
  "'t scope_structure \<Rightarrow> cleanup \<Rightarrow> 'c finish_status \<Rightarrow> entity list \<Rightarrow> ('t, 'c, 'l, unit) scope_operation" where
  "cleanup_entire_scope sc cleanup status = each (cleanup_session sc cleanup status)"

subsection \<open>Reasons to end a session\<close>

text \<open>\<open>Terminate::execute\<close>: the first output of a session is staged, and the session is cleaned up.\<close>

definition terminate_with :: "'t scope_structure \<Rightarrow> 't op_input \<Rightarrow> ('t, 'c, 'l, unit) scope_operation" where
  "terminate_with sc input w =
     (let session = in_session input
      in if hm_get (sw_staging w) session \<noteq> None then (w, Inr ())
         else
           let w = w\<lparr>sw_staging := hm_insert session input (sw_staging w)\<rparr>
           in case find (\<lambda>p. ss_scoped p = session) (sw_sessions w) of
                None \<Rightarrow> (w, Inl Broken)
              | Some pair \<Rightarrow>
                  let (st, changed) = to_finished (ss_status pair);
                      w = w\<lparr>sw_sessions := update_first (\<lambda>p. ss_scoped p = session)
                             (\<lambda>p. p\<lparr>ss_status := st\<rparr>) (sw_sessions w)\<rparr>
                  in if \<not> changed then (w, Inr ())
                     else cleanup_entire_scope sc
                            \<lparr>cu_cleaner = sc_scope sc, cu_node = sc_scope sc, cu_session = session,
                             cu_id = \<lparr>rq_session = session, rq_source = sc_terminate sc, rq_seq = in_seq input\<rparr>\<rparr>
                            FinishTerminated [session] w)"

definition terminate_execute :: "'t scope_structure \<Rightarrow> ('t, 'c, 'l, unit) scope_operation" where
  "terminate_execute sc =
     ebind (on_messages (take_input (sc_terminate sc))) (terminate_with sc)"

text \<open>\<open>dyn_early_cleanup\<close>: the parent scope cleans the sessions of one of its own sessions.\<close>

definition early_cleanup :: "'t scope_structure \<Rightarrow> cleanup \<Rightarrow> ('t, 'c, 'l, unit) scope_operation" where
  "early_cleanup sc cleanup w =
     (let w = w\<lparr>sw_messages := cleanup_inputs (sc_scope sc) (cu_session cleanup) (sw_messages w)\<rparr>;
          (ss, relevant) = change_sessions (\<lambda>p. ss_parent p = cu_session cleanup)
             (to_cleanup (sc_uninterruptible sc)) (sw_sessions w);
          w = w\<lparr>sw_sessions := ss\<rparr>
      in if relevant = [] then scope_notify cleanup w
         else cleanup_entire_scope sc cleanup FinishEarlyCleanup (map ss_scoped relevant) w)"

definition cancel_one ::
  "'t scope_structure \<Rightarrow> entity \<Rightarrow> 'c cancellation \<Rightarrow> ('t, 'c, 'l, unit) scope_operation" where
  "cancel_one sc session cancellation w =
     (let (ss, relevant) = change_sessions (\<lambda>p. ss_scoped p = session \<or> ss_parent p = session)
             to_cancelled (sw_sessions w);
          w = w\<lparr>sw_sessions := ss\<rparr>
      in if relevant = [] then (w, Inr ())
         else cleanup_entire_scope sc
                \<lparr>cu_cleaner = sc_scope sc, cu_node = sc_scope sc, cu_session = session,
                 cu_id = ss_request_id (last relevant)\<rparr>
                (FinishCancelled cancellation) (map ss_scoped relevant) w)"

definition receive_cancel ::
  "'t scope_structure \<Rightarrow> entity option \<Rightarrow> 'c cancellation \<Rightarrow> ('t, 'c, 'l, unit) scope_operation" where
  "receive_cancel sc session cancellation w =
     (case session of
        Some s \<Rightarrow> cancel_one sc s cancellation w
      | None \<Rightarrow> (fold (\<lambda>s. attempt (cancel_one sc s cancellation)) (map ss_scoped (sw_sessions w)) w, Inr ()))"

definition validate_scope_reachability ::
  "'t scope_structure \<Rightarrow> ('t, 'c, 'l) scope_environment \<Rightarrow> entity \<Rightarrow> ('t, 'c, 'l, bool) scope_operation" where
  "validate_scope_reachability sc env session w =
     (case session_status_of session w of
        None \<Rightarrow> (w, Inr False)
      | Some st \<Rightarrow>
          if \<not> is_active st then (w, Inr False)
          else if en_reachable env session w then (w, Inr True)
          else case find (\<lambda>p. ss_scoped p = session) (sw_sessions w) of
                 None \<Rightarrow> (w, Inl NotReady)
               | Some pair \<Rightarrow>
                   let cancellation = Cancellation (en_unreachable env session w) [];
                       (st, changed) = to_cancelled (ss_status pair);
                       w = w\<lparr>sw_sessions := update_first (\<lambda>p. ss_scoped p = session)
                              (\<lambda>p. p\<lparr>ss_status := st\<rparr>) (sw_sessions w)\<rparr>
                   in if changed
                      then ebind (cleanup_entire_scope sc
                             \<lparr>cu_cleaner = sc_scope sc, cu_node = sc_scope sc, cu_session = session,
                              cu_id = ss_request_id pair\<rparr>
                             (FinishCancelled cancellation) [session]) (\<lambda>_ w. (w, Inr False)) w
                      else (w, Inr False))"

subsection \<open>Beginning a session\<close>

definition begin_scope_impl ::
  "'t scope_structure \<Rightarrow> 't op_input \<Rightarrow> entity \<Rightarrow> ('t, 'c, 'l, unit) scope_operation" where
  "begin_scope_impl sc input session =
     ebind (modify (\<lambda>w. w\<lparr>sw_sessions := sw_sessions w @ [session_ongoing (in_session input) session
         \<lparr>rq_session = in_session input, rq_source = sc_scope sc, rq_seq = in_seq input\<rparr>]\<rparr>)) (\<lambda>_.
       scope_give session (sc_enter sc) (in_data input))"

definition check_begun_scope ::
  "'t scope_structure \<Rightarrow> ('t, 'c, 'l) scope_environment \<Rightarrow> entity \<Rightarrow> ('t, 'c, 'l, unit) scope_operation" where
  "check_begun_scope sc env session w =
     (case sw_initial w of
        Some (InitialError cancellation) \<Rightarrow> cancel_one sc session cancellation w
      | Some Invalidated \<Rightarrow> ebind (validate_scope_reachability sc env session) (\<lambda>_. modify id) w
      | Some Confirmed \<Rightarrow> (w, Inr ())
      | None \<Rightarrow>
          (case en_circular env of
             Some cancellation \<Rightarrow>
               cancel_one sc session cancellation (w\<lparr>sw_initial := Some (InitialError cancellation)\<rparr>)
           | None \<Rightarrow>
               ebind (validate_scope_reachability sc env session) (\<lambda>is_reachable.
                 modify (\<lambda>w. w\<lparr>sw_initial := Some (if is_reachable then Confirmed else Invalidated)\<rparr>)) w))"

definition begin_scope ::
  "'t scope_structure \<Rightarrow> ('t, 'c, 'l) scope_environment \<Rightarrow> 't op_input \<Rightarrow> entity
     \<Rightarrow> ('t, 'c, 'l, unit) scope_operation" where
  "begin_scope sc env input session w =
     (case begin_scope_impl sc input session w of
        (w, Inl e) \<Rightarrow> (despawn_session session w, Inl e)
      | (w, Inr _) \<Rightarrow> check_begun_scope sc env session w)"

definition begin_new_session ::
  "'t scope_structure \<Rightarrow> ('t, 'c, 'l) scope_environment \<Rightarrow> 't op_input \<Rightarrow> ('t, 'c, 'l, unit) scope_operation" where
  "begin_new_session sc env input w =
     (let (w, session) = spawn_session (in_session input) w
      in begin_scope sc env input session w)"

definition dyn_begin_scope ::
  "'t scope_structure \<Rightarrow> ('t, 'c, 'l) scope_environment \<Rightarrow> ('t, 'c, 'l, unit) scope_operation" where
  "dyn_begin_scope sc env =
     ebind (on_messages (take_input (sc_scope sc))) (begin_new_session sc env)"

definition begin_workflow ::
  "'t scope_structure \<Rightarrow> ('t, 'c, 'l) scope_environment \<Rightarrow> 't op_input \<Rightarrow> entity \<Rightarrow> entity \<Rightarrow> entity
     \<Rightarrow> 'l blocker option \<Rightarrow> ('t, 'c, 'l, unit) scope_operation" where
  "begin_workflow sc env input source target session blocker w =
     (case sw_exits w of
        None \<Rightarrow> (w, Inl Broken)
      | Some exits \<Rightarrow>
          begin_scope sc env input session
            (w\<lparr>sw_exits := Some (hm_insert session
               \<lparr>et_target = target,
                et_request_id = \<lparr>rq_session = in_session input, rq_source = source, rq_seq = in_seq input\<rparr>,
                et_parent = in_session input, et_blocker = blocker\<rparr> exits)\<rparr>))"

subsection \<open>The end of a session\<close>

definition take_exit ::
  "entity \<Rightarrow> ('t, 'c, 'l, entity \<times> 'l blocker option) scope_operation" where
  "take_exit session w =
     (let stored = (case sw_exits w of None \<Rightarrow> None | Some exits \<Rightarrow> hm_get exits session);
          w' = w\<lparr>sw_exits := map_option (AList.delete session) (sw_exits w)\<rparr>
      in case stored of
           Some exit \<Rightarrow> (w', Inr (et_target exit, et_blocker exit))
         | None \<Rightarrow> (w', ok_or (map_option (\<lambda>t. (t, None)) (sw_target w)) Broken))"

definition report_cancelled ::
  "entity \<Rightarrow> request_id \<Rightarrow> 'c cancellation \<Rightarrow> ('t, 'c, 'l) scope_world \<Rightarrow> ('t, 'c, 'l) scope_world" where
  "report_cancelled session req c w =
     w\<lparr>sw_disposals := sw_disposals w @ [(req, c)],
       sw_outcomes := sw_outcomes w @ [(session, Disposed c)]\<rparr>"

definition remove_awaiting ::
  "nat \<Rightarrow> 'c awaiting_cleanup \<Rightarrow> request_id \<Rightarrow> ('t, 'c, 'l, unit) scope_operation" where
  "remove_awaiting index a req w =
     (if finish_is_early_cleanup (aw_status a) then (w, Inr ())
      else
        let w = w\<lparr>sw_awaiting := take index (sw_awaiting w) @ drop (Suc index) (sw_awaiting w)\<rparr>
        in case aw_status a of
             FinishCancelled c \<Rightarrow> (report_cancelled (aw_session a) req c w, Inr ())
           | _ \<Rightarrow> (w, Inr ()))"

text \<open>
  The parent is told that it is clean once no cleanup workflow of the same cleanup is pending and no
  other session runs for it.
\<close>

definition parent_is_clean :: "'c awaiting_cleanup \<Rightarrow> ('t, 'c, 'l) scope_world \<Rightarrow> bool" where
  "parent_is_clean a w =
     (let same = filter (\<lambda>b. cu_id (aw_cleanup b) = cu_id (aw_cleanup a)) (sw_awaiting w);
          early_cleanup = list_ex (\<lambda>b. finish_is_early_cleanup (aw_status b)) same;
          cleaning_finished = list_all (\<lambda>b. aw_workflows b = Some []) same
      in early_cleanup \<and> cleaning_finished
         \<and> \<not> list_ex (\<lambda>p. ss_parent p = aw_parent a \<and> ss_scoped p \<noteq> aw_session a) (sw_sessions w))"

definition notify_parent :: "'c awaiting_cleanup \<Rightarrow> ('t, 'c, 'l, unit) scope_operation" where
  "notify_parent a w =
     (if parent_is_clean a w then
        scope_notify (aw_cleanup a)
          (w\<lparr>sw_awaiting := filter (\<lambda>b. aw_parent b \<noteq> aw_parent a) (sw_awaiting w)\<rparr>)
      else (w, Inr ()))"

definition deliver_result :: "'c awaiting_cleanup \<Rightarrow> entity \<Rightarrow> ('t, 'c, 'l, unit) scope_operation" where
  "deliver_result a target w =
     (if \<not> finish_is_terminated (aw_status a) then (w, Inr ())
      else case hm_get (sw_staging w) (aw_session a) of
             None \<Rightarrow> (w, Inl Broken)
           | Some input \<Rightarrow>
               ebind (scope_give (aw_parent a) target (in_data input))
                 (\<lambda>_. modify (\<lambda>w. w\<lparr>sw_outcomes := sw_outcomes w @ [(aw_session a, Delivered (in_data input))]\<rparr>))
                 (w\<lparr>sw_staging := AList.delete (aw_session a) (sw_staging w)\<rparr>))"

definition forget_session ::
  "'t scope_structure \<Rightarrow> entity \<Rightarrow> 'l blocker option \<Rightarrow> ('t, 'c, 'l) scope_world \<Rightarrow> ('t, 'c, 'l) scope_world" where
  "forget_session sc session blocker w =
     despawn_session session
       (w\<lparr>sw_sessions := filter (\<lambda>p. ss_scoped p \<noteq> session) (sw_sessions w),
          sw_messages := cleanup_inputs (sc_terminate sc) session (sw_messages w),
          sw_staging := AList.delete session (sw_staging w),
          sw_released := sw_released w @ (case blocker of Some b \<Rightarrow> [b] | None \<Rightarrow> [])\<rparr>)"

text \<open>What happens to a finished session, from the removal of its entry on.\<close>

definition end_session ::
  "'t scope_structure \<Rightarrow> nat \<Rightarrow> 'c awaiting_cleanup \<Rightarrow> request_id \<Rightarrow> entity \<Rightarrow> 'l blocker option
     \<Rightarrow> ('t, 'c, 'l, unit) scope_operation" where
  "end_session sc index a req target blocker =
     ebind (remove_awaiting index a req) (\<lambda>_.
     ebind (notify_parent a) (\<lambda>_.
     ebind (deliver_result a target) (\<lambda>_.
       modify (forget_session sc (aw_session a) blocker))))"

definition finalize_scoped_session ::
  "'t scope_structure \<Rightarrow> nat \<Rightarrow> ('t, 'c, 'l, unit) scope_operation" where
  "finalize_scoped_session sc index =
     ebind (or_error Broken (\<lambda>w. if index < length (sw_awaiting w) then Some (sw_awaiting w ! index) else None)) (\<lambda>a.
     ebind (take_exit (aw_session a)) (\<lambda>(target, blocker).
     ebind (or_error Broken (\<lambda>w. find (\<lambda>p. ss_scoped p = aw_session a) (sw_sessions w))) (\<lambda>pair.
     end_session sc index a (case blocker of Some b \<Rightarrow> bl_request_id b | None \<Rightarrow> ss_request_id pair)
       target blocker)))"

subsection \<open>Cleanup workflows\<close>

definition check_awaiting_session ::
  "'t scope_structure \<Rightarrow> entity \<Rightarrow> ('t, 'c, 'l, unit) scope_operation" where
  "check_awaiting_session sc session w =
     (let index = length (takeWhile (\<lambda>a. aw_session a \<noteq> session) (sw_awaiting w))
      in if index < length (sw_awaiting w) \<and> aw_workflows (sw_awaiting w ! index) = Some []
         then finalize_scoped_session sc index w
         else (w, Inr ()))"

text \<open>\<open>BeginCleanupWorkflow::execute\<close>, run at once for a cleaned session.\<close>

definition start_cleanup_workflow ::
  "'t cleanup_workflow \<Rightarrow> entity \<Rightarrow> ('t, 'c, 'l, unit) scope_operation" where
  "start_cleanup_workflow flow session w =
     (let (w, cleanup_session) = spawn_session session w
      in ebind (scope_give cleanup_session (cw_target flow) (cw_keys flow)) (\<lambda>_.
           modify (\<lambda>w. w\<lparr>sw_awaiting := update_first (\<lambda>a. aw_session a = session)
              (\<lambda>a. a\<lparr>aw_workflows := map_option (\<lambda>ss. ss @ [cleanup_session]) (aw_workflows a)\<rparr>)
              (sw_awaiting w)\<rparr>)) w)"

definition begin_cleanup_workflows ::
  "'t scope_structure \<Rightarrow> cleanup \<Rightarrow> ('t, 'c, 'l, unit) scope_operation" where
  "begin_cleanup_workflows sc cleanup w =
     (let session = cu_session cleanup
      in case find (\<lambda>a. aw_session a = session) (sw_awaiting w) of
           None \<Rightarrow> (w, Inl Broken)
         | Some awaiting \<Rightarrow>
             let w = w\<lparr>sw_awaiting := update_first (\<lambda>a. aw_session a = session)
                   (\<lambda>a. a\<lparr>aw_workflows := Some []\<rparr>) (sw_awaiting w)\<rparr>;
                 is_terminated = finish_is_terminated (aw_status awaiting);
                 run = filter (\<lambda>flow. (is_terminated \<and> cw_on_terminate flow)
                    \<or> (\<not> is_terminated \<and> cw_on_cancelled flow)) (sc_workflows sc);
                 w = fold (\<lambda>flow. attempt (start_cleanup_workflow flow session)) run w
             in check_awaiting_session sc session w)"

text \<open>\<open>Cleanup::trigger\<close>, with the errors of its callback only logged.\<close>

definition trigger_cleanup ::
  "'t scope_structure \<Rightarrow> cleanup \<Rightarrow> ('t, 'c, 'l) scope_world \<Rightarrow> ('t, 'c, 'l) scope_world" where
  "trigger_cleanup sc c w =
     (let w = w\<lparr>sw_cleaners := forget_cleanup c (sw_cleaners w)\<rparr>
      in if cu_cleaner c = sc_scope sc then attempt (begin_cleanup_workflows sc c) w else w)"

definition deduct_finished_cleanup ::
  "'t scope_structure \<Rightarrow> request_id option \<Rightarrow> entity \<Rightarrow> 'c cancellation option
     \<Rightarrow> ('t, 'c, 'l, unit) scope_operation" where
  "deduct_finished_cleanup sc req session inner w =
     (let w = despawn_session session w;
          mine = (\<lambda>a. case aw_workflows a of None \<Rightarrow> False | Some ss \<Rightarrow> session \<in> set ss);
          index = length (takeWhile (\<lambda>a. \<not> mine a) (sw_awaiting w))
      in if index \<ge> length (sw_awaiting w) then (w, Inl NotReady)
         else
           let update = (\<lambda>a. a\<lparr>aw_finished := aw_finished a @ (case req of Some r \<Rightarrow> [r] | None \<Rightarrow> []),
                  aw_workflows := map_option (filter (\<lambda>s. s \<noteq> session)) (aw_workflows a),
                  aw_status := (case (inner, aw_status a) of
                      (Some c, FinishCancelled c') \<Rightarrow> FinishCancelled (push_while_cancelling c c')
                    | (_, st) \<Rightarrow> st)\<rparr>);
               w = w\<lparr>sw_awaiting := (sw_awaiting w)[index := update (sw_awaiting w ! index)]\<rparr>
           in if aw_workflows (sw_awaiting w ! index) = Some []
              then finalize_scoped_session sc index w
              else (w, Inr ()))"

definition finish_cleanup_execute :: "'t scope_structure \<Rightarrow> ('t, 'c, 'l, unit) scope_operation" where
  "finish_cleanup_execute sc =
     ebind (on_messages (take_input (sc_finish sc))) (\<lambda>input.
       deduct_finished_cleanup sc
         (Some \<lparr>rq_session = in_session input, rq_source = sc_finish sc, rq_seq = in_seq input\<rparr>)
         (in_session input) None)"

definition receive_cleanup_workflow_cancellation ::
  "'t scope_structure \<Rightarrow> entity option \<Rightarrow> 'c cancellation \<Rightarrow> ('t, 'c, 'l, unit) scope_operation" where
  "receive_cleanup_workflow_cancellation sc session cancellation w =
     (case session of
        Some s \<Rightarrow> deduct_finished_cleanup sc None s (Some cancellation) w
      | None \<Rightarrow>
          let sessions = concat (List.map_filter aw_workflows (sw_awaiting w))
          in (fold (\<lambda>s. attempt (deduct_finished_cleanup sc None s (Some cancellation))) sessions w, Inr ()))"

subsection \<open>Runs\<close>

text \<open>
  A step of the scope. Messages may be given to any operation; the scope, its terminal node and its
  \<open>finish_scope_cleanup\<close> node execute; workflows begin; sessions are cancelled, cleaned by the parent
  or checked for reachability; nodes finish their cleanup; the flush triggers finished cleanups;
  cleanup workflows are cancelled; other sessions are despawned.
\<close>

inductive scope_step ::
  "'t scope_structure \<Rightarrow> ('t, 'c, 'l) scope_world \<Rightarrow> ('t, 'c, 'l) scope_world \<Rightarrow> bool" for sc where
  message: "scope_step sc w (fst (scope_give session target data w))"
| enter: "scope_step sc w (fst (dyn_begin_scope sc env w))"
| workflow: "spawn_session (in_session input) w = (w', session) \<Longrightarrow>
     scope_step sc w (fst (begin_workflow sc env input source target session blocker w'))"
| terminate: "scope_step sc w (fst (terminate_execute sc w))"
| cancel: "scope_step sc w (fst (receive_cancel sc session c w))"
| validate: "scope_step sc w (fst (validate_scope_reachability sc env session w))"
| clean: "cu_cleaner c \<noteq> sc_scope sc \<Longrightarrow> scope_step sc w (fst (early_cleanup sc c w))"
| node_cleaned: "c \<in> set (sw_cleaning w) \<Longrightarrow>
     scope_step sc w (fst (scope_notify c (w\<lparr>sw_cleaning := remove1 c (sw_cleaning w)\<rparr>)))"
| trigger: "sw_cleanup_finished w = cs @ [c] \<Longrightarrow>
     scope_step sc w (trigger_cleanup sc c (w\<lparr>sw_cleanup_finished := cs\<rparr>))"
| finish_cleanup: "scope_step sc w (fst (finish_cleanup_execute sc w))"
| cancel_cleanup: "scope_step sc w (fst (receive_cleanup_workflow_cancellation sc session c w))"
| despawn: "scope_step sc w (despawn_session session w)"

definition scope_init ::
  "'t scope_structure \<Rightarrow> (entity, 'l exit_target) hmap option \<Rightarrow> entity option
     \<Rightarrow> ('t, 'c cancellation) message_world \<Rightarrow> cleaners \<Rightarrow> entity \<Rightarrow> (entity, entity) hmap
     \<Rightarrow> ('t, 'c, 'l) scope_world" where
  "scope_init sc exits target messages cleaners n parents =
     \<lparr>sw_messages = messages, sw_roster = empty_roster,
      sw_cleaners = hm_insert (sc_scope sc) [] cleaners, sw_cleanup_finished = [],
      sw_parents = parents, sw_next_entity = n, sw_sessions = [], sw_exits = exits, sw_target = target,
      sw_staging = [], sw_awaiting = [], sw_initial = None, sw_cleaning = [], sw_disposals = [],
      sw_released = [], sw_outcomes = []\<rparr>"

inductive scope_reachable ::
  "'t scope_structure \<Rightarrow> ('t, 'c, 'l) scope_world \<Rightarrow> bool" for sc where
  init: "(\<And>s. mw_status messages s \<noteq> None \<Longrightarrow> s < n) \<Longrightarrow>
     scope_reachable sc (scope_init sc exits target messages cleaners n parents)"
| step: "scope_reachable sc w \<Longrightarrow> scope_step sc w w' \<Longrightarrow> scope_reachable sc w'"

end
