(* ===== verification/Lifecycle.thy ===== *)
theory Lifecycle
  imports Scope "HOL-Library.Sublist"
begin

text \<open>
  The abstract specification of a scope: the life of its sessions. A session is open until it begins
  to close for one reason; closing ends with at most one outcome, and the result it delivers is the
  output that was staged first. The locale \<open>simulation\<close> transfers what holds of all runs of an
  abstract machine to a machine that simulates it; the scope is its instance.
\<close>

subsection \<open>Simulation\<close>

locale simulation =
  fixes concrete_step :: "'w \<Rightarrow> 'w \<Rightarrow> bool"
    and concrete_inv :: "'w \<Rightarrow> bool"
    and abstract_step :: "'a \<Rightarrow> 'a \<Rightarrow> bool"
    and abstraction :: "'w \<Rightarrow> 'a"
  assumes simulates: "concrete_inv w \<Longrightarrow> concrete_step w w' \<Longrightarrow>
      concrete_inv w' \<and> abstract_step\<^sup>*\<^sup>* (abstraction w) (abstraction w')"
begin

lemma simulates_runs:
  assumes "concrete_step\<^sup>*\<^sup>* w w'" and "concrete_inv w"
  shows "concrete_inv w' \<and> abstract_step\<^sup>*\<^sup>* (abstraction w) (abstraction w')"
  using assms
proof (induction rule: rtranclp_induct)
  case (step u v)
  then show ?case using simulates [of u v] by (meson rtranclp_trans)
qed simp

lemma transfer:
  assumes "\<And>a a'. abstract_step a a' \<Longrightarrow> P a \<Longrightarrow> P a'"
    and "concrete_step\<^sup>*\<^sup>* w w'" and "concrete_inv w" and "P (abstraction w)"
  shows "P (abstraction w')"
proof -
  have "abstract_step\<^sup>*\<^sup>* a a' \<Longrightarrow> P a \<Longrightarrow> P a'" for a a'
    by (induction rule: rtranclp_induct) (use assms(1) in blast)+
  then show ?thesis using simulates_runs [OF assms(2,3)] assms(4) by blast
qed

end

subsection \<open>The life of a session\<close>

datatype closing_reason = Finishing | Cleaning_early | Cancelling

record ('t, 'c) lifecycle =
  lc_next :: entity
  lc_open :: "entity \<Rightarrow> bool"
  lc_closing :: "(entity \<times> closing_reason) list"
  lc_staged :: "entity \<Rightarrow> 't option"
  lc_outcomes :: "(entity \<times> ('t, 'c) outcome) list"

inductive lifecycle_step :: "('t, 'c) lifecycle \<Rightarrow> ('t, 'c) lifecycle \<Rightarrow> bool" where
  spawn: "lifecycle_step l (l\<lparr>lc_next := Suc (lc_next l), lc_open := (lc_open l)(lc_next l := True)\<rparr>)"
| vanish: "(\<And>s. still_open s \<Longrightarrow> lc_open l s) \<Longrightarrow> lifecycle_step l (l\<lparr>lc_open := still_open\<rparr>)"
| stage: "lc_staged l s = None \<Longrightarrow> lifecycle_step l (l\<lparr>lc_staged := (lc_staged l)(s \<mapsto> d)\<rparr>)"
| close: "lc_open l s \<Longrightarrow>
     lifecycle_step l (l\<lparr>lc_closing := lc_closing l @ [(s, k)], lc_open := (lc_open l)(s := False)\<rparr>)"
| dispose: "lc_closing l = xs @ (s, Cancelling) # ys \<Longrightarrow>
     lifecycle_step l (l\<lparr>lc_closing := xs @ ys, lc_outcomes := lc_outcomes l @ [(s, Disposed c)]\<rparr>)"
| deliver: "lc_closing l = xs @ (s, Finishing) # ys \<Longrightarrow> lc_staged l s = Some d \<Longrightarrow>
     lifecycle_step l (l\<lparr>lc_closing := xs @ ys, lc_outcomes := lc_outcomes l @ [(s, Delivered d)]\<rparr>)"
| abandon: "subseq ks (lc_closing l) \<Longrightarrow> lifecycle_step l (l\<lparr>lc_closing := ks\<rparr>)"
| unstage: "\<not> lc_open l s \<Longrightarrow> (s, Finishing) \<notin> set (lc_closing l) \<Longrightarrow> s < lc_next l \<Longrightarrow>
     lifecycle_step l (l\<lparr>lc_staged := (lc_staged l)(s := None)\<rparr>)"

inductive_cases lifecycle_stepE: "lifecycle_step l l'"

definition ended_sessions :: "('t, 'c) lifecycle \<Rightarrow> entity list" where
  "ended_sessions l = map fst (lc_closing l) @ map fst (lc_outcomes l)"

definition lifecycle_ok :: "('t, 'c) lifecycle \<Rightarrow> bool" where
  "lifecycle_ok l \<longleftrightarrow> distinct (ended_sessions l)
     \<and> (\<forall>s \<in> set (ended_sessions l). s < lc_next l \<and> \<not> lc_open l s)
     \<and> (\<forall>s. lc_open l s \<longrightarrow> s < lc_next l)"

lemma subseq_set: "subseq xs ys \<Longrightarrow> set xs \<subseteq> set ys"
  by (auto simp: subseq_conv_nths dest: in_set_nthsD)

lemma subseq_distinct_map: "subseq xs ys \<Longrightarrow> distinct (map f ys) \<Longrightarrow> distinct (map f xs)"
  by (metis distinct_nthsI subseq_conv_nths subseq_map)

lemma lifecycle_step_ok:
  assumes "lifecycle_step l l'" and "lifecycle_ok l"
  shows "lifecycle_ok l'"
  using assms
proof cases
  case (abandon ks)
  then have "set (ended_sessions l') \<subseteq> set (ended_sessions l)"
    using image_mono [OF subseq_set [OF abandon(2)], of fst] by (auto simp: ended_sessions_def)
  moreover have "distinct (ended_sessions l')"
    using abandon assms(2) image_mono [OF subseq_set [OF abandon(2)], of fst] subseq_distinct_map [OF abandon(2), of fst]
    by (auto simp: lifecycle_ok_def ended_sessions_def)
  ultimately show ?thesis using assms(2) abandon(1) by (auto simp: lifecycle_ok_def)
next
  case (vanish still_open)
  then have "still_open s \<longrightarrow> lc_open l s" for s by blast
  with vanish(1) assms(2) show ?thesis
    by (simp add: lifecycle_ok_def ended_sessions_def) blast
qed (auto simp: lifecycle_ok_def ended_sessions_def less_Suc_eq)

text \<open>
  Once an output is staged for a session without an outcome, only that output is delivered: it stays
  staged, or the session is closed and can not deliver any more.
\<close>

definition first_output :: "entity \<Rightarrow> 't \<Rightarrow> ('t, 'c) lifecycle \<Rightarrow> bool" where
  "first_output s d l \<longleftrightarrow> lifecycle_ok l
     \<and> (\<forall>d'. (s, Delivered d') \<in> set (lc_outcomes l) \<longrightarrow> d' = d)
     \<and> (lc_staged l s = Some d
        \<or> (\<not> lc_open l s \<and> (s, Finishing) \<notin> set (lc_closing l) \<and> s < lc_next l))"

lemma first_output_step:
  assumes "lifecycle_step l l'" and "first_output s d l"
  shows "first_output s d l'"
proof -
  have ok: "lifecycle_ok l'" using lifecycle_step_ok assms by (auto simp: first_output_def)
  have old: "\<forall>d'. (s, Delivered d') \<in> set (lc_outcomes l) \<longrightarrow> d' = d"
    "lc_staged l s = Some d \<or> (\<not> lc_open l s \<and> (s, Finishing) \<notin> set (lc_closing l) \<and> s < lc_next l)"
    using assms(2) by (auto simp: first_output_def)
  from assms(1) show ?thesis
  proof cases
    case (abandon ks)
    then show ?thesis using ok old subseq_set [OF abandon(2)] by (auto simp: first_output_def)
  qed (use ok old in \<open>auto simp: first_output_def\<close>)
qed

subsection \<open>The scope as an instance\<close>

fun closing_reason_of :: "'c finish_status \<Rightarrow> closing_reason" where
  "closing_reason_of FinishTerminated = Finishing"
| "closing_reason_of FinishEarlyCleanup = Cleaning_early"
| "closing_reason_of (FinishCancelled _) = Cancelling"

definition is_open :: "entity \<Rightarrow> ('t, 'c, 'l) scope_world \<Rightarrow> bool" where
  "is_open s w \<longleftrightarrow> (case session_status_of s w of None \<Rightarrow> False | Some st \<Rightarrow> \<not> is_cleaning st)"

definition lifecycle_of :: "('t, 'c, 'l) scope_world \<Rightarrow> ('t, 'c) lifecycle" where
  "lifecycle_of w =
     \<lparr>lc_next = sw_next_entity w, lc_open = (\<lambda>s. is_open s w),
      lc_closing = map (\<lambda>a. (aw_session a, closing_reason_of (aw_status a))) (sw_awaiting w),
      lc_staged = (\<lambda>s. map_option in_data (hm_get (sw_staging w) s)), lc_outcomes = sw_outcomes w\<rparr>"

definition scope_ok :: "'t scope_structure \<Rightarrow> ('t, 'c, 'l) scope_world \<Rightarrow> bool" where
  "scope_ok sc w \<longleftrightarrow> hm_get (sw_cleaners w) (sc_scope sc) \<noteq> None \<and> lifecycle_ok (lifecycle_of w)"

definition follows ::
  "'t scope_structure \<Rightarrow> ('t, 'c) lifecycle \<Rightarrow> ('t, 'c, 'l) scope_world \<Rightarrow> bool" where
  "follows sc l w \<longleftrightarrow> scope_ok sc w \<and> lifecycle_step\<^sup>*\<^sup>* l (lifecycle_of w)"

lemma follows_step:
  assumes "follows sc l w" and "lifecycle_step (lifecycle_of w) (lifecycle_of w')"
    and "dom (hm_get (sw_cleaners w')) = dom (hm_get (sw_cleaners w))"
  shows "follows sc l w'"
  using assms lifecycle_step_ok [OF assms(2)] unfolding follows_def scope_ok_def
  by (metis domIff rtranclp.rtrancl_into_rtrancl)

text \<open>A quiet change touches nothing that the specification sees, except that sessions may vanish.\<close>

definition quiet :: "('t, 'c, 'l) scope_world \<Rightarrow> ('t, 'c, 'l) scope_world \<Rightarrow> bool" where
  "quiet w w' \<longleftrightarrow> sw_next_entity w' = sw_next_entity w \<and> sw_awaiting w' = sw_awaiting w
     \<and> sw_staging w' = sw_staging w \<and> sw_outcomes w' = sw_outcomes w
     \<and> (\<forall>s. is_open s w' \<longrightarrow> is_open s w) \<and> dom (hm_get (sw_cleaners w')) = dom (hm_get (sw_cleaners w))"

lemma quiet_refl [simp]: "quiet w w"
  by (simp add: quiet_def)

lemma quiet_trans: "quiet u v \<Longrightarrow> quiet v w \<Longrightarrow> quiet u w"
  by (auto simp: quiet_def)

lemma follows_quiet:
  assumes "follows sc l w" and "quiet w w'"
  shows "follows sc l w'"
proof (rule follows_step [OF assms(1)])
  have "lifecycle_of w' = (lifecycle_of w)\<lparr>lc_open := \<lambda>s. is_open s w'\<rparr>"
    using assms(2) by (simp add: quiet_def lifecycle_of_def)
  moreover have "is_open s w' \<Longrightarrow> lc_open (lifecycle_of w) s" for s
    using assms(2) by (simp add: quiet_def lifecycle_of_def)
  ultimately show "lifecycle_step (lifecycle_of w) (lifecycle_of w')"
    by (metis lifecycle_step.vanish)
qed (use assms(2) in \<open>simp add: quiet_def\<close>)

lemma keeps_quiet [keeps_rules]: "(\<And>w. quiet w (fst (m w))) \<Longrightarrow> keeps (follows sc l) m"
  by (auto intro: keepsI follows_quiet)

lemma is_open_cong: "mw_status (sw_messages w') = mw_status (sw_messages w) \<Longrightarrow> is_open s w' = is_open s w"
  by (simp add: is_open_def session_status_of_def)

subsection \<open>Quiet operations\<close>

lemma give_input_status:
  "give_input route data w roster = (w', roster', r) \<Longrightarrow> mw_status w' s \<in> {mw_status w s, None}"
  by (auto simp: give_input_def sneak_input_def deliver_input_def wake_if_def finalize_series_cancel_def
      Let_def split: if_splits option.splits session_status.splits prod.splits sum.splits bool.splits)

lemma quiet_scope_give: "quiet w (fst (scope_give session target data w))"
proof -
  obtain mw roster r where g: "give_input \<lparr>rt_session = session, rt_target = target\<rparr> data
      (sw_messages w) (sw_roster w) = (mw, roster, r)"
    by (metis prod_cases3)
  have "is_open s (fst (scope_give session target data w)) \<longrightarrow> is_open s w" for s
    using give_input_status [OF g, of s] g
    by (auto simp: scope_give_def is_open_def session_status_of_def)
  then show ?thesis using g by (simp add: quiet_def scope_give_def)
qed

lemma quiet_on_messages:
  assumes "\<And>w. mw_status (fst (f w)) = mw_status w"
  shows "quiet w (fst (on_messages f w))"
  using assms [of "sw_messages w"]
  by (simp add: quiet_def on_messages_def is_open_def session_status_of_def split_beta Let_def)

lemma take_input_status: "mw_status (fst (take_input source w)) = mw_status w"
  by (simp add: take_input_def try_take_input_def split: option.split prod.split)

lemma cleanup_inputs_status: "mw_status (cleanup_inputs source session w) = mw_status w"
  by (simp add: cleanup_inputs_def split: option.split)

lemma quiet_take_input: "quiet w (fst (on_messages (take_input source) w))"
  by (rule quiet_on_messages) (rule take_input_status)

lemma quiet_cleanup_inputs: "quiet w (w\<lparr>sw_messages := cleanup_inputs source session (sw_messages w)\<rparr>)"
  by (simp add: quiet_def is_open_def session_status_of_def cleanup_inputs_status)

lemma quiet_despawn: "quiet w (despawn_session session w)"
  by (auto simp: quiet_def despawn_session_def is_open_def session_status_of_def split: if_splits)

lemma quiet_notify: "quiet w (fst (scope_notify c w)) \<and> sw_messages (fst (scope_notify c w)) = sw_messages w"
proof -
  obtain m fs r where "notify_cleaner c (sw_cleaners w, sw_cleanup_finished w) = ((m, fs), r)"
    by (metis surj_pair)
  with notify_cleaner_cases [OF this] show ?thesis
    by (simp add: quiet_def scope_notify_def is_open_def session_status_of_def)
qed

lemma quiet_clean_node:
  "quiet w (clean_node sc session i n w) \<and> sw_messages (clean_node sc session i n w) = sw_messages w"
  using quiet_notify [of w "node_cleanup sc session i n"]
  by (simp add: clean_node_def attempt_def Let_def) (simp add: quiet_def is_open_def session_status_of_def)

lemma quiet_clean_nodes:
  assumes "hm_get (sw_cleaners w) (sc_scope sc) \<noteq> None"
  shows "\<exists>w'. clean_nodes sc session i w = (w', Inr ()) \<and> quiet w w' \<and> sw_messages w' = sw_messages w"
proof -
  obtain contents where c: "hm_get (sw_cleaners w) (sc_scope sc) = Some contents" using assms by blast
  let ?w = "w\<lparr>sw_cleaners := hm_insert (sc_scope sc) (add_cleanup i (sc_nodes sc) contents) (sw_cleaners w)\<rparr>"
  have "quiet w ?w" using c by (auto simp: quiet_def is_open_def session_status_of_def)
  then have "quiet w (fold (clean_node sc session i) ns ?w)
      \<and> sw_messages (fold (clean_node sc session i) ns ?w) = sw_messages w" for ns
    by (intro fold_keeps [where P = "\<lambda>v. quiet w v \<and> sw_messages v = sw_messages w"])
      (use quiet_clean_node quiet_trans in \<open>metis\<close>, simp)
  then show ?thesis
    using c by (auto simp: clean_nodes_def Let_def) (simp add: quiet_def is_open_def session_status_of_def)
qed

subsection \<open>Closing a session\<close>

lemma follows_cleanup_session: "keeps (follows sc l) (cleanup_session sc c st s)"
proof (rule keepsI)
  fix w assume f: "follows sc l w"
  show "follows sc l (fst (cleanup_session sc c st s w))"
  proof (cases "is_open s w \<and> hm_get (sw_parents w) s \<noteq> None")
    case True
    then obtain parent where p: "hm_get (sw_parents w) s = Some parent" by blast
    let ?w = "w\<lparr>sw_awaiting := sw_awaiting w @ [\<lparr>aw_session = s, aw_parent = parent, aw_cleanup = c,
      aw_status = st, aw_workflows = None, aw_finished = []\<rparr>]\<rparr>"
    have "hm_get (sw_cleaners ?w) (sc_scope sc) \<noteq> None" using f by (simp add: follows_def scope_ok_def)
    then obtain w2 where w2: "clean_nodes sc s (cu_id c) ?w = (w2, Inr ())"
      "quiet ?w w2" "sw_messages w2 = sw_messages w"
      using quiet_clean_nodes [of ?w sc s "cu_id c"] by auto
    have open2: "is_open s' w2 = is_open s' w" for s' by (rule is_open_cong) (simp add: w2(3))
    obtain v where v: "session_status_of s w = Some v" "\<not> is_cleaning v"
      using True by (auto simp: is_open_def split: option.splits)
    have run: "cleanup_session sc c st s w = (set_session_status s (Some Cleaning) w2, Inr ())"
      using v w2 p by (simp add: cleanup_session_def ebind_def or_error_def modify_def session_status_of_def)
    show ?thesis
    proof (rule follows_step [OF f])
      have "lifecycle_of (fst (cleanup_session sc c st s w)) =
          (lifecycle_of w)\<lparr>lc_closing := lc_closing (lifecycle_of w) @ [(s, closing_reason_of st)],
             lc_open := (lc_open (lifecycle_of w))(s := False)\<rparr>"
        using w2(2) open2
        by (simp add: run lifecycle_of_def quiet_def set_session_status_def)
          (simp add: is_open_def session_status_of_def fun_eq_iff)
      then show "lifecycle_step (lifecycle_of w) (lifecycle_of (fst (cleanup_session sc c st s w)))"
        using lifecycle_step.close [of "lifecycle_of w" s] True by (simp add: lifecycle_of_def)
    qed (use w2(2) in \<open>simp add: run quiet_def set_session_status_def\<close>)
  next
    case False
    then have "fst (cleanup_session sc c st s w) = w"
      by (auto simp: cleanup_session_def ebind_def or_error_def modify_def is_open_def ok_or_def split: option.splits)
    then show ?thesis using f by simp
  qed
qed

lemma follows_cleanup_entire_scope: "keeps (follows sc l) (cleanup_entire_scope sc c st ss)"
  unfolding cleanup_entire_scope_def by (intro keeps_each follows_cleanup_session)

lemma quiet_sessions [simp]: "quiet w (w\<lparr>sw_sessions := ss\<rparr>)"
  by (simp add: quiet_def is_open_def session_status_of_def)

lemma follows_stage:
  assumes "follows sc l w" and "hm_get (sw_staging w) s = None"
  shows "follows sc l (w\<lparr>sw_staging := hm_insert s input (sw_staging w)\<rparr>)"
proof (rule follows_step [OF assms(1)])
  have "lifecycle_of (w\<lparr>sw_staging := hm_insert s input (sw_staging w)\<rparr>) =
      (lifecycle_of w)\<lparr>lc_staged := (lc_staged (lifecycle_of w))(s \<mapsto> in_data input)\<rparr>"
    by (simp add: lifecycle_of_def is_open_def session_status_of_def fun_eq_iff)
  then show "lifecycle_step (lifecycle_of w) (lifecycle_of (w\<lparr>sw_staging := hm_insert s input (sw_staging w)\<rparr>))"
    using lifecycle_step.stage [of "lifecycle_of w" s] assms(2) by (simp add: lifecycle_of_def)
qed simp

lemma follows_terminate_with: "keeps (follows sc l) (terminate_with sc input)"
proof (rule keepsI)
  fix w assume f: "follows sc l w"
  let ?w = "w\<lparr>sw_staging := hm_insert (in_session input) input (sw_staging w)\<rparr>"
  show "follows sc l (fst (terminate_with sc input w))"
  proof (cases "hm_get (sw_staging w) (in_session input) = None")
    case True
    then have staged: "follows sc l ?w" by (rule follows_stage [OF f])
    have "follows sc l (fst (cleanup_entire_scope sc c st ss (?w\<lparr>sw_sessions := xs\<rparr>)))" for c st ss xs
      using keepsD [OF follows_cleanup_entire_scope follows_quiet [OF staged quiet_sessions]] .
    moreover have "follows sc l (?w\<lparr>sw_sessions := xs\<rparr>)" for xs
      by (rule follows_quiet [OF staged quiet_sessions])
    ultimately show ?thesis
      using True staged by (simp add: terminate_with_def Let_def split: option.split prod.split)
  qed (use f in \<open>simp add: terminate_with_def\<close>)
qed

lemma follows_terminate: "keeps (follows sc l) (terminate_execute sc)"
  unfolding terminate_execute_def
  by (intro keeps_ebind keeps_quiet quiet_take_input follows_terminate_with)

lemma follows_notify: "keeps (follows sc l) (scope_notify c)"
  using quiet_notify by (intro keeps_quiet) blast

lemma follows_sessions: "follows sc l w \<Longrightarrow> follows sc l (w\<lparr>sw_sessions := ss\<rparr>)"
  by (rule follows_quiet [OF _ quiet_sessions])

lemma follows_early_cleanup: "keeps (follows sc l) (early_cleanup sc c)"
proof (rule keepsI)
  fix w assume "follows sc l w"
  then have "follows sc l (w\<lparr>sw_messages := cleanup_inputs (sc_scope sc) (cu_session c) (sw_messages w),
      sw_sessions := ss\<rparr>)" for ss
    using follows_sessions [OF follows_quiet [OF _ quiet_cleanup_inputs]] by blast
  then show "follows sc l (fst (early_cleanup sc c w))"
    by (simp add: early_cleanup_def Let_def keepsD [OF follows_notify] keepsD [OF follows_cleanup_entire_scope]
        split: prod.split)
qed

lemma follows_cancel_one: "keeps (follows sc l) (cancel_one sc s c)"
  by (rule keepsI)
    (simp add: cancel_one_def Let_def follows_sessions keepsD [OF follows_cleanup_entire_scope] split: prod.split)

lemma follows_cancel_all:
  "follows sc l w \<Longrightarrow> follows sc l (fold (\<lambda>s. attempt (cancel_one sc s c)) ss w)"
  by (intro fold_keeps [where P = "follows sc l"] keeps_attempt [OF follows_cancel_one])

lemma follows_receive_cancel: "keeps (follows sc l) (receive_cancel sc s c)"
  by (rule keepsI)
    (simp add: receive_cancel_def follows_cancel_all keepsD [OF follows_cancel_one] split: option.split)

lemma follows_validate: "keeps (follows sc l) (validate_scope_reachability sc env s)"
proof (rule keepsI)
  fix w :: "('a, 'b, 'c) scope_world" assume f: "follows sc l w"
  have "follows sc l (fst (ebind (cleanup_entire_scope sc c st ss) (\<lambda>_ w. (w, Inr False)) (w\<lparr>sw_sessions := xs\<rparr>)))"
    for c st ss xs
  proof (rule keepsD [OF keeps_ebind [OF follows_cleanup_entire_scope]])
    show "keeps (follows sc l) (\<lambda>w. (w, Inr False))" by (simp add: keeps_def)
  qed (rule follows_sessions [OF f])
  then show "follows sc l (fst (validate_scope_reachability sc env s w))"
    using f follows_sessions [OF f]
    by (simp add: validate_scope_reachability_def Let_def split: option.split prod.split)
qed

subsection \<open>Beginning a session\<close>

lemma follows_spawn:
  assumes "follows sc l w" and "spawn_session parent w = (w', s)"
  shows "follows sc l w'"
proof (rule follows_step [OF assms(1)])
  have "lifecycle_of w' = (lifecycle_of w)\<lparr>lc_next := Suc (lc_next (lifecycle_of w)),
      lc_open := (lc_open (lifecycle_of w))(lc_next (lifecycle_of w) := True)\<rparr>"
    using assms(2) by (auto simp: spawn_session_def Let_def lifecycle_of_def set_session_status_def is_open_def
        session_status_of_def fun_eq_iff)
  then show "lifecycle_step (lifecycle_of w) (lifecycle_of w')"
    using lifecycle_step.spawn [of "lifecycle_of w"] by simp
qed (use assms(2) in \<open>auto simp: spawn_session_def Let_def set_session_status_def\<close>)

lemma quiet_initial [simp]: "quiet w (w\<lparr>sw_initial := x\<rparr>)"
  by (simp add: quiet_def is_open_def session_status_of_def)

lemma quiet_exits [simp]: "quiet w (w\<lparr>sw_exits := x\<rparr>)"
  by (simp add: quiet_def is_open_def session_status_of_def)

lemma follows_set_initial: "keeps (follows sc l) (modify (\<lambda>w. w\<lparr>sw_initial := f w\<rparr>))"
  by (rule keeps_modify) (rule follows_quiet [OF _ quiet_initial])

lemma follows_check_begun: "keeps (follows sc l) (check_begun_scope sc env s)"
proof (rule keepsI)
  fix w :: "('a, 'b, 'c) scope_world" assume f: "follows sc l w"
  note validate = keepsD [OF keeps_ebind [OF follows_validate] f]
  show "follows sc l (fst (check_begun_scope sc env s w))"
  proof (cases "sw_initial w")
    case None
    then show ?thesis
      by (simp add: check_begun_scope_def validate follows_set_initial
          keepsD [OF follows_cancel_one follows_quiet [OF f quiet_initial]] split: option.split)
  next
    case (Some x)
    then show ?thesis
      using f by (cases x)
        (simp_all add: check_begun_scope_def validate keeps_modify keepsD [OF follows_cancel_one f])
  qed
qed

lemma follows_begin_scope: "keeps (follows sc l) (begin_scope sc env input s)"
proof (rule keepsI)
  fix w :: "('a, 'b, 'c) scope_world" assume f: "follows sc l w"
  have "keeps (follows sc l) (begin_scope_impl sc input s)"
    unfolding begin_scope_impl_def
    by (intro keeps_ebind keeps_modify follows_sessions keeps_quiet quiet_scope_give)
  then have "follows sc l (fst (begin_scope_impl sc input s w))" using f by (rule keepsD)
  then show "follows sc l (fst (begin_scope sc env input s w))"
    using follows_quiet [OF _ quiet_despawn] keepsD [OF follows_check_begun]
    by (auto simp: begin_scope_def split: prod.split sum.split)
qed

lemma follows_dyn_begin_scope: "keeps (follows sc l) (dyn_begin_scope sc env)"
proof -
  have "keeps (follows sc l) (begin_new_session sc env input)" for input
    by (rule keepsI)
      (auto simp: begin_new_session_def intro: keepsD [OF follows_begin_scope] follows_spawn split: prod.split)
  then show ?thesis
    unfolding dyn_begin_scope_def by (intro keeps_ebind [OF keeps_quiet [OF quiet_take_input]])
qed

lemma follows_begin_workflow: "keeps (follows sc l) (begin_workflow sc env input source target s b)"
proof (rule keepsI)
  fix w :: "('a, 'b, 'c) scope_world" assume f: "follows sc l w"
  show "follows sc l (fst (begin_workflow sc env input source target s b w))"
    using f keepsD [OF follows_begin_scope follows_quiet [OF f quiet_exits]]
    by (simp add: begin_workflow_def split: option.split)
qed

subsection \<open>Finishing a session\<close>

definition closed :: "entity \<Rightarrow> ('t, 'c) lifecycle \<Rightarrow> bool" where
  "closed s l \<longleftrightarrow> \<not> lc_open l s \<and> (s, Finishing) \<notin> set (lc_closing l) \<and> s < lc_next l"

lemma lifecycle_remove:
  assumes "lifecycle_ok l" and "lc_closing l = xs @ (s, k) # ys" and "subseq ks (xs @ ys)"
  shows "lifecycle_step l (l\<lparr>lc_closing := ks\<rparr>)" and "closed s (l\<lparr>lc_closing := ks\<rparr>)"
proof -
  have "subseq ks (lc_closing l)"
    unfolding assms(2) by (rule subseq_order.order_trans [OF assms(3)]) (simp add: subseq_append' list_emb_Cons)
  then show "lifecycle_step l (l\<lparr>lc_closing := ks\<rparr>)" by (rule lifecycle_step.abandon)
  have "s \<notin> fst ` set (xs @ ys)" and s: "\<not> lc_open l s" "s < lc_next l"
    using assms(1,2) by (simp_all add: lifecycle_ok_def ended_sessions_def image_Un)
  then have "(s, Finishing) \<notin> set (xs @ ys)" by (metis fst_conv image_eqI)
  with s show "closed s (l\<lparr>lc_closing := ks\<rparr>)"
    using subseq_set [OF assms(3)] by (auto simp: closed_def)
qed

lemma lifecycle_early:
  assumes "lifecycle_ok l" and "lc_closing l = xs @ (s, k) # ys" and "k \<noteq> Finishing"
  shows "closed s l"
  using lifecycle_remove(2) [OF assms(1,2), of "xs @ ys"] assms(2,3) by (auto simp: closed_def)

lemma lifecycle_deliver:
  assumes "lifecycle_ok l" and "lc_closing l = xs @ (s, Finishing) # ys" and "subseq ks (xs @ ys)"
    and "lc_staged l s = Some d"
  shows "lifecycle_step\<^sup>*\<^sup>* l (l\<lparr>lc_closing := ks, lc_staged := (lc_staged l)(s := None),
      lc_outcomes := lc_outcomes l @ [(s, Delivered d)]\<rparr>)"
proof -
  let ?l1 = "l\<lparr>lc_closing := xs @ ys, lc_outcomes := lc_outcomes l @ [(s, Delivered d)]\<rparr>"
  let ?l2 = "?l1\<lparr>lc_closing := ks\<rparr>"
  have "closed s (l\<lparr>lc_closing := ks\<rparr>)" by (rule lifecycle_remove [OF assms(1-3)])
  then have "lifecycle_step ?l2 (?l2\<lparr>lc_staged := (lc_staged ?l2)(s := None)\<rparr>)"
    by (intro lifecycle_step.unstage) (simp_all add: closed_def)
  moreover have "lifecycle_step l ?l1" by (rule lifecycle_step.deliver [OF assms(2,4)])
  moreover have "lifecycle_step ?l1 ?l2" by (rule lifecycle_step.abandon) (simp add: assms(3))
  ultimately have "lifecycle_step\<^sup>*\<^sup>* l (?l2\<lparr>lc_staged := (lc_staged ?l2)(s := None)\<rparr>)"
    by (iprover intro: converse_rtranclp_into_rtranclp rtranclp.rtrancl_refl)
  then show ?thesis by (cases l) simp
qed

lemma follows_steps:
  assumes "follows sc l w" and "lifecycle_step\<^sup>*\<^sup>* (lifecycle_of w) (lifecycle_of w')"
    and "dom (hm_get (sw_cleaners w')) = dom (hm_get (sw_cleaners w))"
  shows "follows sc l w'"
proof -
  have "lifecycle_ok l'" if "lifecycle_step\<^sup>*\<^sup>* l l'" "lifecycle_ok l" for l l' :: "('a, 'b) lifecycle"
    using that by (induction rule: rtranclp_induct) (auto intro: lifecycle_step_ok)
  then show ?thesis
    using assms unfolding follows_def scope_ok_def by (metis domIff rtranclp_trans)
qed

lemma closed_quiet: "quiet w w' \<Longrightarrow> closed s (lifecycle_of w) \<Longrightarrow> closed s (lifecycle_of w')"
  by (auto simp: closed_def quiet_def lifecycle_of_def)

lemma follows_forget_session:
  assumes "follows sc l w" and "closed s (lifecycle_of w)"
  shows "follows sc l (forget_session sc s b w)"
proof -
  let ?w1 = "w\<lparr>sw_staging := AList.delete s (sw_staging w)\<rparr>"
  have "lifecycle_of ?w1 = (lifecycle_of w)\<lparr>lc_staged := (lc_staged (lifecycle_of w))(s := None)\<rparr>"
    by (simp add: lifecycle_of_def is_open_def session_status_of_def fun_eq_iff)
  then have "lifecycle_step (lifecycle_of w) (lifecycle_of ?w1)"
    using lifecycle_step.unstage [of "lifecycle_of w" s] assms(2) by (simp add: closed_def)
  then have "follows sc l ?w1" by (rule follows_step [OF assms(1)]) simp
  moreover have "quiet ?w1 (w\<lparr>sw_sessions := filter (\<lambda>p. ss_scoped p \<noteq> s) (sw_sessions w),
      sw_messages := cleanup_inputs (sc_terminate sc) s (sw_messages w),
      sw_staging := AList.delete s (sw_staging w),
      sw_released := sw_released w @ x\<rparr>)" for x
    by (simp add: quiet_def is_open_def session_status_of_def cleanup_inputs_status)
  ultimately show ?thesis
    unfolding forget_session_def by (meson follows_quiet quiet_despawn)
qed

text \<open>Telling the parent only removes entries that wait for it.\<close>

lemma notify_parent_frame:
  "notify_parent a w = (w', r) \<Longrightarrow>
     subseq (sw_awaiting w') (sw_awaiting w) \<and> sw_next_entity w' = sw_next_entity w
       \<and> sw_staging w' = sw_staging w \<and> sw_outcomes w' = sw_outcomes w \<and> sw_messages w' = sw_messages w
       \<and> dom (hm_get (sw_cleaners w')) = dom (hm_get (sw_cleaners w))"
  using quiet_notify [of "w\<lparr>sw_awaiting := filter (\<lambda>b. aw_parent b \<noteq> aw_parent a) (sw_awaiting w)\<rparr>" "aw_cleanup a"]
  by (auto simp: notify_parent_def quiet_def split: if_splits)

lemma closing_at:
  assumes "index < length (sw_awaiting w)"
  defines "a \<equiv> sw_awaiting w ! index"
    and "kind \<equiv> \<lambda>a. (aw_session a, closing_reason_of (aw_status a))"
  shows "lc_closing (lifecycle_of w) = map kind (take index (sw_awaiting w)) @ kind a # map kind (drop (Suc index) (sw_awaiting w))"
proof -
  have "sw_awaiting w = take index (sw_awaiting w) @ a # drop (Suc index) (sw_awaiting w)"
    unfolding a_def by (rule id_take_nth_drop [OF assms(1)])
  then have "map kind (sw_awaiting w) = map kind (take index (sw_awaiting w) @ a # drop (Suc index) (sw_awaiting w))"
    by simp
  then show ?thesis unfolding lifecycle_of_def kind_def by simp
qed

lemma remove_awaiting_follows:
  assumes "follows sc l w" and "index < length (sw_awaiting w)" and "a = sw_awaiting w ! index"
    and "\<not> finish_is_terminated (aw_status a)"
    and "w' = fst (remove_awaiting index a req w)"
  shows "follows sc l w' \<and> closed (aw_session a) (lifecycle_of w')"
proof -
  note at = closing_at [OF assms(2), folded assms(3)]
  have ok: "lifecycle_ok (lifecycle_of w)" using assms(1) by (simp add: follows_def scope_ok_def)
  show ?thesis
  proof (cases "aw_status a")
    case FinishEarlyCleanup
    have "closed (aw_session a) (lifecycle_of w)"
      by (rule lifecycle_early [OF ok at]) (simp add: FinishEarlyCleanup)
    then show ?thesis using assms FinishEarlyCleanup by (simp add: remove_awaiting_def)
  next
    case (FinishCancelled c)
    let ?l = "(lifecycle_of w)\<lparr>lc_closing := map (\<lambda>a. (aw_session a, closing_reason_of (aw_status a)))
        (take index (sw_awaiting w) @ drop (Suc index) (sw_awaiting w))\<rparr>"
    have l': "lifecycle_of w' = ?l\<lparr>lc_outcomes := lc_outcomes (lifecycle_of w) @ [(aw_session a, Disposed c)]\<rparr>"
      using FinishCancelled assms(5)
      by (simp add: remove_awaiting_def Let_def report_cancelled_def lifecycle_of_def is_open_def session_status_of_def)
    have "closed (aw_session a) ?l" by (rule lifecycle_remove(2) [OF ok at]) simp
    then have "closed (aw_session a) (lifecycle_of w')" by (simp add: l' closed_def)
    moreover have "lifecycle_step (lifecycle_of w) (lifecycle_of w')"
      using lifecycle_step.dispose [of "lifecycle_of w"] at FinishCancelled by (simp add: l')
    then have "follows sc l w'"
      by (rule follows_step [OF assms(1)])
        (simp add: assms(5) remove_awaiting_def Let_def report_cancelled_def FinishCancelled)
    ultimately show ?thesis by simp
  qed (use assms(4) in simp)
qed

lemma notify_parent_follows:
  assumes "follows sc l w" and "closed s (lifecycle_of w)" and "w' = fst (notify_parent a w)"
  shows "follows sc l w' \<and> closed s (lifecycle_of w')"
proof -
  obtain r where "notify_parent a w = (w', r)" using assms(3) by (metis fst_conv surj_pair)
  note frame = notify_parent_frame [OF this]
  let ?k = "map (\<lambda>a. (aw_session a, closing_reason_of (aw_status a)))"
  have sub: "subseq (?k (sw_awaiting w')) (?k (sw_awaiting w))" using frame by (simp add: subseq_map)
  have l': "lifecycle_of w' = (lifecycle_of w)\<lparr>lc_closing := ?k (sw_awaiting w')\<rparr>"
    using frame by (simp add: lifecycle_of_def is_open_def session_status_of_def)
  have "lifecycle_step (lifecycle_of w) (lifecycle_of w')"
    unfolding l' by (rule lifecycle_step.abandon) (use sub in \<open>simp add: lifecycle_of_def\<close>)
  then have "follows sc l w'" by (rule follows_step [OF assms(1)]) (use frame in simp)
  moreover have "closed s (lifecycle_of w')"
    using assms(2) subseq_set [OF sub] unfolding l' by (auto simp: closed_def lifecycle_of_def)
  ultimately show ?thesis by simp
qed

lemma follows_end_unfinished:
  assumes "follows sc l w" and "index < length (sw_awaiting w)" and "a = sw_awaiting w ! index"
    and "\<not> finish_is_terminated (aw_status a)"
  shows "follows sc l (fst (end_session sc index a req target blocker w))"
proof -
  let ?s = "aw_session a"
  obtain w1 where w1: "remove_awaiting index a req w = (w1, Inr ())"
    by (cases "aw_status a") (auto simp: remove_awaiting_def Let_def)
  obtain w2 r2 where w2: "notify_parent a w1 = (w2, r2)" by fastforce
  have "follows sc l w1 \<and> closed ?s (lifecycle_of w1)"
    using remove_awaiting_follows [OF assms, of w1 req] w1 by simp
  then have f2: "follows sc l w2 \<and> closed ?s (lifecycle_of w2)"
    using notify_parent_follows [of sc l w1 ?s w2 a] w2 by simp
  then have "follows sc l (forget_session sc ?s blocker w2)" by (blast intro: follows_forget_session)
  then show ?thesis
    using f2 w1 w2 assms(4) by (cases r2) (simp_all add: end_session_def ebind_def deliver_result_def modify_def)
qed

lemma follows_end_terminated:
  assumes f: "follows sc l w" and i: "index < length (sw_awaiting w)" and a: "a = sw_awaiting w ! index"
    and t: "finish_is_terminated (aw_status a)"
  shows "follows sc l (fst (end_session sc index a req target blocker w))"
proof -
  let ?s = "aw_session a" and ?k = "map (\<lambda>a. (aw_session a, closing_reason_of (aw_status a)))"
  let ?rest = "take index (sw_awaiting w) @ drop (Suc index) (sw_awaiting w)"
  have status: "aw_status a = FinishTerminated" using t by (cases "aw_status a") simp_all
  obtain w2 r2 where w2: "notify_parent a (w\<lparr>sw_awaiting := ?rest\<rparr>) = (w2, r2)" by fastforce
  note frame = notify_parent_frame [OF w2]
  have ok: "lifecycle_ok (lifecycle_of w)" using f by (simp add: follows_def scope_ok_def)
  have at: "lc_closing (lifecycle_of w) = ?k (take index (sw_awaiting w)) @ (?s, Finishing) # ?k (drop (Suc index) (sw_awaiting w))"
    using closing_at [OF i] status by (simp add: a)
  have sub: "subseq (?k (sw_awaiting w2)) (?k (take index (sw_awaiting w)) @ ?k (drop (Suc index) (sw_awaiting w)))"
    using frame subseq_map [of "sw_awaiting w2" ?rest] by simp
  have l2: "lifecycle_of w2 = (lifecycle_of w)\<lparr>lc_closing := ?k (sw_awaiting w2)\<rparr>"
    using frame by (simp add: lifecycle_of_def is_open_def session_status_of_def)
  have f2: "follows sc l w2"
    by (rule follows_step [OF f]) (use lifecycle_remove(1) [OF ok at sub] l2 frame in simp_all)
  have c2: "closed ?s (lifecycle_of w2)" using lifecycle_remove(2) [OF ok at sub] l2 by simp
  have run: "end_session sc index a req target blocker w = ebind (\<lambda>_. (w2, r2)) (\<lambda>_.
      ebind (deliver_result a target) (\<lambda>_. modify (forget_session sc ?s blocker))) w"
    using w2 by (simp add: end_session_def ebind_def remove_awaiting_def status)
  show ?thesis
  proof (cases "isl r2 \<or> hm_get (sw_staging w2) ?s = None")
    case True
    then show ?thesis
      using f2 by (cases r2) (auto simp: run ebind_def deliver_result_def t)
  next
    case False
    then obtain input where input: "hm_get (sw_staging w2) ?s = Some input" and r2: "r2 = Inr ()"
      by (cases r2) auto
    let ?w3 = "w2\<lparr>sw_staging := AList.delete ?s (sw_staging w2)\<rparr>"
    obtain w4 r4 where w4: "scope_give (aw_parent a) target (in_data input) ?w3 = (w4, r4)" by fastforce
    have q4: "quiet ?w3 w4" using quiet_scope_give [of ?w3 "aw_parent a" target "in_data input"] w4 by simp
    have l3: "lifecycle_of ?w3 = (lifecycle_of w2)\<lparr>lc_staged := (lc_staged (lifecycle_of w2))(?s := None)\<rparr>"
      by (simp add: lifecycle_of_def is_open_def session_status_of_def fun_eq_iff)
    have "lifecycle_step (lifecycle_of w2) (lifecycle_of ?w3)"
      unfolding l3 using c2 by (intro lifecycle_step.unstage) (simp_all add: closed_def)
    then have f4: "follows sc l w4" by (intro follows_quiet [OF _ q4] follows_step [OF f2]) simp_all
    let ?w3' = "?w3\<lparr>sw_outcomes := sw_outcomes w2 @ [(?s, Delivered (in_data input))]\<rparr>"
    let ?w5 = "w4\<lparr>sw_outcomes := sw_outcomes w4 @ [(?s, Delivered (in_data input))]\<rparr>"
    have "lifecycle_of ?w3' = (lifecycle_of w)\<lparr>lc_closing := ?k (sw_awaiting w2),
        lc_staged := (lc_staged (lifecycle_of w))(?s := None),
        lc_outcomes := lc_outcomes (lifecycle_of w) @ [(?s, Delivered (in_data input))]\<rparr>"
      using frame by (simp add: lifecycle_of_def is_open_def session_status_of_def fun_eq_iff)
    moreover have "lc_staged (lifecycle_of w) ?s = Some (in_data input)"
      using input frame by (simp add: lifecycle_of_def)
    ultimately have "lifecycle_step\<^sup>*\<^sup>* (lifecycle_of w) (lifecycle_of ?w3')"
      using lifecycle_deliver [OF ok at sub] by simp
    then have f3': "follows sc l ?w3'" by (rule follows_steps [OF f]) (use frame in simp)
    have q5: "quiet ?w3' ?w5" using q4 by (simp add: quiet_def is_open_def session_status_of_def)
    have "closed ?s (lifecycle_of ?w3')" using c2 by (simp add: closed_def lifecycle_of_def is_open_def session_status_of_def)
    then have "follows sc l (forget_session sc ?s blocker ?w5)"
      by (intro follows_forget_session follows_quiet [OF f3' q5] closed_quiet [OF q5])
    then show ?thesis
      using f4 w4 by (cases r4) (simp_all add: run ebind_def deliver_result_def t r2 input modify_def)
  qed
qed

lemma follows_finalize: "keeps (follows sc l) (finalize_scoped_session sc index)"
proof (rule keepsI)
  fix w :: "('a, 'b, 'c) scope_world" assume f: "follows sc l w"
  let ?a = "sw_awaiting w ! index"
  obtain w1 r1 where exit: "take_exit (aw_session ?a) w = (w1, r1)" by fastforce
  then have w1: "w1 = w\<lparr>sw_exits := map_option (AList.delete (aw_session ?a)) (sw_exits w)\<rparr>"
    by (auto simp: take_exit_def Let_def split: option.splits)
  have f1: "follows sc l w1" unfolding w1 by (rule follows_quiet [OF f quiet_exits])
  show "follows sc l (fst (finalize_scoped_session sc index w))"
  proof (cases "index < length (sw_awaiting w) \<and> \<not> isl r1
      \<and> find (\<lambda>p. ss_scoped p = aw_session ?a) (sw_sessions w) \<noteq> None")
    case True
    then obtain target blocker pair where r: "r1 = Inr (target, blocker)"
      "find (\<lambda>p. ss_scoped p = aw_session ?a) (sw_sessions w) = Some pair"
      by (cases r1) auto
    have "index < length (sw_awaiting w1)" "?a = sw_awaiting w1 ! index" using True w1 by simp_all
    then have "follows sc l (fst (end_session sc index ?a req target blocker w1))" for req
      using follows_end_terminated [OF f1] follows_end_unfinished [OF f1] by blast
    moreover have "finalize_scoped_session sc index w = end_session sc index ?a
        (case blocker of Some b \<Rightarrow> bl_request_id b | None \<Rightarrow> ss_request_id pair) target blocker w1"
      unfolding finalize_scoped_session_def
      using True exit r w1 by (simp add: ebind_Inr or_error_def)
    ultimately show ?thesis by simp
  next
    case False
    then show ?thesis
      using f f1 exit w1
      by (cases r1)
        (auto simp: finalize_scoped_session_def ebind_def or_error_def isl_def ok_or_def split: option.splits)
  qed
qed

subsection \<open>Cleanup workflows\<close>

lemma follows_awaiting:
  assumes "follows sc l w"
    and "map (\<lambda>a. (aw_session a, closing_reason_of (aw_status a))) as
      = map (\<lambda>a. (aw_session a, closing_reason_of (aw_status a))) (sw_awaiting w)"
  shows "follows sc l (w\<lparr>sw_awaiting := as\<rparr>)"
proof (rule follows_steps [OF assms(1)])
  have "lifecycle_of (w\<lparr>sw_awaiting := as\<rparr>) = lifecycle_of w"
    using assms(2) by (simp add: lifecycle_of_def is_open_def session_status_of_def)
  then show "lifecycle_step\<^sup>*\<^sup>* (lifecycle_of w) (lifecycle_of (w\<lparr>sw_awaiting := as\<rparr>))" by simp
qed simp

lemma follows_check_awaiting: "keeps (follows sc l) (check_awaiting_session sc s)"
  by (rule keepsI) (simp add: check_awaiting_session_def Let_def keepsD [OF follows_finalize])

lemma follows_start_workflow: "keeps (follows sc l) (start_cleanup_workflow flow s)"
proof (rule keepsI)
  fix w :: "('a, 'b, 'c) scope_world" assume f: "follows sc l w"
  obtain w1 cs where w1: "spawn_session s w = (w1, cs)" by fastforce
  let ?f = "\<lambda>w :: ('a, 'b, 'c) scope_world. w\<lparr>sw_awaiting := update_first (\<lambda>a. aw_session a = s)
     (\<lambda>a. a\<lparr>aw_workflows := map_option (\<lambda>ss. ss @ [cs]) (aw_workflows a)\<rparr>) (sw_awaiting w)\<rparr>"
  have "follows sc l (?f v)" if "follows sc l v" for v :: "('a, 'b, 'c) scope_world"
    using that by (intro follows_awaiting map_update_first) simp_all
  then have "keeps (follows sc l) (ebind (scope_give cs (cw_target flow) (cw_keys flow)) (\<lambda>_. modify ?f))"
    by (intro keeps_ebind [OF keeps_quiet [OF quiet_scope_give]] keeps_modify)
  then show "follows sc l (fst (start_cleanup_workflow flow s w))"
    using follows_spawn [OF f w1] w1 by (simp add: start_cleanup_workflow_def keeps_def)
qed

lemma follows_begin_cleanup: "keeps (follows sc l) (begin_cleanup_workflows sc c)"
proof (rule keepsI)
  fix w :: "('a, 'b, 'c) scope_world" assume f: "follows sc l w"
  let ?w = "w\<lparr>sw_awaiting := update_first (\<lambda>a. aw_session a = cu_session c)
      (\<lambda>a. a\<lparr>aw_workflows := Some []\<rparr>) (sw_awaiting w)\<rparr>"
  have "follows sc l ?w" by (intro follows_awaiting [OF f] map_update_first) simp
  then have "follows sc l (fold (\<lambda>flow. attempt (start_cleanup_workflow flow s)) flows ?w)" for s flows
    by (intro fold_keeps [where P = "follows sc l"] keeps_attempt [OF follows_start_workflow])
  then show "follows sc l (fst (begin_cleanup_workflows sc c w))"
    using f by (simp add: begin_cleanup_workflows_def Let_def keepsD [OF follows_check_awaiting] split: option.split)
qed

lemma follows_trigger: "follows sc l w \<Longrightarrow> follows sc l (trigger_cleanup sc c w)"
proof -
  assume f: "follows sc l w"
  have "dom (hm_get (forget_cleanup c m)) = dom (hm_get m)" for m
    by (auto simp: forget_cleanup_def split: option.split)
  then have "quiet w (w\<lparr>sw_cleaners := forget_cleanup c (sw_cleaners w)\<rparr>)"
    by (simp add: quiet_def is_open_def session_status_of_def)
  then show ?thesis
    using follows_quiet [OF f] by (simp add: trigger_cleanup_def Let_def keeps_attempt [OF follows_begin_cleanup])
qed

lemma map_list_update_same: "f y = f (xs ! i) \<Longrightarrow> map f (xs[i := y]) = map f xs"
  by (cases "i < length xs") (simp_all add: map_update list_update_same_conv list_update_beyond)

lemma follows_deduct: "keeps (follows sc l) (deduct_finished_cleanup sc req s inner)"
proof (rule keepsI)
  fix w :: "('a, 'b, 'c) scope_world" assume "follows sc l w"
  then have f: "follows sc l (despawn_session s w)" by (rule follows_quiet [OF _ quiet_despawn])
  have "closing_reason_of (case (inner, aw_status a) of
      (Some c, FinishCancelled c') \<Rightarrow> FinishCancelled (push_while_cancelling c c') | (_, st) \<Rightarrow> st)
    = closing_reason_of (aw_status a)" for a :: "'b awaiting_cleanup"
    by (cases inner; cases "aw_status a") simp_all
  then have "follows sc l ((despawn_session s w)\<lparr>sw_awaiting := (sw_awaiting (despawn_session s w))[index :=
      (sw_awaiting (despawn_session s w) ! index)\<lparr>aw_finished := x, aw_workflows := y,
         aw_status := (case (inner, aw_status (sw_awaiting (despawn_session s w) ! index)) of
           (Some c, FinishCancelled c') \<Rightarrow> FinishCancelled (push_while_cancelling c c') | (_, st) \<Rightarrow> st)\<rparr>]\<rparr>)"
    for index x y
    by (intro follows_awaiting [OF f] map_list_update_same) simp
  then show "follows sc l (fst (deduct_finished_cleanup sc req s inner w))"
    using f by (simp add: deduct_finished_cleanup_def Let_def keepsD [OF follows_finalize])
qed

lemma follows_finish_execute: "keeps (follows sc l) (finish_cleanup_execute sc)"
  unfolding finish_cleanup_execute_def
  by (intro keeps_ebind [OF keeps_quiet [OF quiet_take_input]] follows_deduct)

lemma follows_cancel_cleanup: "keeps (follows sc l) (receive_cleanup_workflow_cancellation sc s c)"
proof (rule keepsI)
  fix w :: "('a, 'b, 'c) scope_world" assume f: "follows sc l w"
  have "follows sc l (fold (\<lambda>s. attempt (deduct_finished_cleanup sc None s (Some c))) ss w)" for ss
    by (intro fold_keeps [where P = "follows sc l"] keeps_attempt [OF follows_deduct] f)
  then show "follows sc l (fst (receive_cleanup_workflow_cancellation sc s c w))"
    using keepsD [OF follows_deduct f] by (simp add: receive_cleanup_workflow_cancellation_def split: option.split)
qed

lemma scope_step_follows:
  assumes "scope_step sc w w'" and "follows sc l w"
  shows "follows sc l w'"
  using assms
proof cases
  case (node_cleaned c)
  have "quiet w (w\<lparr>sw_cleaning := x\<rparr>)" for x by (simp add: quiet_def is_open_def session_status_of_def)
  then show ?thesis using node_cleaned keepsD [OF follows_notify follows_quiet [OF assms(2)]] by simp
next
  case (trigger cs c)
  have "quiet w (w\<lparr>sw_cleanup_finished := x\<rparr>)" for x by (simp add: quiet_def is_open_def session_status_of_def)
  then show ?thesis using trigger follows_trigger [OF follows_quiet [OF assms(2)]] by simp
next
  case (workflow input w1 session env source target blocker)
  then show ?thesis using keepsD [OF follows_begin_workflow follows_spawn [OF assms(2)]] by simp
qed (use assms(2) in \<open>simp_all add: keepsD [OF follows_receive_cancel] keepsD [OF follows_validate]
    keepsD [OF follows_early_cleanup] keepsD [OF follows_finish_execute] keepsD [OF follows_cancel_cleanup]
    keepsD [OF follows_dyn_begin_scope] keepsD [OF follows_terminate] follows_quiet [OF _ quiet_scope_give]
    follows_quiet [OF _ quiet_despawn]\<close>)

interpretation scope: simulation "scope_step sc" "scope_ok sc" lifecycle_step lifecycle_of
proof unfold_locales
  fix w w' :: "('a, 'b, 'c) scope_world"
  assume "scope_ok sc w" and "scope_step sc w w'"
  then show "scope_ok sc w' \<and> lifecycle_step\<^sup>*\<^sup>* (lifecycle_of w) (lifecycle_of w')"
    using scope_step_follows [of sc w w' "lifecycle_of w"] by (simp add: follows_def)
qed

lemma scope_init_ok:
  "(\<And>s. mw_status messages s \<noteq> None \<Longrightarrow> s < n) \<Longrightarrow>
     scope_ok sc (scope_init sc exits target messages cleaners n parents)"
  by (auto simp: scope_ok_def lifecycle_ok_def ended_sessions_def lifecycle_of_def scope_init_def is_open_def
      session_status_of_def split: option.splits)

lemma scope_reachable_ok: "scope_reachable sc w \<Longrightarrow> scope_ok sc w"
  by (induction rule: scope_reachable.induct) (auto intro: scope_init_ok dest: scope.simulates)

end
