(* ===== verification/Tracking.thy ===== *)
theory Tracking
  imports Lifecycle
begin

text \<open>
  No session is forgotten while it is cleaned up. As long as no two sessions wait under the same
  cleanup id, a session whose cleanup workflows have not begun is waiting for a node that has not
  answered, or its finished cleanup is queued for the next flush. \<open>tracked\<close> is the invariant: what
  the scope awaits, what nodes still have to answer and what is queued agree with each other.
\<close>

subsection \<open>The invariant\<close>

definition aw_id :: "'c awaiting_cleanup \<Rightarrow> request_id" where
  "aw_id a = cu_id (aw_cleanup a)"

definition ids_distinct :: "('t, 'c, 'l) scope_world \<Rightarrow> bool" where
  "ids_distinct w \<longleftrightarrow> distinct (map aw_id (sw_awaiting w))"

definition waits :: "('t, 'c, 'l) scope_world \<Rightarrow> 'c awaiting_cleanup \<Rightarrow> bool" where
  "waits w a \<longleftrightarrow> a \<in> set (sw_awaiting w) \<and> aw_workflows a = None"

definition awaits ::
  "'t scope_structure \<Rightarrow> ('t, 'c, 'l) scope_world \<Rightarrow> request_id \<Rightarrow> entity list option" where
  "awaits sc w = awaited (sw_cleaners w) (sc_scope sc)"

definition answers :: "'t scope_structure \<Rightarrow> ('t, 'c, 'l) scope_world \<Rightarrow> cleanup list" where
  "answers sc w = filter (\<lambda>c. cu_cleaner c = sc_scope sc) (sw_cleanup_finished w)"

definition known_session :: "('t, 'c, 'l) scope_world \<Rightarrow> entity \<Rightarrow> entity \<Rightarrow> bool" where
  "known_session w session parent \<longleftrightarrow> (session, parent) \<in> set (map (\<lambda>p. (ss_scoped p, ss_parent p)) (sw_sessions w))"

definition tracked :: "'t scope_structure \<Rightarrow> ('t, 'c, 'l) scope_world \<Rightarrow> bool" where
  "tracked sc w \<longleftrightarrow>
     (\<forall>a. waits w a \<longrightarrow> known_session w (aw_session a) (aw_parent a))
   \<and> (\<forall>a ns. waits w a \<and> awaits sc w (aw_id a) = Some ns \<longrightarrow>
        ns \<noteq> [] \<and> (\<forall>n \<in> set ns. node_cleanup sc (aw_session a) (aw_id a) n \<in> set (sw_cleaning w)))
   \<and> (\<forall>a. waits w a \<and> awaits sc w (aw_id a) = None \<longrightarrow> aw_session a \<in> cu_session ` set (answers sc w))
   \<and> (\<forall>c \<in> set (sw_cleaning w). \<exists>a n ns. waits w a \<and> c = node_cleanup sc (aw_session a) (aw_id a) n
        \<and> awaits sc w (aw_id a) = Some ns \<and> n \<in> set ns)
   \<and> distinct (sw_cleaning w)
   \<and> (\<forall>c \<in> set (answers sc w). \<exists>a. waits w a \<and> cu_session c = aw_session a \<and> cu_id c = aw_id a
        \<and> awaits sc w (aw_id a) = None)
   \<and> distinct (map cu_session (answers sc w))
   \<and> (\<forall>i. awaits sc w i \<noteq> None \<longrightarrow> (\<exists>a. waits w a \<and> aw_id a = i))
   \<and> (\<forall>a \<in> set (sw_awaiting w). finish_is_early_cleanup (aw_status a) \<longrightarrow> cu_cleaner (aw_cleanup a) \<noteq> sc_scope sc)
   \<and> (\<forall>s parent. known_session w s parent \<longrightarrow> hm_get (sw_parents w) s = Some parent \<and> s < sw_next_entity w)"

lemma tracked_awaits: "tracked sc w \<Longrightarrow> awaits sc w i \<noteq> None \<Longrightarrow> \<exists>a. waits w a \<and> aw_id a = i"
  by (simp add: tracked_def)

lemma tracked_known:
  "tracked sc w \<Longrightarrow> known_session w s parent \<Longrightarrow> hm_get (sw_parents w) s = Some parent \<and> s < sw_next_entity w"
  by (simp add: tracked_def)

lemma tracked_waits_known: "tracked sc w \<Longrightarrow> waits w a \<Longrightarrow> known_session w (aw_session a) (aw_parent a)"
  by (simp add: tracked_def)

lemma tracked_early:
  "tracked sc w \<Longrightarrow> a \<in> set (sw_awaiting w) \<Longrightarrow> finish_is_early_cleanup (aw_status a) \<Longrightarrow>
     cu_cleaner (aw_cleanup a) \<noteq> sc_scope sc"
  by (simp add: tracked_def)

lemma tracked_cleaners:
  "tracked sc w \<Longrightarrow> waits w a \<Longrightarrow> awaits sc w (aw_id a) = Some ns \<Longrightarrow>
     ns \<noteq> [] \<and> (\<forall>n \<in> set ns. node_cleanup sc (aw_session a) (aw_id a) n \<in> set (sw_cleaning w))"
  by (simp add: tracked_def)

lemma tracked_cleaning:
  "tracked sc w \<Longrightarrow> c \<in> set (sw_cleaning w) \<Longrightarrow> \<exists>a n ns. waits w a \<and> c = node_cleanup sc (aw_session a) (aw_id a) n
     \<and> awaits sc w (aw_id a) = Some ns \<and> n \<in> set ns"
  by (simp add: tracked_def)

lemma tracked_answers:
  "tracked sc w \<Longrightarrow> c \<in> set (answers sc w) \<Longrightarrow> \<exists>a. waits w a \<and> cu_session c = aw_session a \<and> cu_id c = aw_id a
     \<and> awaits sc w (aw_id a) = None"
  by (simp add: tracked_def)

text \<open>What operations that start a cleanup keep, and what operations that end one keep.\<close>

definition growing :: "'t scope_structure \<Rightarrow> ('t, 'c, 'l) scope_world \<Rightarrow> bool" where
  "growing sc w \<longleftrightarrow> scope_ok sc w \<and> (ids_distinct w \<longrightarrow> tracked sc w)"

definition settled :: "'t scope_structure \<Rightarrow> ('t, 'c, 'l) scope_world \<Rightarrow> bool" where
  "settled sc w \<longleftrightarrow> scope_ok sc w \<and> ids_distinct w \<and> tracked sc w"

definition same_tracking :: "('t, 'c, 'l) scope_world \<Rightarrow> ('t, 'c, 'l) scope_world \<Rightarrow> bool" where
  "same_tracking w w' \<longleftrightarrow> sw_awaiting w' = sw_awaiting w \<and> sw_cleaning w' = sw_cleaning w
     \<and> sw_cleanup_finished w' = sw_cleanup_finished w \<and> sw_cleaners w' = sw_cleaners w
     \<and> map (\<lambda>p. (ss_scoped p, ss_parent p)) (sw_sessions w') = map (\<lambda>p. (ss_scoped p, ss_parent p)) (sw_sessions w)
     \<and> sw_parents w' = sw_parents w \<and> sw_next_entity w' = sw_next_entity w"

lemma same_tracking_refl [simp]: "same_tracking w w"
  by (simp add: same_tracking_def)

lemma same_tracking_trans: "same_tracking u v \<Longrightarrow> same_tracking v w \<Longrightarrow> same_tracking u w"
  by (simp add: same_tracking_def)

lemma tracked_same:
  assumes "same_tracking w w'"
  shows "tracked sc w' = tracked sc w \<and> ids_distinct w' = ids_distinct w"
proof -
  have "waits w' = waits w" "awaits sc w' = awaits sc w" "answers sc w' = answers sc w"
    "sw_cleaning w' = sw_cleaning w" "sw_awaiting w' = sw_awaiting w" "sw_parents w' = sw_parents w"
    "sw_next_entity w' = sw_next_entity w" "ids_distinct w' = ids_distinct w"
    using assms by (auto simp: same_tracking_def waits_def awaits_def answers_def ids_distinct_def fun_eq_iff)
  moreover have "known_session w' = known_session w"
    using assms unfolding same_tracking_def known_session_def by (simp only: fun_eq_iff) simp
  ultimately show ?thesis unfolding tracked_def by (simp only:)
qed

lemma scope_ok_follows: "scope_ok sc w = follows sc (lifecycle_of w) w"
  by (simp add: follows_def)

lemma keeps_scope_ok: "(\<And>l. keeps (follows sc l) m) \<Longrightarrow> keeps (scope_ok sc) m"
  unfolding keeps_def by (metis follows_def rtranclp.rtrancl_refl)

lemma growing_same: "same_tracking w w' \<Longrightarrow> scope_ok sc w' \<Longrightarrow> growing sc w \<Longrightarrow> growing sc w'"
  by (simp add: growing_def tracked_same)

lemma settled_same: "same_tracking w w' \<Longrightarrow> scope_ok sc w' \<Longrightarrow> settled sc w \<Longrightarrow> settled sc w'"
  by (simp add: settled_def tracked_same)

lemmas tracking_defs = waits_def awaits_def answers_def known_session_def

lemma quiet_same_status: "scope_ok sc w \<Longrightarrow> quiet w w' \<Longrightarrow> scope_ok sc w'"
  using follows_quiet [of sc "lifecycle_of w" w w'] by (simp add: follows_def)

subsection \<open>Cleaning the nodes of a session\<close>

lemma awaits_notify:
  assumes "awaits sc w i = Some ns" and "c = node_cleanup sc s i n"
  defines "rest \<equiv> filter (\<lambda>m. m \<noteq> n) ns"
    and "w' \<equiv> fst (scope_notify c w)"
  shows "awaits sc w' = (awaits sc w)(i := if rest = [] then None else Some rest)
    \<and> sw_cleanup_finished w' = sw_cleanup_finished w @ (if rest = [] then [c] else [])
    \<and> sw_cleaning w' = sw_cleaning w \<and> sw_awaiting w' = sw_awaiting w \<and> sw_sessions w' = sw_sessions w
    \<and> sw_parents w' = sw_parents w \<and> sw_next_entity w' = sw_next_entity w"
proof -
  obtain m fs r where n: "notify_cleaner c (sw_cleaners w, sw_cleanup_finished w) = ((m, fs), r)"
    by (metis surj_pair)
  have c: "cu_cleaner c = sc_scope sc" "cu_id c = i" "cu_node c = n"
    using assms(2) by (simp_all add: node_cleanup_def)
  have w': "w' = w\<lparr>sw_cleaners := m, sw_cleanup_finished := fs\<rparr>" by (simp add: w'_def scope_notify_def n)
  show ?thesis
    using notify_cleaner_cases [OF n] assms(1) unfolding w' rest_def
    by (auto simp: awaits_def c Let_def fun_eq_iff)
qed

definition after_cleaning ::
  "'t scope_structure \<Rightarrow> entity \<Rightarrow> request_id \<Rightarrow> entity list \<Rightarrow> entity list
     \<Rightarrow> ('t, 'c, 'l) scope_world \<Rightarrow> ('t, 'c, 'l) scope_world \<Rightarrow> bool" where
  "after_cleaning sc s i rest slow w w' \<longleftrightarrow>
     (\<exists>c. cu_cleaner c = sc_scope sc \<and> cu_session c = s \<and> cu_id c = i
        \<and> sw_cleanup_finished w' = sw_cleanup_finished w @ (if rest = [] then [c] else []))
   \<and> sw_cleaning w' = sw_cleaning w @ map (node_cleanup sc s i) slow
   \<and> awaits sc w' = (awaits sc w)(i := if rest = [] then None else Some rest)
   \<and> sw_awaiting w' = sw_awaiting w \<and> sw_sessions w' = sw_sessions w \<and> sw_parents w' = sw_parents w
   \<and> sw_next_entity w' = sw_next_entity w"

lemma fold_clean_nodes:
  assumes "distinct (ks @ todo)" and "awaits sc w i = Some (ks @ todo)" and "ks @ todo \<noteq> []"
  shows "after_cleaning sc s i (ks @ filter (\<lambda>n. \<not> sc_prompt sc n) todo) (filter (\<lambda>n. \<not> sc_prompt sc n) todo)
    w (fold (clean_node sc s i) todo w)"
  using assms
proof (induction todo arbitrary: ks w)
  case Nil
  then show ?case
    by (auto simp: after_cleaning_def fun_eq_iff intro!: exI [where x = "node_cleanup sc s i 0"])
      (simp_all add: node_cleanup_def)
next
  case (Cons n todo)
  let ?c = "node_cleanup sc s i n" and ?slow = "filter (\<lambda>n. \<not> sc_prompt sc n) todo"
  have c: "cu_cleaner ?c = sc_scope sc \<and> cu_session ?c = s \<and> cu_id ?c = i" by (simp add: node_cleanup_def)
  show ?case
  proof (cases "sc_prompt sc n")
    case True
    have filter: "filter (\<lambda>m. m \<noteq> n) (ks @ n # todo) = ks @ todo"
      using Cons.prems(1) filter_id_conv [of "\<lambda>m. m \<noteq> n" ks] filter_id_conv [of "\<lambda>m. m \<noteq> n" todo] by auto
    let ?w = "fst (scope_notify ?c w)"
    have w: "clean_node sc s i n w = ?w" using True by (simp add: clean_node_def attempt_def Let_def)
    note n = awaits_notify [OF Cons.prems(2) refl, of s n, unfolded filter]
    show ?thesis
    proof (cases "ks @ todo = []")
      case True
      then show ?thesis using n c \<open>sc_prompt sc n\<close> w by (auto simp: after_cleaning_def intro!: exI [where x = ?c])
    next
      case False
      then have "after_cleaning sc s i (ks @ ?slow) ?slow ?w (fold (clean_node sc s i) todo ?w)"
        using n Cons.IH [of ks ?w] Cons.prems(1) by simp
      then show ?thesis
        using n [unfolded if_not_P [OF False]] \<open>sc_prompt sc n\<close> w unfolding after_cleaning_def by simp
    qed
  next
    case False
    let ?w = "w\<lparr>sw_cleaning := sw_cleaning w @ [?c]\<rparr>"
    have w: "clean_node sc s i n w = ?w" using False by (simp add: clean_node_def Let_def)
    have aw: "awaits sc ?w = awaits sc w" by (simp add: awaits_def fun_eq_iff)
    then have "awaits sc ?w i = Some ((ks @ [n]) @ todo)" using Cons.prems(2) by simp
    then have "after_cleaning sc s i ((ks @ [n]) @ ?slow) ?slow ?w (fold (clean_node sc s i) todo ?w)"
      using Cons.IH [of "ks @ [n]" ?w] Cons.prems(1) by simp
    then show ?thesis
      using False w aw unfolding after_cleaning_def by simp
  qed
qed

lemma clean_nodes_tracking:
  assumes "distinct (sc_nodes sc)" and "hm_get (sw_cleaners w) (sc_scope sc) \<noteq> None" and "awaits sc w i = None"
  defines "slow \<equiv> filter (\<lambda>n. \<not> sc_prompt sc n) (sc_nodes sc)"
  shows "\<exists>w'. clean_nodes sc s i w = (w', Inr ()) \<and> after_cleaning sc s i slow slow w w'"
proof (cases "sc_nodes sc = []")
  case True
  then show ?thesis
    using assms(3) by (auto simp: clean_nodes_def after_cleaning_def slow_def node_cleanup_def awaits_def fun_eq_iff)
next
  case False
  obtain contents where c: "hm_get (sw_cleaners w) (sc_scope sc) = Some contents" using assms(2) by blast
  let ?w = "w\<lparr>sw_cleaners := hm_insert (sc_scope sc) (add_cleanup i (sc_nodes sc) contents) (sw_cleaners w)\<rparr>"
  have aw: "awaits sc ?w = (awaits sc w)(i := Some (sc_nodes sc))"
    using c by (auto simp: awaits_def awaited_def add_cleanup_def fun_eq_iff)
  have "after_cleaning sc s i ([] @ slow) slow ?w (fold (clean_node sc s i) (sc_nodes sc) ?w)"
    unfolding slow_def using fold_clean_nodes [of "[]" "sc_nodes sc" sc ?w i s] assms(1) aw False by simp
  then have "after_cleaning sc s i slow slow w (fold (clean_node sc s i) (sc_nodes sc) ?w)"
    using aw by (simp add: after_cleaning_def)
  then show ?thesis using False c by (simp add: clean_nodes_def Let_def)
qed

text \<open>Adding an entry under a fresh id keeps the invariant.\<close>

lemma tracked_add:
  assumes "tracked sc w" and "after_cleaning sc s (aw_id a) slow slow (w\<lparr>sw_awaiting := sw_awaiting w @ [a]\<rparr>) w'"
    and a: "aw_session a = s" "aw_workflows a = None" "known_session w s (aw_parent a)"
    and early: "finish_is_early_cleanup (aw_status a) \<Longrightarrow> cu_cleaner (aw_cleanup a) \<noteq> sc_scope sc"
    and fresh: "aw_id a \<notin> aw_id ` set (sw_awaiting w)" "s \<notin> aw_session ` set (sw_awaiting w)"
    and slow: "distinct slow"
  shows "tracked sc w'"
proof -
  let ?i = "aw_id a"
  obtain c where c: "cu_cleaner c = sc_scope sc" "cu_session c = s" "cu_id c = ?i"
    "sw_cleanup_finished w' = sw_cleanup_finished w @ (if slow = [] then [c] else [])"
    using assms(2) by (auto simp: after_cleaning_def)
  have W: "waits w' b \<longleftrightarrow> waits w b \<or> b = a" for b
    using assms(2) a(2) by (auto simp: after_cleaning_def waits_def)
  have A: "awaits sc w' = (awaits sc w)(?i := if slow = [] then None else Some slow)"
    using assms(2) by (simp add: after_cleaning_def awaits_def fun_eq_iff)
  have An: "answers sc w' = answers sc w @ (if slow = [] then [c] else [])"
    using c by (simp add: answers_def)
  have C: "sw_cleaning w' = sw_cleaning w @ map (node_cleanup sc s ?i) slow"
    "sw_awaiting w' = sw_awaiting w @ [a]" "sw_parents w' = sw_parents w" "sw_next_entity w' = sw_next_entity w"
    using assms(2) by (simp_all add: after_cleaning_def)
  have K: "known_session w' = known_session w"
    using assms(2) by (simp add: after_cleaning_def known_session_def fun_eq_iff)
  have new: "aw_id b \<noteq> ?i \<and> aw_session b \<noteq> s" if "waits w b" for b
    using that fresh by (metis image_eqI waits_def)
  note T = assms(1) [unfolded tracked_def]
  show ?thesis
    unfolding tracked_def
  proof (intro conjI)
    show "\<forall>a. waits w' a \<longrightarrow> known_session w' (aw_session a) (aw_parent a)"
      using T a by (auto simp: W K)
    show "\<forall>a ns. waits w' a \<and> awaits sc w' (aw_id a) = Some ns \<longrightarrow>
        ns \<noteq> [] \<and> (\<forall>n\<in>set ns. node_cleanup sc (aw_session a) (aw_id a) n \<in> set (sw_cleaning w'))"
      using T new by (auto simp: W A C a split: if_splits)
    show "\<forall>a. waits w' a \<and> awaits sc w' (aw_id a) = None \<longrightarrow> aw_session a \<in> cu_session ` set (answers sc w')"
      using T new c by (auto simp: W A An a split: if_splits)
    show "\<forall>c\<in>set (sw_cleaning w'). \<exists>a n ns. waits w' a \<and> c = node_cleanup sc (aw_session a) (aw_id a) n \<and>
        awaits sc w' (aw_id a) = Some ns \<and> n \<in> set ns"
    proof
      fix d assume "d \<in> set (sw_cleaning w')"
      then consider "d \<in> set (sw_cleaning w)" | n where "n \<in> set slow" "d = node_cleanup sc s ?i n"
        by (auto simp: C)
      then show "\<exists>a n ns. waits w' a \<and> d = node_cleanup sc (aw_session a) (aw_id a) n \<and>
          awaits sc w' (aw_id a) = Some ns \<and> n \<in> set ns"
      proof cases
        case 1
        then obtain b n ns where "waits w b" "d = node_cleanup sc (aw_session b) (aw_id b) n"
          "awaits sc w (aw_id b) = Some ns" "n \<in> set ns"
          using T by blast
        then show ?thesis using new [of b] by (auto simp: W A intro!: exI [of _ b])
      next
        case 2
        then show ?thesis by (auto simp: W A a intro!: exI [of _ a])
      qed
    qed
    have "node_cleanup sc s ?i n \<notin> set (sw_cleaning w)" for n
    proof
      assume "node_cleanup sc s ?i n \<in> set (sw_cleaning w)"
      then obtain b n' where "waits w b" "node_cleanup sc s ?i n = node_cleanup sc (aw_session b) (aw_id b) n'"
        using T by blast
      then show False using new by (auto simp: node_cleanup_def)
    qed
    then show "distinct (sw_cleaning w')"
      using T slow by (auto simp: C distinct_map inj_on_def node_cleanup_def)
    show "\<forall>c\<in>set (answers sc w'). \<exists>a. waits w' a \<and> cu_session c = aw_session a \<and> cu_id c = aw_id a
        \<and> awaits sc w' (aw_id a) = None"
    proof
      fix d assume "d \<in> set (answers sc w')"
      then consider "d \<in> set (answers sc w)" | "slow = []" "d = c" by (auto simp: An split: if_splits)
      then show "\<exists>a. waits w' a \<and> cu_session d = aw_session a \<and> cu_id d = aw_id a \<and> awaits sc w' (aw_id a) = None"
      proof cases
        case 1
        then obtain b where "waits w b" "cu_session d = aw_session b" "cu_id d = aw_id b" "awaits sc w (aw_id b) = None"
          using T by blast
        then show ?thesis using new [of b] by (auto simp: W A intro!: exI [of _ b])
      next
        case 2
        then show ?thesis using c by (auto simp: W A a intro!: exI [of _ a])
      qed
    qed
    have "s \<notin> cu_session ` set (answers sc w)" using T new by fastforce
    then show "distinct (map cu_session (answers sc w'))" using T c by (auto simp: An)
    show "\<forall>i. awaits sc w' i \<noteq> None \<longrightarrow> (\<exists>a. waits w' a \<and> aw_id a = i)"
      using T by (auto simp: A W split: if_splits)
    show "\<forall>a\<in>set (sw_awaiting w'). finish_is_early_cleanup (aw_status a) \<longrightarrow> cu_cleaner (aw_cleanup a) \<noteq> sc_scope sc"
      using T early by (auto simp: C)
    show "\<forall>s parent. known_session w' s parent \<longrightarrow> hm_get (sw_parents w') s = Some parent \<and> s < sw_next_entity w'"
      using T by (auto simp: K C)
  qed
qed

subsection \<open>Starting a cleanup\<close>

lemma open_not_ended:
  assumes "scope_ok sc w" and "is_open s w"
  shows "s \<notin> aw_session ` set (sw_awaiting w)"
proof
  assume "s \<in> aw_session ` set (sw_awaiting w)"
  then have "s \<in> set (ended_sessions (lifecycle_of w))"
    by (force simp: ended_sessions_def lifecycle_of_def)
  then show False using assms by (auto simp: scope_ok_def lifecycle_ok_def lifecycle_of_def)
qed

lemma clean_node_sessions:
  "sw_sessions (fold (clean_node sc s i) ns w) = sw_sessions w"
  by (induction ns arbitrary: w) (simp_all add: clean_node_def attempt_def scope_notify_def Let_def split: prod.split)

lemma clean_nodes_sessions: "clean_nodes sc s i w = (w', r) \<Longrightarrow> sw_sessions w' = sw_sessions w"
  by (auto simp: clean_nodes_def Let_def clean_node_sessions split: if_splits option.splits)

lemma growing_cleanup_session:
  assumes "distinct (sc_nodes sc)" and "growing sc w" and known: "\<exists>parent. known_session w s parent"
    and early: "finish_is_early_cleanup st \<Longrightarrow> cu_cleaner c \<noteq> sc_scope sc"
  defines "w' \<equiv> fst (cleanup_session sc c st s w)"
  shows "growing sc w' \<and> sw_sessions w' = sw_sessions w"
proof -
  have ok: "scope_ok sc w" using assms(2) by (simp add: growing_def)
  then have ok': "scope_ok sc w'"
    unfolding w'_def using keepsD [OF keeps_scope_ok [OF follows_cleanup_session]] by blast
  show ?thesis
  proof (cases "is_open s w \<and> hm_get (sw_parents w) s \<noteq> None")
    case True
    then obtain parent where p: "hm_get (sw_parents w) s = Some parent" by blast
    let ?a = "\<lparr>aw_session = s, aw_parent = parent, aw_cleanup = c, aw_status = st, aw_workflows = None, aw_finished = []\<rparr>"
    let ?w = "w\<lparr>sw_awaiting := sw_awaiting w @ [?a]\<rparr>"
    let ?slow = "filter (\<lambda>n. \<not> sc_prompt sc n) (sc_nodes sc)"
    have aw: "awaits sc ?w = awaits sc w" by (simp add: awaits_def fun_eq_iff)
    obtain v where v: "session_status_of s w = Some v" "\<not> is_cleaning v"
      using True by (auto simp: is_open_def split: option.splits)
    have dom: "hm_get (sw_cleaners ?w) (sc_scope sc) \<noteq> None" using ok by (simp add: scope_ok_def)
    obtain w2 where w2: "clean_nodes sc s (cu_id c) ?w = (w2, Inr ())" "sw_messages w2 = sw_messages w" "quiet ?w w2"
      using quiet_clean_nodes [OF dom, of s "cu_id c"] by auto
    have run: "w' = set_session_status s (Some Cleaning) w2"
      using v w2 p unfolding w'_def
      by (simp add: cleanup_session_def ebind_def or_error_def modify_def session_status_of_def)
    have awaiting: "sw_awaiting w' = sw_awaiting w @ [?a]"
      using w2(3) by (simp add: run quiet_def set_session_status_def)
    have sessions: "sw_sessions w2 = sw_sessions w" using clean_nodes_sessions [OF w2(1)] by simp
    have "tracked sc w'" if ids: "ids_distinct w'"
    proof -
      have fresh: "ids_distinct w" "cu_id c \<notin> aw_id ` set (sw_awaiting w)"
        using ids awaiting by (auto simp: ids_distinct_def aw_id_def)
      then have t: "tracked sc w" using assms(2) by (simp add: growing_def)
      have "awaits sc w (cu_id c) = None"
        using tracked_awaits [OF t, of "cu_id c"] fresh(2) by (metis image_eqI waits_def)
      then have "after_cleaning sc s (cu_id c) ?slow ?slow ?w w2"
        using clean_nodes_tracking [OF assms(1) dom, of "cu_id c" s] w2(1) by (simp add: aw)
      then have cleaned: "after_cleaning sc s (aw_id ?a) ?slow ?slow ?w w2" by (simp add: aw_id_def)
      obtain parent' where "known_session w s parent'" using known by blast
      then have "known_session w s parent" using tracked_known [OF t] p by fastforce
      then have "tracked sc w2"
        by (intro tracked_add [OF t cleaned])
          (use early fresh open_not_ended [OF ok] True assms(1) in \<open>simp_all add: aw_id_def\<close>)
      moreover have "same_tracking w2 w'" by (simp add: run same_tracking_def set_session_status_def)
      ultimately show ?thesis using tracked_same by blast
    qed
    then show ?thesis using ok' sessions by (simp add: growing_def run set_session_status_def)
  next
    case False
    then have "w' = w" unfolding w'_def
      by (auto simp: cleanup_session_def ebind_def or_error_def modify_def is_open_def ok_or_def split: option.splits)
    then show ?thesis using assms(2) by simp
  qed
qed

lemma growing_cleanup_entire_scope:
  fixes w :: "('t, 'c, 'l) scope_world"
  assumes "distinct (sc_nodes sc)" and "growing sc w" and "\<forall>s \<in> set ss. \<exists>parent. known_session w s parent"
    and "finish_is_early_cleanup st \<Longrightarrow> cu_cleaner c \<noteq> sc_scope sc"
  shows "growing sc (fst (cleanup_entire_scope sc c st ss w))"
proof -
  let ?P = "\<lambda>v :: ('t, 'c, 'l) scope_world. growing sc v \<and> sw_sessions v = sw_sessions w"
  have "keeps ?P (cleanup_session sc c st s)" if "s \<in> set ss" for s
  proof (rule keepsI)
    fix v :: "('t, 'c, 'l) scope_world" assume v: "?P v"
    have "\<exists>parent. known_session v s parent" using assms(3) that v by (simp add: known_session_def)
    then show "?P (fst (cleanup_session sc c st s v))"
      using growing_cleanup_session [OF assms(1) _ _ assms(4), of v s] v by simp
  qed
  then have "keeps ?P (cleanup_entire_scope sc c st ss)"
    unfolding cleanup_entire_scope_def by (intro keeps_each)
  then show ?thesis using keepsD [of ?P "cleanup_entire_scope sc c st ss" w] assms(2) by simp
qed

lemma scope_ok_keeps: "(\<And>l. keeps (follows sc l) m) \<Longrightarrow> scope_ok sc w \<Longrightarrow> scope_ok sc (fst (m w))"
  by (rule keepsD [OF keeps_scope_ok])

lemma same_tracking_sessions:
  "map (\<lambda>p. (ss_scoped p, ss_parent p)) ss = map (\<lambda>p. (ss_scoped p, ss_parent p)) (sw_sessions w) \<Longrightarrow>
     same_tracking w (w\<lparr>sw_sessions := ss\<rparr>)"
  by (simp add: same_tracking_def)

lemma known_same: "same_tracking w w' \<Longrightarrow> known_session w' = known_session w"
  unfolding same_tracking_def known_session_def by (simp only: fun_eq_iff) simp

lemma known_found: "find (\<lambda>p. ss_scoped p = s) (sw_sessions w) = Some p \<Longrightarrow> known_session w s (ss_parent p)"
  by (auto simp: known_session_def find_Some_iff in_set_conv_nth intro!: image_eqI [where x = p])

lemma known_member: "p \<in> set (sw_sessions w) \<Longrightarrow> known_session w (ss_scoped p) (ss_parent p)"
  by (auto simp: known_session_def)

lemma known_member_ex: "p \<in> set (sw_sessions w) \<Longrightarrow> Ex (known_session w (ss_scoped p))"
  using known_member by blast

lemma growing_ok: "growing sc w \<Longrightarrow> scope_ok sc w"
  by (simp add: growing_def)

lemma scope_ok_sessions: "scope_ok sc w \<Longrightarrow> scope_ok sc (w\<lparr>sw_sessions := ss\<rparr>)"
  by (rule quiet_same_status [OF _ quiet_sessions])

lemma scope_ok_stage:
  "scope_ok sc w \<Longrightarrow> hm_get (sw_staging w) s = None \<Longrightarrow>
     scope_ok sc (w\<lparr>sw_staging := hm_insert s input (sw_staging w)\<rparr>)"
  using follows_stage [of sc "lifecycle_of w" w s input] by (simp add: follows_def)

lemma change_sessions_frame:
  assumes "change_sessions P f (sw_sessions w) = (ss, relevant)"
  shows "same_tracking w (w\<lparr>sw_sessions := ss\<rparr>)
    \<and> (\<forall>s \<in> set (map ss_scoped relevant). \<exists>parent. known_session w s parent)"
  using assms by (auto simp: change_sessions_def intro!: same_tracking_sessions intro: known_member_ex)

lemma growing_cleanup_after:
  assumes "distinct (sc_nodes sc)" and "growing sc w" and "same_tracking w w1" and "scope_ok sc w1"
    and "\<forall>s \<in> set ss. \<exists>parent. known_session w s parent"
    and "finish_is_early_cleanup st \<Longrightarrow> cu_cleaner c \<noteq> sc_scope sc"
  shows "growing sc (fst (cleanup_entire_scope sc c st ss w1))"
  by (rule growing_cleanup_entire_scope [OF assms(1) growing_same [OF assms(3,4,2)] _ assms(6)])
    (use assms(5) known_same [OF assms(3)] in simp)

lemma growing_terminate_with:
  assumes "distinct (sc_nodes sc)" and g: "growing sc w"
  shows "growing sc (fst (terminate_with sc input w))"
proof (cases "hm_get (sw_staging w) (in_session input) = None")
  case True
  let ?s = "in_session input"
  let ?w = "w\<lparr>sw_staging := hm_insert ?s input (sw_staging w)\<rparr>"
  have ok: "scope_ok sc w" using g by (simp add: growing_def)
  then have ok1: "scope_ok sc (?w\<lparr>sw_sessions := ss\<rparr>)" for ss
    by (intro scope_ok_sessions scope_ok_stage True)
  have same: "same_tracking w (?w\<lparr>sw_sessions := update_first (\<lambda>p. ss_scoped p = ?s)
      (\<lambda>p. p\<lparr>ss_status := st\<rparr>) (sw_sessions w)\<rparr>)" for st
    by (simp add: same_tracking_def) (rule map_update_first, simp)
  have "growing sc ?w"
    using ok1 [of "sw_sessions w"] by (intro growing_same [OF _ _ g]) (simp_all add: same_tracking_def)
  moreover have "growing sc (fst (cleanup_entire_scope sc c FinishTerminated [?s] (?w\<lparr>sw_sessions :=
      update_first (\<lambda>p. ss_scoped p = ?s) (\<lambda>p. p\<lparr>ss_status := st\<rparr>) (sw_sessions w)\<rparr>)))"
    if "find (\<lambda>p. ss_scoped p = ?s) (sw_sessions w) = Some p" for c st p
    by (intro growing_cleanup_after [OF assms(1) g same ok1]) (use known_found [OF that] in auto)
  moreover have "growing sc (?w\<lparr>sw_sessions :=
      update_first (\<lambda>p. ss_scoped p = ?s) (\<lambda>p. p\<lparr>ss_status := st\<rparr>) (sw_sessions w)\<rparr>)" for st
    by (rule growing_same [OF same ok1 g])
  ultimately show ?thesis
    using True by (simp add: terminate_with_def Let_def split: option.split prod.split)
qed (use g in \<open>simp add: terminate_with_def\<close>)

lemma tracked_foreign:
  assumes "awaits sc w' = awaits sc w" "answers sc w' = answers sc w" "known_session w' = known_session w"
    "sw_cleaning w' = sw_cleaning w" "sw_awaiting w' = sw_awaiting w" "sw_parents w' = sw_parents w"
    "sw_next_entity w' = sw_next_entity w"
  shows "tracked sc w' = tracked sc w \<and> ids_distinct w' = ids_distinct w"
proof -
  have "waits w' = waits w" using assms(5) by (simp add: waits_def fun_eq_iff)
  then show ?thesis using assms unfolding tracked_def ids_distinct_def by (simp only:)
qed

lemma notify_foreign:
  assumes "cu_cleaner c \<noteq> sc_scope sc"
  shows "tracked sc (fst (scope_notify c w)) = tracked sc w
    \<and> ids_distinct (fst (scope_notify c w)) = ids_distinct w"
proof (rule tracked_foreign)
  obtain m fs r where n: "notify_cleaner c (sw_cleaners w, sw_cleanup_finished w) = ((m, fs), r)"
    by (metis surj_pair)
  have w': "fst (scope_notify c w) = w\<lparr>sw_cleaners := m, sw_cleanup_finished := fs\<rparr>" by (simp add: scope_notify_def n)
  show "awaits sc (fst (scope_notify c w)) = awaits sc w"
    using notify_cleaner_cases [OF n] assms unfolding w'
    by (auto simp: awaits_def Let_def fun_eq_iff split: option.splits)
  show "answers sc (fst (scope_notify c w)) = answers sc w"
    using notify_cleaner_cases [OF n] assms unfolding w'
    by (auto simp: answers_def Let_def split: option.splits if_splits)
qed (auto simp: scope_notify_def known_session_def fun_eq_iff split: prod.split)

lemma growing_early_cleanup:
  assumes "distinct (sc_nodes sc)" and g: "growing sc w" and c: "cu_cleaner c \<noteq> sc_scope sc"
  shows "growing sc (fst (early_cleanup sc c w))"
proof -
  let ?w = "w\<lparr>sw_messages := cleanup_inputs (sc_scope sc) (cu_session c) (sw_messages w)\<rparr>"
  obtain ss relevant where ch: "change_sessions (\<lambda>p. ss_parent p = cu_session c)
      (to_cleanup (sc_uninterruptible sc)) (sw_sessions w) = (ss, relevant)" by fastforce
  note frame = change_sessions_frame [OF ch]
  have ok: "scope_ok sc w" using g by (simp add: growing_def)
  have ok1: "scope_ok sc (?w\<lparr>sw_sessions := ss\<rparr>)"
    by (rule quiet_same_status [OF quiet_same_status [OF ok quiet_cleanup_inputs] quiet_sessions])
  have same: "same_tracking w (?w\<lparr>sw_sessions := ss\<rparr>)" using frame by (simp add: same_tracking_def)
  show ?thesis
  proof (cases "relevant = []")
    case True
    then have e: "fst (early_cleanup sc c w) = fst (scope_notify c (?w\<lparr>sw_sessions := ss\<rparr>))"
      using ch by (simp add: early_cleanup_def Let_def)
    have "scope_ok sc (fst (scope_notify c (?w\<lparr>sw_sessions := ss\<rparr>)))"
      by (rule scope_ok_keeps [OF follows_notify ok1])
    then show ?thesis
      using g notify_foreign [OF c, of "?w\<lparr>sw_sessions := ss\<rparr>"] tracked_same [OF same]
      unfolding e growing_def by simp
  next
    case False
    then have "fst (early_cleanup sc c w) =
        fst (cleanup_entire_scope sc c FinishEarlyCleanup (map ss_scoped relevant) (?w\<lparr>sw_sessions := ss\<rparr>))"
      using ch by (simp add: early_cleanup_def Let_def)
    then show ?thesis
      using growing_cleanup_after [OF assms(1) g same ok1] frame c by simp
  qed
qed

lemma growing_cancel_one:
  assumes "distinct (sc_nodes sc)" and g: "growing sc w"
  shows "growing sc (fst (cancel_one sc s c w))"
proof -
  obtain ss relevant where ch: "change_sessions (\<lambda>p. ss_scoped p = s \<or> ss_parent p = s)
      to_cancelled (sw_sessions w) = (ss, relevant)" by fastforce
  note frame = change_sessions_frame [OF ch]
  have ok1: "scope_ok sc (w\<lparr>sw_sessions := ss\<rparr>)"
    by (intro scope_ok_sessions growing_ok g)
  have "growing sc (fst (cleanup_entire_scope sc c' (FinishCancelled c) (map ss_scoped relevant) (w\<lparr>sw_sessions := ss\<rparr>)))" for c'
    by (rule growing_cleanup_after [OF assms(1) g _ ok1]) (use frame in simp_all)
  then show ?thesis
    using growing_same [OF _ ok1 g] frame ch by (simp add: cancel_one_def Let_def)
qed

lemma growing_receive_cancel:
  assumes "distinct (sc_nodes sc)" and g: "growing sc w"
  shows "growing sc (fst (receive_cancel sc s c w))"
proof (cases s)
  case None
  have "growing sc (fold (\<lambda>s. attempt (cancel_one sc s c)) ss w)" for ss
    by (rule fold_keeps [where P = "growing sc"]) (use growing_cancel_one [OF assms(1)] g in \<open>simp_all add: attempt_def\<close>)
  then show ?thesis using None by (simp add: receive_cancel_def)
qed (use growing_cancel_one [OF assms] in \<open>simp add: receive_cancel_def\<close>)

lemma growing_validate:
  assumes "distinct (sc_nodes sc)" and g: "growing sc w"
  shows "growing sc (fst (validate_scope_reachability sc env s w))"
proof -
  let ?w = "\<lambda>st. w\<lparr>sw_sessions := update_first (\<lambda>p. ss_scoped p = s) (\<lambda>p. p\<lparr>ss_status := st\<rparr>) (sw_sessions w)\<rparr>"
  have same: "same_tracking w (?w st)" for st by (rule same_tracking_sessions) (rule map_update_first, simp)
  have ok: "scope_ok sc (?w st)" for st by (intro scope_ok_sessions growing_ok g)
  have fst_ebind: "fst (ebind m (\<lambda>_ w. (w, Inr x)) v) = fst (m v)" for m :: "('a, 'b, 'c, unit) scope_operation" and x :: bool and v
    by (simp add: ebind_def split: prod.split sum.split)
  have "growing sc (fst (cleanup_entire_scope sc c (FinishCancelled cc) [s] (?w st)))"
    if "find (\<lambda>p. ss_scoped p = s) (sw_sessions w) = Some p" for c cc st p
    by (rule growing_cleanup_after [OF assms(1) g same ok]) (use known_found [OF that] in auto)
  then show ?thesis
    using g growing_same [OF same ok g]
    by (simp add: validate_scope_reachability_def Let_def fst_ebind split: option.split prod.split)
qed

subsection \<open>Beginning a session\<close>

lemma growing_quiet:
  "growing sc w \<Longrightarrow> quiet w w' \<Longrightarrow> same_tracking w w' \<Longrightarrow> growing sc w'"
  by (rule growing_same [OF _ quiet_same_status]) (auto dest: growing_ok)

lemma same_tracking_give: "same_tracking w (fst (scope_give s target data w))"
  by (simp add: scope_give_def same_tracking_def split: prod.split)

lemma same_tracking_messages: "same_tracking w (fst (on_messages f w))"
  by (simp add: on_messages_def same_tracking_def split: prod.split)

lemma same_tracking_despawn: "same_tracking w (despawn_session s w)"
  by (simp add: despawn_session_def same_tracking_def)

lemma tracked_spawn:
  assumes "tracked sc w" and "spawn_session parent w = (w', s)"
  shows "tracked sc w'"
proof -
  have w': "w' = set_session_status s (Some Active)
      (w\<lparr>sw_next_entity := Suc s, sw_parents := (s, parent) # sw_parents w\<rparr>)" "s = sw_next_entity w"
    using assms(2) by (auto simp: spawn_session_def Let_def)
  have eqs: "waits w' = waits w" "awaits sc w' = awaits sc w" "answers sc w' = answers sc w"
    "known_session w' = known_session w" "sw_cleaning w' = sw_cleaning w" "sw_awaiting w' = sw_awaiting w"
    by (auto simp: w'(1) set_session_status_def tracking_defs fun_eq_iff)
  have "\<forall>x p. known_session w x p \<longrightarrow> hm_get (sw_parents w') x = Some p \<and> x < sw_next_entity w'"
    using tracked_known [OF assms(1)] by (fastforce simp: w' set_session_status_def)
  then show ?thesis using assms(1) unfolding tracked_def eqs by blast
qed

lemma growing_spawn:
  assumes "growing sc w" and "spawn_session parent w = (w', s)"
  shows "growing sc w' \<and> hm_get (sw_parents w') s = Some parent \<and> s < sw_next_entity w'"
proof -
  have "scope_ok sc w'"
    using follows_spawn [OF _ assms(2), of sc "lifecycle_of w"] growing_ok [OF assms(1)] by (simp add: follows_def)
  moreover have "ids_distinct w' = ids_distinct w" "hm_get (sw_parents w') s = Some parent \<and> s < sw_next_entity w'"
    using assms(2) by (auto simp: spawn_session_def Let_def set_session_status_def ids_distinct_def)
  ultimately show ?thesis using tracked_spawn [OF _ assms(2)] assms(1) by (simp add: growing_def)
qed

lemma growing_add_session:
  assumes g: "growing sc w" and "hm_get (sw_parents w) s = Some parent" and "s < sw_next_entity w"
  shows "growing sc (w\<lparr>sw_sessions := sw_sessions w @ [session_ongoing parent s req]\<rparr>)"
proof -
  let ?w = "w\<lparr>sw_sessions := sw_sessions w @ [session_ongoing parent s req]\<rparr>"
  have eqs: "waits ?w = waits w" "awaits sc ?w = awaits sc w" "answers sc ?w = answers sc w"
    "sw_cleaning ?w = sw_cleaning w" "sw_awaiting ?w = sw_awaiting w" "sw_parents ?w = sw_parents w"
    "sw_next_entity ?w = sw_next_entity w"
    by (auto simp: tracking_defs fun_eq_iff)
  have k: "known_session ?w x p \<longleftrightarrow> known_session w x p \<or> (x = s \<and> p = parent)" for x p
    by (auto simp: known_session_def session_ongoing_def)
  have "tracked sc ?w" if "tracked sc w"
    using that assms(2,3) unfolding tracked_def eqs k by blast
  then show ?thesis
    using g scope_ok_sessions [OF growing_ok [OF g]] by (simp add: growing_def ids_distinct_def)
qed

lemma growing_begin_scope:
  assumes "distinct (sc_nodes sc)" and g: "growing sc w"
    and "hm_get (sw_parents w) s = Some (in_session input)" and "s < sw_next_entity w"
  shows "growing sc (fst (begin_scope sc env input s w))"
proof -
  obtain w1 r1 where w1: "begin_scope_impl sc input s w = (w1, r1)" by fastforce
  have "growing sc w1"
  proof -
    have "w1 = fst (scope_give s (sc_enter sc) (in_data input) (w\<lparr>sw_sessions := sw_sessions w @
        [session_ongoing (in_session input) s
         \<lparr>rq_session = in_session input, rq_source = sc_scope sc, rq_seq = in_seq input\<rparr>]\<rparr>))"
      using w1 by (simp add: begin_scope_impl_def ebind_def modify_def)
    then show ?thesis
      using growing_quiet [OF growing_add_session [OF g assms(3,4)] quiet_scope_give same_tracking_give] by simp
  qed
  moreover have "growing sc (despawn_session s w1)"
    by (rule growing_quiet [OF \<open>growing sc w1\<close> quiet_despawn same_tracking_despawn])
  moreover have "growing sc (fst (check_begun_scope sc env s w1))"
  proof -
    have initial: "growing sc (u\<lparr>sw_initial := x\<rparr>)" if "growing sc u" for u :: "('a, 'b, 'c) scope_world" and x
      by (rule growing_quiet [OF that quiet_initial]) (simp add: same_tracking_def)
    have "growing sc (fst (ebind (validate_scope_reachability sc env s) (\<lambda>_. modify id) w1))"
      using growing_validate [OF assms(1) \<open>growing sc w1\<close>, of env s]
      by (auto simp: ebind_def modify_def split: prod.split sum.split)
    moreover have "growing sc (fst (ebind (validate_scope_reachability sc env s)
        (\<lambda>b. modify (\<lambda>w. w\<lparr>sw_initial := Some (if b then Confirmed else Invalidated)\<rparr>)) w1))"
      using growing_validate [OF assms(1) \<open>growing sc w1\<close>, of env s] initial
      by (auto simp: ebind_def modify_def split: prod.split sum.split)
    ultimately show ?thesis
      using \<open>growing sc w1\<close> growing_cancel_one [OF assms(1) \<open>growing sc w1\<close>]
        growing_cancel_one [OF assms(1) initial [OF \<open>growing sc w1\<close>]]
      by (auto simp: check_begun_scope_def split: option.split initial_reachability.split)
  qed
  ultimately show ?thesis by (simp add: begin_scope_def w1 split: sum.split)
qed

subsection \<open>Ending a cleanup\<close>

lemma tracked_shrink:
  assumes "tracked sc w" and "waits w' = waits w" "awaits sc w' = awaits sc w" "answers sc w' = answers sc w"
    "sw_cleaning w' = sw_cleaning w" "sw_parents w' = sw_parents w" "sw_next_entity w' = sw_next_entity w"
    and "\<forall>b \<in> set (sw_awaiting w'). \<exists>a \<in> set (sw_awaiting w). aw_cleanup b = aw_cleanup a
      \<and> finish_is_early_cleanup (aw_status b) = finish_is_early_cleanup (aw_status a)"
    and "\<forall>s p. known_session w' s p \<longrightarrow> known_session w s p"
    and "\<forall>a. waits w a \<longrightarrow> known_session w' (aw_session a) (aw_parent a)"
  shows "tracked sc w'"
proof -
  have "\<forall>a\<in>set (sw_awaiting w'). finish_is_early_cleanup (aw_status a) \<longrightarrow> cu_cleaner (aw_cleanup a) \<noteq> sc_scope sc"
    using tracked_early [OF assms(1)] assms(8) by fastforce
  moreover have "\<forall>s p. known_session w' s p \<longrightarrow> hm_get (sw_parents w) s = Some p \<and> s < sw_next_entity w"
    using tracked_known [OF assms(1)] assms(9) by blast
  ultimately show ?thesis using assms(1,10) unfolding tracked_def assms(2-7) by blast
qed

text \<open>\<open>ending sc a w\<close>: the entry \<open>a\<close> is no longer waiting, and no waiting entry is about its session.\<close>

definition ending :: "'t scope_structure \<Rightarrow> 'c awaiting_cleanup \<Rightarrow> ('t, 'c, 'l) scope_world \<Rightarrow> bool" where
  "ending sc a w \<longleftrightarrow> tracked sc w \<and> ids_distinct w
     \<and> (\<forall>b. waits w b \<longrightarrow> aw_session b \<noteq> aw_session a)
     \<and> (\<forall>b \<in> set (sw_awaiting w). aw_id b = aw_id a \<longrightarrow> finish_is_early_cleanup (aw_status b) \<longrightarrow>
          cu_cleaner (aw_cleanup a) \<noteq> sc_scope sc)"

lemma ending_same: "same_tracking w w' \<Longrightarrow> ending sc a w \<Longrightarrow> ending sc a w'"
  using tracked_same [of w w' sc] by (simp add: ending_def same_tracking_def waits_def)

lemma settled_inj:
  assumes "settled sc w" and "a \<in> set (sw_awaiting w)" and "b \<in> set (sw_awaiting w)"
    and "aw_session b = aw_session a \<or> aw_id b = aw_id a"
  shows "b = a"
proof -
  have "distinct (map aw_session (sw_awaiting w))" "distinct (map aw_id (sw_awaiting w))"
    using assms(1) by (auto simp: settled_def scope_ok_def lifecycle_ok_def ended_sessions_def lifecycle_of_def
        o_def ids_distinct_def)
  then show ?thesis using assms(2-4) by (auto simp: distinct_map dest: inj_onD)
qed

lemma ending_start:
  assumes "settled sc w" and "a \<in> set (sw_awaiting w)" and "aw_workflows a \<noteq> None"
  shows "ending sc a w"
proof -
  have "waits w b \<Longrightarrow> aw_session b \<noteq> aw_session a" for b
    using settled_inj [OF assms(1,2), of b] assms(3) by (auto simp: waits_def)
  moreover have "tracked sc w" using assms(1) by (simp add: settled_def)
  ultimately show ?thesis
    using assms settled_inj [OF assms(1,2)] tracked_early [OF \<open>tracked sc w\<close>] by (auto simp: ending_def settled_def)
qed

lemma ending_remove:
  assumes "ending sc a w" and "index < length (sw_awaiting w)" and a: "a = sw_awaiting w ! index"
    and "aw_workflows a \<noteq> None"
  shows "ending sc a (fst (remove_awaiting index a req w))"
proof (cases "finish_is_early_cleanup (aw_status a)")
  case False
  let ?rest = "take index (sw_awaiting w) @ drop (Suc index) (sw_awaiting w)"
  have split: "sw_awaiting w = take index (sw_awaiting w) @ a # drop (Suc index) (sw_awaiting w)"
    unfolding a by (rule id_take_nth_drop [OF assms(2)])
  let ?w = "w\<lparr>sw_awaiting := ?rest\<rparr>"
  have set: "set (sw_awaiting w) = insert a (set ?rest)"
    by (subst split) auto
  have waits: "waits ?w = waits w" using set assms(4) by (auto simp: waits_def fun_eq_iff)
  have others: "awaits sc ?w = awaits sc w" "answers sc ?w = answers sc w" "known_session ?w = known_session w"
    by (auto simp: tracking_defs fun_eq_iff)
  have "tracked sc ?w"
  proof (rule tracked_shrink [of sc w])
    show "tracked sc w" using assms(1) by (simp add: ending_def)
    then show "\<forall>a. waits w a \<longrightarrow> known_session ?w (aw_session a) (aw_parent a)"
      using tracked_waits_known others by metis
  qed (use waits others set in auto)
  moreover have "ids_distinct ?w"
  proof -
    have "distinct (map aw_id (take index (sw_awaiting w) @ a # drop (Suc index) (sw_awaiting w)))"
      using assms(1) split by (simp add: ending_def ids_distinct_def)
    then show ?thesis by (auto simp: ids_distinct_def)
  qed
  ultimately have "ending sc a ?w" using assms(1) waits set by (simp add: ending_def)
  moreover have "same_tracking ?w (fst (remove_awaiting index a req w))"
    using False by (cases "aw_status a") (simp_all add: remove_awaiting_def Let_def report_cancelled_def same_tracking_def)
  ultimately show ?thesis by (rule ending_same [rotated])
qed (use assms(1) in \<open>simp add: remove_awaiting_def\<close>)

lemma ending_notify_parent:
  assumes "ending sc a w"
  shows "ending sc a (fst (notify_parent a w))"
proof (cases "parent_is_clean a w")
  case True
  let ?w = "w\<lparr>sw_awaiting := filter (\<lambda>b. aw_parent b \<noteq> aw_parent a) (sw_awaiting w)\<rparr>"
  have tracked: "tracked sc w" using assms by (simp add: ending_def)
  have "aw_parent b \<noteq> aw_parent a" if b: "waits w b" for b
  proof -
    obtain p where "p \<in> set (sw_sessions w)" "ss_scoped p = aw_session b" "ss_parent p = aw_parent b"
      using tracked_waits_known [OF tracked b] by (auto simp: known_session_def)
    moreover have "aw_session b \<noteq> aw_session a" using assms b by (simp add: ending_def)
    ultimately show ?thesis using True by (auto simp: parent_is_clean_def Let_def list_ex_iff)
  qed
  then have waits: "waits ?w = waits w" by (auto simp: waits_def fun_eq_iff)
  have others: "awaits sc ?w = awaits sc w" "answers sc ?w = answers sc w" "known_session ?w = known_session w"
    by (auto simp: tracking_defs fun_eq_iff)
  have "tracked sc ?w"
    by (rule tracked_shrink [OF tracked waits])
      (use others tracked_waits_known [OF tracked] in auto)
  moreover have "ids_distinct ?w" using assms by (simp add: ending_def ids_distinct_def distinct_map_filter)
  ultimately have e: "ending sc a ?w" using assms waits by (auto simp: ending_def)
  have c: "cu_cleaner (aw_cleanup a) \<noteq> sc_scope sc"
    using assms True by (auto simp: ending_def parent_is_clean_def Let_def list_ex_iff aw_id_def)
  have "ending sc a (fst (scope_notify (aw_cleanup a) ?w))"
    using e notify_foreign [OF c, of ?w] unfolding ending_def
    by (simp add: waits_def scope_notify_def split: prod.splits)
  then show ?thesis using True by (simp add: notify_parent_def)
qed (use assms in \<open>simp add: notify_parent_def\<close>)

lemma ending_deliver: "ending sc a w \<Longrightarrow> ending sc a (fst (deliver_result a target w))"
proof -
  assume e: "ending sc a w"
  have "same_tracking w (fst (deliver_result a target w))"
  proof (cases "finish_is_terminated (aw_status a) \<and> hm_get (sw_staging w) (aw_session a) \<noteq> None")
    case True
    then obtain input where input: "hm_get (sw_staging w) (aw_session a) = Some input" by blast
    let ?w = "w\<lparr>sw_staging := AList.delete (aw_session a) (sw_staging w)\<rparr>"
    obtain w1 r where w1: "scope_give (aw_parent a) target (in_data input) ?w = (w1, r)" by fastforce
    have "same_tracking ?w w1" using same_tracking_give [of ?w "aw_parent a" target "in_data input"] w1 by simp
    then have "same_tracking w w1" by (simp add: same_tracking_def)
    then show ?thesis
      using True input w1
      by (cases r) (simp_all add: deliver_result_def ebind_def modify_def same_tracking_def)
  qed (auto simp: deliver_result_def split: option.split)
  then show ?thesis using e by (rule ending_same)
qed

lemma ending_forget:
  assumes "ending sc a w"
  shows "tracked sc (forget_session sc (aw_session a) b w) \<and> ids_distinct (forget_session sc (aw_session a) b w)"
proof -
  let ?w = "w\<lparr>sw_sessions := filter (\<lambda>p. ss_scoped p \<noteq> aw_session a) (sw_sessions w)\<rparr>"
  have tracked: "tracked sc w" using assms by (simp add: ending_def)
  have others: "waits ?w = waits w" "awaits sc ?w = awaits sc w" "answers sc ?w = answers sc w"
    by (auto simp: tracking_defs fun_eq_iff)
  have known: "known_session ?w s p \<longleftrightarrow> known_session w s p \<and> s \<noteq> aw_session a" for s p
    by (auto simp: known_session_def)
  have "tracked sc ?w"
    by (rule tracked_shrink [OF tracked others])
      (use assms known tracked_waits_known [OF tracked] in \<open>auto simp: ending_def\<close>)
  moreover have "same_tracking ?w (forget_session sc (aw_session a) b w)"
    by (simp add: forget_session_def same_tracking_def despawn_session_def)
  moreover have "ids_distinct ?w" using assms by (simp add: ending_def ids_distinct_def)
  ultimately show ?thesis using tracked_same by blast
qed

lemma settled_finalize:
  assumes s: "settled sc w"
    and phase: "index < length (sw_awaiting w) \<Longrightarrow> aw_workflows (sw_awaiting w ! index) \<noteq> None"
  shows "settled sc (fst (finalize_scoped_session sc index w))"
proof -
  have "scope_ok sc (fst (finalize_scoped_session sc index w))"
    by (rule scope_ok_keeps [OF follows_finalize]) (use s in \<open>simp add: settled_def\<close>)
  moreover have "tracked sc (fst (finalize_scoped_session sc index w))
      \<and> ids_distinct (fst (finalize_scoped_session sc index w))"
  proof -
    let ?a = "sw_awaiting w ! index"
    have start: "tracked sc w \<and> ids_distinct w" using s by (simp add: settled_def)
    obtain w1 r1 where exit: "take_exit (aw_session ?a) w = (w1, r1)" by fastforce
    then have same: "same_tracking w w1" by (auto simp: take_exit_def Let_def same_tracking_def split: option.splits)
    then have w1: "sw_awaiting w1 = sw_awaiting w" by (simp add: same_tracking_def)
    have start1: "tracked sc w1 \<and> ids_distinct w1" using start tracked_same [OF same] by simp
    show ?thesis
    proof (cases "index < length (sw_awaiting w) \<and> \<not> isl r1 \<and> find (\<lambda>p. ss_scoped p = aw_session ?a) (sw_sessions w1) \<noteq> None")
      case True
      then obtain target blocker pair where r: "r1 = Inr (target, blocker)"
        "find (\<lambda>p. ss_scoped p = aw_session ?a) (sw_sessions w1) = Some pair"
        by (cases r1) auto
      have index: "index < length (sw_awaiting w1)" "?a = sw_awaiting w1 ! index" "aw_workflows ?a \<noteq> None"
        using True phase by (simp_all add: w1)
      have "ending sc ?a w1"
        by (rule ending_same [OF same ending_start [OF s]]) (use True index(3) in simp_all)
      then have e2: "ending sc ?a (fst (remove_awaiting index ?a req w1))" for req
        by (rule ending_remove [OF _ index])
      have final: "tracked sc (fst (end_session sc index ?a req target blocker w1))
          \<and> ids_distinct (fst (end_session sc index ?a req target blocker w1))" for req
      proof -
        obtain w2 r2 where w2: "remove_awaiting index ?a req w1 = (w2, r2)" by fastforce
        obtain w3 r3 where w3: "notify_parent ?a w2 = (w3, r3)" by fastforce
        obtain w4 r4 where w4: "deliver_result ?a target w3 = (w4, r4)" by fastforce
        have e2: "ending sc ?a w2" using e2 [of req] w2 by simp
        then have e3: "ending sc ?a w3" using ending_notify_parent [of sc ?a w2] w3 by simp
        then have e4: "ending sc ?a w4" using ending_deliver [of sc ?a w3 target] w4 by simp
        show ?thesis
          using e2 e3 e4 ending_forget [OF e4, of blocker] w2 w3 w4
          by (cases r2; cases r3; cases r4) (auto simp: end_session_def ebind_def modify_def ending_def)
      qed
      moreover have "finalize_scoped_session sc index w = end_session sc index ?a
          (case blocker of Some b \<Rightarrow> bl_request_id b | None \<Rightarrow> ss_request_id pair) target blocker w1"
        unfolding finalize_scoped_session_def using True exit r by (simp add: ebind_Inr or_error_def)
      ultimately show ?thesis by simp
    next
      case False
      then show ?thesis
        using start start1 exit
        by (cases r1)
          (auto simp: finalize_scoped_session_def ebind_def or_error_def isl_def ok_or_def split: option.splits)
    qed
  qed
  ultimately show ?thesis by (simp add: settled_def)
qed

subsection \<open>Answers and triggers\<close>

lemma settled_waits_inj:
  "settled sc w \<Longrightarrow> waits w a \<Longrightarrow> waits w b \<Longrightarrow> aw_session b = aw_session a \<or> aw_id b = aw_id a \<Longrightarrow> b = a"
  using settled_inj unfolding waits_def by blast

lemma settled_node_cleaned:
  assumes s: "settled sc w" and c: "c \<in> set (sw_cleaning w)"
  defines "w' \<equiv> fst (scope_notify c (w\<lparr>sw_cleaning := remove1 c (sw_cleaning w)\<rparr>))"
  shows "tracked sc w' \<and> ids_distinct w'"
proof -
  have t: "tracked sc w" using s by (simp add: settled_def)
  obtain a n ns where a: "waits w a" "c = node_cleanup sc (aw_session a) (aw_id a) n"
    "awaits sc w (aw_id a) = Some ns" "n \<in> set ns"
    using tracked_cleaning [OF t c] by blast
  let ?w = "w\<lparr>sw_cleaning := remove1 c (sw_cleaning w)\<rparr>" and ?rest = "filter (\<lambda>m. m \<noteq> n) ns"
  have "awaits sc ?w = awaits sc w" by (simp add: awaits_def fun_eq_iff)
  then have step: "awaits sc w' = (awaits sc w)(aw_id a := if ?rest = [] then None else Some ?rest)"
    "sw_cleanup_finished w' = sw_cleanup_finished w @ (if ?rest = [] then [c] else [])"
    "sw_cleaning w' = remove1 c (sw_cleaning w)" "sw_awaiting w' = sw_awaiting w"
    "sw_sessions w' = sw_sessions w" "sw_parents w' = sw_parents w" "sw_next_entity w' = sw_next_entity w"
    using awaits_notify [of sc ?w "aw_id a" ns c "aw_session a" n] a(2,3) by (simp_all add: w'_def)
  have W: "waits w' = waits w" and K: "known_session w' = known_session w"
    by (auto simp: waits_def known_session_def step fun_eq_iff)
  have An: "answers sc w' = answers sc w @ (if ?rest = [] then [c] else [])"
    using a(2) by (simp add: answers_def step node_cleanup_def)
  note T = t [unfolded tracked_def]
  have C: "set (sw_cleaning w') = set (sw_cleaning w) - {c}" using T by (simp add: step)
  have inj: "aw_id b = aw_id a \<or> aw_session b = aw_session a \<longleftrightarrow> b = a" if "waits w b" for b
    using settled_waits_inj [OF s a(1) that] by auto
  have no_answer: "aw_session a \<notin> cu_session ` set (answers sc w)"
  proof
    assume "aw_session a \<in> cu_session ` set (answers sc w)"
    then obtain b where b: "waits w b" "aw_session b = aw_session a" "awaits sc w (aw_id b) = None"
      using tracked_answers [OF t] by (metis imageE)
    then show False using inj [OF b(1)] a(3) by auto
  qed
  have "tracked sc w'"
    unfolding tracked_def
  proof (intro conjI)
    show "\<forall>a. waits w' a \<longrightarrow> known_session w' (aw_session a) (aw_parent a)" using T by (simp add: W K)
    show "\<forall>b ns. waits w' b \<and> awaits sc w' (aw_id b) = Some ns \<longrightarrow>
        ns \<noteq> [] \<and> (\<forall>n\<in>set ns. node_cleanup sc (aw_session b) (aw_id b) n \<in> set (sw_cleaning w'))"
    proof (intro allI impI)
      fix b ns' assume b: "waits w' b \<and> awaits sc w' (aw_id b) = Some ns'"
      show "ns' \<noteq> [] \<and> (\<forall>n\<in>set ns'. node_cleanup sc (aw_session b) (aw_id b) n \<in> set (sw_cleaning w'))"
      proof (cases "b = a")
        case True
        then have "ns' = ?rest" "?rest \<noteq> []" using b by (auto simp: step split: if_splits)
        moreover have "\<forall>m\<in>set ns. node_cleanup sc (aw_session a) (aw_id a) m \<in> set (sw_cleaning w)"
          using T a by blast
        ultimately show ?thesis using True a(2) by (auto simp: C node_cleanup_def)
      next
        case False
        then have "aw_id b \<noteq> aw_id a" "aw_session b \<noteq> aw_session a" using inj b W by auto
        then show ?thesis using T b a(2) by (auto simp: step W C node_cleanup_def)
      qed
    qed
    show "\<forall>b. waits w' b \<and> awaits sc w' (aw_id b) = None \<longrightarrow> aw_session b \<in> cu_session ` set (answers sc w')"
    proof (intro allI impI)
      fix b assume b: "waits w' b \<and> awaits sc w' (aw_id b) = None"
      show "aw_session b \<in> cu_session ` set (answers sc w')"
      proof (cases "b = a")
        case True
        then have "?rest = []" using b by (auto simp: step split: if_splits)
        then show ?thesis using True a(2) by (simp add: An node_cleanup_def)
      next
        case False
        then have "awaits sc w (aw_id b) = None" using inj [of b] b by (simp add: step W)
        then show ?thesis using T b by (auto simp: W An)
      qed
    qed
    show "\<forall>d\<in>set (sw_cleaning w'). \<exists>b m ms. waits w' b \<and> d = node_cleanup sc (aw_session b) (aw_id b) m \<and>
        awaits sc w' (aw_id b) = Some ms \<and> m \<in> set ms"
    proof
      fix d assume "d \<in> set (sw_cleaning w')"
      then have d: "d \<in> set (sw_cleaning w)" "d \<noteq> c" by (auto simp: C)
      then obtain b m ms where b: "waits w b" "d = node_cleanup sc (aw_session b) (aw_id b) m"
        "awaits sc w (aw_id b) = Some ms" "m \<in> set ms"
        using tracked_cleaning [OF t] by blast
      show "\<exists>b m ms. waits w' b \<and> d = node_cleanup sc (aw_session b) (aw_id b) m \<and>
          awaits sc w' (aw_id b) = Some ms \<and> m \<in> set ms"
      proof (cases "b = a")
        case True
        then have "m \<noteq> n" "m \<in> set ns" using b d a by auto
        then have "m \<in> set ?rest" by simp
        moreover from this have "?rest \<noteq> []" by force
        ultimately show ?thesis using True b by (auto simp: W step intro!: exI [of _ a])
      next
        case False
        then have "awaits sc w' (aw_id b) = Some ms" using inj [OF b(1)] b(3) by (simp add: step)
        then show ?thesis using b by (auto simp: W)
      qed
    qed
    show "distinct (sw_cleaning w')" using T by (simp add: step)
    show "\<forall>d\<in>set (answers sc w'). \<exists>b. waits w' b \<and> cu_session d = aw_session b \<and> cu_id d = aw_id b
        \<and> awaits sc w' (aw_id b) = None"
    proof
      fix d assume d: "d \<in> set (answers sc w')"
      show "\<exists>b. waits w' b \<and> cu_session d = aw_session b \<and> cu_id d = aw_id b \<and> awaits sc w' (aw_id b) = None"
      proof (cases "d \<in> set (answers sc w)")
        case True
        then obtain b where b: "waits w b" "cu_session d = aw_session b" "cu_id d = aw_id b" "awaits sc w (aw_id b) = None"
          using tracked_answers [OF t] by blast
        then have "aw_id b \<noteq> aw_id a" using a(3) by auto
        then show ?thesis using b by (auto simp: W step)
      next
        case False
        then have "d = c" "?rest = []" using d by (auto simp: An split: if_splits)
        then show ?thesis using a by (auto simp: W step node_cleanup_def)
      qed
    qed
    show "distinct (map cu_session (answers sc w'))"
      using T no_answer a(2) by (auto simp: An node_cleanup_def)
    show "\<forall>i. awaits sc w' i \<noteq> None \<longrightarrow> (\<exists>b. waits w' b \<and> aw_id b = i)"
      using T a(1) by (auto simp: W step split: if_splits)
    show "\<forall>b\<in>set (sw_awaiting w'). finish_is_early_cleanup (aw_status b) \<longrightarrow> cu_cleaner (aw_cleanup b) \<noteq> sc_scope sc"
      using T by (simp add: step)
    show "\<forall>s parent. known_session w' s parent \<longrightarrow> hm_get (sw_parents w') s = Some parent \<and> s < sw_next_entity w'"
      using T by (simp add: K step)
  qed
  then show ?thesis using s by (simp add: settled_def ids_distinct_def step)
qed

lemma set_update_first_filter: "filter P xs = [x] \<Longrightarrow> set (update_first P f xs) = insert (f x) (set xs - {x})"
proof (induction xs)
  case (Cons z xs)
  have "x \<in> set (filter P (z # xs))" using Cons.prems by simp
  then have "P x" by (auto split: if_splits)
  then show ?case using Cons by (auto simp: filter_empty_conv split: if_splits)
qed simp

lemma filter_only: "distinct xs \<Longrightarrow> x \<in> set xs \<Longrightarrow> filter (\<lambda>y. y = x) xs = [x]"
  by (induction xs) (auto simp: filter_empty_conv)

lemma distinct_map_snoc: "distinct (map f (xs @ [x])) \<Longrightarrow> f x \<notin> f ` set xs"
  by auto

lemma quiet_forget: "quiet w (w\<lparr>sw_cleanup_finished := cs, sw_cleaners := forget_cleanup c (sw_cleaners w)\<rparr>)"
proof -
  have "dom (hm_get (forget_cleanup c m)) = dom (hm_get m)" for m
    by (auto simp: forget_cleanup_def split: option.split)
  then show ?thesis by (simp add: quiet_def is_open_def session_status_of_def)
qed

definition triggered :: "'t scope_structure \<Rightarrow> cleanup \<Rightarrow> cleanup list \<Rightarrow> ('t, 'c, 'l) scope_world \<Rightarrow> ('t, 'c, 'l) scope_world" where
  "triggered sc c cs w = w\<lparr>sw_cleanup_finished := cs, sw_cleaners := forget_cleanup c (sw_cleaners w),
     sw_awaiting := update_first (\<lambda>a. aw_session a = cu_session c) (\<lambda>a. a\<lparr>aw_workflows := Some []\<rparr>) (sw_awaiting w)\<rparr>"

lemma settled_triggered:
  assumes s: "settled sc w" and cs: "sw_cleanup_finished w = cs @ [c]" and c: "cu_cleaner c = sc_scope sc"
  shows "settled sc (triggered sc c cs w)"
proof -
  let ?w = "triggered sc c cs w"
  have t: "tracked sc w" using s by (simp add: settled_def)
  have An: "answers sc w = answers sc ?w @ [c]" using cs c by (simp add: answers_def triggered_def)
  then obtain a where a: "waits w a" "cu_session c = aw_session a" "cu_id c = aw_id a" "awaits sc w (aw_id a) = None"
    using tracked_answers [OF t, of c] by auto
  have inj: "aw_id b = aw_id a \<or> aw_session b = aw_session a \<longleftrightarrow> b = a" if "b \<in> set (sw_awaiting w)" for b
    using settled_inj [OF s _ that, of a] a(1) by (auto simp: waits_def)
  have "distinct (sw_awaiting w)" using s by (auto simp: settled_def ids_distinct_def distinct_map)
  then have set: "set (sw_awaiting ?w) = insert (a\<lparr>aw_workflows := Some []\<rparr>) (set (sw_awaiting w) - {a})"
  proof -
    have "a \<in> set (sw_awaiting w)" using a(1) by (simp add: waits_def)
    then have "filter (\<lambda>b. b = a) (sw_awaiting w) = [a]" using \<open>distinct (sw_awaiting w)\<close> by (rule filter_only [rotated])
    moreover have "filter (\<lambda>b. aw_session b = cu_session c) (sw_awaiting w) = filter (\<lambda>b. b = a) (sw_awaiting w)"
      by (rule filter_cong) (use inj a(2) in auto)
    ultimately show ?thesis by (simp add: triggered_def set_update_first_filter)
  qed
  have "aw_workflows a = None" using a(1) by (simp add: waits_def)
  then have "a\<lparr>aw_workflows := Some []\<rparr> \<noteq> a" by (cases a) simp
  then have W: "waits ?w b \<longleftrightarrow> waits w b \<and> b \<noteq> a" for b
    using a(1) by (auto simp: waits_def set)
  have A: "awaits sc ?w = awaits sc w"
    using a(3,4) c by (auto simp: awaits_def triggered_def awaited_forget fun_eq_iff)
  have K: "known_session ?w = known_session w" and C: "sw_cleaning ?w = sw_cleaning w"
    "sw_parents ?w = sw_parents w" "sw_next_entity ?w = sw_next_entity w"
    by (auto simp: triggered_def known_session_def fun_eq_iff)
  note T = t [unfolded tracked_def]
  have "tracked sc ?w"
    unfolding tracked_def
  proof (intro conjI)
    show "\<forall>b. waits ?w b \<longrightarrow> known_session ?w (aw_session b) (aw_parent b)" using T by (simp add: W K)
    show "\<forall>b ns. waits ?w b \<and> awaits sc ?w (aw_id b) = Some ns \<longrightarrow>
        ns \<noteq> [] \<and> (\<forall>n\<in>set ns. node_cleanup sc (aw_session b) (aw_id b) n \<in> set (sw_cleaning ?w))"
      using tracked_cleaners [OF t] unfolding W A C by blast
    show "\<forall>b. waits ?w b \<and> awaits sc ?w (aw_id b) = None \<longrightarrow> aw_session b \<in> cu_session ` set (answers sc ?w)"
    proof (intro allI impI)
      fix b assume b: "waits ?w b \<and> awaits sc ?w (aw_id b) = None"
      then have "aw_session b \<in> cu_session ` set (answers sc w)" using T by (simp add: W A)
      moreover have "aw_session b \<noteq> aw_session a" using inj [of b] b W [of b] by (simp add: waits_def)
      ultimately show "aw_session b \<in> cu_session ` set (answers sc ?w)" using a(2) by (auto simp: An)
    qed
    show "\<forall>d\<in>set (sw_cleaning ?w). \<exists>b m ms. waits ?w b \<and> d = node_cleanup sc (aw_session b) (aw_id b) m \<and>
        awaits sc ?w (aw_id b) = Some ms \<and> m \<in> set ms"
    proof
      fix d assume "d \<in> set (sw_cleaning ?w)"
      then obtain b m ms where b: "waits w b" "d = node_cleanup sc (aw_session b) (aw_id b) m"
        "awaits sc w (aw_id b) = Some ms" "m \<in> set ms"
        using tracked_cleaning [OF t] C by metis
      then have "b \<noteq> a" using a(4) by auto
      then show "\<exists>b m ms. waits ?w b \<and> d = node_cleanup sc (aw_session b) (aw_id b) m \<and>
          awaits sc ?w (aw_id b) = Some ms \<and> m \<in> set ms"
        using b unfolding W A by blast
    qed
    show "distinct (sw_cleaning ?w)" using T by (simp add: C)
    have dist: "distinct (map cu_session (answers sc ?w @ [c]))" using T by (simp only: An)
    then show "distinct (map cu_session (answers sc ?w))" by simp
    show "\<forall>d\<in>set (answers sc ?w). \<exists>b. waits ?w b \<and> cu_session d = aw_session b \<and> cu_id d = aw_id b
        \<and> awaits sc ?w (aw_id b) = None"
    proof
      fix d assume d: "d \<in> set (answers sc ?w)"
      then obtain b where b: "waits w b" "cu_session d = aw_session b" "cu_id d = aw_id b" "awaits sc w (aw_id b) = None"
        using tracked_answers [OF t, of d] An by auto
      have "cu_session d \<noteq> cu_session c" using d dist by (metis distinct_map_snoc image_eqI)
      then have "b \<noteq> a" using b(2) a(2) by auto
      then show "\<exists>b. waits ?w b \<and> cu_session d = aw_session b \<and> cu_id d = aw_id b \<and> awaits sc ?w (aw_id b) = None"
        using b unfolding W A by blast
    qed
    show "\<forall>i. awaits sc ?w i \<noteq> None \<longrightarrow> (\<exists>b. waits ?w b \<and> aw_id b = i)"
      using T a(4) unfolding A W by metis
    show "\<forall>b\<in>set (sw_awaiting ?w). finish_is_early_cleanup (aw_status b) \<longrightarrow> cu_cleaner (aw_cleanup b) \<noteq> sc_scope sc"
      using T a(1) by (auto simp: set waits_def)
    show "\<forall>s parent. known_session ?w s parent \<longrightarrow> hm_get (sw_parents ?w) s = Some parent \<and> s < sw_next_entity ?w"
      using T by (simp add: K C)
  qed
  moreover have "ids_distinct ?w"
  proof -
    have "map aw_id (sw_awaiting ?w) = map aw_id (sw_awaiting w)"
      by (simp add: triggered_def) (rule map_update_first, simp add: aw_id_def)
    then show ?thesis using s by (simp add: settled_def ids_distinct_def)
  qed
  moreover have "scope_ok sc ?w"
  proof -
    have "follows sc (lifecycle_of w) w" using s by (simp add: settled_def follows_def)
    then have ok: "follows sc (lifecycle_of w) (w\<lparr>sw_cleanup_finished := cs, sw_cleaners := forget_cleanup c (sw_cleaners w)\<rparr>)"
      by (rule follows_quiet) (rule quiet_forget)
    have "follows sc (lifecycle_of w) ?w"
      unfolding triggered_def using follows_awaiting [OF ok] by (simp add: map_update_first)
    then show ?thesis by (simp add: follows_def)
  qed
  ultimately show ?thesis by (simp add: settled_def)
qed


subsection \<open>Cleanup workflows\<close>

text \<open>What the invariant reads of an entry: all of it while it waits, only its labels afterwards.\<close>

definition entry_view :: "'c awaiting_cleanup \<Rightarrow> entity \<times> closing_reason \<times> cleanup \<times> 'c awaiting_cleanup option" where
  "entry_view a = (aw_session a, closing_reason_of (aw_status a), aw_cleanup a,
     if aw_workflows a = None then Some a else None)"

lemma early_closing: "finish_is_early_cleanup st \<longleftrightarrow> closing_reason_of st = Cleaning_early"
  by (cases st) simp_all

lemma settled_entries:
  assumes s: "settled sc w" and same: "map entry_view as = map entry_view (sw_awaiting w)"
  shows "settled sc (w\<lparr>sw_awaiting := as\<rparr>)"
proof -
  let ?w = "w\<lparr>sw_awaiting := as\<rparr>"
  have view: "entry_view ` set as = entry_view ` set (sw_awaiting w)"
    using arg_cong [OF same, of set] by simp
  have through: "(\<exists>b. b \<in> set bs \<and> aw_workflows b = None \<and> b = a) \<longleftrightarrow> (\<exists>v \<in> entry_view ` set bs. snd (snd (snd v)) = Some a)"
    for bs a by (auto simp: entry_view_def split: if_splits)
  have waits: "waits ?w = waits w" using through [of as] through [of "sw_awaiting w"] view by (auto simp: waits_def fun_eq_iff)
  have others: "awaits sc ?w = awaits sc w" "answers sc ?w = answers sc w" "known_session ?w = known_session w"
    by (auto simp: tracking_defs fun_eq_iff)
  have t: "tracked sc w" using s by (simp add: settled_def)
  have "tracked sc ?w"
  proof (rule tracked_shrink [OF t waits])
    show "\<forall>b\<in>set (sw_awaiting ?w). \<exists>a\<in>set (sw_awaiting w). aw_cleanup b = aw_cleanup a
        \<and> finish_is_early_cleanup (aw_status b) = finish_is_early_cleanup (aw_status a)"
    proof
      fix b assume "b \<in> set (sw_awaiting ?w)"
      then have "entry_view b \<in> entry_view ` set (sw_awaiting w)" using view by auto
      then obtain a where "a \<in> set (sw_awaiting w)" "entry_view b = entry_view a" by auto
      then show "\<exists>a\<in>set (sw_awaiting w). aw_cleanup b = aw_cleanup a
          \<and> finish_is_early_cleanup (aw_status b) = finish_is_early_cleanup (aw_status a)"
        by (auto simp: entry_view_def early_closing)
    qed
  qed (use others tracked_waits_known [OF t] in auto)
  moreover have "map (\<lambda>v. cu_id (fst (snd (snd v)))) (map entry_view as)
      = map (\<lambda>v. cu_id (fst (snd (snd v)))) (map entry_view (sw_awaiting w))"
    by (rule arg_cong [OF same])
  then have "map aw_id as = map aw_id (sw_awaiting w)" by (simp add: o_def entry_view_def aw_id_def [abs_def])
  then have "ids_distinct ?w" using s by (simp add: settled_def ids_distinct_def)
  moreover have "map (\<lambda>v. (fst v, fst (snd v))) (map entry_view as)
      = map (\<lambda>v. (fst v, fst (snd v))) (map entry_view (sw_awaiting w))"
    by (rule arg_cong [OF same])
  then have "follows sc (lifecycle_of w) ?w"
    using s by (intro follows_awaiting) (simp_all add: o_def entry_view_def settled_def follows_def)
  ultimately show ?thesis by (simp add: settled_def follows_def)
qed

lemma settled_quiet: "settled sc w \<Longrightarrow> quiet w w' \<Longrightarrow> same_tracking w w' \<Longrightarrow> settled sc w'"
  by (rule settled_same [OF _ quiet_same_status]) (auto simp: settled_def)

lemma settled_start_workflow:
  assumes s: "settled sc w"
  shows "settled sc (fst (start_cleanup_workflow flow session w))"
proof -
  obtain w1 cs where w1: "spawn_session session w = (w1, cs)" by fastforce
  have "scope_ok sc w1" using follows_spawn [OF _ w1, of sc "lifecycle_of w"] s by (simp add: follows_def settled_def)
  moreover have "ids_distinct w1 = ids_distinct w"
    using w1 by (auto simp: spawn_session_def Let_def set_session_status_def ids_distinct_def)
  ultimately have s1: "settled sc w1" using tracked_spawn [OF _ w1] s by (simp add: settled_def)
  obtain w2 r where w2: "scope_give cs (cw_target flow) (cw_keys flow) w1 = (w2, r)" by fastforce
  have s2: "settled sc w2"
    using settled_quiet [OF s1 quiet_scope_give same_tracking_give] w2 by (metis fst_conv)
  have "settled sc (w2\<lparr>sw_awaiting := update_first (\<lambda>a. aw_session a = session)
      (\<lambda>a. a\<lparr>aw_workflows := map_option (\<lambda>ss. ss @ [cs]) (aw_workflows a)\<rparr>) (sw_awaiting w2)\<rparr>)"
  proof (intro settled_entries [OF s2] map_update_first)
    fix a :: "'b awaiting_cleanup"
    show "entry_view (a\<lparr>aw_workflows := map_option (\<lambda>ss. ss @ [cs]) (aw_workflows a)\<rparr>) = entry_view a"
      by (cases a) (simp add: entry_view_def)
  qed
  then show ?thesis
    using s2 w1 w2 by (cases r) (simp_all add: start_cleanup_workflow_def ebind_def modify_def)
qed

lemma settled_check_awaiting: "settled sc w \<Longrightarrow> settled sc (fst (check_awaiting_session sc session w))"
  by (simp add: check_awaiting_session_def Let_def settled_finalize)

lemma settled_trigger:
  assumes s: "settled sc w" and cs: "sw_cleanup_finished w = cs @ [c]"
  shows "settled sc (trigger_cleanup sc c (w\<lparr>sw_cleanup_finished := cs\<rparr>))"
proof (cases "cu_cleaner c = sc_scope sc")
  case True
  let ?w = "w\<lparr>sw_cleanup_finished := cs, sw_cleaners := forget_cleanup c (sw_cleaners w)\<rparr>"
  have "tracked sc w" using s by (simp add: settled_def)
  moreover have "c \<in> set (answers sc w)" using cs True by (simp add: answers_def)
  ultimately obtain a where "waits w a" "cu_session c = aw_session a" using tracked_answers by metis
  then obtain a where a: "find (\<lambda>a. aw_session a = cu_session c) (sw_awaiting w) = Some a"
    by (cases "find (\<lambda>a. aw_session a = cu_session c) (sw_awaiting w)") (auto simp: find_None_iff waits_def)
  have t: "settled sc (triggered sc c cs w)" by (rule settled_triggered [OF s cs True])
  have "settled sc (fold (\<lambda>flow. attempt (start_cleanup_workflow flow (cu_session c))) flows (triggered sc c cs w))" for flows
    by (rule fold_keeps [where P = "settled sc"]) (simp_all add: attempt_def settled_start_workflow t)
  then have "settled sc (fst (begin_cleanup_workflows sc c ?w))"
    using a by (simp add: begin_cleanup_workflows_def Let_def settled_check_awaiting triggered_def)
  then show ?thesis using True by (simp add: trigger_cleanup_def attempt_def)
next
  case False
  let ?w = "w\<lparr>sw_cleanup_finished := cs, sw_cleaners := forget_cleanup c (sw_cleaners w)\<rparr>"
  have "quiet w ?w" by (rule quiet_forget)
  moreover have "tracked sc ?w = tracked sc w \<and> ids_distinct ?w = ids_distinct w"
    using cs False
    by (intro tracked_foreign) (auto simp: answers_def awaits_def known_session_def awaited_forget fun_eq_iff)
  ultimately show ?thesis
    using False s quiet_same_status [of sc w ?w] by (simp add: trigger_cleanup_def settled_def)
qed

lemma settled_last:
  "settled sc w \<Longrightarrow> settled sc (fst (if aw_workflows (sw_awaiting w ! index) = Some []
     then finalize_scoped_session sc index w else (w, Inr ())))"
  by (simp add: settled_finalize)

lemma settled_deduct:
  assumes s: "settled sc w"
  shows "settled sc (fst (deduct_finished_cleanup sc req session inner w))"
proof -
  let ?w = "despawn_session session w"
  let ?mine = "\<lambda>a. case aw_workflows a of None \<Rightarrow> False | Some ss \<Rightarrow> session \<in> set ss"
  let ?index = "length (takeWhile (\<lambda>a. \<not> ?mine a) (sw_awaiting ?w))"
  have s1: "settled sc ?w" by (rule settled_quiet [OF s quiet_despawn same_tracking_despawn])
  have entry: "entry_view (a\<lparr>aw_finished := x, aw_workflows := map_option f (aw_workflows a),
      aw_status := (case (inner, aw_status a) of
        (Some c, FinishCancelled c') \<Rightarrow> FinishCancelled (push_while_cancelling c c') | (_, st) \<Rightarrow> st)\<rparr>) = entry_view a"
    if "aw_workflows a \<noteq> None" for a x f
    using that by (cases inner; cases "aw_status a") (auto simp: entry_view_def)
  show ?thesis
  proof (cases "?index < length (sw_awaiting ?w)")
    case True
    then have "?mine (sw_awaiting ?w ! ?index)" using nth_length_takeWhile [OF True] by simp
    then have "aw_workflows (sw_awaiting ?w ! ?index) \<noteq> None" by (auto split: option.splits)
    then have step: "settled sc (?w\<lparr>sw_awaiting := (sw_awaiting ?w)[?index := (sw_awaiting ?w ! ?index)
        \<lparr>aw_finished := x, aw_workflows := map_option f (aw_workflows (sw_awaiting ?w ! ?index)),
         aw_status := (case (inner, aw_status (sw_awaiting ?w ! ?index)) of
           (Some c, FinishCancelled c') \<Rightarrow> FinishCancelled (push_while_cancelling c c') | (_, st) \<Rightarrow> st)\<rparr>]\<rparr>)" for x f
      by (intro settled_entries [OF s1] map_list_update_same entry)
    have "\<not> length (sw_awaiting ?w) \<le> ?index" using True by simp
    then show ?thesis
      unfolding deduct_finished_cleanup_def Let_def by (simp only: if_False) (rule settled_last [OF step])
  qed (use s1 in \<open>simp add: deduct_finished_cleanup_def Let_def\<close>)
qed

lemma settled_cancel_cleanup:
  assumes "settled sc w"
  shows "settled sc (fst (receive_cleanup_workflow_cancellation sc session c w))"
proof -
  have "settled sc (fold (\<lambda>s. attempt (deduct_finished_cleanup sc None s (Some c))) ss w)" for ss
    by (rule fold_keeps [where P = "settled sc"]) (simp_all add: attempt_def settled_deduct assms)
  then show ?thesis
    using settled_deduct [OF assms] by (simp add: receive_cleanup_workflow_cancellation_def split: option.split)
qed

subsection \<open>Runs\<close>

lemma growing_message_step:
  assumes g: "growing sc w" and "\<And>input w. growing sc w \<Longrightarrow> growing sc (fst (f input w))"
  shows "growing sc (fst (ebind (on_messages (take_input source)) f w))"
proof -
  obtain w1 r where w1: "on_messages (take_input source) w = (w1, r)" by fastforce
  have "growing sc w1"
    using growing_quiet [OF g quiet_take_input same_tracking_messages] w1 by (metis fst_conv)
  then show ?thesis using w1 assms(2) by (cases r) (simp_all add: ebind_def)
qed

lemma settled_growing: "settled sc w \<Longrightarrow> growing sc w"
  by (simp add: settled_def growing_def)

lemma settled_step:
  assumes "scope_step sc w w'" and s: "settled sc w" and "distinct (sc_nodes sc)" and ids: "ids_distinct w'"
  shows "settled sc w'"
proof -
  note g = settled_growing [OF s]
  have ok: "scope_ok sc w'"
    using scope_step_follows [OF assms(1), of "lifecycle_of w"] s by (simp add: settled_def follows_def)
  have grown: ?thesis if "growing sc w'" using that ids by (simp add: growing_def settled_def)
  from assms(1) show ?thesis
  proof cases
    case (message session target data)
    then show ?thesis using settled_quiet [OF s quiet_scope_give same_tracking_give] by simp
  next
    case (enter env)
    have "growing sc (fst (begin_new_session sc env input v))" if "growing sc v" for input v
    proof -
      obtain v1 s where v1: "spawn_session (in_session input) v = (v1, s)" by fastforce
      then show ?thesis
        using growing_begin_scope [OF assms(3), of v1 s input env] growing_spawn [OF that v1]
        by (simp add: begin_new_session_def)
    qed
    then have "growing sc (fst (dyn_begin_scope sc env w))"
      unfolding dyn_begin_scope_def by (intro growing_message_step [OF g])
    then show ?thesis using enter by (intro grown) simp
  next
    case (workflow input w1 session env source target blocker)
    have g1: "growing sc w1" "hm_get (sw_parents w1) session = Some (in_session input)" "session < sw_next_entity w1"
      using growing_spawn [OF g workflow(2)] by auto
    have "growing sc (fst (begin_scope sc env input session (w1\<lparr>sw_exits := x\<rparr>)))" for x
      using growing_quiet [OF g1(1) quiet_exits, of x] g1
      by (intro growing_begin_scope [OF assms(3)]) (simp_all add: same_tracking_def)
    then show ?thesis
      using g1 workflow(1) by (intro grown) (simp add: begin_workflow_def split: option.split)
  next
    case terminate
    then show ?thesis
      using growing_message_step [OF g growing_terminate_with [OF assms(3)]]
      by (intro grown) (simp add: terminate_execute_def)
  next
    case (cancel session c)
    then show ?thesis using grown growing_receive_cancel [OF assms(3) g] by simp
  next
    case (validate env session)
    then show ?thesis using grown growing_validate [OF assms(3) g] by simp
  next
    case (clean c)
    then show ?thesis using grown growing_early_cleanup [OF assms(3) g] by simp
  next
    case (node_cleaned c)
    then show ?thesis using settled_node_cleaned [OF s] ok by (simp add: settled_def)
  next
    case (trigger cs c)
    then show ?thesis using settled_trigger [OF s] by simp
  next
    case finish_cleanup
    obtain w1 r where w1: "on_messages (take_input (sc_finish sc)) w = (w1, r)" by fastforce
    have "settled sc w1"
      using settled_quiet [OF s quiet_take_input same_tracking_messages] w1 by (metis fst_conv)
    then show ?thesis
      using w1 finish_cleanup by (cases r) (simp_all add: finish_cleanup_execute_def ebind_def settled_deduct)
  next
    case (cancel_cleanup session c)
    then show ?thesis using settled_cancel_cleanup [OF s] by simp
  next
    case (despawn session)
    then show ?thesis using settled_quiet [OF s quiet_despawn same_tracking_despawn] by simp
  qed
qed

text \<open>Runs of a scope in which no two sessions wait under one cleanup id.\<close>

inductive distinct_run ::
  "'t scope_structure \<Rightarrow> ('t, 'c, 'l) scope_world \<Rightarrow> ('t, 'c, 'l) scope_world \<Rightarrow> bool" for sc w where
  start: "distinct_run sc w w"
| step: "distinct_run sc w v \<Longrightarrow> scope_step sc v u \<Longrightarrow> ids_distinct u \<Longrightarrow> distinct_run sc w u"

lemma settled_run:
  "distinct_run sc w v \<Longrightarrow> distinct (sc_nodes sc) \<Longrightarrow> settled sc w \<Longrightarrow> settled sc v"
  by (induction rule: distinct_run.induct) (blast intro: settled_step)+

lemma settled_init:
  assumes "\<And>s. mw_status messages s \<noteq> None \<Longrightarrow> s < n"
  shows "settled sc (scope_init sc exits target messages cleaners n parents)"
  using scope_init_ok [of messages n sc exits target cleaners parents] assms
  by (simp add: settled_def tracked_def scope_init_def ids_distinct_def tracking_defs awaited_def)

end
