(* ===== verification/ScopeRuns.thy ===== *)
theory ScopeRuns
  imports Tracking
begin

text \<open>
  Runs of a scope: what every run guarantees, and concrete runs. The demonstration scope is entity
  100 with the endpoints 101 (enter), 102 (terminate), 103 (cancel) and 104 (finish cleanup); its
  only slow node is 105. Its result goes to 150. The parent session is 1, cleaned by the scope 200.
\<close>

subsection \<open>Concrete runs\<close>

datatype scope_event =
    Give entity entity nat
  | Enter
  | Terminate
  | Cancel entity
  | Clean
  | NodeCleaned
  | Trigger
  | FinishWorkflow

definition demo_scope :: "bool \<Rightarrow> nat scope_structure" where
  "demo_scope uninterruptible =
     \<lparr>sc_scope = 100, sc_enter = 101, sc_terminate = 102, sc_cancel = 103, sc_finish = 104,
      sc_nodes = [103, 105], sc_uninterruptible = uninterruptible, sc_workflows = [],
      sc_prompt = (\<lambda>n. n \<noteq> 105)\<rparr>"

definition demo_env :: "(nat, nat, nat) scope_environment" where
  "demo_env = \<lparr>en_reachable = (\<lambda>_ _. True), en_unreachable = (\<lambda>_ _. 0), en_circular = None\<rparr>"

definition demo_cleanup :: cleanup where
  "demo_cleanup = \<lparr>cu_cleaner = 200, cu_node = 100, cu_session = 1,
     cu_id = \<lparr>rq_session = 1, rq_source = 201, rq_seq = 0\<rparr>\<rparr>"

definition demo_messages :: "(nat, nat cancellation) message_world" where
  "demo_messages =
     \<lparr>mw_inputs = (\<lambda>e. if e \<in> {100, 101, 102, 104, 150} then Some \<lparr>ins_reverse_queue = [], ins_sequence = 0\<rparr> else None),
      mw_unused_target = (\<lambda>_. False), mw_detached = (\<lambda>_. None),
      mw_status = (\<lambda>s. if s = 1 then Some Active else None), mw_progress = (\<lambda>_. None),
      mw_cancelled = [], mw_mismatches = []\<rparr>"

definition scope_start :: "bool \<Rightarrow> (nat, nat, nat) scope_world" where
  "scope_start uninterruptible =
     scope_init (demo_scope uninterruptible) None (Some 150) demo_messages
       [(200, [(cu_id demo_cleanup, [100])])] 10 []"

definition scope_event ::
  "nat scope_structure \<Rightarrow> scope_event \<Rightarrow> (nat, nat, nat) scope_world \<Rightarrow> (nat, nat, nat) scope_world" where
  "scope_event sc e w =
     (case e of
        Give session target data \<Rightarrow> fst (scope_give session target data w)
      | Enter \<Rightarrow> fst (dyn_begin_scope sc demo_env w)
      | Terminate \<Rightarrow> fst (terminate_execute sc w)
      | Cancel session \<Rightarrow> fst (receive_cancel sc (Some session) (Cancellation 0 []) w)
      | Clean \<Rightarrow> fst (early_cleanup sc demo_cleanup w)
      | NodeCleaned \<Rightarrow> (case sw_cleaning w of [] \<Rightarrow> w
          | c # cs \<Rightarrow> fst (scope_notify c (w\<lparr>sw_cleaning := remove1 c (sw_cleaning w)\<rparr>)))
      | Trigger \<Rightarrow> (if sw_cleanup_finished w = [] then w
          else trigger_cleanup sc (last (sw_cleanup_finished w))
            (w\<lparr>sw_cleanup_finished := butlast (sw_cleanup_finished w)\<rparr>))
      | FinishWorkflow \<Rightarrow> fst (finish_cleanup_execute sc w))"

definition demo_scope_run :: "bool \<Rightarrow> scope_event list \<Rightarrow> (nat, nat, nat) scope_world" where
  "demo_scope_run uninterruptible es =
     fold (scope_event (demo_scope uninterruptible)) es (scope_start uninterruptible)"

lemma demo_step: "scope_step (demo_scope u) w (scope_event (demo_scope u) e w) \<or> scope_event (demo_scope u) e w = w"
proof (cases e)
  case Clean
  then show ?thesis
    by (simp add: scope_event_def) (rule disjI1, rule scope_step.clean, simp add: demo_cleanup_def demo_scope_def)
next
  case NodeCleaned
  then show ?thesis
    using scope_step.node_cleaned [of "hd (sw_cleaning w)" w "demo_scope u"]
    by (cases "sw_cleaning w") (simp_all add: scope_event_def)
next
  case Trigger
  have "sw_cleanup_finished w \<noteq> [] \<Longrightarrow>
      scope_step (demo_scope u) w (trigger_cleanup (demo_scope u) (last (sw_cleanup_finished w))
        (w\<lparr>sw_cleanup_finished := butlast (sw_cleanup_finished w)\<rparr>))"
    by (rule scope_step.trigger) simp
  then show ?thesis using Trigger by (simp add: scope_event_def)
qed (auto simp: scope_event_def intro: scope_step.intros)

lemma scope_start_reachable: "scope_reachable (demo_scope u) (scope_start u)"
  unfolding scope_start_def by (rule scope_reachable.init) (auto simp: demo_messages_def split: if_splits)

lemma demo_scope_steps: "(scope_step (demo_scope u))\<^sup>*\<^sup>* w (fold (scope_event (demo_scope u)) es w)"
proof (induction es arbitrary: w)
  case (Cons e es)
  have "(scope_step (demo_scope u))\<^sup>*\<^sup>* w (scope_event (demo_scope u) e w)"
    using demo_step [of u w e] by auto
  then show ?case using Cons by (simp add: rtranclp_trans)
qed simp

lemma scope_reachable_steps: "(scope_step sc)\<^sup>*\<^sup>* w w' \<Longrightarrow> scope_reachable sc w \<Longrightarrow> scope_reachable sc w'"
  by (induction rule: rtranclp_induct) (auto intro: scope_reachable.step)

lemma demo_scope_reachable: "scope_reachable (demo_scope u) (demo_scope_run u es)"
  unfolding demo_scope_run_def by (rule scope_reachable_steps [OF demo_scope_steps scope_start_reachable])

subsection \<open>Properties\<close>

text \<open>C4: a scope reports each of its sessions at most once. In every reachable state no scoped session has
  two outcomes, be it a delivered result or a cancellation, and a session that has an outcome is not
  waiting to be cleaned up.\<close>

theorem scope_reports_once:
  assumes "scope_reachable sc w"
  shows "distinct (map fst (sw_outcomes w))
    \<and> distinct (map aw_session (sw_awaiting w))
    \<and> fst ` set (sw_outcomes w) \<inter> aw_session ` set (sw_awaiting w) = {}"
  using scope_reachable_ok [OF assms]
  by (auto simp: scope_ok_def lifecycle_ok_def ended_sessions_def lifecycle_of_def o_def image_image)

lemma scope_reports_once_witness:
  "\<exists>w :: (nat, nat, nat) scope_world. sw_outcomes w = [(10, Delivered 77), (11, Disposed (Cancellation 0 []))] \<and> scope_reachable (demo_scope False) w
     \<and> distinct (map fst (sw_outcomes w))"
  (is "\<exists>w. ?P w")
proof -
  let ?es = "[Give 1 100 5, Give 1 100 6, Enter, Enter, Give 10 102 77, Terminate, NodeCleaned, Trigger,
    Cancel 11, NodeCleaned, Trigger]"
  have "sw_outcomes (demo_scope_run False ?es) = [(10, Delivered 77), (11, Disposed (Cancellation 0 []))]"
    by code_simp
  moreover have "distinct (map fst (sw_outcomes (demo_scope_run False ?es)))"
    using scope_reports_once [OF demo_scope_reachable [of False ?es]] by (rule conjunct1)
  ultimately have "?P (demo_scope_run False ?es)" by (intro conjI demo_scope_reachable)
  then show ?thesis by (rule exI [of ?P])
qed

text \<open>C9: the first output wins. Once an output is staged for a scoped session without an outcome, a result
  delivered for that session later, after any number of steps of any kind, is that output.\<close>

theorem first_output_wins:
  assumes "scope_reachable sc w" and "hm_get (sw_staging w) session = Some input"
    and "session \<notin> fst ` set (sw_outcomes w)"
    and "(scope_step sc)\<^sup>*\<^sup>* w w'" and "(session, Delivered result) \<in> set (sw_outcomes w')"
  shows "result = in_data input"
proof -
  have "first_output session (in_data input) (lifecycle_of w)"
    using scope_reachable_ok [OF assms(1)] assms(2,3)
    by (force simp: first_output_def scope_ok_def lifecycle_of_def)
  then have "first_output session (in_data input) (lifecycle_of w')"
    by (rule scope.transfer [OF _ assms(4) scope_reachable_ok [OF assms(1)], rotated]) (rule first_output_step)
  then show ?thesis using assms(5) by (auto simp: first_output_def lifecycle_of_def)
qed

lemma first_output_wins_witness:
  "\<exists>input. hm_get (sw_staging (demo_scope_run False
      [Give 1 100 5, Enter, Give 10 102 77, Give 10 102 78, Terminate])) 10 = Some input \<and> in_data input = 77"
proof -
  let ?es = "[Give 1 100 5, Enter, Give 10 102 77, Give 10 102 78, Terminate]"
    and ?later = "[Terminate, NodeCleaned, Trigger]"
  let ?w = "demo_scope_run False ?es" and ?w' = "demo_scope_run False (?es @ ?later)"
  have facts: "map_option in_data (hm_get (sw_staging ?w) 10) = Some 77" "sw_outcomes ?w = []"
    "sw_outcomes ?w' = [(10, Delivered 77)]"
    by code_simp+
  then obtain input where input: "hm_get (sw_staging ?w) 10 = Some input" by auto
  have steps: "(scope_step (demo_scope False))\<^sup>*\<^sup>* ?w ?w'"
    using demo_scope_steps [of False ?w ?later] by (simp only: demo_scope_run_def fold_append o_apply)
  have "in_data input = 77"
    by (rule sym, rule first_output_wins [OF demo_scope_reachable input _ steps]) (simp_all only: facts, simp_all)
  with input show ?thesis by blast
qed

text \<open>C23: no session is forgotten while it is cleaned up. As long as no two sessions are cleaned up under
  one cleanup id, a scoped session whose cleanup workflows have not begun waits for a node of the scope that
  has not finished its cleanup, or its finished cleanup is queued for the next flush.\<close>

theorem no_session_is_forgotten:
  assumes "\<And>s. mw_status messages s \<noteq> None \<Longrightarrow> s < n" and "distinct (sc_nodes sc)"
    and "distinct_run sc (scope_init sc exits target messages cleaners n parents) w"
    and "a \<in> set (sw_awaiting w)" and "aw_workflows a = None"
  shows "(\<exists>c \<in> set (sw_cleaning w). cu_cleaner c = sc_scope sc \<and> cu_session c = aw_session a)
    \<or> (\<exists>c \<in> set (sw_cleanup_finished w). cu_cleaner c = sc_scope sc \<and> cu_session c = aw_session a)"
proof -
  have t: "tracked sc w"
    using settled_run [OF assms(3,2) settled_init [OF assms(1)]] by (simp add: settled_def)
  have a: "waits w a" using assms(4,5) by (simp add: waits_def)
  show ?thesis
  proof (cases "awaits sc w (aw_id a)")
    case None
    then have "aw_session a \<in> cu_session ` set (answers sc w)" using t a by (simp add: tracked_def)
    then show ?thesis by (auto simp: answers_def)
  next
    case (Some ns)
    then obtain m where "node_cleanup sc (aw_session a) (aw_id a) m \<in> set (sw_cleaning w)"
      using tracked_cleaners [OF t a] by (metis list.set_intros(1) neq_Nil_conv)
    then show ?thesis by (force simp: node_cleanup_def)
  qed
qed

fun ids_stay_distinct :: "bool \<Rightarrow> scope_event list \<Rightarrow> (nat, nat, nat) scope_world \<Rightarrow> bool" where
  "ids_stay_distinct u [] w = True"
| "ids_stay_distinct u (e # es) w =
     (let w' = scope_event (demo_scope u) e w in ids_distinct w' \<and> ids_stay_distinct u es w')"

lemma distinct_run_trans: "distinct_run sc v u \<Longrightarrow> distinct_run sc w v \<Longrightarrow> distinct_run sc w u"
  by (induction rule: distinct_run.induct) (auto intro: distinct_run.step)

lemma demo_distinct_run:
  "ids_stay_distinct u es w \<Longrightarrow> distinct_run (demo_scope u) w (fold (scope_event (demo_scope u)) es w)"
proof (induction es arbitrary: w)
  case (Cons e es)
  let ?w = "scope_event (demo_scope u) e w"
  have "distinct_run (demo_scope u) w ?w"
    using Cons.prems demo_step [of u w e] distinct_run.start [of "demo_scope u" w]
    by (auto simp: Let_def intro: distinct_run.step)
  moreover have "distinct_run (demo_scope u) ?w (fold (scope_event (demo_scope u)) es ?w)"
    using Cons by (simp add: Let_def)
  ultimately show ?case by (simp add: distinct_run_trans)
qed (auto intro: distinct_run.start)

lemma no_session_is_forgotten_witness:
  "\<exists>c \<in> set (sw_cleaning (demo_scope_run False
      [Give 1 100 5, Give 1 100 6, Enter, Enter, Give 10 102 77, Terminate])). cu_session c = 10"
proof -
  let ?es = "[Give 1 100 5, Give 1 100 6, Enter, Enter, Give 10 102 77, Terminate]"
  let ?w = "demo_scope_run False ?es"
  have facts: "map (\<lambda>a. (aw_session a, aw_workflows a)) (sw_awaiting ?w) = [(10, None)]"
    "ids_stay_distinct False ?es (scope_start False)" "sw_cleanup_finished ?w = []"
    by code_simp+
  then obtain a where a: "a \<in> set (sw_awaiting ?w)" "aw_session a = 10" "aw_workflows a = None"
    by (auto simp: map_eq_Cons_conv)
  have init: "mw_status demo_messages s \<noteq> None \<Longrightarrow> s < 10" for s
    by (auto simp: demo_messages_def split: if_splits)
  have nodes: "distinct (sc_nodes (demo_scope False))" by (simp add: demo_scope_def)
  have run: "distinct_run (demo_scope False) (scope_init (demo_scope False) None (Some 150) demo_messages
      [(200, [(cu_id demo_cleanup, [100])])] 10 []) ?w"
    unfolding demo_scope_run_def scope_start_def [symmetric] by (rule demo_distinct_run [OF facts(2)])
  show ?thesis
    using no_session_is_forgotten [OF init nodes run a(1,3)] facts(3) a(2) by auto
qed

text \<open>The cleanup of a scope that is already finishing a session is lost. The parent cleans the scope
  while a terminated session of it waits for its nodes. Once everything has run, the scope has no session,
  no cleanup of its own is left and nothing is queued, but the parent still awaits the scope. Without the
  termination the same events notify the parent.\<close>

theorem cleanup_of_finishing_scope_is_lost:
  "(let w = demo_scope_run False [Give 1 100 5, Enter, Give 10 102 77, Terminate, Clean, NodeCleaned, Trigger]
    in sw_sessions w = [] \<and> sw_awaiting w = [] \<and> sw_cleaning w = [] \<and> sw_cleanup_finished w = []
      \<and> awaited (sw_cleaners w) 200 (cu_id demo_cleanup) = Some [100])
   \<and> (let w = demo_scope_run False [Give 1 100 5, Enter, Clean, NodeCleaned, Trigger]
    in sw_sessions w = [] \<and> sw_awaiting w = [] \<and> sw_cleanup_finished w = [demo_cleanup]
      \<and> awaited (sw_cleaners w) 200 (cu_id demo_cleanup) = None)"
  by code_simp

text \<open>Sessions cleaned up together can block each other. The parent cleans a scope with two sessions;
  both are cleaned under the parent's cleanup id, and the second registration replaces the first. Once every
  node has answered and the flush has run, the second session still waits, with no node left to answer and
  nothing queued, and the parent still awaits the scope.\<close>

theorem shared_cleanup_is_lost:
  "let w = demo_scope_run False [Give 1 100 5, Give 1 100 6, Enter, Enter, Clean, NodeCleaned, NodeCleaned, Trigger]
   in map (\<lambda>a. (aw_session a, aw_workflows a)) (sw_awaiting w) = [(10, Some []), (11, None)]
     \<and> sw_cleaning w = [] \<and> sw_cleanup_finished w = []
     \<and> awaited (sw_cleaners w) 200 (cu_id demo_cleanup) = Some [100]"
  by code_simp

text \<open>The early cleanup of an uninterruptible scope interrupts nothing: no session of the scope is closed,
  forgotten or put in line for cleanup, and every session of the cleaned parent is only marked. But the cleaner
  is told at once that the scope is clean, exactly as by a scope without sessions.\<close>

theorem uninterruptible_reports_at_once:
  assumes "sc_uninterruptible sc" and "early_cleanup sc c w = (w', r)"
  shows "map ss_scoped (sw_sessions w') = map ss_scoped (sw_sessions w)
    \<and> (\<forall>p \<in> set (sw_sessions w'). ss_parent p = cu_session c \<longrightarrow> ss_status p \<in> {DeferredCleanup, CleanedUp})
    \<and> sw_awaiting w' = sw_awaiting w \<and> sw_cleaning w' = sw_cleaning w
    \<and> mw_status (sw_messages w') = mw_status (sw_messages w)
    \<and> ((sw_cleaners w', sw_cleanup_finished w'), r) = notify_cleaner c (sw_cleaners w, sw_cleanup_finished w)"
proof -
  have none: "snd (to_cleanup True st) = False"
    and marked: "fst (to_cleanup True st) \<noteq> CleanedUp \<Longrightarrow> fst (to_cleanup True st) = DeferredCleanup" for st
    by (simp_all add: to_cleanup_def split: if_splits)
  show ?thesis
    using assms
    by (auto simp: marked early_cleanup_def change_sessions_def none scope_notify_def Let_def cleanup_inputs_status o_def
        split: prod.splits if_splits)
qed

lemma uninterruptible_reports_at_once_witness:
  "let w = demo_scope_run True [Give 1 100 5, Enter, Clean]
   in map ss_status (sw_sessions w) = [DeferredCleanup] \<and> sw_cleanup_finished w = [demo_cleanup]"
proof -
  let ?v = "demo_scope_run True [Give 1 100 5, Enter]" and ?w = "demo_scope_run True [Give 1 100 5, Enter, Clean]"
  have facts: "map (\<lambda>p. (ss_scoped p, ss_parent p)) (sw_sessions ?w) = [(10, 1)]"
    "map (\<lambda>p. ss_status p = DeferredCleanup) (sw_sessions ?w) = [True]"
    "notify_cleaner demo_cleanup (sw_cleaners ?v, sw_cleanup_finished ?v) = (([(200, []), (100, [])], [demo_cleanup]), Inr ())"
    by code_simp+
  have "early_cleanup (demo_scope True) demo_cleanup ?v = (?w, snd (early_cleanup (demo_scope True) demo_cleanup ?v))"
    by (simp only: demo_scope_run_def fold.simps o_apply id_apply scope_event_def scope_event.case prod.collapse)
  from uninterruptible_reports_at_once [OF _ this] facts show ?thesis
    by (auto simp: demo_scope_def Let_def map_eq_Cons_conv)
qed

end
