(* ===== verification/Debugger.thy ===== *)
theory Debugger
  imports Scope
begin

text \<open>
  The debugger, \<open>src/src/debug.rs\<close>: breakpoints, paused sessions and single steps, and the branch of
  \<open>try_take_input\<close> (\<open>src/src/input.rs\<close>) that asks an active debugger which message may be taken.

  \<^item> The hash sets of the debugger are lists; where the code iterates over one, the order of the list
    stands for the order of the iteration.
  \<^item> \<open>debug_world\<close> holds the messages, the parents of the sessions, the resources \<open>Debug\<close>, \<open>DebugRoster\<close>
    and \<open>DeferredRoster\<close>, and the session events that the debugger has emitted.
  \<^item> Messages are held back by not being taken: the operation finds no input, and the request is
    remembered in \<open>deferrals\<close> until a step permits it or its session is not paused any more.
\<close>

subsection \<open>State\<close>

datatype session_pause_change =
    Paused entity
  | Unpaused entity
  | Breakpoint (pc_session: entity) (pc_breakpoint: entity)

record debug =
  db_breakpoints :: "entity list"
  db_debug_sessions :: "entity list"
  db_paused_sessions :: "entity list"
  db_session_changes :: "session_pause_change list"

record debug_roster =
  dbr_deferrals :: "request_id list"
  dbr_allow :: "request_id list"

record ('t, 'c) debug_world =
  dw_messages :: "('t, 'c) message_world"
  dw_parents :: "(entity, entity) hmap"
  dw_debug :: debug
  dw_roster :: debug_roster
  dw_deferred :: roster
  dw_events :: "session_pause_change list"

definition debug_default :: debug where
  "debug_default = \<lparr>db_breakpoints = [], db_debug_sessions = [], db_paused_sessions = [], db_session_changes = []\<rparr>"

definition debug_roster_default :: debug_roster where
  "debug_roster_default = \<lparr>dbr_deferrals = [], dbr_allow = []\<rparr>"

subsection \<open>Controlling the debugger\<close>

definition deactivate :: "debug \<Rightarrow> debug" where
  "deactivate self =
     self\<lparr>db_debug_sessions := [], db_paused_sessions := [],
       db_session_changes := db_session_changes self @ map Unpaused (db_paused_sessions self)\<rparr>"

definition pause :: "entity \<Rightarrow> debug \<Rightarrow> debug" where
  "pause session self =
     self\<lparr>db_session_changes := db_session_changes self @ [Paused session],
       db_paused_sessions := List.insert session (db_paused_sessions self)\<rparr>"

definition unpause :: "entity \<Rightarrow> debug \<Rightarrow> debug" where
  "unpause session self =
     self\<lparr>db_paused_sessions := removeAll session (db_paused_sessions self),
       db_session_changes := db_session_changes self @ [Unpaused session]\<rparr>"

definition start_debugging_for :: "entity \<Rightarrow> bool \<Rightarrow> debug \<Rightarrow> debug" where
  "start_debugging_for session pause_immediately self =
     (let self = self\<lparr>db_debug_sessions := List.insert session (db_debug_sessions self)\<rparr>
      in if pause_immediately then pause session self else self)"

definition stop_debugging_for :: "entity \<Rightarrow> debug \<Rightarrow> debug" where
  "stop_debugging_for session self =
     self\<lparr>db_debug_sessions := removeAll session (db_debug_sessions self),
       db_paused_sessions := removeAll session (db_paused_sessions self)\<rparr>"

definition debug_is_active :: "debug \<Rightarrow> bool" where
  "debug_is_active self \<longleftrightarrow>
     db_paused_sessions self \<noteq> [] \<or> (db_debug_sessions self \<noteq> [] \<and> db_breakpoints self \<noteq> [])"

definition evaluate_break :: "(entity, entity) hmap \<Rightarrow> entity \<Rightarrow> entity \<Rightarrow> debug \<Rightarrow> debug" where
  "evaluate_break parents session target self =
     (case List.find (\<lambda>s. is_descendent_session parents s session) (db_debug_sessions self) of
        None \<Rightarrow> self
      | Some debug_session \<Rightarrow>
          if target \<in> set (db_breakpoints self) \<and> debug_session \<notin> set (db_paused_sessions self)
          then self\<lparr>db_paused_sessions := List.insert debug_session (db_paused_sessions self),
                 db_session_changes := db_session_changes self @ [Breakpoint session target]\<rparr>
          else self)"

definition is_paused :: "(entity, entity) hmap \<Rightarrow> entity \<Rightarrow> debug \<Rightarrow> bool" where
  "is_paused parents session self = list_ex (\<lambda>s. is_descendent_session parents s session) (db_paused_sessions self)"

definition notify_session_changes :: "('t, 'c) debug_world \<Rightarrow> ('t, 'c) debug_world" where
  "notify_session_changes w =
     w\<lparr>dw_events := dw_events w @ db_session_changes (dw_debug w),
       dw_debug := (dw_debug w)\<lparr>db_session_changes := []\<rparr>\<rparr>"

subsection \<open>Requests that are held back\<close>

definition is_allowed :: "request_id \<Rightarrow> debug_roster \<Rightarrow> bool \<times> debug_roster" where
  "is_allowed req self =
     (if req \<in> set (dbr_allow self) then (True, self\<lparr>dbr_allow := removeAll req (dbr_allow self)\<rparr>)
      else if req \<in> set (dbr_deferrals self) then (False, self)
      else (False, self\<lparr>dbr_deferrals := dbr_deferrals self @ [req]\<rparr>))"

fun first_index :: "('x \<Rightarrow> bool) \<Rightarrow> 'x list \<Rightarrow> nat option" where
  "first_index P [] = None"
| "first_index P (x # xs) = (if P x then Some 0 else map_option Suc (first_index P xs))"

text \<open>A step of a session permits the oldest request that is held back there. A step of an operation
  looks at the operation only, not at the session.\<close>

definition pop_next_in_session ::
  "entity \<Rightarrow> entity option \<Rightarrow> ('t, 'c) debug_world \<Rightarrow> ('t, 'c) debug_world" where
  "pop_next_in_session session operation w =
     (let self = dw_roster w
      in case first_index (\<lambda>req. case operation of
                Some op \<Rightarrow> rq_source req = op
              | None \<Rightarrow> is_descendent_session (dw_parents w) session (rq_session req)) (dbr_deferrals self) of
           None \<Rightarrow> w
         | Some i \<Rightarrow>
             w\<lparr>dw_roster := \<lparr>dbr_deferrals = remove_nth i (dbr_deferrals self),
                   dbr_allow = List.insert (dbr_deferrals self ! i) (dbr_allow self)\<rparr>,
               dw_deferred := roster_queue (rq_source (dbr_deferrals self ! i)) (dw_deferred w)\<rparr>)"

text \<open>Called at the beginning of a cycle in which the debugger has changed.\<close>

definition release_unpaused :: "('t, 'c) debug_world \<Rightarrow> roster \<Rightarrow> ('t, 'c) debug_world \<times> roster" where
  "release_unpaused w roster =
     (let self = dw_roster w;
          paused = (\<lambda>req. is_paused (dw_parents w) (rq_session req) (dw_debug w))
      in (w\<lparr>dw_roster := self\<lparr>dbr_deferrals := filter paused (dbr_deferrals self)\<rparr>\<rparr>,
          fold (\<lambda>req. if paused req then id else roster_queue (rq_source req)) (dbr_deferrals self) roster))"

subsection \<open>Taking input under the debugger\<close>

text \<open>\<open>try_next\<close> goes through the messages from the oldest on and returns the position of the first one
  that is not held back.\<close>

definition input_request :: "entity \<Rightarrow> 't op_input \<Rightarrow> request_id" where
  "input_request source i = \<lparr>rq_session = in_session i, rq_source = source, rq_seq = in_seq i\<rparr>"

definition check_input ::
  "(entity, entity) hmap \<Rightarrow> entity \<Rightarrow> 't op_input \<Rightarrow> debug \<Rightarrow> debug_roster \<Rightarrow> debug \<times> debug_roster \<times> bool" where
  "check_input parents source i debug roster =
     (let debug = evaluate_break parents (in_session i) source debug
      in if is_paused parents (in_session i) debug
         then let (allowed, roster) = is_allowed (input_request source i) roster in (debug, roster, allowed)
         else (debug, roster, True))"

fun try_next ::
  "(entity, entity) hmap \<Rightarrow> entity \<Rightarrow> 't op_input list \<Rightarrow> debug \<Rightarrow> debug_roster \<Rightarrow> debug \<times> debug_roster \<times> nat option" where
  "try_next parents source [] debug roster = (debug, roster, None)"
| "try_next parents source (i # inputs) debug roster =
     (let (debug, roster, taken) = check_input parents source i debug roster
      in if taken then (debug, roster, Some 0)
         else let (debug, roster, position) = try_next parents source inputs debug roster
              in (debug, roster, map_option Suc position))"

definition debug_try_take_input ::
  "entity \<Rightarrow> ('t, 'c) debug_world \<Rightarrow> ('t, 'c) debug_world \<times> (operation_error + 't op_input option)" where
  "debug_try_take_input source w =
     (if \<not> debug_is_active (dw_debug w)
      then let (m, r) = try_take_input source (dw_messages w) in (w\<lparr>dw_messages := m\<rparr>, r)
      else case mw_inputs (dw_messages w) source of
             None \<Rightarrow> (w, Inl Broken)
           | Some storage \<Rightarrow>
               let queue = ins_reverse_queue storage;
                   (debug, roster, rev_next) = try_next (dw_parents w) source (rev queue) (dw_debug w) (dw_roster w);
                   w = notify_session_changes (w\<lparr>dw_debug := debug, dw_roster := roster\<rparr>)
               in case rev_next of
                    None \<Rightarrow> (w, Inr None)
                  | Some rev_next \<Rightarrow>
                      let i = length queue - rev_next - 1
                      in (w\<lparr>dw_messages := (dw_messages w)\<lparr>mw_inputs := (mw_inputs (dw_messages w))(source :=
                              Some (storage\<lparr>ins_reverse_queue := remove_nth i queue\<rparr>))\<rparr>\<rparr>,
                          Inr (Some (queue ! i))))"

definition debug_take_input ::
  "entity \<Rightarrow> ('t, 'c) debug_world \<Rightarrow> ('t, 'c) debug_world \<times> (operation_error + 't op_input)" where
  "debug_take_input source w =
     (let (w, r) = debug_try_take_input source w
      in (w, rbind r (\<lambda>input. ok_or input NotReady)))"

subsection \<open>What the search for a message does\<close>

text \<open>A message that is held back belongs to a paused session, is remembered for stepping and has no permission.\<close>

definition held_back ::
  "(entity, entity) hmap \<Rightarrow> debug \<Rightarrow> debug_roster \<Rightarrow> entity \<Rightarrow> 't op_input \<Rightarrow> bool" where
  "held_back parents debug roster source i \<longleftrightarrow> is_paused parents (in_session i) debug
     \<and> input_request source i \<in> set (dbr_deferrals roster) \<and> input_request source i \<notin> set (dbr_allow roster)"

text \<open>The search pauses sessions and remembers requests, but never the other way round.\<close>

definition holds_more :: "debug \<times> debug_roster \<Rightarrow> debug \<times> debug_roster \<Rightarrow> bool" where
  "holds_more = (\<lambda>(d, r) (d', r'). set (db_paused_sessions d) \<subseteq> set (db_paused_sessions d')
     \<and> set (dbr_deferrals r) \<subseteq> set (dbr_deferrals r') \<and> set (dbr_allow r') \<subseteq> set (dbr_allow r))"

lemma holds_more_trans: "holds_more x y \<Longrightarrow> holds_more y z \<Longrightarrow> holds_more x z"
  by (auto simp: holds_more_def)

lemma held_back_mono:
  "held_back parents d r source i \<Longrightarrow> holds_more (d, r) (d', r') \<Longrightarrow> held_back parents d' r' source i"
  by (auto simp: held_back_def holds_more_def is_paused_def list_ex_iff)

lemma evaluate_break_paused:
  "set (db_paused_sessions d) \<subseteq> set (db_paused_sessions (evaluate_break parents session target d))"
  by (auto simp: evaluate_break_def split: option.split)

lemma check_input_spec:
  assumes "check_input parents source i d r = (d', r', taken)"
  shows "holds_more (d, r) (d', r') \<and> length (dbr_allow r') \<le> length (dbr_allow r)
    \<and> (if taken then is_paused parents (in_session i) d' \<longrightarrow>
           input_request source i \<in> set (dbr_allow r) \<and> length (dbr_allow r') < length (dbr_allow r)
       else held_back parents d' r' source i)"
proof -
  have less: "x \<in> set xs \<Longrightarrow> length (removeAll x xs) < length xs" for x and xs :: "request_id list"
    by (induction xs) (auto intro: le_imp_less_Suc length_removeAll_less_eq [of x])
  show ?thesis
    using assms evaluate_break_paused [of d parents "in_session i" source]
    by (auto simp: check_input_def is_allowed_def holds_more_def held_back_def Let_def less split: if_splits)
qed

lemma try_next_spec:
  assumes "try_next parents source inputs d r = (d', r', position)"
  shows "holds_more (d, r) (d', r') \<and> length (dbr_allow r') \<le> length (dbr_allow r)
    \<and> (case position of
         None \<Rightarrow> \<forall>i \<in> set inputs. held_back parents d' r' source i
       | Some n \<Rightarrow> n < length inputs \<and> (\<forall>i \<in> set (take n inputs). held_back parents d' r' source i)
           \<and> (is_paused parents (in_session (inputs ! n)) d' \<longrightarrow>
                input_request source (inputs ! n) \<in> set (dbr_allow r) \<and> length (dbr_allow r') < length (dbr_allow r)))"
  using assms
proof (induction inputs arbitrary: d r position)
  case Nil
  then show ?case by (auto simp: holds_more_def)
next
  case (Cons i inputs)
  obtain d1 r1 taken where c: "check_input parents source i d r = (d1, r1, taken)" by (metis prod_cases3)
  note i = check_input_spec [OF c]
  show ?case
  proof (cases taken)
    case True
    then have "position = Some 0" "d1 = d'" "r1 = r'" using Cons.prems c by auto
    then show ?thesis using i True by simp
  next
    case False
    then obtain p where p: "try_next parents source inputs d1 r1 = (d', r', p)" "position = map_option Suc p"
      using Cons.prems c by (auto split: prod.splits)
    note rest = Cons.IH [OF p(1)]
    then have "held_back parents d' r' source i" using i False held_back_mono by auto
    moreover have "set (dbr_allow r1) \<subseteq> set (dbr_allow r)" using i by (simp add: holds_more_def)
    ultimately show ?thesis
      using i rest p(2) holds_more_trans [of "(d, r)" "(d1, r1)" "(d', r')"] by (cases p) auto
  qed
qed

text \<open>The messages that wait at an operation, oldest first.\<close>

definition waiting_inputs :: "entity \<Rightarrow> ('t, 'c) debug_world \<Rightarrow> 't op_input list" where
  "waiting_inputs source w =
     (case mw_inputs (dw_messages w) source of Some storage \<Rightarrow> rev (ins_reverse_queue storage) | None \<Rightarrow> [])"

lemma notify_parts [simp]:
  "dw_messages (notify_session_changes w) = dw_messages w" "dw_parents (notify_session_changes w) = dw_parents w"
  "dw_roster (notify_session_changes w) = dw_roster w"
  "is_paused parents session (dw_debug (notify_session_changes w)) = is_paused parents session (dw_debug w)"
  "held_back parents (dw_debug (notify_session_changes w)) r source i = held_back parents (dw_debug w) r source i"
  by (simp_all add: notify_session_changes_def is_paused_def held_back_def)

lemma remove_from_rev:
  assumes "n < length xs"
  shows "rev (remove_nth (length xs - n - 1) (rev xs)) = remove_nth n xs" and "rev xs ! (length xs - n - 1) = xs ! n"
proof -
  have *: "Suc (length xs - n - 1) = length xs - n" using assms by simp
  show "rev (remove_nth (length xs - n - 1) (rev xs)) = remove_nth n xs"
    unfolding remove_nth_def * using assms by (simp add: take_rev drop_rev)
  show "rev xs ! (length xs - n - 1) = xs ! n" using assms by (simp add: rev_nth)
qed

lemma inactive_is_not_paused: "\<not> debug_is_active d \<Longrightarrow> \<not> is_paused parents session d"
  by (simp add: debug_is_active_def is_paused_def)

text \<open>Taking input under an active debugger, in terms of the search.\<close>

lemma debug_try_take_input_search:
  assumes "debug_try_take_input source w = (w', Inr taken)" and "debug_is_active (dw_debug w)"
  obtains d r p where "try_next (dw_parents w) source (waiting_inputs source w) (dw_debug w) (dw_roster w) = (d, r, p)"
    and "dw_parents w' = dw_parents w" and "dw_roster w' = r"
    and "\<And>s. is_paused (dw_parents w) s (dw_debug w') = is_paused (dw_parents w) s d"
    and "taken = map_option (\<lambda>n. waiting_inputs source w ! n) p"
    and "waiting_inputs source w' = (case p of None \<Rightarrow> waiting_inputs source w | Some n \<Rightarrow> remove_nth n (waiting_inputs source w))"
proof -
  obtain storage where s: "mw_inputs (dw_messages w) source = Some storage"
    using assms by (cases "mw_inputs (dw_messages w) source") (auto simp: debug_try_take_input_def)
  let ?inputs = "rev (ins_reverse_queue storage)"
  have inputs: "waiting_inputs source w = ?inputs" by (simp add: waiting_inputs_def s)
  obtain d r p where t: "try_next (dw_parents w) source ?inputs (dw_debug w) (dw_roster w) = (d, r, p)"
    by (metis prod_cases3)
  show thesis
  proof (rule that [of d r p])
    show "try_next (dw_parents w) source (waiting_inputs source w) (dw_debug w) (dw_roster w) = (d, r, p)"
      using t inputs by simp
    show "dw_parents w' = dw_parents w" "dw_roster w' = r"
      "is_paused (dw_parents w) s (dw_debug w') = is_paused (dw_parents w) s d" for s
      using assms s t by (auto simp: debug_try_take_input_def Let_def split: option.splits)
    show "taken = map_option (\<lambda>n. waiting_inputs source w ! n) p"
    proof (cases p)
      case None
      then show ?thesis using assms s t by (auto simp: debug_try_take_input_def Let_def)
    next
      case (Some n)
      then have "n < length ?inputs" using try_next_spec [OF t] by simp
      from remove_from_rev(2) [OF this] show ?thesis
        using assms s t Some inputs by (auto simp: debug_try_take_input_def Let_def)
    qed
    show "waiting_inputs source w' = (case p of None \<Rightarrow> waiting_inputs source w | Some n \<Rightarrow> remove_nth n (waiting_inputs source w))"
    proof (cases p)
      case None
      then show ?thesis using assms s t by (auto simp: debug_try_take_input_def waiting_inputs_def Let_def)
    next
      case (Some n)
      then have "n < length ?inputs" using try_next_spec [OF t] by simp
      from remove_from_rev(1) [OF this] show ?thesis
        using assms s t Some by (auto simp: debug_try_take_input_def waiting_inputs_def Let_def)
    qed
  qed
qed

subsection \<open>Guarantees\<close>

text \<open>C36: under an active debugger an operation takes the oldest of its messages that is not held back, and the
  others stay in their order. What was passed over belongs to a paused session and is remembered for
  stepping; a message of a paused session is taken only with the permission of a step. If nothing is
  taken, all messages are held back.\<close>

theorem debugger_takes_oldest_released:
  assumes "debug_try_take_input source w = (w', Inr taken)" and "debug_is_active (dw_debug w)"
  shows "case taken of
      None \<Rightarrow> waiting_inputs source w' = waiting_inputs source w
        \<and> (\<forall>i \<in> set (waiting_inputs source w). held_back (dw_parents w) (dw_debug w') (dw_roster w') source i)
    | Some i \<Rightarrow> \<exists>before after. waiting_inputs source w = before @ i # after \<and> waiting_inputs source w' = before @ after
        \<and> (\<forall>j \<in> set before. held_back (dw_parents w) (dw_debug w') (dw_roster w') source j)
        \<and> (is_paused (dw_parents w) (in_session i) (dw_debug w') \<longrightarrow> input_request source i \<in> set (dbr_allow (dw_roster w)))"
proof -
  obtain d r p where t: "try_next (dw_parents w) source (waiting_inputs source w) (dw_debug w) (dw_roster w) = (d, r, p)"
    and w': "dw_roster w' = r" "\<And>s. is_paused (dw_parents w) s (dw_debug w') = is_paused (dw_parents w) s d"
    and taken: "taken = map_option (\<lambda>n. waiting_inputs source w ! n) p"
    and left: "waiting_inputs source w' = (case p of None \<Rightarrow> waiting_inputs source w | Some n \<Rightarrow> remove_nth n (waiting_inputs source w))"
    using debug_try_take_input_search [OF assms] by metis
  have held: "held_back (dw_parents w) (dw_debug w') (dw_roster w') source i \<longleftrightarrow> held_back (dw_parents w) d r source i" for i :: "'a op_input"
    by (simp add: held_back_def w')
  note spec = try_next_spec [OF t]
  show ?thesis
  proof (cases p)
    case None
    then show ?thesis using spec taken left held by simp
  next
    case (Some n)
    then have n: "n < length (waiting_inputs source w)" using spec by simp
    let ?before = "take n (waiting_inputs source w)" and ?after = "drop (Suc n) (waiting_inputs source w)"
    have "waiting_inputs source w = ?before @ waiting_inputs source w ! n # ?after" by (rule id_take_nth_drop [OF n])
    moreover have "waiting_inputs source w' = ?before @ ?after" using left Some by (simp add: remove_nth_def)
    moreover have "\<forall>j \<in> set ?before. held_back (dw_parents w) (dw_debug w') (dw_roster w') source j"
      "is_paused (dw_parents w) (in_session (waiting_inputs source w ! n)) (dw_debug w')
        \<longrightarrow> input_request source (waiting_inputs source w ! n) \<in> set (dbr_allow (dw_roster w))"
      using spec Some held w'(2) by simp_all
    ultimately show ?thesis using taken Some by auto
  qed
qed

text \<open>Runs under the debugger. The user may change the resource \<open>Debug\<close> in any way at any time.\<close>

datatype 't debug_action =
    TakeInput entity
  | GiveInput route_target 't
  | CleanInputs entity entity
  | SpawnChild entity entity
  | ChangeDebug "debug \<Rightarrow> debug"
  | DebugStep entity "entity option"
  | ReleaseUnpaused

fun perform :: "'t debug_action \<Rightarrow> ('t, 'c) debug_world \<Rightarrow> ('t, 'c) debug_world \<times> (operation_error + 't op_input option)" where
  "perform (TakeInput source) w = debug_try_take_input source w"
| "perform (GiveInput route data) w =
     (w\<lparr>dw_messages := fst (give_input route data (dw_messages w) (dw_deferred w))\<rparr>, Inr None)"
| "perform (CleanInputs source session) w = (w\<lparr>dw_messages := cleanup_inputs source session (dw_messages w)\<rparr>, Inr None)"
| "perform (SpawnChild session parent) w = (w\<lparr>dw_parents := (session, parent) # dw_parents w\<rparr>, Inr None)"
| "perform (ChangeDebug f) w = (w\<lparr>dw_debug := f (dw_debug w)\<rparr>, Inr None)"
| "perform (DebugStep session operation) w = (pop_next_in_session session operation w, Inr None)"
| "perform ReleaseUnpaused w = (fst (release_unpaused w (dw_deferred w)), Inr None)"

text \<open>The number of messages that are taken although their session is paused.\<close>

fun paused_takes :: "'t debug_action list \<Rightarrow> ('t, 'c) debug_world \<Rightarrow> nat" where
  "paused_takes [] w = 0"
| "paused_takes (a # as) w =
     (let (w', r) = perform a w
      in (case r of
            Inr (Some i) \<Rightarrow> if is_paused (dw_parents w') (in_session i) (dw_debug w') then 1 else 0
          | _ \<Rightarrow> 0) + paused_takes as w')"

fun is_step :: "'t debug_action \<Rightarrow> bool" where
  "is_step (DebugStep _ _) = True"
| "is_step _ = False"

lemma step_permits_one:
  "length (dbr_allow (dw_roster (pop_next_in_session session operation w))) \<le> Suc (length (dbr_allow (dw_roster w)))"
  by (auto simp: pop_next_in_session_def Let_def List.insert_def split: option.split)

lemma perform_permissions:
  assumes "perform a w = (w', r)"
  shows "(case r of Inr (Some i) \<Rightarrow> if is_paused (dw_parents w') (in_session i) (dw_debug w') then 1 else 0 | _ \<Rightarrow> 0)
      + length (dbr_allow (dw_roster w')) \<le> length (dbr_allow (dw_roster w)) + (if is_step a then 1 else 0)"
proof (cases a)
  case (TakeInput source)
  then have take: "debug_try_take_input source w = (w', r)" using assms by simp
  show ?thesis
  proof (cases "debug_is_active (dw_debug w) \<and> isl r = False")
    case True
    then obtain taken where r: "r = Inr taken" by (cases r) auto
    from True have active: "debug_is_active (dw_debug w)" by simp
    from debug_try_take_input_search [OF take [unfolded r] active] obtain d r' p where
      t: "try_next (dw_parents w) source (waiting_inputs source w) (dw_debug w) (dw_roster w) = (d, r', p)"
      and w': "dw_parents w' = dw_parents w" "dw_roster w' = r'"
        "\<And>s. is_paused (dw_parents w) s (dw_debug w') = is_paused (dw_parents w) s d"
      and taken: "taken = map_option (\<lambda>n. waiting_inputs source w ! n) p"
      by metis
    show ?thesis using try_next_spec [OF t] by (cases p) (auto simp: r taken w' TakeInput)
  next
    case False
    then have "dw_roster w' = dw_roster w \<and> (isl r \<or> \<not> debug_is_active (dw_debug w'))"
      using take by (auto simp: debug_try_take_input_def Let_def split: if_splits option.splits prod.splits)
    then show ?thesis by (cases r) (auto split: option.split dest: inactive_is_not_paused)
  qed
next
  case (DebugStep session operation)
  then show ?thesis using assms step_permits_one [of session operation w] by auto
qed (use assms in \<open>auto simp: release_unpaused_def Let_def\<close>)

text \<open>C14: a paused session moves by steps only. However messages are given, taken and cleaned, sessions are
  spawned and the debugger is changed, no more messages of paused sessions are taken than steps were
  issued, besides the permissions that are left over from before.\<close>

theorem paused_sessions_move_by_steps:
  "paused_takes actions w \<le> length (filter is_step actions) + length (dbr_allow (dw_roster w))"
proof (induction actions arbitrary: w)
  case (Cons a actions)
  obtain w' r where p: "perform a w = (w', r)" by fastforce
  from perform_permissions [OF p] Cons.IH [of w'] show ?case by (cases "is_step a") (simp_all add: p)
qed simp

text \<open>Deactivating the debugger frees what it held back: the operation is queued again, and takes its oldest
  message.\<close>

lemma release_queues:
  "ro_queue (fold (\<lambda>req. if paused req then id else roster_queue (rq_source req)) reqs roster) =
     ro_queue roster @ map rq_source (filter (\<lambda>req. \<not> paused req) reqs)"
  by (induction reqs arbitrary: roster) (simp_all add: roster_queue_def)

lemma deactivation_frees_messages:
  assumes "debug_try_take_input source w = (w', Inr None)" and "waiting_inputs source w = i # inputs"
    and "release_unpaused (w'\<lparr>dw_debug := deactivate (dw_debug w')\<rparr>) roster = (v, roster')"
  shows "source \<in> set (ro_queue roster') \<and> dbr_deferrals (dw_roster v) = []
    \<and> (\<exists>v'. debug_take_input source v = (v', Inr i) \<and> waiting_inputs source v' = inputs)"
proof -
  obtain storage where s: "mw_inputs (dw_messages w) source = Some storage" "ins_reverse_queue storage = rev inputs @ [i]"
    using assms(2) by (auto simp: waiting_inputs_def rev_eq_Cons_iff split: option.splits)
  have active: "debug_is_active (dw_debug w)"
    using assms(1) s by (auto simp: debug_try_take_input_def try_take_input_def input_pop_def last_entry_def split: if_splits)
  obtain d r p where t: "try_next (dw_parents w) source (waiting_inputs source w) (dw_debug w) (dw_roster w) = (d, r, p)"
    and w': "dw_roster w' = r" "None = map_option (\<lambda>n. waiting_inputs source w ! n) p"
      "waiting_inputs source w' = (case p of None \<Rightarrow> waiting_inputs source w | Some n \<Rightarrow> remove_nth n (waiting_inputs source w))"
    using debug_try_take_input_search [OF assms(1) active] by metis
  then have held: "waiting_inputs source w' = i # inputs" "input_request source i \<in> set (dbr_deferrals (dw_roster w'))"
    using try_next_spec [OF t] assms(2) by (auto simp: held_back_def)
  have freed: "\<not> is_paused parents session (deactivate d)" "\<not> debug_is_active (deactivate d)" for parents session d
    by (simp_all add: is_paused_def deactivate_def debug_is_active_def)
  have v: "dw_messages v = dw_messages w'" "dw_debug v = deactivate (dw_debug w')" "dbr_deferrals (dw_roster v) = []"
    and queue: "ro_queue roster' = ro_queue roster @ map rq_source (dbr_deferrals (dw_roster w'))"
    using assms(3) by (auto simp: release_unpaused_def Let_def freed roster_queue_def
        release_queues [where paused = "\<lambda>_. False", simplified])
  obtain storage' where s': "mw_inputs (dw_messages v) source = Some storage'" "ins_reverse_queue storage' = rev inputs @ [i]"
    using held(1) v(1) by (auto simp: waiting_inputs_def rev_eq_Cons_iff split: option.splits)
  have "source \<in> set (ro_queue roster')" using held(2) by (force simp: queue input_request_def)
  moreover have "\<exists>v'. debug_take_input source v = (v', Inr i) \<and> waiting_inputs source v' = inputs"
    using s' by (simp add: debug_take_input_def debug_try_take_input_def try_take_input_def v(2) freed input_pop_def
        last_entry_def waiting_inputs_def)
  ultimately show ?thesis using v(3) by simp
qed

subsection \<open>Concrete runs\<close>

text \<open>Two sessions with a message each at operation 3; session 7 is paused.\<close>

definition debug_inputs :: "nat op_input list" where
  "debug_inputs = [\<lparr>in_session = 7, in_seq = 0, in_data = 1\<rparr>, \<lparr>in_session = 8, in_seq = 1, in_data = 2\<rparr>]"

definition debug_demo :: "entity list \<Rightarrow> (nat, nat) debug_world" where
  "debug_demo paused =
     \<lparr>dw_messages = demo_world\<lparr>mw_inputs := [3 \<mapsto> \<lparr>ins_reverse_queue = rev debug_inputs, ins_sequence = 2\<rparr>]\<rparr>,
      dw_parents = [], dw_debug = debug_default\<lparr>db_paused_sessions := paused\<rparr>, dw_roster = debug_roster_default,
      dw_deferred = empty_roster, dw_events = []\<rparr>"

text \<open>The message of session 7 is passed over.\<close>

lemma debugger_takes_oldest_released_witness:
  "\<exists>w'. debug_try_take_input 3 (debug_demo [7]) = (w', Inr (Some (debug_inputs ! 1)))
     \<and> waiting_inputs 3 w' = [debug_inputs ! 0]"
proof -
  have take: "debug_try_take_input 3 (debug_demo [7]) =
      (fst (debug_try_take_input 3 (debug_demo [7])), Inr (Some (debug_inputs ! 1)))"
  proof -
    have "snd (debug_try_take_input 3 (debug_demo [7])) = Inr (Some (debug_inputs ! 1))" by code_simp
    then show ?thesis by (simp add: prod_eq_iff)
  qed
  have "waiting_inputs 3 (debug_demo [7]) = [debug_inputs ! 0, debug_inputs ! 1]" "debug_inputs ! 0 \<noteq> debug_inputs ! 1"
    "debug_is_active (dw_debug (debug_demo [7]))" by code_simp+
  with debugger_takes_oldest_released [OF take] take show ?thesis
    by (auto simp: Cons_eq_append_conv)
qed

text \<open>A step of an operation ignores the session that it is for: the step of session 8 permits the message of
  session 7, which is older.\<close>

lemma operation_step_ignores_session:
  "let w = fst (debug_try_take_input 3 (debug_demo [7, 8]));
       w = pop_next_in_session 8 (Some 3) w;
       (w, r) = debug_try_take_input 3 w
   in r = Inr (Some (debug_inputs ! 0)) \<and> in_session (debug_inputs ! 0) = 7
     \<and> dbr_deferrals (dw_roster w) = [input_request 3 (debug_inputs ! 1)]"
  by code_simp

end
