(* ===== verification/Operations.thy ===== *)
theory Operations
  imports Effects BufferNode
begin

text \<open>
  The operations that pass messages on: noop, fork clone, unzip, spread, branching, the filters and the
  cancel operations (\<open>src/src/operation/noop.rs\<close>, \<open>fork_clone.rs\<close>, \<open>fork_unzip.rs\<close> with
  \<open>src/src/chain/unzip.rs\<close>, \<open>spread.rs\<close>, \<open>branching.rs\<close>, \<open>filter.rs\<close>, \<open>operate_cancel.rs\<close>), and how they
  report disposals and cancellations (\<open>src/src/disposal.rs\<close>).

  \<^item> A world is that of \<open>Inputs\<close> with the roster, the disposals that wait in the roster and the
    cancellations that were sent to the scope. Targets are those an operation was set up with.
  \<^item> What an operation computes with values is a function of the model: the elements of a collection, the
    components of a tuple, the activator of a branching, the test of a filter. \<open>Clone\<close> copies.
  \<^item> A panic is an error of its own; a message that was taken is gone in that case as well.
\<close>

subsection \<open>World\<close>

datatype disposal =
    BranchingDisposal entity entity
  | FilteredDisposal entity
  | EmptySpread entity
  | DeficientCollection entity nat nat
  | IncompleteSplit entity "ident list list"
  | TrimmingDisposal entity "entity list"

record disposal_information =
  di_session :: entity
  di_listener :: entity
  di_trigger :: request_id
  di_disposed :: entity
  di_disposal :: disposal

datatype 't cancel_cause =
    TriggeredCancel entity "'t option"
  | FilteredCancel entity
  | InvalidSpanCancel entity "entity option"

record 't scope_cancel =
  cn_trigger :: request_id
  cn_session :: entity
  cn_cause :: "'t cancel_cause"

record ('t, 'c) flow_world =
  fl_messages :: "('t, 'c) message_world"
  fl_roster :: roster
  fl_disposals :: "disposal_information list"
  fl_cancels :: "'t scope_cancel list"

datatype flow_error = Fault operation_error | Panic

type_synonym ('t, 'c, 'm, 'a) flow_operation =
  "('t, 'c, 'm) flow_world_scheme \<Rightarrow> ('t, 'c, 'm) flow_world_scheme \<times> (flow_error + 'a)"

fun lift_error :: "operation_error + 'a \<Rightarrow> flow_error + 'a" where
  "lift_error (Inl e) = Inl (Fault e)"
| "lift_error (Inr x) = Inr x"

definition receive :: "entity \<Rightarrow> ('t, 'c, 'm, 't op_input) flow_operation" where
  "receive source w =
     (let (m, r) = take_input source (fl_messages w) in (w\<lparr>fl_messages := m\<rparr>, lift_error r))"

definition send :: "entity \<Rightarrow> entity \<Rightarrow> 't \<Rightarrow> ('t, 'c, 'm, unit) flow_operation" where
  "send session target data w =
     (let (m, roster, r) = give_input \<lparr>rt_session = session, rt_target = target\<rparr> data (fl_messages w) (fl_roster w)
      in (w\<lparr>fl_messages := m, fl_roster := roster\<rparr>, lift_error r))"

definition request_of :: "entity \<Rightarrow> 't op_input \<Rightarrow> request_id" where
  "request_of source input = \<lparr>rq_session = in_session input, rq_source = source, rq_seq = in_seq input\<rparr>"

subsection \<open>Disposals and cancellations\<close>

definition notify_trim ::
  "request_id \<Rightarrow> entity list \<Rightarrow> entity \<Rightarrow> disposal
     \<Rightarrow> ('t, 'c, 'm) flow_world_scheme \<Rightarrow> ('t, 'c, 'm) flow_world_scheme" where
  "notify_trim trigger disposed_operations disposed_in_session disposal w =
     w\<lparr>fl_disposals := fl_disposals w @ map (\<lambda>disposed.
         \<lparr>di_session = disposed_in_session, di_listener = disposed_in_session, di_trigger = trigger,
          di_disposed = disposed, di_disposal = disposal\<rparr>) disposed_operations\<rparr>"

definition emit_disposal ::
  "request_id \<Rightarrow> disposal \<Rightarrow> ('t, 'c, 'm) flow_world_scheme \<Rightarrow> ('t, 'c, 'm) flow_world_scheme" where
  "emit_disposal route disposal = notify_trim route [rq_source route] (rq_session route) disposal"

definition emit_cancel ::
  "request_id \<Rightarrow> entity \<Rightarrow> 't cancel_cause \<Rightarrow> ('t, 'c, 'm) flow_world_scheme \<Rightarrow> ('t, 'c, 'm) flow_world_scheme" where
  "emit_cancel route session cause w =
     w\<lparr>fl_cancels := fl_cancels w @ [\<lparr>cn_trigger = route, cn_session = session, cn_cause = cause\<rparr>]\<rparr>"

subsection \<open>Passing messages on\<close>

definition noop_execute :: "entity \<Rightarrow> entity \<Rightarrow> ('t, 'c, 'm, unit) flow_operation" where
  "noop_execute target source =
     ebind (receive source) (\<lambda>input. send (in_session input) target (in_data input))"

text \<open>\<open>targets[..targets.len() - 1]\<close> panics when there is no target.\<close>

definition send_all :: "entity \<Rightarrow> (entity \<times> 't) list \<Rightarrow> ('t, 'c, 'm, unit) flow_operation" where
  "send_all session = each (\<lambda>(target, data). send session target data)"

definition fork_clone_execute :: "entity list \<Rightarrow> entity \<Rightarrow> ('t, 'c, 'm, unit) flow_operation" where
  "fork_clone_execute targets source =
     ebind (receive source) (\<lambda>input.
       if targets = [] then (\<lambda>w. (w, Inl Panic))
       else
         ebind (send_all (in_session input) (map (\<lambda>target. (target, in_data input)) (butlast targets))) (\<lambda>_.
           send (in_session input) (last targets) (in_data input)))"

text \<open>\<open>next_tuple\<close> takes as many targets as the tuple has components, or fails.\<close>

definition unzip_execute :: "('t \<Rightarrow> 't list) \<Rightarrow> entity list \<Rightarrow> entity \<Rightarrow> ('t, 'c, 'm, unit) flow_operation" where
  "unzip_execute components targets source =
     ebind (receive source) (\<lambda>input.
       let values = components (in_data input)
       in if length targets < length values then (\<lambda>w. (w, Inl (Fault Broken)))
          else send_all (in_session input) (zip targets values))"

definition spread_execute :: "('t \<Rightarrow> 't list) \<Rightarrow> entity \<Rightarrow> entity \<Rightarrow> ('t, 'c, 'm, unit) flow_operation" where
  "spread_execute elements target source =
     ebind (receive source) (\<lambda>input.
       let data = elements (in_data input)
       in ebind (send_all (in_session input) (map (\<lambda>datum. (target, datum)) data)) (\<lambda>_.
            if data = [] then modify (emit_disposal (request_of source input) (EmptySpread source))
            else return ()))"

subsection \<open>Branching\<close>

text \<open>A \<open>BranchResult\<close> is a value for a branch or the reason why there is none, which is left out.\<close>

type_synonym 'a branch = "'a option"

definition branch_result :: "'e + 'a \<Rightarrow> 'a branch \<times> 'e branch" where
  "branch_result input = (case input of Inr value \<Rightarrow> (Some value, None) | Inl err \<Rightarrow> (None, Some err))"

definition branch_option :: "'a option \<Rightarrow> 'a branch \<times> unit branch" where
  "branch_option input = (case input of Some value \<Rightarrow> (Some value, None) | None \<Rightarrow> (None, Some ()))"

definition activate_branch :: "request_id \<Rightarrow> entity \<Rightarrow> 't branch \<Rightarrow> ('t, 'c, 'm, unit) flow_operation" where
  "activate_branch req target branch =
     (case branch of
        Some value \<Rightarrow> send (rq_session req) target value
      | None \<Rightarrow> modify (emit_disposal req (BranchingDisposal (rq_source req) target)))"

definition branching_execute ::
  "('t \<Rightarrow> 't branch \<times> 't branch) \<Rightarrow> entity list \<Rightarrow> entity \<Rightarrow> ('t, 'c, 'm, unit) flow_operation" where
  "branching_execute activator targets source =
     ebind (receive source) (\<lambda>input.
       let (a, b) = activator (in_data input); req = request_of source input
       in case targets of
            target_a # target_b # _ \<Rightarrow>
              ebind (activate_branch req target_a a) (\<lambda>_. activate_branch req target_b b)
          | _ \<Rightarrow> (\<lambda>w. (w, Inl (Fault Broken))))"

subsection \<open>Filters\<close>

definition filter_none :: "'a option \<Rightarrow> unit + 'a" where
  "filter_none value = ok_or value ()"

definition filter_some :: "'a option \<Rightarrow> unit + unit" where
  "filter_some value = (case value of Some _ \<Rightarrow> Inl () | None \<Rightarrow> Inr ())"

definition filter_err :: "'e + 'a \<Rightarrow> unit + 'a" where
  "filter_err value = (case value of Inl _ \<Rightarrow> Inl () | Inr v \<Rightarrow> Inr v)"

definition filter_ok :: "'e + 'a \<Rightarrow> unit + 'e" where
  "filter_ok value = (case value of Inr _ \<Rightarrow> Inl () | Inl err \<Rightarrow> Inr err)"

definition cancel_filter_execute ::
  "('t \<Rightarrow> unit + 't) \<Rightarrow> entity \<Rightarrow> entity \<Rightarrow> ('t, 'c, 'm, unit) flow_operation" where
  "cancel_filter_execute accepts target source =
     ebind (receive source) (\<lambda>input.
       case accepts (in_data input) of
         Inr output \<Rightarrow> send (in_session input) target output
       | Inl _ \<Rightarrow> modify (emit_cancel (request_of source input) (in_session input) (FilteredCancel source)))"

definition disposal_filter_execute ::
  "('t \<Rightarrow> unit + 't) \<Rightarrow> entity \<Rightarrow> entity \<Rightarrow> ('t, 'c, 'm, unit) flow_operation" where
  "disposal_filter_execute accepts target source =
     ebind (receive source) (\<lambda>input.
       case accepts (in_data input) of
         Inr output \<Rightarrow> send (in_session input) target output
       | Inl _ \<Rightarrow> modify (emit_disposal (request_of source input) (FilteredDisposal source)))"

subsection \<open>Cancel operations\<close>

text \<open>\<open>take_input(...).or_broken()\<close> turns every error into a broken operation, \<open>NotReady\<close> too.\<close>

definition or_broken_result :: "('t, 'c, 'm, 'a) flow_operation \<Rightarrow> ('t, 'c, 'm, 'a) flow_operation" where
  "or_broken_result m w =
     (case m w of
        (w, Inl (Fault _)) \<Rightarrow> (w, Inl (Fault Broken))
      | r \<Rightarrow> r)"

definition cancel_execute :: "entity \<Rightarrow> ('t, 'c, 'm, unit) flow_operation" where
  "cancel_execute source =
     ebind (or_broken_result (receive source)) (\<lambda>input.
       modify (emit_cancel (request_of source input) (in_session input) (TriggeredCancel source (Some (in_data input)))))"

definition quiet_cancel_execute :: "entity \<Rightarrow> ('t, 'c, 'm, unit) flow_operation" where
  "quiet_cancel_execute source =
     ebind (or_broken_result (receive source)) (\<lambda>input.
       modify (emit_cancel (request_of source input) (in_session input) (TriggeredCancel source None)))"

subsection \<open>What sending and receiving do\<close>

definition disposal_of :: "request_id \<Rightarrow> disposal \<Rightarrow> disposal_information" where
  "disposal_of req d =
     \<lparr>di_session = rq_session req, di_listener = rq_session req, di_trigger = req, di_disposed = rq_source req,
      di_disposal = d\<rparr>"

lemma emit_disposal_simps [simp]:
  "fl_disposals (emit_disposal req d w) = fl_disposals w @ [disposal_of req d]"
  "fl_messages (emit_disposal req d w) = fl_messages w"
  "fl_roster (emit_disposal req d w) = fl_roster w"
  "fl_cancels (emit_disposal req d w) = fl_cancels w"
  by (simp_all add: emit_disposal_def notify_trim_def disposal_of_def)

lemma disposal_of_simps [simp]:
  "di_session (disposal_of req d) = rq_session req" "di_disposed (disposal_of req d) = rq_source req"
  "di_disposal (disposal_of req d) = d"
  by (simp_all add: disposal_of_def)

lemma request_of_simps [simp]:
  "rq_session (request_of source input) = in_session input" "rq_source (request_of source input) = source"
  by (simp_all add: request_of_def)

text \<open>\<open>flows session targets w\<close>: messages of the session are delivered to all targets.\<close>

definition flows :: "entity \<Rightarrow> entity list \<Rightarrow> ('t, 'c, 'm) flow_world_scheme \<Rightarrow> bool" where
  "flows session targets w \<longleftrightarrow> deliverable session targets (fl_messages w)"

definition waiting_at :: "entity \<Rightarrow> ('t, 'c, 'm) flow_world_scheme \<Rightarrow> (entity \<times> 't) list" where
  "waiting_at x w = pending x (fl_messages w)"

definition reports :: "('t, 'c, 'm) flow_world_scheme \<Rightarrow> disposal_information list \<times> 't scope_cancel list" where
  "reports w = (fl_disposals w, fl_cancels w)"

lemma deliverable_member: "deliverable session targets m \<Longrightarrow> t \<in> set targets \<Longrightarrow> deliverable session (t # targets) m"
  by (auto simp: deliverable_def)

lemma send_flows:
  assumes "flows session targets w" and "t \<in> set targets"
  shows "\<exists>m roster. send session t data w = (w\<lparr>fl_messages := m, fl_roster := roster\<rparr>, Inr ())
    \<and> deliverable session targets m \<and> ro_queue roster = ro_queue (fl_roster w) @ [t]
    \<and> (\<forall>x. pending x m = waiting_at x w @ (if x = t then [(session, data)] else []))"
proof -
  obtain m roster r where g: "give_input \<lparr>rt_session = session, rt_target = t\<rparr> data (fl_messages w) (fl_roster w) = (m, roster, r)"
    by (metis prod_cases3)
  have "deliverable session (t # targets) (fl_messages w)"
    using assms unfolding flows_def by (rule deliverable_member)
  note d = give_input_deliverable [OF this g]
  have "send session t data w = (w\<lparr>fl_messages := m, fl_roster := roster\<rparr>, Inr ())"
    using g d by (simp add: send_def)
  then show ?thesis using d by (intro exI [of _ m] exI [of _ roster]) (simp add: waiting_at_def roster_queue_def)
qed

definition sent_to :: "entity \<Rightarrow> entity \<Rightarrow> (entity \<times> 't) list \<Rightarrow> (entity \<times> 't) list" where
  "sent_to session x ps = map (\<lambda>p. (session, snd p)) (filter (\<lambda>p. fst p = x) ps)"

lemma send_all_flows:
  assumes "flows session targets w" and "fst ` set ps \<subseteq> set targets"
  shows "\<exists>m roster. send_all session ps w = (w\<lparr>fl_messages := m, fl_roster := roster\<rparr>, Inr ())
    \<and> deliverable session targets m \<and> ro_queue roster = ro_queue (fl_roster w) @ map fst ps
    \<and> (\<forall>x. pending x m = waiting_at x w @ sent_to session x ps)"
  using assms
proof (induction ps arbitrary: w)
  case Nil
  have "send_all session [] w = (w\<lparr>fl_messages := fl_messages w, fl_roster := fl_roster w\<rparr>, Inr ())"
    by (simp add: send_all_def)
  then show ?case using Nil by (auto simp: flows_def waiting_at_def sent_to_def intro!: exI)
next
  case (Cons p ps)
  obtain t data where p: "p = (t, data)" by fastforce
  obtain m1 roster1 where s: "send session t data w = (w\<lparr>fl_messages := m1, fl_roster := roster1\<rparr>, Inr ())"
    "deliverable session targets m1" "ro_queue roster1 = ro_queue (fl_roster w) @ [t]"
    "\<And>x. pending x m1 = waiting_at x w @ (if x = t then [(session, data)] else [])"
    using send_flows [OF Cons.prems(1), of t data] Cons.prems(2) p by auto
  have "flows session targets (w\<lparr>fl_messages := m1, fl_roster := roster1\<rparr>)" using s(2) by (simp add: flows_def)
  then obtain m2 roster2 where r: "send_all session ps (w\<lparr>fl_messages := m1, fl_roster := roster1\<rparr>) =
      (w\<lparr>fl_messages := m2, fl_roster := roster2\<rparr>, Inr ())"
    "deliverable session targets m2" "ro_queue roster2 = ro_queue roster1 @ map fst ps"
    "\<And>x. pending x m2 = pending x m1 @ sent_to session x ps"
    using Cons.IH [of "w\<lparr>fl_messages := m1, fl_roster := roster1\<rparr>"] Cons.prems(2) by (auto simp: waiting_at_def)
  have "send_all session (p # ps) w = (w\<lparr>fl_messages := m2, fl_roster := roster2\<rparr>, Inr ())"
    using s(1) r(1) by (simp add: send_all_def p ebind_def)
  then show ?case using s r p by (auto simp: sent_to_def intro!: exI)
qed

lemma receive_oldest:
  assumes "waiting_at source w = (session, data) # rest"
  shows "\<exists>m input. receive source w = (w\<lparr>fl_messages := m\<rparr>, Inr input) \<and> in_session input = session \<and> in_data input = data
    \<and> mw_status m = mw_status (fl_messages w) \<and> (\<forall>x. mw_inputs m x = None \<longleftrightarrow> mw_inputs (fl_messages w) x = None)
    \<and> (\<forall>x. pending x m = (if x = source then rest else waiting_at x w))"
proof -
  obtain m r where t: "take_input source (fl_messages w) = (m, r)" by fastforce
  have "pending source (fl_messages w) = (session, data) # rest" using assms by (simp add: waiting_at_def)
  with take_input_oldest [OF t] obtain input where r: "r = Inr input" "in_session input = session" "in_data input = data"
    "pending source m = rest"
    by (cases r) (auto split: operation_error.splits simp: pending_def)
  moreover have "mw_status m = mw_status (fl_messages w)" "mw_inputs m x = None \<longleftrightarrow> mw_inputs (fl_messages w) x = None"
    "x \<noteq> source \<Longrightarrow> mw_inputs m x = mw_inputs (fl_messages w) x" for x
    using t by (auto simp: take_input_def try_take_input_def input_pop_def Let_def split: option.splits if_splits)
  ultimately show ?thesis using t by (auto simp: receive_def waiting_at_def pending_def)
qed

lemma receive_flows:
  assumes "waiting_at source w = (session, data) # rest" and "flows session targets w"
  shows "\<exists>m input. receive source w = (w\<lparr>fl_messages := m\<rparr>, Inr input) \<and> in_session input = session \<and> in_data input = data
    \<and> flows session targets (w\<lparr>fl_messages := m\<rparr>)
    \<and> (\<forall>x. waiting_at x (w\<lparr>fl_messages := m\<rparr>) = (if x = source then rest else waiting_at x w))"
proof -
  obtain m input where r: "receive source w = (w\<lparr>fl_messages := m\<rparr>, Inr input)" "in_session input = session" "in_data input = data"
    "mw_status m = mw_status (fl_messages w)" "\<And>x. mw_inputs m x = None \<longleftrightarrow> mw_inputs (fl_messages w) x = None"
    "\<And>x. pending x m = (if x = source then rest else waiting_at x w)"
    using receive_oldest [OF assms(1)] by blast
  have "flows session targets (w\<lparr>fl_messages := m\<rparr>)"
    using assms(2) r(4,5) by (simp add: flows_def deliverable_def)
  then show ?thesis using r(1-3,6) by (intro exI [of _ m] exI [of _ input]) (simp add: waiting_at_def)
qed

text \<open>An operation that takes a message and then sends the messages \<open>ps\<close>.\<close>

lemma receive_then_send:
  assumes "waiting_at source w = (session, data) # rest" and "flows session targets w"
    and "\<And>input. in_session input = session \<Longrightarrow> in_data input = data \<Longrightarrow> f input = send_all session ps"
    and "fst ` set ps \<subseteq> set targets"
  shows "\<exists>w'. ebind (receive source) f w = (w', Inr ())
    \<and> (\<forall>x. waiting_at x w' = (if x = source then rest else waiting_at x w) @ sent_to session x ps) \<and> reports w' = reports w"
proof -
  obtain m input where r: "receive source w = (w\<lparr>fl_messages := m\<rparr>, Inr input)" "in_session input = session" "in_data input = data"
    "flows session targets (w\<lparr>fl_messages := m\<rparr>)"
    "\<And>x. waiting_at x (w\<lparr>fl_messages := m\<rparr>) = (if x = source then rest else waiting_at x w)"
    using receive_flows [OF assms(1,2)] by blast
  obtain m' roster where s: "send_all session ps (w\<lparr>fl_messages := m\<rparr>) = (w\<lparr>fl_messages := m', fl_roster := roster\<rparr>, Inr ())"
    "\<And>x. pending x m' = waiting_at x (w\<lparr>fl_messages := m\<rparr>) @ sent_to session x ps"
    using send_all_flows [OF r(4) assms(4)] by auto
  have "ebind (receive source) f w = (w\<lparr>fl_messages := m', fl_roster := roster\<rparr>, Inr ())"
    using r(1) s(1) assms(3) [OF r(2,3)] by (simp add: ebind_def)
  then show ?thesis using s(2) r(5) by (auto simp: waiting_at_def reports_def)
qed

lemma send_all_snoc: "ebind (send_all session ps) (\<lambda>_. send session t data) = send_all session (ps @ [(t, data)])"
proof
  fix w
  show "ebind (send_all session ps) (\<lambda>_. send session t data) w = send_all session (ps @ [(t, data)]) w"
  proof (induction ps arbitrary: w)
    case Nil
    obtain w' r where s: "send session t data w = (w', r)" by fastforce
    then show ?case by (cases r) (simp_all add: send_all_def ebind_def)
  next
    case (Cons p ps)
    obtain w' r where s: "(case p of (target, data) \<Rightarrow> send session target data) w = (w', r)" by fastforce
    then show ?case using Cons.IH [of w'] by (cases r) (simp_all add: send_all_def ebind_def)
  qed
qed

lemma sent_to_copies: "sent_to session x (map (\<lambda>t. (t, data)) targets) = replicate (count_list targets x) (session, data)"
  by (induction targets) (auto simp: sent_to_def)

subsection \<open>Properties\<close>

definition demo_flow :: "(nat, nat) flow_world" where
  "demo_flow =
     \<lparr>fl_messages = \<lparr>mw_inputs = (\<lambda>e. if e = 3 then Some \<lparr>ins_reverse_queue = [\<lparr>in_session = 7, in_seq = 0, in_data = 5\<rparr>], ins_sequence = 1\<rparr>
          else if e \<in> {4, 6} then Some input_storage_new else None),
        mw_unused_target = (\<lambda>_. False), mw_detached = (\<lambda>_. None), mw_status = (\<lambda>s. if s = 7 then Some Active else None),
        mw_progress = (\<lambda>_. None), mw_cancelled = [], mw_mismatches = []\<rparr>,
      fl_roster = empty_roster, fl_disposals = [], fl_cancels = []\<rparr>"

lemma demo_flow_waiting:
  "waiting_at 3 demo_flow = [(7, 5)]" "waiting_at 4 demo_flow = []" "waiting_at 6 demo_flow = []"
  by (simp_all add: demo_flow_def waiting_at_def pending_def input_storage_new_def)

lemma demo_flow_flows: "set targets \<subseteq> {4, 6} \<Longrightarrow> flows 7 targets demo_flow"
  by (auto simp: demo_flow_def flows_def deliverable_def)

text \<open>A fork clone gives every target exactly one copy of the message, two if it is connected twice,
  and changes nothing else; without any target it panics, and the message is gone.\<close>
theorem fork_clone_gives_each_target:
  assumes "waiting_at source w = (session, data) # rest" and "flows session targets w"
  shows "\<exists>w'. fork_clone_execute targets source w = (w', if targets = [] then Inl Panic else Inr ())
    \<and> (\<forall>x. waiting_at x w' = (if x = source then rest else waiting_at x w) @ replicate (count_list targets x) (session, data))
    \<and> reports w' = reports w"
proof (cases "targets = []")
  case True
  obtain m input where "receive source w = (w\<lparr>fl_messages := m\<rparr>, Inr input)"
    "\<And>x. waiting_at x (w\<lparr>fl_messages := m\<rparr>) = (if x = source then rest else waiting_at x w)"
    using receive_flows [OF assms] by blast
  then show ?thesis
    using True by (intro exI [of _ "w\<lparr>fl_messages := m\<rparr>"]) (simp add: fork_clone_execute_def ebind_def reports_def)
next
  case False
  let ?ps = "map (\<lambda>t. (t, data)) targets"
  have "map (\<lambda>t. (t, data)) (butlast targets) @ [(last targets, data)] = ?ps"
    using arg_cong [OF append_butlast_last_id [OF False], of "map (\<lambda>t. (t, data))"] by simp
  then have "\<exists>w'. fork_clone_execute targets source w = (w', Inr ())
      \<and> (\<forall>x. waiting_at x w' = (if x = source then rest else waiting_at x w) @ sent_to session x ?ps) \<and> reports w' = reports w"
    unfolding fork_clone_execute_def
    by (intro receive_then_send [OF assms]) (use False in \<open>auto simp: send_all_snoc\<close>)
  then show ?thesis using False unfolding sent_to_copies by simp
qed

lemma fork_clone_gives_each_target_witness:
  "\<exists>w'. fork_clone_execute [4, 6, 4] 3 demo_flow = (w', Inr ()) \<and> waiting_at 4 w' = [(7, 5), (7, 5)] \<and> waiting_at 6 w' = [(7, 5)]"
proof -
  have "flows 7 [4, 6, 4] demo_flow" by (rule demo_flow_flows) simp
  from fork_clone_gives_each_target [OF demo_flow_waiting(1) this] obtain w' where
    "fork_clone_execute [4, 6, 4] 3 demo_flow = (w', Inr ())"
    "\<And>x. waiting_at x w' = (if x = 3 then [] else waiting_at x demo_flow) @ replicate (count_list [4, 6, 4] x) (7, 5)"
    by (auto simp del: count_list.simps)
  then show ?thesis by (auto simp: demo_flow_waiting numeral_2_eq_2)
qed

text \<open>A spread sends the elements of a collection to its target in their order and nothing else; exactly if
  the collection is empty it reports one disposal of its own.\<close>
theorem spread_sends_elements:
  assumes "waiting_at source w = (session, data) # rest" and "flows session [target] w"
  shows "\<exists>w' d. spread_execute elements target source w = (w', Inr ())
    \<and> (\<forall>x. waiting_at x w' = (if x = source then rest else waiting_at x w)
          @ (if x = target then map (\<lambda>e. (session, e)) (elements data) else []))
    \<and> fl_cancels w' = fl_cancels w
    \<and> fl_disposals w' = fl_disposals w @ (if elements data = [] then [d] else [])
    \<and> di_session d = session \<and> di_disposed d = source \<and> di_disposal d = EmptySpread source"
proof -
  let ?ps = "map (\<lambda>datum. (target, datum)) (elements data)"
  obtain m input where r: "receive source w = (w\<lparr>fl_messages := m\<rparr>, Inr input)" "in_session input = session" "in_data input = data"
    "flows session [target] (w\<lparr>fl_messages := m\<rparr>)"
    "\<And>x. waiting_at x (w\<lparr>fl_messages := m\<rparr>) = (if x = source then rest else waiting_at x w)"
    using receive_flows [OF assms] by blast
  have targets: "fst ` set ?ps \<subseteq> set [target]" by auto
  obtain m' roster where s: "send_all session ?ps (w\<lparr>fl_messages := m\<rparr>) =
      ((w\<lparr>fl_messages := m\<rparr>)\<lparr>fl_messages := m', fl_roster := roster\<rparr>, Inr ())"
    "\<And>x. pending x m' = waiting_at x (w\<lparr>fl_messages := m\<rparr>) @ sent_to session x ?ps"
    using send_all_flows [OF r(4) targets] by blast
  have sent: "sent_to session x ?ps = (if x = target then map (\<lambda>e. (session, e)) (elements data) else [])" for x
    by (auto simp: sent_to_def filter_map o_def)
  let ?w = "w\<lparr>fl_messages := m', fl_roster := roster\<rparr>"
  have "spread_execute elements target source w =
      (if elements data = [] then emit_disposal (request_of source input) (EmptySpread source) ?w else ?w, Inr ())"
    using r(1-3) s(1) by (simp add: spread_execute_def ebind_def modify_def return_def Let_def)
  then show ?thesis
    using s(2) r(2,5) sent by (intro exI [of _ "if elements data = [] then emit_disposal (request_of source input) (EmptySpread source) ?w else ?w"]
      exI [of _ "disposal_of (request_of source input) (EmptySpread source)"]) (simp add: waiting_at_def)
qed

lemma spread_sends_elements_witness:
  "\<exists>w'. spread_execute (\<lambda>n. [n, n + 1]) 4 3 demo_flow = (w', Inr ()) \<and> waiting_at 4 w' = [(7, 5), (7, 6)] \<and> fl_disposals w' = []"
proof -
  have "flows 7 [4] demo_flow" by (rule demo_flow_flows) simp
  from spread_sends_elements [OF demo_flow_waiting(1) this, of "\<lambda>n. [n, n + 1]"] obtain w' where
    "spread_execute (\<lambda>n. [n, n + 1]) 4 3 demo_flow = (w', Inr ())" "fl_disposals w' = fl_disposals demo_flow"
    "\<And>x. waiting_at x w' = (if x = 3 then [] else waiting_at x demo_flow) @ (if x = 4 then map (\<lambda>e. (7, e)) [5, 5 + 1] else [])"
    by auto
  then show ?thesis by (auto simp: demo_flow_waiting) (simp add: demo_flow_def)
qed

text \<open>The activator of a branching on results, where values of type \<open>Result\<close> are read with \<open>dec\<close>.\<close>

definition result_activator ::
  "('t \<Rightarrow> 'e + 'a) \<Rightarrow> ('a \<Rightarrow> 't) \<Rightarrow> ('e \<Rightarrow> 't) \<Rightarrow> 't \<Rightarrow> 't branch \<times> 't branch" where
  "result_activator dec enc_ok enc_err t = map_prod (map_option enc_ok) (map_option enc_err) (branch_result (dec t))"

text \<open>C35: A branching on a result sends the value to exactly one of its two targets, the ok value to the
  first or the error to the second, and reports the other branch as disposed, once.\<close>
theorem branching_is_exclusive:
  assumes "waiting_at source w = (session, data) # rest" and "flows session [ok, err] w"
  shows "\<exists>w' d. branching_execute (result_activator dec enc_ok enc_err) [ok, err] source w = (w', Inr ())
    \<and> fl_disposals w' = fl_disposals w @ [d] \<and> fl_cancels w' = fl_cancels w \<and> di_session d = session \<and> di_disposed d = source
    \<and> di_disposal d = BranchingDisposal source (case dec data of Inr _ \<Rightarrow> err | Inl _ \<Rightarrow> ok)
    \<and> (\<forall>x. waiting_at x w' = (if x = source then rest else waiting_at x w)
          @ (case dec data of Inr v \<Rightarrow> (if x = ok then [(session, enc_ok v)] else [])
                            | Inl e \<Rightarrow> (if x = err then [(session, enc_err e)] else [])))"
proof -
  obtain m input where r: "receive source w = (w\<lparr>fl_messages := m\<rparr>, Inr input)" "in_session input = session" "in_data input = data"
    "flows session [ok, err] (w\<lparr>fl_messages := m\<rparr>)"
    "\<And>x. waiting_at x (w\<lparr>fl_messages := m\<rparr>) = (if x = source then rest else waiting_at x w)"
    using receive_flows [OF assms] by blast
  let ?req = "request_of source input"
  let ?run = "branching_execute (result_activator dec enc_ok enc_err) [ok, err] source w"
  have sends: "\<exists>m' roster. send session t v (emits (w\<lparr>fl_messages := m\<rparr>)) = ((emits (w\<lparr>fl_messages := m\<rparr>))\<lparr>fl_messages := m', fl_roster := roster\<rparr>, Inr ())
      \<and> (\<forall>x. pending x m' = waiting_at x (w\<lparr>fl_messages := m\<rparr>) @ (if x = t then [(session, v)] else []))"
    if "t \<in> {ok, err}" and "\<And>w. fl_messages (emits w) = fl_messages w" for t v emits
    using send_flows [of session "[ok, err]" "emits (w\<lparr>fl_messages := m\<rparr>)" t v] r(4) that
    by (fastforce simp: flows_def waiting_at_def)
  show ?thesis
  proof (cases "dec data")
    case (Inr v)
    obtain m' roster where s: "send session ok (enc_ok v) (w\<lparr>fl_messages := m\<rparr>) = (w\<lparr>fl_messages := m', fl_roster := roster\<rparr>, Inr ())"
      "\<And>x. pending x m' = waiting_at x (w\<lparr>fl_messages := m\<rparr>) @ (if x = ok then [(session, enc_ok v)] else [])"
      using sends [of ok "\<lambda>w. w" "enc_ok v"] by auto
    have "?run = (emit_disposal ?req (BranchingDisposal source err) (w\<lparr>fl_messages := m', fl_roster := roster\<rparr>), Inr ())"
      using r(1-3) s(1) Inr
      by (simp add: branching_execute_def result_activator_def branch_result_def activate_branch_def ebind_def modify_def
        Let_def request_of_def)
    then show ?thesis
      using s(2) r(2,5) Inr by (intro exI [of _ "fst ?run"] exI [of _ "disposal_of ?req (BranchingDisposal source err)"])
        (simp add: waiting_at_def)
  next
    case (Inl e)
    obtain m' roster where s: "send session err (enc_err e) (emit_disposal ?req (BranchingDisposal source ok) (w\<lparr>fl_messages := m\<rparr>)) =
        ((emit_disposal ?req (BranchingDisposal source ok) (w\<lparr>fl_messages := m\<rparr>))\<lparr>fl_messages := m', fl_roster := roster\<rparr>, Inr ())"
      "\<And>x. pending x m' = waiting_at x (w\<lparr>fl_messages := m\<rparr>) @ (if x = err then [(session, enc_err e)] else [])"
      using sends [of err "emit_disposal ?req (BranchingDisposal source ok)" "enc_err e"] by simp blast
    have "?run = ((emit_disposal ?req (BranchingDisposal source ok) (w\<lparr>fl_messages := m\<rparr>))\<lparr>fl_messages := m', fl_roster := roster\<rparr>, Inr ())"
      using r(1-3) s(1) Inl
      by (simp add: branching_execute_def result_activator_def branch_result_def activate_branch_def ebind_def modify_def
        Let_def request_of_def)
    then show ?thesis
      using s(2) r(2,5) Inl by (intro exI [of _ "fst ?run"] exI [of _ "disposal_of ?req (BranchingDisposal source ok)"])
        (simp add: waiting_at_def)
  qed
qed

lemma branching_is_exclusive_witness:
  "\<exists>w' d. branching_execute (result_activator (\<lambda>n. if n = 5 then Inl n else Inr n) (\<lambda>n. n) (\<lambda>n. n + 10)) [4, 6] 3 demo_flow = (w', Inr ())
     \<and> waiting_at 4 w' = [] \<and> waiting_at 6 w' = [(7, 15)] \<and> fl_disposals w' = [d] \<and> di_disposal d = BranchingDisposal 3 4"
proof -
  have "flows 7 [4, 6] demo_flow" by (rule demo_flow_flows) simp
  from branching_is_exclusive [OF demo_flow_waiting(1) this, of "\<lambda>n. if n = 5 then Inl n else Inr n" "\<lambda>n. n" "\<lambda>n. n + 10"]
  obtain w' d where b: "branching_execute (result_activator (\<lambda>n. if n = 5 then Inl n else Inr n) (\<lambda>n. n) (\<lambda>n. n + 10)) [4, 6] 3 demo_flow = (w', Inr ())"
    "fl_disposals w' = fl_disposals demo_flow @ [d]" "di_disposal d = BranchingDisposal 3 4"
    "\<And>x. waiting_at x w' = (if x = 3 then [] else waiting_at x demo_flow) @ (if x = 6 then [(7, 5 + 10)] else [])"
    by auto
  have "fl_disposals w' = [d]" using b(2) by (simp add: demo_flow_def)
  moreover have "waiting_at 4 w' = []" "waiting_at 6 w' = [(7, 15)]" unfolding b(4) by (simp_all add: demo_flow_waiting)
  ultimately show ?thesis using b(1,3) by blast
qed

end
