(* ===== verification/Joining.thy ===== *)
theory Joining
  imports Operations
begin

text \<open>
  The join operation: \<open>src/src/operation/join.rs\<close>, with how it counts and fetches messages
  (\<open>src/src/buffer/buffering.rs\<close>, \<open>src/src/buffer/fetch_from_buffer.rs\<close>).

  \<^item> The buffers of a join are a list of buffer entities, each with the behaviour \<open>FetchPull\<close> (take the
    oldest message) or \<open>FetchClone\<close> (copy the newest). Tuples and the other collections of buffers fetch
    in their order, and \<open>pack\<close> makes the joined item.
  \<^item> The world holds the storage of every buffer. A pull also notifies the listeners of the buffer other
    than the join, with the command \<open>NotifyBufferUpdate\<close>: a unit message to each of them and a place on
    the deferred roster. \<open>BufferNode\<close> models that command (\<open>apply_notify\<close>); here every command is recorded
    in \<open>jn_updates\<close> (\<open>join_once_updates\<close>), and its unit messages are not among those that \<open>waiting_at\<close>
    counts.
  \<^item> The loop of \<open>execute\<close> may run forever: \<open>join_loop\<close> is a partial function, and \<open>None\<close> is that run.
\<close>

subsection \<open>Fetching\<close>

datatype fetch_behavior = FetchPull | FetchClone

type_synonym join_buffers = "(entity \<times> fetch_behavior) list"

record ('t, 'c) join_world = "('t, 'c) flow_world" +
  jn_buffers :: "(entity, 't buffer_storage) hmap"
  jn_updates :: "(request_id \<times> entity) list"

definition buffered_count :: "entity \<Rightarrow> ('t, 'c) join_world \<Rightarrow> entity \<Rightarrow> flow_error + nat" where
  "buffered_count session w buffer =
     rbind (ok_or (hm_get (jn_buffers w) buffer) (Fault Broken)) (\<lambda>storage. Inr (storage_count session storage))"

definition smallest_count :: "entity \<Rightarrow> join_buffers \<Rightarrow> ('t, 'c) join_world \<Rightarrow> flow_error + nat" where
  "smallest_count session buffers w =
     rbind (rmap (buffered_count session w) (map fst buffers)) (\<lambda>counts.
       Inr (case counts of [] \<Rightarrow> 0 | n # ns \<Rightarrow> fold min ns n))"

definition pull_for_join :: "request_id \<Rightarrow> entity \<Rightarrow> ('t, 'c) join_world \<Rightarrow> ('t, 'c) join_world \<times> (flow_error + 't)" where
  "pull_for_join req buffer w =
     (case hm_get (jn_buffers w) buffer of
        None \<Rightarrow> (w, Inl (Fault Broken))
      | Some storage \<Rightarrow>
          let (m, r) = manager_pull \<lparr>bm_storage = storage, bm_sequence = 0, bm_session = rq_session req\<rparr>
          in (w\<lparr>jn_buffers := hm_insert buffer (bm_storage m) (jn_buffers w), jn_updates := jn_updates w @ [(req, buffer)]\<rparr>,
              ok_or r (Fault Broken)))"

definition clone_for_join :: "request_id \<Rightarrow> entity \<Rightarrow> ('t, 'c) join_world \<Rightarrow> ('t, 'c) join_world \<times> (flow_error + 't)" where
  "clone_for_join req buffer =
     or_error (Fault Broken) (\<lambda>w. Option.bind (hm_get (jn_buffers w) buffer) (storage_newest (rq_session req)))"

fun fetch_for_join ::
  "request_id \<Rightarrow> entity \<times> fetch_behavior \<Rightarrow> ('t, 'c) join_world \<Rightarrow> ('t, 'c) join_world \<times> (flow_error + 't)" where
  "fetch_for_join req (buffer, FetchPull) = pull_for_join req buffer"
| "fetch_for_join req (buffer, FetchClone) = clone_for_join req buffer"

fun fetch_all ::
  "request_id \<Rightarrow> join_buffers \<Rightarrow> ('t, 'c) join_world \<Rightarrow> ('t, 'c) join_world \<times> (flow_error + 't list)" where
  "fetch_all req [] = return []"
| "fetch_all req (b # bs) =
     ebind (fetch_for_join req b) (\<lambda>item. ebind (fetch_all req bs) (\<lambda>items. return (item # items)))"

subsection \<open>Joining\<close>

definition join_once ::
  "('t list \<Rightarrow> 't) \<Rightarrow> entity \<Rightarrow> join_buffers \<Rightarrow> request_id \<Rightarrow> ('t, 'c) join_world \<Rightarrow> ('t, 'c) join_world \<times> (flow_error + unit)" where
  "join_once pack target buffers req =
     ebind (fetch_all req buffers) (\<lambda>items. send (rq_session req) target (pack items))"

partial_function (option) join_loop ::
  "('t list \<Rightarrow> 't) \<Rightarrow> entity \<Rightarrow> join_buffers \<Rightarrow> request_id \<Rightarrow> ('t, 'c) join_world
     \<Rightarrow> (('t, 'c) join_world \<times> (flow_error + unit)) option" where
  "join_loop pack target buffers req w =
     (case smallest_count (rq_session req) buffers w of
        Inl e \<Rightarrow> Some (w, Inl e)
      | Inr n \<Rightarrow>
          if n < 1 then Some (w, Inr ())
          else case join_once pack target buffers req w of
                 (w', Inl e) \<Rightarrow> Some (w', Inl e)
               | (w', Inr _) \<Rightarrow> join_loop pack target buffers req w')"

definition join_execute ::
  "('t list \<Rightarrow> 't) \<Rightarrow> entity \<Rightarrow> join_buffers \<Rightarrow> entity \<Rightarrow> ('t, 'c) join_world
     \<Rightarrow> (('t, 'c) join_world \<times> (flow_error + unit)) option" where
  "join_execute pack target buffers source w =
     (case receive source w of
        (w', Inl e) \<Rightarrow> Some (w', Inl e)
      | (w', Inr input) \<Rightarrow> join_loop pack target buffers (request_of source input) w')"

subsection \<open>What one join takes\<close>

definition held :: "entity \<Rightarrow> ('t, 'c) join_world \<Rightarrow> entity \<Rightarrow> 't list" where
  "held session w b = (case hm_get (jn_buffers w) b of None \<Rightarrow> [] | Some storage \<Rightarrow> storage_iter session storage)"

definition known :: "join_buffers \<Rightarrow> ('t, 'c) join_world \<Rightarrow> bool" where
  "known buffers w \<longleftrightarrow> fst ` set buffers \<subseteq> dom (hm_get (jn_buffers w))"

definition flow_part :: "('t, 'c) join_world \<Rightarrow> ('t, 'c) flow_world" where
  "flow_part w = \<lparr>fl_messages = fl_messages w, fl_roster = fl_roster w, fl_disposals = fl_disposals w, fl_cancels = fl_cancels w\<rparr>"

lemma buffered_count_held:
  assumes "b \<in> dom (hm_get (jn_buffers w))"
  shows "buffered_count session w b = Inr (length (held session w b))"
  using assms by (auto simp: buffered_count_def held_def storage_count_def storage_iter_def split: option.split)

lemma fold_min_zero: "fold min ns n = (0 :: nat) \<longleftrightarrow> (\<exists>x \<in> set (n # ns). x = 0)"
  by (induction ns arbitrary: n) (auto simp: min_def)

lemma smallest_count_held:
  assumes "known buffers w"
  shows "\<exists>n. smallest_count session buffers w = Inr n \<and> (n < 1 \<longleftrightarrow> buffers = [] \<or> (\<exists>b \<in> fst ` set buffers. held session w b = []))"
proof -
  let ?counts = "map (\<lambda>b. length (held session w b)) (map fst buffers)"
  have "list_all2 (\<lambda>b n. buffered_count session w b = Inr n) (map fst buffers) ?counts"
    using assms by (auto simp: list_all2_conv_all_nth known_def buffered_count_held image_subset_iff)
  then have "rmap (buffered_count session w) (map fst buffers) = Inr ?counts" by (simp only: rmap_eq_Inr)
  moreover have "(case ?counts of [] \<Rightarrow> 0 | n # ns \<Rightarrow> fold min ns n) < (1 :: nat) \<longleftrightarrow>
      buffers = [] \<or> (\<exists>b \<in> fst ` set buffers. held session w b = [])"
    by (cases buffers) (force simp: fold_min_zero)+
  ultimately show ?thesis by (simp add: smallest_count_def)
qed

lemma pull_held:
  assumes "held (rq_session req) w b = x # xs"
  shows "\<exists>w'. pull_for_join req b w = (w', Inr x) \<and> held (rq_session req) w' = (held (rq_session req) w)(b := xs)
    \<and> dom (hm_get (jn_buffers w')) = dom (hm_get (jn_buffers w)) \<and> flow_part w' = flow_part w"
proof -
  obtain storage where st: "hm_get (jn_buffers w) b = Some storage" "storage_iter (rq_session req) storage = x # xs"
    using assms by (auto simp: held_def split: option.splits)
  let ?m = "\<lparr>bm_storage = storage, bm_sequence = 0, bm_session = rq_session req\<rparr>"
  have active: "manager_active ?m"
    using st(2) by (auto simp: manager_active_def manager_queue_def storage_iter_def split: option.splits)
  obtain m r where p: "manager_pull ?m = (m, r)" by fastforce
  have iter: "manager_iter ?m = x # xs" using st(2) by (simp add: manager_iter_def)
  then have r: "r = Some x" "manager_iter m = xs"
    using manager_pull_refines [OF active p] by (simp_all add: first_entry_def)
  have "bm_session m = rq_session req" using p by (auto simp: manager_pull_def set_queue_def split: option.splits)
  then have "storage_iter (rq_session req) (bm_storage m) = xs" using r(2) by (simp add: manager_iter_def)
  then show ?thesis
    using st(1) p r(1) by (auto simp: pull_for_join_def held_def fun_eq_iff flow_part_def)
qed

lemma clone_held:
  assumes "held (rq_session req) w b \<noteq> []"
  shows "clone_for_join req b w = (w, Inr (last (held (rq_session req) w b)))"
proof -
  obtain storage where st: "hm_get (jn_buffers w) b = Some storage" "storage_iter (rq_session req) storage \<noteq> []"
    using assms by (auto simp: held_def split: option.splits)
  have "storage_newest (rq_session req) storage = Some (last (storage_iter (rq_session req) storage))"
    using manager_reads(4) [of "\<lparr>bm_storage = storage, bm_sequence = 0, bm_session = rq_session req\<rparr>"] st(2)
    by (simp add: manager_newest_def manager_iter_def last_entry_def)
  then show ?thesis using st(1) by (simp add: clone_for_join_def or_error_def held_def)
qed

text \<open>The item that the join number \<open>i\<close> makes of what is held now.\<close>

definition joined_item :: "entity \<Rightarrow> ('t, 'c) join_world \<Rightarrow> nat \<Rightarrow> entity \<times> fetch_behavior \<Rightarrow> 't" where
  "joined_item session w i = (\<lambda>(b, f). case f of FetchPull \<Rightarrow> held session w b ! i | FetchClone \<Rightarrow> last (held session w b))"

definition after_joins :: "entity \<Rightarrow> join_buffers \<Rightarrow> ('t, 'c) join_world \<Rightarrow> nat \<Rightarrow> entity \<Rightarrow> 't list" where
  "after_joins session buffers w n b =
     (if (b, FetchPull) \<in> set buffers then drop n (held session w b) else held session w b)"

lemma fetch_held:
  assumes "held (rq_session req) w (fst b) \<noteq> []"
  shows "\<exists>w'. fetch_for_join req b w = (w', Inr (joined_item (rq_session req) w 0 b))
    \<and> held (rq_session req) w' = after_joins (rq_session req) [b] w 1
    \<and> dom (hm_get (jn_buffers w')) = dom (hm_get (jn_buffers w)) \<and> flow_part w' = flow_part w"
proof (cases b)
  case (Pair e f)
  show ?thesis
  proof (cases f)
    case FetchPull
    obtain x xs where "held (rq_session req) w e = x # xs" using assms Pair by (cases "held (rq_session req) w e") auto
    then show ?thesis using pull_held [of req w e x xs] Pair FetchPull by (auto simp: joined_item_def after_joins_def fun_eq_iff)
  next
    case FetchClone
    then show ?thesis using clone_held [of req w e] assms Pair by (auto simp: joined_item_def after_joins_def fun_eq_iff)
  qed
qed

lemma fetch_all_held:
  assumes "distinct (map fst buffers)" and "\<And>b. b \<in> fst ` set buffers \<Longrightarrow> held (rq_session req) w b \<noteq> []"
  shows "\<exists>w'. fetch_all req buffers w = (w', Inr (map (joined_item (rq_session req) w 0) buffers))
    \<and> held (rq_session req) w' = after_joins (rq_session req) buffers w 1
    \<and> dom (hm_get (jn_buffers w')) = dom (hm_get (jn_buffers w)) \<and> flow_part w' = flow_part w"
  using assms
proof (induction buffers arbitrary: w)
  case (Cons b bs)
  let ?s = "rq_session req"
  obtain w1 where w1: "fetch_for_join req b w = (w1, Inr (joined_item ?s w 0 b))" "held ?s w1 = after_joins ?s [b] w 1"
    "dom (hm_get (jn_buffers w1)) = dom (hm_get (jn_buffers w))" "flow_part w1 = flow_part w"
    using fetch_held [of req w b] Cons.prems(2) by auto
  have same: "held ?s w1 c = held ?s w c" if "c \<in> fst ` set bs" for c
  proof -
    have "fst b \<notin> fst ` set bs" using Cons.prems(1) by simp
    then have "c \<noteq> fst b" using that by blast
    then show ?thesis using w1(2) by (auto simp: after_joins_def)
  qed
  obtain w2 where w2: "fetch_all req bs w1 = (w2, Inr (map (joined_item ?s w1 0) bs))" "held ?s w2 = after_joins ?s bs w1 1"
    "dom (hm_get (jn_buffers w2)) = dom (hm_get (jn_buffers w1))" "flow_part w2 = flow_part w1"
    using Cons.IH [of w1] Cons.prems same by force
  have same': "held ?s w1 c = held ?s w c" if "(c, f) \<in> set bs" for c f
    by (rule same) (use that in force)
  have "map (joined_item ?s w1 0) bs = map (joined_item ?s w 0) bs"
    by (auto simp: joined_item_def same' split: fetch_behavior.split)
  moreover have "held ?s w2 c = after_joins ?s (b # bs) w 1 c" for c
  proof (cases "(c, FetchPull) \<in> set bs")
    case True
    then have "c \<in> fst ` set bs" by force
    then show ?thesis using same w2(2) True by (simp add: after_joins_def)
  qed (use w1(2) w2(2) in \<open>simp add: after_joins_def\<close>)
  ultimately show ?case using w1 w2 by (auto simp: ebind_def return_def)
qed (auto simp: return_def after_joins_def fun_eq_iff)

lemma join_once_held:
  assumes "distinct (map fst buffers)" and "\<And>b. b \<in> fst ` set buffers \<Longrightarrow> held (rq_session req) w b \<noteq> []"
    and "flows (rq_session req) [target] w"
  shows "\<exists>w'. join_once pack target buffers req w = (w', Inr ()) \<and> flows (rq_session req) [target] w'
    \<and> held (rq_session req) w' = after_joins (rq_session req) buffers w 1
    \<and> dom (hm_get (jn_buffers w')) = dom (hm_get (jn_buffers w))
    \<and> (\<forall>x. waiting_at x w' = waiting_at x w
          @ (if x = target then [(rq_session req, pack (map (joined_item (rq_session req) w 0) buffers))] else []))"
proof -
  let ?s = "rq_session req"
  let ?item = "pack (map (joined_item ?s w 0) buffers)"
  obtain w1 where w1: "fetch_all req buffers w = (w1, Inr (map (joined_item ?s w 0) buffers))"
    "held ?s w1 = after_joins ?s buffers w 1" "dom (hm_get (jn_buffers w1)) = dom (hm_get (jn_buffers w))" "flow_part w1 = flow_part w"
    using fetch_all_held [OF assms(1,2)] by blast
  have m: "fl_messages w1 = fl_messages w" using w1(4) by (simp add: flow_part_def)
  then have "flows ?s [target] w1" using assms(3) by (simp add: flows_def)
  then obtain m roster where s: "send ?s target ?item w1 = (w1\<lparr>fl_messages := m, fl_roster := roster\<rparr>, Inr ())"
    "deliverable ?s [target] m" "\<And>x. pending x m = waiting_at x w1 @ (if x = target then [(?s, ?item)] else [])"
    using send_flows [of ?s "[target]" w1 target ?item] by auto
  have "join_once pack target buffers req w = (w1\<lparr>fl_messages := m, fl_roster := roster\<rparr>, Inr ())"
    using w1(1) s(1) by (simp add: join_once_def ebind_def)
  moreover have "held ?s (w1\<lparr>fl_messages := m, fl_roster := roster\<rparr>) = held ?s w1" by (simp add: held_def fun_eq_iff)
  ultimately show ?thesis using w1(2,3) s(2,3) m by (auto simp: flows_def waiting_at_def)
qed

definition joined_messages ::
  "('t list \<Rightarrow> 't) \<Rightarrow> entity \<Rightarrow> join_buffers \<Rightarrow> ('t, 'c) join_world \<Rightarrow> nat \<Rightarrow> (entity \<times> 't) list" where
  "joined_messages pack session buffers w n =
     map (\<lambda>i. (session, pack (map (joined_item session w i) buffers))) [0..<n]"

lemma joined_item_later:
  assumes "held session w' = after_joins session buffers w 1" and "b \<in> set buffers" and "distinct (map fst buffers)"
    and "\<And>c. (c, FetchPull) \<in> set buffers \<Longrightarrow> Suc i < length (held session w c)"
  shows "joined_item session w' i b = joined_item session w (Suc i) b"
proof (cases b)
  case (Pair c f)
  show ?thesis
  proof (cases f)
    case FetchPull
    then show ?thesis using assms(1,2) assms(4) [of c] Pair by (simp add: joined_item_def after_joins_def nth_drop)
  next
    case FetchClone
    then have "(c, FetchPull) \<notin> set buffers"
      using assms(2,3) Pair by (metis distinct_map fetch_behavior.distinct(1) fst_conv inj_onD prod.inject)
    then show ?thesis using assms(1) Pair FetchClone by (simp add: joined_item_def after_joins_def)
  qed
qed

lemma join_loop_held:
  assumes "distinct (map fst buffers)" and "known buffers w" and "flows (rq_session req) [target] w"
    and "(p, FetchPull) \<in> set buffers" and "length (held (rq_session req) w p) = n"
    and "\<And>b. (b, FetchPull) \<in> set buffers \<Longrightarrow> n \<le> length (held (rq_session req) w b)"
    and "\<And>b. (b, FetchClone) \<in> set buffers \<Longrightarrow> held (rq_session req) w b \<noteq> []"
  shows "\<exists>w'. join_loop pack target buffers req w = Some (w', Inr ())
    \<and> held (rq_session req) w' = after_joins (rq_session req) buffers w n
    \<and> (\<forall>x. waiting_at x w' = waiting_at x w
          @ (if x = target then joined_messages pack (rq_session req) buffers w n else []))"
  using assms(2-)
proof (induction n arbitrary: w)
  case 0
  let ?s = "rq_session req"
  have "held ?s w p = []" "p \<in> fst ` set buffers" using 0(3,4) by force+
  then obtain k where "smallest_count ?s buffers w = Inr k" "k < 1"
    using smallest_count_held [OF 0(1), of ?s] by auto
  then have "join_loop pack target buffers req w = Some (w, Inr ())" by (subst join_loop.simps) simp
  then show ?case by (auto simp: after_joins_def joined_messages_def fun_eq_iff)
next
  case (Suc n)
  let ?s = "rq_session req"
  have held: "held ?s w b \<noteq> []" if "b \<in> fst ` set buffers" for b
  proof -
    have "\<exists>f. (b, f) \<in> set buffers" using that by force
    then obtain f where "(b, f) \<in> set buffers" ..
    then show ?thesis using Suc.prems(5,6) [of b] by (cases f) fastforce+
  qed
  have "buffers \<noteq> []" using Suc.prems(3) by auto
  then obtain k where k: "smallest_count ?s buffers w = Inr k" "\<not> k < 1"
    using smallest_count_held [OF Suc.prems(1), of ?s] held by blast
  obtain w1 where w1: "join_once pack target buffers req w = (w1, Inr ())" "flows ?s [target] w1"
    "held ?s w1 = after_joins ?s buffers w 1" "dom (hm_get (jn_buffers w1)) = dom (hm_get (jn_buffers w))"
    "\<And>x. waiting_at x w1 = waiting_at x w @ (if x = target then [(?s, pack (map (joined_item ?s w 0) buffers))] else [])"
    using join_once_held [OF assms(1) held Suc.prems(2), where pack = pack] by blast
  have step: "join_loop pack target buffers req w = join_loop pack target buffers req w1"
    using k w1(1) by (subst join_loop.simps) simp
  have clones: "held ?s w1 b \<noteq> []" if "(b, FetchClone) \<in> set buffers" for b
  proof -
    have "(b, FetchPull) \<notin> set buffers"
      using assms(1) that by (metis distinct_map fetch_behavior.distinct(1) fst_conv inj_onD prod.inject)
    then show ?thesis using w1(3) Suc.prems(6) [OF that] by (simp add: after_joins_def)
  qed
  have "known buffers w1" using Suc.prems(1) w1(4) by (simp add: known_def)
  moreover have "length (held ?s w1 p) = n" using w1(3) Suc.prems(3,4) by (simp add: after_joins_def)
  moreover have "n \<le> length (held ?s w1 b)" if "(b, FetchPull) \<in> set buffers" for b
    using w1(3) that Suc.prems(5) [OF that] by (simp add: after_joins_def)
  ultimately obtain w' where w': "join_loop pack target buffers req w1 = Some (w', Inr ())"
    "held ?s w' = after_joins ?s buffers w1 n"
    "\<And>x. waiting_at x w' = waiting_at x w1 @ (if x = target then joined_messages pack ?s buffers w1 n else [])"
    using Suc.IH [of w1] w1(2) Suc.prems(3) clones by blast
  have later: "map (joined_item ?s w1 i) buffers = map (joined_item ?s w (Suc i)) buffers" if "i < n" for i
  proof (rule map_cong [OF refl])
    fix b assume "b \<in> set buffers"
    then show "joined_item ?s w1 i b = joined_item ?s w (Suc i) b"
      by (rule joined_item_later [OF w1(3) _ assms(1)]) (use Suc.prems(5) that in fastforce)
  qed
  have "joined_messages pack ?s buffers w1 n = map (\<lambda>i. (?s, pack (map (joined_item ?s w (Suc i)) buffers))) [0..<n]"
    unfolding joined_messages_def by (rule map_cong [OF refl]) (simp add: later)
  then have "joined_messages pack ?s buffers w (Suc n) =
      (?s, pack (map (joined_item ?s w 0) buffers)) # joined_messages pack ?s buffers w1 n"
    unfolding joined_messages_def upt_conv_Cons [OF zero_less_Suc] map_Suc_upt [symmetric] by simp
  then have "waiting_at x w' = waiting_at x w @ (if x = target then joined_messages pack ?s buffers w (Suc n) else [])" for x
    using w1(5) [of x] w'(3) [of x] by simp
  moreover have "held ?s w' = after_joins ?s buffers w (Suc n)"
    using w1(3) w'(2) by (auto simp: after_joins_def fun_eq_iff)
  ultimately show ?case using step w'(1) by auto
qed

text \<open>A round of a join notifies, once each, the listeners of the buffers that it pulls from.\<close>

definition pulled_from :: "join_buffers \<Rightarrow> entity list" where
  "pulled_from buffers = map fst (filter (\<lambda>b. snd b = FetchPull) buffers)"

lemma fetch_for_join_updates:
  "fetch_for_join req b w = (w', Inr x) \<Longrightarrow> jn_updates w' = jn_updates w @ map (\<lambda>b. (req, b)) (pulled_from [b])"
  by (cases b; cases "snd b")
    (auto simp: pull_for_join_def clone_for_join_def or_error_def pulled_from_def split: option.splits prod.splits)

lemma fetch_all_updates:
  "fetch_all req buffers w = (w', Inr items) \<Longrightarrow> jn_updates w' = jn_updates w @ map (\<lambda>b. (req, b)) (pulled_from buffers)"
proof (induction buffers arbitrary: w items)
  case (Cons b buffers)
  then obtain w1 x xs where "fetch_for_join req b w = (w1, Inr x)" "fetch_all req buffers w1 = (w', Inr xs)"
    by (auto simp: ebind_def return_def split: prod.splits sum.splits)
  with Cons.IH show ?case by (auto dest!: fetch_for_join_updates simp: pulled_from_def)
qed (simp add: return_def pulled_from_def)

lemma join_once_updates:
  assumes "join_once pack target buffers req w = (w', Inr ())"
  shows "jn_updates w' = jn_updates w @ map (\<lambda>b. (req, b)) (pulled_from buffers)"
proof -
  obtain w1 items where "fetch_all req buffers w = (w1, Inr items)" "send (rq_session req) target (pack items) w1 = (w', Inr ())"
    using assms by (auto simp: join_once_def ebind_def split: prod.splits sum.splits)
  then show ?thesis by (auto dest!: fetch_all_updates simp: send_def Let_def split: prod.splits)
qed

subsection \<open>Properties\<close>

lemma receive_join_parts:
  assumes "receive source w = (w', r)"
  shows "jn_buffers w' = jn_buffers w"
  using assms by (auto simp: receive_def Let_def split: prod.splits)

text \<open>The number of joins that can be made.\<close>

definition possible_joins :: "entity \<Rightarrow> join_buffers \<Rightarrow> ('t, 'c) join_world \<Rightarrow> nat" where
  "possible_joins session buffers w =
     (if list_ex (\<lambda>b. held session w (fst b) = []) buffers then 0
      else Min (set (map (\<lambda>b. length (held session w (fst b))) (filter (\<lambda>b. snd b = FetchPull) buffers))))"

definition demo_storage :: "nat list \<Rightarrow> nat buffer_storage" where
  "demo_storage messages =
     \<lparr>bst_settings = buffer_settings_new KeepAll,
      bst_reverse_queues = [(7, map (\<lambda>m. \<lparr>be_seq = 0, be_message = m\<rparr>) (rev messages))]\<rparr>"

definition demo_join :: "(nat, nat) join_world" where
  "demo_join = flow_world.extend demo_flow
     \<lparr>jn_buffers = [(10, demo_storage [1, 2]), (11, demo_storage [30, 40, 50]), (12, demo_storage [500, 600])], jn_updates = []\<rparr>"

lemma demo_join_parts:
  "waiting_at 3 demo_join = [(7, 5)]" "waiting_at 4 demo_join = []" "flows 7 [4] demo_join"
  "jn_buffers demo_join = [(10, demo_storage [1, 2]), (11, demo_storage [30, 40, 50]), (12, demo_storage [500, 600])]"
  using demo_flow_waiting demo_flow_flows [of "[4]"]
  by (simp_all add: demo_join_def flow_world.defs waiting_at_def flows_def)

lemma demo_join_held:
  "held 7 demo_join 10 = [1, 2]" "held 7 demo_join 11 = [30, 40, 50]" "held 7 demo_join 12 = [500, 600]"
  by (simp_all add: held_def demo_join_parts demo_storage_def storage_iter_def)

text \<open>C6: A join that pulls from at least one of its buffers always returns, and it is the zip of them: it
  sends as many items as the shortest buffer it pulls from holds, or none if one of its buffers is
  empty; the item number i is made of the i-th oldest message of every buffer it pulls from and of
  the newest message of the others, and exactly the pulled messages are gone. (The unit messages by which
  the listeners of the buffers learn of the pulls are recorded in \<open>jn_updates\<close>.)\<close>
theorem join_is_zip:
  assumes "distinct (map fst buffers)" and "known buffers w" and "(p, FetchPull) \<in> set buffers"
    and "waiting_at source w = (session, t) # rest" and "flows session [target] w"
  shows "\<exists>w'. join_execute pack target buffers source w = Some (w', Inr ())
    \<and> held session w' = after_joins session buffers w (possible_joins session buffers w)
    \<and> (\<forall>x. waiting_at x w' = (if x = source then rest else waiting_at x w)
          @ (if x = target then joined_messages pack session buffers w (possible_joins session buffers w) else []))"
proof -
  obtain m input where r: "receive source w = (w\<lparr>fl_messages := m\<rparr>, Inr input)" "in_session input = session"
    "flows session [target] (w\<lparr>fl_messages := m\<rparr>)"
    "\<And>x. waiting_at x (w\<lparr>fl_messages := m\<rparr>) = (if x = source then rest else waiting_at x w)"
    using receive_flows [OF assms(4,5)] by blast
  let ?w = "w\<lparr>fl_messages := m\<rparr>" and ?req = "request_of source input"
  have held: "held session ?w = held session w" by (simp add: held_def fun_eq_iff)
  have same: "joined_messages pack session buffers ?w n = joined_messages pack session buffers w n"
    "after_joins session buffers ?w n = after_joins session buffers w n" for n
    unfolding joined_messages_def joined_item_def after_joins_def fun_eq_iff held by simp_all
  have known: "known buffers ?w" using assms(2) by (simp add: known_def)
  have run: "join_execute pack target buffers source w = join_loop pack target buffers ?req ?w"
    using r(1) by (simp add: join_execute_def)
  show ?thesis
  proof (cases "list_ex (\<lambda>b. held session w (fst b) = []) buffers")
    case True
    then obtain k where "smallest_count session buffers ?w = Inr k" "k < 1"
      using smallest_count_held [OF known, of session] held by (auto simp: list_ex_iff)
    then have "join_loop pack target buffers ?req ?w = Some (?w, Inr ())"
      using r(2) by (subst join_loop.simps) simp
    then show ?thesis using run r(4) True held
      by (intro exI [of _ ?w]) (simp add: possible_joins_def joined_messages_def after_joins_def fun_eq_iff)
  next
    case False
    let ?lens = "set (map (\<lambda>b. length (held session w (fst b))) (filter (\<lambda>b. snd b = FetchPull) buffers))"
    have n: "possible_joins session buffers w = Min ?lens" using False by (simp add: possible_joins_def)
    have "length (held session w p) \<in> ?lens" using assms(3) by force
    then have "Min ?lens \<in> ?lens" by (intro Min_in) auto
    then obtain b where b: "(b, FetchPull) \<in> set buffers" "length (held session w b) = Min ?lens" by auto
    have le: "Min ?lens \<le> length (held session w c)" if "(c, FetchPull) \<in> set buffers" for c
      by (rule Min_le) (use that in force)+
    have clone: "held session w c \<noteq> []" if "(c, FetchClone) \<in> set buffers" for c
      using False that by (force simp: list_ex_iff)
    have req: "rq_session ?req = session" using r(2) by simp
    have loop: "\<exists>w'. join_loop pack target buffers ?req ?w = Some (w', Inr ())
        \<and> held (rq_session ?req) w' = after_joins (rq_session ?req) buffers ?w (Min ?lens)
        \<and> (\<forall>x. waiting_at x w' = waiting_at x ?w
            @ (if x = target then joined_messages pack (rq_session ?req) buffers ?w (Min ?lens) else []))"
      by (rule join_loop_held [OF assms(1) known _ b(1)]) (use r(2,3) b(2) le clone held in simp_all)
    show ?thesis using loop unfolding run n req same r(4) .
  qed
qed

lemma join_is_zip_witness:
  "\<exists>w'. join_execute sum_list 4 [(10, FetchPull), (11, FetchPull), (12, FetchClone)] 3 demo_join = Some (w', Inr ())
    \<and> waiting_at 4 w' = [(7, 631), (7, 642)] \<and> held 7 w' 10 = [] \<and> held 7 w' 11 = [50] \<and> held 7 w' 12 = [500, 600]"
proof -
  let ?bufs = "[(10 :: nat, FetchPull), (11, FetchPull), (12, FetchClone)]"
  have n: "possible_joins 7 ?bufs demo_join = 2"
    by (simp add: possible_joins_def demo_join_held)
  have "joined_messages sum_list 7 ?bufs demo_join 2 = [(7, 631), (7, 642)]"
    by (simp add: joined_messages_def joined_item_def demo_join_held numeral_2_eq_2 upt_rec)
  then show ?thesis
    using join_is_zip [of ?bufs demo_join 10 3 7 5 "[]" 4 sum_list] demo_join_parts n
    by (fastforce simp: known_def after_joins_def demo_join_held)
qed

text \<open>C39: A join that only copies from its buffers never returns once all of them hold a message: nothing
  that it does empties a buffer.\<close>
theorem join_of_copies_never_returns:
  assumes "distinct (map fst buffers)" and "known buffers w" and "buffers \<noteq> []"
    and "list_all (\<lambda>b. snd b = FetchClone \<and> held session w (fst b) \<noteq> []) buffers"
    and "waiting_at source w = (session, t) # rest" and "flows session [target] w"
  shows "join_execute pack target buffers source w = None"
proof -
  let ?full = "\<lambda>buffers req target w. distinct (map fst buffers) \<and> buffers \<noteq> [] \<and> list_all (\<lambda>b. snd b = FetchClone) buffers
      \<and> known buffers w \<and> flows (rq_session req) [target] w \<and> (\<forall>b \<in> fst ` set buffers. held (rq_session req) w b \<noteq> [])"
  have diverges: "\<not> ?full buffers req target w" if "join_loop pack target buffers req w = Some r" for req w r
  proof (rule join_loop.raw_induct [OF _ that, where P = "\<lambda>pack target buffers req w r. \<not> ?full buffers req target w"], rule notI)
    fix loop pack target buffers req w r
    assume IH: "\<And>pack target buffers req w r. loop pack target buffers req w = Some r \<Longrightarrow> \<not> ?full buffers req target w"
      and run: "(case smallest_count (rq_session req) buffers w of
          Inl e \<Rightarrow> Some (w, Inl e)
        | Inr n \<Rightarrow> if n < 1 then Some (w, Inr ())
            else case join_once pack target buffers req w of
                (w', Inl e) \<Rightarrow> Some (w', Inl e)
              | (w', Inr _) \<Rightarrow> loop pack target buffers req w') = Some r"
      and full: "?full buffers req target w"
    let ?s = "rq_session req"
    obtain k where "smallest_count ?s buffers w = Inr k" "\<not> k < 1"
      using smallest_count_held [of buffers w ?s] full by blast
    moreover obtain w1 where w1: "join_once pack target buffers req w = (w1, Inr ())" "flows ?s [target] w1"
      "held ?s w1 = after_joins ?s buffers w 1" "dom (hm_get (jn_buffers w1)) = dom (hm_get (jn_buffers w))"
      using join_once_held [of buffers req w target pack] full by blast
    ultimately have "loop pack target buffers req w1 = Some r" using run by simp
    moreover have "(b, FetchPull) \<notin> set buffers" for b using full by (force simp: list_all_iff)
    then have "held ?s w1 = held ?s w" using w1(3) by (simp add: after_joins_def fun_eq_iff)
    moreover have "known buffers w1" using full w1(4) by (simp add: known_def)
    ultimately show False using IH [of pack target buffers req w1 r] full w1(2) by simp
  qed
  obtain m input where r: "receive source w = (w\<lparr>fl_messages := m\<rparr>, Inr input)" "in_session input = session"
    "flows session [target] (w\<lparr>fl_messages := m\<rparr>)"
    using receive_flows [OF assms(5,6)] by blast
  let ?w = "w\<lparr>fl_messages := m\<rparr>" and ?req = "request_of source input"
  have held: "held session ?w = held session w" by (simp add: held_def fun_eq_iff)
  have "join_loop pack target buffers ?req ?w = None"
  proof (cases "join_loop pack target buffers ?req ?w")
    case (Some x)
    from diverges [OF this] assms(1-4) r(2,3) held have False by (auto simp: list_all_iff known_def)
    then show ?thesis ..
  qed
  then show ?thesis using r(1) by (simp add: join_execute_def)
qed

lemma join_of_copies_never_returns_witness: "join_execute sum_list 4 [(11, FetchClone), (12, FetchClone)] 3 demo_join = None"
  by (rule join_of_copies_never_returns [OF _ _ _ _ demo_join_parts(1,3)])
    (simp_all add: known_def demo_join_parts demo_join_held)

end
