(* ===== verification/Wiring.thy ===== *)
theory Wiring
  imports Effects BufferNode
begin

text \<open>
  How operations are connected: the components that record the inputs and targets of an operation
  (\<open>src/src/operation.rs\<close>), the \<open>Connect\<close> command of \<open>src/src/builder/connect.rs\<close>, the listeners of
  buffers (\<open>src/src/buffer/buffering.rs\<close>) and the search downstream, \<open>is_downstream_of\<close>.

  \<^item> A world maps every spawned entity to the components it has, \<open>None\<close> for those it does not have.
    The anonymous and the named targets of a \<open>StreamTargetMap\<close> are two lists.
  \<^item> The search for activity walks the inputs, the search downstream walks the targets. \<open>mirrored\<close>
    says that the two agree, and connecting operations keeps it.
\<close>

subsection \<open>State\<close>

record wired_node =
  wn_single_input :: "entity list option"
  wn_single_target :: "entity option"
  wn_fork_targets :: "entity list option"
  wn_streams :: "(entity list \<times> entity list) option"
  wn_entry_for :: "entity option"
  wn_enter_scope :: "entity option"

record wiring =
  wr_nodes :: "(entity, wired_node) hmap"
  wr_broken :: "entity list"

type_synonym 'a wiring_operation = "wiring \<Rightarrow> wiring \<times> (operation_error + 'a)"

definition node_of :: "entity \<Rightarrow> wired_node wiring_operation" where
  "node_of e = or_error Broken (\<lambda>w. hm_get (wr_nodes w) e)"

definition on_node :: "entity \<Rightarrow> (wired_node \<Rightarrow> wired_node) \<Rightarrow> unit wiring_operation" where
  "on_node e f = ebind (node_of e) (\<lambda>n. modify (\<lambda>w. w\<lparr>wr_nodes := hm_insert e (f n) (wr_nodes w)\<rparr>))"

definition despawn_node :: "entity \<Rightarrow> unit wiring_operation" where
  "despawn_node e = ebind (node_of e) (\<lambda>_. modify (\<lambda>w. w\<lparr>wr_nodes := AList.delete e (wr_nodes w)\<rparr>))"

subsection \<open>Inputs\<close>

definition add_input :: "entity \<Rightarrow> entity list \<Rightarrow> entity list" where
  "add_input input self = (if input \<in> set self then self else self @ [input])"

definition add_single_input :: "entity \<Rightarrow> wired_node \<Rightarrow> wired_node" where
  "add_single_input input n =
     n\<lparr>wn_single_input := Some (case wn_single_input n of
        Some inputs \<Rightarrow> add_input input inputs | None \<Rightarrow> [input])\<rparr>"

definition add_listener_to_source :: "entity \<Rightarrow> entity \<Rightarrow> unit wiring_operation" where
  "add_listener_to_source source listener =
     ebind (or_error Broken (\<lambda>w. Option.bind (hm_get (wr_nodes w) source) wn_fork_targets)) (\<lambda>targets.
     ebind (on_node source (\<lambda>n. n\<lparr>wn_fork_targets := Some (add_input listener targets)\<rparr>)) (\<lambda>_.
       on_node listener (add_single_input source)))"

subsection \<open>Connecting\<close>

definition redirect_target :: "entity \<Rightarrow> entity \<Rightarrow> entity \<Rightarrow> entity" where
  "redirect_target original new target = (if target = original then new else target)"

definition retarget :: "entity \<Rightarrow> entity \<Rightarrow> wired_node \<Rightarrow> wired_node" where
  "retarget original new n =
     n\<lparr>wn_single_target := map_option (redirect_target original new) (wn_single_target n),
       wn_fork_targets := map_option (map (redirect_target original new)) (wn_fork_targets n),
       wn_streams := map_option (map_prod (map (redirect_target original new)) (map (redirect_target original new)))
         (wn_streams n)\<rparr>"

definition targets_of :: "('m) wired_node_scheme \<Rightarrow> entity list" where
  "targets_of n =
     (case wn_single_target n of Some t \<Rightarrow> [t] | None \<Rightarrow> [])
     @ (case wn_fork_targets n of Some ts \<Rightarrow> ts | None \<Rightarrow> [])
     @ (case wn_streams n of Some (anonymous, named) \<Rightarrow> anonymous @ named | None \<Rightarrow> [])"

definition connect_input :: "entity \<Rightarrow> entity \<Rightarrow> entity \<Rightarrow> unit wiring_operation" where
  "connect_input original new input =
     ebind (node_of input) (\<lambda>n.
     ebind (on_node input (retarget original new)) (\<lambda>_.
     ebind (modify (\<lambda>w. if original \<in> set (targets_of n) then w else w\<lparr>wr_broken := wr_broken w @ [input]\<rparr>)) (\<lambda>_.
       on_node new (add_single_input input))))"

definition take_single_input :: "entity \<Rightarrow> entity list wiring_operation" where
  "take_single_input e =
     ebind (or_error Broken (\<lambda>w. Option.bind (hm_get (wr_nodes w) e) wn_single_input)) (\<lambda>inputs.
     ebind (on_node e (\<lambda>n. n\<lparr>wn_single_input := None\<rparr>)) (\<lambda>_. return inputs))"

definition try_connect :: "entity \<Rightarrow> entity \<Rightarrow> unit wiring_operation" where
  "try_connect original new w =
     (case Option.bind (hm_get (wr_nodes w) original) wn_entry_for of
        Some scope \<Rightarrow>
          ebind (on_node new (\<lambda>n. n\<lparr>wn_entry_for := Some scope\<rparr>)) (\<lambda>_.
          ebind (or_error Broken (\<lambda>w. Option.bind (hm_get (wr_nodes w) scope) wn_enter_scope)) (\<lambda>_.
          ebind (on_node scope (\<lambda>n. n\<lparr>wn_enter_scope := Some new\<rparr>)) (\<lambda>_.
            despawn_node original))) w
      | None \<Rightarrow>
          ebind (take_single_input original) (\<lambda>old_inputs.
          ebind (each (connect_input original new) old_inputs) (\<lambda>_.
            despawn_node original)) w)"

subsection \<open>Inputs mirror targets\<close>

definition inputs_at :: "wiring \<Rightarrow> entity \<Rightarrow> entity set" where
  "inputs_at w t = (case hm_get (wr_nodes w) t of None \<Rightarrow> {} | Some n \<Rightarrow>
     (case wn_single_input n of None \<Rightarrow> {} | Some inputs \<Rightarrow> set inputs))"

definition targets_at :: "wiring \<Rightarrow> entity \<Rightarrow> entity list" where
  "targets_at w a = (case hm_get (wr_nodes w) a of None \<Rightarrow> [] | Some n \<Rightarrow> targets_of n)"

definition mirrored :: "wiring \<Rightarrow> bool" where
  "mirrored w \<longleftrightarrow> (\<forall>a t. t \<in> set (targets_at w a) \<longleftrightarrow> a \<in> inputs_at w t)"

definition spawned :: "wiring \<Rightarrow> entity set" where
  "spawned w = dom (hm_get (wr_nodes w))"

lemma node_of_spawned: "e \<in> spawned w \<Longrightarrow> node_of e w = (w, Inr (the (hm_get (wr_nodes w) e)))"
  by (auto simp: spawned_def node_of_def or_error_def)

lemma on_node_spawned:
  "e \<in> spawned w \<Longrightarrow>
     on_node e f w = (w\<lparr>wr_nodes := hm_insert e (f (the (hm_get (wr_nodes w) e))) (wr_nodes w)\<rparr>, Inr ())"
  by (simp add: on_node_def node_of_spawned ebind_def modify_def)

lemma targets_of_retarget: "targets_of (retarget original new n) = map (redirect_target original new) (targets_of n)"
  by (auto simp: targets_of_def retarget_def split: option.split)

lemma targets_of_add_single_input [simp]: "targets_of (add_single_input input n) = targets_of n"
  by (simp add: targets_of_def add_single_input_def)

lemma set_add_single_input: "wn_single_input (add_single_input input n) = Some inputs \<Longrightarrow>
    set inputs = insert input (case wn_single_input n of None \<Rightarrow> {} | Some is \<Rightarrow> set is)"
  by (auto simp: add_single_input_def add_input_def split: option.splits if_splits)

text \<open>What connecting one input does to the two relations.\<close>

lemma connect_input_effect:
  assumes "input \<in> spawned w" and "new \<in> spawned w" and "original \<in> set (targets_at w input)"
  shows "\<exists>w'. connect_input original new input w = (w', Inr ()) \<and> spawned w' = spawned w
    \<and> wr_broken w' = wr_broken w
    \<and> targets_at w' = (targets_at w)(input := map (redirect_target original new) (targets_at w input))
    \<and> inputs_at w' = (inputs_at w)(new := insert input (inputs_at w new))"
proof -
  obtain n where n: "hm_get (wr_nodes w) input = Some n" using assms(1) by (auto simp: spawned_def)
  let ?w1 = "w\<lparr>wr_nodes := hm_insert input (retarget original new n) (wr_nodes w)\<rparr>"
  have new1: "new \<in> spawned ?w1" using assms(2) by (auto simp: spawned_def)
  then obtain n1 where n1: "hm_get (wr_nodes ?w1) new = Some n1" unfolding spawned_def by blast
  let ?w2 = "?w1\<lparr>wr_nodes := hm_insert new (add_single_input input n1) (wr_nodes ?w1)\<rparr>"
  have run: "connect_input original new input w = (?w2, Inr ())"
    using assms n n1 new1
    by (simp add: connect_input_def node_of_spawned on_node_spawned ebind_def modify_def targets_at_def)
  have ins: "wn_single_input (retarget original new n) = wn_single_input n" by (simp add: retarget_def)
  have "targets_at ?w2 = (targets_at w)(input := map (redirect_target original new) (targets_at w input))"
    using n n1 by (auto simp: targets_at_def targets_of_retarget fun_eq_iff split: if_splits)
  moreover have "inputs_at ?w2 = (inputs_at w)(new := insert input (inputs_at w new))"
    using n n1 ins
    by (auto simp: inputs_at_def fun_eq_iff add_single_input_def add_input_def split: if_splits option.splits)
  moreover have "spawned ?w2 = spawned w" using assms(1,2) by (auto simp: spawned_def)
  ultimately show ?thesis using run by simp
qed

lemma connect_inputs_effect:
  assumes "set inputs \<subseteq> spawned w" and "new \<in> spawned w" and "original \<noteq> new"
    and "\<forall>a \<in> set inputs. original \<in> set (targets_at w a)" and "distinct inputs"
  shows "\<exists>w'. each (connect_input original new) inputs w = (w', Inr ()) \<and> spawned w' = spawned w
    \<and> wr_broken w' = wr_broken w
    \<and> targets_at w' = (\<lambda>a. if a \<in> set inputs then map (redirect_target original new) (targets_at w a) else targets_at w a)
    \<and> inputs_at w' = (inputs_at w)(new := set inputs \<union> inputs_at w new)"
  using assms
proof (induction inputs arbitrary: w)
  case (Cons a inputs)
  obtain w1 where w1: "connect_input original new a w = (w1, Inr ())" "spawned w1 = spawned w"
    "wr_broken w1 = wr_broken w"
    "targets_at w1 = (targets_at w)(a := map (redirect_target original new) (targets_at w a))"
    "inputs_at w1 = (inputs_at w)(new := insert a (inputs_at w new))"
    using connect_input_effect [of a w new original] Cons.prems by auto
  obtain w2 where w2: "each (connect_input original new) inputs w1 = (w2, Inr ())" "spawned w2 = spawned w1"
    "wr_broken w2 = wr_broken w1"
    "targets_at w2 = (\<lambda>a. if a \<in> set inputs then map (redirect_target original new) (targets_at w1 a) else targets_at w1 a)"
    "inputs_at w2 = (inputs_at w1)(new := set inputs \<union> inputs_at w1 new)"
    using Cons.IH [of w1, OF _ _ Cons.prems(3)] Cons.prems(1,2,4,5) w1(2,4) by fastforce
  have "each (connect_input original new) (a # inputs) w = (w2, Inr ())"
    using w1(1) w2(1) by (simp add: ebind_def)
  then show ?case using w1 w2 Cons.prems(5) by (auto simp: fun_eq_iff)
qed auto

lemma despawn_effect:
  assumes "e \<in> spawned w"
  shows "\<exists>w'. despawn_node e w = (w', Inr ()) \<and> spawned w' = spawned w - {e} \<and> wr_broken w' = wr_broken w
    \<and> targets_at w' = (targets_at w)(e := []) \<and> inputs_at w' = (inputs_at w)(e := {})"
  using assms
  by (auto simp: despawn_node_def node_of_spawned ebind_def modify_def spawned_def targets_at_def inputs_at_def fun_eq_iff)

subsection \<open>Connecting keeps the wiring\<close>

fun inputs_distinct :: "wired_node option \<Rightarrow> bool" where
  "inputs_distinct None = True"
| "inputs_distinct (Some n) = (case wn_single_input n of None \<Rightarrow> True | Some inputs \<Rightarrow> distinct inputs)"

definition distinct_inputs :: "wiring \<Rightarrow> bool" where
  "distinct_inputs w \<longleftrightarrow> (\<forall>e. inputs_distinct (hm_get (wr_nodes w) e))"

definition well_wired :: "wiring \<Rightarrow> bool" where
  "well_wired w \<longleftrightarrow> mirrored w \<and> distinct_inputs w"

lemma distinct_inputs_update:
  "distinct_inputs w \<Longrightarrow> hm_get nodes = (hm_get (wr_nodes w))(e := x) \<Longrightarrow> inputs_distinct x \<Longrightarrow>
     distinct_inputs (w\<lparr>wr_nodes := nodes\<rparr>)"
  by (simp add: distinct_inputs_def)

lemma keeps_on_node:
  assumes "\<And>n. inputs_distinct (Some n) \<Longrightarrow> inputs_distinct (Some (f n))"
  shows "keeps distinct_inputs (on_node e f)"
proof (rule keepsI)
  fix w assume w: "distinct_inputs w"
  show "distinct_inputs (fst (on_node e f w))"
  proof (cases "hm_get (wr_nodes w) e")
    case None
    then show ?thesis using w by (simp add: on_node_def node_of_def or_error_def ebind_def)
  next
    case (Some n)
    then have "inputs_distinct (Some n)" using w unfolding distinct_inputs_def by metis
    then have "distinct_inputs (w\<lparr>wr_nodes := hm_insert e (f n) (wr_nodes w)\<rparr>)"
      by (intro distinct_inputs_update [OF w hm_get_insert] assms)
    then show ?thesis using Some by (simp add: on_node_def node_of_def or_error_def ebind_def modify_def)
  qed
qed

lemma keeps_add_single_input: "keeps distinct_inputs (on_node e (add_single_input input))"
  by (rule keeps_on_node) (auto simp: add_single_input_def add_input_def split: option.splits)

lemma keeps_despawn_node: "keeps distinct_inputs (despawn_node e)"
proof -
  have "keeps distinct_inputs (modify (\<lambda>w. w\<lparr>wr_nodes := AList.delete e (wr_nodes w)\<rparr>))"
    by (rule keeps_modify, erule distinct_inputs_update [OF _ hm_get_delete]) simp
  then show ?thesis unfolding despawn_node_def node_of_def by (intro keeps_ebind keeps_or_error)
qed

lemma keeps_connect_input: "keeps distinct_inputs (connect_input original new input)"
proof -
  have "keeps distinct_inputs (on_node input (retarget original new))"
    by (rule keeps_on_node) (simp add: retarget_def)
  moreover have "keeps distinct_inputs (modify (\<lambda>w. if b then w else w\<lparr>wr_broken := wr_broken w @ [input]\<rparr>))" for b
    by (rule keeps_modify) (simp add: distinct_inputs_def)
  ultimately show ?thesis
    unfolding connect_input_def node_of_def
    by (intro keeps_ebind keeps_or_error keeps_add_single_input)
qed

lemma keeps_try_connect: "keeps distinct_inputs (try_connect original new)"
proof (rule keepsI)
  fix w assume w: "distinct_inputs w"
  have on: "keeps distinct_inputs (on_node e (\<lambda>n. n\<lparr>wn_entry_for := x\<rparr>))"
    "keeps distinct_inputs (on_node e (\<lambda>n. n\<lparr>wn_enter_scope := x\<rparr>))"
    "keeps distinct_inputs (on_node e (\<lambda>n. n\<lparr>wn_single_input := None\<rparr>))" for e x
    by (rule keeps_on_node; simp)+
  have ret: "keeps distinct_inputs (return inputs)" for inputs :: "entity list"
    by (simp add: keeps_def return_def)
  have
    "keeps distinct_inputs (ebind (take_single_input original) (\<lambda>old_inputs.
        ebind (each (connect_input original new) old_inputs) (\<lambda>_. despawn_node original)))"
    "keeps distinct_inputs (ebind (on_node new (\<lambda>n. n\<lparr>wn_entry_for := Some scope\<rparr>)) (\<lambda>_.
        ebind (or_error Broken (\<lambda>w. Option.bind (hm_get (wr_nodes w) scope) wn_enter_scope)) (\<lambda>_.
        ebind (on_node scope (\<lambda>n. n\<lparr>wn_enter_scope := Some new\<rparr>)) (\<lambda>_. despawn_node original))))" for scope
    unfolding take_single_input_def
    by (intro keeps_ebind keeps_or_error keeps_each keeps_despawn_node keeps_connect_input on ret)+
  then show "distinct_inputs (fst (try_connect original new w))"
    using w by (auto simp: try_connect_def keeps_def split: option.split)
qed

lemma redirect_targets_id: "original \<notin> set ts \<Longrightarrow> map (redirect_target original new) ts = ts"
  by (induction ts) (auto simp: redirect_target_def)

lemma take_single_input_effect:
  assumes "hm_get (wr_nodes w) e = Some n" and "wn_single_input n = Some inputs"
  shows "\<exists>w'. take_single_input e w = (w', Inr inputs) \<and> spawned w' = spawned w \<and> wr_broken w' = wr_broken w
    \<and> targets_at w' = targets_at w \<and> inputs_at w' = (inputs_at w)(e := {})"
proof -
  have "on_node e (\<lambda>n. n\<lparr>wn_single_input := None\<rparr>) w =
      (w\<lparr>wr_nodes := hm_insert e (n\<lparr>wn_single_input := None\<rparr>) (wr_nodes w)\<rparr>, Inr ())"
    using assms(1) on_node_spawned [of e w] by (auto simp: spawned_def)
  moreover have "targets_of (n\<lparr>wn_single_input := None\<rparr>) = targets_of n" by (simp add: targets_of_def)
  ultimately show ?thesis
    using assms
    by (auto simp: take_single_input_def or_error_def ebind_def return_def spawned_def targets_at_def inputs_at_def fun_eq_iff)
qed

text \<open>C34: Connecting the output that leads to an operation to another operation redirects exactly the
  targets that led there, removes the old operation and reports nothing as broken; the inputs recorded
  by operations mirror the targets afterwards as they did before.\<close>
theorem connect_redirects:
  assumes "well_wired w" and "original \<noteq> new" and "new \<in> spawned w"
    and "hm_get (wr_nodes w) original = Some n" and "wn_entry_for n = None" and "wn_single_input n = Some inputs"
    and "targets_of n = []"
  shows "\<exists>w'. try_connect original new w = (w', Inr ()) \<and> well_wired w' \<and> wr_broken w' = wr_broken w
    \<and> spawned w' = spawned w - {original}
    \<and> (\<forall>a. targets_at w' a = map (redirect_target original new) (targets_at w a))"
proof -
  have m: "t \<in> set (targets_at w a) \<longleftrightarrow> a \<in> inputs_at w t" for a t
    using assms(1) by (simp add: well_wired_def mirrored_def)
  have at: "inputs_at w original = set inputs" "targets_at w original = []" "original \<in> spawned w"
    using assms(4,6,7) by (auto simp: inputs_at_def targets_at_def spawned_def)
  have "inputs_distinct (Some n)" using assms(1,4) unfolding well_wired_def distinct_inputs_def by metis
  then have distinct: "distinct inputs" using assms(6) by simp
  obtain w1 where w1: "take_single_input original w = (w1, Inr inputs)" "spawned w1 = spawned w"
    "wr_broken w1 = wr_broken w" "targets_at w1 = targets_at w" "inputs_at w1 = (inputs_at w)(original := {})"
    using take_single_input_effect [OF assms(4,6)] by blast
  have inputs: "a \<in> set inputs \<longleftrightarrow> original \<in> set (targets_at w a)" for a using m [of original a] at(1) by simp
  have sp: "set inputs \<subseteq> spawned w1"
    using inputs w1(2) by (fastforce simp: targets_at_def spawned_def split: option.splits)
  obtain w2 where w2: "each (connect_input original new) inputs w1 = (w2, Inr ())" "spawned w2 = spawned w1"
    "wr_broken w2 = wr_broken w1"
    "targets_at w2 = (\<lambda>a. if a \<in> set inputs then map (redirect_target original new) (targets_at w1 a) else targets_at w1 a)"
    "inputs_at w2 = (inputs_at w1)(new := set inputs \<union> inputs_at w1 new)"
    using connect_inputs_effect [OF sp _ assms(2) _ distinct] assms(3) w1(2,4) inputs by auto
  obtain w3 where w3: "despawn_node original w2 = (w3, Inr ())" "spawned w3 = spawned w2 - {original}"
    "wr_broken w3 = wr_broken w2" "targets_at w3 = (targets_at w2)(original := [])"
    "inputs_at w3 = (inputs_at w2)(original := {})"
    using despawn_effect [of original w2] at(3) w1(2) w2(2) by auto
  have run: "try_connect original new w = (w3, Inr ())"
    using w1(1) w2(1) w3(1) assms(4,5) by (simp add: try_connect_def ebind_def)
  have targets: "targets_at w3 a = map (redirect_target original new) (targets_at w a)" for a
    using w1(4) w2(4) w3(4) at(2) inputs [of a] redirect_targets_id by auto
  have "t \<in> set (targets_at w3 a) \<longleftrightarrow> a \<in> inputs_at w3 t" for a t
  proof -
    have "t \<in> set (targets_at w3 a) \<longleftrightarrow> t \<noteq> original \<and>
        (t \<in> set (targets_at w a) \<or> (t = new \<and> original \<in> set (targets_at w a)))"
      unfolding targets using assms(2) by (auto simp: redirect_target_def split: if_splits)
    then show ?thesis using w1(5) w2(5) w3(5) m [of t a] inputs [of a] assms(2) by auto
  qed
  moreover have "distinct_inputs w3"
    using keepsD [OF keeps_try_connect, of w original new] assms(1) run by (simp add: well_wired_def)
  ultimately show ?thesis using run targets w1(2,3) w2(2,3) w3(2,3) by (auto simp: well_wired_def mirrored_def)
qed

definition example_wiring :: wiring where
  "example_wiring =
     (let blank = \<lparr>wn_single_input = None, wn_single_target = None, wn_fork_targets = None, wn_streams = None,
        wn_entry_for = None, wn_enter_scope = None\<rparr>
      in \<lparr>wr_nodes = [(1, blank\<lparr>wn_fork_targets := Some [2, 3, 2]\<rparr>), (2, blank\<lparr>wn_single_input := Some [1]\<rparr>),
            (3, blank\<lparr>wn_single_input := Some [1]\<rparr>)], wr_broken = []\<rparr>)"

lemma connect_redirects_witness:
  "\<exists>w'. try_connect 2 3 example_wiring = (w', Inr ()) \<and> well_wired w' \<and> targets_at w' 1 = [3, 3, 3]"
proof -
  let ?n = "\<lparr>wn_single_input = Some [1], wn_single_target = None, wn_fork_targets = None, wn_streams = None,
      wn_entry_for = None, wn_enter_scope = None\<rparr>"
  have "well_wired example_wiring"
    by (auto simp: well_wired_def mirrored_def distinct_inputs_def example_wiring_def targets_at_def inputs_at_def targets_of_def)
  moreover have "hm_get (wr_nodes example_wiring) 2 = Some ?n" "3 \<in> spawned example_wiring"
    by (simp_all add: example_wiring_def spawned_def)
  moreover have "targets_of ?n = []" "targets_at example_wiring 1 = [2, 3, 2]"
    by (simp_all add: targets_of_def targets_at_def example_wiring_def)
  ultimately show ?thesis
    using connect_redirects [of example_wiring 2 3 ?n "[1]"] by (fastforce simp: redirect_target_def)
qed

subsection \<open>Searching downstream\<close>

definition immediately_downstream_of :: "(entity, ('m) wired_node_scheme) hmap \<Rightarrow> entity \<Rightarrow> entity list" where
  "immediately_downstream_of nodes source =
     (case hm_get nodes source of
        None \<Rightarrow> []
      | Some n \<Rightarrow>
          (case wn_single_target n of
             Some target \<Rightarrow> [target]
           | None \<Rightarrow> (case wn_fork_targets n of Some fork \<Rightarrow> fork | None \<Rightarrow> []))
          @ (case wn_streams n of Some (anonymous, _) \<Rightarrow> anonymous | None \<Rightarrow> []))"

lemma unvisited_decreases:
  "peak \<notin> set visited \<Longrightarrow> peak \<in> dom (hm_get nodes) \<Longrightarrow>
     card (dom (hm_get nodes) - set (peak # visited)) < card (dom (hm_get nodes) - set visited)"
  by (rule psubset_card_mono) (auto simp: finite_dom_map_of)

text \<open>The stack of the search is a list whose head is its top.\<close>

function downstream_search ::
  "(entity, ('m) wired_node_scheme) hmap \<Rightarrow> entity \<Rightarrow> entity list \<Rightarrow> entity list \<Rightarrow> bool" where
  "downstream_search nodes target [] visited = False"
| "downstream_search nodes target (peak # queue) visited =
     (if peak = target then True
      else if peak \<in> set visited then downstream_search nodes target queue visited
      else downstream_search nodes target (rev (immediately_downstream_of nodes peak) @ queue) (peak # visited))"
  by pat_completeness auto

termination
proof (relation "measures [\<lambda>(nodes, _, _, visited). card (dom (hm_get nodes) - set visited), \<lambda>(_, _, queue, _). length queue]",
    goal_cases)
  case (3 nodes target peak queue visited)
  show ?case
  proof (cases "peak \<in> dom (hm_get nodes)")
    case True
    then show ?thesis using unvisited_decreases [OF 3(2) True] by simp
  next
    case False
    then have "immediately_downstream_of nodes peak = []" "dom (hm_get nodes) - set (peak # visited) = dom (hm_get nodes) - set visited"
      by (auto simp: immediately_downstream_of_def domIff)
    then show ?thesis by simp
  qed
qed auto

definition is_downstream_of :: "entity \<Rightarrow> entity \<Rightarrow> (entity, ('m) wired_node_scheme) hmap \<Rightarrow> bool" where
  "is_downstream_of source target nodes =
     (if source = target then False else downstream_search nodes target [source] [])"

definition downstream_edges :: "(entity, ('m) wired_node_scheme) hmap \<Rightarrow> (entity \<times> entity) set" where
  "downstream_edges nodes = {(a, b). b \<in> set (immediately_downstream_of nodes a)}"

lemma path_leaves:
  assumes "(x, t) \<in> E\<^sup>*" and "x \<in> V" and "t \<notin> V" and "\<And>a b. a \<in> V \<Longrightarrow> (a, b) \<in> E \<Longrightarrow> b \<in> V \<union> Q"
  shows "\<exists>q \<in> Q. (q, t) \<in> E\<^sup>*"
  using assms(1,2)
proof (induction rule: converse_rtrancl_induct)
  case (step a b)
  then show ?case using assms(4) by blast
qed (use assms(3) in simp)

lemma downstream_search_correct:
  assumes "target \<notin> set visited"
    and "\<And>a b. a \<in> set visited \<Longrightarrow> (a, b) \<in> downstream_edges nodes \<Longrightarrow> b \<in> set visited \<union> set queue"
  shows "downstream_search nodes target queue visited \<longleftrightarrow> (\<exists>q \<in> set queue. (q, target) \<in> (downstream_edges nodes)\<^sup>*)"
  using assms
proof (induction nodes target queue visited rule: downstream_search.induct)
  case (2 nodes target peak queue visited)
  let ?E = "downstream_edges nodes"
  consider "peak = target" | "peak \<noteq> target" "peak \<in> set visited" | "peak \<noteq> target" "peak \<notin> set visited" by blast
  then show ?case
  proof cases
    case 2
    have closed: "b \<in> set visited \<union> set queue" if "a \<in> set visited" "(a, b) \<in> ?E" for a b
      using "2.prems"(2) [OF that] 2 by auto
    moreover have "\<exists>q \<in> set queue. (q, target) \<in> ?E\<^sup>*" if "(peak, target) \<in> ?E\<^sup>*"
      using path_leaves [OF that 2(2) "2.prems"(1) closed] .
    ultimately show ?thesis using 2 "2.IH"(1) "2.prems"(1) by auto
  next
    case 3
    let ?queue = "rev (immediately_downstream_of nodes peak) @ queue"
    have "b \<in> set (peak # visited) \<union> set ?queue" if "a \<in> set (peak # visited)" "(a, b) \<in> ?E" for a b
      using that "2.prems"(2) [of a b] by (auto simp: downstream_edges_def)
    then have "downstream_search nodes target ?queue (peak # visited) \<longleftrightarrow> (\<exists>q \<in> set ?queue. (q, target) \<in> ?E\<^sup>*)"
      using 3 "2.IH"(2) "2.prems"(1) by auto
    moreover have "(peak, target) \<in> ?E\<^sup>* \<longleftrightarrow> (\<exists>q \<in> set (immediately_downstream_of nodes peak). (q, target) \<in> ?E\<^sup>*)"
      using 3(1) by (auto simp: downstream_edges_def elim: converse_rtranclE intro: converse_rtrancl_into_rtrancl)
    ultimately show ?thesis using 3 by auto
  qed auto
qed simp

text \<open>The search downstream answers exactly whether a path of single targets, fork targets and
  anonymous streams leads to the target; it ends on every world, and it does not follow named streams.\<close>
theorem downstream_search_is_exact:
  "is_downstream_of source target nodes \<longleftrightarrow> source \<noteq> target \<and> (source, target) \<in> (downstream_edges nodes)\<^sup>*"
  using downstream_search_correct [of target "[]" nodes "[source]"] by (auto simp: is_downstream_of_def)

end
