(* ===== verification/Reachability.thy ===== *)
theory Reachability
  imports Wiring Delivery
begin

text \<open>
  Can an operation still be reached in a session? \<open>OperationReachability\<close> of \<open>src/src/operation.rs\<close>
  searches upstream for activity and remembers the operations it has visited; every operation has an
  \<open>is_reachable\<close> of its own. The answer decides whether a session is cancelled.

  \<^item> A world holds of every entity the components that the search reads. \<open>InputStorage<T>\<close> is the list
    of the sessions of the waiting inputs, by message type.
  \<^item> \<open>check_upstream\<close> recurses into operations it has not visited. It carries a fuel; running out of
    it is the error \<open>OutOfFuel\<close>, and \<open>search_fuel\<close> is enough (theory \<open>ReachabilityProofs\<close>).
  \<^item> The operations whose \<open>is_reachable\<close> only asks for a waiting input and for the inputs are
    \<open>Plain\<close>: noop, fork clone, unzip, branching, filters, trim, spread, split, static gates,
    blocking maps, listeners, buffer access and the cancel operation of a scope.
\<close>

subsection \<open>The world\<close>

datatype message_type =
    Message nat
  | UnitMessage
  | GateRequest message_type

datatype operation =
    Plain message_type
  | DynamicGate message_type
  | CancelOperation message_type
  | TaskOperation message_type
  | ServiceOperation message_type
  | InjectionOperation message_type
  | CollectOperation message_type
  | JoinOperation
  | BufferOperation message_type
  | ScopeOperation message_type
  | TerminateOperation message_type
  | BeginCleanupOperation
  | FinishCleanupOperation
  | StreamRedirect message_type
  | TaskNode

record collection_storage =
  cs_progress :: "(entity, nat) hmap"
  cs_min :: nat

record active_node = wired_node +
  an_operation :: "operation option"
  an_inputs :: "(message_type, entity list) hmap"
  an_funnel :: "entity list option"
  an_join_buffers :: "entity list option"
  an_buffered :: "(entity, nat) hmap option"
  an_accessors :: "entity list option"
  an_gates :: "(entity, gate) hmap option"
  an_gate_nodes :: "entity list option"
  an_gate_action :: "gate option"
  an_key_usage :: "entity list option"
  an_awaiting_fetch :: "entity list option"
  an_tasks :: "entity list option"
  an_injections :: "entity list option"
  an_provider :: "entity option"
  an_continuous :: "entity list option"
  an_delivery :: "(nat, nat) delivery option"
  an_workflow_scope :: "entity option"
  an_implicit :: "bool option"
  an_collection :: "collection_storage option"
  an_sessions :: "(entity \<times> entity) list option"
  an_terminate :: "entity option"
  an_staging :: "entity list option"
  an_in_scope :: "entity option"
  an_task_session :: "entity option"

type_synonym activity_world = "(entity, active_node) hmap"

definition blank_node :: active_node where
  "blank_node =
     \<lparr>wn_single_input = None, wn_single_target = None, wn_fork_targets = None, wn_streams = None,
      wn_entry_for = None, wn_enter_scope = None, an_operation = None, an_inputs = [], an_funnel = None,
      an_join_buffers = None, an_buffered = None, an_accessors = None, an_gates = None,
      an_gate_nodes = None, an_gate_action = None, an_key_usage = None, an_awaiting_fetch = None,
      an_tasks = None, an_injections = None, an_provider = None, an_continuous = None,
      an_delivery = None, an_workflow_scope = None, an_implicit = None, an_collection = None,
      an_sessions = None, an_terminate = None, an_staging = None, an_in_scope = None,
      an_task_session = None\<rparr>"

record reach_query =
  rq_in_session :: entity
  rq_disposed :: "entity option"
  rq_accessor :: "entity option"

definition component_of :: "activity_world \<Rightarrow> entity \<Rightarrow> (active_node \<Rightarrow> 'a option) \<Rightarrow> operation_error + 'a" where
  "component_of w e get = ok_or (Option.bind (hm_get w e) get) Broken"

subsection \<open>The search\<close>

datatype halt = Failed operation_error | OutOfFuel

type_synonym visited = "(entity, bool) hmap"
type_synonym 'a search = "visited \<Rightarrow> visited \<times> (halt + 'a)"
type_synonym upstream_check = "reach_query \<Rightarrow> entity \<Rightarrow> bool search"

definition observe :: "operation_error + 'a \<Rightarrow> 'a search" where
  "observe r v = (v, case r of Inl e \<Rightarrow> Inl (Failed e) | Inr x \<Rightarrow> Inr x)"

text \<open>\<open>if r? { return Ok(true); }\<close> followed by \<open>m\<close>.\<close>

definition or_else :: "operation_error + bool \<Rightarrow> bool search \<Rightarrow> bool search" where
  "or_else r m = ebind (observe r) (\<lambda>b. if b then return True else m)"

definition has_input_of :: "activity_world \<Rightarrow> reach_query \<Rightarrow> message_type \<Rightarrow> entity \<Rightarrow> operation_error + bool" where
  "has_input_of w q t e =
     rbind (component_of w e (\<lambda>n. hm_get (an_inputs n) t)) (\<lambda>sessions. Inr (rq_in_session q \<in> set sessions))"

definition single_input_reachable :: "activity_world \<Rightarrow> upstream_check \<Rightarrow> reach_query \<Rightarrow> entity \<Rightarrow> bool search" where
  "single_input_reachable w up q e =
     (case hm_get w e of
        None \<Rightarrow> observe (Inl Broken)
      | Some n \<Rightarrow> (case wn_single_input n of
                    None \<Rightarrow> return False
                  | Some inputs \<Rightarrow> first_true (up q) inputs))"

definition plain_is_reachable ::
  "activity_world \<Rightarrow> upstream_check \<Rightarrow> reach_query \<Rightarrow> message_type \<Rightarrow> entity \<Rightarrow> bool search" where
  "plain_is_reachable w up q t e = or_else (has_input_of w q t e) (single_input_reachable w up q e)"

text \<open>\<open>OperateDynamicGate<T>\<close> keeps inputs of type \<open>GateRequest<T>\<close> but asks for inputs of type \<open>T\<close>.\<close>

definition dynamic_gate_is_reachable ::
  "activity_world \<Rightarrow> upstream_check \<Rightarrow> reach_query \<Rightarrow> message_type \<Rightarrow> entity \<Rightarrow> bool search" where
  "dynamic_gate_is_reachable w up q t e = or_else (has_input_of w q t e) (single_input_reachable w up q e)"

definition cancel_is_reachable ::
  "activity_world \<Rightarrow> upstream_check \<Rightarrow> reach_query \<Rightarrow> message_type \<Rightarrow> entity \<Rightarrow> bool search" where
  "cancel_is_reachable w up q t e =
     or_else (has_input_of w q t e)
       (ebind (observe (component_of w e an_implicit)) (\<lambda>is_implicit.
          if is_implicit then return False else single_input_reachable w up q e))"

definition tasks_contain_session :: "activity_world \<Rightarrow> reach_query \<Rightarrow> entity \<Rightarrow> operation_error + bool" where
  "tasks_contain_session w q e =
     rbind (component_of w e an_tasks) (\<lambda>sessions. Inr (rq_in_session q \<in> set sessions))"

definition task_operation_is_reachable ::
  "activity_world \<Rightarrow> upstream_check \<Rightarrow> reach_query \<Rightarrow> message_type \<Rightarrow> entity \<Rightarrow> bool search" where
  "task_operation_is_reachable w up q t e =
     or_else (has_input_of w q t e)
       (or_else (tasks_contain_session w q e) (single_input_reachable w up q e))"

text \<open>The queue of a continuous service and its session test are one component here.\<close>

definition continuous_contains_session :: "activity_world \<Rightarrow> reach_query \<Rightarrow> entity \<Rightarrow> operation_error + bool" where
  "continuous_contains_session w q e =
     rbind (component_of w e an_provider) (\<lambda>provider.
       Inr (case Option.bind (hm_get w provider) an_continuous of
              None \<Rightarrow> False
            | Some sessions \<Rightarrow> rq_in_session q \<in> set sessions))"

definition delivery_contains_session :: "activity_world \<Rightarrow> reach_query \<Rightarrow> entity \<Rightarrow> operation_error + bool" where
  "delivery_contains_session w q e =
     rbind (component_of w e an_provider) (\<lambda>provider.
       Inr (case Option.bind (hm_get w provider) an_delivery of
              None \<Rightarrow> False
            | Some delivery \<Rightarrow> contains_session_delivery (rq_in_session q) delivery))"

definition workflow_hooks_reachable :: "activity_world \<Rightarrow> upstream_check \<Rightarrow> reach_query \<Rightarrow> entity \<Rightarrow> bool search" where
  "workflow_hooks_reachable w up q e =
     ebind (observe (component_of w e an_provider)) (\<lambda>provider.
       case Option.bind (hm_get w provider) an_workflow_scope of
         None \<Rightarrow> return False
       | Some scope \<Rightarrow> up q scope)"

definition service_is_reachable ::
  "activity_world \<Rightarrow> upstream_check \<Rightarrow> reach_query \<Rightarrow> message_type \<Rightarrow> entity \<Rightarrow> bool search" where
  "service_is_reachable w up q t e =
     or_else (has_input_of w q t e)
       (or_else (tasks_contain_session w q e)
         (or_else (continuous_contains_session w q e)
           (or_else (delivery_contains_session w q e)
             (ebind (workflow_hooks_reachable w up q e) (\<lambda>b.
                if b then return True else single_input_reachable w up q e)))))"

definition injection_is_reachable ::
  "activity_world \<Rightarrow> upstream_check \<Rightarrow> reach_query \<Rightarrow> message_type \<Rightarrow> entity \<Rightarrow> bool search" where
  "injection_is_reachable w up q t e =
     or_else (has_input_of w q t e)
       (or_else (rbind (component_of w e an_injections) (\<lambda>sessions. Inr (rq_in_session q \<in> set sessions)))
         (single_input_reachable w up q e))"

definition collection_is_due :: "activity_world \<Rightarrow> reach_query \<Rightarrow> entity \<Rightarrow> operation_error + bool" where
  "collection_is_due w q e =
     rbind (component_of w e an_collection) (\<lambda>collection.
       Inr (case (hm_get (cs_progress collection) (rq_in_session q), rq_disposed q) of
              (Some len, Some disposed) \<Rightarrow> cs_min collection \<le> len \<and> is_downstream_of disposed e w
            | _ \<Rightarrow> False))"

definition collect_is_reachable ::
  "activity_world \<Rightarrow> upstream_check \<Rightarrow> reach_query \<Rightarrow> message_type \<Rightarrow> entity \<Rightarrow> bool search" where
  "collect_is_reachable w up q t e =
     or_else (has_input_of w q t e)
       (or_else (collection_is_due w q e) (single_input_reachable w up q e))"

definition buffered_count_for :: "activity_world \<Rightarrow> entity list \<Rightarrow> entity \<Rightarrow> entity \<Rightarrow> operation_error + nat" where
  "buffered_count_for w buffers input session =
     (if input \<notin> set buffers then Inr 0
      else rbind (component_of w input an_buffered) (\<lambda>counts.
        Inr (case hm_get counts session of None \<Rightarrow> 0 | Some n \<Rightarrow> n)))"

fun join_inputs_reachable ::
  "activity_world \<Rightarrow> upstream_check \<Rightarrow> reach_query \<Rightarrow> entity list \<Rightarrow> entity list \<Rightarrow> bool search" where
  "join_inputs_reachable w up q buffers [] = return True"
| "join_inputs_reachable w up q buffers (input # inputs) =
     ebind (up q input) (\<lambda>b.
       if b then join_inputs_reachable w up q buffers inputs
       else ebind (observe (buffered_count_for w buffers input (rq_in_session q))) (\<lambda>count.
              if count = 0 then return False else join_inputs_reachable w up q buffers inputs))"

definition join_is_reachable :: "activity_world \<Rightarrow> upstream_check \<Rightarrow> reach_query \<Rightarrow> entity \<Rightarrow> bool search" where
  "join_is_reachable w up q e =
     ebind (observe (component_of w e an_join_buffers)) (\<lambda>buffers.
     ebind (observe (component_of w e an_funnel)) (\<lambda>inputs.
       join_inputs_reachable w up q buffers inputs))"

text \<open>Buffers: their gate, the operations that access them, and their inputs.\<close>

definition accessor_discounted :: "activity_world \<Rightarrow> reach_query \<Rightarrow> entity \<Rightarrow> operation_error + bool" where
  "accessor_discounted w q accessor =
     (case rq_accessor q of
        None \<Rightarrow> Inr False
      | Some requested_by \<Rightarrow>
          if requested_by = accessor then Inr True
          else rbind (component_of w accessor an_awaiting_fetch) (\<lambda>sessions.
                 Inr (rq_in_session q \<in> set sessions)))"

fun accessors_in_use :: "activity_world \<Rightarrow> reach_query \<Rightarrow> entity list \<Rightarrow> operation_error + bool" where
  "accessors_in_use w q [] = Inr False"
| "accessors_in_use w q (accessor # accessors) =
     rbind (accessor_discounted w q accessor) (\<lambda>discounted.
       if discounted then accessors_in_use w q accessors
       else rbind (component_of w accessor an_key_usage) (\<lambda>sessions.
              if rq_in_session q \<in> set sessions then Inr True else accessors_in_use w q accessors))"

definition accessors_reachable :: "activity_world \<Rightarrow> upstream_check \<Rightarrow> reach_query \<Rightarrow> entity \<Rightarrow> bool search" where
  "accessors_reachable w up q e =
     (case Option.bind (hm_get w e) an_accessors of
        None \<Rightarrow> return False
      | Some accessors \<Rightarrow> or_else (accessors_in_use w q accessors) (first_true (up q) accessors))"

definition gate_closed_in :: "(entity, gate) hmap \<Rightarrow> entity \<Rightarrow> bool" where
  "gate_closed_in gates session = (case hm_get gates session of None \<Rightarrow> False | Some g \<Rightarrow> gate_is_closed g)"

definition opening_reachable :: "activity_world \<Rightarrow> upstream_check \<Rightarrow> reach_query \<Rightarrow> entity \<Rightarrow> bool search" where
  "opening_reachable w up q e =
     ebind (observe (component_of w e an_gates)) (\<lambda>gates.
       if \<not> gate_closed_in gates (rq_in_session q) then return True
       else case Option.bind (hm_get w e) an_gate_nodes of
              None \<Rightarrow> return False
            | Some gate_nodes \<Rightarrow>
                first_true (\<lambda>g. ebind (observe (component_of w g an_gate_action)) (\<lambda>action.
                  if gate_is_open action then up q g else return False)) gate_nodes)"

definition buffer_is_reachable ::
  "activity_world \<Rightarrow> upstream_check \<Rightarrow> reach_query \<Rightarrow> message_type \<Rightarrow> entity \<Rightarrow> bool search" where
  "buffer_is_reachable w up q t e =
     ebind (opening_reachable w up q e) (\<lambda>opening.
       if \<not> opening
       then ebind (accessors_reachable w up q e) (\<lambda>b. if b then return True else return False)
       else or_else (has_input_of w q t e)
              (ebind (accessors_reachable w up q e) (\<lambda>b.
                 if b then return True else single_input_reachable w up q e)))"

text \<open>A scope looks into the session it runs for the session of the query, with a search of its own.\<close>

definition scoped_query :: "reach_query \<Rightarrow> entity \<Rightarrow> reach_query" where
  "scoped_query q scoped = \<lparr>rq_in_session = scoped, rq_disposed = rq_disposed q, rq_accessor = None\<rparr>"

definition scope_is_reachable ::
  "activity_world \<Rightarrow> upstream_check \<Rightarrow> reach_query \<Rightarrow> message_type \<Rightarrow> entity \<Rightarrow> bool search" where
  "scope_is_reachable w up q t e =
     or_else (has_input_of w q t e)
       (ebind (observe (component_of w e an_sessions)) (\<lambda>pairs.
          case find (\<lambda>(parent, _). parent = rq_in_session q) pairs of
            None \<Rightarrow> single_input_reachable w up q e
          | Some (_, scoped) \<Rightarrow>
              ebind (observe (component_of w e an_terminate)) (\<lambda>terminate.
              ebind (\<lambda>v. (v, snd (up (scoped_query q scoped) terminate []))) (\<lambda>b.
                if b then return True else single_input_reachable w up q e))))"

definition terminate_is_reachable ::
  "activity_world \<Rightarrow> upstream_check \<Rightarrow> reach_query \<Rightarrow> message_type \<Rightarrow> entity \<Rightarrow> bool search" where
  "terminate_is_reachable w up q t e =
     or_else (has_input_of w q t e)
       (or_else (rbind (component_of w e an_staging) (\<lambda>sessions. Inr (rq_in_session q \<in> set sessions)))
         (single_input_reachable w up q e))"

definition stream_redirect_is_reachable ::
  "activity_world \<Rightarrow> upstream_check \<Rightarrow> reach_query \<Rightarrow> message_type \<Rightarrow> entity \<Rightarrow> bool search" where
  "stream_redirect_is_reachable w up q t e =
     or_else (has_input_of w q t e) (ebind (observe (component_of w e an_in_scope)) (up q))"

definition task_is_reachable :: "activity_world \<Rightarrow> reach_query \<Rightarrow> entity \<Rightarrow> bool search" where
  "task_is_reachable w q e =
     ebind (observe (component_of w e an_task_session)) (\<lambda>session. return (session = rq_in_session q))"

fun is_reachable ::
  "activity_world \<Rightarrow> upstream_check \<Rightarrow> reach_query \<Rightarrow> operation \<Rightarrow> entity \<Rightarrow> bool search" where
  "is_reachable w up q (Plain t) e = plain_is_reachable w up q t e"
| "is_reachable w up q (DynamicGate t) e = dynamic_gate_is_reachable w up q t e"
| "is_reachable w up q (CancelOperation t) e = cancel_is_reachable w up q t e"
| "is_reachable w up q (TaskOperation t) e = task_operation_is_reachable w up q t e"
| "is_reachable w up q (ServiceOperation t) e = service_is_reachable w up q t e"
| "is_reachable w up q (InjectionOperation t) e = injection_is_reachable w up q t e"
| "is_reachable w up q (CollectOperation t) e = collect_is_reachable w up q t e"
| "is_reachable w up q JoinOperation e = join_is_reachable w up q e"
| "is_reachable w up q (BufferOperation t) e = buffer_is_reachable w up q t e"
| "is_reachable w up q (ScopeOperation t) e = scope_is_reachable w up q t e"
| "is_reachable w up q (TerminateOperation t) e = terminate_is_reachable w up q t e"
| "is_reachable w up q BeginCleanupOperation e = observe (has_input_of w q UnitMessage e)"
| "is_reachable w up q FinishCleanupOperation e = observe (Inl Broken)"
| "is_reachable w up q (StreamRedirect t) e = stream_redirect_is_reachable w up q t e"
| "is_reachable w up q TaskNode e = task_is_reachable w q e"

primrec check_upstream :: "nat \<Rightarrow> activity_world \<Rightarrow> upstream_check" where
  "check_upstream 0 w q e v = (v, Inl OutOfFuel)"
| "check_upstream (Suc fuel) w q e v =
     (case hm_get v e of
        Some b \<Rightarrow> (v, Inr b)
      | None \<Rightarrow>
          ebind (observe (component_of w e an_operation)) (\<lambda>op.
          ebind (is_reachable w (check_upstream fuel w) q op e) (\<lambda>b.
            if b then ebind (modify (hm_insert e True)) (\<lambda>_. return True) else return False))
          (hm_insert e False v))"

definition stored_sessions :: "activity_world \<Rightarrow> (entity \<times> entity) list" where
  "stored_sessions w = concat (List.map_filter (\<lambda>(_, n). an_sessions n) w)"

definition search_fuel :: "activity_world \<Rightarrow> nat" where
  "search_fuel w = Suc (Suc (length (stored_sessions w)) * Suc (length w))"

definition check_reachability :: "entity \<Rightarrow> entity \<Rightarrow> entity option \<Rightarrow> activity_world \<Rightarrow> halt + bool" where
  "check_reachability session source disposed w =
     snd (check_upstream (search_fuel w) w
       \<lparr>rq_in_session = session, rq_disposed = disposed, rq_accessor = None\<rparr> source [])"

definition is_buffer_reachable :: "entity \<Rightarrow> entity \<Rightarrow> entity \<Rightarrow> activity_world \<Rightarrow> halt + bool" where
  "is_buffer_reachable buffer session accessor w =
     snd (check_upstream (search_fuel w) w
       \<lparr>rq_in_session = session, rq_disposed = None, rq_accessor = Some accessor\<rparr> buffer [])"

end
