(* ===== verification/ReachabilityProofs.thy ===== *)
theory ReachabilityProofs
  imports Reachability
begin

text \<open>
  What the search for activity computes. \<open>live\<close> is the specification: an operation is live if it has
  activity of its own or draws from live operations, as the least solution of these conditions and
  without any order of evaluation. The search always ends, what it finds is live, and it finds
  everything live in workflows without joins and closed gates.
\<close>

subsection \<open>Specification\<close>

definition some_input_live ::
  "activity_world \<Rightarrow> (reach_query \<Rightarrow> entity \<Rightarrow> bool) \<Rightarrow> reach_query \<Rightarrow> entity \<Rightarrow> bool" where
  "some_input_live w L q e \<longleftrightarrow>
     (\<exists>inputs. Option.bind (hm_get w e) wn_single_input = Some inputs \<and> (\<exists>x \<in> set inputs. L q x))"

definition accessors_live ::
  "activity_world \<Rightarrow> (reach_query \<Rightarrow> entity \<Rightarrow> bool) \<Rightarrow> reach_query \<Rightarrow> entity \<Rightarrow> bool" where
  "accessors_live w L q e \<longleftrightarrow>
     (\<exists>accessors. Option.bind (hm_get w e) an_accessors = Some accessors
        \<and> (accessors_in_use w q accessors = Inr True \<or> (\<exists>a \<in> set accessors. L q a)))"

definition opening_live ::
  "activity_world \<Rightarrow> (reach_query \<Rightarrow> entity \<Rightarrow> bool) \<Rightarrow> reach_query \<Rightarrow> entity \<Rightarrow> bool" where
  "opening_live w L q e \<longleftrightarrow>
     (\<exists>gates. component_of w e an_gates = Inr gates \<and> (\<not> gate_closed_in gates (rq_in_session q)
        \<or> (\<exists>gate_nodes. Option.bind (hm_get w e) an_gate_nodes = Some gate_nodes
             \<and> (\<exists>g \<in> set gate_nodes. \<exists>action. component_of w g an_gate_action = Inr action \<and> gate_is_open action \<and> L q g))))"

fun active_when ::
  "activity_world \<Rightarrow> (reach_query \<Rightarrow> entity \<Rightarrow> bool) \<Rightarrow> reach_query \<Rightarrow> operation \<Rightarrow> entity \<Rightarrow> bool" where
  "active_when w L q (Plain t) e = (has_input_of w q t e = Inr True \<or> some_input_live w L q e)"
| "active_when w L q (DynamicGate t) e = (has_input_of w q t e = Inr True \<or> some_input_live w L q e)"
| "active_when w L q (CancelOperation t) e =
     (has_input_of w q t e = Inr True \<or> (component_of w e an_implicit = Inr False \<and> some_input_live w L q e))"
| "active_when w L q (TaskOperation t) e =
     (has_input_of w q t e = Inr True \<or> tasks_contain_session w q e = Inr True \<or> some_input_live w L q e)"
| "active_when w L q (ServiceOperation t) e =
     (has_input_of w q t e = Inr True \<or> tasks_contain_session w q e = Inr True
      \<or> continuous_contains_session w q e = Inr True \<or> delivery_contains_session w q e = Inr True
      \<or> (\<exists>provider scope. component_of w e an_provider = Inr provider
           \<and> Option.bind (hm_get w provider) an_workflow_scope = Some scope \<and> L q scope)
      \<or> some_input_live w L q e)"
| "active_when w L q (InjectionOperation t) e =
     (has_input_of w q t e = Inr True
      \<or> (\<exists>sessions. component_of w e an_injections = Inr sessions \<and> rq_in_session q \<in> set sessions)
      \<or> some_input_live w L q e)"
| "active_when w L q (CollectOperation t) e =
     (has_input_of w q t e = Inr True \<or> collection_is_due w q e = Inr True \<or> some_input_live w L q e)"
| "active_when w L q JoinOperation e =
     (\<exists>buffers inputs. component_of w e an_join_buffers = Inr buffers \<and> component_of w e an_funnel = Inr inputs
        \<and> (\<forall>x \<in> set inputs. L q x \<or> (\<exists>n. buffered_count_for w buffers x (rq_in_session q) = Inr (Suc n))))"
| "active_when w L q (BufferOperation t) e =
     (accessors_live w L q e
      \<or> (opening_live w L q e \<and> (has_input_of w q t e = Inr True \<or> some_input_live w L q e)))"
| "active_when w L q (ScopeOperation t) e =
     (has_input_of w q t e = Inr True
      \<or> (\<exists>pairs parent scoped terminate. component_of w e an_sessions = Inr pairs
           \<and> find (\<lambda>(parent, _). parent = rq_in_session q) pairs = Some (parent, scoped)
           \<and> component_of w e an_terminate = Inr terminate \<and> L (scoped_query q scoped) terminate)
      \<or> some_input_live w L q e)"
| "active_when w L q (TerminateOperation t) e =
     (has_input_of w q t e = Inr True
      \<or> (\<exists>sessions. component_of w e an_staging = Inr sessions \<and> rq_in_session q \<in> set sessions)
      \<or> some_input_live w L q e)"
| "active_when w L q BeginCleanupOperation e = (has_input_of w q UnitMessage e = Inr True)"
| "active_when w L q FinishCleanupOperation e = False"
| "active_when w L q (StreamRedirect t) e =
     (has_input_of w q t e = Inr True \<or> (\<exists>scope. component_of w e an_in_scope = Inr scope \<and> L q scope))"
| "active_when w L q TaskNode e = (component_of w e an_task_session = Inr (rq_in_session q))"

lemma some_input_live_mono: "L \<le> L' \<Longrightarrow> some_input_live w L q e \<Longrightarrow> some_input_live w L' q e"
  unfolding some_input_live_def by (blast dest: predicate2D)

lemma accessors_live_mono: "L \<le> L' \<Longrightarrow> accessors_live w L q e \<Longrightarrow> accessors_live w L' q e"
  unfolding accessors_live_def by (blast dest: predicate2D)

lemma opening_live_mono: "L \<le> L' \<Longrightarrow> opening_live w L q e \<Longrightarrow> opening_live w L' q e"
  unfolding opening_live_def by (blast dest: predicate2D)

lemma active_when_mono [mono]: "L \<le> L' \<Longrightarrow> active_when w L q op e \<longrightarrow> active_when w L' q op e"
proof (cases op)
  case JoinOperation
  assume "L \<le> L'"
  then have "L q x \<Longrightarrow> L' q x" for x by (rule predicate2D)
  then show ?thesis using JoinOperation by fastforce
qed (auto dest: some_input_live_mono accessors_live_mono opening_live_mono predicate2D)

inductive live :: "activity_world \<Rightarrow> reach_query \<Rightarrow> entity \<Rightarrow> bool" for w where
  "component_of w e an_operation = Inr op \<Longrightarrow> active_when w (live w) q op e \<Longrightarrow> live w q e"

subsection \<open>Steps of the search\<close>

lemma triple_observe:
  "(\<And>e. r = Inl e \<Longrightarrow> E (Failed e)) \<Longrightarrow> (\<And>x v. r = Inr x \<Longrightarrow> P v \<Longrightarrow> Q x v) \<Longrightarrow> triple P (observe r) E Q"
  by (auto simp: triple_def observe_def split: sum.split)

lemma triple_observe_bind:
  "(\<And>e. r = Inl e \<Longrightarrow> E (Failed e)) \<Longrightarrow> (\<And>x. r = Inr x \<Longrightarrow> triple P (f x) E Q) \<Longrightarrow>
     triple P (ebind (observe r) f) E Q"
  by (cases r) (auto simp: triple_def observe_def ebind_def)

lemma triple_or_else:
  "(\<And>e. r = Inl e \<Longrightarrow> E (Failed e)) \<Longrightarrow> (\<And>v. r = Inr True \<Longrightarrow> P v \<Longrightarrow> Q True v) \<Longrightarrow>
     (r = Inr False \<Longrightarrow> triple P m E Q) \<Longrightarrow> triple P (or_else r m) E Q"
  unfolding or_else_def by (rule triple_observe_bind) (auto intro: triple_return)

lemma triple_branch:
  "triple P m E R \<Longrightarrow> (\<And>v. R True v \<Longrightarrow> Q True v) \<Longrightarrow> triple (R False) m' E Q \<Longrightarrow>
     triple P (ebind m (\<lambda>b. if b then return True else m')) E Q"
  by (rule triple_ebind) (auto intro: triple_return)

lemma triple_first_true:
  assumes "\<And>x. x \<in> set xs \<Longrightarrow> triple P (f x) E (\<lambda>b v. P v \<and> (b \<longrightarrow> T x))"
  shows "triple P (first_true f xs) E (\<lambda>b v. P v \<and> (b \<longrightarrow> (\<exists>x \<in> set xs. T x)))"
  using assms
proof (induction xs)
  case (Cons x xs)
  show ?case
    unfolding first_true_Cons
  proof (rule triple_branch [OF Cons.prems])
    have "triple P (first_true f xs) E (\<lambda>b v. P v \<and> (b \<longrightarrow> (\<exists>x \<in> set xs. T x)))"
      by (rule Cons.IH) (simp add: Cons.prems)
    then show "triple (\<lambda>v. P v \<and> (False \<longrightarrow> T x)) (first_true f xs) E (\<lambda>b v. P v \<and> (b \<longrightarrow> (\<exists>y \<in> set (x # xs). T y)))"
      by (rule triple_weaken) auto
  qed auto
qed (auto simp: first_true_Nil intro: triple_return)

lemma triple_pure: "(R \<Longrightarrow> triple P m E Q) \<Longrightarrow> triple (\<lambda>v. P v \<and> R) m E Q"
  by (simp add: triple_def)

text \<open>What a recursive call guarantees: \<open>P\<close> is kept, errors are in \<open>E\<close>, and what is found is in \<open>T\<close>.\<close>

definition upstream_ok ::
  "activity_world \<Rightarrow> upstream_check \<Rightarrow> (visited \<Rightarrow> bool) \<Rightarrow> (halt \<Rightarrow> bool)
     \<Rightarrow> (reach_query \<Rightarrow> entity \<Rightarrow> bool) \<Rightarrow> reach_query \<Rightarrow> bool" where
  "upstream_ok w up P E T q \<longleftrightarrow>
     (\<forall>x. triple P (up q x) E (\<lambda>b v. P v \<and> (b \<longrightarrow> T q x)))
   \<and> (\<forall>e. E (Failed e))
   \<and> (\<forall>v scoped t. P v \<longrightarrow> (rq_in_session q, scoped) \<in> set (stored_sessions w) \<longrightarrow>
        (case snd (up (scoped_query q scoped) t []) of Inl h \<Rightarrow> E h | Inr b \<Rightarrow> b \<longrightarrow> T (scoped_query q scoped) t))"

lemma upstream_okD:
  assumes "upstream_ok w up P E T q"
  shows "triple P (up q x) E (\<lambda>b v. P v \<and> (b \<longrightarrow> T q x))" and "E (Failed e)"
  using assms by (simp_all add: upstream_ok_def)

lemma in_stored_sessions:
  "hm_get w e = Some n \<Longrightarrow> an_sessions n = Some pairs \<Longrightarrow> p \<in> set pairs \<Longrightarrow> p \<in> set (stored_sessions w)"
proof -
  assume "hm_get w e = Some n" and n: "an_sessions n = Some pairs" and p: "p \<in> set pairs"
  then have "(e, n) \<in> set w" by (simp add: map_of_SomeD)
  then have "pairs \<in> set (List.map_filter (\<lambda>(_, n). an_sessions n) w)"
    using n by (force simp: List.map_filter_def)
  then show ?thesis using p by (auto simp: stored_sessions_def)
qed

lemma stored_by_scope:
  assumes "component_of w e an_sessions = Inr pairs"
    and "find (\<lambda>(parent, _). parent = session) pairs = Some (parent, scoped)"
  shows "(session, scoped) \<in> set (stored_sessions w)"
proof -
  have "(session, scoped) \<in> set pairs" using assms(2) by (auto simp: find_Some_iff in_set_conv_nth)
  then show ?thesis
    using assms(1) in_stored_sessions by (auto simp: component_of_def split: option.splits bind_splits)
qed

lemma upstream_ok_nested:
  assumes "upstream_ok w up P E T q" and "component_of w e an_sessions = Inr pairs"
    and "find (\<lambda>(parent, _). parent = rq_in_session q) pairs = Some (parent, scoped)"
  shows "triple P (\<lambda>v. (v, snd (up (scoped_query q scoped) t []))) E (\<lambda>b v. P v \<and> (b \<longrightarrow> T (scoped_query q scoped) t))"
proof -
  have "(rq_in_session q, scoped) \<in> set (stored_sessions w)" by (rule stored_by_scope [OF assms(2,3)])
  then show ?thesis using assms(1) by (fastforce simp: triple_def upstream_ok_def split: sum.splits)
qed

lemma single_input_triple:
  assumes "upstream_ok w up P E T q"
  shows "triple P (single_input_reachable w up q e) E (\<lambda>b v. P v \<and> (b \<longrightarrow> some_input_live w T q e))"
proof (cases "Option.bind (hm_get w e) wn_single_input")
  case None
  then show ?thesis
    using upstream_okD(2) [OF assms]
    by (auto simp: single_input_reachable_def intro: triple_observe triple_return split: option.split)
next
  case (Some inputs)
  have "triple P (first_true (up q) inputs) E (\<lambda>b v. P v \<and> (b \<longrightarrow> (\<exists>x \<in> set inputs. T q x)))"
    by (rule triple_first_true) (rule upstream_okD [OF assms])
  then have "triple P (first_true (up q) inputs) E (\<lambda>b v. P v \<and> (b \<longrightarrow> some_input_live w T q e))"
    by (rule triple_weaken) (auto simp: some_input_live_def Some)
  then show ?thesis using Some by (auto simp: single_input_reachable_def split: option.splits)
qed

lemma accessors_triple:
  assumes "upstream_ok w up P E T q"
  shows "triple P (accessors_reachable w up q e) E (\<lambda>b v. P v \<and> (b \<longrightarrow> accessors_live w T q e))"
proof (cases "Option.bind (hm_get w e) an_accessors")
  case None
  then show ?thesis by (auto simp: accessors_reachable_def intro: triple_return)
next
  case (Some accessors)
  have "triple P (first_true (up q) accessors) E (\<lambda>b v. P v \<and> (b \<longrightarrow> (\<exists>x \<in> set accessors. T q x)))"
    by (rule triple_first_true) (rule upstream_okD [OF assms])
  then have "triple P (first_true (up q) accessors) E (\<lambda>b v. P v \<and> (b \<longrightarrow> accessors_live w T q e))"
    by (rule triple_weaken) (auto simp: accessors_live_def Some)
  then show ?thesis
    using Some upstream_okD(2) [OF assms]
    by (auto simp: accessors_reachable_def accessors_live_def intro!: triple_or_else)
qed

lemma opening_triple:
  assumes "upstream_ok w up P E T q"
  shows "triple P (opening_reachable w up q e) E (\<lambda>b v. P v \<and> (b \<longrightarrow> opening_live w T q e))"
  unfolding opening_reachable_def
proof (rule triple_observe_bind)
  fix gates assume gates: "component_of w e an_gates = Inr gates"
  let ?f = "\<lambda>g. ebind (observe (component_of w g an_gate_action)) (\<lambda>action.
      if gate_is_open action then up q g else return False)"
  let ?T = "\<lambda>g. \<exists>action. component_of w g an_gate_action = Inr action \<and> gate_is_open action \<and> T q g"
  have f: "triple P (?f g) E (\<lambda>b v. P v \<and> (b \<longrightarrow> ?T g))" for g
    by (rule triple_observe_bind)
      (use upstream_okD(2) [OF assms] in \<open>auto intro: triple_return triple_weaken [OF upstream_okD(1) [OF assms]]\<close>)
  have "triple P (first_true ?f gs) E (\<lambda>b v. P v \<and> (b \<longrightarrow> (\<exists>g \<in> set gs. ?T g)))" for gs
    by (rule triple_first_true) (rule f)
  then show "triple P (if \<not> gate_closed_in gates (rq_in_session q) then return True
      else case Option.bind (hm_get w e) an_gate_nodes of None \<Rightarrow> return False | Some gate_nodes \<Rightarrow> first_true ?f gate_nodes)
      E (\<lambda>b v. P v \<and> (b \<longrightarrow> opening_live w T q e))"
    using gates
    by (auto simp: opening_live_def intro: triple_return triple_weaken split: option.split)
qed (rule upstream_okD(2) [OF assms])

text \<open>A branch of a search that may find activity before it goes on.\<close>

lemma triple_found:
  assumes "triple P m E (\<lambda>b v. P v \<and> (b \<longrightarrow> R))" and "triple P m' E (\<lambda>b v. P v \<and> (b \<longrightarrow> R'))"
  shows "triple P (ebind m (\<lambda>b. if b then return True else m')) E (\<lambda>b v. P v \<and> (b \<longrightarrow> R \<or> R'))"
proof (rule triple_branch [OF assms(1)])
  show "triple (\<lambda>v. P v \<and> (False \<longrightarrow> R)) m' E (\<lambda>b v. P v \<and> (b \<longrightarrow> R \<or> R'))"
    by (rule triple_weaken [OF assms(2)]) auto
qed auto

lemma service_triple:
  assumes "upstream_ok w up P E T q"
  shows "triple P (service_is_reachable w up q t e) E (\<lambda>b v. P v \<and> (b \<longrightarrow> active_when w T q (ServiceOperation t) e))"
proof -
  let ?R = "\<exists>provider scope. component_of w e an_provider = Inr provider
      \<and> Option.bind (hm_get w provider) an_workflow_scope = Some scope \<and> T q scope"
  have "triple P (workflow_hooks_reachable w up q e) E (\<lambda>b v. P v \<and> (b \<longrightarrow> ?R))"
    unfolding workflow_hooks_reachable_def
    by (rule triple_observe_bind)
      (auto split: option.split intro: upstream_okD(2) [OF assms] triple_return triple_weaken [OF upstream_okD(1) [OF assms]])
  then have "triple P (ebind (workflow_hooks_reachable w up q e) (\<lambda>b. if b then return True else single_input_reachable w up q e))
      E (\<lambda>b v. P v \<and> (b \<longrightarrow> ?R \<or> some_input_live w T q e))"
    by (rule triple_found) (rule single_input_triple [OF assms])
  then have "triple P (ebind (workflow_hooks_reachable w up q e) (\<lambda>b. if b then return True else single_input_reachable w up q e))
      E (\<lambda>b v. P v \<and> (b \<longrightarrow> active_when w T q (ServiceOperation t) e))"
    by (rule triple_weaken) auto
  then show ?thesis
    unfolding service_is_reachable_def
    by (intro triple_or_else upstream_okD(2) [OF assms]) simp_all
qed

lemma buffer_triple:
  assumes "upstream_ok w up P E T q"
  shows "triple P (buffer_is_reachable w up q t e) E (\<lambda>b v. P v \<and> (b \<longrightarrow> active_when w T q (BufferOperation t) e))"
  unfolding buffer_is_reachable_def
proof (rule triple_ebind [OF opening_triple [OF assms]])
  fix b0
  have accessors: "triple P (ebind (accessors_reachable w up q e) (\<lambda>b. if b then return True else return False)) E
      (\<lambda>b v. P v \<and> (b \<longrightarrow> accessors_live w T q e \<or> False))"
    by (rule triple_found) (auto intro: accessors_triple [OF assms] triple_return)
  have inputs: "triple P (ebind (accessors_reachable w up q e) (\<lambda>b. if b then return True else single_input_reachable w up q e))
      E (\<lambda>b v. P v \<and> (b \<longrightarrow> accessors_live w T q e \<or> some_input_live w T q e))"
    by (rule triple_found) (rule accessors_triple [OF assms] single_input_triple [OF assms])+
  show "triple (\<lambda>v. P v \<and> (b0 \<longrightarrow> opening_live w T q e))
      (if \<not> b0 then ebind (accessors_reachable w up q e) (\<lambda>b. if b then return True else return False)
       else or_else (has_input_of w q t e)
         (ebind (accessors_reachable w up q e) (\<lambda>b. if b then return True else single_input_reachable w up q e)))
      E (\<lambda>b v. P v \<and> (b \<longrightarrow> active_when w T q (BufferOperation t) e))"
  proof (rule triple_pure)
    assume "b0 \<longrightarrow> opening_live w T q e"
    then show "triple P (if \<not> b0 then ebind (accessors_reachable w up q e) (\<lambda>b. if b then return True else return False)
       else or_else (has_input_of w q t e)
         (ebind (accessors_reachable w up q e) (\<lambda>b. if b then return True else single_input_reachable w up q e)))
      E (\<lambda>b v. P v \<and> (b \<longrightarrow> active_when w T q (BufferOperation t) e))"
      by (auto intro!: triple_or_else upstream_okD(2) [OF assms] triple_weaken [OF inputs] triple_weaken [OF accessors])
  qed
qed

lemma scope_triple:
  assumes "upstream_ok w up P E T q"
  shows "triple P (scope_is_reachable w up q t e) E (\<lambda>b v. P v \<and> (b \<longrightarrow> active_when w T q (ScopeOperation t) e))"
  unfolding scope_is_reachable_def
proof (intro triple_or_else triple_observe_bind upstream_okD(2) [OF assms], goal_cases)
  case (2 pairs)
  show ?case
  proof (cases "find (\<lambda>(parent, _). parent = rq_in_session q) pairs")
    case None
    then show ?thesis by (auto intro: triple_weaken [OF single_input_triple [OF assms]])
  next
    case (Some p)
    obtain parent scoped where p: "p = (parent, scoped)" by fastforce
    have "triple P (ebind (\<lambda>v. (v, snd (up (scoped_query q scoped) terminate [])))
          (\<lambda>b. if b then return True else single_input_reachable w up q e)) E
        (\<lambda>b v. P v \<and> (b \<longrightarrow> T (scoped_query q scoped) terminate \<or> some_input_live w T q e))" for terminate
      by (rule triple_found) (rule upstream_ok_nested [OF assms 2(2) Some [unfolded p]] single_input_triple [OF assms])+
    then have "component_of w e an_terminate = Inr terminate \<Longrightarrow>
        triple P (ebind (\<lambda>v. (v, snd (up (scoped_query q scoped) terminate [])))
          (\<lambda>b. if b then return True else single_input_reachable w up q e)) E
        (\<lambda>b v. P v \<and> (b \<longrightarrow> active_when w T q (ScopeOperation t) e))" for terminate
      by (rule triple_weaken) (use 2(2) Some p in auto)
    then show ?thesis
      using Some p by (auto intro!: triple_observe_bind upstream_okD(2) [OF assms] simp del: active_when.simps)
  qed
qed simp

lemma join_inputs_triple:
  assumes "upstream_ok w up P E T q"
  shows "triple P (join_inputs_reachable w up q buffers inputs) E (\<lambda>b v. P v \<and>
    (b \<longrightarrow> (\<forall>x \<in> set inputs. T q x \<or> (\<exists>n. buffered_count_for w buffers x (rq_in_session q) = Inr (Suc n)))))"
proof (induction inputs)
  case Nil
  have "join_inputs_reachable w up q buffers [] = return True" by (rule ext) simp
  then show ?case by (auto intro: triple_return)
next
  case (Cons x inputs)
  have step: "join_inputs_reachable w up q buffers (x # inputs) =
      ebind (up q x) (\<lambda>b. if b then join_inputs_reachable w up q buffers inputs
        else ebind (observe (buffered_count_for w buffers x (rq_in_session q))) (\<lambda>count.
          if count = 0 then return False else join_inputs_reachable w up q buffers inputs))"
    by (rule ext) simp
  show ?case
    unfolding step
  proof (rule triple_ebind [OF upstream_okD(1) [OF assms]], rule triple_pure)
    fix b assume b: "b \<longrightarrow> T q x"
    show "triple P (if b then join_inputs_reachable w up q buffers inputs
        else ebind (observe (buffered_count_for w buffers x (rq_in_session q))) (\<lambda>count.
          if count = 0 then return False else join_inputs_reachable w up q buffers inputs)) E (\<lambda>b v. P v \<and>
        (b \<longrightarrow> (\<forall>y \<in> set (x # inputs). T q y \<or> (\<exists>n. buffered_count_for w buffers y (rq_in_session q) = Inr (Suc n)))))"
      using b by (auto intro!: triple_observe_bind triple_return upstream_okD(2) [OF assms] triple_weaken [OF Cons.IH]
        simp: gr0_conv_Suc)
  qed
qed

lemma join_triple:
  assumes "upstream_ok w up P E T q"
  shows "triple P (join_is_reachable w up q e) E (\<lambda>b v. P v \<and> (b \<longrightarrow> active_when w T q JoinOperation e))"
  unfolding join_is_reachable_def
  by (intro triple_observe_bind upstream_okD(2) [OF assms]) (auto intro: triple_weaken [OF join_inputs_triple [OF assms]])

lemma is_reachable_triple:
  assumes "upstream_ok w up P E T q"
  shows "triple P (is_reachable w up q op e) E (\<lambda>b v. P v \<and> (b \<longrightarrow> active_when w T q op e))"
proof -
  note ok = upstream_okD [OF assms]
  note inputs = single_input_triple [OF assms]
  have inputs': "triple P (single_input_reachable w up q e) E (\<lambda>b v. P v \<and> (b \<longrightarrow> R))"
    if "some_input_live w T q e \<Longrightarrow> R" for R
    by (rule triple_weaken [OF inputs]) (use that in auto)
  show ?thesis
  proof (cases op)
    case (Plain t)
    then show ?thesis
      by (auto simp: plain_is_reachable_def intro!: triple_or_else inputs' ok(2))
  next
    case (DynamicGate t)
    then show ?thesis
      by (auto simp: dynamic_gate_is_reachable_def intro!: triple_or_else inputs' ok(2))
  next
    case (CancelOperation t)
    then show ?thesis
      by (auto simp: cancel_is_reachable_def intro!: triple_or_else triple_observe_bind triple_return inputs' ok(2))
  next
    case (TaskOperation t)
    then show ?thesis
      by (auto simp: task_operation_is_reachable_def intro!: triple_or_else inputs' ok(2))
  next
    case (InjectionOperation t)
    then show ?thesis
      by (auto simp: injection_is_reachable_def rbind_eq_Inr intro!: triple_or_else inputs' ok(2))
  next
    case (CollectOperation t)
    then show ?thesis
      by (auto simp: collect_is_reachable_def intro!: triple_or_else inputs' ok(2))
  next
    case (TerminateOperation t)
    then show ?thesis
      by (auto simp: terminate_is_reachable_def rbind_eq_Inr intro!: triple_or_else inputs' ok(2))
  next
    case TaskNode
    then show ?thesis
      by (auto simp: task_is_reachable_def intro!: triple_observe_bind triple_return ok(2))
  next
    case BeginCleanupOperation
    then show ?thesis by (auto intro!: triple_observe ok(2))
  next
    case FinishCleanupOperation
    then show ?thesis by (auto intro!: triple_observe ok(2))
  next
    case (StreamRedirect t)
    then show ?thesis
      by (auto simp: stream_redirect_is_reachable_def intro!: triple_or_else triple_observe_bind
        triple_weaken [OF ok(1)] ok(2))
  qed (use service_triple [OF assms] join_triple [OF assms] buffer_triple [OF assms] scope_triple [OF assms] in
      \<open>simp_all del: active_when.simps\<close>)
qed

subsection \<open>The search ends\<close>

text \<open>
  Every step of the search either marks an operation that was not visited or goes down into a session
  of the session it looks at. \<open>room\<close> counts what is left.
\<close>

definition deeper :: "activity_world \<Rightarrow> entity \<Rightarrow> (entity \<times> entity) set" where
  "deeper w session = {(p, c) \<in> set (stored_sessions w). (session, p) \<in> (set (stored_sessions w))\<^sup>*}"

definition room :: "activity_world \<Rightarrow> reach_query \<Rightarrow> visited \<Rightarrow> nat" where
  "room w q v =
     card (deeper w (rq_in_session q)) * Suc (card (dom (hm_get w))) + card (dom (hm_get w) - dom (hm_get v))"

lemma finite_deeper: "finite (deeper w session)"
  by (rule finite_subset [of _ "set (stored_sessions w)"]) (auto simp: deeper_def)

lemma deeper_decreases:
  assumes "acyclic (set (stored_sessions w))" and "(session, scoped) \<in> set (stored_sessions w)"
  shows "card (deeper w scoped) < card (deeper w session)"
proof (rule psubset_card_mono [OF finite_deeper])
  let ?S = "set (stored_sessions w)"
  have "deeper w scoped \<subseteq> deeper w session"
    using assms(2) by (auto simp: deeper_def intro: converse_rtrancl_into_rtrancl)
  moreover have "(session, scoped) \<notin> deeper w scoped"
  proof
    assume "(session, scoped) \<in> deeper w scoped"
    then have "(scoped, scoped) \<in> ?S\<^sup>+" using assms(2) by (auto simp: deeper_def intro: rtrancl_into_trancl1)
    then show False using assms(1) by (simp add: acyclic_def)
  qed
  moreover have "(session, scoped) \<in> deeper w session" using assms(2) by (simp add: deeper_def)
  ultimately show "deeper w scoped \<subset> deeper w session" by blast
qed

lemma unvisited_le: "card (dom (hm_get w) - X) \<le> card (dom (hm_get w))"
  by (rule card_mono) (auto simp: finite_dom_map_of)

lemma room_nested:
  assumes "acyclic (set (stored_sessions w))" and "(rq_in_session q, scoped) \<in> set (stored_sessions w)"
  shows "room w (scoped_query q scoped) v' < room w q v"
proof -
  let ?N = "Suc (card (dom (hm_get w)))"
  have "room w (scoped_query q scoped) v' < Suc (card (deeper w scoped)) * ?N"
    using unvisited_le [of w "dom (hm_get v')"] by (simp add: room_def scoped_query_def)
  also have "\<dots> \<le> card (deeper w (rq_in_session q)) * ?N"
    using deeper_decreases [OF assms] by (intro mult_le_mono1) simp
  finally show ?thesis by (simp add: room_def)
qed

lemma room_visit:
  assumes "component_of w e an_operation = Inr op" and "hm_get v e = None"
  shows "room w q (hm_insert e b v) < room w q v"
proof -
  have "e \<in> dom (hm_get w)" using assms(1) by (auto simp: component_of_def split: bind_splits)
  then have "dom (hm_get w) - dom (hm_get (hm_insert e b v)) \<subset> dom (hm_get w) - dom (hm_get v)"
    using assms(2) by auto
  then show ?thesis by (simp add: room_def psubset_card_mono finite_dom_map_of)
qed

lemma room_insert: "room w q (hm_insert e b v) \<le> room w q v"
proof -
  have "card (dom (hm_get w) - dom (hm_get (hm_insert e b v))) \<le> card (dom (hm_get w) - dom (hm_get v))"
    by (rule card_mono) (auto simp: finite_dom_map_of)
  then show ?thesis by (simp add: room_def)
qed

lemma room_start: "room w q [] < search_fuel w"
proof -
  have "card (deeper w (rq_in_session q)) \<le> card (set (stored_sessions w))"
    by (rule card_mono) (auto simp: deeper_def)
  also have "\<dots> \<le> length (stored_sessions w)" by (rule card_length)
  finally have d: "card (deeper w (rq_in_session q)) \<le> length (stored_sessions w)" .
  have n: "card (dom (hm_get w)) \<le> length w"
    by (metis card_length dom_map_of_conv_image_fst length_map list.set_map)
  have "card (deeper w (rq_in_session q)) * Suc (card (dom (hm_get w))) \<le> length (stored_sessions w) * Suc (length w)"
    by (rule mult_le_mono) (use d n in simp_all)
  then show ?thesis using n by (simp add: room_def search_fuel_def)
qed

text \<open>One step of the search, for any claim \<open>Q\<close> about its result.\<close>

lemma check_upstream_step:
  assumes "\<And>v b. P v \<Longrightarrow> hm_get v e = Some b \<Longrightarrow> Q b v"
    and "\<And>op v. P v \<Longrightarrow> hm_get v e = None \<Longrightarrow> component_of w e an_operation = Inr op \<Longrightarrow> P' op (hm_insert e False v)"
    and "\<And>op. component_of w e an_operation = Inr op \<Longrightarrow>
      triple (P' op) (is_reachable w (check_upstream fuel w) q op e) E (R op)"
    and "\<And>op v. component_of w e an_operation = Inr op \<Longrightarrow> R op True v \<Longrightarrow> Q True (hm_insert e True v)"
    and "\<And>op v. component_of w e an_operation = Inr op \<Longrightarrow> R op False v \<Longrightarrow> Q False v"
    and "\<And>e. E (Failed e)"
  shows "triple P (check_upstream (Suc fuel) w q e) E Q"
proof -
  let ?m = "ebind (observe (component_of w e an_operation)) (\<lambda>op.
      ebind (is_reachable w (check_upstream fuel w) q op e) (\<lambda>b.
        if b then ebind (modify (hm_insert e True)) (\<lambda>_. return True) else return False))"
  have mark: "triple (R op True) (ebind (modify (hm_insert e True)) (\<lambda>_. return True)) E Q"
    if "component_of w e an_operation = Inr op" for op
    using assms(4) [OF that] by (simp add: triple_def ebind_def modify_def return_def)
  have m: "triple (\<lambda>v'. \<exists>v. P v \<and> hm_get v e = None \<and> v' = hm_insert e False v) ?m E Q"
  proof (rule triple_observe_bind)
    fix op assume op: "component_of w e an_operation = Inr op"
    have "triple (P' op) (ebind (is_reachable w (check_upstream fuel w) q op e) (\<lambda>b.
        if b then ebind (modify (hm_insert e True)) (\<lambda>_. return True) else return False)) E Q"
      by (rule triple_ebind [OF assms(3) [OF op]]) (use mark [OF op] assms(5) [OF op] in \<open>auto intro: triple_return\<close>)
    then show "triple (\<lambda>v'. \<exists>v. P v \<and> hm_get v e = None \<and> v' = hm_insert e False v)
        (ebind (is_reachable w (check_upstream fuel w) q op e) (\<lambda>b.
          if b then ebind (modify (hm_insert e True)) (\<lambda>_. return True) else return False)) E Q"
      by (rule triple_weaken) (use assms(2) op in blast)+
  qed (rule assms(6))
  show ?thesis
  proof (rule tripleI)
    fix v v' h assume v: "P v" "check_upstream (Suc fuel) w q e v = (v', Inl h)"
    then show "E h" using triple_Inl [OF m, of "hm_insert e False v"] by (auto split: option.splits)
  next
    fix v v' b assume v: "P v" "check_upstream (Suc fuel) w q e v = (v', Inr b)"
    then show "Q b v'" using triple_Inr [OF m, of "hm_insert e False v"] assms(1) by (auto split: option.splits)
  qed
qed

lemma upstream_has_fuel:
  assumes "acyclic (set (stored_sessions w))"
  shows "triple (\<lambda>v. room w q v < fuel) (check_upstream fuel w q e) (\<lambda>h. h \<noteq> OutOfFuel) (\<lambda>_ v. room w q v < fuel)"
proof (induction fuel arbitrary: q e)
  case (Suc fuel)
  have nested: "snd (check_upstream fuel w (scoped_query q scoped) t []) \<noteq> Inl OutOfFuel"
    if "room w q v < fuel" and "(rq_in_session q, scoped) \<in> set (stored_sessions w)" for v scoped t
  proof -
    have "room w (scoped_query q scoped) [] < fuel" using room_nested [OF assms that(2)] that(1) less_trans by blast
    then show ?thesis
      using triple_Inl [OF Suc.IH] by (metis prod.collapse)
  qed
  have "upstream_ok w (check_upstream fuel w) (\<lambda>v. room w q v < fuel) (\<lambda>h. h \<noteq> OutOfFuel) (\<lambda>_ _. True) q"
    unfolding upstream_ok_def using Suc.IH nested by (auto split: sum.split)
  from is_reachable_triple [OF this]
  have "triple (\<lambda>v. room w q v < fuel) (is_reachable w (check_upstream fuel w) q op e) (\<lambda>h. h \<noteq> OutOfFuel)
      (\<lambda>b v. room w q v < fuel)" for op
    by (rule triple_weaken) auto
  then show ?case
  proof (rule check_upstream_step [rotated 2])
    fix op v assume "room w q v < Suc fuel" "hm_get v e = None" "component_of w e an_operation = Inr op"
    then show "room w q (hm_insert e False v) < fuel" using room_visit less_Suc_eq_le order_less_le_trans by metis
  next
    fix v assume "room w q v < fuel"
    then show "room w q (hm_insert e True v) < Suc fuel" using room_insert [of w q e True v] by simp
  qed simp_all
qed (simp add: triple_def)

lemma search_returns: "acyclic (set (stored_sessions w)) \<Longrightarrow> snd (check_upstream (search_fuel w) w q e []) \<noteq> Inl OutOfFuel"
  using triple_Inl [OF upstream_has_fuel room_start] by (metis prod.collapse)

subsection \<open>What is found is live\<close>

lemma upstream_sound:
  "triple (\<lambda>v. \<forall>x. hm_get v x = Some True \<longrightarrow> live w q x) (check_upstream fuel w q e) (\<lambda>_. True)
     (\<lambda>b v. (\<forall>x. hm_get v x = Some True \<longrightarrow> live w q x) \<and> (b \<longrightarrow> live w q e))"
proof (induction fuel arbitrary: q e)
  case (Suc fuel)
  let ?P = "\<lambda>v. \<forall>x. hm_get v x = Some True \<longrightarrow> live w q x"
  have "case snd (check_upstream fuel w q' t []) of Inl h \<Rightarrow> True | Inr b \<Rightarrow> b \<longrightarrow> live w q' t" for q' t
    using triple_Inr [OF Suc.IH [of q' t], of "[]"] by (auto split: sum.split) (metis prod.collapse)
  then have "upstream_ok w (check_upstream fuel w) ?P (\<lambda>_. True) (live w) q"
    unfolding upstream_ok_def using Suc.IH by blast
  from is_reachable_triple [OF this]
  have "triple ?P (is_reachable w (check_upstream fuel w) q op e) (\<lambda>_. True)
      (\<lambda>b v. ?P v \<and> (b \<longrightarrow> active_when w (live w) q op e))" for op .
  then show ?case
  proof (rule check_upstream_step [rotated 2])
    fix op v
    assume "component_of w e an_operation = Inr op" "?P v \<and> (True \<longrightarrow> active_when w (live w) q op e)"
    then show "(\<forall>x. hm_get (hm_insert e True v) x = Some True \<longrightarrow> live w q x) \<and> (True \<longrightarrow> live w q e)"
      by (auto intro: live.intros)
  qed auto
qed (simp add: triple_def)

lemma found_is_live: "snd (check_upstream fuel w q e []) = Inr True \<Longrightarrow> live w q e"
  using triple_Inr [OF upstream_sound [of w q fuel e], of "[]"] by (metis map_of.simps(1) option.discI prod.collapse)

subsection \<open>Everything live is found\<close>

text \<open>
  \<open>beyond w D q\<close> is liveness with the operations \<open>D\<close> taken out for the query \<open>q\<close>. When a search ends
  with false, no operation it has visited is active in what is beyond the visited ones, so none of them
  is live. \<open>dismissed\<close> is that claim for the steps on the way there: they answer true, or they go on
  with more operations visited, for which \<open>F\<close> holds.
\<close>

definition beyond :: "activity_world \<Rightarrow> entity set \<Rightarrow> reach_query \<Rightarrow> reach_query \<Rightarrow> entity \<Rightarrow> bool" where
  "beyond w D q q' x = (if q' = q then x \<notin> D else live w q' x)"

definition settled :: "activity_world \<Rightarrow> reach_query \<Rightarrow> entity set \<Rightarrow> entity set \<Rightarrow> visited \<Rightarrow> bool" where
  "settled w q V K v \<longleftrightarrow> V \<union> K \<subseteq> dom (hm_get v)
   \<and> (\<forall>x op. x \<in> dom (hm_get v) \<longrightarrow> x \<notin> V \<longrightarrow> component_of w x an_operation = Inr op \<longrightarrow>
        \<not> active_when w (beyond w (dom (hm_get v)) q) q op x)"

definition dismissed ::
  "activity_world \<Rightarrow> reach_query \<Rightarrow> entity set \<Rightarrow> entity set \<Rightarrow> (entity set \<Rightarrow> bool) \<Rightarrow> bool \<Rightarrow> visited \<Rightarrow> bool" where
  "dismissed w q V K F b v \<longleftrightarrow> b \<or> (\<exists>K'. K \<subseteq> K' \<and> settled w q V K' v \<and> F K')"

definition upstream_exact :: "activity_world \<Rightarrow> upstream_check \<Rightarrow> entity set \<Rightarrow> reach_query \<Rightarrow> bool" where
  "upstream_exact w up V q \<longleftrightarrow>
     (\<forall>K x. triple (settled w q V K) (up q x) (\<lambda>_. True) (\<lambda>b v. b \<or> settled w q V (insert x K) v))
   \<and> (\<forall>scoped t. (rq_in_session q, scoped) \<in> set (stored_sessions w) \<longrightarrow>
        snd (up (scoped_query q scoped) t []) = Inr False \<longrightarrow> \<not> live w (scoped_query q scoped) t)"

lemma beyond_anti: "K \<subseteq> K' \<Longrightarrow> beyond w K' q \<le> beyond w K q"
  by (auto simp: beyond_def le_fun_def)

lemma active_beyond_anti: "\<not> active_when w (beyond w K q) q op e \<Longrightarrow> K \<subseteq> K' \<Longrightarrow> \<not> active_when w (beyond w K' q) q op e"
  using active_when_mono [OF beyond_anti] by blast

lemma triple_dismissed_return: "(b \<or> F K) \<Longrightarrow> triple (settled w q V K) (return b) E (dismissed w q V K F)"
  by (rule triple_return) (auto simp: dismissed_def)

lemma dismissed_anti: "dismissed w q V K' G b v \<Longrightarrow> K \<subseteq> K' \<Longrightarrow> dismissed w q V K G b v"
  unfolding dismissed_def by blast

lemma triple_after_dismissed:
  assumes "\<And>K'. K \<subseteq> K' \<Longrightarrow> F K' \<Longrightarrow> triple (settled w q V K') m E Q"
  shows "triple (dismissed w q V K F False) m E Q"
proof (rule tripleI)
  fix v v' h assume "dismissed w q V K F False v" "m v = (v', Inl h)"
  then show "E h" using assms triple_Inl unfolding dismissed_def by metis
next
  fix v v' x assume "dismissed w q V K F False v" "m v = (v', Inr x)"
  then show "Q x v'" using assms triple_Inr unfolding dismissed_def by metis
qed

lemma triple_dismissed:
  assumes "triple (settled w q V K) m E (dismissed w q V K F)"
    and "\<And>K'. K \<subseteq> K' \<Longrightarrow> F K' \<Longrightarrow> triple (settled w q V K') m' E (dismissed w q V K' G)"
  shows "triple (settled w q V K) (ebind m (\<lambda>b. if b then return True else m')) E (dismissed w q V K G)"
proof (rule triple_branch [OF assms(1)])
  show "triple (dismissed w q V K F False) m' E (dismissed w q V K G)"
  proof (rule triple_after_dismissed)
    fix K' assume K': "K \<subseteq> K'" "F K'"
    show "triple (settled w q V K') m' E (dismissed w q V K G)"
      by (rule triple_weaken [OF assms(2) [OF K']]) (use dismissed_anti K'(1) in \<open>blast+\<close>)
  qed
qed (simp add: dismissed_def)

lemma triple_dismissed_weaken:
  "triple P m E (dismissed w q V K F) \<Longrightarrow> (\<And>K'. K \<subseteq> K' \<Longrightarrow> F K' \<Longrightarrow> G K') \<Longrightarrow> triple P m E (dismissed w q V K G)"
  by (erule triple_weaken) (auto simp: dismissed_def)

lemma upstream_dismissed:
  assumes "upstream_exact w up V q"
  shows "triple (settled w q V K) (up q x) (\<lambda>_. True) (dismissed w q V K (\<lambda>K'. x \<in> K'))"
proof -
  have "triple (settled w q V K) (up q x) (\<lambda>_. True) (\<lambda>b v. b \<or> settled w q V (insert x K) v)"
    using assms by (simp add: upstream_exact_def)
  then show ?thesis by (rule triple_weaken) (auto simp: dismissed_def)
qed

lemma first_true_dismissed:
  assumes "upstream_exact w up V q"
  shows "triple (settled w q V K) (first_true (up q) xs) (\<lambda>_. True) (dismissed w q V K (\<lambda>K'. set xs \<subseteq> K'))"
proof (induction xs arbitrary: K)
  case Nil
  show ?case unfolding first_true_Nil by (rule triple_dismissed_return) simp
next
  case (Cons x xs)
  show ?case
    unfolding first_true_Cons
    by (rule triple_dismissed [OF upstream_dismissed [OF assms]], rule triple_dismissed_weaken [OF Cons.IH]) auto
qed

lemma single_input_dismissed:
  assumes "upstream_exact w up V q"
  shows "triple (settled w q V K) (single_input_reachable w up q e) (\<lambda>_. True)
    (dismissed w q V K (\<lambda>K'. \<not> some_input_live w (beyond w K' q) q e))"
proof (cases "Option.bind (hm_get w e) wn_single_input")
  case None
  then show ?thesis
    by (auto simp: single_input_reachable_def some_input_live_def intro: triple_observe triple_dismissed_return split: option.split)
next
  case (Some inputs)
  have "triple (settled w q V K) (first_true (up q) inputs) (\<lambda>_. True)
      (dismissed w q V K (\<lambda>K'. \<not> some_input_live w (beyond w K' q) q e))"
    by (rule triple_dismissed_weaken [OF first_true_dismissed [OF assms]])
      (auto simp: some_input_live_def Some beyond_def)
  then show ?thesis using Some by (auto simp: single_input_reachable_def split: option.splits)
qed

lemma accessors_dismissed:
  assumes "upstream_exact w up V q"
  shows "triple (settled w q V K) (accessors_reachable w up q e) (\<lambda>_. True)
    (dismissed w q V K (\<lambda>K'. \<not> accessors_live w (beyond w K' q) q e))"
proof (cases "Option.bind (hm_get w e) an_accessors")
  case None
  then show ?thesis by (auto simp: accessors_reachable_def accessors_live_def intro: triple_dismissed_return)
next
  case (Some accessors)
  have "triple (settled w q V K) (first_true (up q) accessors) (\<lambda>_. True)
      (dismissed w q V K (\<lambda>K'. \<not> accessors_live w (beyond w K' q) q e))" if "accessors_in_use w q accessors = Inr False"
    by (rule triple_dismissed_weaken [OF first_true_dismissed [OF assms]])
      (use that in \<open>auto simp: accessors_live_def Some beyond_def\<close>)
  then show ?thesis
    using Some by (auto simp: accessors_reachable_def dismissed_def intro!: triple_or_else)
qed

lemma or_else_dismissed:
  assumes "r = Inr False \<Longrightarrow> triple (settled w q V K) m (\<lambda>_. True) (dismissed w q V K F)"
  shows "triple (settled w q V K) (or_else r m) (\<lambda>_. True) (dismissed w q V K F)"
  by (rule triple_or_else) (use assms in \<open>auto simp: dismissed_def\<close>)

lemma observe_bind_dismissed:
  "(\<And>x. r = Inr x \<Longrightarrow> triple (settled w q V K) (f x) (\<lambda>_. True) (dismissed w q V K F)) \<Longrightarrow>
     triple (settled w q V K) (ebind (observe r) f) (\<lambda>_. True) (dismissed w q V K F)"
  by (rule triple_observe_bind) simp_all

lemma observe_dismissed:
  "(r = Inr False \<Longrightarrow> F K) \<Longrightarrow> triple (settled w q V K) (observe r) (\<lambda>_. True) (dismissed w q V K F)"
  by (rule triple_observe) (auto simp: dismissed_def)

lemmas dismissed_intros = or_else_dismissed observe_bind_dismissed observe_dismissed triple_dismissed_return

text \<open>Worlds where an operation is live when one of the things it looks at is.\<close>

definition disjunctive :: "activity_world \<Rightarrow> bool" where
  "disjunctive w \<longleftrightarrow> list_all (\<lambda>(_, n). an_operation n \<noteq> Some JoinOperation
     \<and> (case an_gates n of None \<Rightarrow> True | Some gates \<Rightarrow> list_all (\<lambda>(_, g). gate_is_open g) gates)) w"

lemma component_of_member: "component_of w e get = Inr x \<Longrightarrow> \<exists>n. (e, n) \<in> set w \<and> get n = Some x"
  by (auto simp: component_of_def dest: map_of_SomeD split: bind_splits)

lemma disjunctive_no_join: "disjunctive w \<Longrightarrow> component_of w e an_operation = Inr op \<Longrightarrow> op \<noteq> JoinOperation"
  by (auto simp: disjunctive_def list_all_iff dest!: component_of_member)

lemma disjunctive_gates_open:
  assumes "disjunctive w" and "component_of w e an_gates = Inr gates"
  shows "\<not> gate_closed_in gates session"
proof -
  have "gate_is_open g" if "(s, g) \<in> set gates" for s g
    using assms that by (fastforce simp: disjunctive_def list_all_iff dest!: component_of_member)
  then show ?thesis
    by (auto simp: gate_closed_in_def dest!: map_of_SomeD split: option.split) (metis gate_is_closed.simps gate_is_open.simps gate.exhaust)
qed

lemma service_dismissed:
  assumes "upstream_exact w up V q"
  shows "triple (settled w q V K) (service_is_reachable w up q t e) (\<lambda>_. True)
    (dismissed w q V K (\<lambda>K'. \<not> active_when w (beyond w K' q) q (ServiceOperation t) e))"
proof -
  let ?R = "\<lambda>K'. \<not> (\<exists>provider scope. component_of w e an_provider = Inr provider
      \<and> Option.bind (hm_get w provider) an_workflow_scope = Some scope \<and> scope \<notin> K')"
  have hooks: "triple (settled w q V K) (workflow_hooks_reachable w up q e) (\<lambda>_. True) (dismissed w q V K ?R)"
    unfolding workflow_hooks_reachable_def
    by (intro observe_bind_dismissed)
      (auto split: option.split intro!: triple_dismissed_return triple_dismissed_weaken [OF upstream_dismissed [OF assms]])
  show ?thesis
    unfolding service_is_reachable_def
  proof (intro or_else_dismissed, rule triple_dismissed [OF hooks], goal_cases)
    case (1 K')
    then show ?case
      by (intro triple_dismissed_weaken [OF single_input_dismissed [OF assms]]) (auto simp: beyond_def)
  qed
qed

lemma buffer_dismissed:
  assumes "upstream_exact w up V q" and "disjunctive w"
  shows "triple (settled w q V K) (buffer_is_reachable w up q t e) (\<lambda>_. True)
    (dismissed w q V K (\<lambda>K'. \<not> active_when w (beyond w K' q) q (BufferOperation t) e))"
proof -
  have gate: "triple (settled w q V K) (opening_reachable w up q e) (\<lambda>_. True) (\<lambda>b v. settled w q V K v \<and> b)"
    unfolding opening_reachable_def
    by (rule triple_observe_bind) (auto simp: disjunctive_gates_open [OF assms(2)] intro: triple_return)
  have inputs: "triple (settled w q V K') (single_input_reachable w up q e) (\<lambda>_. True)
      (dismissed w q V K' (\<lambda>K'. \<not> active_when w (beyond w K' q) q (BufferOperation t) e))"
    if "\<not> accessors_live w (beyond w K' q) q e" and "has_input_of w q t e = Inr False" for K'
  proof (rule triple_dismissed_weaken [OF single_input_dismissed [OF assms(1)]])
    fix K'' assume K'': "K' \<subseteq> K''" "\<not> some_input_live w (beyond w K'' q) q e"
    then have "\<not> accessors_live w (beyond w K'' q) q e" using that(1) accessors_live_mono beyond_anti by blast
    then show "\<not> active_when w (beyond w K'' q) q (BufferOperation t) e" using K''(2) that(2) by simp
  qed
  have "triple (settled w q V K) (or_else (has_input_of w q t e)
      (ebind (accessors_reachable w up q e) (\<lambda>b. if b then return True else single_input_reachable w up q e))) (\<lambda>_. True)
    (dismissed w q V K (\<lambda>K'. \<not> active_when w (beyond w K' q) q (BufferOperation t) e))"
    by (rule or_else_dismissed, rule triple_dismissed [OF accessors_dismissed [OF assms(1)]], rule inputs)
  then show ?thesis
    unfolding buffer_is_reachable_def
    by (intro triple_ebind [OF gate] triple_pure) simp
qed

lemma nested_dismissed:
  assumes "upstream_exact w up V q" and "(rq_in_session q, scoped) \<in> set (stored_sessions w)"
  shows "triple (settled w q V K) (\<lambda>v. (v, snd (up (scoped_query q scoped) t []))) (\<lambda>_. True)
    (dismissed w q V K (\<lambda>_. \<not> live w (scoped_query q scoped) t))"
  using assms by (auto simp: triple_def upstream_exact_def dismissed_def split: sum.split)

lemma scope_dismissed:
  assumes "upstream_exact w up V q" and "acyclic (set (stored_sessions w))"
  shows "triple (settled w q V K) (scope_is_reachable w up q t e) (\<lambda>_. True)
    (dismissed w q V K (\<lambda>K'. \<not> active_when w (beyond w K' q) q (ScopeOperation t) e))"
  unfolding scope_is_reachable_def
proof (intro or_else_dismissed observe_bind_dismissed, goal_cases)
  case (1 pairs)
  have inputs: "triple (settled w q V K') (single_input_reachable w up q e) (\<lambda>_. True) (dismissed w q V K' F)"
    if "\<And>K''. K' \<subseteq> K'' \<Longrightarrow> \<not> some_input_live w (beyond w K'' q) q e \<Longrightarrow> F K''" for K' F
    by (rule triple_dismissed_weaken [OF single_input_dismissed [OF assms(1)]]) (use that in auto)
  show ?case
  proof (cases "find (\<lambda>(parent, _). parent = rq_in_session q) pairs")
    case None
    then show ?thesis using 1 by (auto intro: inputs)
  next
    case (Some p)
    obtain parent scoped where p: "p = (parent, scoped)" by fastforce
    have member: "(rq_in_session q, scoped) \<in> set (stored_sessions w)"
      using stored_by_scope [OF 1(2) Some [unfolded p]] .
    then have "scoped \<noteq> rq_in_session q" using assms(2) by (auto simp: acyclic_def)
    then have "scoped_query q scoped \<noteq> q" by (metis reach_query.select_convs(1) scoped_query_def)
    then have b: "beyond w K' q (scoped_query q scoped) t' = live w (scoped_query q scoped) t'" for K' t'
      by (simp add: beyond_def)
    have "triple (settled w q V K) (ebind (\<lambda>v. (v, snd (up (scoped_query q scoped) terminate [])))
        (\<lambda>b. if b then return True else single_input_reachable w up q e)) (\<lambda>_. True)
      (dismissed w q V K (\<lambda>K'. \<not> active_when w (beyond w K' q) q (ScopeOperation t) e))"
      if "component_of w e an_terminate = Inr terminate" for terminate
      by (rule triple_dismissed [OF nested_dismissed [OF assms(1) member]], rule inputs) (use 1 that Some p b in simp)
    then show ?thesis using Some p by (auto intro!: observe_bind_dismissed simp del: active_when.simps)
  qed
qed

lemma is_reachable_dismissed:
  assumes "upstream_exact w up V q" and "disjunctive w" and "acyclic (set (stored_sessions w))"
    and "component_of w e an_operation = Inr op"
  shows "triple (settled w q V K) (is_reachable w up q op e) (\<lambda>_. True)
    (dismissed w q V K (\<lambda>K'. \<not> active_when w (beyond w K' q) q op e))"
proof -
  have inputs: "triple (settled w q V K) (single_input_reachable w up q e) (\<lambda>_. True) (dismissed w q V K F)"
    if "\<And>K'. \<not> some_input_live w (beyond w K' q) q e \<Longrightarrow> F K'" for F
    by (rule triple_dismissed_weaken [OF single_input_dismissed [OF assms(1)]]) (use that in auto)
  have scope: "triple (settled w q V K) (up q x) (\<lambda>_. True) (dismissed w q V K F)" if "\<And>K'. x \<in> K' \<Longrightarrow> F K'" for x F
    by (rule triple_dismissed_weaken [OF upstream_dismissed [OF assms(1)]]) (use that in auto)
  note reach_defs = plain_is_reachable_def dynamic_gate_is_reachable_def cancel_is_reachable_def
    task_operation_is_reachable_def injection_is_reachable_def collect_is_reachable_def
    terminate_is_reachable_def task_is_reachable_def stream_redirect_is_reachable_def
  show ?thesis
  proof (cases op)
    case (ServiceOperation t)
    then show ?thesis using service_dismissed [OF assms(1)] by (simp del: active_when.simps)
  next
    case (BufferOperation t)
    then show ?thesis using buffer_dismissed [OF assms(1,2)] by (simp del: active_when.simps)
  next
    case (ScopeOperation t)
    then show ?thesis using scope_dismissed [OF assms(1,3)] by (simp del: active_when.simps)
  next
    case JoinOperation
    then show ?thesis using disjunctive_no_join [OF assms(2,4)] by simp
  qed (auto simp: reach_defs rbind_eq_Inr beyond_def intro!: dismissed_intros inputs scope)
qed

lemma settled_not_live:
  assumes "settled w q {} {e} v"
  shows "\<not> live w q e"
proof -
  have live: "beyond w (dom (hm_get v)) q q0 x" if "live w q0 x" for q0 x
    using that
  proof (induction rule: live.induct)
    case (1 x op q0)
    then have active: "active_when w (beyond w (dom (hm_get v)) q) q0 op x" "live w q0 x"
      by (auto intro: live.intros elim: active_when_mono [THEN mp, rotated])
    show ?case
    proof (cases "q0 = q")
      case True
      then show ?thesis using assms active(1) 1(1) by (auto simp: settled_def beyond_def)
    qed (use active(2) in \<open>simp add: beyond_def\<close>)
  qed
  have "e \<in> dom (hm_get v)" using assms by (simp add: settled_def)
  then show ?thesis using live [of q e] by (auto simp: beyond_def)
qed

lemma upstream_complete:
  assumes "disjunctive w" and "acyclic (set (stored_sessions w))"
  shows "triple (settled w q V K) (check_upstream fuel w q e) (\<lambda>_. True) (\<lambda>b v. b \<or> settled w q V (insert e K) v)"
proof (induction fuel arbitrary: q e V K)
  case (Suc fuel)
  have dead: "\<not> live w q' t" if False: "snd (check_upstream fuel w q' t []) = Inr False" for q' t
  proof -
    obtain v where "check_upstream fuel w q' t [] = (v, Inr False)" using False by (metis prod.collapse)
    moreover have "settled w q' {} {} []" by (simp add: settled_def)
    ultimately have v: "settled w q' {} {t} v" using triple_Inr [OF Suc.IH [of q' "{}" "{}" t]] by fastforce
    show ?thesis by (rule settled_not_live [OF v])
  qed
  have "upstream_exact w (check_upstream fuel w) V q" for V
    unfolding upstream_exact_def using Suc.IH dead by blast
  note step = is_reachable_dismissed [OF this assms]
  show ?case
  proof (rule check_upstream_step [where P' = "\<lambda>_. settled w q (insert e V) K"
        and R = "\<lambda>op. dismissed w q (insert e V) K (\<lambda>K'. \<not> active_when w (beyond w K' q) q op e)"])
    fix op v assume v: "settled w q V K v" "hm_get v e = None" "component_of w e an_operation = Inr op"
    then have dom: "dom (hm_get (hm_insert e False v)) = insert e (dom (hm_get v))" by auto
    show "settled w q (insert e V) K (hm_insert e False v)"
      unfolding settled_def dom
    proof (intro conjI allI impI)
      fix x op' assume x: "x \<in> insert e (dom (hm_get v))" "x \<notin> insert e V" "component_of w x an_operation = Inr op'"
      then have "\<not> active_when w (beyond w (dom (hm_get v)) q) q op' x" using v(1) by (simp add: settled_def)
      then show "\<not> active_when w (beyond w (insert e (dom (hm_get v))) q) q op' x" using active_beyond_anti by blast
    qed (use v(1) in \<open>auto simp: settled_def\<close>)
  next
    fix op v
    assume op: "component_of w e an_operation = Inr op"
      and "dismissed w q (insert e V) K (\<lambda>K'. \<not> active_when w (beyond w K' q) q op e) False v"
    then obtain K' where K': "K \<subseteq> K'" "settled w q (insert e V) K' v" "\<not> active_when w (beyond w K' q) q op e"
      by (auto simp: dismissed_def)
    then have "K' \<subseteq> dom (hm_get v)" by (simp add: settled_def)
    then have "\<not> active_when w (beyond w (dom (hm_get v)) q) q op e" using active_beyond_anti K'(3) by blast
    then show "False \<or> settled w q V (insert e K) v" using K'(1,2) op by (auto simp: settled_def)
  qed (use step in \<open>auto simp: settled_def\<close>)
qed (simp add: triple_def)

lemma dismissed_is_not_live:
  assumes "disjunctive w" and "acyclic (set (stored_sessions w))" and "snd (check_upstream fuel w q e []) = Inr False"
  shows "\<not> live w q e"
proof -
  obtain v where "check_upstream fuel w q e [] = (v, Inr False)" using assms(3) by (metis prod.collapse)
  moreover have "settled w q {} {} []" by (simp add: settled_def)
  ultimately have "settled w q {} {e} v" using triple_Inr [OF upstream_complete [OF assms(1,2)]] by fastforce
  then show ?thesis by (rule settled_not_live)
qed

end
