(* ===== verification/ReachabilityRuns.thy ===== *)
theory ReachabilityRuns
  imports ReachabilityProofs
begin

text \<open>
  The properties of the search for activity, with small workflows as witnesses, and three workflows
  on which it gives the wrong answer: a join behind a loop, a buffer behind a closed gate, and
  anything behind a dynamic gate.
\<close>

subsection \<open>Small workflows\<close>

text \<open>\<open>node_waiting\<close> is a storage with one input of a session; \<open>reads_from\<close> an operation without waiting inputs.\<close>

definition node_waiting :: "entity \<Rightarrow> operation \<Rightarrow> message_type \<Rightarrow> active_node" where
  "node_waiting session op t = blank_node\<lparr>an_operation := Some op, an_inputs := [(t, [session])]\<rparr>"

definition reads_from :: "entity list \<Rightarrow> operation \<Rightarrow> message_type \<Rightarrow> active_node" where
  "reads_from inputs op t =
     blank_node\<lparr>an_operation := Some op, an_inputs := [(t, [])], wn_single_input := Some inputs\<rparr>"

abbreviation number :: message_type where "number \<equiv> Message 0"

text \<open>An input waits at 1; 2 reads from 1 and from itself, the scope 3 runs session 9 in session 5.\<close>

definition chain_world :: activity_world where
  "chain_world =
     [(1, node_waiting 9 (Plain number) number),
      (2, reads_from [2, 1] (TerminateOperation number) number\<lparr>an_staging := Some []\<rparr>),
      (3, reads_from [] (ScopeOperation number) number\<lparr>an_sessions := Some [(5, 9)], an_terminate := Some 2\<rparr>)]"

text \<open>
  A join of two buffers: buffer 2 reads from the fork 4, and buffer 3 reads from 5. The fork 4 reads
  from 5, which it also feeds, and from 6, where an input waits.
\<close>

definition join_world :: activity_world where
  "join_world =
     [(1, blank_node\<lparr>an_operation := Some JoinOperation, an_join_buffers := Some [2, 3], an_funnel := Some [2, 3]\<rparr>),
      (2, reads_from [4] (BufferOperation number) number\<lparr>an_gates := Some [], an_buffered := Some []\<rparr>),
      (3, reads_from [5] (BufferOperation number) number\<lparr>an_gates := Some [], an_buffered := Some []\<rparr>),
      (4, reads_from [5, 6] (Plain number) number),
      (5, reads_from [4] (Plain number) number),
      (6, node_waiting 9 (Plain number) number)]"

text \<open>An input waits at the buffer 1, whose gate is closed, and one at the gate operation 2 that opens it.\<close>

definition gate_world :: activity_world where
  "gate_world =
     [(1, node_waiting 9 (BufferOperation number) number\<lparr>an_gates := Some [(9, Closed)], an_gate_nodes := Some []\<rparr>),
      (2, node_waiting 9 (Plain number) number\<lparr>an_gate_action := Some Open\<rparr>)]"

definition request_world :: activity_world where
  "request_world = [(1, node_waiting 9 (DynamicGate number) (GateRequest number))]"

definition session_query :: "entity \<Rightarrow> entity option \<Rightarrow> reach_query" where
  "session_query session disposed = \<lparr>rq_in_session = session, rq_disposed = disposed, rq_accessor = None\<rparr>"

lemma check_reachability_query:
  "check_reachability session source disposed w =
     snd (check_upstream (search_fuel w) w (session_query session disposed) source [])"
  by (simp add: check_reachability_def session_query_def)

lemma acyclic_empty: "acyclic {}"
  by (simp add: acyclic_def)

lemma chain_world_nested: "acyclic (set (stored_sessions chain_world))"
proof -
  have "stored_sessions chain_world = [(5, 9)]" by code_simp
  then show ?thesis by (simp add: acyclic_empty)
qed

subsection \<open>Properties\<close>

text \<open>C27: The search for activity always ends, in every world whose sessions are nested without a
  cycle, and an operation for which it answers that it is reachable is live.\<close>
theorem reachability_is_sound:
  assumes "acyclic (set (stored_sessions w))"
  shows "case check_reachability session source disposed w of
      Inl h \<Rightarrow> \<exists>e. h = Failed e
    | Inr b \<Rightarrow> b \<longrightarrow> live w (session_query session disposed) source"
proof (cases "check_reachability session source disposed w")
  case (Inl h)
  then have "h \<noteq> OutOfFuel" using search_returns [OF assms] by (auto simp: check_reachability_query)
  then show ?thesis using Inl by (cases h) auto
qed (auto simp: check_reachability_query intro: found_is_live)

lemma reachability_is_sound_witness: "live chain_world (session_query 5 None) 3"
proof -
  have "check_reachability 5 3 None chain_world = Inr True" by code_simp
  then show ?thesis using reachability_is_sound [of chain_world 5 None 3, OF chain_world_nested] by simp
qed

text \<open>C2: In workflows without joins and closed gates the search for activity answers exactly whether
  the operation is live: it neither invents nor misses activity.\<close>
theorem reachability_is_exact:
  assumes "disjunctive w" and "acyclic (set (stored_sessions w))" and "check_reachability session source disposed w = Inr b"
  shows "b \<longleftrightarrow> live w (session_query session disposed) source"
  using assms found_is_live dismissed_is_not_live by (cases b) (auto simp: check_reachability_query)

lemma reachability_is_exact_witness: "\<not> live chain_world (session_query 7 None) 3 \<and> live chain_world (session_query 5 None) 3"
proof -
  have "disjunctive chain_world" by code_simp
  moreover have "check_reachability 7 3 None chain_world = Inr False" "check_reachability 5 3 None chain_world = Inr True"
    by code_simp+
  ultimately show ?thesis using reachability_is_exact [OF _ chain_world_nested] by blast
qed

lemma live_waiting:
  "component_of w e an_operation = Inr (Plain t) \<Longrightarrow> has_input_of w q t e = Inr True \<Longrightarrow> live w q e"
  by (rule live.intros, assumption) simp

lemma live_reading:
  "component_of w e an_operation = Inr (Plain t) \<Longrightarrow> Option.bind (hm_get w e) wn_single_input = Some inputs \<Longrightarrow>
     x \<in> set inputs \<Longrightarrow> live w q x \<Longrightarrow> live w q e"
  by (rule live.intros, assumption) (auto simp: some_input_live_def)

lemma live_buffer:
  "component_of w e an_operation = Inr (BufferOperation t) \<Longrightarrow> component_of w e an_gates = Inr [] \<Longrightarrow>
     Option.bind (hm_get w e) wn_single_input = Some inputs \<Longrightarrow> x \<in> set inputs \<Longrightarrow> live w q x \<Longrightarrow> live w q e"
  by (rule live.intros, assumption) (auto simp: some_input_live_def opening_live_def gate_closed_in_def)

lemma live_join:
  "component_of w e an_operation = Inr JoinOperation \<Longrightarrow> component_of w e an_join_buffers = Inr buffers \<Longrightarrow>
     component_of w e an_funnel = Inr inputs \<Longrightarrow> (\<And>x. x \<in> set inputs \<Longrightarrow> live w q x) \<Longrightarrow> live w q e"
  by (rule live.intros, assumption) auto

text \<open>Behind a loop the search can miss activity: it remembers that an operation is not reachable
  when it has only seen that the operation is part of the loop it is in, and a join that asks for
  the same operation again is taken for dead.\<close>
theorem stale_answer_hides_activity:
  "check_reachability 9 1 None join_world = Inr False \<and> live join_world (session_query 9 None) 1"
proof
  show "check_reachability 9 1 None join_world = Inr False" by code_simp
  let ?q = "session_query 9 None"
  have l6: "live join_world ?q 6"
    by (rule live_waiting [of _ _ number]) code_simp+
  have l4: "live join_world ?q 4"
    by (rule live_reading [of _ _ number "[5, 6]" 6, OF _ _ _ l6]) code_simp+
  have l5: "live join_world ?q 5"
    by (rule live_reading [of _ _ number "[4]" 4, OF _ _ _ l4]) code_simp+
  have l2: "live join_world ?q 2"
    by (rule live_buffer [of _ _ number "[4]" 4, OF _ _ _ _ l4]) code_simp+
  have l3: "live join_world ?q 3"
    by (rule live_buffer [of _ _ number "[5]" 5, OF _ _ _ _ l5]) code_simp+
  show "live join_world ?q 1"
  proof (rule live_join)
    show "component_of join_world 1 an_operation = Inr JoinOperation" by code_simp
    show "component_of join_world 1 an_join_buffers = Inr [2, 3]" by code_simp
    show "component_of join_world 1 an_funnel = Inr [2, 3]" by code_simp
  qed (use l2 l3 in auto)
qed

text \<open>A buffer whose gate is closed is never found reachable unless an operation that accesses it
  is: neither the inputs that wait there nor those at the gates that would open it count, since no
  operation is ever recorded among the related gates of a buffer.\<close>
theorem closed_gate_hides_inputs:
  assumes "component_of w e an_operation = Inr (BufferOperation t)"
    and "component_of w e an_gates = Inr gates" and "gate_closed_in gates session"
    and "component_of w e an_gate_nodes = Inr []" and "component_of w e an_accessors = Inl Broken"
  shows "check_reachability session e disposed w = Inr False"
proof -
  have "search_fuel w = Suc (Suc (length (stored_sessions w)) * Suc (length w))" by (simp add: search_fuel_def)
  moreover have "Option.bind (hm_get w e) an_gate_nodes = Some []" "Option.bind (hm_get w e) an_accessors = None"
    using assms(4,5) by (simp_all add: component_of_def ok_or_def split: option.splits)
  ultimately show ?thesis
    using assms(1-3)
    by (simp add: check_reachability_def ebind_def observe_def return_def buffer_is_reachable_def opening_reachable_def
      accessors_reachable_def)
qed

lemma closed_gate_hides_inputs_witness:
  "check_reachability 9 1 None gate_world = Inr False \<and> live gate_world (session_query 9 None) 2"
proof -
  have "check_reachability 9 1 None gate_world = Inr False"
    by (rule closed_gate_hides_inputs [of _ _ number "[(9, Closed)]"]) code_simp+
  moreover have "live gate_world (session_query 9 None) 2"
    by (rule live_waiting [of _ _ number]) code_simp+
  ultimately show ?thesis ..
qed

text \<open>A search for activity that arrives at a dynamic gate fails: the gate keeps requests but is asked for
  values.\<close>
theorem dynamic_gate_breaks_search:
  assumes "component_of w e an_operation = Inr (DynamicGate t)" and "hm_get w e = Some n"
    and "hm_get (an_inputs n) t = None"
  shows "check_reachability session e disposed w = Inl (Failed Broken)"
proof -
  have "search_fuel w = Suc (Suc (length (stored_sessions w)) * Suc (length w))" by (simp add: search_fuel_def)
  then show ?thesis
    using assms
    by (simp add: check_reachability_def ebind_def observe_def dynamic_gate_is_reachable_def or_else_def
      has_input_of_def component_of_def)
qed

lemma dynamic_gate_breaks_search_witness: "check_reachability 9 1 None request_world = Inl (Failed Broken)"
  by (rule dynamic_gate_breaks_search [of _ _ number "node_waiting 9 (DynamicGate number) (GateRequest number)"])
    (code_simp, simp add: request_world_def, code_simp)

end
