(* ===== verification/UpstreamActivity.thy ===== *)
theory UpstreamActivity
  imports ReachabilityRuns
begin

text \<open>
  Is something upstream of a collect still active? \<open>is_upstream_active\<close> of
  \<open>src/src/operation/collect.rs\<close> starts the search for activity at the inputs of the collect, with the
  collect itself marked as visited, so that neither a loop through the collect nor what it has gathered
  counts as activity.
\<close>

definition is_upstream_active ::
  "activity_world \<Rightarrow> message_type \<Rightarrow> entity \<Rightarrow> entity \<Rightarrow> entity option \<Rightarrow> halt + bool" where
  "is_upstream_active w t session source disposed =
     (let q = \<lparr>rq_in_session = session, rq_disposed = disposed, rq_accessor = None\<rparr>
      in snd (or_else (has_input_of w q t source)
           (single_input_reachable w (check_upstream (search_fuel w) w) q source) [(source, False)]))"

text \<open>\<open>live_apart w s q\<close>: the operations that are live without the help of the operation \<open>s\<close>.\<close>

definition or_inner :: "activity_world \<Rightarrow> reach_query \<Rightarrow> (entity \<Rightarrow> bool) \<Rightarrow> reach_query \<Rightarrow> entity \<Rightarrow> bool" where
  "or_inner w q A q' y = (if q' = q then A y else live w q' y)"

lemma active_or_inner_mono [mono]:
  assumes "\<And>y. A y \<longrightarrow> A' y"
  shows "active_when w (or_inner w q A) q' op x \<longrightarrow> active_when w (or_inner w q A') q' op x"
  by (rule active_when_mono) (use assms in \<open>auto simp: or_inner_def le_fun_def\<close>)

inductive live_apart :: "activity_world \<Rightarrow> entity \<Rightarrow> reach_query \<Rightarrow> entity \<Rightarrow> bool" for w s q where
  "component_of w x an_operation = Inr op \<Longrightarrow> x \<noteq> s \<Longrightarrow>
     active_when w (or_inner w q (live_apart w s q)) q op x \<Longrightarrow> live_apart w s q x"

abbreviation apart_or_inner :: "activity_world \<Rightarrow> entity \<Rightarrow> reach_query \<Rightarrow> reach_query \<Rightarrow> entity \<Rightarrow> bool" where
  "apart_or_inner w s q \<equiv> or_inner w q (live_apart w s q)"

lemma scoped_query_differs:
  "acyclic (set (stored_sessions w)) \<Longrightarrow> (rq_in_session q, scoped) \<in> set (stored_sessions w) \<Longrightarrow> scoped_query q scoped \<noteq> q"
  by (metis acyclic_def r_into_trancl' reach_query.select_convs(1) scoped_query_def)

lemma upstream_sound_apart:
  assumes "acyclic (set (stored_sessions w))"
  shows "triple (\<lambda>v. hm_get v s = Some False \<and> (\<forall>x. hm_get v x = Some True \<longrightarrow> live_apart w s q x))
    (check_upstream fuel w q e) (\<lambda>_. True)
    (\<lambda>b v. (hm_get v s = Some False \<and> (\<forall>x. hm_get v x = Some True \<longrightarrow> live_apart w s q x)) \<and> (b \<longrightarrow> live_apart w s q e))"
proof (induction fuel arbitrary: e)
  case (Suc fuel)
  let ?P = "\<lambda>v. hm_get v s = Some False \<and> (\<forall>x. hm_get v x = Some True \<longrightarrow> live_apart w s q x)"
  have "upstream_ok w (check_upstream fuel w) ?P (\<lambda>_. True) (apart_or_inner w s q) q"
    unfolding upstream_ok_def
  proof (intro conjI allI impI)
    show "triple ?P (check_upstream fuel w q x) (\<lambda>_. True) (\<lambda>b v. ?P v \<and> (b \<longrightarrow> apart_or_inner w s q q x))" for x
      using Suc.IH [of x] by (simp add: or_inner_def)
    fix v scoped t assume "(rq_in_session q, scoped) \<in> set (stored_sessions w)"
    then show "case snd (check_upstream fuel w (scoped_query q scoped) t []) of Inl h \<Rightarrow> True
        | Inr b \<Rightarrow> b \<longrightarrow> apart_or_inner w s q (scoped_query q scoped) t"
      using scoped_query_differs [OF assms] found_is_live by (auto simp: or_inner_def split: sum.split)
  qed simp
  from is_reachable_triple [OF this]
  have step: "triple ?P (is_reachable w (check_upstream fuel w) q op e) (\<lambda>_. True)
      (\<lambda>b v. ?P v \<and> (b \<longrightarrow> active_when w (apart_or_inner w s q) q op e))" for op .
  show ?case
  proof (cases "e = s")
    case True
    then show ?thesis by (auto simp: triple_def split: option.split)
  next
    case False
    show ?thesis
      by (rule check_upstream_step [OF _ _ step]) (use False in \<open>auto intro: live_apart.intros\<close>)
  qed
qed (simp add: triple_def)

lemma settled_not_live_apart:
  assumes "settled w q {s} K v" and "live_apart w s q x"
  shows "beyond w (dom (hm_get v)) q q x"
  using assms(2)
proof (induction rule: live_apart.induct)
  case (1 x op)
  have "or_inner w q (\<lambda>y. live_apart w s q y \<and> beyond w (dom (hm_get v)) q q y) \<le> beyond w (dom (hm_get v)) q"
    by (auto simp: le_fun_def beyond_def or_inner_def)
  then have "active_when w (beyond w (dom (hm_get v)) q) q op x" using active_when_mono 1(3) by blast
  then show ?case using assms(1) 1(1,2) by (auto simp: settled_def beyond_def)
qed

text \<open>C21: whether a collect waits for more messages is decided exactly in a disjunctive world, one without joins
  and closed gates, whose sessions are not nested in a cycle. The search always ends there, with the
  error of a broken operation or with an answer, and the answer is that upstream is active precisely when
  a message of the session waits at the collect or one of its inputs is live without the help of the
  collect itself. (With joins the answer can be wrong, see \<open>stale_answer_hides_activity\<close>.)\<close>
theorem upstream_activity_is_exact:
  assumes "disjunctive w" and "acyclic (set (stored_sessions w))"
  shows "case is_upstream_active w t session source disposed of
      Inl h \<Rightarrow> \<exists>e. h = Failed e
    | Inr b \<Rightarrow> b \<longleftrightarrow> has_input_of w (session_query session disposed) t source = Inr True
        \<or> some_input_live w (\<lambda>q. live_apart w source q) (session_query session disposed) source"
proof -
  let ?q = "session_query session disposed" and ?up = "check_upstream (search_fuel w) w"
  let ?m = "single_input_reachable w ?up ?q source"
  have run: "is_upstream_active w t session source disposed = snd (or_else (has_input_of w ?q t source) ?m [(source, False)])"
    by (simp add: is_upstream_active_def session_query_def Let_def)
  have "upstream_ok w ?up (\<lambda>v. room w ?q v < search_fuel w) (\<lambda>h. h \<noteq> OutOfFuel) (\<lambda>_ _. True) ?q"
    unfolding upstream_ok_def
    using upstream_has_fuel [OF assms(2)] search_returns [OF assms(2)] by (auto split: sum.split)
  note ends = single_input_triple [OF this, of source]
  have "room w ?q [(source, False)] < search_fuel w"
    using room_insert [of w ?q source False "[]"] room_start [of w ?q] by simp
  then have ends: "snd (?m [(source, False)]) \<noteq> Inl OutOfFuel"
    using triple_Inl [OF ends, of "[(source, False)]"] by (metis prod.collapse)
  have "upstream_ok w ?up (\<lambda>v. hm_get v source = Some False \<and> (\<forall>x. hm_get v x = Some True \<longrightarrow> live_apart w source ?q x))
      (\<lambda>_. True) (apart_or_inner w source ?q) ?q"
    unfolding upstream_ok_def
    using upstream_sound_apart [OF assms(2)] scoped_query_differs [OF assms(2)] found_is_live
    by (auto simp: or_inner_def split: sum.split)
  note found = single_input_triple [OF this, of source]
  have found: "some_input_live w (\<lambda>q. live_apart w source q) ?q source" if answer: "snd (?m [(source, False)]) = Inr True"
  proof -
    obtain v where v: "?m [(source, False)] = (v, Inr True)" using answer by (metis prod.collapse)
    have "hm_get [(source, False)] source = Some False \<and> (\<forall>x. hm_get [(source, False)] x = Some True \<longrightarrow> live_apart w source ?q x)"
      by simp
    with triple_Inr [OF found _ v] have "some_input_live w (apart_or_inner w source ?q) ?q source" by blast
    then show ?thesis by (auto simp: some_input_live_def or_inner_def)
  qed
  have "upstream_exact w ?up V ?q" for V
  proof -
    have "\<not> live w (scoped_query ?q scoped) t" if "snd (?up (scoped_query ?q scoped) t []) = Inr False" for scoped t
      using dismissed_is_not_live [OF assms that] .
    then show ?thesis unfolding upstream_exact_def using upstream_complete [OF assms] by blast
  qed
  note missed = single_input_dismissed [OF this, of "{source}" "{source}" source]
  have missed: "\<not> some_input_live w (\<lambda>q. live_apart w source q) ?q source" if answer: "snd (?m [(source, False)]) = Inr False"
  proof -
    obtain v where "?m [(source, False)] = (v, Inr False)" using answer by (metis prod.collapse)
    moreover have "settled w ?q {source} {source} [(source, False)]" by (auto simp: settled_def split: if_splits)
    ultimately have "dismissed w ?q {source} {source} (\<lambda>K. \<not> some_input_live w (beyond w K ?q) ?q source) False v"
      using triple_Inr [OF missed] by blast
    then obtain K where K: "settled w ?q {source} K v" "\<not> some_input_live w (beyond w K ?q) ?q source"
      unfolding dismissed_def by blast
    then have "beyond w (dom (hm_get v)) ?q ?q x \<Longrightarrow> beyond w K ?q ?q x" for x
      by (auto simp: beyond_def settled_def)
    then show ?thesis
      using K(2) settled_not_live_apart [OF K(1)] by (auto simp: some_input_live_def)
  qed
  have m: "snd (or_else r ?m v) = (case r of Inl e \<Rightarrow> Inl (Failed e) | Inr True \<Rightarrow> Inr True | Inr False \<Rightarrow> snd (?m v))" for r v
    by (auto simp: or_else_def ebind_def observe_def return_def split: sum.splits prod.splits)
  show ?thesis
  proof (cases "snd (?m [(source, False)])")
    case (Inl h)
    with ends have "\<exists>e. h = Failed e" by (cases h) simp_all
    then show ?thesis using Inl by (simp add: run m split: sum.split bool.split)
  next
    case (Inr b)
    then show ?thesis using found missed by (cases b) (simp_all add: run m split: sum.split bool.split)
  qed
qed

text \<open>
  A collect with a loop: 1 collects and feeds 2, which feeds 1 and also reads from 3, where a message of
  session 9 waits. The collect has gathered two messages of session 8.
\<close>

definition collect_world_example :: activity_world where
  "collect_world_example =
     [(1, reads_from [2] (CollectOperation number) number\<lparr>an_collection := Some \<lparr>cs_progress = [(8, 2)], cs_min = 1\<rparr>,
        wn_single_target := Some 2\<rparr>),
      (2, reads_from [1, 3] (Plain number) number\<lparr>wn_single_target := Some 1\<rparr>),
      (3, node_waiting 9 (Plain number) number\<lparr>wn_single_target := Some 2\<rparr>)]"

lemma upstream_activity_is_exact_witness:
  "some_input_live collect_world_example (\<lambda>q. live_apart collect_world_example 1 q) (session_query 9 None) 1
   \<and> \<not> some_input_live collect_world_example (\<lambda>q. live_apart collect_world_example 1 q) (session_query 8 (Some 2)) 1
   \<and> check_reachability 8 1 (Some 2) collect_world_example = Inr True"
proof -
  have "disjunctive collect_world_example" by code_simp
  moreover have "acyclic (set (stored_sessions collect_world_example))"
  proof -
    have "stored_sessions collect_world_example = []" by code_simp
    then show ?thesis by (simp add: acyclic_empty)
  qed
  ultimately have exact: "case is_upstream_active collect_world_example number session 1 disposed of
      Inl h \<Rightarrow> \<exists>e. h = Failed e
    | Inr b \<Rightarrow> b \<longleftrightarrow> has_input_of collect_world_example (session_query session disposed) number 1 = Inr True
        \<or> some_input_live collect_world_example (\<lambda>q. live_apart collect_world_example 1 q) (session_query session disposed) 1"
    for session disposed
    by (rule upstream_activity_is_exact)
  have "is_upstream_active collect_world_example number 9 1 None = Inr True"
    "is_upstream_active collect_world_example number 8 1 (Some 2) = Inr False"
    "has_input_of collect_world_example (session_query 9 None) number 1 = Inr False"
    "has_input_of collect_world_example (session_query 8 (Some 2)) number 1 = Inr False"
    "check_reachability 8 1 (Some 2) collect_world_example = Inr True"
    by code_simp+
  with exact [of 9 None] exact [of 8 "Some 2"] show ?thesis by simp
qed

end
