(* ===== verification/Collecting.thy ===== *)
theory Collecting
  imports Operations UpstreamActivity
begin

text \<open>
  The collect operation, \<open>src/src/operation/collect.rs\<close>: it gathers the messages of a session and sends
  them on together when it has enough of them or when no more can come.

  \<^item> Whether upstream is still active is the answer of the search for activity, which reads other
    components of the world than those a collect changes. The operations take that answer as \<open>active\<close>;
    \<open>upstream_activity\<close> gives it, for a \<open>view\<close> of the components that the search reads, and what the
    collect guarantees is stated for it.
  \<^item> \<open>pack\<close> makes the collection of a list of messages.
\<close>

record collect =
  ct_source :: entity
  ct_target :: entity
  ct_min :: nat
  ct_max :: "nat option"

record ('t, 'c) collect_world = "('t, 'c) flow_world" +
  co_map :: "(entity, (seq \<times> 't) list) hmap"

type_synonym ('t, 'c) upstream_active =
  "entity \<Rightarrow> entity option \<Rightarrow> ('t, 'c) collect_world \<Rightarrow> operation_error + bool"

text \<open>The search runs out of fuel only where sessions are nested in a cycle (theorem \<open>upstream_activity_is_exact\<close>).\<close>

definition upstream_activity ::
  "(('t, 'c) collect_world \<Rightarrow> activity_world) \<Rightarrow> message_type \<Rightarrow> collect \<Rightarrow> ('t, 'c) upstream_active" where
  "upstream_activity view t c session disposed w =
     (case is_upstream_active (view w) t session (ct_source c) disposed of
        Inl (Failed e) \<Rightarrow> Inl e
      | Inl OutOfFuel \<Rightarrow> Inl Broken
      | Inr b \<Rightarrow> Inr b)"

text \<open>\<open>setup\<close> asserts that a maximum is positive and not below the minimum.\<close>

definition collect_setup_panics :: "collect \<Rightarrow> bool" where
  "collect_setup_panics c = (case ct_max c of None \<Rightarrow> False | Some limit \<Rightarrow> \<not> 0 < limit \<or> \<not> ct_min c \<le> limit)"

definition collection :: "entity \<Rightarrow> ('t, 'c) collect_world \<Rightarrow> (seq \<times> 't) list" where
  "collection session w = (case hm_get (co_map w) session of None \<Rightarrow> [] | Some progress \<Rightarrow> progress)"

definition set_collection ::
  "entity \<Rightarrow> (seq \<times> 't) list \<Rightarrow> ('t, 'c) collect_world \<Rightarrow> ('t, 'c) collect_world" where
  "set_collection session progress w = w\<lparr>co_map := hm_insert session progress (co_map w)\<rparr>"

definition send_collection ::
  "('t list \<Rightarrow> 't) \<Rightarrow> entity \<Rightarrow> entity \<Rightarrow> ('t, 'c) collect_world \<Rightarrow> ('t, 'c) collect_world \<times> (flow_error + unit)" where
  "send_collection pack target session w =
     (let message = map snd (collection session w)
      in send session target (pack message) (set_collection session [] w))"

definition next_input_seq ::
  "entity \<Rightarrow> ('t, 'c) collect_world \<Rightarrow> ('t, 'c) collect_world \<times> (flow_error + seq)" where
  "next_input_seq source w =
     (let (m, r) = increment_input_seq source (fl_messages w) in (w\<lparr>fl_messages := m\<rparr>, lift_error r))"

definition on_unreachable_collection ::
  "('t list \<Rightarrow> 't) \<Rightarrow> collect \<Rightarrow> entity \<Rightarrow> seq option \<Rightarrow> nat \<Rightarrow> ('t, 'c) collect_world
     \<Rightarrow> ('t, 'c) collect_world \<times> (flow_error + unit)" where
  "on_unreachable_collection pack c session seq len =
     (if len < ct_min c
      then ebind (case seq of Some seq \<Rightarrow> return seq | None \<Rightarrow> next_input_seq (ct_source c)) (\<lambda>seq.
             modify (emit_disposal \<lparr>rq_session = session, rq_source = ct_source c, rq_seq = seq\<rparr>
               (DeficientCollection (ct_source c) (ct_min c) len)))
      else send_collection pack (ct_target c) session)"

definition collect_execute ::
  "('t list \<Rightarrow> 't) \<Rightarrow> ('t, 'c) upstream_active \<Rightarrow> collect \<Rightarrow> ('t, 'c) collect_world
     \<Rightarrow> ('t, 'c) collect_world \<times> (flow_error + unit)" where
  "collect_execute pack active c =
     ebind (receive (ct_source c)) (\<lambda>input.
     let session = in_session input
     in ebind (modify (\<lambda>w. set_collection session (collection session w @ [(in_seq input, in_data input)]) w)) (\<lambda>_ w.
       let len = length (collection session w)
       in if (case ct_max c of Some limit \<Rightarrow> limit \<le> len | None \<Rightarrow> False)
          then send_collection pack (ct_target c) session w
          else case active session None w of
                 Inl e \<Rightarrow> (w, Inl (Fault e))
               | Inr True \<Rightarrow> (w, Inr ())
               | Inr False \<Rightarrow> on_unreachable_collection pack c session (Some (in_seq input)) len w))"

definition collection_disposal_listener ::
  "('t list \<Rightarrow> 't) \<Rightarrow> ('t, 'c) upstream_active \<Rightarrow> collect \<Rightarrow> (entity, 'm wired_node_scheme) hmap \<Rightarrow> entity \<Rightarrow> entity
     \<Rightarrow> ('t, 'c) collect_world \<Rightarrow> ('t, 'c) collect_world \<times> (flow_error + unit)" where
  "collection_disposal_listener pack active c nodes session disposed w =
     (if ct_source c = disposed then (w, Inr ())
      else if \<not> is_downstream_of disposed (ct_source c) nodes then (w, Inr ())
      else case active session (Some disposed) w of
             Inl e \<Rightarrow> (w, Inl (Fault e))
           | Inr True \<Rightarrow> (w, Inr ())
           | Inr False \<Rightarrow> on_unreachable_collection pack c session None (length (collection session w)) w)"

definition collect_cleanup :: "collect \<Rightarrow> entity \<Rightarrow> ('t, 'c) collect_world \<Rightarrow> ('t, 'c) collect_world" where
  "collect_cleanup c session w =
     w\<lparr>fl_messages := cleanup_inputs (ct_source c) session (fl_messages w), co_map := AList.delete session (co_map w)\<rparr>"

subsection \<open>One execution\<close>

definition gathered :: "entity \<Rightarrow> ('t, 'c) collect_world \<Rightarrow> 't list" where
  "gathered session w = map snd (collection session w)"

lemma gathered_set_collection:
  "gathered s (set_collection session progress w) = (if s = session then map snd progress else gathered s w)"
  by (simp add: gathered_def set_collection_def collection_def)

lemma collection_messages [simp]:
  "collection s (w\<lparr>fl_messages := m\<rparr>) = collection s w" "collection s (w\<lparr>fl_roster := ro\<rparr>) = collection s w"
  by (simp_all add: collection_def)

lemma send_flows_kept:
  assumes "flows session [t] w" and "send session t data w = (w', r)" and "flows s targets w"
  shows "flows s targets w'"
  using assms
  by (auto simp: flows_def deliverable_def send_def give_input_def sneak_input_def deliver_input_def wake_if_def
      input_push_def input_increment_seq_def Let_def split: option.splits if_splits)

lemma set_collection_parts [simp]:
  "fl_messages (set_collection s p w) = fl_messages w" "fl_roster (set_collection s p w) = fl_roster w"
  by (simp_all add: set_collection_def)

lemma send_collection_flows:
  assumes "flows session [target] w"
  shows "\<exists>w'. send_collection pack target session w = (w', Inr ())
    \<and> (\<forall>s. gathered s w' = (if s = session then [] else gathered s w))
    \<and> (\<forall>x. waiting_at x w' = waiting_at x w @ (if x = target then [(session, pack (gathered session w))] else []))
    \<and> (\<forall>s targets. flows s targets w \<longrightarrow> flows s targets w')"
proof -
  let ?w = "set_collection session [] w"
  have f: "flows session [target] ?w" using assms by (simp add: flows_def)
  then obtain m roster where s: "send session target (pack (gathered session w)) ?w = (?w\<lparr>fl_messages := m, fl_roster := roster\<rparr>, Inr ())"
    "\<And>x. pending x m = waiting_at x ?w @ (if x = target then [(session, pack (gathered session w))] else [])"
    using send_flows [OF f, of target "pack (gathered session w)"] by auto
  have "flows s targets (?w\<lparr>fl_messages := m, fl_roster := roster\<rparr>)" if "flows s targets w" for s targets
    by (rule send_flows_kept [OF f s(1)]) (use that in \<open>simp add: flows_def\<close>)
  moreover have "gathered s (?w\<lparr>fl_messages := m, fl_roster := roster\<rparr>) = (if s = session then [] else gathered s w)" for s
    using gathered_set_collection [of s session "[]" w] by (simp add: gathered_def)
  ultimately show ?thesis
    using s by (intro exI [of _ "?w\<lparr>fl_messages := m, fl_roster := roster\<rparr>"])
      (simp add: send_collection_def gathered_def [symmetric] waiting_at_def)
qed

lemma gathered_extend [simp]: "gathered s (w\<lparr>fl_messages := m\<rparr>) = gathered s w"
  by (simp add: gathered_def)

text \<open>Taking a message and adding it to the collection of its session.\<close>

definition add_to_collection ::
  "'t op_input \<Rightarrow> ('t, 'c) collect_world \<Rightarrow> ('t, 'c) collect_world" where
  "add_to_collection input w =
     set_collection (in_session input) (collection (in_session input) w @ [(in_seq input, in_data input)]) w"

lemma gather_message:
  assumes "waiting_at source w = (session, data) # rest"
  shows "\<exists>w1 input. receive source w = (w1, Inr input) \<and> in_session input = session
    \<and> (\<forall>s. gathered s (add_to_collection input w1) = (if s = session then gathered s w @ [data] else gathered s w))
    \<and> (\<forall>x. waiting_at x (add_to_collection input w1) = (if x = source then rest else waiting_at x w))
    \<and> (\<forall>s targets. flows s targets w \<longrightarrow> flows s targets (add_to_collection input w1))
    \<and> reports (add_to_collection input w1) = reports w"
proof -
  obtain m input where r: "receive source w = (w\<lparr>fl_messages := m\<rparr>, Inr input)" "in_session input = session" "in_data input = data"
    "mw_status m = mw_status (fl_messages w)" "\<And>x. mw_inputs m x = None \<longleftrightarrow> mw_inputs (fl_messages w) x = None"
    "\<And>x. pending x m = (if x = source then rest else waiting_at x w)"
    using receive_oldest [OF assms] by blast
  have g: "gathered s (add_to_collection input (w\<lparr>fl_messages := m\<rparr>)) = (if s = session then gathered s w @ [data] else gathered s w)" for s
    by (simp add: add_to_collection_def gathered_set_collection r(2,3)) (simp add: gathered_def)
  have f: "flows s targets w \<longrightarrow> flows s targets (add_to_collection input (w\<lparr>fl_messages := m\<rparr>))" for s targets
    using r(4,5) by (simp add: flows_def deliverable_def add_to_collection_def)
  have v: "waiting_at x (add_to_collection input (w\<lparr>fl_messages := m\<rparr>)) = (if x = source then rest else waiting_at x w)"
    "reports (add_to_collection input (w\<lparr>fl_messages := m\<rparr>)) = reports w" for x
    using r(6) by (simp_all add: waiting_at_def add_to_collection_def reports_def set_collection_def)
  show ?thesis
    by (rule exI [of _ "w\<lparr>fl_messages := m\<rparr>"], rule exI [of _ input]) (use r(1,2) g f v in blast)
qed

lemma send_collection_reports: "send_collection pack target session w = (w', r) \<Longrightarrow> reports w' = reports w"
  by (auto simp: send_collection_def send_def reports_def set_collection_def Let_def split: prod.splits)

lemma collect_execute_gathered:
  assumes "receive (ct_source c) w = (w1, Inr input)"
  shows "collect_execute pack active c w =
    (let w2 = add_to_collection input w1; len = length (gathered (in_session input) w2)
     in if (case ct_max c of Some limit \<Rightarrow> limit \<le> len | None \<Rightarrow> False)
        then send_collection pack (ct_target c) (in_session input) w2
        else case active (in_session input) None w2 of
               Inl e \<Rightarrow> (w2, Inl (Fault e))
             | Inr True \<Rightarrow> (w2, Inr ())
             | Inr False \<Rightarrow> on_unreachable_collection pack c (in_session input) (Some (in_seq input)) len w2)"
  using assms by (simp add: collect_execute_def ebind_def modify_def add_to_collection_def gathered_def Let_def)

lemma collect_step:
  assumes "waiting_at (ct_source c) w = (session, data) # rest" and "flows session [ct_target c] w"
    and "\<And>v. (\<forall>x. x \<noteq> ct_source c \<and> x \<noteq> ct_target c \<longrightarrow> waiting_at x v = waiting_at x w) \<Longrightarrow> active session None v = Inr True"
    and "ct_max c = Some n" and "ct_target c \<noteq> ct_source c"
  shows "\<exists>w'. collect_execute pack active c w = (w', Inr ())
    \<and> (\<forall>x. x \<noteq> ct_source c \<and> x \<noteq> ct_target c \<longrightarrow> waiting_at x w' = waiting_at x w)
    \<and> (\<forall>s. gathered s w' = (if s \<noteq> session then gathered s w
          else if n \<le> length (gathered s w) + 1 then [] else gathered s w @ [data]))
    \<and> waiting_at (ct_source c) w' = rest
    \<and> waiting_at (ct_target c) w' = waiting_at (ct_target c) w
        @ (if n \<le> length (gathered session w) + 1 then [(session, pack (gathered session w @ [data]))] else [])
    \<and> (\<forall>s targets. flows s targets w \<longrightarrow> flows s targets w') \<and> reports w' = reports w"
proof -
  obtain w1 input where r: "receive (ct_source c) w = (w1, Inr input)" "in_session input = session"
    and w2: "\<And>s. gathered s (add_to_collection input w1) = (if s = session then gathered s w @ [data] else gathered s w)"
    "\<And>x. waiting_at x (add_to_collection input w1) = (if x = ct_source c then rest else waiting_at x w)"
    "\<And>s targets. flows s targets w \<Longrightarrow> flows s targets (add_to_collection input w1)"
    "reports (add_to_collection input w1) = reports w"
    using gather_message [OF assms(1)] by blast
  note e = collect_execute_gathered [OF r(1), of pack active, unfolded r(2) Let_def w2(1) assms(4) option.case]
  show ?thesis
  proof (cases "n \<le> length (gathered session w) + 1")
    case True
    obtain w' where s: "send_collection pack (ct_target c) session (add_to_collection input w1) = (w', Inr ())"
      "\<And>s. gathered s w' = (if s = session then [] else gathered s (add_to_collection input w1))"
      "\<And>x. waiting_at x w' = waiting_at x (add_to_collection input w1)
        @ (if x = ct_target c then [(session, pack (gathered session (add_to_collection input w1)))] else [])"
      "\<And>s targets. flows s targets (add_to_collection input w1) \<Longrightarrow> flows s targets w'"
      using send_collection_flows [OF w2(3) [OF assms(2)]] by blast
    have "collect_execute pack active c w = (w', Inr ())" using e s(1) True by simp
    moreover have "reports w' = reports w" using send_collection_reports [OF s(1)] w2(4) by simp
    ultimately show ?thesis using s(2-4) w2(1-3) True assms(5) by (intro exI [of _ w']) auto
  next
    case False
    then have "collect_execute pack active c w = (add_to_collection input w1, Inr ())"
      using e assms(3) w2(2) by simp
    then show ?thesis using w2 False assms(5) by (intro exI [of _ "add_to_collection input w1"]) auto
  qed
qed

subsection \<open>Many executions\<close>

definition messages_of :: "entity \<Rightarrow> (entity \<times> 'a) list \<Rightarrow> 'a list" where
  "messages_of s ps = map snd (filter (\<lambda>p. fst p = s) ps)"

lemma messages_of_simps [simp]:
  "messages_of s [] = []" "messages_of s (p # ps) = (if fst p = s then snd p # messages_of s ps else messages_of s ps)"
  by (simp_all add: messages_of_def)

text \<open>While upstream is active for the sessions whose messages wait at the collect, whatever the collect and its
  target do to their own messages.\<close>

lemma collect_all:
  assumes "ct_max c = Some n" and "\<not> collect_setup_panics c" and "ct_target c \<noteq> ct_source c"
    and "\<And>s v. s \<in> fst ` set (waiting_at (ct_source c) w) \<Longrightarrow>
      (\<forall>x. x \<noteq> ct_source c \<and> x \<noteq> ct_target c \<longrightarrow> waiting_at x v = waiting_at x w) \<Longrightarrow> active s None v = Inr True"
    and "\<And>s. s \<in> fst ` set (waiting_at (ct_source c) w) \<Longrightarrow> flows s [ct_target c] w"
    and "\<And>s. length (gathered s w) < n"
  shows "\<exists>w' sent. each (\<lambda>_. collect_execute pack active c) (waiting_at (ct_source c) w) w = (w', Inr ())
    \<and> waiting_at (ct_source c) w' = [] \<and> reports w' = reports w
    \<and> waiting_at (ct_target c) w' = waiting_at (ct_target c) w @ map (\<lambda>(s, messages). (s, pack messages)) sent
    \<and> (\<forall>s. concat (messages_of s sent) @ gathered s w' = gathered s w @ messages_of s (waiting_at (ct_source c) w))
    \<and> (\<forall>x \<in> set sent. length (snd x) = n) \<and> (\<forall>s. length (gathered s w') < n)"
  using assms(4-6)
proof (induction "waiting_at (ct_source c) w" arbitrary: w)
  case Nil
  then show ?case by (intro exI [of _ w] exI [of _ "[]"]) (simp flip: Nil(1))
next
  case (Cons p rest)
  obtain session data where p: "p = (session, data)" by fastforce
  have now: "waiting_at (ct_source c) w = (session, data) # rest" using Cons(2) p by simp
  have f: "flows session [ct_target c] w" using Cons.prems(2) now by force
  have up: "active session None v = Inr True" if "\<forall>x. x \<noteq> ct_source c \<and> x \<noteq> ct_target c \<longrightarrow> waiting_at x v = waiting_at x w" for v
    using Cons.prems(1) [of session v] that now by simp
  let ?full = "n \<le> length (gathered session w) + 1"
  obtain w1 where s: "collect_execute pack active c w = (w1, Inr ())"
    "\<And>s. gathered s w1 = (if s \<noteq> session then gathered s w else if n \<le> length (gathered s w) + 1 then [] else gathered s w @ [data])"
    "waiting_at (ct_source c) w1 = rest"
    "waiting_at (ct_target c) w1 = waiting_at (ct_target c) w @ (if ?full then [(session, pack (gathered session w @ [data]))] else [])"
    "\<And>s targets. flows s targets w \<Longrightarrow> flows s targets w1" "reports w1 = reports w"
    "\<And>x. x \<noteq> ct_source c \<Longrightarrow> x \<noteq> ct_target c \<Longrightarrow> waiting_at x w1 = waiting_at x w"
    using collect_step [of c w session data rest active n pack, OF now f up assms(1,3)] by blast
  have "0 < n" using assms(1,2) by (simp add: collect_setup_panics_def)
  have short: "length (gathered s w1) < n" for s
    using Cons.prems(3) [of s] s(2) [of s] \<open>0 < n\<close> by auto
  have "flows s [ct_target c] w1" if "s \<in> fst ` set (waiting_at (ct_source c) w1)" for s
    using that Cons.prems(2) [of s] s(3,5) now by auto
  moreover have "active s None v = Inr True" if "s \<in> fst ` set (waiting_at (ct_source c) w1)"
      "\<forall>x. x \<noteq> ct_source c \<and> x \<noteq> ct_target c \<longrightarrow> waiting_at x v = waiting_at x w1" for s v
    using Cons.prems(1) [of s v] that s(3,7) now by simp
  ultimately obtain w' sent where
    r: "each (\<lambda>_. collect_execute pack active c) rest w1 = (w', Inr ())"
    "waiting_at (ct_source c) w' = []" "reports w' = reports w1"
    "waiting_at (ct_target c) w' = waiting_at (ct_target c) w1 @ map (\<lambda>(s, messages). (s, pack messages)) sent"
    "\<And>s. concat (messages_of s sent) @ gathered s w' = gathered s w1 @ messages_of s rest"
    "\<forall>x \<in> set sent. length (snd x) = n" "\<And>s. length (gathered s w') < n"
    using Cons(1) [OF s(3) [symmetric] _ _ short] s(3) by auto
  let ?now = "if ?full then [(session, gathered session w @ [data])] else []"
  have "concat (messages_of s (?now @ sent)) @ gathered s w' = gathered s w @ messages_of s (waiting_at (ct_source c) w)" for s
    using r(5) [of s] s(2) [of s] now by simp
  moreover have "length (snd x) = n" if "x \<in> set (?now @ sent)" for x
    using bspec [OF r(6), of x] that Cons.prems(3) [of session] by (auto split: if_splits)
  moreover have "each (\<lambda>_. collect_execute pack active c) (waiting_at (ct_source c) w) w = (w', Inr ())"
    using s(1) r(1) now by (simp add: ebind_def)
  ultimately show ?case
    using r(2-4,7) s(4,6) by (intro exI [of _ w'] exI [of _ "?now @ sent"]) auto
qed

text \<open>C15: a collect with a maximum turns the messages that wait at it into collections of exactly that many
  messages: per session the collections sent and the rest that is kept are the messages in the order in
  which they arrived, and the rest is shorter than the maximum. Nothing is disposed. This holds while
  more messages can come, that is, while the search for activity (\<open>upstream_activity\<close>) finds something
  upstream active for each session with a message at the collect, in every state that has the same
  messages waiting at the other operations; and while these sessions are active and the target takes
  their messages. Otherwise the rest is settled (\<open>collect_settles_last_message\<close>).\<close>

theorem collect_makes_full_collections:
  assumes "ct_max c = Some n" and "\<not> collect_setup_panics c" and "ct_target c \<noteq> ct_source c"
    and "\<And>s v. s \<in> fst ` set (waiting_at (ct_source c) w) \<Longrightarrow>
      (\<forall>x. x \<noteq> ct_source c \<and> x \<noteq> ct_target c \<longrightarrow> waiting_at x v = waiting_at x w) \<Longrightarrow>
      upstream_activity view t c s None v = Inr True"
    and "\<And>s. s \<in> fst ` set (waiting_at (ct_source c) w) \<Longrightarrow> flows s [ct_target c] w"
    and "\<And>s. length (gathered s w) < n"
  shows "\<exists>w' sent. each (\<lambda>_. collect_execute pack (upstream_activity view t c) c) (waiting_at (ct_source c) w) w = (w', Inr ())
    \<and> waiting_at (ct_source c) w' = [] \<and> reports w' = reports w
    \<and> waiting_at (ct_target c) w' = waiting_at (ct_target c) w @ map (\<lambda>(s, messages). (s, pack messages)) sent
    \<and> (\<forall>s. concat (messages_of s sent) @ gathered s w' = gathered s w @ messages_of s (waiting_at (ct_source c) w))
    \<and> (\<forall>x \<in> set sent. length (snd x) = n) \<and> (\<forall>s. length (gathered s w') < n)"
  using assms by (rule collect_all)

text \<open>Four messages wait at 3 for the sessions 7 and 8, and a message of session 7 was gathered before. One more
  message of each session waits upstream, at 2.\<close>

definition demo_collect_world :: "(nat, nat) collect_world" where
  "demo_collect_world =
     \<lparr>fl_messages = \<lparr>mw_inputs = (\<lambda>e. if e = 3
          then Some \<lparr>ins_reverse_queue =
              [\<lparr>in_session = 7, in_seq = 4, in_data = 5\<rparr>, \<lparr>in_session = 7, in_seq = 3, in_data = 4\<rparr>,
               \<lparr>in_session = 8, in_seq = 2, in_data = 3\<rparr>, \<lparr>in_session = 7, in_seq = 1, in_data = 2\<rparr>], ins_sequence = 5\<rparr>
          else if e = 2 then Some \<lparr>ins_reverse_queue =
              [\<lparr>in_session = 8, in_seq = 1, in_data = 6\<rparr>, \<lparr>in_session = 7, in_seq = 0, in_data = 6\<rparr>], ins_sequence = 2\<rparr>
          else if e = 4 then Some input_storage_new else None),
        mw_unused_target = (\<lambda>_. False), mw_detached = (\<lambda>_. None),
        mw_status = (\<lambda>s. if s \<in> {7, 8} then Some Active else None),
        mw_progress = (\<lambda>_. None), mw_cancelled = [], mw_mismatches = []\<rparr>,
      fl_roster = empty_roster, fl_disposals = [], fl_cancels = [], co_map = [(7, [(0, 1)])]\<rparr>"

definition demo_collect :: collect where
  "demo_collect = \<lparr>ct_source = 3, ct_target = 4, ct_min = 2, ct_max = Some 3\<rparr>"

lemma demo_collect_world_facts:
  "waiting_at 3 demo_collect_world = [(7, 2), (8, 3), (7, 4), (7, 5)]"
  "waiting_at 4 demo_collect_world = []"
  "gathered s demo_collect_world = (if s = 7 then [1] else [])"
  "s \<in> {7, 8} \<Longrightarrow> flows s [4] demo_collect_world"
  "fl_disposals demo_collect_world = []"
  "waiting_at 2 demo_collect_world = [(7, 6), (8, 6)]"
  by (auto simp: demo_collect_world_def waiting_at_def pending_def gathered_def collection_def flows_def deliverable_def
    input_storage_new_def)

lemma demo_collect_simps [simp]:
  "ct_source demo_collect = 3" "ct_target demo_collect = 4" "ct_min demo_collect = 2" "ct_max demo_collect = Some 3"
  by (simp_all add: demo_collect_def)

text \<open>The search for activity sees the collect at 3 and its input, the operation 2, with the messages that wait there.\<close>

definition demo_view :: "(nat, nat) collect_world \<Rightarrow> activity_world" where
  "demo_view w =
     [(3, reads_from [2] (CollectOperation number) number\<lparr>an_inputs := [(number, map fst (waiting_at 3 w))],
        wn_single_target := Some 4\<rparr>),
      (2, reads_from [] (Plain number) number\<lparr>an_inputs := [(number, map fst (waiting_at 2 w))], wn_single_target := Some 3\<rparr>)]"

lemma demo_upstream_active:
  assumes "s \<in> fst ` set (waiting_at 2 w)"
  shows "upstream_activity demo_view number demo_collect s None w = Inr True"
proof -
  have "s \<in> set (map fst (waiting_at 2 w))" using assms by simp
  then show ?thesis
    by (simp add: upstream_activity_def is_upstream_active_def demo_view_def reads_from_def blank_node_def has_input_of_def
        component_of_def or_else_def observe_def ebind_def return_def single_input_reachable_def search_fuel_def
        plain_is_reachable_def modify_def)
qed

lemma collect_makes_full_collections_witness:
  "\<exists>w' sent. each (\<lambda>_. collect_execute sum_list (upstream_activity demo_view number demo_collect) demo_collect)
       [(7 :: nat, 2 :: nat), (8, 3), (7, 4), (7, 5)] demo_collect_world = (w', Inr ())
     \<and> waiting_at 4 w' = map (\<lambda>(s, messages). (s, sum_list messages)) sent
     \<and> concat (messages_of 7 sent) @ gathered 7 w' = [1, 2, 4, 5]
     \<and> concat (messages_of 8 sent) @ gathered 8 w' = [3] \<and> (\<forall>x \<in> set sent. length (snd x) = 3)"
proof -
  have "\<And>s. length (gathered s demo_collect_world) < 3" "\<not> collect_setup_panics demo_collect"
    by (simp_all add: demo_collect_world_facts collect_setup_panics_def)
  moreover have "\<And>s. s \<in> fst ` set (waiting_at 3 demo_collect_world) \<Longrightarrow> flows s [4] demo_collect_world"
    by (auto simp: demo_collect_world_facts(1) intro: demo_collect_world_facts(4))
  moreover have "upstream_activity demo_view number demo_collect s None v = Inr True"
    if "s \<in> fst ` set (waiting_at 3 demo_collect_world)"
      "\<forall>x. x \<noteq> 3 \<and> x \<noteq> 4 \<longrightarrow> waiting_at x v = waiting_at x demo_collect_world" for s v
  proof (rule demo_upstream_active)
    have "waiting_at 2 v = [(7, 6), (8, 6)]" using that(2) by (simp add: demo_collect_world_facts)
    then show "s \<in> fst ` set (waiting_at 2 v)" using that(1) by (auto simp: demo_collect_world_facts(1))
  qed
  ultimately obtain w' sent where "each (\<lambda>_. collect_execute sum_list (upstream_activity demo_view number demo_collect) demo_collect)
       (waiting_at 3 demo_collect_world) demo_collect_world = (w', Inr ())"
    "waiting_at 4 w' = waiting_at 4 demo_collect_world @ map (\<lambda>(s, messages). (s, sum_list messages)) sent"
    "\<And>s. concat (messages_of s sent) @ gathered s w' = gathered s demo_collect_world @ messages_of s (waiting_at 3 demo_collect_world)"
    "\<forall>x \<in> set sent. length (snd x) = 3"
    using collect_makes_full_collections [of demo_collect 3 demo_collect_world demo_view number sum_list] by auto
  then show ?thesis by (intro exI [of _ w'] exI [of _ sent]) (simp add: demo_collect_world_facts)
qed

subsection \<open>When no more messages can come\<close>

text \<open>When the last message of a session arrives at a collect, the collect sends everything it has gathered if
  that reaches the minimum, and otherwise sends nothing and reports, once, that the collection is deficient,
  with the numbers required and gathered.\<close>
theorem collect_settles_last_message:
  assumes "waiting_at (ct_source c) w = (session, data) # rest" and "flows session [ct_target c] w"
    and "\<And>w. active session None w = Inr False" and "\<not> collect_setup_panics c" and "ct_target c \<noteq> ct_source c"
  shows "\<exists>w'. collect_execute pack active c w = (w', Inr ()) \<and> waiting_at (ct_source c) w' = rest
    \<and> (let messages = gathered session w @ [data]
       in if ct_min c \<le> length messages
          then fl_disposals w' = fl_disposals w \<and> gathered session w' = []
             \<and> waiting_at (ct_target c) w' = waiting_at (ct_target c) w @ [(session, pack messages)]
          else waiting_at (ct_target c) w' = waiting_at (ct_target c) w \<and> gathered session w' = messages
             \<and> (\<exists>d. fl_disposals w' = fl_disposals w @ [d] \<and> di_session d = session \<and> di_disposed d = ct_source c
                   \<and> di_disposal d = DeficientCollection (ct_source c) (ct_min c) (length messages)))"
proof -
  obtain w1 input where r: "receive (ct_source c) w = (w1, Inr input)" "in_session input = session"
    and w2: "\<And>s. gathered s (add_to_collection input w1) = (if s = session then gathered s w @ [data] else gathered s w)"
    "\<And>x. waiting_at x (add_to_collection input w1) = (if x = ct_source c then rest else waiting_at x w)"
    "\<And>s targets. flows s targets w \<Longrightarrow> flows s targets (add_to_collection input w1)"
    "reports (add_to_collection input w1) = reports w"
    using gather_message [OF assms(1)] by blast
  note e = collect_execute_gathered [OF r(1), of pack active, unfolded r(2) Let_def w2(1)]
  have over: "ct_min c \<le> length (gathered session w) + 1"
    if "case ct_max c of None \<Rightarrow> False | Some limit \<Rightarrow> limit \<le> length (gathered session w @ [data])"
    using that assms(4) by (auto simp: collect_setup_panics_def split: option.splits)
  show ?thesis
  proof (cases "ct_min c \<le> length (gathered session w) + 1")
    case True
    obtain w' where s: "send_collection pack (ct_target c) session (add_to_collection input w1) = (w', Inr ())"
      "\<And>s. gathered s w' = (if s = session then [] else gathered s (add_to_collection input w1))"
      "\<And>x. waiting_at x w' = waiting_at x (add_to_collection input w1)
        @ (if x = ct_target c then [(session, pack (gathered session (add_to_collection input w1)))] else [])"
      using send_collection_flows [OF w2(3) [OF assms(2)]] by blast
    have "collect_execute pack active c w = (w', Inr ())"
      using e s(1) True assms(3) by (simp add: on_unreachable_collection_def split: option.split)
    moreover have "fl_disposals w' = fl_disposals w"
      using send_collection_reports [OF s(1)] w2(4) by (simp add: reports_def)
    ultimately show ?thesis using s(2,3) w2(1,2) True assms(5) by (intro exI [of _ w']) (simp add: Let_def)
  next
    case False
    let ?d = "DeficientCollection (ct_source c) (ct_min c) (length (gathered session w @ [data]))"
    let ?req = "\<lparr>rq_session = session, rq_source = ct_source c, rq_seq = in_seq input\<rparr>"
    let ?w = "emit_disposal ?req ?d (add_to_collection input w1)"
    have run: "collect_execute pack active c w = (?w, Inr ())"
      using e False over assms(3)
      by (auto simp: on_unreachable_collection_def ebind_def return_def modify_def split: option.splits)
    have "gathered session ?w = gathered session w @ [data]"
      using w2(1) [of session] by (simp add: gathered_def collection_def emit_disposal_def notify_trim_def)
    then show ?thesis
      using run w2(2,4) False assms(5)
      by (intro exI [of _ ?w]) (simp add: Let_def waiting_at_def reports_def)
  qed
qed

lemma collect_settles_last_message_witness:
  "\<exists>w' d. collect_execute sum_list (\<lambda>_ _ _. Inr False) (demo_collect\<lparr>ct_min := 3\<rparr>) demo_collect_world = (w', Inr ())
     \<and> waiting_at 4 w' = [] \<and> gathered 7 w' = [1, 2] \<and> fl_disposals w' = [d] \<and> di_disposal d = DeficientCollection 3 3 2"
proof -
  have "flows 7 [4] demo_collect_world" by (rule demo_collect_world_facts) simp
  moreover have "waiting_at (ct_source (demo_collect\<lparr>ct_min := 3\<rparr>)) demo_collect_world = (7, 2) # [(8, 3), (7, 4), (7, 5)]"
    "\<not> collect_setup_panics (demo_collect\<lparr>ct_min := 3\<rparr>)"
    by (simp_all add: demo_collect_world_facts collect_setup_panics_def)
  ultimately show ?thesis
    using collect_settles_last_message [of "demo_collect\<lparr>ct_min := 3\<rparr>" demo_collect_world 7 2 _ "\<lambda>_ _ _. Inr False" sum_list]
    by (auto simp: Let_def demo_collect_world_facts)
qed

end
