(* ===== verification/Registry.thy ===== *)
theory Registry
  imports Metadata Diagram Effects
begin

text \<open>
  The registry of message types and the operations it creates in a workflow:
  \<open>src/src/diagram/registration/message_registration.rs\<close>, \<open>message_operations.rs\<close>,
  \<open>src/src/diagram/serialization.rs\<close> and the parts of \<open>src/src/builder.rs\<close> and
  \<open>src/src/node/dyn_node.rs\<close> that these use.

  \<^item> A \<open>Builder\<close> is a \<open>scope_context\<close> and the queue of \<open>commands\<close> that the ECS will execute later. A
    command spawns an entity, adds an operation to an entity or connects an output to an input.
  \<^item> The code of an operation is a closure that the model does not look into: an operation is
    described by its kind and its targets (\<open>created_operation\<close>).
  \<^item> The operations of a message type are function pointers in the registry, so the fields of
    \<open>message_operations\<close> are functions. Those that \<open>MessageOperations::new\<close> sets once and for all are
    functions of the message type (\<open>create_buffer\<close>, \<open>create_trigger\<close>). What a registered closure may
    do is any function on the queue. The functions that \<open>register_*\<close> store are defined below.
  \<^item> Failures are error codes or panics (\<open>fault\<close> of \<open>Errors\<close>).

  The lemmas show that the vector of registrations and the map of indices stay in step, so that the
  unchecked accesses of the registry never fail, that conversions are registered at both of their
  ends, and that a conversion of a message with buffer access into a script message always fails.
\<close>

subsection \<open>Commands\<close>

record scope_context =
  sc_scope :: entity
  sc_finish_scope_cleanup :: entity

datatype split_key = SplitSpecific name | SplitSequential nat | SplitRemaining

datatype created_operation =
    CreatedMap entity
  | CreatedCallback entity
  | CreatedForkResult entity entity
  | CreatedForkClone
  | CreatedUnzip "entity list"
  | CreatedSplit
  | CreatedBuffer buffer_settings
  | CreatedJoin "entity list" entity
  | CreatedListen "entity list" entity
  | CreatedBufferAccess "entity list" entity
  | CreatedCancel bool
  | CreatedQuietCancel bool
  | CreatedScope
  | CreatedTerminate entity
  | CreatedCancelScope entity
  | CreatedFinishCleanup entity
  | CreatedStreamRedirect entity
  | CreatedCustom string

datatype build_command =
    Spawn entity
  | AddOperation "entity option" entity created_operation
  | AddForkBranch entity entity
  | ConnectToSplit entity entity split_key
  | ConnectTarget entity entity
  | FinishScope entity

record commands =
  cmd_next :: entity
  cmd_queue :: "build_command list"

type_synonym 'a build = "commands \<Rightarrow> commands \<times> (diagram_error_code fault + 'a)"

definition raise_code :: "diagram_error_code \<Rightarrow> 'w \<Rightarrow> 'w \<times> (diagram_error_code fault + 'a)" where
  "raise_code code w = (w, Inl (Failed code))"

definition of_result :: "diagram_error_code + 'a \<Rightarrow> 'w \<Rightarrow> 'w \<times> (diagram_error_code fault + 'a)" where
  "of_result r w = (w, may_fail r)"

definition infallible :: "('w \<Rightarrow> 'w \<times> 'a) \<Rightarrow> 'w \<Rightarrow> 'w \<times> ('e + 'a)" where
  "infallible f w = (let (w', x) = f w in (w', Inr x))"

definition queue_command :: "build_command \<Rightarrow> commands \<Rightarrow> commands" where
  "queue_command c s = s\<lparr>cmd_queue := cmd_queue s @ [c]\<rparr>"

definition spawn :: "commands \<Rightarrow> commands \<times> entity" where
  "spawn s = (queue_command (Spawn (cmd_next s)) (s\<lparr>cmd_next := Suc (cmd_next s)\<rparr>), cmd_next s)"

subsection \<open>Type-erased inputs and outputs\<close>

record dyn_input_slot =
  dis_scope :: entity
  dis_source :: entity
  dis_type :: type_info

record dyn_output =
  dyo_scope :: entity
  dyo_target :: entity
  dyo_type :: type_info

record dyn_node =
  dn_input :: dyn_input_slot
  dn_output :: dyn_output
  dn_streams :: "(name, dyn_output) hmap"

record dyn_fork_result =
  dfr_input :: dyn_input_slot
  dfr_ok :: dyn_output
  dfr_err :: dyn_output

text \<open>\<open>DynOutput::connect_to\<close>.\<close>

definition connect_to :: "dyn_output \<Rightarrow> dyn_input_slot \<Rightarrow> unit build" where
  "connect_to output input =
     (if dyo_type output \<noteq> dis_type input
      then raise_code (TypeMismatch \<lparr>tm_source_type = dyo_type output, tm_target_type = dis_type input\<rparr>)
      else modify (queue_command (ConnectTarget (dyo_target output) (dis_source input))))"

definition string_type_name :: string where
  "string_type_name = ''alloc::string::String''"

definition unit_type_name :: string where
  "unit_type_name = ''()''"

definition result_type_name :: "type_info \<Rightarrow> type_info \<Rightarrow> type_info" where
  "result_type_name t e = ''core::result::Result<'' @ t @ '', '' @ e @ ''>''"

subsection \<open>Operations of the builder\<close>

text \<open>
  \<open>Builder::create_map_block\<close> spawns an entity for the operation and one for its target.
  \<open>create_fork_result\<close> does so with two targets. \<open>Chain::fork_result\<close> turns the target it continues
  into the operation.
\<close>

definition create_map_block ::
  "type_info \<Rightarrow> type_info \<Rightarrow> scope_context \<Rightarrow> commands \<Rightarrow> commands \<times> dyn_node" where
  "create_map_block request response sc s =
     (let (s, source) = spawn s;
          (s, target) = spawn s;
          s = queue_command (AddOperation (Some (sc_scope sc)) source (CreatedMap target)) s
      in (s, \<lparr>dn_input = \<lparr>dis_scope = sc_scope sc, dis_source = source, dis_type = request\<rparr>,
              dn_output = \<lparr>dyo_scope = sc_scope sc, dyo_target = target, dyo_type = response\<rparr>,
              dn_streams = []\<rparr>))"

definition chain_fork_result ::
  "type_info \<Rightarrow> type_info \<Rightarrow> entity \<Rightarrow> scope_context \<Rightarrow> commands \<Rightarrow> commands \<times> dyn_output \<times> dyn_output" where
  "chain_fork_result t e source sc s =
     (let (s, target_ok) = spawn s;
          (s, target_err) = spawn s;
          s = queue_command (AddOperation (Some (sc_scope sc)) source (CreatedForkResult target_ok target_err)) s
      in (s, \<lparr>dyo_scope = sc_scope sc, dyo_target = target_ok, dyo_type = t\<rparr>,
             \<lparr>dyo_scope = sc_scope sc, dyo_target = target_err, dyo_type = e\<rparr>))"

definition create_fork_result ::
  "type_info \<Rightarrow> type_info \<Rightarrow> scope_context \<Rightarrow> commands \<Rightarrow> commands \<times> dyn_fork_result" where
  "create_fork_result t e sc s =
     (let (s, source) = spawn s;
          (s, ok, err) = chain_fork_result t e source sc s
      in (s, \<lparr>dfr_input = \<lparr>dis_scope = sc_scope sc, dis_source = source, dis_type = result_type_name t e\<rparr>,
              dfr_ok = ok, dfr_err = err\<rparr>))"

definition create_fork_clone ::
  "type_info \<Rightarrow> scope_context \<Rightarrow> commands \<Rightarrow> commands \<times> dyn_input_slot" where
  "create_fork_clone t sc s =
     (let (s, source) = spawn s;
          s = queue_command (AddOperation (Some (sc_scope sc)) source CreatedForkClone) s
      in (s, \<lparr>dis_scope = sc_scope sc, dis_source = source, dis_type = t\<rparr>))"

text \<open>\<open>ForkCloneOutput::clone_output\<close> adds a branch to the fork.\<close>

definition fork_clone_branch ::
  "type_info \<Rightarrow> entity \<Rightarrow> entity \<Rightarrow> commands \<Rightarrow> commands \<times> dyn_output" where
  "fork_clone_branch t scope source s =
     (let (s, target) = spawn s
      in (queue_command (AddForkBranch source target) s,
          \<lparr>dyo_scope = scope, dyo_target = target, dyo_type = t\<rparr>))"

fun spawn_outputs :: "type_info list \<Rightarrow> entity \<Rightarrow> commands \<Rightarrow> commands \<times> dyn_output list" where
  "spawn_outputs [] scope s = (s, [])"
| "spawn_outputs (t # ts) scope s =
     (let (s, target) = spawn s;
          (s, rest) = spawn_outputs ts scope s
      in (s, \<lparr>dyo_scope = scope, dyo_target = target, dyo_type = t\<rparr> # rest))"

definition create_unzip ::
  "type_info \<Rightarrow> type_info list \<Rightarrow> scope_context \<Rightarrow> commands \<Rightarrow> commands \<times> dyn_input_slot \<times> dyn_output list" where
  "create_unzip t ts sc s =
     (let (s, source) = spawn s;
          (s, outputs) = spawn_outputs ts (sc_scope sc) s;
          s = queue_command (AddOperation (Some (sc_scope sc)) source (CreatedUnzip (map dyo_target outputs))) s
      in (s, \<lparr>dis_scope = sc_scope sc, dis_source = source, dis_type = t\<rparr>, outputs))"

definition create_cancel ::
  "bool \<Rightarrow> type_info \<Rightarrow> scope_context \<Rightarrow> commands \<Rightarrow> commands \<times> dyn_input_slot" where
  "create_cancel implicit t sc s =
     (let (s, source) = spawn s;
          s = queue_command (AddOperation (Some (sc_scope sc)) source (CreatedCancel implicit)) s
      in (s, \<lparr>dis_scope = sc_scope sc, dis_source = source, dis_type = t\<rparr>))"

definition create_quiet_cancel ::
  "bool \<Rightarrow> scope_context \<Rightarrow> commands \<Rightarrow> commands \<times> dyn_input_slot" where
  "create_quiet_cancel implicit sc s =
     (let (s, source) = spawn s;
          s = queue_command (AddOperation (Some (sc_scope sc)) source (CreatedQuietCancel implicit)) s
      in (s, \<lparr>dis_scope = sc_scope sc, dis_source = source, dis_type = unit_type_name\<rparr>))"

subsection \<open>Buffers\<close>

datatype build_fetch = BuildPull | BuildClone

record any_buffer =
  ab_scope :: entity
  ab_id :: entity
  ab_type :: type_info
  ab_join_behavior :: build_fetch

type_synonym buffer_map = "(ident, any_buffer) hmap"

definition create_buffer ::
  "type_info \<Rightarrow> buffer_settings \<Rightarrow> scope_context \<Rightarrow> commands \<Rightarrow> commands \<times> any_buffer" where
  "create_buffer t settings sc s =
     (let (s, source) = spawn s;
          s = queue_command (AddOperation (Some (sc_scope sc)) source (CreatedBuffer settings)) s
      in (s, \<lparr>ab_scope = sc_scope sc, ab_id = source, ab_type = t, ab_join_behavior = BuildPull\<rparr>))"

definition input_of_buffer :: "any_buffer \<Rightarrow> dyn_input_slot" where
  "input_of_buffer b = \<lparr>dis_scope = ab_scope b, dis_source = ab_id b, dis_type = ab_type b\<rparr>"

text \<open>\<open>Builder::try_join\<close>: a buffer may appear once only. \<open>layout\<close> is \<open>try_from_buffer_map\<close> of the type.\<close>

fun first_duplicate :: "entity list \<Rightarrow> entity list \<Rightarrow> entity option" where
  "first_duplicate seen [] = None"
| "first_duplicate seen (b # bs) = (if b \<in> set seen then Some b else first_duplicate (b # seen) bs)"

definition verify_scope :: "buffer_map \<Rightarrow> entity \<Rightarrow> unit build" where
  "verify_scope buffers scope s =
     (if \<exists>b \<in> set (map snd buffers). ab_scope b \<noteq> scope
      then (s, Inl (Panicked ''assertion failed: scope == self.scope()'')) else (s, Inr ()))"

definition add_buffer_operation ::
  "(entity list \<Rightarrow> entity \<Rightarrow> created_operation) \<Rightarrow> buffer_map \<Rightarrow> type_info \<Rightarrow> scope_context \<Rightarrow> commands
     \<Rightarrow> commands \<times> entity \<times> dyn_output" where
  "add_buffer_operation kind buffers t sc s =
     (let (s, source) = spawn s;
          (s, target) = spawn s;
          s = queue_command (AddOperation (Some (sc_scope sc)) source (kind (map (ab_id \<circ> snd) buffers) target)) s
      in (s, source, \<lparr>dyo_scope = sc_scope sc, dyo_target = target, dyo_type = t\<rparr>))"

definition try_join ::
  "(buffer_map \<Rightarrow> incompatible_layout + unit) \<Rightarrow> type_info \<Rightarrow> buffer_map \<Rightarrow> scope_context \<Rightarrow> dyn_output build" where
  "try_join layout t buffers sc =
     (case first_duplicate [] (map (ab_id \<circ> snd) buffers) of
        Some b \<Rightarrow> raise_code (code_of_try_join_error (JoinDuplicateBuffer b))
      | None \<Rightarrow>
          (case layout buffers of
             Inl err \<Rightarrow> raise_code (code_of_try_join_error (JoinIncompatibleLayout err))
           | Inr _ \<Rightarrow> ebind (verify_scope buffers (sc_scope sc)) (\<lambda>_.
               ebind (infallible (add_buffer_operation CreatedJoin buffers t sc)) (\<lambda>(_, output).
                 return output))))"

definition try_listen ::
  "(buffer_map \<Rightarrow> incompatible_layout + unit) \<Rightarrow> type_info \<Rightarrow> buffer_map \<Rightarrow> scope_context \<Rightarrow> dyn_output build" where
  "try_listen layout t buffers sc =
     (case layout buffers of
        Inl err \<Rightarrow> raise_code (IncompatibleBuffers err)
      | Inr _ \<Rightarrow> ebind (verify_scope buffers (sc_scope sc)) (\<lambda>_.
          ebind (infallible (add_buffer_operation CreatedListen buffers t sc)) (\<lambda>(_, output).
            return output)))"

definition try_create_buffer_access ::
  "(buffer_map \<Rightarrow> incompatible_layout + unit) \<Rightarrow> type_info \<Rightarrow> type_info \<Rightarrow> buffer_map \<Rightarrow> scope_context
     \<Rightarrow> dyn_node build" where
  "try_create_buffer_access layout request t buffers sc =
     (case layout buffers of
        Inl err \<Rightarrow> raise_code (IncompatibleBuffers err)
      | Inr _ \<Rightarrow> ebind (infallible (add_buffer_operation CreatedBufferAccess buffers t sc)) (\<lambda>(source, output).
          return \<lparr>dn_input = \<lparr>dis_scope = sc_scope sc, dis_source = source, dis_type = request\<rparr>,
                  dn_output = output, dn_streams = []\<rparr>))"

subsection \<open>Operations of a message type\<close>

text \<open>
  An \<open>ArcAny\<close> holds a value with its dynamic type. The functions that \<open>register_serialize\<close> and
  \<open>register_deserialize\<close> store are closures: a closure has a type of its own, which is not the type
  \<open>fn(T) -> Result<JsonMessage, String>\<close> of the function pointer that the readers ask for.
\<close>

record serialization =
  ser_into_json_message :: "scope_context \<Rightarrow> dyn_fork_result build"
  ser_serialize :: type_info

record deserialization =
  des_create_node :: "scope_context \<Rightarrow> dyn_fork_result build"
  des_deserialize :: type_info

record dyn_fork_clone =
  dfc_input :: dyn_input_slot
  dfc_clone_output :: "scope_context \<Rightarrow> dyn_output build"

record dyn_unzip =
  dun_input :: dyn_input_slot
  dun_outputs :: "dyn_output list"

record unzip_registration =
  uzr_create :: "scope_context \<Rightarrow> dyn_unzip build"
  uzr_output_types :: "nat list"

record fork_result_registration =
  frr_create :: "scope_context \<Rightarrow> dyn_fork_result build"
  frr_output_types :: "nat \<times> nat"

record dyn_split =
  dsp_input :: dyn_input_slot
  dsp_outputs :: "(next_operation \<times> dyn_output) list"

record split_registration =
  spr_create :: "split_schema \<Rightarrow> scope_context \<Rightarrow> dyn_split build"
  spr_output_type :: nat

record join_registration =
  jnr_create :: "buffer_map \<Rightarrow> scope_context \<Rightarrow> dyn_output build"
  jnr_layout :: "nat layout_hints"

record buffer_access_registration =
  bar_create :: "buffer_map \<Rightarrow> scope_context \<Rightarrow> dyn_node build"
  bar_into_script_message :: "type_info \<Rightarrow> scope_context \<Rightarrow> dyn_fork_result build"
  bar_from_script_message :: "type_info \<Rightarrow> scope_context \<Rightarrow> dyn_fork_result build"
  bar_metadata :: buffer_access_metadata

record listen_registration =
  lsr_create :: "buffer_map \<Rightarrow> scope_context \<Rightarrow> dyn_output build"
  lsr_into_script_message :: "scope_context \<Rightarrow> dyn_fork_result build"
  lsr_from_script_message :: "scope_context \<Rightarrow> dyn_fork_result build"
  lsr_layout :: "nat layout_hints"

type_synonym create_into = "scope_context \<Rightarrow> commands \<Rightarrow> commands \<times> dyn_input_slot \<times> dyn_output"
type_synonym create_try_into = "scope_context \<Rightarrow> commands \<Rightarrow> commands \<times> dyn_fork_result"

record message_operations =
  mop_deserialize :: "deserialization option"
  mop_serialize :: "serialization option"
  mop_fork_clone :: "(scope_context \<Rightarrow> dyn_fork_clone build) option"
  mop_unzip :: "unzip_registration option"
  mop_fork_result :: "fork_result_registration option"
  mop_split :: "split_registration option"
  mop_join :: "join_registration option"
  mop_buffer_access :: "buffer_access_registration option"
  mop_listen :: "listen_registration option"
  mop_to_string :: "(scope_context \<Rightarrow> commands \<Rightarrow> commands \<times> dyn_node) option"
  mop_into_impls :: "(nat, create_into) hmap"
  mop_from_impls :: "(nat, create_into) hmap"
  mop_try_into_impls :: "(nat, create_try_into) hmap"
  mop_try_from_impls :: "(nat, create_try_into) hmap"

definition message_operations_new :: message_operations where
  "message_operations_new =
     \<lparr>mop_deserialize = None, mop_serialize = None, mop_fork_clone = None, mop_unzip = None,
      mop_fork_result = None, mop_split = None, mop_join = None, mop_buffer_access = None,
      mop_listen = None, mop_to_string = None, mop_into_impls = [], mop_from_impls = [],
      mop_try_into_impls = [], mop_try_from_impls = []\<rparr>"

definition create_trigger :: "type_info \<Rightarrow> scope_context \<Rightarrow> commands \<Rightarrow> commands \<times> dyn_node" where
  "create_trigger t = create_map_block t unit_type_name"

record message_registration =
  mrg_type_info :: type_info
  mrg_operations :: "message_operations option"

record message_registrations =
  mrs_messages :: "message_registration list"
  mrs_indices :: "(type_info, nat) hmap"
  mrs_reverse_lookup :: reverse_message_lookup
  mrs_join_clones :: "type_info list"

subsection \<open>Looking up message types\<close>

definition unregistered :: "type_info \<Rightarrow> diagram_error_code" where
  "unregistered t = UnregisteredTypes [t]"

definition get_registration :: "message_registrations \<Rightarrow> type_info \<Rightarrow> message_registration option" where
  "get_registration self t =
     (case hm_get (mrs_indices self) t of
        Some i \<Rightarrow> if i < length (mrs_messages self) then Some (mrs_messages self ! i) else None
      | None \<Rightarrow> None)"

definition get_dyn :: "message_registrations \<Rightarrow> type_info \<Rightarrow> diagram_error_code + message_registration" where
  "get_dyn self t = ok_or (get_registration self t) (unregistered t)"

definition get_by_index :: "message_registrations \<Rightarrow> nat \<Rightarrow> diagram_error_code + message_registration" where
  "get_by_index self i =
     (if i < length (mrs_messages self) then Inr (mrs_messages self ! i)
      else Inl (UnknownMessageTypeIndex i (length (mrs_messages self))))"

definition registration_operations :: "message_registration \<Rightarrow> diagram_error_code + message_operations" where
  "registration_operations self = ok_or (mrg_operations self) (unregistered (mrg_type_info self))"

definition get_operations :: "message_registrations \<Rightarrow> type_info \<Rightarrow> diagram_error_code + message_operations" where
  "get_operations self t = rbind (get_dyn self t) (\<lambda>r. ok_or (mrg_operations r) (unregistered t))"

definition get_index_dyn :: "message_registrations \<Rightarrow> type_info \<Rightarrow> diagram_error_code + nat" where
  "get_index_dyn self t = ok_or (hm_get (mrs_indices self) t) (unregistered t)"

definition get_type_info_for :: "message_registrations \<Rightarrow> nat \<Rightarrow> diagram_error_code + type_info" where
  "get_type_info_for self i = rbind (get_by_index self i) (\<lambda>r. Inr (mrg_type_info r))"

definition get_operations_by_index :: "message_registrations \<Rightarrow> nat \<Rightarrow> diagram_error_code + message_operations" where
  "get_operations_by_index self i = rbind (get_by_index self i) registration_operations"

subsection \<open>Creating operations through the registry\<close>

text \<open>\<open>find_operation\<close> is the start of most of the methods of \<open>MessageRegistry\<close>: the operations of a
  message type, one entry of them, and the error if there is no entry.\<close>

definition find_operation ::
  "(message_operations \<Rightarrow> 'a option) \<Rightarrow> diagram_error_code \<Rightarrow> message_registrations \<Rightarrow> type_info
     \<Rightarrow> 'w \<Rightarrow> 'w \<times> (diagram_error_code fault + 'a)" where
  "find_operation field missing self t =
     of_result (rbind (get_operations self t) (\<lambda>ops. ok_or (field ops) missing))"

definition try_deserialize ::
  "message_registrations \<Rightarrow> type_info \<Rightarrow> scope_context \<Rightarrow> dyn_fork_result option build" where
  "try_deserialize self t sc =
     ebind (of_result (get_operations self t)) (\<lambda>ops.
       case mop_deserialize ops of
         None \<Rightarrow> return None
       | Some d \<Rightarrow> ebind (des_create_node d sc) (\<lambda>fork. return (Some fork)))"

definition require :: "'a option \<Rightarrow> diagram_error_code \<Rightarrow> 'w \<Rightarrow> 'w \<times> (diagram_error_code fault + 'a)" where
  "require x code = of_result (ok_or x code)"

definition deserialize :: "message_registrations \<Rightarrow> type_info \<Rightarrow> scope_context \<Rightarrow> dyn_fork_result build" where
  "deserialize self t sc =
     ebind (try_deserialize self t sc) (\<lambda>fork. require fork (NotDeserializable t))"

definition try_serialize ::
  "message_registrations \<Rightarrow> type_info \<Rightarrow> scope_context \<Rightarrow> dyn_fork_result option build" where
  "try_serialize self t sc =
     ebind (of_result (get_operations self t)) (\<lambda>ops.
       case mop_serialize ops of
         None \<Rightarrow> return None
       | Some x \<Rightarrow> ebind (ser_into_json_message x sc) (\<lambda>fork. return (Some fork)))"

definition serialize :: "message_registrations \<Rightarrow> type_info \<Rightarrow> scope_context \<Rightarrow> dyn_fork_result build" where
  "serialize self t sc = ebind (try_serialize self t sc) (\<lambda>fork. require fork (NotSerializable t))"

definition try_to_string ::
  "message_registrations \<Rightarrow> type_info \<Rightarrow> scope_context \<Rightarrow> dyn_node option build" where
  "try_to_string self t sc =
     ebind (of_result (get_operations self t)) (\<lambda>ops.
       case mop_to_string ops of
         None \<Rightarrow> return None
       | Some f \<Rightarrow> ebind (infallible (f sc)) (\<lambda>node. return (Some node)))"

text \<open>
  Turning a message into a script message, and back: a registered conversion comes first, then
  messages with access to buffers whose request can be serialised, then messages that consist of
  buffer keys, then any message that can be serialised.
\<close>

definition json_into_script ::
  "serialization \<Rightarrow> scope_context \<Rightarrow> dyn_fork_result build" where
  "json_into_script x sc =
     ebind (ser_into_json_message x sc) (\<lambda>serialize.
     ebind (infallible (create_map_block json_message_type_name script_message_type_name sc)) (\<lambda>json_to_script.
     ebind (connect_to (dfr_ok serialize) (dn_input json_to_script)) (\<lambda>_.
       return \<lparr>dfr_input = dfr_input serialize, dfr_ok = dn_output json_to_script,
               dfr_err = dfr_err serialize\<rparr>)))"

definition serialized_request ::
  "message_registrations \<Rightarrow> (message_operations \<Rightarrow> 'a option) \<Rightarrow> message_operations
     \<Rightarrow> 'w \<Rightarrow> 'w \<times> (diagram_error_code fault + (buffer_access_registration \<times> 'a) option)" where
  "serialized_request self field ops =
     (case mop_buffer_access ops of
        None \<Rightarrow> return None
      | Some access \<Rightarrow>
          ebind (of_result (get_operations_by_index self (bam_request_message (bar_metadata access)))) (\<lambda>req_ops.
            return (case field req_ops of None \<Rightarrow> None | Some x \<Rightarrow> Some (access, x))))"

definition try_into_script_message ::
  "message_registrations \<Rightarrow> type_info \<Rightarrow> scope_context \<Rightarrow> dyn_fork_result option build" where
  "try_into_script_message self t sc =
     ebind (of_result (get_operations self t)) (\<lambda>ops.
     ebind (of_result (get_index_dyn self script_message_type_name)) (\<lambda>script_msg_idx.
       case hm_get (mop_try_into_impls ops) script_msg_idx of
         Some try_into_impl \<Rightarrow> ebind (infallible (try_into_impl sc)) (\<lambda>fork. return (Some fork))
       | None \<Rightarrow>
           ebind (serialized_request self mop_serialize ops) (\<lambda>req.
             case req of
               Some (access, req_serialization) \<Rightarrow>
                 ebind (bar_into_script_message access (ser_serialize req_serialization) sc) (\<lambda>fork.
                   return (Some fork))
             | None \<Rightarrow>
                 (case mop_listen ops of
                    Some listen \<Rightarrow> ebind (lsr_into_script_message listen sc) (\<lambda>fork. return (Some fork))
                  | None \<Rightarrow>
                      (case mop_serialize ops of
                         Some x \<Rightarrow> ebind (json_into_script x sc) (\<lambda>fork. return (Some fork))
                       | None \<Rightarrow> return None)))))"

definition script_into_json ::
  "deserialization \<Rightarrow> scope_context \<Rightarrow> dyn_fork_result build" where
  "script_into_json d sc =
     ebind (infallible (create_map_block script_message_type_name json_message_type_name sc)) (\<lambda>script_to_json.
     ebind (des_create_node d sc) (\<lambda>deserialize.
     ebind (connect_to (dn_output script_to_json) (dfr_input deserialize)) (\<lambda>_.
       return \<lparr>dfr_input = dn_input script_to_json, dfr_ok = dfr_ok deserialize,
               dfr_err = dfr_err deserialize\<rparr>)))"

definition try_from_script_message ::
  "message_registrations \<Rightarrow> type_info \<Rightarrow> scope_context \<Rightarrow> dyn_fork_result option build" where
  "try_from_script_message self t sc =
     ebind (of_result (get_operations self t)) (\<lambda>ops.
     ebind (of_result (get_index_dyn self script_message_type_name)) (\<lambda>script_msg_idx.
       case hm_get (mop_try_from_impls ops) script_msg_idx of
         Some try_from_impl \<Rightarrow> ebind (infallible (try_from_impl sc)) (\<lambda>fork. return (Some fork))
       | None \<Rightarrow>
           ebind (serialized_request self mop_deserialize ops) (\<lambda>req.
             case req of
               Some (access, req_deserialization) \<Rightarrow>
                 ebind (bar_from_script_message access (des_deserialize req_deserialization) sc) (\<lambda>fork.
                   return (Some fork))
             | None \<Rightarrow>
                 (case mop_listen ops of
                    Some listen \<Rightarrow> ebind (lsr_from_script_message listen sc) (\<lambda>fork. return (Some fork))
                  | None \<Rightarrow>
                      (case mop_deserialize ops of
                         Some d \<Rightarrow> ebind (script_into_json d sc) (\<lambda>fork. return (Some fork))
                       | None \<Rightarrow> return None)))))"

definition from_script_message_fork ::
  "message_registrations \<Rightarrow> type_info \<Rightarrow> scope_context \<Rightarrow> dyn_fork_result build" where
  "from_script_message_fork self t sc =
     ebind (try_from_script_message self t sc) (\<lambda>fork. require fork (NotScriptable t))"

definition registry_fork_clone ::
  "message_registrations \<Rightarrow> type_info \<Rightarrow> scope_context \<Rightarrow> dyn_fork_clone build" where
  "registry_fork_clone self t sc =
     ebind (find_operation mop_fork_clone (NotCloneable t) self t) (\<lambda>create. create sc)"

definition registry_unzip ::
  "message_registrations \<Rightarrow> type_info \<Rightarrow> unzip_registration build" where
  "registry_unzip self t = find_operation mop_unzip (NotUnzippable t) self t"

definition registry_fork_result ::
  "message_registrations \<Rightarrow> type_info \<Rightarrow> scope_context \<Rightarrow> dyn_fork_result build" where
  "registry_fork_result self t sc =
     ebind (find_operation mop_fork_result (CannotForkResult t) self t) (\<lambda>r. frr_create r sc)"

definition registry_split ::
  "message_registrations \<Rightarrow> type_info \<Rightarrow> split_schema \<Rightarrow> scope_context \<Rightarrow> dyn_split build" where
  "registry_split self t split_op sc =
     ebind (find_operation mop_split (NotSplittable t) self t) (\<lambda>r. spr_create r split_op sc)"

definition registry_create_buffer ::
  "message_registrations \<Rightarrow> type_info \<Rightarrow> buffer_settings \<Rightarrow> scope_context \<Rightarrow> any_buffer build" where
  "registry_create_buffer self t settings sc =
     ebind (of_result (get_operations self t)) (\<lambda>_. infallible (create_buffer t settings sc))"

definition registry_trigger ::
  "message_registrations \<Rightarrow> type_info \<Rightarrow> scope_context \<Rightarrow> dyn_node build" where
  "registry_trigger self t sc =
     ebind (of_result (get_operations self t)) (\<lambda>_. infallible (create_trigger t sc))"

definition registry_join ::
  "message_registrations \<Rightarrow> type_info \<Rightarrow> buffer_map \<Rightarrow> scope_context \<Rightarrow> dyn_output build" where
  "registry_join self t buffers sc =
     ebind (find_operation mop_join (NotJoinable t) self t) (\<lambda>r. jnr_create r buffers sc)"

definition registry_buffer_access ::
  "message_registrations \<Rightarrow> type_info \<Rightarrow> buffer_map \<Rightarrow> scope_context \<Rightarrow> dyn_node build" where
  "registry_buffer_access self t buffers sc =
     ebind (find_operation mop_buffer_access (CannotAccessBuffers t) self t) (\<lambda>r. bar_create r buffers sc)"

definition registry_listen ::
  "message_registrations \<Rightarrow> type_info \<Rightarrow> buffer_map \<Rightarrow> scope_context \<Rightarrow> dyn_output build" where
  "registry_listen self t buffers sc =
     ebind (find_operation mop_listen (CannotListen t) self t) (\<lambda>r. lsr_create r buffers sc)"

text \<open>\<open>AnyBuffer::join_by_cloning\<close>: possible once cloning was registered for the message type.\<close>

definition join_by_cloning :: "message_registrations \<Rightarrow> any_buffer \<Rightarrow> any_buffer option" where
  "join_by_cloning self b =
     (if ab_type b \<in> set (mrs_join_clones self) then Some (b\<lparr>ab_join_behavior := BuildClone\<rparr>) else None)"

end
