(* ===== verification/SplitBuilding.thy ===== *)
theory SplitBuilding
  imports Registry
begin

text \<open>
  Building the outputs of a split: the keys and \<open>SplitBuilder::output_for\<close> of
  \<open>src/src/chain/split.rs\<close>, and \<open>RegisterSplit::create_split\<close> of \<open>src/src/diagram/split_schema.rs\<close>.

  A \<open>ListSplitKey\<close> is a \<open>split_key\<close> that is not specific. What differs between the types that can be
  split is given by \<open>key_space\<close>: which keys are valid and how a name in the schema becomes a key.
\<close>

record key_space =
  ksp_validate :: "split_key \<Rightarrow> bool"
  ksp_from_specific :: "name \<Rightarrow> split_key"

text \<open>\<open>str::parse::<usize>\<close>: decimal digits, after an optional plus sign, below \<open>2 ^ 64\<close>.\<close>

definition is_digit :: "char \<Rightarrow> bool" where
  "is_digit c \<longleftrightarrow> CHR ''0'' \<le> c \<and> c \<le> CHR ''9''"

definition digit_value :: "char \<Rightarrow> nat" where
  "digit_value c = of_char c - of_char (CHR ''0'')"

definition parse_usize :: "string \<Rightarrow> nat option" where
  "parse_usize s =
     (let digits = (case s of c # cs \<Rightarrow> if c = CHR ''+'' then cs else s | [] \<Rightarrow> []);
          value = foldl (\<lambda>n c. 10 * n + digit_value c) 0 digits
      in if digits \<noteq> [] \<and> list_all is_digit digits \<and> value < 2 ^ 64 then Some value else None)"

definition map_key_space :: key_space where
  "map_key_space = \<lparr>ksp_validate = (\<lambda>_. True), ksp_from_specific = SplitSpecific\<rparr>"

definition list_key_space :: key_space where
  "list_key_space =
     \<lparr>ksp_validate = (\<lambda>_. True),
      ksp_from_specific = (\<lambda>specific. case parse_usize specific of
        Some seq \<Rightarrow> SplitSequential seq | None \<Rightarrow> SplitRemaining)\<rparr>"

definition array_key_space :: "nat \<Rightarrow> key_space" where
  "array_key_space n =
     list_key_space\<lparr>ksp_validate := (\<lambda>key. case key of SplitSequential s \<Rightarrow> s < n | _ \<Rightarrow> True)\<rparr>"

record split_outputs =
  spo_scope :: entity
  spo_source :: entity
  spo_used :: "split_key list"

definition output_for ::
  "key_space \<Rightarrow> split_key \<Rightarrow> split_outputs \<Rightarrow> (split_outputs \<times> entity) build" where
  "output_for ks key self =
     (if \<not> ksp_validate ks key then raise_code (ConnectionError KeyOutOfBounds)
      else if key \<in> set (spo_used self) then raise_code (ConnectionError KeyAlreadyUsed)
      else infallible (\<lambda>s.
        let (s, target) = spawn s
        in (queue_command (ConnectToSplit (spo_source self) target key) s,
            self\<lparr>spo_used := key # spo_used self\<rparr>, target)))"

text \<open>\<open>chain.map_block(|(_, value)| value).output()\<close> continues an output of the split.\<close>

definition chain_value :: "type_info \<Rightarrow> entity \<Rightarrow> scope_context \<Rightarrow> commands \<Rightarrow> commands \<times> dyn_output" where
  "chain_value item source sc s =
     (let (s, target) = spawn s
      in (queue_command (AddOperation (Some (sc_scope sc)) source (CreatedMap target)) s,
          \<lparr>dyo_scope = sc_scope sc, dyo_target = target, dyo_type = item\<rparr>))"

fun split_chains ::
  "key_space \<Rightarrow> type_info \<Rightarrow> scope_context \<Rightarrow> (split_key \<times> 'a) list \<Rightarrow> split_outputs \<Rightarrow> ('a \<times> dyn_output) list build" where
  "split_chains ks item sc [] self = return []"
| "split_chains ks item sc ((key, target) # keys) self =
     ebind (output_for ks key self) (\<lambda>(self, source).
     ebind (infallible (chain_value item source sc)) (\<lambda>output.
     ebind (split_chains ks item sc keys self) (\<lambda>outputs. return ((target, output) # outputs))))"

definition schema_split_keys :: "key_space \<Rightarrow> split_schema \<Rightarrow> (split_key \<times> next_operation) list" where
  "schema_split_keys ks split_op =
     map (\<lambda>(key, target). (ksp_from_specific ks key, target)) (split_keyed split_op)
     @ map (\<lambda>(i, target). (SplitSequential i, target)) (enumerate 0 (split_sequential split_op))
     @ (case split_remaining split_op of Some target \<Rightarrow> [(SplitRemaining, target)] | None \<Rightarrow> [])"

definition create_split ::
  "key_space \<Rightarrow> type_info \<Rightarrow> type_info \<Rightarrow> split_schema \<Rightarrow> scope_context \<Rightarrow> dyn_split build" where
  "create_split ks t item split_op sc =
     ebind (infallible spawn) (\<lambda>source.
     ebind (modify (queue_command (AddOperation (Some (sc_scope sc)) source CreatedSplit))) (\<lambda>_.
     ebind (split_chains ks item sc (schema_split_keys ks split_op)
              \<lparr>spo_scope = sc_scope sc, spo_source = source, spo_used = []\<rparr>) (\<lambda>outputs.
       return \<lparr>dsp_input = \<lparr>dis_scope = sc_scope sc, dis_source = source, dis_type = t\<rparr>,
               dsp_outputs = outputs\<rparr>)))"

text \<open>A split can be built exactly if its keys are valid and pairwise different.\<close>

lemma split_chains_ok:
  "(\<exists>s' outputs. split_chains ks item sc keys self s = (s', Inr outputs))
    \<longleftrightarrow> (\<forall>key \<in> set (map fst keys). ksp_validate ks key) \<and> distinct (map fst keys)
      \<and> set (map fst keys) \<inter> set (spo_used self) = {}"
proof (induction keys arbitrary: self s)
  case Nil
  then show ?case by (simp add: return_def)
next
  case (Cons kt keys)
  obtain key target where kt: "kt = (key, target)" by fastforce
  show ?case
  proof (cases "ksp_validate ks key \<and> key \<notin> set (spo_used self)")
    case True
    obtain s1 e1 where s1: "output_for ks key self s = (s1, Inr (self\<lparr>spo_used := key # spo_used self\<rparr>, e1))"
      using True by (auto simp: output_for_def infallible_def spawn_def)
    obtain s2 o2 where s2: "infallible (chain_value item e1 sc) s1 = (s2, Inr o2 :: diagram_error_code fault + dyn_output)"
      by (auto simp: infallible_def chain_value_def spawn_def)
    have "(\<exists>s' outputs. split_chains ks item sc (kt # keys) self s = (s', Inr outputs))
        \<longleftrightarrow> (\<exists>s' outputs. split_chains ks item sc keys (self\<lparr>spo_used := key # spo_used self\<rparr>) s2 = (s', Inr outputs))"
      using s1 s2 by (auto simp: kt ebind_def return_def split: sum.splits prod.splits)
    then show ?thesis
      using True unfolding Cons.IH by (auto simp: kt)
  next
    case False
    then have "\<exists>c. output_for ks key self s = (s, Inl c)"
      by (auto simp: output_for_def raise_code_def)
    then show ?thesis using False by (auto simp: kt ebind_def)
  qed
qed

text \<open>A split can be built exactly if each of its keys is valid for the message type and no two of them mean the
  same. For map-like messages the keys of a schema always differ (\<open>map_keys_distinct\<close>). For lists \<open>keyed\<close>
  names that are numbers mean positions, so a number in \<open>keyed\<close> and the same position in \<open>sequential\<close>
  exclude each other, and so do two names that are no numbers: they all mean the remaining elements.
  The documentation of the schema promises that all kinds of keys can be used together.\<close>

lemma split_builds_iff:
  "(\<exists>s' d. create_split ks t item split_op sc s = (s', Inr d))
   \<longleftrightarrow> list_all (ksp_validate ks) (map fst (schema_split_keys ks split_op))
     \<and> distinct (map fst (schema_split_keys ks split_op))"
proof -
  have "(\<exists>s' d. create_split ks t item split_op sc s = (s', Inr d))
      \<longleftrightarrow> (\<exists>s' outputs. split_chains ks item sc (schema_split_keys ks split_op)
            \<lparr>spo_scope = sc_scope sc, spo_source = cmd_next s, spo_used = []\<rparr>
            (queue_command (AddOperation (Some (sc_scope sc)) (cmd_next s) CreatedSplit) (fst (spawn s)))
          = (s', Inr outputs))"
    by (auto simp: create_split_def ebind_def infallible_def spawn_def modify_def return_def
        split: prod.splits sum.splits)
  then show ?thesis unfolding split_chains_ok by (simp add: list_all_iff)
qed

text \<open>The keys of a map-like message: names, positions and the rest never mean the same.\<close>

lemma schema_split_keys_map:
  "map fst (schema_split_keys map_key_space split_op) =
     map SplitSpecific (hm_keys (split_keyed split_op)) @ map SplitSequential [0..<length (split_sequential split_op)]
     @ (if split_remaining split_op = None then [] else [SplitRemaining])"
  "map snd (schema_split_keys ks split_op) =
     map snd (split_keyed split_op) @ split_sequential split_op
     @ (case split_remaining split_op of Some target \<Rightarrow> [target] | None \<Rightarrow> [])"
proof -
  have "fst \<circ> (\<lambda>(i, target). (SplitSequential i, target :: next_operation)) = SplitSequential \<circ> fst"
    "snd \<circ> (\<lambda>(i, target). (SplitSequential i, target :: next_operation)) = snd"
    by auto
  then have "map (fst \<circ> (\<lambda>(i, target). (SplitSequential i, target))) (enumerate n xs) = map SplitSequential [n..<n + length xs]"
    "map (snd \<circ> (\<lambda>(i, target). (SplitSequential i, target))) (enumerate n xs) = xs" for n and xs :: "next_operation list"
    by (simp_all flip: map_map)
  then show "map fst (schema_split_keys map_key_space split_op) =
     map SplitSpecific (hm_keys (split_keyed split_op)) @ map SplitSequential [0..<length (split_sequential split_op)]
     @ (if split_remaining split_op = None then [] else [SplitRemaining])"
    and "map snd (schema_split_keys ks split_op) =
     map snd (split_keyed split_op) @ split_sequential split_op
     @ (case split_remaining split_op of Some target \<Rightarrow> [target] | None \<Rightarrow> [])"
    by (auto simp: schema_split_keys_def map_key_space_def hm_keys_def split: option.split)
qed

lemma map_keys_distinct:
  "hm_wf (split_keyed split_op) \<Longrightarrow> distinct (map fst (schema_split_keys map_key_space split_op))"
  by (auto simp: schema_split_keys_map hm_wf_def hm_keys_def distinct_map inj_on_def)

text \<open>The commands that connect the outputs of a split.\<close>

fun connections_of :: "entity \<Rightarrow> build_command list \<Rightarrow> (split_key \<times> entity) list" where
  "connections_of source [] = []"
| "connections_of source (ConnectToSplit s target key # cs) =
     (if s = source then (key, target) # connections_of source cs else connections_of source cs)"
| "connections_of source (_ # cs) = connections_of source cs"

lemma connections_of_append [simp]: "connections_of source (cs @ cs') = connections_of source cs @ connections_of source cs'"
  by (induction source cs rule: connections_of.induct) simp_all

lemma split_chains_commands:
  assumes "\<forall>key \<in> set (map fst keys). ksp_validate ks key" and "distinct (map fst keys)"
    and "set (map fst keys) \<inter> set (spo_used self) = {}"
  shows "\<exists>s' outputs cs. split_chains ks item sc keys self s = (s', Inr outputs) \<and> cmd_queue s' = cmd_queue s @ cs
    \<and> cmd_next s \<le> cmd_next s' \<and> map fst outputs = map snd keys
    \<and> map fst (connections_of (spo_source self) cs) = map fst keys
    \<and> snd ` set (connections_of (spo_source self) cs) \<subseteq> {cmd_next s..<cmd_next s'}
    \<and> list_all2 (\<lambda>(_, e) (_, out). AddOperation (Some (sc_scope sc)) e (CreatedMap (dyo_target out)) \<in> set cs)
        (connections_of (spo_source self) cs) outputs"
  using assms
proof (induction keys arbitrary: self s)
  case Nil
  then show ?case by (simp add: return_def)
next
  case (Cons kt keys)
  obtain key target where kt: "kt = (key, target)" by fastforce
  let ?e = "cmd_next s" and ?out = "\<lparr>dyo_scope = sc_scope sc, dyo_target = Suc (cmd_next s), dyo_type = item\<rparr>"
  let ?new = "[Spawn ?e, ConnectToSplit (spo_source self) ?e key, Spawn (Suc ?e),
    AddOperation (Some (sc_scope sc)) ?e (CreatedMap (Suc ?e))]"
  let ?self = "self\<lparr>spo_used := key # spo_used self\<rparr>"
  let ?s = "s\<lparr>cmd_next := Suc (Suc ?e), cmd_queue := cmd_queue s @ ?new\<rparr>"
  have first: "split_chains ks item sc (kt # keys) self s =
      ebind (split_chains ks item sc keys ?self) (\<lambda>outputs. return ((target, ?out) # outputs)) ?s"
    using Cons.prems by (simp add: kt output_for_def infallible_def spawn_def queue_command_def chain_value_def ebind_def)
  have "set (map fst keys) \<inter> set (spo_used ?self) = {}" using Cons.prems(2,3) kt by auto
  with Cons.IH [of ?self ?s] Cons.prems(1,2) obtain s' outputs cs where
    IH: "split_chains ks item sc keys ?self ?s = (s', Inr outputs)" "cmd_queue s' = cmd_queue s @ ?new @ cs"
      "Suc (Suc ?e) \<le> cmd_next s'" "map fst outputs = map snd keys"
      "map fst (connections_of (spo_source self) cs) = map fst keys"
      "snd ` set (connections_of (spo_source self) cs) \<subseteq> {Suc (Suc ?e)..<cmd_next s'}"
      "list_all2 (\<lambda>(_, e) (_, out). AddOperation (Some (sc_scope sc)) e (CreatedMap (dyo_target out)) \<in> set cs)
        (connections_of (spo_source self) cs) outputs"
    by auto
  have "split_chains ks item sc (kt # keys) self s = (s', Inr ((target, ?out) # outputs))"
    unfolding first by (simp add: ebind_def return_def IH(1))
  moreover have "list_all2 (\<lambda>(_, e) (_, out). AddOperation (Some (sc_scope sc)) e (CreatedMap (dyo_target out)) \<in> set (?new @ cs))
      (connections_of (spo_source self) cs) outputs"
    using IH(7) by (rule list_all2_mono) auto
  ultimately show ?case
    using IH(2-6) by (intro exI [of _ s'] exI [of _ "(target, ?out) # outputs"] exI [of _ "?new @ cs"]) (auto simp: kt)
qed

text \<open>The collisions for lists.\<close>

lemma list_keys_collide:
  "ksp_from_specific list_key_space ''0'' = SplitSequential 0"
  "ksp_from_specific list_key_space ''a'' = ksp_from_specific list_key_space ''b''"
  by (simp_all add: list_key_space_def parse_usize_def is_digit_def digit_value_def less_eq_char_def)

end
