(* ===== verification/Splitting.thy ===== *)
theory Splitting
  imports Operations SplitBuilding
begin

text \<open>
  The split operation (\<open>src/src/operation/operate_split.rs\<close>), and how lists, maps and JSON values are
  split (\<open>Splittable\<close> of \<open>src/src/chain/split.rs\<close> and \<open>src/src/diagram/split_schema.rs\<close>).

  \<^item> \<open>SplitBuilding\<close> makes the outputs of a split and queues \<open>ConnectToSplit\<close> for each of them;
    \<open>connect_to_split\<close> is what that command does.
  \<^item> A split takes its two caches out of its component while it runs. They are options here as well,
    because an operation that fails in between does not put them back.
  \<^item> \<open>message\<close> makes the message of a label and an item. \<open>content\<close> reads a JSON message.
\<close>

subsection \<open>Dispatching\<close>

record 'o split_dispatcher =
  sdp_connections :: "(split_key, nat) hmap"
  sdp_outputs :: "'o list list"

definition resize :: "nat \<Rightarrow> 'o list list \<Rightarrow> 'o list list" where
  "resize n xs = take n xs @ replicate (n - length xs) []"

definition outputs_for :: "split_key \<Rightarrow> 'o split_dispatcher \<Rightarrow> 'o split_dispatcher \<times> nat option" where
  "outputs_for key self =
     (case hm_get (sdp_connections self) key of
        None \<Rightarrow> (self, None)
      | Some index \<Rightarrow>
          (if length (sdp_outputs self) \<le> index
           then self\<lparr>sdp_outputs := resize (Suc index) (sdp_outputs self)\<rparr> else self, Some index))"

definition push_item :: "nat \<Rightarrow> 'o \<Rightarrow> 'o split_dispatcher \<Rightarrow> 'o split_dispatcher" where
  "push_item index item self =
     self\<lparr>sdp_outputs := (sdp_outputs self)[index := sdp_outputs self ! index @ [item]]\<rparr>"

text \<open>A match on \<open>outputs_for\<close> that pushes the item or goes on.\<close>

definition push_or ::
  "split_key \<Rightarrow> 'o \<Rightarrow> ('o split_dispatcher \<Rightarrow> 'o split_dispatcher) \<Rightarrow> 'o split_dispatcher \<Rightarrow> 'o split_dispatcher" where
  "push_or key item otherwise self =
     (case outputs_for key self of
        (self, Some index) \<Rightarrow> push_item index item self
      | (self, None) \<Rightarrow> otherwise self)"

subsection \<open>Splitting lists, maps and JSON values\<close>

fun split_list :: "(nat \<Rightarrow> 'l) \<Rightarrow> nat \<Rightarrow> 'v list \<Rightarrow> ('l \<times> 'v) split_dispatcher \<Rightarrow> ('l \<times> 'v) split_dispatcher" where
  "split_list label index [] d = d"
| "split_list label index (v # vs) d =
     split_list label (Suc index) vs
       (push_or (SplitSequential index) (label index, v) (push_or SplitRemaining (label index, v) id) d)"

fun split_map ::
  "(name \<Rightarrow> 'l) \<Rightarrow> nat \<Rightarrow> (name \<times> 'v) list \<Rightarrow> ('l \<times> 'v) split_dispatcher \<Rightarrow> ('l \<times> 'v) split_dispatcher" where
  "split_map label next_seq [] d = d"
| "split_map label next_seq ((k, v) # kvs) d =
     (case outputs_for (SplitSpecific k) d of
        (d, Some index) \<Rightarrow> split_map label next_seq kvs (push_item index (label k, v) d)
      | (d, None) \<Rightarrow>
          split_map label (Suc next_seq) kvs
            (push_or (SplitSequential next_seq) (label k, v) (push_or SplitRemaining (label k, v) id) d))"

datatype json_position = Singular | ArrayElement nat | ObjectField name

datatype 'v json_value = JsonArray "'v list" | JsonObject "(name \<times> 'v) list" | JsonSingular 'v

fun split_json ::
  "'v json_value \<Rightarrow> (json_position \<times> 'v) split_dispatcher \<Rightarrow> (json_position \<times> 'v) split_dispatcher" where
  "split_json (JsonArray values) d = split_list ArrayElement 0 values d"
| "split_json (JsonObject entries) d = split_map ObjectField 0 entries d"
| "split_json (JsonSingular value) d =
     push_or (SplitSequential 0) (Singular, value) (push_or SplitRemaining (Singular, value) id) d"

subsection \<open>The operation\<close>

record 'o operate_split =
  osp_connections :: "(split_key, nat) hmap"
  osp_index_to_key :: "ident list list option"
  osp_outputs_cache :: "'o list list option"

record ('t, 'c, 'o) split_world = "('t, 'c) flow_world" +
  spw_entities :: "entity list"
  spw_targets :: "entity \<Rightarrow> entity list option"
  spw_single_input :: "entity \<Rightarrow> entity option"
  spw_split :: "entity \<Rightarrow> 'o operate_split option"
  spw_double_connected :: "(split_key \<times> entity \<times> entity \<times> entity) list"

type_synonym ('t, 'c, 'o, 'a) split_operation =
  "('t, 'c, 'o) split_world \<Rightarrow> ('t, 'c, 'o) split_world \<times> (flow_error + 'a)"

definition put_split :: "entity \<Rightarrow> 'o operate_split \<Rightarrow> ('t, 'c, 'o) split_world \<Rightarrow> ('t, 'c, 'o) split_world" where
  "put_split source self w = w\<lparr>spw_split := (spw_split w)(source := Some self)\<rparr>"

definition split_setup :: "entity \<Rightarrow> ('t, 'c, 'o) split_world \<Rightarrow> ('t, 'c, 'o) split_world" where
  "split_setup source w =
     w\<lparr>spw_targets := (spw_targets w)(source := Some []),
       spw_split := (spw_split w)(source := Some \<lparr>osp_connections = [], osp_index_to_key = Some [], osp_outputs_cache = Some []\<rparr>),
       fl_messages := (fl_messages w)\<lparr>mw_inputs := (mw_inputs (fl_messages w))(source := Some input_storage_new)\<rparr>\<rparr>"

fun split_key_identifier :: "split_key \<Rightarrow> ident list" where
  "split_key_identifier (SplitSequential i) = [Name ''sequential'', Index i]"
| "split_key_identifier (SplitSpecific k) = [Name ''keyed'', Name k]"
| "split_key_identifier SplitRemaining = [Name ''remaining'']"

definition broken_unless :: "('w \<Rightarrow> 'a option) \<Rightarrow> 'w \<Rightarrow> 'w \<times> (flow_error + 'a)" where
  "broken_unless = or_error (Fault Broken)"

text \<open>\<open>ConnectToSplit::connect\<close>. A key that was in use already is reported, and its new index is used.\<close>

definition connect_to_split :: "entity \<Rightarrow> entity \<Rightarrow> split_key \<Rightarrow> ('t, 'c, 'o, unit) split_operation" where
  "connect_to_split source target key =
     ebind (broken_unless (\<lambda>w. spw_targets w source)) (\<lambda>targets.
     let index = length targets; targets = targets @ [target]
     in ebind (modify (\<lambda>w. w\<lparr>spw_targets := (spw_targets w)(source := Some targets)\<rparr>)) (\<lambda>_.
     ebind (broken_unless (\<lambda>w. if target \<in> set (spw_entities w) then Some () else None)) (\<lambda>_.
     ebind (modify (\<lambda>w. w\<lparr>spw_single_input := (spw_single_input w)(target := Some source)\<rparr>)) (\<lambda>_.
     ebind (broken_unless (\<lambda>w. spw_split w source)) (\<lambda>self.
     let previous_index = hm_get (osp_connections self) key;
         self = self\<lparr>osp_connections := hm_insert key index (osp_connections self)\<rparr>
     in ebind (modify (put_split source self)) (\<lambda>_.
     ebind (broken_unless (\<lambda>_. osp_outputs_cache self)) (\<lambda>cache.
     let self = self\<lparr>osp_outputs_cache := Some (resize (Suc index) cache)\<rparr>
     in ebind (modify (put_split source self)) (\<lambda>_.
     ebind (broken_unless (\<lambda>_. osp_index_to_key self)) (\<lambda>index_to_key.
     if length index_to_key \<noteq> index then (\<lambda>w. (w, Inl (Fault Broken)))
     else ebind (modify (put_split source (self\<lparr>osp_index_to_key :=
                   Some (index_to_key @ [split_key_identifier key])\<rparr>))) (\<lambda>_.
     case previous_index of
       None \<Rightarrow> return ()
     | Some i \<Rightarrow>
         if i < length targets
         then modify (\<lambda>w. w\<lparr>spw_double_connected :=
                spw_double_connected w @ [(key, source, targets ! i, target)]\<rparr>)
         else (\<lambda>w. (w, Inl (Fault Broken)))))))))))))"

definition missing_key :: "ident list list \<Rightarrow> nat \<Rightarrow> ident list" where
  "missing_key index_to_key i =
     (if i < length index_to_key then index_to_key ! i else [Name ''unknown_target'', Index i])"

text \<open>The loop that sends what each output got; \<open>get(index).or_broken()\<close> needs a key for the port.\<close>

definition send_outputs ::
  "('o \<Rightarrow> 't) \<Rightarrow> entity \<Rightarrow> ident list list \<Rightarrow> (nat \<times> 'o list \<times> entity) list \<Rightarrow> ('t, 'c, 'o, unit) split_operation" where
  "send_outputs message session index_to_key =
     each (\<lambda>(index, items, target).
       if index < length index_to_key
       then send_all session (map (\<lambda>output. (target, message output)) items)
       else (\<lambda>w. (w, Inl (Fault Broken))))"

definition split_execute ::
  "('o \<Rightarrow> 't) \<Rightarrow> ('t \<Rightarrow> 'o split_dispatcher \<Rightarrow> 'o split_dispatcher) \<Rightarrow> entity \<Rightarrow> ('t, 'c, 'o, unit) split_operation" where
  "split_execute message split source =
     ebind (receive source) (\<lambda>input.
     ebind (broken_unless (\<lambda>w. spw_targets w source)) (\<lambda>targets.
     ebind (broken_unless (\<lambda>w. spw_split w source)) (\<lambda>self.
     let cache = (case osp_outputs_cache self of Some cache \<Rightarrow> cache | None \<Rightarrow> []);
         self = self\<lparr>osp_outputs_cache := None\<rparr>;
         outputs = sdp_outputs (split (in_data input)
           \<lparr>sdp_connections = osp_connections self, sdp_outputs = cache\<rparr>)
     in ebind (modify (put_split source self)) (\<lambda>_.
     ebind (broken_unless (\<lambda>_. osp_index_to_key self)) (\<lambda>index_to_key.
     ebind (modify (put_split source (self\<lparr>osp_index_to_key := None\<rparr>))) (\<lambda>_.
     let sending = enumerate 0 (zip outputs targets);
         missed_indices = map fst (filter (\<lambda>(_, items, _). items = []) sending)
     in ebind (send_outputs message (in_session input) index_to_key sending) (\<lambda>_.
     ebind (if missed_indices = [] then return ()
            else modify (emit_disposal (request_of source input)
                   (IncompleteSplit source (map (missing_key index_to_key) missed_indices)))) (\<lambda>_.
     ebind (broken_unless (\<lambda>w. spw_split w source)) (\<lambda>self.
       modify (put_split source (self\<lparr>
         osp_outputs_cache := Some (map (\<lambda>_. []) sending @ drop (length targets) outputs),
         osp_index_to_key := Some index_to_key\<rparr>)))))))))))"

definition split_cleanup :: "entity \<Rightarrow> entity \<Rightarrow> ('t, 'c, 'o) split_world \<Rightarrow> ('t, 'c, 'o) split_world" where
  "split_cleanup source session w = w\<lparr>fl_messages := cleanup_inputs source session (fl_messages w)\<rparr>"

subsection \<open>Where the items go\<close>

text \<open>An item goes to the output of the first of its keys that is connected.\<close>

fun first_connected :: "(split_key, nat) hmap \<Rightarrow> split_key list \<Rightarrow> nat option" where
  "first_connected c [] = None"
| "first_connected c (k # ks) = (case hm_get c k of None \<Rightarrow> first_connected c ks | Some i \<Rightarrow> Some i)"

definition put_item :: "split_key list \<Rightarrow> 'o \<Rightarrow> 'o split_dispatcher \<Rightarrow> 'o split_dispatcher" where
  "put_item ks item d = (case first_connected (sdp_connections d) ks of None \<Rightarrow> d | Some i \<Rightarrow> push_item i item d)"

definition distribute :: "(split_key list \<times> 'o) list \<Rightarrow> 'o split_dispatcher \<Rightarrow> 'o split_dispatcher" where
  "distribute items = fold (\<lambda>(ks, item). put_item ks item) items"

text \<open>Every connected key has an output already.\<close>

definition enough_outputs :: "'o split_dispatcher \<Rightarrow> bool" where
  "enough_outputs d \<longleftrightarrow> (\<forall>k i. hm_get (sdp_connections d) k = Some i \<longrightarrow> i < length (sdp_outputs d))"

lemma push_item_parts [simp]:
  "sdp_connections (push_item i item d) = sdp_connections d"
  "length (sdp_outputs (push_item i item d)) = length (sdp_outputs d)"
  by (simp_all add: push_item_def)

lemma put_item_parts [simp]:
  "sdp_connections (put_item ks item d) = sdp_connections d"
  "length (sdp_outputs (put_item ks item d)) = length (sdp_outputs d)"
  by (simp_all add: put_item_def split: option.split)

lemma enough_outputs_kept [simp]:
  "enough_outputs (push_item i item d) \<longleftrightarrow> enough_outputs d" "enough_outputs (put_item ks item d) \<longleftrightarrow> enough_outputs d"
  by (simp_all add: enough_outputs_def)

lemma outputs_for_enough: "enough_outputs d \<Longrightarrow> outputs_for k d = (d, hm_get (sdp_connections d) k)"
  by (force simp: outputs_for_def enough_outputs_def split: option.split)

lemma push_or_enough:
  assumes "enough_outputs d" and "otherwise d = put_item ks item d"
  shows "push_or k item otherwise d = put_item (k # ks) item d"
  using assms by (simp add: push_or_def outputs_for_enough put_item_def split: option.split)

lemma push_or_remaining:
  "enough_outputs d \<Longrightarrow>
     push_or k item (push_or SplitRemaining item id) d = put_item [k, SplitRemaining] item d"
  by (intro push_or_enough) (simp_all add: put_item_def)

definition list_items :: "(nat \<Rightarrow> 'l) \<Rightarrow> nat \<Rightarrow> 'v list \<Rightarrow> (split_key list \<times> 'l \<times> 'v) list" where
  "list_items label n vs = map (\<lambda>(i, v). ([SplitSequential i, SplitRemaining], (label i, v))) (enumerate n vs)"

lemma split_list_distribute: "enough_outputs d \<Longrightarrow> split_list label n vs d = distribute (list_items label n vs) d"
  by (induction vs arbitrary: n d) (simp_all add: list_items_def distribute_def push_or_remaining)

text \<open>In a map, the position of an entry counts the entries before it whose names are not connected.\<close>

definition position_in :: "(name \<Rightarrow> bool) \<Rightarrow> (name \<times> 'v) list \<Rightarrow> nat \<Rightarrow> nat" where
  "position_in named kvs i = length (filter (\<lambda>p. \<not> named (fst p)) (take i kvs))"

definition map_items ::
  "(name \<Rightarrow> 'l) \<Rightarrow> (name \<Rightarrow> bool) \<Rightarrow> nat \<Rightarrow> (name \<times> 'v) list \<Rightarrow> (split_key list \<times> 'l \<times> 'v) list" where
  "map_items label named n kvs = map (\<lambda>i.
     ([SplitSpecific (fst (kvs ! i)), SplitSequential (n + position_in named kvs i), SplitRemaining],
      (label (fst (kvs ! i)), snd (kvs ! i)))) [0..<length kvs]"

lemma map_items_Cons:
  "map_items label named n ((k, v) # kvs) =
     ([SplitSpecific k, SplitSequential n, SplitRemaining], (label k, v))
     # map_items label named (if named k then n else Suc n) kvs"
  by (simp add: map_items_def map_upt_Suc position_in_def del: upt_Suc)

lemma split_map_distribute:
  "enough_outputs d \<Longrightarrow> named = (\<lambda>k. hm_get (sdp_connections d) (SplitSpecific k) \<noteq> None)
     \<Longrightarrow> split_map label n kvs d = distribute (map_items label named n kvs) d"
proof (induction label n kvs d rule: split_map.induct)
  case (2 label n k v kvs d)
  show ?case
  proof (cases "hm_get (sdp_connections d) (SplitSpecific k)")
    case None
    then have "put_item [SplitSpecific k, SplitSequential n, SplitRemaining] (label k, v) d
        = put_item [SplitSequential n, SplitRemaining] (label k, v) d"
      by (simp add: put_item_def)
    then show ?thesis
      using 2 None by (simp add: outputs_for_enough map_items_Cons distribute_def push_or_remaining)
  next
    case (Some i)
    then have "put_item [SplitSpecific k, SplitSequential n, SplitRemaining] (label k, v) d = push_item i (label k, v) d"
      by (simp add: put_item_def)
    then show ?thesis
      using 2 Some by (simp add: outputs_for_enough map_items_Cons distribute_def)
  qed
qed (simp add: map_items_def distribute_def)

text \<open>The items of a JSON value with their keys, where \<open>named\<close> are the connected names.\<close>

fun json_items :: "(name \<Rightarrow> bool) \<Rightarrow> 'v json_value \<Rightarrow> (split_key list \<times> json_position \<times> 'v) list" where
  "json_items named (JsonArray values) = list_items ArrayElement 0 values"
| "json_items named (JsonObject entries) = map_items ObjectField named 0 entries"
| "json_items named (JsonSingular v) = [([SplitSequential 0, SplitRemaining], (Singular, v))]"

lemma split_json_distribute:
  assumes "enough_outputs d"
  shows "split_json value d = distribute (json_items (\<lambda>k. hm_get (sdp_connections d) (SplitSpecific k) \<noteq> None) value) d"
  using assms by (cases "value")
    (simp_all add: split_list_distribute split_map_distribute push_or_remaining distribute_def)

lemma distribute_outputs:
  assumes "enough_outputs d" and "i < length (sdp_outputs d)"
  shows "sdp_outputs (distribute items d) ! i = sdp_outputs d ! i
    @ map snd (filter (\<lambda>p. first_connected (sdp_connections d) (fst p) = Some i) items)
    \<and> length (sdp_outputs (distribute items d)) = length (sdp_outputs d)"
  using assms
proof (induction items arbitrary: d)
  case (Cons p items)
  obtain ks item where p: "p = (ks, item)" by fastforce
  have "sdp_outputs (put_item ks item d) ! i = sdp_outputs d ! i
      @ (if first_connected (sdp_connections d) ks = Some i then [item] else [])"
    using Cons.prems(2) by (auto simp: put_item_def push_item_def nth_list_update split: option.split)
  then show ?case
    using Cons.IH [of "put_item ks item d"] Cons.prems by (simp add: distribute_def p)
qed (simp add: distribute_def)

subsection \<open>One execution\<close>

text \<open>The component of a split whose outputs are connected with \<open>keys\<close>, while it does not run.\<close>

definition split_ready :: "split_key list \<Rightarrow> 'o operate_split \<Rightarrow> bool" where
  "split_ready keys self \<longleftrightarrow>
     osp_outputs_cache self = Some (replicate (length keys) [])
     \<and> osp_index_to_key self = Some (map split_key_identifier keys)
     \<and> (\<forall>k i. hm_get (osp_connections self) k = Some i \<longleftrightarrow> i < length keys \<and> keys ! i = k)"

text \<open>The key under which an item is sent: the first of its keys that an output has.\<close>

definition claim_key :: "split_key list \<Rightarrow> split_key list \<Rightarrow> split_key option" where
  "claim_key keys ks = List.find (\<lambda>k. k \<in> set keys) ks"

definition claimed :: "split_key list \<Rightarrow> (split_key list \<times> 'o) list \<Rightarrow> split_key \<Rightarrow> 'o list" where
  "claimed keys items key = map snd (filter (\<lambda>p. claim_key keys (fst p) = Some key) items)"

lemma ready_connected:
  assumes "split_ready keys self"
  shows "hm_get (osp_connections self) k \<noteq> None \<longleftrightarrow> k \<in> set keys"
proof -
  have "(\<exists>i. hm_get (osp_connections self) k = Some i) \<longleftrightarrow> k \<in> set keys"
    using assms by (auto simp: split_ready_def in_set_conv_nth)
  then show ?thesis by auto
qed

lemma ready_first_connected:
  assumes "split_ready keys self" and "i < length keys"
  shows "first_connected (osp_connections self) ks = Some i \<longleftrightarrow> claim_key keys ks = Some (keys ! i)"
proof (induction ks)
  case (Cons k ks)
  show ?case
  proof (cases "hm_get (osp_connections self) k")
    case None
    then show ?thesis using Cons ready_connected [OF assms(1), of k] by (auto simp: claim_key_def)
  next
    case (Some j)
    then have "k \<in> set keys" using ready_connected [OF assms(1), of k] by auto
    moreover have "j = i \<longleftrightarrow> k = keys ! i"
      using Some assms by (metis option.inject split_ready_def)
    ultimately show ?thesis using Some by (simp add: claim_key_def)
  qed
qed (simp add: claim_key_def)

lemma ready_outputs:
  assumes "split_ready keys self"
  shows "sdp_outputs (distribute items \<lparr>sdp_connections = osp_connections self,
      sdp_outputs = replicate (length keys) []\<rparr>) = map (claimed keys items) keys"
proof -
  let ?d = "\<lparr>sdp_connections = osp_connections self, sdp_outputs = replicate (length keys) []\<rparr>"
  have enough: "enough_outputs ?d" using assms by (simp add: enough_outputs_def split_ready_def)
  have len: "length (sdp_outputs (distribute items ?d)) = length keys"
  proof (cases keys)
    case Nil
    have "first_connected (osp_connections self) ks = None" for ks
      using ready_connected [OF assms] Nil by (induction ks) auto
    then have "distribute items ?d = ?d"
      by (induction items) (auto simp: distribute_def put_item_def)
    then show ?thesis using Nil by simp
  next
    case (Cons k ks)
    then show ?thesis using distribute_outputs [OF enough, of 0 items] by simp
  qed
  show ?thesis
  proof (rule nth_equalityI)
    fix i assume "i < length (sdp_outputs (distribute items ?d))"
    then have "i < length keys" using len by simp
    then show "sdp_outputs (distribute items ?d) ! i = map (claimed keys items) keys ! i"
      using distribute_outputs [OF enough, of i items] ready_first_connected [OF assms, of i]
      by (simp add: claimed_def)
  qed (simp add: len)
qed

lemma send_all_append:
  "send_all session (ps @ qs) = ebind (send_all session ps) (\<lambda>_. send_all session qs)"
proof
  fix w
  show "send_all session (ps @ qs) w = ebind (send_all session ps) (\<lambda>_. send_all session qs) w"
  proof (induction ps arbitrary: w)
    case (Cons p ps)
    obtain w' r where s: "(case p of (target, data) \<Rightarrow> send session target data) w = (w', r)" by fastforce
    then show ?case using Cons.IH [of w'] by (cases r) (simp_all add: send_all_def ebind_def)
  qed (simp add: send_all_def ebind_def)
qed

text \<open>What the outputs send: the claimed items of each key, in the order of the outputs.\<close>

definition deliveries ::
  "('o \<Rightarrow> 't) \<Rightarrow> split_key list \<Rightarrow> entity list \<Rightarrow> (split_key list \<times> 'o) list \<Rightarrow> (entity \<times> 't) list" where
  "deliveries message keys targets items =
     concat (map (\<lambda>(key, target). map (\<lambda>o'. (target, message o')) (claimed keys items key)) (zip keys targets))"

lemma send_outputs_send_all:
  "list_all (\<lambda>(i, _). i < length index_to_key) sending \<Longrightarrow>
     send_outputs message session index_to_key sending =
       send_all session (concat (map (\<lambda>(i, items, target). map (\<lambda>o'. (target, message o')) items) sending))"
proof (induction sending)
  case Nil
  show ?case by (auto simp: send_outputs_def send_all_def)
next
  case (Cons p sending)
  obtain i items target where p: "p = (i, items, target)" by (cases p) auto
  have IH: "list_all (\<lambda>(i, _). i < length index_to_key) sending" using Cons.prems by simp
  note IH' = Cons.IH [OF IH, unfolded send_outputs_def]
  show ?case using Cons.prems by (auto simp: send_outputs_def p send_all_append IH')
qed

lemma send_outputs_ready:
  assumes "length targets = length keys"
  shows "send_outputs message session (map split_key_identifier keys) (enumerate 0 (zip (map (claimed keys items) keys) targets))
    = send_all session (deliveries message keys targets items)"
proof -
  let ?sending = "enumerate 0 (zip (map (claimed keys items) keys) targets)"
  have "map (\<lambda>(i, items, target). map (\<lambda>o'. (target, message o')) items) ?sending
      = map (\<lambda>(key, target). map (\<lambda>o'. (target, message o')) (claimed keys items key)) (zip keys targets)"
    using assms by (intro nth_equalityI) (simp_all add: nth_enumerate_eq)
  moreover have "list_all (\<lambda>(i, _). i < length (map split_key_identifier keys)) ?sending"
    using assms by (auto simp: list_all_iff in_set_enumerate_eq)
  ultimately show ?thesis by (simp add: send_outputs_send_all deliveries_def)
qed

lemma put_split_parts [simp]:
  "fl_messages (put_split source self w) = fl_messages w" "fl_roster (put_split source self w) = fl_roster w"
  "fl_disposals (put_split source self w) = fl_disposals w" "fl_cancels (put_split source self w) = fl_cancels w"
  "spw_targets (put_split source self w) = spw_targets w"
  "spw_split (put_split source self w) = (spw_split w)(source := Some self)"
  by (simp_all add: put_split_def)

lemma put_split_flows [simp]:
  "flows session targets (put_split source self w) \<longleftrightarrow> flows session targets w"
  "waiting_at x (put_split source self w) = waiting_at x w"
  by (simp_all add: flows_def waiting_at_def)

lemma emit_disposal_split [simp]: "spw_split (emit_disposal req d w) = spw_split w"
  by (simp add: emit_disposal_def notify_trim_def)

lemma missed_keys:
  assumes "length targets = length keys"
  shows "map (missing_key (map split_key_identifier keys)) (map fst (filter (\<lambda>(_, items, _). items = [])
      (enumerate 0 (zip (map f keys) targets)))) = map split_key_identifier (filter (\<lambda>k. f k = []) keys)"
proof -
  let ?missed = "filter (\<lambda>i. f (keys ! i) = []) [0..<length keys]"
  have "enumerate 0 (zip (map f keys) targets) = map (\<lambda>i. (i, f (keys ! i), targets ! i)) [0..<length keys]"
    using assms by (intro nth_equalityI) (simp_all add: nth_enumerate_eq)
  then have "map fst (filter (\<lambda>(_, items, _). items = []) (enumerate 0 (zip (map f keys) targets))) = ?missed"
    by (simp add: filter_map o_def)
  moreover have "filter (\<lambda>k. f k = []) keys = map ((!) keys) ?missed"
    using filter_map [of "\<lambda>k. f k = []" "(!) keys" "[0..<length keys]"] by (simp add: map_nth o_def)
  moreover have "map (missing_key (map split_key_identifier keys)) ?missed = map split_key_identifier (map ((!) keys) ?missed)"
    by (auto simp: missing_key_def)
  ultimately show ?thesis by simp
qed

definition missed :: "split_key list \<Rightarrow> (split_key list \<times> 'o) list \<Rightarrow> split_key list" where
  "missed keys items = filter (\<lambda>k. claimed keys items k = []) keys"

text \<open>An execution of a split that distributes the items \<open>items\<close> of its message.\<close>

lemma split_execute_ready:
  assumes "split_ready keys self" and "length targets = length keys"
    and "spw_targets w source = Some targets" and "spw_split w source = Some self"
    and "waiting_at source w = (session, data) # rest" and "flows session targets w"
    and "\<And>d. enough_outputs d \<Longrightarrow> sdp_connections d = osp_connections self \<Longrightarrow> split data d = distribute items d"
  shows "\<exists>w' d. split_execute message split source w = (w', Inr ())
    \<and> (\<forall>x. waiting_at x w' = (if x = source then rest else waiting_at x w)
          @ sent_to session x (deliveries message keys targets items))
    \<and> spw_split w' = spw_split w \<and> fl_cancels w' = fl_cancels w
    \<and> fl_disposals w' = fl_disposals w @ (if missed keys items = [] then [] else [d])
    \<and> di_session d = session \<and> di_disposed d = source
    \<and> di_disposal d = IncompleteSplit source (map split_key_identifier (missed keys items))"
proof -
  obtain m input where r: "receive source w = (w\<lparr>fl_messages := m\<rparr>, Inr input)" "in_session input = session" "in_data input = data"
    "flows session targets (w\<lparr>fl_messages := m\<rparr>)"
    "\<And>x. waiting_at x (w\<lparr>fl_messages := m\<rparr>) = (if x = source then rest else waiting_at x w)"
    using receive_flows [OF assms(5,6)] by blast
  let ?keys = "map split_key_identifier keys"
  let ?w = "put_split source (self\<lparr>osp_outputs_cache := None, osp_index_to_key := None\<rparr>)
      (put_split source (self\<lparr>osp_outputs_cache := None\<rparr>) (w\<lparr>fl_messages := m\<rparr>))"
  let ?sending = "enumerate 0 (zip (map (claimed keys items) keys) targets)"
  have targets: "fst ` set (deliveries message keys targets items) \<subseteq> set targets"
    by (auto simp: deliveries_def dest: set_zip_rightD)
  have "flows session targets ?w" using r(4) by simp
  then obtain m' roster where s: "send_all session (deliveries message keys targets items) ?w =
      (?w\<lparr>fl_messages := m', fl_roster := roster\<rparr>, Inr ())"
    "\<And>x. pending x m' = waiting_at x ?w @ sent_to session x (deliveries message keys targets items)"
    using send_all_flows [OF _ targets] by blast
  have outputs: "sdp_outputs (split data \<lparr>sdp_connections = osp_connections self,
      sdp_outputs = replicate (length keys) []\<rparr>) = map (claimed keys items) keys"
    using assms(1) by (subst assms(7)) (simp_all add: enough_outputs_def split_ready_def ready_outputs [OF assms(1)])
  have ready: "osp_outputs_cache self = Some (replicate (length keys) [])" "osp_index_to_key self = Some ?keys"
    using assms(1) by (simp_all add: split_ready_def)
  have restored: "self\<lparr>osp_outputs_cache := Some (map (\<lambda>_. []) ?sending @ drop (length targets) (map (claimed keys items) keys)),
      osp_index_to_key := Some ?keys\<rparr> = self"
    using ready assms(2) by (cases self) (simp add: map_replicate_const)
  let ?d = "disposal_of (request_of source input) (IncompleteSplit source (map split_key_identifier (missed keys items)))"
  let ?sent = "?w\<lparr>fl_messages := m', fl_roster := roster\<rparr>"
  let ?reported = "if missed keys items = [] then ?sent else emit_disposal (request_of source input)
      (IncompleteSplit source (map split_key_identifier (missed keys items))) ?sent"
  have missed_ids: "map (missing_key ?keys) (map fst (filter (\<lambda>(_, items, _). items = []) ?sending))
      = map split_key_identifier (missed keys items)"
    unfolding missed_def by (rule missed_keys [OF assms(2)])
  then have none: "filter (\<lambda>(_, items, _). items = []) ?sending = [] \<longleftrightarrow> missed keys items = []"
    by (metis map_is_Nil_conv)
  have "split_execute message split source w = (put_split source self ?reported, Inr ())"
    using r(1-3) s(1) assms(3,4) ready outputs missed_ids none restored
    by (simp add: send_outputs_ready [OF assms(2)] split_execute_def broken_unless_def or_error_def ok_or_def ebind_def modify_def return_def Let_def)
  moreover have "spw_split (put_split source self ?reported) = spw_split w"
    using assms(4) by (auto simp: put_split_def)
  moreover have "waiting_at x (put_split source self ?reported) = (if x = source then rest else waiting_at x w)
      @ sent_to session x (deliveries message keys targets items)" for x
    using s(2) [of x] r(5) [of x] by (auto simp: waiting_at_def)
  ultimately show ?thesis
    using r(2) by (intro exI [of _ "put_split source self ?reported"] exI [of _ ?d]) simp
qed

subsection \<open>Connecting the outputs\<close>

lemma connect_to_split_ready:
  assumes "spw_split w source = Some self" and "split_ready keys self"
    and "spw_targets w source = Some targets" and "length targets = length keys"
    and "target \<in> set (spw_entities w)" and "key \<notin> set keys"
  shows "\<exists>w' self'. connect_to_split source target key w = (w', Inr ())
    \<and> spw_split w' source = Some self' \<and> split_ready (keys @ [key]) self'
    \<and> spw_targets w' source = Some (targets @ [target])
    \<and> spw_entities w' = spw_entities w \<and> fl_messages w' = fl_messages w
    \<and> spw_double_connected w' = spw_double_connected w"
proof -
  have unused: "hm_get (osp_connections self) key = None"
    using ready_connected [OF assms(2), of key] assms(6) by auto
  have parts: "osp_outputs_cache self = Some (replicate (length keys) [])"
    "osp_index_to_key self = Some (map split_key_identifier keys)"
    using assms(2) by (simp_all add: split_ready_def)
  let ?self = "\<lparr>osp_connections = hm_insert key (length keys) (osp_connections self),
      osp_index_to_key = Some (map split_key_identifier (keys @ [key])),
      osp_outputs_cache = Some (replicate (Suc (length keys)) [])\<rparr>"
  have "resize (Suc (length keys)) (replicate (length keys) []) = replicate (Suc (length keys)) []"
    by (simp add: resize_def replicate_append_same)
  then have self: "self\<lparr>osp_connections := hm_insert key (length keys) (osp_connections self),
      osp_outputs_cache := Some (resize (Suc (length keys)) (replicate (length keys) [])),
      osp_index_to_key := Some (map split_key_identifier keys @ [split_key_identifier key])\<rparr> = ?self"
    by (cases self) simp
  have "split_ready (keys @ [key]) ?self"
    using assms(2,6) by (auto simp: split_ready_def nth_append hm_get_insert)
  then show ?thesis
    using assms(1,3,4,5) parts self unused
    by (simp add: connect_to_split_def broken_unless_def or_error_def ok_or_def ebind_def modify_def return_def
        put_split_def Let_def)
qed

text \<open>A split whose outputs are connected with different keys is ready, as the outputs made by
  \<open>SplitBuilding\<close> are: it refuses a key that is in use.\<close>

theorem connected_split_is_ready:
  assumes "distinct (map fst outputs)" and "snd ` set outputs \<subseteq> set (spw_entities w)"
  shows "\<exists>w' self. each (\<lambda>(key, target). connect_to_split source target key) outputs (split_setup source w) = (w', Inr ())
    \<and> spw_split w' source = Some self \<and> split_ready (map fst outputs) self
    \<and> spw_targets w' source = Some (map snd outputs) \<and> spw_double_connected w' = spw_double_connected w"
proof -
  have "\<exists>w' self. each (\<lambda>(key, target). connect_to_split source target key) outputs v = (w', Inr ())
      \<and> spw_split w' source = Some self \<and> split_ready (keys @ map fst outputs) self
      \<and> spw_targets w' source = Some (targets @ map snd outputs) \<and> spw_double_connected w' = spw_double_connected v"
    if "spw_split v source = Some self" "split_ready keys self" "spw_targets v source = Some targets"
      "length targets = length keys" "distinct (keys @ map fst outputs)" "snd ` set outputs \<subseteq> set (spw_entities v)"
    for v self keys targets
    using that
  proof (induction outputs arbitrary: v self keys targets)
    case (Cons p outputs)
    obtain key target where p: "p = (key, target)" by fastforce
    obtain v' self' where step: "connect_to_split source target key v = (v', Inr ())"
      "spw_split v' source = Some self'" "split_ready (keys @ [key]) self'" "spw_targets v' source = Some (targets @ [target])"
      "spw_entities v' = spw_entities v" "spw_double_connected v' = spw_double_connected v"
      using connect_to_split_ready [OF Cons.prems(1-4), of target key] Cons.prems(5,6) p by auto
    show ?case
      using Cons.IH [OF step(2,3,4)] Cons.prems(4-6) step p by (simp add: ebind_def)
  qed auto
  from this [of "split_setup source w" _ "[]" "[]"] show ?thesis
    using assms by (simp add: split_setup_def split_ready_def)
qed

text \<open>C30: a split of map-like messages, such as JSON values, can be built whatever its schema combines of
  \<open>keyed\<close>, \<open>sequential\<close> and \<open>remaining\<close>, provided that \<open>keyed\<close> is a map (names do not repeat). It has one
  output per target of the schema, in this order, each with an operation behind it that forwards the
  values. Once the spawned entities exist, the commands that connect the outputs succeed, no output
  replaces another, and the split is ready to send what each name, each position and the rest selects.\<close>

theorem built_split_is_ready:
  assumes "hm_wf (split_keyed split_op)"
  defines "keys \<equiv> map SplitSpecific (hm_keys (split_keyed split_op)) @ map SplitSequential [0..<length (split_sequential split_op)]
      @ (if split_remaining split_op = None then [] else [SplitRemaining])"
    and "operations \<equiv> map snd (split_keyed split_op) @ split_sequential split_op
      @ (case split_remaining split_op of Some target \<Rightarrow> [target] | None \<Rightarrow> [])"
  shows "\<exists>s' d cs. create_split map_key_space t item split_op sc s = (s', Inr d) \<and> cmd_queue s' = cmd_queue s @ cs
    \<and> map fst (dsp_outputs d) = operations
    \<and> list_all2 (\<lambda>(_, e) (_, out). AddOperation (Some (sc_scope sc)) e (CreatedMap (dyo_target out)) \<in> set cs)
        (connections_of (dis_source (dsp_input d)) cs) (dsp_outputs d)
    \<and> (\<forall>w :: ('t, 'c, 'o) split_world. {cmd_next s..<cmd_next s'} \<subseteq> set (spw_entities w) \<longrightarrow>
        (\<exists>w' self. each (\<lambda>(key, target). connect_to_split (dis_source (dsp_input d)) target key)
              (connections_of (dis_source (dsp_input d)) cs) (split_setup (dis_source (dsp_input d)) w) = (w', Inr ())
          \<and> spw_split w' (dis_source (dsp_input d)) = Some self \<and> split_ready keys self
          \<and> spw_targets w' (dis_source (dsp_input d)) = Some (map snd (connections_of (dis_source (dsp_input d)) cs))
          \<and> spw_double_connected w' = spw_double_connected w))"
proof -
  let ?source = "cmd_next s"
  let ?keys = "schema_split_keys map_key_space split_op"
  let ?s = "queue_command (AddOperation (Some (sc_scope sc)) ?source CreatedSplit) (fst (spawn s))"
  let ?self = "\<lparr>spo_scope = sc_scope sc, spo_source = ?source, spo_used = []\<rparr>"
  have "\<forall>key \<in> set (map fst ?keys). ksp_validate map_key_space key" by (simp add: map_key_space_def)
  from split_chains_commands [OF this map_keys_distinct [OF assms(1)], of ?self item sc ?s] obtain s' outputs cs where
    built: "split_chains map_key_space item sc ?keys ?self ?s = (s', Inr outputs)" "cmd_queue s' = cmd_queue ?s @ cs"
      "cmd_next ?s \<le> cmd_next s'" "map fst outputs = map snd ?keys"
      "map fst (connections_of ?source cs) = map fst ?keys"
      "snd ` set (connections_of ?source cs) \<subseteq> {cmd_next ?s..<cmd_next s'}"
      "list_all2 (\<lambda>(_, e) (_, out). AddOperation (Some (sc_scope sc)) e (CreatedMap (dyo_target out)) \<in> set cs)
        (connections_of ?source cs) outputs"
    by auto
  let ?d = "\<lparr>dsp_input = \<lparr>dis_scope = sc_scope sc, dis_source = ?source, dis_type = t\<rparr>, dsp_outputs = outputs\<rparr>"
  let ?cs = "[Spawn ?source, AddOperation (Some (sc_scope sc)) ?source CreatedSplit] @ cs"
  have s: "cmd_next ?s = Suc ?source" "cmd_queue ?s = cmd_queue s @ [Spawn ?source, AddOperation (Some (sc_scope sc)) ?source CreatedSplit]"
    by (simp_all add: queue_command_def spawn_def)
  have create: "create_split map_key_space t item split_op sc s = (s', Inr ?d)"
    using built(1) by (simp add: create_split_def ebind_def infallible_def modify_def return_def spawn_def queue_command_def)
  have connections: "connections_of ?source ?cs = connections_of ?source cs" by simp
  have keys: "map fst (connections_of ?source cs) = keys" using built(5) by (simp add: keys_def schema_split_keys_map)
  have connected: "\<exists>w' self. each (\<lambda>(key, target). connect_to_split ?source target key) (connections_of ?source cs) (split_setup ?source w) = (w', Inr ())
      \<and> spw_split w' ?source = Some self \<and> split_ready keys self
      \<and> spw_targets w' ?source = Some (map snd (connections_of ?source cs)) \<and> spw_double_connected w' = spw_double_connected w"
    if "{cmd_next s..<cmd_next s'} \<subseteq> set (spw_entities w)" for w :: "('t, 'c, 'o) split_world"
  proof -
    have "distinct (map fst (connections_of ?source cs))" unfolding built(5) by (rule map_keys_distinct [OF assms(1)])
    moreover have "snd ` set (connections_of ?source cs) \<subseteq> set (spw_entities w)" using built(6) that s(1) by fastforce
    ultimately show ?thesis using connected_split_is_ready [of "connections_of ?source cs" w ?source] unfolding keys by blast
  qed
  have outputs: "map fst (dsp_outputs ?d) = operations" using built(4) by (simp add: operations_def schema_split_keys_map)
  have maps: "list_all2 (\<lambda>(_, e) (_, out). AddOperation (Some (sc_scope sc)) e (CreatedMap (dyo_target out)) \<in> set ?cs)
      (connections_of ?source ?cs) (dsp_outputs ?d)"
    using built(7) unfolding connections by (auto elim: list_all2_mono)
  show ?thesis
    by (rule exI [of _ s'], rule exI [of _ ?d], rule exI [of _ ?cs])
      (use create built(2) s(2) outputs maps connected connections in simp)
qed

subsection \<open>Splitting JSON values\<close>

definition demo_outputs :: "(split_key \<times> entity) list" where
  "demo_outputs = [(SplitSpecific ''a'', 4), (SplitSequential 0, 6)]"

definition demo_split_base :: "(nat json_value, nat, json_position \<times> nat) split_world" where
  "demo_split_base =
     \<lparr>fl_messages = \<lparr>mw_inputs = (\<lambda>e. if e \<in> {4, 6} then Some input_storage_new else None),
        mw_unused_target = (\<lambda>_. False), mw_detached = (\<lambda>_. None), mw_status = (\<lambda>s. if s = 7 then Some Active else None),
        mw_progress = (\<lambda>_. None), mw_cancelled = [], mw_mismatches = []\<rparr>,
      fl_roster = empty_roster, fl_disposals = [], fl_cancels = [], spw_entities = [3, 4, 6],
      spw_targets = (\<lambda>_. None), spw_single_input = (\<lambda>_. None), spw_split = (\<lambda>_. None), spw_double_connected = []\<rparr>"

definition demo_split_schema :: split_schema where
  "demo_split_schema =
     \<lparr>split_sequential = [NextName ''first'', NextName ''second''], split_keyed = [(''0'', NextName ''zero'')],
      split_remaining = Some (NextName ''rest''), split_trace = \<lparr>ts_display_text = None, ts_trace = None, ts_extensions = None\<rparr>\<rparr>"

lemma built_split_is_ready_witness:
  "\<exists>s' d w' self. create_split map_key_space ''Value'' ''Value'' demo_split_schema \<lparr>sc_scope = 90, sc_finish_scope_cleanup = 91\<rparr>
        \<lparr>cmd_next = 3, cmd_queue = []\<rparr> = (s', Inr d)
    \<and> map fst (dsp_outputs d) = [NextName ''zero'', NextName ''first'', NextName ''second'', NextName ''rest'']
    \<and> spw_split (w' :: (nat json_value, nat, json_position \<times> nat) split_world) (dis_source (dsp_input d)) = Some self
    \<and> split_ready [SplitSpecific ''0'', SplitSequential 0, SplitSequential 1, SplitRemaining] self"
proof -
  let ?sc = "\<lparr>sc_scope = 90, sc_finish_scope_cleanup = 91\<rparr>" and ?s = "\<lparr>cmd_next = 3, cmd_queue = []\<rparr>"
  have "hm_wf (split_keyed demo_split_schema)" by (simp add: demo_split_schema_def hm_wf_def)
  from built_split_is_ready [OF this, of "''Value''" "''Value''" ?sc ?s, where 't = "nat json_value" and 'c = nat and 'o = "json_position \<times> nat"]
  obtain s' d cs where built: "create_split map_key_space ''Value'' ''Value'' demo_split_schema ?sc ?s = (s', Inr d)"
    "map fst (dsp_outputs d) = [NextName ''zero'', NextName ''first'', NextName ''second'', NextName ''rest'']"
    "\<forall>w :: (nat json_value, nat, json_position \<times> nat) split_world. {cmd_next ?s..<cmd_next s'} \<subseteq> set (spw_entities w) \<longrightarrow>
        (\<exists>w' self. each (\<lambda>(key, target). connect_to_split (dis_source (dsp_input d)) target key)
              (connections_of (dis_source (dsp_input d)) cs) (split_setup (dis_source (dsp_input d)) w) = (w', Inr ())
          \<and> spw_split w' (dis_source (dsp_input d)) = Some self
          \<and> split_ready [SplitSpecific ''0'', SplitSequential 0, SplitSequential 1, SplitRemaining] self
          \<and> spw_targets w' (dis_source (dsp_input d)) = Some (map snd (connections_of (dis_source (dsp_input d)) cs))
          \<and> spw_double_connected w' = spw_double_connected w)"
    by (auto simp: demo_split_schema_def hm_keys_def upt_rec)
  from spec [OF built(3), of "demo_split_base\<lparr>spw_entities := [3..<cmd_next s']\<rparr>"] obtain w' self where
    "spw_split (w' :: (nat json_value, nat, json_position \<times> nat) split_world) (dis_source (dsp_input d)) = Some self"
    "split_ready [SplitSpecific ''0'', SplitSequential 0, SplitSequential 1, SplitRemaining] self"
    by auto
  with built(1,2) show ?thesis
    by (intro exI [of _ s'] exI [of _ d] exI [of _ w'] exI [of _ self] conjI)
qed

text \<open>A split at entity \<open>3\<close> with an output for the name \<open>a\<close> and one for the first position, and the
  messages \<open>values\<close> that wait for it.\<close>

definition demo_split :: "nat json_value list \<Rightarrow> (nat json_value, nat, json_position \<times> nat) split_world" where
  "demo_split values =
     (let w = fst (each (\<lambda>(key, target). connect_to_split 3 target key) demo_outputs (split_setup 3 demo_split_base))
      in w\<lparr>fl_messages := (fl_messages w)\<lparr>mw_inputs := (mw_inputs (fl_messages w))(3 :=
             Some \<lparr>ins_reverse_queue = rev (map (\<lambda>v. \<lparr>in_session = 7, in_seq = 0, in_data = v\<rparr>) values),
                   ins_sequence = 1\<rparr>)\<rparr>\<rparr>)"

definition demo_message :: "json_position \<times> nat \<Rightarrow> nat json_value" where
  "demo_message item = JsonSingular (snd item)"

lemma demo_split_ready:
  "\<exists>self. spw_split (demo_split values) 3 = Some self \<and> split_ready (map fst demo_outputs) self
    \<and> spw_targets (demo_split values) 3 = Some (map snd demo_outputs)"
proof -
  have "distinct (map fst demo_outputs)" "snd ` set demo_outputs \<subseteq> set (spw_entities demo_split_base)"
    by (simp_all add: demo_outputs_def demo_split_base_def)
  from connected_split_is_ready [OF this, of 3] show ?thesis
    by (auto simp: demo_split_def Let_def)
qed

lemma connect_to_split_messages: "fl_messages (fst (connect_to_split source target key w)) = fl_messages w"
  by (simp add: connect_to_split_def broken_unless_def or_error_def ok_or_def ebind_def modify_def return_def Let_def
      split: option.split if_splits)

lemma demo_split_messages:
  "waiting_at 3 (demo_split values) = map (Pair 7) values"
  "waiting_at 4 (demo_split values) = []" "waiting_at 6 (demo_split values) = []"
  "flows 7 [4, 6] (demo_split values)"
proof -
  let ?w = "fst (each (\<lambda>(key, target). connect_to_split 3 target key) demo_outputs (split_setup 3 demo_split_base))"
  have "keeps (\<lambda>w. fl_messages w = fl_messages (split_setup 3 demo_split_base))
      (each (\<lambda>(key, target). connect_to_split 3 target key) demo_outputs)"
    by (intro keeps_each keepsI) (auto simp: connect_to_split_messages)
  then have "fl_messages ?w = fl_messages (split_setup 3 demo_split_base)"
    by (rule keepsD) simp
  then have "fl_messages (demo_split values) = (fl_messages demo_split_base)\<lparr>mw_inputs :=
      (mw_inputs (fl_messages demo_split_base))(3 :=
        Some \<lparr>ins_reverse_queue = rev (map (\<lambda>v. \<lparr>in_session = 7, in_seq = 0, in_data = v\<rparr>) values), ins_sequence = 1\<rparr>)\<rparr>"
    by (simp add: demo_split_def Let_def split_setup_def)
  then show "waiting_at 3 (demo_split values) = map (Pair 7) values"
    "waiting_at 4 (demo_split values) = []" "waiting_at 6 (demo_split values) = []" "flows 7 [4, 6] (demo_split values)"
    by (auto simp: waiting_at_def pending_def demo_split_base_def input_storage_new_def flows_def deliverable_def rev_map o_def)
qed

text \<open>C29: a split of a JSON value sends every element to exactly one output or drops it. An array element
  goes to the output for its position; an entry of an object to the output for its name, else to that
  for its position among the entries whose names have no output; what is left goes to the output for
  the remaining elements if there is one. Each output gets its elements in order, and the outputs that
  got none are reported in one disposal. The split is ready for its next message.\<close>

theorem split_json_is_exact:
  fixes content :: "'t \<Rightarrow> 'v json_value"
  assumes "split_ready keys self" and "length targets = length keys"
    and "spw_targets w source = Some targets" and "spw_split w source = Some self"
    and "waiting_at source w = (session, data) # rest" and "flows session targets w"
  shows "\<exists>w' d. let items = json_items (\<lambda>k. SplitSpecific k \<in> set keys) (content data) in
      split_execute message (split_json \<circ> content) source w = (w', Inr ())
    \<and> (\<forall>x. waiting_at x w' = (if x = source then rest else waiting_at x w)
          @ sent_to session x (deliveries message keys targets items))
    \<and> spw_split w' = spw_split w \<and> fl_cancels w' = fl_cancels w
    \<and> fl_disposals w' = fl_disposals w @ (if missed keys items = [] then [] else [d])
    \<and> di_session d = session \<and> di_disposed d = source
    \<and> di_disposal d = IncompleteSplit source (map split_key_identifier (missed keys items))"
  unfolding Let_def
proof (rule split_execute_ready [OF assms])
  fix d :: "(json_position \<times> 'v) split_dispatcher"
  assume "enough_outputs d" and "sdp_connections d = osp_connections self"
  then show "(split_json \<circ> content) data d = distribute (json_items (\<lambda>k. SplitSpecific k \<in> set keys) (content data)) d"
    using ready_connected [OF assms(1)] by (simp add: split_json_distribute)
qed

lemma split_json_is_exact_witness:
  "\<exists>w'. split_execute demo_message (split_json \<circ> id) 3 (demo_split [JsonObject [(''b'', 1), (''a'', 2)]]) = (w', Inr ())
    \<and> waiting_at 4 w' = [(7, JsonSingular 2)] \<and> waiting_at 6 w' = [(7, JsonSingular (1::nat))]
    \<and> fl_disposals w' = fl_disposals (demo_split [JsonObject [(''b'', 1), (''a'', 2)]])"
proof -
  let ?w = "demo_split [JsonObject [(''b'', 1), (''a'', 2)]]"
  let ?items = "json_items (\<lambda>k. SplitSpecific k \<in> set (map fst demo_outputs)) (JsonObject [(''b'', 1), (''a'', 2::nat)])"
  obtain self where self: "spw_split ?w 3 = Some self" "split_ready (map fst demo_outputs) self"
    "spw_targets ?w 3 = Some (map snd demo_outputs)"
    using demo_split_ready by blast
  have "waiting_at 3 ?w = (7, JsonObject [(''b'', 1), (''a'', 2)]) # []" "flows 7 (map snd demo_outputs) ?w"
    using demo_split_messages by (simp_all add: demo_outputs_def)
  from split_json_is_exact [OF self(2) _ self(3,1) this, where content = id and message = demo_message]
  obtain w' where w': "split_execute demo_message (split_json \<circ> id) 3 ?w = (w', Inr ())"
    "\<And>x. waiting_at x w' = (if x = 3 then [] else waiting_at x ?w)
        @ sent_to 7 x (deliveries demo_message (map fst demo_outputs) (map snd demo_outputs) ?items)"
    "missed (map fst demo_outputs) ?items = [] \<Longrightarrow> fl_disposals w' = fl_disposals ?w"
    by (auto simp: Let_def)
  have "missed (map fst demo_outputs) ?items = []" by code_simp
  moreover have "sent_to 7 4 (deliveries demo_message (map fst demo_outputs) (map snd demo_outputs) ?items) = [(7, JsonSingular 2)]"
    "sent_to 7 6 (deliveries demo_message (map fst demo_outputs) (map snd demo_outputs) ?items) = [(7, JsonSingular 1)]"
    by code_simp+
  ultimately show ?thesis using w' demo_split_messages by auto
qed

subsection \<open>Failures\<close>

text \<open>An execution that fails while it sends has taken \<open>index_to_key\<close> out of the component. From then on
  every execution takes its message and fails.\<close>

theorem split_without_keys_fails:
  assumes "spw_split w source = Some self" and "osp_index_to_key self = None"
    and "waiting_at source w = (session, data) # rest"
  shows "\<exists>w' self'. split_execute message split source w = (w', Inl (Fault Broken))
    \<and> waiting_at source w' = rest
    \<and> spw_split w' source = Some self' \<and> osp_index_to_key self' = None"
proof -
  obtain m input where r: "receive source w = (w\<lparr>fl_messages := m\<rparr>, Inr input)"
    "\<And>x. pending x m = (if x = source then rest else waiting_at x w)"
    using receive_oldest [OF assms(3)] by blast
  then show ?thesis
    using assms(1,2)
    by (cases "spw_targets w source")
       (simp_all add: split_execute_def broken_unless_def or_error_def ok_or_def ebind_def modify_def
          Let_def waiting_at_def put_split_def)
qed

text \<open>In this run the operation behind the second output cannot take messages while the first message is
  split, and can again afterwards. The second message has nothing for that output, but it is lost.\<close>

definition demo_input :: "bool \<Rightarrow> (nat json_value, nat, json_position \<times> nat) split_world
    \<Rightarrow> (nat json_value, nat, json_position \<times> nat) split_world" where
  "demo_input accepts w = w\<lparr>fl_messages := (fl_messages w)\<lparr>mw_inputs :=
     (mw_inputs (fl_messages w))(6 := if accepts then Some input_storage_new else None)\<rparr>\<rparr>"

theorem failed_send_breaks_split:
  "let run = split_execute demo_message (split_json \<circ> id) 3;
       (w, r) = run (demo_input False (demo_split [JsonObject [(''b'', 1)], JsonObject [(''a'', 2)]]));
       (w', r') = run (demo_input True w)
   in r = Inl (Fault Broken) \<and> r' = Inl (Fault Broken)
      \<and> waiting_at 3 w' = [] \<and> waiting_at 4 w' = [] \<and> waiting_at 6 w' = []"
  by code_simp

text \<open>The names of a split are not looked up in an array: an output for a name gets none of its elements.\<close>

lemma array_ignores_names: "claimed keys (json_items named (JsonArray values)) (SplitSpecific name) = []"
  by (auto simp: claimed_def list_items_def claim_key_def filter_empty_conv split: if_splits)

end
