(* ===== verification/TrimNodes.thy ===== *)
theory TrimNodes
  imports Wiring
begin

text \<open>
  Which operations a trim cleans: \<open>src/src/trim.rs\<close> and the calculations of
  \<open>src/src/operation/operate_trim.rs\<close>.

  \<^item> A \<open>HashSet\<close> is a list here, in the order of insertion; the order in which the code iterates over it
    is unspecified, and \<open>calculate_nodes\<close> sorts the result.
  \<^item> \<open>explore\<close> is the loop that both \<open>calculate_downstream\<close> and the second half of \<open>calculate_span\<close> run:
    pop an operation, skip it if it is filtered, insert it into the visited ones and push its successors
    if it was new.
  \<^item> No calculation fails with an \<open>OperationError\<close>, so the outer \<open>Result\<close> of the code is left out.
\<close>

subsection \<open>Branches\<close>

record trim_point =
  tp_id :: entity
  tp_inclusive :: bool

datatype trim_policy = TrimDownstream | TrimSpan "trim_point list"

record trim_branch =
  tb_from_point :: trim_point
  tb_policy :: trim_policy

definition accept_node :: "trim_point \<Rightarrow> entity \<Rightarrow> bool" where
  "accept_node self n \<longleftrightarrow> tp_inclusive self \<or> n \<noteq> tp_id self"

definition trim_single_point :: "entity \<Rightarrow> trim_branch" where
  "trim_single_point point =
     (let from_point = \<lparr>tp_id = point, tp_inclusive = True\<rparr>
      in \<lparr>tb_from_point = from_point, tb_policy = TrimSpan [from_point]\<rparr>)"


definition trim_span :: "trim_point \<Rightarrow> trim_point list \<Rightarrow> trim_branch" where
  "trim_span from_point endpoints = \<lparr>tb_from_point = from_point, tb_policy = TrimSpan endpoints\<rparr>"

definition trim_between :: "trim_point \<Rightarrow> trim_point \<Rightarrow> trim_branch" where
  "trim_between from_point to_point = trim_span from_point [to_point]"

record invalid_span =
  is_from :: entity
  is_to :: "entity option"

subsection \<open>The calculations\<close>

type_synonym parent_map = "(entity, entity list) hmap"

definition successors :: "parent_map \<Rightarrow> entity \<Rightarrow> entity list" where
  "successors edges n = (case hm_get edges n of None \<Rightarrow> [] | Some ns \<Rightarrow> ns)"

function explore :: "(entity \<Rightarrow> bool) \<Rightarrow> parent_map \<Rightarrow> entity list \<Rightarrow> entity list \<Rightarrow> entity list" where
  "explore skip edges [] visited = visited"
| "explore skip edges (n # queue) visited =
     (if skip n then explore skip edges queue visited
      else if n \<in> set visited then explore skip edges queue visited
      else explore skip edges (rev (successors edges n) @ queue) (n # visited))"
  by pat_completeness auto

termination
proof (relation "measures [\<lambda>(skip, edges, _, visited). card (dom (hm_get edges) - set visited), \<lambda>(_, _, queue, _). length queue]",
    goal_cases)
  case (4 skip edges n queue visited)
  show ?case
  proof (cases "n \<in> dom (hm_get edges)")
    case True
    then show ?thesis using unvisited_decreases [OF 4(2) True] by simp
  next
    case False
    then have "successors edges n = []" "dom (hm_get edges) - set (n # visited) = dom (hm_get edges) - set visited"
      by (auto simp: successors_def domIff)
    then show ?thesis by simp
  qed
qed auto

definition downstream_table :: "(entity, ('m) wired_node_scheme) hmap \<Rightarrow> parent_map" where
  "downstream_table nodes = map (\<lambda>(e, _). (e, immediately_downstream_of nodes e)) nodes"

lemma hm_get_keyed: "hm_get (map (\<lambda>(e, _). (e, f e)) xs) n = (if n \<in> dom (hm_get xs) then Some (f n) else None)"
  by (induction xs) auto

lemma hm_get_downstream_table:
  "hm_get (downstream_table nodes) n = (if n \<in> dom (hm_get nodes) then Some (immediately_downstream_of nodes n) else None)"
  unfolding downstream_table_def by (rule hm_get_keyed)

lemma successors_downstream_table [simp]: "successors (downstream_table nodes) n = immediately_downstream_of nodes n"
  by (auto simp: successors_def hm_get_downstream_table immediately_downstream_of_def domIff)

lemma successors_in_table: "set (successors edges n) \<subseteq> set (concat (map snd edges))"
proof (cases "hm_get edges n")
  case (Some ns)
  then have "(n, ns) \<in> set edges" by (rule map_of_SomeD)
  then show ?thesis using Some by (force simp: successors_def)
qed (simp add: successors_def)

text \<open>The forward half of \<open>calculate_span\<close>: which operations lead to which, from the initial point.\<close>

definition visit_next ::
  "entity list \<Rightarrow> entity \<Rightarrow> entity \<Rightarrow> parent_map \<times> entity list \<Rightarrow> parent_map \<times> entity list" where
  "visit_next filtered n next' = (\<lambda>(span_map, queue).
     if next' \<in> set filtered then (span_map, queue)
     else
       let children = (case hm_get span_map next' of None \<Rightarrow> [] | Some children \<Rightarrow> children);
           span_map' = hm_insert next' (List.insert n children) span_map
       in if hm_get span_map next' = None then (span_map', next' # queue) else (span_map', queue))"

definition unmapped :: "(entity, ('m) wired_node_scheme) hmap \<Rightarrow> parent_map \<Rightarrow> nat" where
  "unmapped nodes span_map = card (set (concat (map snd (downstream_table nodes))) - dom (hm_get span_map))"

lemma visit_next_cases:
  assumes "visit_next filtered n x (span_map, queue) = (span_map', queue')"
  shows "(x \<in> set filtered \<and> span_map' = span_map \<and> queue' = queue)
    \<or> (x \<notin> set filtered \<and> x \<in> dom (hm_get span_map) \<and> dom (hm_get span_map') = dom (hm_get span_map) \<and> queue' = queue)
    \<or> (x \<notin> set filtered \<and> x \<notin> dom (hm_get span_map) \<and> dom (hm_get span_map') = insert x (dom (hm_get span_map)) \<and> queue' = x # queue)"
proof (cases "x \<in> set filtered")
  case False
  show ?thesis
  proof (cases "hm_get span_map x")
    case None
    then have "span_map' = hm_insert x (List.insert n []) span_map" "queue' = x # queue"
      using False assms by (simp_all add: visit_next_def Let_def)
    then show ?thesis using False None by (simp add: domIff)
  next
    case (Some children)
    then have "span_map' = hm_insert x (List.insert n children) span_map" "queue' = queue"
      using False assms by (simp_all add: visit_next_def Let_def)
    moreover have "x \<in> dom (hm_get span_map)" using Some by (rule domI)
    ultimately show ?thesis using False by (simp add: insert_absorb)
  qed
qed (use assms in \<open>simp add: visit_next_def\<close>)

lemma fold_visit_dom:
  assumes "fold (visit_next filtered n) xs (span_map, queue) = (span_map', queue')"
  shows "dom (hm_get span_map') = dom (hm_get span_map) \<union> (set xs - set filtered)
    \<and> (\<exists>new. queue' = new @ queue \<and> distinct new \<and> set new = set xs - set filtered - dom (hm_get span_map))"
  using assms
proof (induction xs arbitrary: span_map queue)
  case (Cons x xs)
  obtain span_map1 queue1 where x: "visit_next filtered n x (span_map, queue) = (span_map1, queue1)" by fastforce
  then have "fold (visit_next filtered n) xs (span_map1, queue1) = (span_map', queue')" using Cons.prems by simp
  then obtain new where IH: "dom (hm_get span_map') = dom (hm_get span_map1) \<union> (set xs - set filtered)"
    "queue' = new @ queue1" "distinct new" "set new = set xs - set filtered - dom (hm_get span_map1)"
    using Cons.IH by blast
  from visit_next_cases [OF x] show ?case
  proof (elim disjE conjE)
    assume "x \<notin> dom (hm_get span_map)" "dom (hm_get span_map1) = insert x (dom (hm_get span_map))" "queue1 = x # queue"
      "x \<notin> set filtered"
    then show ?thesis using IH by (intro conjI exI [of _ "new @ [x]"]) auto
  qed (use IH in auto)
qed auto

text \<open>Every step takes an operation from the queue, and puts only operations there that are new in the map.\<close>

lemma expand_decreases:
  assumes "fold (visit_next filtered n) (immediately_downstream_of nodes n) (span_map, queue) = (span_map', queue')"
  shows "unmapped nodes span_map' + length queue' < Suc (unmapped nodes span_map + length queue)"
proof -
  let ?xs = "immediately_downstream_of nodes n"
  let ?U = "set (concat (map snd (downstream_table nodes)))"
  obtain new where f: "dom (hm_get span_map') = dom (hm_get span_map) \<union> (set ?xs - set filtered)"
    "queue' = new @ queue" "distinct new" "set new = set ?xs - set filtered - dom (hm_get span_map)"
    using fold_visit_dom [OF assms] by blast
  have "set ?xs \<subseteq> ?U" using successors_in_table [of "downstream_table nodes" n] by simp
  then have "set new \<subseteq> ?U - dom (hm_get span_map)" using f(4) by auto
  moreover have "?U - dom (hm_get span_map') = (?U - dom (hm_get span_map)) - set new" using f(1,4) by auto
  ultimately have "card (?U - dom (hm_get span_map')) = card (?U - dom (hm_get span_map)) - card (set new)"
    and "card (set new) \<le> card (?U - dom (hm_get span_map))"
    by (simp_all add: card_Diff_subset card_mono del: set_concat)
  then show ?thesis using f(2,3) by (simp add: unmapped_def distinct_card del: set_concat)
qed

function expand_span ::
  "(entity, ('m) wired_node_scheme) hmap \<Rightarrow> entity \<Rightarrow> entity list \<Rightarrow> entity list \<Rightarrow> parent_map \<Rightarrow> parent_map" where
  "expand_span nodes to_point filtered [] span_map = span_map"
| "expand_span nodes to_point filtered (n # queue) span_map =
     (if n = to_point then expand_span nodes to_point filtered queue span_map
      else case fold (visit_next filtered n) (immediately_downstream_of nodes n) (span_map, queue) of
             (span_map', queue') \<Rightarrow> expand_span nodes to_point filtered queue' span_map')"
  by pat_completeness auto

termination
  by (relation "measure (\<lambda>(nodes, _, _, queue, span_map). unmapped nodes span_map + length queue)")
    (auto dest: expand_decreases [OF sym])

definition calculate_span ::
  "entity \<Rightarrow> entity \<Rightarrow> entity list \<Rightarrow> (entity, ('m) wired_node_scheme) hmap \<Rightarrow> entity list" where
  "calculate_span initial_point to_point filtered nodes =
     (let span_map = [(initial_point, [])]
      in if to_point \<in> set filtered then []
         else explore (\<lambda>_. False) (expand_span nodes to_point filtered [initial_point] span_map) [to_point] [])"

definition upstream_filter :: "entity \<Rightarrow> trim_point \<Rightarrow> (entity, ('m) wired_node_scheme) hmap \<Rightarrow> entity list" where
  "upstream_filter scope_entry initial_point nodes =
     removeAll (tp_id initial_point) (calculate_span scope_entry (tp_id initial_point) [] nodes)"

definition calculate_downstream ::
  "entity \<Rightarrow> trim_point \<Rightarrow> (entity, ('m) wired_node_scheme) hmap \<Rightarrow> invalid_span + entity list" where
  "calculate_downstream scope_entry initial_point nodes =
     (let filtered = upstream_filter scope_entry initial_point nodes;
          visited = explore (\<lambda>n. n \<in> set filtered) (downstream_table nodes) [tp_id initial_point] []
      in if visited = [] then Inl \<lparr>is_from = tp_id initial_point, is_to = None\<rparr>
         else Inr (filter (accept_node initial_point) visited))"

definition calculate_span_nodes ::
  "entity \<Rightarrow> trim_point \<Rightarrow> trim_point \<Rightarrow> (entity, ('m) wired_node_scheme) hmap \<Rightarrow> invalid_span + entity list" where
  "calculate_span_nodes scope_entry initial_point to_point nodes =
     (let filtered = upstream_filter scope_entry initial_point nodes;
          span = calculate_span (tp_id initial_point) (tp_id to_point) filtered nodes
      in if span = [] then Inl \<lparr>is_from = tp_id initial_point, is_to = Some (tp_id to_point)\<rparr>
         else Inr (filter (\<lambda>n. accept_node initial_point n \<and> accept_node to_point n) span))"

definition extend_nodes :: "('a \<Rightarrow> invalid_span + entity list) \<Rightarrow> entity list \<Rightarrow> 'a \<Rightarrow> invalid_span + entity list" where
  "extend_nodes f all_nodes x = rbind (f x) (\<lambda>nodes. Inr (all_nodes @ nodes))"

definition calculate_all_spans ::
  "entity \<Rightarrow> trim_point \<Rightarrow> trim_point list \<Rightarrow> (entity, ('m) wired_node_scheme) hmap \<Rightarrow> invalid_span + entity list" where
  "calculate_all_spans scope_entry initial_point span nodes =
     rbind (rfold (extend_nodes (\<lambda>to_point. calculate_span_nodes scope_entry initial_point to_point nodes)) [] span)
       (\<lambda>all_nodes. Inr (sort_dedup all_nodes))"

definition branch_nodes ::
  "entity \<Rightarrow> trim_branch \<Rightarrow> (entity, ('m) wired_node_scheme) hmap \<Rightarrow> invalid_span + entity list" where
  "branch_nodes scope_entry branch nodes =
     (case tb_policy branch of
        TrimDownstream \<Rightarrow> calculate_downstream scope_entry (tb_from_point branch) nodes
      | TrimSpan span \<Rightarrow> calculate_all_spans scope_entry (tb_from_point branch) span nodes)"

definition calculate_nodes ::
  "entity \<Rightarrow> trim_branch list \<Rightarrow> (entity, ('m) wired_node_scheme) hmap \<Rightarrow> invalid_span + entity list" where
  "calculate_nodes scope_entry branches nodes =
     rbind (rfold (extend_nodes (\<lambda>branch. branch_nodes scope_entry branch nodes)) [] branches)
       (\<lambda>all_nodes. Inr (sort_dedup all_nodes))"

subsection \<open>Exploration\<close>

definition table_edges :: "(entity \<Rightarrow> bool) \<Rightarrow> parent_map \<Rightarrow> (entity \<times> entity) set" where
  "table_edges skip edges = {(a, b). b \<in> set (successors edges a) \<and> \<not> skip b}"

lemma explore_correct:
  assumes "\<And>a b. a \<in> set visited \<Longrightarrow> (a, b) \<in> table_edges skip edges \<Longrightarrow> b \<in> set visited \<union> set queue"
  shows "set (explore skip edges queue visited) = set visited \<union> (table_edges skip edges)\<^sup>* `` {q \<in> set queue. \<not> skip q}"
  using assms
proof (induction skip edges queue visited rule: explore.induct)
  case (2 skip edges n queue visited)
  let ?E = "table_edges skip edges"
  consider "skip n" | "\<not> skip n" "n \<in> set visited" | "\<not> skip n" "n \<notin> set visited" by blast
  then show ?case
  proof cases
    case 1
    have "b \<in> set visited \<union> set queue" if "a \<in> set visited" "(a, b) \<in> ?E" for a b
      using "2.prems" [OF that] that(2) 1 by (auto simp: table_edges_def)
    then show ?thesis using 1 "2.IH"(1) by (auto simp: Image_iff)
  next
    case 2
    have closed: "b \<in> set visited \<union> {q \<in> set queue. \<not> skip q}" if "a \<in> set visited" "(a, b) \<in> ?E" for a b
      using "2.prems" [OF that] that(2) 2 by (auto simp: table_edges_def)
    have "m \<in> set visited \<union> ?E\<^sup>* `` {q \<in> set queue. \<not> skip q}" if "(n, m) \<in> ?E\<^sup>*" for m
    proof (cases "m \<in> set visited")
      case False
      have "\<exists>q \<in> {q \<in> set queue. \<not> skip q}. (q, m) \<in> ?E\<^sup>*"
        by (rule path_leaves [OF that 2(2) False]) (rule closed)
      then show ?thesis by blast
    qed simp
    moreover have "set (explore skip edges queue visited) = set visited \<union> ?E\<^sup>* `` {q \<in> set queue. \<not> skip q}"
      using "2.IH"(2) [OF 2] closed by blast
    ultimately show ?thesis using 2 by (auto simp: Image_iff)
  next
    case 3
    let ?queue = "rev (successors edges n) @ queue"
    have "b \<in> set (n # visited) \<union> set ?queue" if "a \<in> set (n # visited)" "(a, b) \<in> ?E" for a b
      using that "2.prems" [of a b] by (auto simp: table_edges_def)
    then have IH: "set (explore skip edges ?queue (n # visited)) =
        set (n # visited) \<union> ?E\<^sup>* `` {q \<in> set ?queue. \<not> skip q}"
      using "2.IH"(3) [OF 3] by blast
    have "?E\<^sup>* `` {n} = insert n (?E\<^sup>* `` {q \<in> set (successors edges n). \<not> skip q})"
      by (auto simp: table_edges_def Image_iff elim: converse_rtranclE intro: converse_rtrancl_into_rtrancl)
    then show ?thesis using 3 IH by (auto simp: Image_iff)
  qed
qed simp

lemma explore_from: "\<not> skip n \<Longrightarrow> set (explore skip edges [n] []) = (table_edges skip edges)\<^sup>* `` {n}"
  using explore_correct [of "[]" skip edges "[n]"] by auto

subsection \<open>Spans\<close>

text \<open>Paths that do not lead through the end of the span nor into filtered operations.\<close>

definition span_edges ::
  "(entity, ('m) wired_node_scheme) hmap \<Rightarrow> entity \<Rightarrow> entity set \<Rightarrow> (entity \<times> entity) set" where
  "span_edges nodes to_point F = {(a, b) \<in> downstream_edges nodes. a \<noteq> to_point \<and> b \<notin> F}"

definition parents_of :: "parent_map \<Rightarrow> entity \<Rightarrow> entity set" where
  "parents_of span_map n = set (successors span_map n)"

lemma successors_insert: "successors (hm_insert x ns span_map) b = (if b = x then ns else successors span_map b)"
  by (simp add: successors_def)

lemma parents_of_visit_next:
  assumes "visit_next filtered n x (span_map, queue) = (span_map', queue')"
  shows "parents_of span_map' b = parents_of span_map b \<union> (if b = x \<and> x \<notin> set filtered then {n} else {})"
proof (cases "x \<in> set filtered")
  case True
  then show ?thesis using visit_next_cases [OF assms] by simp
next
  case False
  then have "span_map' = hm_insert x (List.insert n (successors span_map x)) span_map"
    using assms by (cases "hm_get span_map x") (simp_all add: visit_next_def Let_def successors_def)
  then show ?thesis using False by (simp add: parents_of_def successors_insert)
qed

lemma parents_of_fold:
  assumes "fold (visit_next filtered n) xs (span_map, queue) = (span_map', queue')"
  shows "parents_of span_map' b = parents_of span_map b \<union> (if b \<in> set xs - set filtered then {n} else {})"
  using assms
proof (induction xs arbitrary: span_map queue)
  case (Cons x xs)
  obtain span_map1 queue1 where x: "visit_next filtered n x (span_map, queue) = (span_map1, queue1)" by fastforce
  then have "fold (visit_next filtered n) xs (span_map1, queue1) = (span_map', queue')" using Cons.prems by simp
  from Cons.IH [OF this] show ?case using parents_of_visit_next [OF x, of b] by auto
qed simp

text \<open>What the map holds while operations of the queue still have to be expanded.\<close>

definition span_invariant ::
  "(entity, ('m) wired_node_scheme) hmap \<Rightarrow> entity \<Rightarrow> entity \<Rightarrow> entity list \<Rightarrow> entity list \<Rightarrow> parent_map \<Rightarrow> bool" where
  "span_invariant nodes initial_point to_point filtered queue span_map \<longleftrightarrow>
     (let E = span_edges nodes to_point (set filtered); expanded = dom (hm_get span_map) - set queue
      in initial_point \<in> dom (hm_get span_map) \<and> dom (hm_get span_map) \<subseteq> E\<^sup>* `` {initial_point}
       \<and> set queue \<subseteq> dom (hm_get span_map) \<and> distinct queue
       \<and> (\<forall>b. parents_of span_map b = {a \<in> expanded. (a, b) \<in> E})
       \<and> (\<forall>a \<in> expanded. \<forall>b. (a, b) \<in> E \<longrightarrow> b \<in> dom (hm_get span_map)))"

lemma insert_parent: "{a \<in> X. (a, b) \<in> E} \<union> (if (n, b) \<in> E then {n} else {}) = {a \<in> insert n X. (a, b) \<in> E}"
  by auto

lemma span_invariantI:
  assumes "dom (hm_get span_map) - set queue = X" and "initial_point \<in> dom (hm_get span_map)"
    and "dom (hm_get span_map) \<subseteq> (span_edges nodes to_point (set filtered))\<^sup>* `` {initial_point}"
    and "set queue \<subseteq> dom (hm_get span_map)" and "distinct queue"
    and "\<And>b. parents_of span_map b = {a \<in> X. (a, b) \<in> span_edges nodes to_point (set filtered)}"
    and "\<And>a b. a \<in> X \<Longrightarrow> (a, b) \<in> span_edges nodes to_point (set filtered) \<Longrightarrow> b \<in> dom (hm_get span_map)"
  shows "span_invariant nodes initial_point to_point filtered queue span_map"
  unfolding span_invariant_def Let_def assms(1)
  by (intro conjI allI ballI impI assms(2-7))

lemma expand_span_invariant:
  assumes "span_invariant nodes initial_point to_point filtered queue span_map"
  shows "span_invariant nodes initial_point to_point filtered [] (expand_span nodes to_point filtered queue span_map)"
  using assms
proof (induction nodes to_point filtered queue span_map rule: expand_span.induct)
  case (2 nodes to_point filtered n queue span_map)
  let ?E = "span_edges nodes to_point (set filtered)"
  let ?xs = "immediately_downstream_of nodes n"
  let ?X = "dom (hm_get span_map) - set (n # queue)"
  have inv: "initial_point \<in> dom (hm_get span_map)" "dom (hm_get span_map) \<subseteq> ?E\<^sup>* `` {initial_point}"
    "set (n # queue) \<subseteq> dom (hm_get span_map)" "distinct (n # queue)"
    and parents: "\<And>b. parents_of span_map b = {a \<in> ?X. (a, b) \<in> ?E}"
    and closed: "\<And>a b. a \<in> ?X \<Longrightarrow> (a, b) \<in> ?E \<Longrightarrow> b \<in> dom (hm_get span_map)"
    using "2.prems" unfolding span_invariant_def Let_def by blast+
  show ?case
  proof (cases "n = to_point")
    case True
    have expanded: "dom (hm_get span_map) - set queue = insert n ?X" using inv(3,4) by auto
    have n: "(n, b) \<notin> ?E" for b using True by (simp add: span_edges_def)
    have "parents_of span_map b = {a \<in> insert n ?X. (a, b) \<in> ?E}" for b using parents [of b] n [of b] by blast
    moreover have "b \<in> dom (hm_get span_map)" if "a \<in> insert n ?X" "(a, b) \<in> ?E" for a b
      using closed [of a b] n [of b] that by blast
    moreover have "set queue \<subseteq> dom (hm_get span_map)" "distinct queue" using inv(3,4) by simp_all
    ultimately have "span_invariant nodes initial_point to_point filtered queue span_map"
      by (intro span_invariantI [OF expanded inv(1,2)])
    then show ?thesis using "2.IH"(1) True by simp
  next
    case False
    obtain span_map' queue' where f: "fold (visit_next filtered n) ?xs (span_map, queue) = (span_map', queue')" by fastforce
    have E: "b \<in> set ?xs - set filtered \<longleftrightarrow> (n, b) \<in> ?E" for b
      using False by (auto simp: span_edges_def downstream_edges_def)
    obtain new where d: "dom (hm_get span_map') = dom (hm_get span_map) \<union> {b. (n, b) \<in> ?E}"
      "queue' = new @ queue" "distinct new" "set new = {b. (n, b) \<in> ?E} - dom (hm_get span_map)"
      using fold_visit_dom [OF f] E by blast
    have expanded': "dom (hm_get span_map') - set queue' = insert n ?X"
      unfolding d(1,2) set_append d(4) using inv(3,4) by auto
    have n: "n \<in> dom (hm_get span_map)" using inv(3) by simp
    then have "dom (hm_get span_map') \<subseteq> ?E\<^sup>* `` {initial_point}"
      unfolding d(1) using inv(2) by (blast intro: rtrancl_into_rtrancl)
    moreover have "parents_of span_map' b = {a \<in> insert n ?X. (a, b) \<in> ?E}" for b
      unfolding parents_of_fold [OF f, of b] E parents by (rule insert_parent)
    moreover have "b \<in> dom (hm_get span_map')" if "a \<in> insert n ?X" "(a, b) \<in> ?E" for a b
      unfolding d(1) using closed [of a b] that by blast
    moreover have "set queue' \<subseteq> dom (hm_get span_map')" "distinct queue'"
      unfolding d(1,2) using d(3,4) inv(3,4) by auto
    moreover have "initial_point \<in> dom (hm_get span_map')" unfolding d(1) using inv(1) by simp
    ultimately have "span_invariant nodes initial_point to_point filtered queue' span_map'"
      by (intro span_invariantI [OF expanded'])
    then show ?thesis using "2.IH"(2) False f by simp
  qed
qed simp

lemma closed_contains_paths:
  assumes "(a, n) \<in> E\<^sup>*" and "a \<in> D" and "\<And>a b. a \<in> D \<Longrightarrow> (a, b) \<in> E \<Longrightarrow> b \<in> D"
  shows "n \<in> D"
  using assms(1,2) by (induction rule: rtrancl_induct) (use assms(3) in blast)+

theorem set_calculate_span:
  "set (calculate_span initial_point to_point filtered nodes) =
     (if to_point \<in> set filtered then {}
      else insert to_point {n. (initial_point, n) \<in> (span_edges nodes to_point (set filtered))\<^sup>*
                              \<and> (n, to_point) \<in> (span_edges nodes to_point (set filtered))\<^sup>*})"
proof (cases "to_point \<in> set filtered")
  case False
  let ?E = "span_edges nodes to_point (set filtered)"
  obtain M where M: "M = expand_span nodes to_point filtered [initial_point] [(initial_point, [])]" by blast
  have "span_invariant nodes initial_point to_point filtered [initial_point] [(initial_point, [])]"
    by (rule span_invariantI [where X = "{}"]) (auto simp: parents_of_def successors_def)
  then have inv: "span_invariant nodes initial_point to_point filtered [] M"
    unfolding M by (rule expand_span_invariant)
  let ?D = "dom (hm_get M)"
  have D: "initial_point \<in> ?D" "?D \<subseteq> ?E\<^sup>* `` {initial_point}" "\<And>a b. a \<in> ?D \<Longrightarrow> (a, b) \<in> ?E \<Longrightarrow> b \<in> ?D"
    and parents: "\<And>b. parents_of M b = {a \<in> ?D. (a, b) \<in> ?E}"
    using inv unfolding span_invariant_def Let_def by auto
  have reached: "n \<in> ?D \<longleftrightarrow> (initial_point, n) \<in> ?E\<^sup>*" for n
  proof
    assume "n \<in> ?D"
    then have "n \<in> ?E\<^sup>* `` {initial_point}" by (rule subsetD [OF D(2)])
    then show "(initial_point, n) \<in> ?E\<^sup>*" by simp
  next
    assume "(initial_point, n) \<in> ?E\<^sup>*"
    then show "n \<in> ?D" using D(1) by (rule closed_contains_paths) (rule D(3))
  qed
  let ?T = "table_edges (\<lambda>_. False) M"
  have T: "(b, a) \<in> ?T \<longleftrightarrow> a \<in> ?D \<and> (a, b) \<in> ?E" for a b
    using parents [of b] by (auto simp: table_edges_def parents_of_def)
  have up: "n = to_point \<or> (n \<in> ?D \<and> (n, to_point) \<in> ?E\<^sup>*)" if "(to_point, n) \<in> ?T\<^sup>*" for n
    using that by (induction rule: rtrancl_induct) (auto simp: T intro: converse_rtrancl_into_rtrancl)
  have down: "(to_point, n) \<in> ?T\<^sup>*" if "(n, to_point) \<in> ?E\<^sup>*" "n \<in> ?D" for n
    using that
  proof (induction rule: converse_rtrancl_induct)
    case (step a b)
    then have "(to_point, b) \<in> ?T\<^sup>*" "(b, a) \<in> ?T" using D(3) T by blast+
    then show ?case by (rule rtrancl_into_rtrancl)
  qed simp
  have "calculate_span initial_point to_point filtered nodes = explore (\<lambda>_. False) M [to_point] []"
    using False by (simp add: calculate_span_def Let_def M del: explore.simps expand_span.simps)
  then have "set (calculate_span initial_point to_point filtered nodes) = ?T\<^sup>* `` {to_point}"
    using explore_from [of "\<lambda>_. False" to_point M] by metis
  also have "\<dots> = insert to_point {n. n \<in> ?D \<and> (n, to_point) \<in> ?E\<^sup>*}" using up down by blast
  finally show ?thesis using False reached by simp
qed (simp add: calculate_span_def)

subsection \<open>What a trim cleans\<close>

text \<open>The operations between the entry of the scope and the initial point are kept.\<close>

definition upstream_of ::
  "(entity, ('m) wired_node_scheme) hmap \<Rightarrow> entity \<Rightarrow> entity \<Rightarrow> entity set" where
  "upstream_of nodes scope_entry p =
     {n. n \<noteq> p \<and> (scope_entry, n) \<in> (span_edges nodes p {})\<^sup>* \<and> (n, p) \<in> (span_edges nodes p {})\<^sup>*}"

definition span_ends_upstream ::
  "(entity, ('m) wired_node_scheme) hmap \<Rightarrow> entity \<Rightarrow> trim_branch \<Rightarrow> bool" where
  "span_ends_upstream nodes scope_entry branch =
     (case tb_policy branch of
        TrimDownstream \<Rightarrow> False
      | TrimSpan span \<Rightarrow> \<exists>q \<in> set span. tp_id q \<in> upstream_of nodes scope_entry (tp_id (tb_from_point branch)))"

definition trimmed_by :: "(entity, ('m) wired_node_scheme) hmap \<Rightarrow> entity \<Rightarrow> trim_branch \<Rightarrow> entity set" where
  "trimmed_by nodes scope_entry branch =
     (let p = tb_from_point branch; U = upstream_of nodes scope_entry (tp_id p)
      in case tb_policy branch of
           TrimDownstream \<Rightarrow>
             {n. (tp_id p, n) \<in> {(a, b) \<in> downstream_edges nodes. b \<notin> U}\<^sup>* \<and> accept_node p n}
         | TrimSpan span \<Rightarrow> {n. \<exists>q \<in> set span. accept_node p n \<and> accept_node q n \<and>
             (n = tp_id q \<or> ((tp_id p, n) \<in> (span_edges nodes (tp_id q) U)\<^sup>* \<and> (n, tp_id q) \<in> (span_edges nodes (tp_id q) U)\<^sup>*))})"

lemma set_upstream_filter: "set (upstream_filter scope_entry p nodes) = upstream_of nodes scope_entry (tp_id p)"
  by (auto simp: upstream_filter_def set_calculate_span upstream_of_def)

lemma member_not_Nil: "x \<in> set xs \<Longrightarrow> xs \<noteq> []"
  by auto

lemma calculate_downstream_spec:
  "\<exists>ns. calculate_downstream scope_entry p nodes = Inr ns
     \<and> set ns = {n. (tp_id p, n) \<in> {(a, b) \<in> downstream_edges nodes. b \<notin> upstream_of nodes scope_entry (tp_id p)}\<^sup>* \<and> accept_node p n}"
proof -
  let ?U = "upstream_of nodes scope_entry (tp_id p)"
  let ?visited = "explore (\<lambda>n. n \<in> ?U) (downstream_table nodes) [tp_id p] []"
  have edges: "table_edges (\<lambda>n. n \<in> ?U) (downstream_table nodes) = {(a, b) \<in> downstream_edges nodes. b \<notin> ?U}"
    by (auto simp: table_edges_def downstream_edges_def)
  have "tp_id p \<notin> ?U" by (simp add: upstream_of_def)
  then have visited: "set ?visited = {(a, b) \<in> downstream_edges nodes. b \<notin> ?U}\<^sup>* `` {tp_id p}"
    unfolding edges [symmetric] by (rule explore_from)
  have "tp_id p \<in> set ?visited" unfolding visited by blast
  then have "?visited \<noteq> []" by (rule member_not_Nil)
  then have "calculate_downstream scope_entry p nodes = Inr (filter (accept_node p) ?visited)"
    by (simp add: calculate_downstream_def Let_def set_upstream_filter del: explore.simps)
  then show ?thesis using visited by auto
qed

lemma calculate_span_nodes_spec:
  "case calculate_span_nodes scope_entry p q nodes of
      Inl s \<Rightarrow> tp_id q \<in> upstream_of nodes scope_entry (tp_id p)
    | Inr ns \<Rightarrow> tp_id q \<notin> upstream_of nodes scope_entry (tp_id p)
        \<and> set ns = {n. accept_node p n \<and> accept_node q n \<and> (n = tp_id q
             \<or> ((tp_id p, n) \<in> (span_edges nodes (tp_id q) (upstream_of nodes scope_entry (tp_id p)))\<^sup>*
                \<and> (n, tp_id q) \<in> (span_edges nodes (tp_id q) (upstream_of nodes scope_entry (tp_id p)))\<^sup>*))}"
proof -
  let ?U = "upstream_of nodes scope_entry (tp_id p)"
  let ?span = "calculate_span (tp_id p) (tp_id q) (upstream_filter scope_entry p nodes) nodes"
  have span: "set ?span = (if tp_id q \<in> ?U then {} else insert (tp_id q) {n. (tp_id p, n) \<in> (span_edges nodes (tp_id q) ?U)\<^sup>*
      \<and> (n, tp_id q) \<in> (span_edges nodes (tp_id q) ?U)\<^sup>*})"
    by (simp add: set_calculate_span set_upstream_filter)
  have empty: "?span = [] \<longleftrightarrow> tp_id q \<in> ?U" unfolding set_empty [symmetric] span by simp
  show ?thesis
  proof (cases "tp_id q \<in> ?U")
    case True
    then show ?thesis using empty by (simp add: calculate_span_nodes_def Let_def)
  next
    case False
    then have "calculate_span_nodes scope_entry p q nodes = Inr (filter (\<lambda>n. accept_node p n \<and> accept_node q n) ?span)"
      using empty by (simp add: calculate_span_nodes_def Let_def)
    then show ?thesis using False span by auto
  qed
qed

lemma rfold_extend:
  assumes "\<And>x. case f x of Inl s \<Rightarrow> bad x | Inr ns \<Rightarrow> \<not> bad x \<and> set ns = R x"
  shows "case rfold (extend_nodes f) acc xs of Inl s \<Rightarrow> \<exists>x \<in> set xs. bad x
    | Inr ns \<Rightarrow> \<not> (\<exists>x \<in> set xs. bad x) \<and> set ns = set acc \<union> (\<Union>x \<in> set xs. R x)"
proof (induction xs arbitrary: acc)
  case (Cons x xs)
  show ?case
  proof (cases "f x")
    case (Inl s)
    then show ?thesis using assms [of x] by (simp add: extend_nodes_def)
  next
    case (Inr ns)
    then show ?thesis
      using assms [of x] Cons.IH [of "acc @ ns"] by (auto simp: extend_nodes_def split: sum.splits)
  qed
qed simp

lemma calculate_all_spans_spec:
  "case calculate_all_spans scope_entry p span nodes of
      Inl s \<Rightarrow> span_ends_upstream nodes scope_entry (trim_span p span)
    | Inr ns \<Rightarrow> \<not> span_ends_upstream nodes scope_entry (trim_span p span)
        \<and> set ns = trimmed_by nodes scope_entry (trim_span p span)"
proof -
  let ?U = "upstream_of nodes scope_entry (tp_id p)"
  let ?f = "\<lambda>q. calculate_span_nodes scope_entry p q nodes"
  let ?R = "\<lambda>q. {n. accept_node p n \<and> accept_node q n \<and> (n = tp_id q
      \<or> ((tp_id p, n) \<in> (span_edges nodes (tp_id q) ?U)\<^sup>* \<and> (n, tp_id q) \<in> (span_edges nodes (tp_id q) ?U)\<^sup>*))}"
  have "case rfold (extend_nodes ?f) [] span of Inl s \<Rightarrow> \<exists>q \<in> set span. tp_id q \<in> ?U
      | Inr ns \<Rightarrow> \<not> (\<exists>q \<in> set span. tp_id q \<in> ?U) \<and> set ns = set [] \<union> (\<Union>q \<in> set span. ?R q)"
    by (rule rfold_extend) (rule calculate_span_nodes_spec)
  moreover have "trimmed_by nodes scope_entry (trim_span p span) = (\<Union>q \<in> set span. ?R q)"
    by (auto simp: trimmed_by_def trim_span_def Let_def)
  moreover have "span_ends_upstream nodes scope_entry (trim_span p span) \<longleftrightarrow> (\<exists>q \<in> set span. tp_id q \<in> ?U)"
    by (simp add: span_ends_upstream_def trim_span_def)
  ultimately show ?thesis by (auto simp: calculate_all_spans_def split: sum.splits)
qed

lemma branch_nodes_spec:
  "case branch_nodes scope_entry branch nodes of
      Inl s \<Rightarrow> span_ends_upstream nodes scope_entry branch
    | Inr ns \<Rightarrow> \<not> span_ends_upstream nodes scope_entry branch \<and> set ns = trimmed_by nodes scope_entry branch"
proof (cases "tb_policy branch")
  case TrimDownstream
  then show ?thesis
    using calculate_downstream_spec [where p = "tb_from_point branch" and nodes = nodes and scope_entry = scope_entry]
    by (auto simp: branch_nodes_def span_ends_upstream_def trimmed_by_def Let_def)
next
  case (TrimSpan span)
  then have branch: "trim_span (tb_from_point branch) span = branch" by (simp add: trim_span_def)
  have "branch_nodes scope_entry branch nodes = calculate_all_spans scope_entry (tb_from_point branch) span nodes"
    using TrimSpan by (simp add: branch_nodes_def)
  then show ?thesis
    using calculate_all_spans_spec [where p = "tb_from_point branch" and span = span and nodes = nodes and scope_entry = scope_entry]
    unfolding branch by simp
qed

lemma calculate_nodes_spec:
  "case calculate_nodes scope_entry branches nodes of
      Inl s \<Rightarrow> \<exists>b \<in> set branches. span_ends_upstream nodes scope_entry b
    | Inr ns \<Rightarrow> \<not> (\<exists>b \<in> set branches. span_ends_upstream nodes scope_entry b) \<and> sorted ns \<and> distinct ns
        \<and> set ns = (\<Union>b \<in> set branches. trimmed_by nodes scope_entry b)"
proof -
  have "case rfold (extend_nodes (\<lambda>b. branch_nodes scope_entry b nodes)) [] branches of
      Inl s \<Rightarrow> \<exists>b \<in> set branches. span_ends_upstream nodes scope_entry b
    | Inr ns \<Rightarrow> \<not> (\<exists>b \<in> set branches. span_ends_upstream nodes scope_entry b)
        \<and> set ns = set [] \<union> (\<Union>b \<in> set branches. trimmed_by nodes scope_entry b)"
    by (rule rfold_extend) (rule branch_nodes_spec)
  then show ?thesis using sorted_distinct_sort_dedup by (auto simp: calculate_nodes_def split: sum.splits)
qed





text \<open>The other spans. Without end points nothing is trimmed, although the documentation of \<open>span\<close> promises the
  point itself; an end point that cannot be reached is trimmed alone instead of being rejected.\<close>

lemma span_without_ends_trims_nothing: "calculate_nodes scope_entry [trim_span p []] nodes = Inr []"
  by (simp add: calculate_nodes_def extend_nodes_def branch_nodes_def calculate_all_spans_def trim_span_def)

lemma single_point_trims_itself:
  "\<exists>ns. calculate_nodes scope_entry [trim_single_point e] nodes = Inr ns \<and> e \<in> set ns"
  using calculate_nodes_spec [where scope_entry = scope_entry and branches = "[trim_single_point e]" and nodes = nodes]
  by (cases "calculate_nodes scope_entry [trim_single_point e] nodes")
    (auto simp: span_ends_upstream_def trimmed_by_def trim_single_point_def accept_node_def upstream_of_def Let_def)

lemma unreachable_end_is_trimmed:
  assumes "(tp_id p, tp_id q) \<notin> (downstream_edges nodes)\<^sup>*" and "tp_id q \<notin> upstream_of nodes scope_entry (tp_id p)"
    and "tp_inclusive q"
  shows "calculate_nodes scope_entry [trim_between p q] nodes = Inr [tp_id q]"
proof -
  let ?U = "upstream_of nodes scope_entry (tp_id p)"
  have sub: "(span_edges nodes (tp_id q) ?U)\<^sup>* \<subseteq> (downstream_edges nodes)\<^sup>*"
    by (rule rtrancl_mono) (auto simp: span_edges_def)
  have "tp_id p \<noteq> tp_id q" using assms(1) by auto
  then have accept: "accept_node p (tp_id q)" "accept_node q (tp_id q)" using assms(3) by (auto simp: accept_node_def)
  have "(tp_id p, n) \<notin> (span_edges nodes (tp_id q) ?U)\<^sup>*" if "(n, tp_id q) \<in> (span_edges nodes (tp_id q) ?U)\<^sup>*" for n
    using that assms(1) sub by (meson rtrancl_trans subsetD)
  then have "trimmed_by nodes scope_entry (trim_between p q) = {tp_id q}"
    using accept by (auto simp: trimmed_by_def trim_between_def trim_span_def Let_def)
  moreover have "\<not> span_ends_upstream nodes scope_entry (trim_between p q)"
    using assms(2) by (simp add: span_ends_upstream_def trim_between_def trim_span_def)
  ultimately obtain ns where ns: "calculate_nodes scope_entry [trim_between p q] nodes = Inr ns"
    "distinct ns" "set ns = {tp_id q}"
    using calculate_nodes_spec [where scope_entry = scope_entry and branches = "[trim_between p q]" and nodes = nodes]
    by (cases "calculate_nodes scope_entry [trim_between p q] nodes") auto
  then show ?thesis by (metis distinct_card card.empty card_insert_disjoint empty_iff finite.emptyI length_0_conv
      length_Suc_conv list.set_intros(1) singletonD)
qed




end
