(* ===== verification/Trimming.thy ===== *)
theory Trimming
  imports Operations TrimNodes CleanupTracking
begin

text \<open>
  The trim operation, \<open>src/src/operation/operate_trim.rs\<close>: it holds a message while it cleans the
  operations of its branches, and sends the message on once the last of them is clean.

  \<^item> Which operations those are is calculated at the first run (theory \<open>TrimNodes\<close>) and kept.
  \<^item> Every operation has a cleanup of its own, a function pointer in its \<open>OnCleanup\<close>: \<open>handlers\<close>.
    \<open>standard_cleanup\<close> is that of the operations which only keep inputs. It clears no disposals, since
    \<open>cleanup_disposals\<close> does so for scopes only.
  \<^item> The \<open>CleanupContents\<close> and the \<open>cleanup_finished\<close> stack of the roster are those of \<open>CleanupTracking\<close>.
\<close>

record trim =
  tm_source :: entity
  tm_target :: entity
  tm_branches :: "trim_branch list"

record ('t, 'c) trim_world = "('t, 'c) flow_world" +
  tw_scope_entry :: "entity option"
  tw_nodes :: "(invalid_span + entity list) option"
  tw_holding :: "(request_id, 't op_input) hmap"
  tw_cleaners :: cleaners
  tw_finished :: "cleanup list"

type_synonym ('t, 'c) cleanup_operation = "cleanup \<Rightarrow> ('t, 'c) trim_world \<Rightarrow> ('t, 'c) trim_world \<times> (flow_error + unit)"

subsection \<open>Cleaning other operations\<close>

definition notify_cleaned :: "('t, 'c) cleanup_operation" where
  "notify_cleaned c w =
     (case notify_cleaner c (tw_cleaners w, tw_finished w) of
        ((cleaners, finished), r) \<Rightarrow> (w\<lparr>tw_cleaners := cleaners, tw_finished := finished\<rparr>, lift_error r))"

definition standard_cleanup :: "('t, 'c) cleanup_operation" where
  "standard_cleanup c =
     ebind (modify (\<lambda>w. w\<lparr>fl_messages := cleanup_inputs (cu_node c) (cu_session c) (fl_messages w)\<rparr>)) (\<lambda>_. notify_cleaned c)"

definition trim_cleanup :: "('t, 'c) cleanup_operation" where
  "trim_cleanup c =
     ebind (modify (\<lambda>w. w\<lparr>fl_messages := cleanup_inputs (cu_node c) (cu_session c) (fl_messages w),
         tw_holding := filter (\<lambda>(_, input). in_session input \<noteq> cu_session c) (tw_holding w)\<rparr>)) (\<lambda>_. notify_cleaned c)"

definition clean_node ::
  "(entity \<Rightarrow> ('t, 'c) cleanup_operation option) \<Rightarrow> cleanup \<Rightarrow> ('t, 'c) trim_world \<Rightarrow> ('t, 'c) trim_world" where
  "clean_node handlers c w =
     (case handlers (cu_node c) of
        None \<Rightarrow> w
      | Some on_cleanup \<Rightarrow> attempt (on_cleanup c) w)"

subsection \<open>The operation\<close>

definition hold_input ::
  "(entity \<Rightarrow> ('t, 'c) cleanup_operation option) \<Rightarrow> trim \<Rightarrow> 't op_input \<Rightarrow> entity list
     \<Rightarrow> ('t, 'c) trim_world \<Rightarrow> ('t, 'c) trim_world \<times> (flow_error + unit)" where
  "hold_input handlers tm input nodes w =
     (let cleanup_id = request_of (tm_source tm) input;
          w = w\<lparr>tw_holding := hm_insert cleanup_id input (tw_holding w)\<rparr>
      in case hm_get (tw_cleaners w) (tm_source tm) of
           None \<Rightarrow> (w, Inl (Fault Broken))
         | Some contents \<Rightarrow>
             let w = w\<lparr>tw_cleaners := hm_insert (tm_source tm) (add_cleanup cleanup_id nodes contents) (tw_cleaners w)\<rparr>
             in (fold (\<lambda>node. clean_node handlers \<lparr>cu_cleaner = tm_source tm, cu_node = node,
                    cu_session = in_session input, cu_id = cleanup_id\<rparr>) nodes w, Inr ()))"

definition cancel_invalid_span ::
  "trim \<Rightarrow> 't op_input \<Rightarrow> invalid_span \<Rightarrow> ('t, 'c) trim_world \<Rightarrow> ('t, 'c) trim_world" where
  "cancel_invalid_span tm input s =
     emit_cancel (request_of (tm_source tm) input) (in_session input) (InvalidSpanCancel (is_from s) (is_to s))"

definition trim_execute ::
  "(entity, ('m) wired_node_scheme) hmap \<Rightarrow> (entity \<Rightarrow> ('t, 'c) cleanup_operation option) \<Rightarrow> trim
     \<Rightarrow> ('t, 'c) trim_world \<Rightarrow> ('t, 'c) trim_world \<times> (flow_error + unit)" where
  "trim_execute nodes handlers tm =
     ebind (receive (tm_source tm)) (\<lambda>input w.
       case tw_nodes w of
         Some (Inr trimmed) \<Rightarrow> hold_input handlers tm input trimmed w
       | Some (Inl s) \<Rightarrow> (cancel_invalid_span tm input s w, Inr ())
       | None \<Rightarrow>
           (case tw_scope_entry w of
              None \<Rightarrow> (w, Inl (Fault Broken))
            | Some scope_entry \<Rightarrow>
                let result = calculate_nodes scope_entry (tm_branches tm) nodes;
                    w = w\<lparr>tw_nodes := Some result\<rparr>
                in case result of
                     Inr trimmed \<Rightarrow> hold_input handlers tm input trimmed w
                   | Inl s \<Rightarrow> (cancel_invalid_span tm input s w, Inr ())))"

definition finalize_trim :: "trim \<Rightarrow> ('t, 'c) cleanup_operation" where
  "finalize_trim tm c w =
     (case hm_get (tw_holding w) (cu_id c) of
        None \<Rightarrow> (w, Inl (Fault NotReady))
      | Some input \<Rightarrow>
          let w = w\<lparr>tw_holding := AList.delete (cu_id c) (tw_holding w)\<rparr>;
              nodes = (case tw_nodes w of Some (Inr nodes) \<Rightarrow> nodes | _ \<Rightarrow> []);
              w = notify_trim (request_of (cu_cleaner c) input) nodes (in_session input)
                    (TrimmingDisposal (cu_cleaner c) nodes) w
          in send (in_session input) (tm_target tm) (in_data input) w)"

definition trigger_cleanup :: "trim \<Rightarrow> cleanup \<Rightarrow> ('t, 'c) trim_world \<Rightarrow> ('t, 'c) trim_world" where
  "trigger_cleanup tm c w =
     attempt (finalize_trim tm c) (w\<lparr>tw_cleaners := forget_cleanup c (tw_cleaners w)\<rparr>)"

subsection \<open>Cleaning all operations of the branches\<close>

text \<open>\<open>kept_messages\<close>: what is left of the messages at an operation when a session is cleaned at some operations.\<close>

definition kept_messages :: "entity \<Rightarrow> entity set \<Rightarrow> ('t, 'c, 'm) flow_world_scheme \<Rightarrow> entity \<Rightarrow> (entity \<times> 't) list" where
  "kept_messages session cleaned w x =
     (if x \<in> cleaned then filter (\<lambda>p. fst p \<noteq> session) (waiting_at x w) else waiting_at x w)"

lemma pending_cleanup_inputs:
  "pending x (cleanup_inputs n session m) = (if x = n then filter (\<lambda>p. fst p \<noteq> session) (pending x m) else pending x m)"
proof (cases "x = n")
  case True
  have "(\<lambda>p. fst p \<noteq> session) = (\<lambda>(s, _). s \<noteq> session)" by auto
  then show ?thesis unfolding \<open>(\<lambda>p. fst p \<noteq> session) = _\<close> using True by (simp add: cleanup_inputs_pending)
qed (simp add: cleanup_inputs_def pending_def split: option.split)

lemma deliverable_cleanup_inputs: "deliverable s targets m \<Longrightarrow> deliverable s targets (cleanup_inputs n session m)"
  by (auto simp: deliverable_def cleanup_inputs_def split: option.split)

lemma standard_cleanup_effect:
  assumes "awaited (tw_cleaners w) (cu_cleaner c) (cu_id c) = Some (cu_node c # ns)" and "cu_node c \<notin> set ns"
  shows "\<exists>m cleaners. attempt (standard_cleanup c) w = w\<lparr>fl_messages := m, tw_cleaners := cleaners,
        tw_finished := (if ns = [] then tw_finished w @ [c] else tw_finished w)\<rparr>
    \<and> m = cleanup_inputs (cu_node c) (cu_session c) (fl_messages w)
    \<and> awaited cleaners (cu_cleaner c) (cu_id c) = (if ns = [] then None else Some ns)"
proof -
  obtain cleaners finished r where n: "notify_cleaner c (tw_cleaners w, tw_finished w) = ((cleaners, finished), r)"
    by (metis prod.collapse)
  have "filter (\<lambda>n. n \<noteq> cu_node c) (cu_node c # ns) = ns"
    using assms(2) by (simp, intro filter_True) auto
  with notify_cleaner_cases [OF n] assms(1)
  have "finished = (if ns = [] then tw_finished w @ [c] else tw_finished w)"
    "awaited cleaners (cu_cleaner c) (cu_id c) = (if ns = [] then None else Some ns)"
    by (auto simp: Let_def)
  then show ?thesis
    using n by (intro exI [of _ "cleanup_inputs (cu_node c) (cu_session c) (fl_messages w)"] exI [of _ cleaners])
      (simp add: attempt_def standard_cleanup_def ebind_def modify_def notify_cleaned_def)
qed

lemma clean_all_nodes:
  assumes "awaited (tw_cleaners w) cleaner i = Some ns" and "distinct ns" and "ns \<noteq> []"
    and "\<And>n. n \<in> set ns \<Longrightarrow> handlers n = Some standard_cleanup" and "flows session targets w"
  shows "\<exists>m cleaners. fold (\<lambda>n. clean_node handlers \<lparr>cu_cleaner = cleaner, cu_node = n, cu_session = session, cu_id = i\<rparr>) ns w =
        w\<lparr>fl_messages := m, tw_cleaners := cleaners,
          tw_finished := tw_finished w @ [\<lparr>cu_cleaner = cleaner, cu_node = last ns, cu_session = session, cu_id = i\<rparr>]\<rparr>
    \<and> (\<forall>x. pending x m = kept_messages session (set ns) w x) \<and> deliverable session targets m"
  using assms
proof (induction ns arbitrary: w)
  case (Cons n ns)
  let ?c = "\<lparr>cu_cleaner = cleaner, cu_node = n, cu_session = session, cu_id = i\<rparr>"
  let ?m = "cleanup_inputs n session (fl_messages w)"
  obtain cleaners where s: "attempt (standard_cleanup ?c) w = w\<lparr>fl_messages := ?m, tw_cleaners := cleaners,
        tw_finished := (if ns = [] then tw_finished w @ [?c] else tw_finished w)\<rparr>"
    "awaited cleaners cleaner i = (if ns = [] then None else Some ns)"
    using standard_cleanup_effect [of w ?c ns] Cons.prems(1,2) by auto
  let ?w = "w\<lparr>fl_messages := ?m, tw_cleaners := cleaners, tw_finished := (if ns = [] then tw_finished w @ [?c] else tw_finished w)\<rparr>"
  have first: "clean_node handlers ?c w = ?w" using s(1) Cons.prems(4) by (simp add: clean_node_def)
  have deliv: "deliverable session targets ?m"
    using Cons.prems(5) unfolding flows_def by (rule deliverable_cleanup_inputs)
  show ?case
  proof (cases "ns = []")
    case True
    then show ?thesis
      using first deliv by (intro exI [of _ ?m] exI [of _ cleaners])
        (simp add: pending_cleanup_inputs kept_messages_def waiting_at_def)
  next
    case False
    have "awaited (tw_cleaners ?w) cleaner i = Some ns" using s(2) False by simp
    moreover have "flows session targets ?w" using deliv by (simp add: flows_def)
    ultimately obtain m' cleaners' where r: "fold (\<lambda>n. clean_node handlers \<lparr>cu_cleaner = cleaner, cu_node = n, cu_session = session, cu_id = i\<rparr>) ns ?w =
        ?w\<lparr>fl_messages := m', tw_cleaners := cleaners',
          tw_finished := tw_finished ?w @ [\<lparr>cu_cleaner = cleaner, cu_node = last ns, cu_session = session, cu_id = i\<rparr>]\<rparr>"
      "\<And>x. pending x m' = kept_messages session (set ns) ?w x" "deliverable session targets m'"
      using Cons.IH [of ?w] Cons.prems(2,4) False by auto
    then show ?thesis
      using first False Cons.prems(2) by (intro exI [of _ m'] exI [of _ cleaners'])
        (auto simp: kept_messages_def waiting_at_def pending_cleanup_inputs)
  qed
qed simp

lemma awaited_add: 
  "awaited (hm_insert e (add_cleanup i ns contents) m) e i = Some ns"
  by (simp add: awaited_def add_cleanup_def)

subsection \<open>Properties\<close>

text \<open>\<open>trims tm nodes w ns\<close>: the trim cleans the operations \<open>ns\<close> when it runs in \<open>w\<close>.\<close>

definition trims :: "trim \<Rightarrow> (entity, ('m) wired_node_scheme) hmap \<Rightarrow> ('t, 'c) trim_world \<Rightarrow> entity list \<Rightarrow> bool" where
  "trims tm nodes w ns \<longleftrightarrow> (\<exists>e. tw_scope_entry w = Some e \<and> calculate_nodes e (tm_branches tm) nodes = Inr ns
     \<and> tw_nodes w \<in> {None, Some (Inr ns)}) \<and> hm_get (tw_cleaners w) (tm_source tm) \<noteq> None"

lemma trims_distinct: "trims tm nodes w ns \<Longrightarrow> distinct ns"
  using sorted_distinct_sort_dedup by (auto simp: trims_def calculate_nodes_def rbind_eq_Inr)

lemma trim_holds_message:
  assumes "waiting_at (tm_source tm) w = (session, data) # rest" and "trims tm nodes w ns"
  shows "\<exists>m input contents. in_session input = session \<and> in_data input = data
    \<and> mw_status m = mw_status (fl_messages w) \<and> (\<forall>x. mw_inputs m x = None \<longleftrightarrow> mw_inputs (fl_messages w) x = None)
    \<and> (\<forall>x. pending x m = (if x = tm_source tm then rest else waiting_at x w))
    \<and> hm_get (tw_cleaners w) (tm_source tm) = Some contents
    \<and> trim_execute nodes handlers tm w = (fold (\<lambda>n. clean_node handlers \<lparr>cu_cleaner = tm_source tm, cu_node = n,
            cu_session = session, cu_id = request_of (tm_source tm) input\<rparr>) ns
          (w\<lparr>fl_messages := m, tw_nodes := Some (Inr ns),
            tw_holding := hm_insert (request_of (tm_source tm) input) input (tw_holding w),
            tw_cleaners := hm_insert (tm_source tm) (add_cleanup (request_of (tm_source tm) input) ns contents) (tw_cleaners w)\<rparr>),
        Inr ())"
proof -
  obtain m input where r: "receive (tm_source tm) w = (w\<lparr>fl_messages := m\<rparr>, Inr input)" "in_session input = session" "in_data input = data"
    "mw_status m = mw_status (fl_messages w)" "\<And>x. mw_inputs m x = None \<longleftrightarrow> mw_inputs (fl_messages w) x = None"
    "\<And>x. pending x m = (if x = tm_source tm then rest else waiting_at x w)"
    using receive_oldest [OF assms(1)] by blast
  obtain contents where c: "hm_get (tw_cleaners w) (tm_source tm) = Some contents" using assms(2) by (auto simp: trims_def)
  have "trim_execute nodes handlers tm w = hold_input handlers tm input ns (w\<lparr>fl_messages := m, tw_nodes := Some (Inr ns)\<rparr>)"
  proof (cases "tw_nodes w")
    case None
    then show ?thesis using assms(2) r(1) by (auto simp: trim_execute_def ebind_def trims_def Let_def)
  next
    case (Some x)
    then have "tw_nodes w = Some (Inr ns)" using assms(2) by (auto simp: trims_def)
    moreover from this have "w\<lparr>fl_messages := m, tw_nodes := Some (Inr ns)\<rparr> = w\<lparr>fl_messages := m\<rparr>" by (cases w) simp
    ultimately show ?thesis using r(1) by (simp only:) (simp add: trim_execute_def ebind_def)
  qed
  then show ?thesis
    using r c by (intro exI [of _ m] exI [of _ input] exI [of _ contents]) (simp add: hold_input_def Let_def)
qed

text \<open>C25: A trim holds its message until every operation of its branches is clean, and then sends it on: after it
  ran, no message of the session waits at these operations, nothing has been sent and one cleanup is finished;
  triggering that cleanup reports each operation as disposed, once and in order, sends the message to the target
  and leaves no message held.\<close>
theorem trim_cleans_then_forwards:
  assumes "waiting_at (tm_source tm) w = (session, data) # rest" and "flows session [tm_target tm] w"
    and "trims tm nodes w ns" and "ns \<noteq> []" and "\<And>n. n \<in> set ns \<Longrightarrow> handlers n = Some standard_cleanup"
    and "tw_holding w = []"
  shows "\<exists>w1 c. trim_execute nodes handlers tm w = (w1, Inr ()) \<and> tw_finished w1 = tw_finished w @ [c]
    \<and> reports w1 = reports w
    \<and> (\<forall>x. waiting_at x w1 = filter (\<lambda>p. x \<in> set ns \<longrightarrow> fst p \<noteq> session) (if x = tm_source tm then rest else waiting_at x w))
    \<and> (let w2 = trigger_cleanup tm c w1
       in tw_holding w2 = [] \<and> fl_cancels w2 = fl_cancels w
        \<and> (\<forall>x. waiting_at x w2 = waiting_at x w1 @ (if x = tm_target tm then [(session, data)] else []))
        \<and> (\<exists>ds. fl_disposals w2 = fl_disposals w @ ds \<and> map di_disposed ds = ns
             \<and> (\<forall>d \<in> set ds. di_session d = session \<and> di_disposal d = TrimmingDisposal (tm_source tm) ns)))"
proof -
  obtain m input contents where e: "in_session input = session" "in_data input = data"
    "mw_status m = mw_status (fl_messages w)" "\<And>x. mw_inputs m x = None \<longleftrightarrow> mw_inputs (fl_messages w) x = None"
    "\<And>x. pending x m = (if x = tm_source tm then rest else waiting_at x w)"
    "trim_execute nodes handlers tm w = (fold (\<lambda>n. clean_node handlers \<lparr>cu_cleaner = tm_source tm, cu_node = n,
            cu_session = session, cu_id = request_of (tm_source tm) input\<rparr>) ns
          (w\<lparr>fl_messages := m, tw_nodes := Some (Inr ns),
            tw_holding := hm_insert (request_of (tm_source tm) input) input (tw_holding w),
            tw_cleaners := hm_insert (tm_source tm) (add_cleanup (request_of (tm_source tm) input) ns contents) (tw_cleaners w)\<rparr>),
        Inr ())"
    using trim_holds_message [OF assms(1,3), of handlers] by blast
  let ?id = "request_of (tm_source tm) input"
  let ?c = "\<lparr>cu_cleaner = tm_source tm, cu_node = last ns, cu_session = session, cu_id = ?id\<rparr>"
  let ?w = "w\<lparr>fl_messages := m, tw_nodes := Some (Inr ns), tw_holding := hm_insert ?id input (tw_holding w),
      tw_cleaners := hm_insert (tm_source tm) (add_cleanup ?id ns contents) (tw_cleaners w)\<rparr>"
  have "flows session [tm_target tm] ?w" using assms(2) e(3,4) by (simp add: flows_def deliverable_def)
  then obtain m' cleaners where f: "trim_execute nodes handlers tm w =
      (?w\<lparr>fl_messages := m', tw_cleaners := cleaners, tw_finished := tw_finished w @ [?c]\<rparr>, Inr ())"
    "\<And>x. pending x m' = kept_messages session (set ns) ?w x" "deliverable session [tm_target tm] m'"
    using clean_all_nodes [of ?w "tm_source tm" ?id ns handlers session "[tm_target tm]"]
      trims_distinct [OF assms(3)] assms(4,5) e(6) by (auto simp: awaited_add)
  let ?w1 = "?w\<lparr>fl_messages := m', tw_cleaners := cleaners, tw_finished := tw_finished w @ [?c]\<rparr>"
  have kept: "waiting_at x ?w1 = filter (\<lambda>p. x \<in> set ns \<longrightarrow> fst p \<noteq> session) (if x = tm_source tm then rest else waiting_at x w)" for x
    using f(2) [of x] e(5) by (auto simp: waiting_at_def kept_messages_def)
  let ?d = "TrimmingDisposal (tm_source tm) ns"
  let ?w2 = "notify_trim ?id ns session ?d (?w1\<lparr>tw_cleaners := forget_cleanup ?c cleaners, tw_holding := []\<rparr>)"
  have "flows session [tm_target tm] ?w2" using f(3) by (simp add: flows_def notify_trim_def)
  then obtain m2 roster2 where s: "send session (tm_target tm) data ?w2 = (?w2\<lparr>fl_messages := m2, fl_roster := roster2\<rparr>, Inr ())"
    "\<And>x. pending x m2 = waiting_at x ?w2 @ (if x = tm_target tm then [(session, data)] else [])"
    using send_flows [of session "[tm_target tm]" ?w2 "tm_target tm" data] by auto
  have t: "trigger_cleanup tm ?c ?w1 = ?w2\<lparr>fl_messages := m2, fl_roster := roster2\<rparr>"
    using s(1) assms(6) e(1,2) by (simp add: trigger_cleanup_def attempt_def finalize_trim_def Let_def)
  have "fl_disposals (trigger_cleanup tm ?c ?w1) = fl_disposals w @ map (\<lambda>n. \<lparr>di_session = session, di_listener = session,
      di_trigger = ?id, di_disposed = n, di_disposal = ?d\<rparr>) ns"
    unfolding t by (simp add: notify_trim_def)
  then have "\<exists>ds. fl_disposals (trigger_cleanup tm ?c ?w1) = fl_disposals w @ ds \<and> map di_disposed ds = ns
      \<and> (\<forall>d \<in> set ds. di_session d = session \<and> di_disposal d = ?d)"
    by (auto simp: o_def intro!: exI)
  moreover have "waiting_at x (trigger_cleanup tm ?c ?w1) = waiting_at x ?w1 @ (if x = tm_target tm then [(session, data)] else [])" for x
    unfolding t using s(2) [of x] by (simp add: waiting_at_def notify_trim_def)
  moreover have "tw_holding (trigger_cleanup tm ?c ?w1) = []" "fl_cancels (trigger_cleanup tm ?c ?w1) = fl_cancels w"
    unfolding t by (simp_all add: notify_trim_def)
  moreover have "tw_finished ?w1 = tw_finished w @ [?c]" "reports ?w1 = reports w" by (simp_all add: reports_def)
  ultimately show ?thesis using f(1) kept by (intro exI [of _ ?w1] exI [of _ ?c]) (simp add: Let_def)
qed

text \<open>Operation 2 is trimmed by operation 3, which sends on to 4; two messages wait at 2 and one at 3.\<close>

definition demo_trim_nodes :: "(entity, wired_node) hmap" where
  "demo_trim_nodes =
     (let blank = \<lparr>wn_single_input = None, wn_single_target = None, wn_fork_targets = None, wn_streams = None,
        wn_entry_for = None, wn_enter_scope = None\<rparr>
      in [(1, blank\<lparr>wn_single_target := Some 2\<rparr>), (2, blank), (3, blank\<lparr>wn_single_target := Some 4\<rparr>), (4, blank)])"

definition demo_trim :: "trim_branch list \<Rightarrow> trim" where
  "demo_trim branches = \<lparr>tm_source = 3, tm_target = 4, tm_branches = branches\<rparr>"

definition demo_trim_world :: "(nat, nat) trim_world" where
  "demo_trim_world =
     \<lparr>fl_messages = \<lparr>mw_inputs = (\<lambda>e. if e = 3 then Some \<lparr>ins_reverse_queue = [\<lparr>in_session = 7, in_seq = 0, in_data = 5\<rparr>], ins_sequence = 1\<rparr>
          else if e = 2 then Some \<lparr>ins_reverse_queue = [\<lparr>in_session = 8, in_seq = 1, in_data = 2\<rparr>, \<lparr>in_session = 7, in_seq = 0, in_data = 1\<rparr>], ins_sequence = 2\<rparr>
          else if e = 4 then Some input_storage_new else None),
        mw_unused_target = (\<lambda>_. False), mw_detached = (\<lambda>_. None), mw_status = (\<lambda>s. if s = 7 then Some Active else None),
        mw_progress = (\<lambda>_. None), mw_cancelled = [], mw_mismatches = []\<rparr>,
      fl_roster = empty_roster, fl_disposals = [], fl_cancels = [],
      tw_scope_entry = Some 1, tw_nodes = None, tw_holding = [], tw_cleaners = [(3, [])], tw_finished = []\<rparr>"

lemma demo_trim_world_facts:
  "waiting_at 3 demo_trim_world = [(7, 5)]" "waiting_at 2 demo_trim_world = [(7, 1), (8, 2)]" "waiting_at 4 demo_trim_world = []"
  "flows 7 [4] demo_trim_world"
  "tw_scope_entry demo_trim_world = Some 1" "tw_nodes demo_trim_world = None" "tw_holding demo_trim_world = []"
  "hm_get (tw_cleaners demo_trim_world) 3 = Some []" "tw_finished demo_trim_world = []"
  by (simp_all add: demo_trim_world_def waiting_at_def pending_def input_storage_new_def flows_def deliverable_def)

lemma demo_trim_simps [simp]:
  "tm_source (demo_trim bs) = 3" "tm_target (demo_trim bs) = 4" "tm_branches (demo_trim bs) = bs"
  by (simp_all add: demo_trim_def)

lemma trim_cleans_then_forwards_witness:
  "\<exists>w1 c. trim_execute demo_trim_nodes (\<lambda>_. Some standard_cleanup) (demo_trim [trim_single_point 2]) demo_trim_world = (w1, Inr ())
     \<and> waiting_at 2 w1 = [(8, 2)] \<and> waiting_at 4 w1 = [] \<and> tw_finished w1 = [c]
     \<and> waiting_at 4 (trigger_cleanup (demo_trim [trim_single_point 2]) c w1) = [(7, 5)]"
proof -
  have "calculate_nodes 1 [trim_single_point 2] demo_trim_nodes = Inr [2]" by code_simp
  then have "trims (demo_trim [trim_single_point 2]) demo_trim_nodes demo_trim_world [2]"
    by (simp add: trims_def demo_trim_world_facts)
  from trim_cleans_then_forwards [OF _ _ this, of 7 5 "[]" "\<lambda>_. Some standard_cleanup"] obtain w1 c where
    "trim_execute demo_trim_nodes (\<lambda>_. Some standard_cleanup) (demo_trim [trim_single_point 2]) demo_trim_world = (w1, Inr ())"
    "tw_finished w1 = [c]"
    "\<And>x. waiting_at x w1 = filter (\<lambda>p. x \<in> {2} \<longrightarrow> fst p \<noteq> 7) (if x = 3 then [] else waiting_at x demo_trim_world)"
    "\<And>x. waiting_at x (trigger_cleanup (demo_trim [trim_single_point 2]) c w1) = waiting_at x w1 @ (if x = 4 then [(7, 5)] else [])"
    by (auto simp: demo_trim_world_facts Let_def)
  then show ?thesis by (intro exI [of _ w1] exI [of _ c]) (simp add: demo_trim_world_facts)
qed

lemma calculate_nodes_nothing:
  "(\<And>b. b \<in> set branches \<Longrightarrow> tb_policy b = TrimSpan []) \<Longrightarrow> calculate_nodes e branches nodes = Inr []"
proof -
  assume *: "\<And>b. b \<in> set branches \<Longrightarrow> tb_policy b = TrimSpan []"
  have "rfold (extend_nodes (\<lambda>b. branch_nodes e b nodes)) [] branches = Inr []"
    using * by (induction branches) (simp_all add: extend_nodes_def branch_nodes_def calculate_all_spans_def sort_dedup_def)
  then show ?thesis by (simp add: calculate_nodes_def)
qed

text \<open>A trim whose branches are all spans without end points, or that has no branches, never sends its
  message: it holds the message and waits for the cleanup of no operation, so that no operation reports to it and
  no cleanup of it is ever finished.\<close>
theorem trim_of_nothing_keeps_message:
  assumes "waiting_at (tm_source tm) w = (session, data) # rest"
    and "\<And>b. b \<in> set (tm_branches tm) \<Longrightarrow> tb_policy b = TrimSpan []"
    and "tw_nodes w = None" and "tw_scope_entry w \<noteq> None" and "hm_get (tw_cleaners w) (tm_source tm) \<noteq> None"
  shows "\<exists>w1 input. trim_execute nodes handlers tm w = (w1, Inr ())
    \<and> hm_get (tw_holding w1) (request_of (tm_source tm) input) = Some input \<and> in_session input = session \<and> in_data input = data
    \<and> awaited (tw_cleaners w1) (tm_source tm) (request_of (tm_source tm) input) = Some []
    \<and> tw_finished w1 = tw_finished w \<and> reports w1 = reports w
    \<and> (\<forall>x. waiting_at x w1 = (if x = tm_source tm then rest else waiting_at x w))"
proof -
  have "trims tm nodes w []" using calculate_nodes_nothing [OF assms(2)] assms(3-5) by (auto simp: trims_def)
  from trim_holds_message [OF assms(1) this, of handlers] obtain m input contents where
    "in_session input = session" "in_data input = data" "\<And>x. pending x m = (if x = tm_source tm then rest else waiting_at x w)"
    "trim_execute nodes handlers tm w = (w\<lparr>fl_messages := m, tw_nodes := Some (Inr []),
        tw_holding := hm_insert (request_of (tm_source tm) input) input (tw_holding w),
        tw_cleaners := hm_insert (tm_source tm) (add_cleanup (request_of (tm_source tm) input) [] contents) (tw_cleaners w)\<rparr>, Inr ())"
    by auto
  then show ?thesis
    by (intro exI [of _ "fst (trim_execute nodes handlers tm w)"] exI [of _ input])
      (simp add: awaited_add reports_def waiting_at_def)
qed

lemma trim_of_nothing_keeps_message_witness:
  "\<exists>w1. trim_execute demo_trim_nodes (\<lambda>_. Some standard_cleanup) (demo_trim [trim_span \<lparr>tp_id = 2, tp_inclusive = True\<rparr> []]) demo_trim_world = (w1, Inr ())
     \<and> waiting_at 3 w1 = [] \<and> waiting_at 4 w1 = [] \<and> tw_finished w1 = [] \<and> tw_holding w1 \<noteq> []"
proof -
  let ?tm = "demo_trim [trim_span \<lparr>tp_id = 2, tp_inclusive = True\<rparr> []]"
  obtain w1 input where "trim_execute demo_trim_nodes (\<lambda>_. Some standard_cleanup) ?tm demo_trim_world = (w1, Inr ())"
    "hm_get (tw_holding w1) (request_of 3 input) = Some input" "tw_finished w1 = []"
    "\<And>x. waiting_at x w1 = (if x = 3 then [] else waiting_at x demo_trim_world)"
    using trim_of_nothing_keeps_message [of ?tm demo_trim_world 7 5 "[]" demo_trim_nodes "\<lambda>_. Some standard_cleanup"]
    by (auto simp: demo_trim_world_facts trim_span_def)
  then show ?thesis by (intro exI [of _ w1]) (auto simp: demo_trim_world_facts)
qed

end
