(* ===== verification/Registration.thy ===== *)
theory Registration
  imports Registry
begin

text \<open>
  Registering message types, \<open>src/src/diagram/registration/message_registration.rs\<close>,
  \<open>common_operations.rs\<close>, \<open>message_operations.rs\<close>, \<open>registration_metadata.rs\<close> and the
  \<open>register_*\<close> functions of the schemas.

  The registry keeps its registrations in a vector and an index by type. \<open>get_or_insert\<close> reads the
  vector at the index without a check; \<open>well_registered\<close> is the invariant that makes this safe.
  The type parameters \<open>Serializer\<close>, \<open>Deserializer\<close> and \<open>Cloneable\<close>, which are \<open>Supported\<close> or
  \<open>NotSupported\<close>, are booleans.
\<close>

subsection \<open>Inserting message types\<close>

definition new_message_registration ::
  "type_info \<Rightarrow> message_operations option \<Rightarrow> message_registrations \<Rightarrow> message_registrations \<times> nat" where
  "new_message_registration t ops self =
     (let index = length (mrs_messages self);
          lookup = mrs_reverse_lookup self;
          lookup = (if t = json_message_type_name then lookup\<lparr>rml_json_message := Some index\<rparr> else lookup);
          lookup = (if t = script_message_type_name then lookup\<lparr>rml_script_message := Some index\<rparr> else lookup)
      in (self\<lparr>mrs_reverse_lookup := lookup,
               mrs_indices := hm_insert t index (mrs_indices self),
               mrs_messages := mrs_messages self @ [\<lparr>mrg_type_info = t, mrg_operations = ops\<rparr>]\<rparr>, index))"

definition get_index_or_insert :: "type_info \<Rightarrow> message_registrations \<Rightarrow> message_registrations \<times> nat" where
  "get_index_or_insert t self =
     (case hm_get (mrs_indices self) t of
        Some index \<Rightarrow> (self, index)
      | None \<Rightarrow> new_message_registration t (Some message_operations_new) self)"

definition get_index_or_insert_placeholder ::
  "type_info \<Rightarrow> message_registrations \<Rightarrow> message_registrations \<times> nat" where
  "get_index_or_insert_placeholder t self =
     (case hm_get (mrs_indices self) t of
        Some index \<Rightarrow> (self, index)
      | None \<Rightarrow> new_message_registration t None self)"

text \<open>
  \<open>get_or_insert_operations\<close> returns a mutable reference, so the model takes the change to make. An
  index without a registration makes \<open>unwrap\<close> panic.
\<close>

definition with_operations ::
  "type_info \<Rightarrow> (message_operations \<Rightarrow> message_operations) \<Rightarrow> message_registrations
     \<Rightarrow> diagram_error_code fault + message_registrations" where
  "with_operations t f self =
     (let (self, index) = get_index_or_insert t self
      in if index < length (mrs_messages self)
         then let r = mrs_messages self ! index;
                  ops = (case mrg_operations r of None \<Rightarrow> message_operations_new | Some ops \<Rightarrow> ops)
              in Inr (self\<lparr>mrs_messages := (mrs_messages self)[index := r\<lparr>mrg_operations := Some (f ops)\<rparr>]\<rparr>)
         else Inl (Panicked ''called Option::unwrap() on a None value''))"

subsection \<open>Serialising, deserialising and cloning\<close>

definition serialize_closure :: "type_info \<Rightarrow> type_info" where
  "serialize_closure t = ''{closure in register_serialize for '' @ t @ ''}''"

definition deserialize_closure :: "type_info \<Rightarrow> type_info" where
  "deserialize_closure t = ''{closure in register_deserialize for '' @ t @ ''}''"

definition serialize_fn :: "type_info \<Rightarrow> type_info" where
  "serialize_fn t = ''fn('' @ t @ '') -> Result<JsonMessage, String>''"

definition deserialize_fn :: "type_info \<Rightarrow> type_info" where
  "deserialize_fn t = ''fn(&JsonMessage) -> Result<'' @ t @ '', String>''"

text \<open>A map whose result is forked: the body of the closures that serialise and deserialise.\<close>

definition fallible_map ::
  "type_info \<Rightarrow> type_info \<Rightarrow> type_info \<Rightarrow> scope_context \<Rightarrow> commands \<Rightarrow> commands \<times> dyn_fork_result" where
  "fallible_map request ok err sc s =
     (let (s, node) = create_map_block request (result_type_name ok err) sc s;
          (s, ok_output, err_output) = chain_fork_result ok err (dyo_target (dn_output node)) sc s
      in (s, \<lparr>dfr_input = dn_input node, dfr_ok = ok_output, dfr_err = err_output\<rparr>))"

definition register_serialize ::
  "bool \<Rightarrow> type_info \<Rightarrow> message_registrations \<Rightarrow> diagram_error_code fault + message_registrations" where
  "register_serialize supported t self =
     (if supported
      then with_operations t (\<lambda>ops. ops\<lparr>mop_serialize := Some
             \<lparr>ser_into_json_message = (\<lambda>sc. infallible (fallible_map t json_message_type_name string_type_name sc)),
              ser_serialize = serialize_closure t\<rparr>\<rparr>) self
      else Inr self)"

definition register_deserialize ::
  "bool \<Rightarrow> type_info \<Rightarrow> message_registrations \<Rightarrow> diagram_error_code fault + message_registrations" where
  "register_deserialize supported t self =
     (if supported
      then with_operations t (\<lambda>ops. ops\<lparr>mop_deserialize := Some
             \<lparr>des_create_node = (\<lambda>sc. infallible (fallible_map json_message_type_name t string_type_name sc)),
              des_deserialize = deserialize_closure t\<rparr>\<rparr>) self
      else Inr self)"

definition fork_clone_of :: "type_info \<Rightarrow> scope_context \<Rightarrow> dyn_fork_clone build" where
  "fork_clone_of t sc =
     ebind (infallible (create_fork_clone t sc)) (\<lambda>input.
       return \<lparr>dfc_input = input,
               dfc_clone_output = (\<lambda>sc'. if dis_scope input = sc_scope sc'
                 then infallible (fork_clone_branch t (dis_scope input) (dis_source input))
                 else (\<lambda>s. (s, Inl (Panicked ''assertion failed: self.scope == builder.scope()''))))\<rparr>)"

definition clone_registered :: "type_info \<Rightarrow> message_registrations \<Rightarrow> bool" where
  "clone_registered t self =
     (case get_operations self t of Inr ops \<Rightarrow> mop_fork_clone ops \<noteq> None | Inl _ \<Rightarrow> False)"

definition register_clone ::
  "bool \<Rightarrow> type_info \<Rightarrow> message_registrations \<Rightarrow> diagram_error_code fault + message_registrations" where
  "register_clone cloneable t self =
     (if cloneable \<and> \<not> clone_registered t self
      then rbind (with_operations t (\<lambda>ops. ops\<lparr>mop_fork_clone := Some (fork_clone_of t)\<rparr>) self) (\<lambda>self.
             Inr (self\<lparr>mrs_join_clones := t # mrs_join_clones self\<rparr>))
      else with_operations t (\<lambda>ops. ops) self)"

text \<open>\<open>CommonOperations::impl_register_message\<close>.\<close>

definition impl_register_message ::
  "bool \<Rightarrow> bool \<Rightarrow> bool \<Rightarrow> type_info \<Rightarrow> message_registrations
     \<Rightarrow> diagram_error_code fault + (message_registrations \<times> nat)" where
  "impl_register_message deserializable serializable cloneable t self =
     (let (self, index) = get_index_or_insert t self
      in rbind (register_deserialize deserializable t self) (\<lambda>self.
         rbind (register_serialize serializable t self) (\<lambda>self.
         rbind (register_clone cloneable t self) (\<lambda>self. Inr (self, index)))))"

subsection \<open>Conversions\<close>

definition mapping_into :: "type_info \<Rightarrow> type_info \<Rightarrow> create_into" where
  "mapping_into t u sc s =
     (let (s, node) = create_map_block t u sc s in (s, dn_input node, dn_output node))"

definition with_mapping_into ::
  "type_info \<Rightarrow> type_info \<Rightarrow> message_registrations \<Rightarrow> diagram_error_code fault + message_registrations" where
  "with_mapping_into t u self =
     (let (self, u_index) = get_index_or_insert u self
      in rbind (with_operations t (\<lambda>ops. ops\<lparr>mop_into_impls :=
             hm_insert u_index (mapping_into t u) (mop_into_impls ops)\<rparr>) self) (\<lambda>self.
         let (self, message_index) = get_index_or_insert t self
         in with_operations u (\<lambda>ops. ops\<lparr>mop_from_impls :=
             hm_insert message_index (mapping_into t u) (mop_from_impls ops)\<rparr>) self))"

definition mapping_try_into :: "type_info \<Rightarrow> type_info \<Rightarrow> create_try_into" where
  "mapping_try_into t u sc s =
     (let (s, node) = create_map_block t (result_type_name u string_type_name) sc s;
          (s, fork) = create_fork_result u string_type_name sc s;
          s = queue_command (ConnectTarget (dyo_target (dn_output node)) (dis_source (dfr_input fork))) s
      in (s, \<lparr>dfr_input = dn_input node, dfr_ok = dfr_ok fork, dfr_err = dfr_err fork\<rparr>))"

definition with_mapping_try_into ::
  "type_info \<Rightarrow> type_info \<Rightarrow> message_registrations \<Rightarrow> diagram_error_code fault + message_registrations" where
  "with_mapping_try_into t u self =
     (let (self, u_index) = get_index_or_insert u self
      in rbind (with_operations t (\<lambda>ops. ops\<lparr>mop_try_into_impls :=
             hm_insert u_index (mapping_try_into t u) (mop_try_into_impls ops)\<rparr>) self) (\<lambda>self.
         let (self, message_index) = get_index_or_insert t self
         in with_operations u (\<lambda>ops. ops\<lparr>mop_try_from_impls :=
             hm_insert message_index (mapping_try_into t u) (mop_try_from_impls ops)\<rparr>) self))"

definition register_to_string ::
  "type_info \<Rightarrow> message_registrations \<Rightarrow> diagram_error_code fault + message_registrations" where
  "register_to_string t self =
     with_operations t (\<lambda>ops. ops\<lparr>mop_to_string := Some (create_map_block t string_type_name)\<rparr>) self"

subsection \<open>Forks and splits\<close>

fun register_elements ::
  "bool \<Rightarrow> bool \<Rightarrow> type_info list \<Rightarrow> message_registrations
     \<Rightarrow> diagram_error_code fault + (message_registrations \<times> nat list)" where
  "register_elements serializer cloneable [] self = Inr (self, [])"
| "register_elements serializer cloneable (t # ts) self =
     rbind (register_serialize serializer t self) (\<lambda>self.
     rbind (register_clone cloneable t self) (\<lambda>self.
       let (self, index) = get_index_or_insert t self
       in rbind (register_elements serializer cloneable ts self) (\<lambda>(self, indices).
            Inr (self, index # indices))))"

definition register_unzip ::
  "bool \<Rightarrow> bool \<Rightarrow> type_info \<Rightarrow> type_info list \<Rightarrow> message_registrations
     \<Rightarrow> diagram_error_code fault + message_registrations" where
  "register_unzip serializer cloneable t ts self =
     rbind (register_elements serializer cloneable ts self) (\<lambda>(self, output_types).
       let (self, unzip_index) = get_index_or_insert t self;
           lookup = mrs_reverse_lookup self;
           self = self\<lparr>mrs_reverse_lookup :=
             lookup\<lparr>rml_unzip := hm_insert output_types unzip_index (rml_unzip lookup)\<rparr>\<rparr>
       in with_operations t (\<lambda>ops.
            if mop_unzip ops \<noteq> None then ops
            else ops\<lparr>mop_unzip := Some
              \<lparr>uzr_create = (\<lambda>sc. ebind (infallible (create_unzip t ts sc)) (\<lambda>(input, outputs).
                  return \<lparr>dun_input = input, dun_outputs = outputs\<rparr>)),
               uzr_output_types = output_types\<rparr>\<rparr>) self)"

definition register_fork_result ::
  "bool \<Rightarrow> bool \<Rightarrow> type_info \<Rightarrow> type_info \<Rightarrow> message_registrations
     \<Rightarrow> diagram_error_code fault + message_registrations" where
  "register_fork_result serializer cloneable t e self =
     rbind (register_serialize serializer t self) (\<lambda>self.
     rbind (register_clone cloneable t self) (\<lambda>self.
     rbind (register_serialize serializer e self) (\<lambda>self.
     rbind (register_clone cloneable e self) (\<lambda>self.
       let (self, t_index) = get_index_or_insert t self;
           (self, e_index) = get_index_or_insert e self
       in rbind (with_operations (result_type_name t e) (\<lambda>ops. ops\<lparr>mop_fork_result := Some
              \<lparr>frr_create = (\<lambda>sc. infallible (create_fork_result t e sc)),
               frr_output_types = (t_index, e_index)\<rparr>\<rparr>) self) (\<lambda>self.
          let (self, result_type) = get_index_or_insert (result_type_name t e) self;
              lookup = mrs_reverse_lookup self
          in Inr (self\<lparr>mrs_reverse_lookup :=
               lookup\<lparr>rml_result := hm_insert (t_index, e_index) result_type (rml_result lookup)\<rparr>\<rparr>))))))"

definition vec_type_name :: "type_info \<Rightarrow> type_info" where
  "vec_type_name t = ''alloc::vec::Vec<'' @ t @ ''>''"

definition register_split ::
  "bool \<Rightarrow> bool \<Rightarrow> type_info \<Rightarrow> type_info \<Rightarrow> (split_schema \<Rightarrow> scope_context \<Rightarrow> dyn_split build)
     \<Rightarrow> message_registrations \<Rightarrow> diagram_error_code fault + message_registrations" where
  "register_split serializer cloneable t item create self =
     (let (self, splittable_type) = get_index_or_insert t self;
          (self, output_type) = get_index_or_insert item self
      in rbind (with_operations t (\<lambda>ops. ops\<lparr>mop_split := Some
             \<lparr>spr_create = create, spr_output_type = output_type\<rparr>\<rparr>) self) (\<lambda>self.
         rbind (register_serialize serializer item self) (\<lambda>self.
         rbind (register_clone cloneable item self) (\<lambda>self.
         rbind (register_serialize serializer (vec_type_name item) self) (\<lambda>self.
         rbind (register_clone cloneable (vec_type_name item) self) (\<lambda>self.
           let lookup = mrs_reverse_lookup self
           in Inr (self\<lparr>mrs_reverse_lookup :=
                lookup\<lparr>rml_split := hm_entry output_type [] (\<lambda>ts. ts @ [splittable_type]) (rml_split lookup)\<rparr>\<rparr>)))))))"

subsection \<open>Buffers\<close>

text \<open>
  The layout of the buffers of a message type is a trait of the type: \<open>layout\<close> checks a buffer map
  against it, \<open>hints\<close> are its exported hints.
\<close>

definition register_join ::
  "(buffer_map \<Rightarrow> incompatible_layout + unit) \<Rightarrow> nat layout_hints \<Rightarrow> type_info \<Rightarrow> message_registrations
     \<Rightarrow> diagram_error_code fault + message_registrations" where
  "register_join layout hints t self =
     with_operations t (\<lambda>ops. ops\<lparr>mop_join := Some
       \<lparr>jnr_create = try_join layout t, jnr_layout = hints\<rparr>\<rparr>) self"

text \<open>\<open>downcast_ref\<close> succeeds if the value has exactly the type that is asked for.\<close>

definition downcast :: "type_info \<Rightarrow> type_info \<Rightarrow> type_info \<Rightarrow> unit build" where
  "downcast actual expected reported =
     (if actual = expected then return () else raise_code (InvalidDowncast actual reported))"

definition buffer_access_registration_of ::
  "(buffer_map \<Rightarrow> incompatible_layout + unit) \<Rightarrow> nat layout_hints \<Rightarrow> type_info \<Rightarrow> nat \<Rightarrow> type_info
     \<Rightarrow> buffer_access_registration" where
  "buffer_access_registration_of layout hints request request_message t =
     \<lparr>bar_create = try_create_buffer_access layout request t,
      bar_into_script_message = (\<lambda>serialize sc.
        ebind (downcast serialize (serialize_fn request) (serialize_fn t)) (\<lambda>_.
          infallible (fallible_map t script_message_type_name string_type_name sc))),
      bar_from_script_message = (\<lambda>deserialize sc.
        ebind (downcast deserialize (deserialize_fn request) (deserialize_fn t)) (\<lambda>_.
          infallible (fallible_map script_message_type_name t string_type_name sc))),
      bar_metadata = \<lparr>bam_request_message = request_message, bam_layout = hints\<rparr>\<rparr>"

definition register_buffer_access ::
  "(buffer_map \<Rightarrow> incompatible_layout + unit) \<Rightarrow> nat layout_hints \<Rightarrow> type_info \<Rightarrow> type_info
     \<Rightarrow> message_registrations \<Rightarrow> diagram_error_code fault + message_registrations" where
  "register_buffer_access layout hints request t self =
     (let (self, request_message) = get_index_or_insert request self
      in with_operations t (\<lambda>ops. ops\<lparr>mop_buffer_access := Some
           (buffer_access_registration_of layout hints request request_message t)\<rparr>) self)"

definition register_listen ::
  "(buffer_map \<Rightarrow> incompatible_layout + unit) \<Rightarrow> nat layout_hints \<Rightarrow> type_info \<Rightarrow> message_registrations
     \<Rightarrow> diagram_error_code fault + message_registrations" where
  "register_listen layout hints t self =
     with_operations t (\<lambda>ops. ops\<lparr>mop_listen := Some
       \<lparr>lsr_create = try_listen layout t,
        lsr_into_script_message = (\<lambda>sc. infallible (fallible_map t script_message_type_name string_type_name sc)),
        lsr_from_script_message = (\<lambda>sc. infallible (fallible_map script_message_type_name t string_type_name sc)),
        lsr_layout = hints\<rparr>\<rparr>) self"

subsection \<open>Metadata\<close>

text \<open>
  What the inference may assume of a message type: \<open>supports_into_script_message\<close>,
  \<open>supports_from_script_message\<close>, \<open>MessageOperationsMetadata::new\<close> and the list of all of these.
\<close>

definition request_supports ::
  "message_registrations \<Rightarrow> (message_operations \<Rightarrow> 'a option) \<Rightarrow> message_operations \<Rightarrow> bool" where
  "request_supports self field ops =
     (case mop_buffer_access ops of
        None \<Rightarrow> False
      | Some access \<Rightarrow>
          (case get_by_index self (bam_request_message (bar_metadata access)) of
             Inl _ \<Rightarrow> False
           | Inr req \<Rightarrow>
               (case mrg_operations req of None \<Rightarrow> False | Some req_ops \<Rightarrow> field req_ops \<noteq> None)))"

definition supports_into_script_message :: "message_registrations \<Rightarrow> message_operations \<Rightarrow> bool" where
  "supports_into_script_message self ops \<longleftrightarrow>
     (case get_index_dyn self script_message_type_name of
        Inl _ \<Rightarrow> False
      | Inr script_idx \<Rightarrow> script_idx \<in> dom (hm_get (mop_into_impls ops))
          \<or> script_idx \<in> dom (hm_get (mop_try_into_impls ops)))
     \<or> request_supports self mop_serialize ops \<or> mop_listen ops \<noteq> None \<or> mop_serialize ops \<noteq> None"

definition supports_from_script_message :: "message_registrations \<Rightarrow> message_operations \<Rightarrow> bool" where
  "supports_from_script_message self ops \<longleftrightarrow>
     (case get_index_dyn self script_message_type_name of
        Inl _ \<Rightarrow> False
      | Inr script_idx \<Rightarrow> script_idx \<in> dom (hm_get (mop_from_impls ops))
          \<or> script_idx \<in> dom (hm_get (mop_try_from_impls ops)))
     \<or> request_supports self mop_deserialize ops \<or> mop_listen ops \<noteq> None \<or> mop_deserialize ops \<noteq> None"

definition metadata_of_operations ::
  "message_registrations \<Rightarrow> message_operations \<Rightarrow> message_operations_metadata" where
  "metadata_of_operations self ops =
     \<lparr>mo_deserialize = mop_deserialize ops \<noteq> None,
      mo_serialize = mop_serialize ops \<noteq> None,
      mo_into_script_message = supports_into_script_message self ops,
      mo_from_script_message = supports_from_script_message self ops,
      mo_fork_clone = mop_fork_clone ops \<noteq> None,
      mo_unzip = map_option uzr_output_types (mop_unzip ops),
      mo_fork_result = map_option frr_output_types (mop_fork_result ops),
      mo_split = map_option spr_output_type (mop_split ops),
      mo_join = map_option jnr_layout (mop_join ops),
      mo_buffer_access = map_option bar_metadata (mop_buffer_access ops),
      mo_listen = map_option lsr_layout (mop_listen ops),
      mo_into = hm_keys (mop_into_impls ops),
      mo_try_into = hm_keys (mop_try_into_impls ops),
      mo_from = hm_keys (mop_from_impls ops),
      mo_try_from = hm_keys (mop_try_from_impls ops)\<rparr>"

definition registrations_metadata :: "message_registrations \<Rightarrow> message_metadata list" where
  "registrations_metadata self =
     map (\<lambda>r. \<lparr>mm_type_name = mrg_type_info r,
               mm_operations = map_option (metadata_of_operations self) (mrg_operations r)\<rparr>)
       (mrs_messages self)"

end
