(* ===== verification/RegistryProofs.thy ===== *)
theory RegistryProofs
  imports Registration
begin

text \<open>
  What registration keeps. \<open>well_registered\<close> states that the vector of registrations and the map of
  indices describe each other; \<open>mirrored_conversions\<close> that a conversion is known at both of its ends.
  A registry is seen as the pair of its map of indices and the function \<open>operations_at\<close>: inserting a
  type changes the first only (\<open>get_index_or_insert_spec\<close>), \<open>with_operations\<close> updates the second at one
  point (\<open>with_operations_spec\<close>). The steps of registration are then evaluated on this view.
\<close>

definition well_registered :: "message_registrations \<Rightarrow> bool" where
  "well_registered self \<longleftrightarrow>
     (\<forall>t i. hm_get (mrs_indices self) t = Some i \<longleftrightarrow>
        i < length (mrs_messages self) \<and> mrg_type_info (mrs_messages self ! i) = t)"

definition operations_at :: "message_registrations \<Rightarrow> nat \<Rightarrow> message_operations" where
  "operations_at self i =
     (if i < length (mrs_messages self)
      then (case mrg_operations (mrs_messages self ! i) of None \<Rightarrow> message_operations_new | Some ops \<Rightarrow> ops)
      else message_operations_new)"

definition mirrored_conversions :: "(nat \<Rightarrow> message_operations) \<Rightarrow> bool" where
  "mirrored_conversions ops \<longleftrightarrow>
     (\<forall>i j. hm_get (mop_into_impls (ops i)) j = hm_get (mop_from_impls (ops j)) i
        \<and> hm_get (mop_try_into_impls (ops i)) j = hm_get (mop_try_from_impls (ops j)) i)"

definition keeps_indices :: "message_registrations \<Rightarrow> message_registrations \<Rightarrow> bool" where
  "keeps_indices self self' \<longleftrightarrow> hm_get (mrs_indices self) \<subseteq>\<^sub>m hm_get (mrs_indices self')"

lemma keeps_indices_refl [simp]: "keeps_indices self self"
  by (simp add: keeps_indices_def)

lemma keeps_indices_trans: "keeps_indices a b \<Longrightarrow> keeps_indices b c \<Longrightarrow> keeps_indices a c"
  unfolding keeps_indices_def by (rule map_le_trans)

lemma keeps_indices_get:
  "keeps_indices self self' \<Longrightarrow> hm_get (mrs_indices self) t = Some i \<Longrightarrow> hm_get (mrs_indices self') t = Some i"
  by (auto simp: keeps_indices_def map_le_def dom_def)

lemma well_registered_range:
  "well_registered self \<Longrightarrow> hm_get (mrs_indices self) t = Some i \<Longrightarrow> i < length (mrs_messages self)"
  by (simp add: well_registered_def)

lemma new_message_registration_spec:
  assumes "well_registered self" and "hm_get (mrs_indices self) t = None"
    and "new_message_registration t ops self = (self', i)" and "ops = None \<or> ops = Some message_operations_new"
  shows "well_registered self'" and "keeps_indices self self'" and "hm_get (mrs_indices self') t = Some i"
    and "operations_at self' = operations_at self" and "mrs_join_clones self' = mrs_join_clones self"
proof -
  from assms(3) have self': "mrs_messages self' = mrs_messages self @ [\<lparr>mrg_type_info = t, mrg_operations = ops\<rparr>]"
    "hm_get (mrs_indices self') = (hm_get (mrs_indices self))(t \<mapsto> length (mrs_messages self))"
    "i = length (mrs_messages self)" "mrs_join_clones self' = mrs_join_clones self"
    by (auto simp: new_message_registration_def Let_def)
  have fresh: "mrg_type_info (mrs_messages self ! k) \<noteq> t" if "k < length (mrs_messages self)" for k
    using assms(1,2) that unfolding well_registered_def by (metis option.simps(3))
  show "well_registered self'"
    unfolding well_registered_def
  proof (intro allI)
    fix t' k
    show "hm_get (mrs_indices self') t' = Some k \<longleftrightarrow>
        k < length (mrs_messages self') \<and> mrg_type_info (mrs_messages self' ! k) = t'"
      using assms(1,2) fresh [of k] self'
      by (cases "k < length (mrs_messages self)"; cases "t' = t")
         (auto simp: well_registered_def nth_append less_Suc_eq)
  qed
  show "keeps_indices self self'" "hm_get (mrs_indices self') t = Some i"
    "mrs_join_clones self' = mrs_join_clones self"
    using assms(2) self' by (auto simp: keeps_indices_def map_le_def)
  show "operations_at self' = operations_at self"
    using self' assms(4) by (auto simp: operations_at_def fun_eq_iff nth_append)
qed

lemma get_index_or_insert_spec:
  assumes "well_registered self" and "get_index_or_insert t self = (self', i)"
  shows "well_registered self'" and "keeps_indices self self'" and "hm_get (mrs_indices self') t = Some i"
    and "operations_at self' = operations_at self" and "mrs_join_clones self' = mrs_join_clones self"
  using assms new_message_registration_spec [OF assms(1), of t "Some message_operations_new" self' i]
  by (auto simp: get_index_or_insert_def split: option.splits)

lemma get_index_or_insert_placeholder_spec:
  assumes "well_registered self" and "get_index_or_insert_placeholder t self = (self', i)"
  shows "well_registered self'" and "keeps_indices self self'" and "hm_get (mrs_indices self') t = Some i"
    and "operations_at self' = operations_at self" and "mrs_join_clones self' = mrs_join_clones self"
  using assms new_message_registration_spec [OF assms(1), of t None self' i]
  by (auto simp: get_index_or_insert_placeholder_def split: option.splits)

lemma with_operations_spec:
  assumes "well_registered self"
  obtains self' i where "with_operations t f self = Inr self'" and "well_registered self'"
    and "keeps_indices self self'" and "hm_get (mrs_indices self') t = Some i"
    and "operations_at self' = (operations_at self)(i := f (operations_at self i))"
    and "mrs_join_clones self' = mrs_join_clones self"
proof -
  obtain s i where s: "get_index_or_insert t self = (s, i)" by fastforce
  note spec = get_index_or_insert_spec [OF assms s]
  have i: "i < length (mrs_messages s)" by (rule well_registered_range [OF spec(1,3)])
  let ?r = "mrs_messages s ! i"
  let ?ops = "case mrg_operations ?r of None \<Rightarrow> message_operations_new | Some ops \<Rightarrow> ops"
  let ?s = "s\<lparr>mrs_messages := (mrs_messages s)[i := ?r\<lparr>mrg_operations := Some (f ?ops)\<rparr>]\<rparr>"
  have same: "mrg_type_info (mrs_messages ?s ! k) = mrg_type_info (mrs_messages s ! k)" for k
    using i by (cases "k = i") simp_all
  have "with_operations t f self = Inr ?s"
    using s i by (simp add: with_operations_def Let_def)
  moreover have "well_registered ?s"
    using spec(1) unfolding well_registered_def same by simp
  moreover have "operations_at ?s = (operations_at self)(i := f (operations_at self i))"
    using i unfolding spec(4) [symmetric] by (auto simp: operations_at_def fun_eq_iff nth_list_update)
  moreover have "keeps_indices self ?s" "hm_get (mrs_indices ?s) t = Some i"
    "mrs_join_clones ?s = mrs_join_clones self"
    using spec(2,3,5) by (simp_all add: keeps_indices_def)
  ultimately show thesis using that by blast
qed

subsection \<open>Registration keeps the invariant\<close>

text \<open>
  \<open>keeps_registry m\<close>: from a registry in step, \<open>m\<close> returns a registry in step with the same indices and
  possibly more, and conversions stay mirrored.
\<close>

definition keeps_registry :: "(message_registrations \<Rightarrow> 'e + message_registrations) \<Rightarrow> bool" where
  "keeps_registry m \<longleftrightarrow>
     (\<forall>self. well_registered self \<and> mirrored_conversions (operations_at self) \<longrightarrow>
        (\<exists>self'. m self = Inr self' \<and> well_registered self' \<and> keeps_indices self self'
           \<and> mirrored_conversions (operations_at self')))"

named_theorems registry_rules \<open>steps of registration keep the registry\<close>

lemma keeps_registryD:
  assumes "keeps_registry m" and "well_registered self" and "mirrored_conversions (operations_at self)"
  obtains self' where "m self = Inr self'" and "well_registered self'" and "keeps_indices self self'"
    and "mirrored_conversions (operations_at self')"
  using assms unfolding keeps_registry_def by blast

lemma keeps_registry_Inr [registry_rules]: "keeps_registry Inr"
  by (auto simp: keeps_registry_def)

lemma keeps_registry_rbind [registry_rules]:
  assumes "keeps_registry m" and "keeps_registry f"
  shows "keeps_registry (\<lambda>self. rbind (m self) f)"
  unfolding keeps_registry_def
proof (intro allI impI, elim conjE)
  fix self assume self: "well_registered self" "mirrored_conversions (operations_at self)"
  obtain s where s: "m self = Inr s" "well_registered s" "keeps_indices self s" "mirrored_conversions (operations_at s)"
    by (rule keeps_registryD [OF assms(1) self])
  obtain u where u: "f s = Inr u" "well_registered u" "keeps_indices s u" "mirrored_conversions (operations_at u)"
    by (rule keeps_registryD [OF assms(2) s(2,4)])
  show "\<exists>self'. rbind (m self) f = Inr self' \<and> well_registered self' \<and> keeps_indices self self'
      \<and> mirrored_conversions (operations_at self')"
    using s u keeps_indices_trans by auto
qed

lemma keeps_registry_index [registry_rules]:
  assumes "\<And>i. keeps_registry (f i)"
  shows "keeps_registry (\<lambda>self. let (self, i) = get_index_or_insert t self in f i self)"
  unfolding keeps_registry_def
proof (intro allI impI, elim conjE)
  fix self assume self: "well_registered self" "mirrored_conversions (operations_at self)"
  obtain s i where s: "get_index_or_insert t self = (s, i)" by fastforce
  note spec = get_index_or_insert_spec [OF self(1) s]
  obtain u where u: "f i s = Inr u" "well_registered u" "keeps_indices s u" "mirrored_conversions (operations_at u)"
    using keeps_registryD [OF assms [of i] spec(1)] self(2) spec(4) by auto
  show "\<exists>self'. (let (self, i) = get_index_or_insert t self in f i self) = Inr self' \<and> well_registered self'
      \<and> keeps_indices self self' \<and> mirrored_conversions (operations_at self')"
    using s u spec(2) keeps_indices_trans by auto
qed

definition keeps_conversions :: "(message_operations \<Rightarrow> message_operations) \<Rightarrow> bool" where
  "keeps_conversions f \<longleftrightarrow>
     (\<forall>ops. mop_into_impls (f ops) = mop_into_impls ops \<and> mop_from_impls (f ops) = mop_from_impls ops
        \<and> mop_try_into_impls (f ops) = mop_try_into_impls ops \<and> mop_try_from_impls (f ops) = mop_try_from_impls ops)"

lemma keeps_registry_operations [registry_rules]:
  assumes "keeps_conversions f"
  shows "keeps_registry (with_operations t f)"
  unfolding keeps_registry_def
proof (intro allI impI, elim conjE)
  fix self assume self: "well_registered self" "mirrored_conversions (operations_at self)"
  obtain self' i where s: "with_operations t f self = Inr self'" "well_registered self'" "keeps_indices self self'"
    and ops: "operations_at self' = (operations_at self)(i := f (operations_at self i))"
    by (rule with_operations_spec [OF self(1), of t f])
  have "mirrored_conversions (operations_at self')"
    using self(2) assms unfolding ops mirrored_conversions_def keeps_conversions_def by simp
  then show "\<exists>self'. with_operations t f self = Inr self' \<and> well_registered self' \<and> keeps_indices self self'
      \<and> mirrored_conversions (operations_at self')"
    using s by blast
qed

lemma keeps_registry_if [registry_rules]:
  "keeps_registry m \<Longrightarrow> keeps_registry m' \<Longrightarrow> keeps_registry (\<lambda>self. if b self then m self else m' self)"
  by (simp add: keeps_registry_def)

text \<open>Changes that touch neither the vector nor the indices.\<close>

lemma keeps_registry_update [registry_rules]:
  assumes "\<And>self. mrs_messages (f self) = mrs_messages self" and "\<And>self. mrs_indices (f self) = mrs_indices self"
  shows "keeps_registry (\<lambda>self. Inr (f self))"
  using assms
  by (simp add: keeps_registry_def well_registered_def keeps_indices_def mirrored_conversions_def operations_at_def)

text \<open>Every function that registers something keeps the registry.\<close>

lemma keeps_conversionsI:
  "(\<And>ops. mop_into_impls (f ops) = mop_into_impls ops) \<Longrightarrow> (\<And>ops. mop_from_impls (f ops) = mop_from_impls ops)
    \<Longrightarrow> (\<And>ops. mop_try_into_impls (f ops) = mop_try_into_impls ops)
    \<Longrightarrow> (\<And>ops. mop_try_from_impls (f ops) = mop_try_from_impls ops) \<Longrightarrow> keeps_conversions f"
  by (simp add: keeps_conversions_def)

lemma keeps_registry_serialize [registry_rules]: "keeps_registry (register_serialize b t)"
  unfolding register_serialize_def by (intro registry_rules keeps_conversionsI) simp_all

lemma keeps_registry_deserialize [registry_rules]: "keeps_registry (register_deserialize b t)"
  unfolding register_deserialize_def by (intro registry_rules keeps_conversionsI) simp_all

lemma keeps_registry_clone [registry_rules]: "keeps_registry (register_clone b t)"
  unfolding register_clone_def by (intro registry_rules keeps_conversionsI) simp_all

lemma keeps_registry_to_string [registry_rules]: "keeps_registry (register_to_string t)"
  unfolding register_to_string_def by (intro registry_rules keeps_conversionsI) simp_all

lemma keeps_registry_join [registry_rules]: "keeps_registry (register_join layout hints t)"
  unfolding register_join_def by (intro registry_rules keeps_conversionsI) simp_all

lemma keeps_registry_listen [registry_rules]: "keeps_registry (register_listen layout hints t)"
  unfolding register_listen_def by (intro registry_rules keeps_conversionsI) simp_all

lemma keeps_registry_buffer_access [registry_rules]:
  "keeps_registry (register_buffer_access layout hints request t)"
  unfolding register_buffer_access_def by (intro registry_rules keeps_conversionsI) simp_all

lemma keeps_registry_fork_result [registry_rules]: "keeps_registry (register_fork_result b c t e)"
  unfolding register_fork_result_def Let_def [of "mrs_reverse_lookup _"]
  by (intro registry_rules keeps_conversionsI) simp_all

lemma keeps_registry_split [registry_rules]: "keeps_registry (register_split b c t item create)"
  unfolding register_split_def Let_def [of "mrs_reverse_lookup _"]
  by (intro registry_rules keeps_conversionsI) simp_all

lemma keeps_registry_elements [registry_rules]:
  assumes "\<And>indices. keeps_registry (f indices)"
  shows "keeps_registry (\<lambda>self. rbind (register_elements b c ts self) (\<lambda>(self, indices). f indices self))"
  using assms
proof (induction ts arbitrary: f)
  case Nil
  then show ?case by (simp add: keeps_registry_def)
next
  case (Cons t ts)
  have eq: "(\<lambda>self. rbind (register_elements b c (t # ts) self) (\<lambda>(self, indices). f indices self))
      = (\<lambda>self. rbind (register_serialize b t self) (\<lambda>self. rbind (register_clone c t self) (\<lambda>self.
          let (self, index) = get_index_or_insert t self
          in rbind (register_elements b c ts self) (\<lambda>(self, indices). f (index # indices) self))))"
    by (auto simp: fun_eq_iff rbind_def split: sum.splits prod.splits)
  show ?case
    unfolding eq by (intro registry_rules Cons.IH) (rule Cons.prems)
qed

lemma keeps_registry_unzip [registry_rules]: "keeps_registry (register_unzip b c t ts)"
proof -
  let ?lookup = "\<lambda>indices i self. self\<lparr>mrs_reverse_lookup := (mrs_reverse_lookup self)\<lparr>rml_unzip :=
      hm_insert indices i (rml_unzip (mrs_reverse_lookup self))\<rparr>\<rparr>"
  let ?ops = "\<lambda>indices ops. if mop_unzip ops \<noteq> None then ops
      else ops\<lparr>mop_unzip := Some \<lparr>uzr_create = (\<lambda>sc. ebind (infallible (create_unzip t ts sc)) (\<lambda>(input, outputs).
             return \<lparr>dun_input = input, dun_outputs = outputs\<rparr>)), uzr_output_types = indices\<rparr>\<rparr>"
  have "register_unzip b c t ts = (\<lambda>self. rbind (register_elements b c ts self) (\<lambda>(self, indices).
      let (self, i) = get_index_or_insert t self
      in rbind (Inr (?lookup indices i self)) (\<lambda>self. with_operations t (?ops indices) self)))"
    by (auto simp: register_unzip_def Let_def fun_eq_iff intro!: rbind_cong split: prod.splits)
  moreover have "keeps_registry \<dots>"
    by (intro registry_rules keeps_conversionsI) simp_all
  ultimately show ?thesis by simp
qed

lemma keeps_registry_message:
  "keeps_registry (\<lambda>self. rbind (impl_register_message d s c t self) (\<lambda>(self, index). Inr self))"
proof -
  have eq: "(\<lambda>self. rbind (impl_register_message d s c t self) (\<lambda>(self, index). Inr self))
      = (\<lambda>self. let (self, index) = get_index_or_insert t self
          in rbind (register_deserialize d t self) (\<lambda>self. rbind (register_serialize s t self) (\<lambda>self.
             rbind (register_clone c t self) Inr)))"
    by (auto simp: impl_register_message_def fun_eq_iff Let_def rbind_def split: sum.splits prod.splits)
  show ?thesis unfolding eq by (intro registry_rules)
qed

text \<open>A conversion is stored at the source and at the target under the index of the other.\<close>

lemma two_operations:
  assumes "well_registered self" and "mirrored_conversions (operations_at self)"
    and mirror: "\<And>ops i j. mirrored_conversions ops \<Longrightarrow>
      mirrored_conversions (let ops' = ops(i := f j (ops i)) in ops'(j := g i (ops' j)))"
  shows "\<exists>self'. (let (self, j) = get_index_or_insert u self
      in rbind (with_operations t (f j) self) (\<lambda>self.
           let (self, i) = get_index_or_insert t self in with_operations u (g i) self)) = Inr self'
    \<and> well_registered self' \<and> keeps_indices self self' \<and> mirrored_conversions (operations_at self')"
proof -
  obtain s1 j where s1: "get_index_or_insert u self = (s1, j)" by fastforce
  note spec1 = get_index_or_insert_spec [OF assms(1) s1]
  obtain s2 i where s2: "with_operations t (f j) s1 = Inr s2" "well_registered s2" "keeps_indices s1 s2"
    "hm_get (mrs_indices s2) t = Some i" "operations_at s2 = (operations_at s1)(i := f j (operations_at s1 i))"
    by (rule with_operations_spec [OF spec1(1)])
  have s3: "get_index_or_insert t s2 = (s2, i)"
    using s2(4) by (simp add: get_index_or_insert_def)
  obtain s4 k where s4: "with_operations u (g i) s2 = Inr s4" "well_registered s4" "keeps_indices s2 s4"
    "hm_get (mrs_indices s4) u = Some k" "operations_at s4 = (operations_at s2)(k := g i (operations_at s2 k))"
    by (rule with_operations_spec [OF s2(2)])
  have "k = j"
    using keeps_indices_get [OF keeps_indices_trans [OF s2(3) s4(3)] spec1(3)] s4(4) by simp
  then have "mirrored_conversions (operations_at s4)"
    using mirror [OF assms(2), of i j] by (simp add: s4(5) s2(5) spec1(4) Let_def)
  moreover have "keeps_indices self s4"
    using spec1(2) s2(3) s4(3) by (blast intro: keeps_indices_trans)
  ultimately show ?thesis using s1 s2(1) s3 s4(1,2) by simp
qed

lemma keeps_registry_mapping_into [registry_rules]: "keeps_registry (with_mapping_into t u)"
  unfolding keeps_registry_def
proof (intro allI impI, elim conjE)
  fix self assume self: "well_registered self" "mirrored_conversions (operations_at self)"
  let ?f = "\<lambda>j ops. ops\<lparr>mop_into_impls := hm_insert j (mapping_into t u) (mop_into_impls ops)\<rparr>"
  let ?g = "\<lambda>i ops. ops\<lparr>mop_from_impls := hm_insert i (mapping_into t u) (mop_from_impls ops)\<rparr>"
  have mirror: "mirrored_conversions ops \<Longrightarrow>
      mirrored_conversions (let ops' = ops(i := ?f j (ops i)) in ops'(j := ?g i (ops' j)))" for ops i j
    by (auto simp: mirrored_conversions_def Let_def)
  show "\<exists>self'. with_mapping_into t u self = Inr self' \<and> well_registered self' \<and> keeps_indices self self'
      \<and> mirrored_conversions (operations_at self')"
    using two_operations [OF self mirror, of u t] unfolding with_mapping_into_def by simp
qed

lemma keeps_registry_mapping_try_into [registry_rules]: "keeps_registry (with_mapping_try_into t u)"
  unfolding keeps_registry_def
proof (intro allI impI, elim conjE)
  fix self assume self: "well_registered self" "mirrored_conversions (operations_at self)"
  let ?f = "\<lambda>j ops. ops\<lparr>mop_try_into_impls := hm_insert j (mapping_try_into t u) (mop_try_into_impls ops)\<rparr>"
  let ?g = "\<lambda>i ops. ops\<lparr>mop_try_from_impls := hm_insert i (mapping_try_into t u) (mop_try_from_impls ops)\<rparr>"
  have mirror: "mirrored_conversions ops \<Longrightarrow>
      mirrored_conversions (let ops' = ops(i := ?f j (ops i)) in ops'(j := ?g i (ops' j)))" for ops i j
    by (auto simp: mirrored_conversions_def Let_def)
  show "\<exists>self'. with_mapping_try_into t u self = Inr self' \<and> well_registered self' \<and> keeps_indices self self'
      \<and> mirrored_conversions (operations_at self')"
    using two_operations [OF self mirror, of u t] unfolding with_mapping_try_into_def by simp
qed

end
