(* ===== verification/Registering.thy ===== *)
theory Registering
  imports RegistryProofs
begin

text \<open>
  Properties of the registry of message types after any sequence of registrations, and the
  conversions between messages and script messages.
\<close>

datatype registration_call =
    CallMessage bool bool bool type_info
  | CallPlaceholder type_info
  | CallMappingInto type_info type_info
  | CallMappingTryInto type_info type_info
  | CallToString type_info
  | CallUnzip bool bool type_info "type_info list"
  | CallForkResult bool bool type_info type_info
  | CallSplit bool bool type_info type_info "split_schema \<Rightarrow> scope_context \<Rightarrow> dyn_split build"
  | CallJoin "buffer_map \<Rightarrow> incompatible_layout + unit" "nat layout_hints" type_info
  | CallBufferAccess "buffer_map \<Rightarrow> incompatible_layout + unit" "nat layout_hints" type_info type_info
  | CallListen "buffer_map \<Rightarrow> incompatible_layout + unit" "nat layout_hints" type_info

fun run_registration ::
  "message_registrations \<Rightarrow> registration_call \<Rightarrow> diagram_error_code fault + message_registrations" where
  "run_registration self (CallMessage d s c t) =
     rbind (impl_register_message d s c t self) (\<lambda>(self, index). Inr self)"
| "run_registration self (CallPlaceholder t) = Inr (fst (get_index_or_insert_placeholder t self))"
| "run_registration self (CallMappingInto t u) = with_mapping_into t u self"
| "run_registration self (CallMappingTryInto t u) = with_mapping_try_into t u self"
| "run_registration self (CallToString t) = register_to_string t self"
| "run_registration self (CallUnzip s c t ts) = register_unzip s c t ts self"
| "run_registration self (CallForkResult s c t e) = register_fork_result s c t e self"
| "run_registration self (CallSplit s c t item create) = register_split s c t item create self"
| "run_registration self (CallJoin layout hints t) = register_join layout hints t self"
| "run_registration self (CallBufferAccess layout hints request t) =
     register_buffer_access layout hints request t self"
| "run_registration self (CallListen layout hints t) = register_listen layout hints t self"

definition empty_registrations :: message_registrations where
  "empty_registrations =
     \<lparr>mrs_messages = [], mrs_indices = [],
      mrs_reverse_lookup = \<lparr>rml_result = [], rml_unzip = [], rml_split = [], rml_json_message = None,
        rml_script_message = None\<rparr>,
      mrs_join_clones = []\<rparr>"

lemma keeps_registry_placeholder: "keeps_registry (\<lambda>self. Inr (fst (get_index_or_insert_placeholder t self)))"
  unfolding keeps_registry_def
proof (intro allI impI, elim conjE)
  fix self assume self: "well_registered self" "mirrored_conversions (operations_at self)"
  obtain s i where s: "get_index_or_insert_placeholder t self = (s, i)" by fastforce
  show "\<exists>self'. Inr (fst (get_index_or_insert_placeholder t self)) = Inr self' \<and> well_registered self'
      \<and> keeps_indices self self' \<and> mirrored_conversions (operations_at self')"
    using get_index_or_insert_placeholder_spec [OF self(1) s] self(2) s by simp
qed

lemma keeps_registry_run: "keeps_registry (\<lambda>self. run_registration self call)"
  by (cases call)
     (simp_all add: registry_rules keeps_registry_message keeps_registry_placeholder cong: if_cong)

lemma keeps_registry_runs:
  "well_registered self \<Longrightarrow> mirrored_conversions (operations_at self) \<Longrightarrow>
    \<exists>self'. rfold run_registration self calls = Inr self' \<and> well_registered self'
      \<and> mirrored_conversions (operations_at self')"
proof (induction calls arbitrary: self)
  case (Cons call calls)
  obtain s where "run_registration self call = Inr s" "well_registered s" "mirrored_conversions (operations_at s)"
    by (rule keeps_registryD [OF keeps_registry_run Cons.prems])
  then show ?case using Cons.IH by simp
qed simp

lemma empty_registrations_ok:
  "well_registered empty_registrations" "mirrored_conversions (operations_at empty_registrations)"
  by (simp_all add: well_registered_def empty_registrations_def mirrored_conversions_def operations_at_def
        message_operations_new_def)

text \<open>C12: any sequence of registrations succeeds: no unchecked access to the vector of registrations
  panics. Afterwards the vector and the map of indices describe each other exactly, and a conversion is
  stored at its source for its target exactly if the same conversion is stored at its target for its
  source, so that the inference, which asks the source, and the workflow builder, which asks the
  target, agree on what can be converted.\<close>

theorem registration_stays_in_step:
  "\<exists>self. rfold run_registration empty_registrations calls = Inr self
     \<and> (\<forall>t i. hm_get (mrs_indices self) t = Some i \<longleftrightarrow>
          i < length (mrs_messages self) \<and> mrg_type_info (mrs_messages self ! i) = t)
     \<and> (\<forall>i j. hm_get (mop_into_impls (operations_at self i)) j = hm_get (mop_from_impls (operations_at self j)) i)
     \<and> (\<forall>i j. hm_get (mop_try_into_impls (operations_at self i)) j
          = hm_get (mop_try_from_impls (operations_at self j)) i)"
  using keeps_registry_runs [OF empty_registrations_ok, of calls]
  unfolding well_registered_def mirrored_conversions_def by blast

lemma closure_is_no_fn_pointer:
  "serialize_closure t \<noteq> serialize_fn u" "deserialize_closure t \<noteq> deserialize_fn u"
  by (simp_all add: serialize_closure_def serialize_fn_def deserialize_closure_def deserialize_fn_def)

text \<open>A message with access to buffers cannot be turned into a script message. If its request can be
  serialised, the registry advertises the conversion to the inference, but creating it always fails
  with \<open>InvalidDowncast\<close>: what \<open>register_serialize\<close> stored is a closure, and it is read back as a
  function pointer. The same holds in the other direction.\<close>

theorem accessible_message_conversion_fails:
  assumes "get_operations self t = Inr ops" and "get_index_dyn self script_message_type_name = Inr script"
    and "mop_buffer_access ops = Some (buffer_access_registration_of layout hints request i t)"
    and "get_operations_by_index self i = Inr req_ops"
    and "mop_serialize req_ops = Some x" and "ser_serialize x = serialize_closure request"
    and "mop_deserialize req_ops = Some y" and "des_deserialize y = deserialize_closure request"
    and "hm_get (mop_try_into_impls ops) script = None" and "hm_get (mop_try_from_impls ops) script = None"
  shows "supports_into_script_message self ops \<and> supports_from_script_message self ops
    \<and> try_into_script_message self t sc s =
        (s, Inl (Failed (InvalidDowncast (serialize_closure request) (serialize_fn t))))
    \<and> try_from_script_message self t sc s =
        (s, Inl (Failed (InvalidDowncast (deserialize_closure request) (deserialize_fn t))))"
proof -
  obtain req where req: "get_by_index self i = Inr req" "mrg_operations req = Some req_ops"
    using assms(4) by (auto simp: get_operations_by_index_def rbind_eq_Inr registration_operations_def)
  have access: "bam_request_message (bar_metadata (buffer_access_registration_of layout hints request i t)) = i"
    by (simp add: buffer_access_registration_of_def)
  have "request_supports self mop_serialize ops" "request_supports self mop_deserialize ops"
    using assms(3,5,7) req access by (simp_all add: request_supports_def)
  moreover have "serialized_request self mop_serialize ops s =
      (s, Inr (Some (buffer_access_registration_of layout hints request i t, x)))"
    and "serialized_request self mop_deserialize ops s =
      (s, Inr (Some (buffer_access_registration_of layout hints request i t, y)))"
    using assms(3,4,5,7) access by (simp_all add: serialized_request_def of_result_def ebind_def return_def)
  then have "try_into_script_message self t sc s =
        (s, Inl (Failed (InvalidDowncast (serialize_closure request) (serialize_fn t))))"
    and "try_from_script_message self t sc s =
        (s, Inl (Failed (InvalidDowncast (deserialize_closure request) (deserialize_fn t))))"
    using assms
    by (simp_all add: try_into_script_message_def try_from_script_message_def of_result_def ebind_def
          buffer_access_registration_of_def downcast_def closure_is_no_fn_pointer raise_code_def)
  ultimately show ?thesis
    by (simp add: supports_into_script_message_def supports_from_script_message_def)
qed

text \<open>A message \<open>access\<close> that combines a \<open>request\<close> with buffer keys.\<close>

definition access_registrations :: "message_registrations" where
  "access_registrations =
     (case rfold run_registration empty_registrations
        [CallMessage True True True script_message_type_name, CallMessage True True True ''request'',
         CallBufferAccess (\<lambda>_. Inr ()) (LayoutStatic []) ''request'' ''access''] of
        Inr self \<Rightarrow> self | Inl _ \<Rightarrow> empty_registrations)"

lemmas registration_evaluation =
  impl_register_message_def get_index_or_insert_def new_message_registration_def with_operations_def
  register_serialize_def register_deserialize_def register_clone_def register_buffer_access_def
  clone_registered_def get_operations_def get_dyn_def get_registration_def get_index_dyn_def
  get_operations_by_index_def get_by_index_def registration_operations_def

lemma access_registrations_facts:
  "\<exists>ops req_ops x y. get_operations access_registrations ''access'' = Inr ops
     \<and> get_index_dyn access_registrations script_message_type_name = Inr 0
     \<and> mop_buffer_access ops = Some (buffer_access_registration_of (\<lambda>_. Inr ()) (LayoutStatic []) ''request'' 1 ''access'')
     \<and> get_operations_by_index access_registrations 1 = Inr req_ops
     \<and> mop_serialize req_ops = Some x \<and> ser_serialize x = serialize_closure ''request''
     \<and> mop_deserialize req_ops = Some y \<and> des_deserialize y = deserialize_closure ''request''
     \<and> hm_get (mop_try_into_impls ops) 0 = None \<and> hm_get (mop_try_from_impls ops) 0 = None"
  by (simp add: access_registrations_def empty_registrations_def registration_evaluation Let_def
        script_message_type_name_def json_message_type_name_def message_operations_new_def)

lemma accessible_message_conversion_fails_witness:
  "snd (try_into_script_message access_registrations ''access'' \<lparr>sc_scope = 0, sc_finish_scope_cleanup = 1\<rparr>
      \<lparr>cmd_next = 2, cmd_queue = []\<rparr>)
    = Inl (Failed (InvalidDowncast (serialize_closure ''request'') (serialize_fn ''access'')))"
  using accessible_message_conversion_fails [of access_registrations "''access''" _ 0 "\<lambda>_. Inr ()" "LayoutStatic []"
      "''request''" 1]
    access_registrations_facts by fastforce

end
