(* ===== verification/Construction.thy ===== *)
theory Construction
  imports Registry Constraints
begin

text \<open>
  The state of the workflow builder and what operations and connectors do to it:
  \<open>DiagramConstruction\<close>, \<open>BuilderContext\<close> and the implementations of \<open>ConnectIntoTarget\<close> of
  \<open>src/src/diagram/workflow_builder.rs\<close>, \<open>serialization.rs\<close> and \<open>script_schema.rs\<close>.

  \<^item> \<open>construction\<close> holds, per reference, the connector of an operation, the outputs that wait to be
    connected to it and its buffer. \<open>build_state\<close> adds the queue of commands.
  \<^item> \<open>builder_context\<close> holds what does not change while one operation is built or connected. Code
    outside the repository (the CEL compiler, the serialisation of a schema for its trace) is
    \<open>external_code\<close>.
  \<^item> A connector is a value of the datatype \<open>connector\<close>; connecting an output returns the connector that
    takes its place. Recording of traces is left out; it has no influence on the construction.
\<close>

subsection \<open>Registered elements\<close>

record section_slots =
  sls_inputs :: "(name, dyn_input_slot) hmap"
  sls_outputs :: "(name, dyn_output) hmap"
  sls_buffers :: "(name, any_buffer) hmap"

record node_registration =
  nrg_metadata :: node_metadata
  nrg_create_node :: "json \<Rightarrow> scope_context \<Rightarrow> dyn_node build"

record section_registration =
  srg_metadata :: section_metadata
  srg_create_section :: "json \<Rightarrow> scope_context \<Rightarrow> section_slots build"

text \<open>A script environment compiles a script; the execution it returns runs outside of the model.\<close>

record script_environment_value =
  sev_compile :: "string \<Rightarrow> json \<Rightarrow> string + unit"

record diagram_registry =
  dreg_nodes :: "(builder_id, node_registration) hmap"
  dreg_sections :: "(builder_id, section_registration) hmap"
  dreg_scripting :: "(builder_id, json \<Rightarrow> string + script_environment_value) hmap"
  dreg_messages :: message_registrations

definition get_node_registration :: "diagram_registry \<Rightarrow> builder_id \<Rightarrow> diagram_error_code + node_registration" where
  "get_node_registration self k = ok_or (hm_get (dreg_nodes self) k) (BuilderNotFound k)"

definition get_section_registration ::
  "diagram_registry \<Rightarrow> builder_id \<Rightarrow> diagram_error_code + section_registration" where
  "get_section_registration self k = ok_or (hm_get (dreg_sections self) k) (BuilderNotFound k)"

record external_code =
  ext_compile_cel :: "string \<Rightarrow> string + unit"
  ext_json_buffers :: "type_info list"
  ext_trace_info :: "diagram_operation \<Rightarrow> string + unit"

subsection \<open>Connectors\<close>

record basic_connect =
  bcn_incoming_types :: "(type_info, dyn_input_slot) hmap"
  bcn_input_slot :: dyn_input_slot

record implicit_serialization =
  ise_incoming_types :: "(type_info, dyn_input_slot) hmap"
  ise_serialized_input :: basic_connect

record implicit_deserialization =
  ide_basic_input :: basic_connect
  ide_serialized_input :: "dyn_input_slot option"
  ide_script_input :: "dyn_input_slot option"

record implicit_script_message =
  ism_incoming_types :: "(type_info, dyn_input_slot) hmap"
  ism_script_message_input :: basic_connect

record implicit_stringify =
  ist_incoming_types :: "(type_info, dyn_input_slot) hmap"
  ist_string_input :: basic_connect

record connect_to_cancel =
  ctc_quiet_cancel :: dyn_input_slot
  ctc_implicit_serialization :: implicit_serialization
  ctc_implicit_stringify :: implicit_stringify
  ctc_triggers :: "(type_info, dyn_input_slot) hmap"

datatype connector =
    ConnectRedirect operation_ref "entity list"
  | ConnectDispose
  | ConnectBasic basic_connect
  | ConnectSerialize implicit_serialization
  | ConnectDeserialize implicit_deserialization
  | ConnectScript implicit_script_message
  | ConnectCancel connect_to_cancel

definition redirect_connection :: "operation_ref \<Rightarrow> connector" where
  "redirect_connection redirect_to = ConnectRedirect redirect_to []"

record build_target =
  tgt_connector :: connector
  tgt_scope :: scope_context

subsection \<open>The state of the construction\<close>

datatype buffer_ref = BufferAt operation_ref | BufferValue any_buffer

record build_operation = unfinished_operation +
  bop_scope :: scope_context

record construction =
  cons_connect_into_target :: "(operation_ref, build_target) hmap"
  cons_outputs_into_target :: "(operation_ref, dyn_output list) hmap"
  cons_buffers :: "(operation_ref, buffer_ref) hmap"
  cons_generated_operations :: "build_operation list"
  cons_script_environments :: "(name, script_environment_value) hmap"

definition empty_construction :: construction where
  "empty_construction =
     \<lparr>cons_connect_into_target = [], cons_outputs_into_target = [], cons_buffers = [],
      cons_generated_operations = [], cons_script_environments = []\<rparr>"

definition has_outputs :: "construction \<Rightarrow> bool" where
  "has_outputs self \<longleftrightarrow> (\<exists>outputs \<in> set (map snd (cons_outputs_into_target self)). outputs \<noteq> [])"

record build_state =
  bst_construction :: construction
  bst_commands :: commands

type_synonym 'a building = "build_state \<Rightarrow> build_state \<times> (diagram_error_code fault + 'a)"

record builder_context =
  bctx_external :: external_code
  bctx_registry :: diagram_registry
  bctx_inference :: "(port_ref, nat) hmap"
  bctx_scope :: scope_context
  bctx_diagram :: diagram_context

abbreviation bctx_namespaces :: "builder_context \<Rightarrow> namespace_list" where
  "bctx_namespaces ctx \<equiv> dc_namespaces (bctx_diagram ctx)"

abbreviation bctx_messages :: "builder_context \<Rightarrow> message_registrations" where
  "bctx_messages ctx \<equiv> dreg_messages (bctx_registry ctx)"

definition on_commands :: "'a build \<Rightarrow> 'a building" where
  "on_commands m st = (let (c, r) = m (bst_commands st) in (st\<lparr>bst_commands := c\<rparr>, r))"

definition on_construction :: "(construction \<Rightarrow> construction) \<Rightarrow> unit building" where
  "on_construction f = modify (\<lambda>st. st\<lparr>bst_construction := f (bst_construction st)\<rparr>)"

definition context_ref :: "builder_context \<Rightarrow> operation_ref \<Rightarrow> operation_ref" where
  "context_ref ctx r = into_operation_ref (bctx_namespaces ctx) r"

definition get_implicit_error_target :: "builder_context \<Rightarrow> operation_ref" where
  "get_implicit_error_target ctx = dc_on_implicit_error (bctx_diagram ctx)"

definition inferred_message_type :: "builder_context \<Rightarrow> port_ref \<Rightarrow> type_info building" where
  "inferred_message_type ctx port =
     (let port = into_port_ref (bctx_namespaces ctx) port
      in of_result (rbind (ok_or (hm_get (bctx_inference ctx) port) (MessageTypeNotInferred port)) (\<lambda>type_index.
           get_type_info_for (bctx_messages ctx) type_index)))"

definition push_output :: "operation_ref \<Rightarrow> dyn_output \<Rightarrow> construction \<Rightarrow> construction" where
  "push_output target output c =
     c\<lparr>cons_outputs_into_target :=
         hm_entry target [] (\<lambda>outputs. outputs @ [output]) (cons_outputs_into_target c)\<rparr>"

definition add_output_into_target :: "builder_context \<Rightarrow> operation_ref \<Rightarrow> dyn_output \<Rightarrow> unit building" where
  "add_output_into_target ctx target output = on_construction (push_output (context_ref ctx target) output)"

subsection \<open>Connecting outputs\<close>

definition basic_connect_new :: "dyn_input_slot \<Rightarrow> basic_connect" where
  "basic_connect_new input_slot = \<lparr>bcn_incoming_types = [], bcn_input_slot = input_slot\<rparr>"

definition basic_is_compatible :: "builder_context \<Rightarrow> basic_connect \<Rightarrow> type_info \<Rightarrow> bool building" where
  "basic_is_compatible ctx self incoming =
     (if incoming = dis_type (bcn_input_slot self) then return True
      else of_result (rbind (get_index_dyn (bctx_messages ctx) incoming) (\<lambda>incoming_index.
             rbind (get_operations (bctx_messages ctx) (dis_type (bcn_input_slot self))) (\<lambda>ops.
               Inr (incoming_index \<in> dom (hm_get (mop_from_impls ops)))))))"

definition conversion_from ::
  "message_registrations \<Rightarrow> type_info \<Rightarrow> type_info \<Rightarrow> diagram_error_code + create_into" where
  "conversion_from messages incoming_type target_type =
     rbind (get_index_dyn messages incoming_type) (\<lambda>incoming_type_index.
     rbind (rbind (get_dyn messages target_type) registration_operations) (\<lambda>ops.
       ok_or (hm_get (mop_from_impls ops) incoming_type_index)
         (TypeMismatch \<lparr>tm_source_type = incoming_type, tm_target_type = target_type\<rparr>)))"

definition basic_connect_into_target ::
  "builder_context \<Rightarrow> basic_connect \<Rightarrow> dyn_output \<Rightarrow> basic_connect building" where
  "basic_connect_into_target ctx self output =
     (if dyo_type output = dis_type (bcn_input_slot self)
      then ebind (on_commands (connect_to output (bcn_input_slot self))) (\<lambda>_. return self)
      else case hm_get (bcn_incoming_types self) (dyo_type output) of
        Some conversion \<Rightarrow> ebind (on_commands (connect_to output conversion)) (\<lambda>_. return self)
      | None \<Rightarrow>
          ebind (of_result (conversion_from (bctx_messages ctx) (dyo_type output) (dis_type (bcn_input_slot self)))) (\<lambda>convert.
          ebind (on_commands (infallible (convert (bctx_scope ctx)))) (\<lambda>(conversion_input, converted_output).
          ebind (on_commands (connect_to converted_output (bcn_input_slot self))) (\<lambda>_.
          ebind (on_commands (connect_to output conversion_input)) (\<lambda>_.
            return (self\<lparr>bcn_incoming_types :=
              hm_insert (dyo_type output) conversion_input (bcn_incoming_types self)\<rparr>))))))"

definition implicit_serialization_new :: "dyn_input_slot \<Rightarrow> diagram_error_code + implicit_serialization" where
  "implicit_serialization_new serialized_input =
     (if dis_type serialized_input \<noteq> json_message_type_name
      then Inl (TypeMismatch \<lparr>tm_source_type = json_message_type_name, tm_target_type = dis_type serialized_input\<rparr>)
      else Inr \<lparr>ise_incoming_types = [], ise_serialized_input = basic_connect_new serialized_input\<rparr>)"

text \<open>The error output of an implicit operation goes to the implicit error target of the context.\<close>

definition add_implicit_error :: "builder_context \<Rightarrow> dyn_output \<Rightarrow> unit building" where
  "add_implicit_error ctx err = add_output_into_target ctx (get_implicit_error_target ctx) err"

text \<open>
  The \<open>try_\<close> functions return the connector and whether the output was connected; if it was not, the
  caller still has it.
\<close>

definition try_implicit_serialize ::
  "builder_context \<Rightarrow> implicit_serialization \<Rightarrow> dyn_output \<Rightarrow> (implicit_serialization \<times> bool) building" where
  "try_implicit_serialize ctx self incoming =
     ebind (basic_is_compatible ctx (ise_serialized_input self) (dyo_type incoming)) (\<lambda>compatible.
       if compatible
       then ebind (basic_connect_into_target ctx (ise_serialized_input self) incoming) (\<lambda>basic.
              return (self\<lparr>ise_serialized_input := basic\<rparr>, True))
       else case hm_get (ise_incoming_types self) (dyo_type incoming) of
         Some input \<Rightarrow> ebind (on_commands (connect_to incoming input)) (\<lambda>_. return (self, True))
       | None \<Rightarrow>
           ebind (on_commands (try_serialize (bctx_messages ctx) (dyo_type incoming) (bctx_scope ctx))) (\<lambda>fork.
             case fork of
               None \<Rightarrow> return (self, False)
             | Some created \<Rightarrow>
                 ebind (basic_connect_into_target ctx (ise_serialized_input self) (dfr_ok created)) (\<lambda>basic.
                 ebind (add_implicit_error ctx (dfr_err created)) (\<lambda>_.
                 ebind (on_commands (connect_to incoming (dfr_input created))) (\<lambda>_.
                   return (self\<lparr>ise_serialized_input := basic,
                     ise_incoming_types :=
                       hm_insert (dyo_type incoming) (dfr_input created) (ise_incoming_types self)\<rparr>, True))))))"

definition implicit_serialize ::
  "builder_context \<Rightarrow> implicit_serialization \<Rightarrow> dyn_output \<Rightarrow> implicit_serialization building" where
  "implicit_serialize ctx self incoming =
     ebind (try_implicit_serialize ctx self incoming) (\<lambda>(self, connected).
       if connected then return self else raise_code (NotSerializable (dyo_type incoming)))"

definition implicit_deserialization_try_new ::
  "message_registrations \<Rightarrow> dyn_input_slot \<Rightarrow> diagram_error_code + implicit_deserialization option" where
  "implicit_deserialization_try_new messages deserialized_input =
     rbind (get_operations messages (dis_type deserialized_input)) (\<lambda>ops.
       Inr (if mop_deserialize ops \<noteq> None
            then Some \<lparr>ide_basic_input = basic_connect_new deserialized_input,
                       ide_serialized_input = None, ide_script_input = None\<rparr>
            else None))"

text \<open>Connecting a message that has to be deserialised, through a fork that is created once.\<close>

definition deserialize_through ::
  "builder_context \<Rightarrow> basic_connect \<Rightarrow> dyn_input_slot option
     \<Rightarrow> (message_registrations \<Rightarrow> type_info \<Rightarrow> scope_context \<Rightarrow> dyn_fork_result build)
     \<Rightarrow> dyn_output \<Rightarrow> (basic_connect \<times> dyn_input_slot) building" where
  "deserialize_through ctx basic existing create incoming =
     (case existing of
        Some input \<Rightarrow> ebind (on_commands (connect_to incoming input)) (\<lambda>_. return (basic, input))
      | None \<Rightarrow>
          ebind (on_commands (create (bctx_messages ctx) (dis_type (bcn_input_slot basic)) (bctx_scope ctx))) (\<lambda>fork.
          ebind (basic_connect_into_target ctx basic (dfr_ok fork)) (\<lambda>basic.
          ebind (add_implicit_error ctx (dfr_err fork)) (\<lambda>_.
          ebind (on_commands (connect_to incoming (dfr_input fork))) (\<lambda>_.
            return (basic, dfr_input fork))))))"

definition implicit_deserialize ::
  "builder_context \<Rightarrow> implicit_deserialization \<Rightarrow> dyn_output \<Rightarrow> implicit_deserialization building" where
  "implicit_deserialize ctx self incoming =
     ebind (basic_is_compatible ctx (ide_basic_input self) (dyo_type incoming)) (\<lambda>compatible.
       if compatible
       then ebind (basic_connect_into_target ctx (ide_basic_input self) incoming) (\<lambda>basic.
              return (self\<lparr>ide_basic_input := basic\<rparr>))
       else if dyo_type incoming = json_message_type_name
       then ebind (deserialize_through ctx (ide_basic_input self) (ide_serialized_input self) deserialize incoming)
              (\<lambda>(basic, input). return (self\<lparr>ide_basic_input := basic, ide_serialized_input := Some input\<rparr>))
       else if dyo_type incoming = script_message_type_name
       then ebind (deserialize_through ctx (ide_basic_input self) (ide_script_input self) from_script_message_fork incoming)
              (\<lambda>(basic, input). return (self\<lparr>ide_basic_input := basic, ide_script_input := Some input\<rparr>))
       else raise_code (TypeMismatch \<lparr>tm_source_type = dyo_type incoming,
              tm_target_type = dis_type (bcn_input_slot (ide_basic_input self))\<rparr>))"

definition implicit_script_message_new :: "dyn_input_slot \<Rightarrow> diagram_error_code + implicit_script_message" where
  "implicit_script_message_new script_message_input =
     (if dis_type script_message_input \<noteq> script_message_type_name
      then Inl (TypeMismatch \<lparr>tm_source_type = script_message_type_name, tm_target_type = dis_type script_message_input\<rparr>)
      else Inr \<lparr>ism_incoming_types = [], ism_script_message_input = basic_connect_new script_message_input\<rparr>)"

definition implicit_script_conversion ::
  "builder_context \<Rightarrow> implicit_script_message \<Rightarrow> dyn_output \<Rightarrow> implicit_script_message building" where
  "implicit_script_conversion ctx self incoming =
     ebind (basic_is_compatible ctx (ism_script_message_input self) (dyo_type incoming)) (\<lambda>compatible.
       if compatible
       then ebind (basic_connect_into_target ctx (ism_script_message_input self) incoming) (\<lambda>basic.
              return (self\<lparr>ism_script_message_input := basic\<rparr>))
       else case hm_get (ism_incoming_types self) (dyo_type incoming) of
         Some input \<Rightarrow> ebind (on_commands (connect_to incoming input)) (\<lambda>_. return self)
       | None \<Rightarrow>
           ebind (on_commands (try_into_script_message (bctx_messages ctx) (dyo_type incoming) (bctx_scope ctx))) (\<lambda>fork.
             case fork of
               None \<Rightarrow> raise_code (NotScriptable (dyo_type incoming))
             | Some created \<Rightarrow>
                 ebind (basic_connect_into_target ctx (ism_script_message_input self) (dfr_ok created)) (\<lambda>basic.
                 ebind (add_implicit_error ctx (dfr_err created)) (\<lambda>_.
                 ebind (on_commands (connect_to incoming (dfr_input created))) (\<lambda>_.
                   return (self\<lparr>ism_script_message_input := basic,
                     ism_incoming_types :=
                       hm_insert (dyo_type incoming) (dfr_input created) (ism_incoming_types self)\<rparr>))))))"

definition implicit_stringify_new :: "dyn_input_slot \<Rightarrow> diagram_error_code + implicit_stringify" where
  "implicit_stringify_new string_input =
     (if dis_type string_input \<noteq> string_type_name
      then Inl (TypeMismatch \<lparr>tm_source_type = string_type_name, tm_target_type = dis_type string_input\<rparr>)
      else Inr \<lparr>ist_incoming_types = [], ist_string_input = basic_connect_new string_input\<rparr>)"

definition try_implicit_stringify ::
  "builder_context \<Rightarrow> implicit_stringify \<Rightarrow> dyn_output \<Rightarrow> (implicit_stringify \<times> bool) building" where
  "try_implicit_stringify ctx self incoming =
     ebind (basic_is_compatible ctx (ist_string_input self) (dyo_type incoming)) (\<lambda>compatible.
       if compatible
       then ebind (basic_connect_into_target ctx (ist_string_input self) incoming) (\<lambda>basic.
              return (self\<lparr>ist_string_input := basic\<rparr>, True))
       else case hm_get (ist_incoming_types self) (dyo_type incoming) of
         Some input \<Rightarrow> ebind (on_commands (connect_to incoming input)) (\<lambda>_. return (self, True))
       | None \<Rightarrow>
           ebind (on_commands (try_to_string (bctx_messages ctx) (dyo_type incoming) (bctx_scope ctx))) (\<lambda>node.
             case node of
               None \<Rightarrow> return (self, False)
             | Some stringify \<Rightarrow>
                 ebind (on_commands (connect_to (dn_output stringify) (bcn_input_slot (ist_string_input self)))) (\<lambda>_.
                 ebind (on_commands (connect_to incoming (dn_input stringify))) (\<lambda>_.
                   return (self\<lparr>ist_incoming_types :=
                     hm_insert (dyo_type incoming) (dn_input stringify) (ist_incoming_types self)\<rparr>, True)))))"

text \<open>\<open>ConnectToCancel::new\<close>, with the three cancel operations that it creates.\<close>

definition connect_to_cancel_new :: "bool \<Rightarrow> builder_context \<Rightarrow> connect_to_cancel building" where
  "connect_to_cancel_new implicit ctx =
     ebind (on_commands (infallible (create_quiet_cancel implicit (bctx_scope ctx)))) (\<lambda>quiet_cancel.
     ebind (on_commands (infallible (create_cancel implicit json_message_type_name (bctx_scope ctx)))) (\<lambda>cancel_serialize.
     ebind (on_commands (infallible (create_cancel implicit string_type_name (bctx_scope ctx)))) (\<lambda>cancel_stringify.
     ebind (of_result (implicit_serialization_new cancel_serialize)) (\<lambda>serialization.
     ebind (of_result (implicit_stringify_new cancel_stringify)) (\<lambda>stringify.
       return \<lparr>ctc_quiet_cancel = quiet_cancel, ctc_implicit_serialization = serialization,
               ctc_implicit_stringify = stringify, ctc_triggers = []\<rparr>)))))"

definition connect_cancel_into_target ::
  "builder_context \<Rightarrow> connect_to_cancel \<Rightarrow> dyn_output \<Rightarrow> connect_to_cancel building" where
  "connect_cancel_into_target ctx self output =
     ebind (try_implicit_stringify ctx (ctc_implicit_stringify self) output) (\<lambda>(stringify, connected).
       let self = self\<lparr>ctc_implicit_stringify := stringify\<rparr>
       in if connected then return self
          else ebind (try_implicit_serialize ctx (ctc_implicit_serialization self) output) (\<lambda>(serialization, connected).
            let self = self\<lparr>ctc_implicit_serialization := serialization\<rparr>
            in if connected then return self
               else case hm_get (ctc_triggers self) (dyo_type output) of
                 Some input_slot \<Rightarrow> ebind (on_commands (connect_to output input_slot)) (\<lambda>_. return self)
               | None \<Rightarrow>
                   ebind (on_commands (registry_trigger (bctx_messages ctx) (dyo_type output) (bctx_scope ctx))) (\<lambda>trigger.
                   ebind (on_commands (connect_to (dn_output trigger) (ctc_quiet_cancel self))) (\<lambda>_.
                   ebind (on_commands (connect_to output (dn_input trigger))) (\<lambda>_.
                     return (self\<lparr>ctc_triggers :=
                       hm_insert (dyo_type output) (dn_input trigger) (ctc_triggers self)\<rparr>))))))"

text \<open>\<open>ConnectIntoTarget::connect_into_target\<close>.\<close>

fun connect_into_target :: "builder_context \<Rightarrow> connector \<Rightarrow> dyn_output \<Rightarrow> connector building" where
  "connect_into_target ctx (ConnectRedirect redirect_to redirected) output =
     (if dyo_target output \<notin> set redirected
      then ebind (add_output_into_target ctx redirect_to output) (\<lambda>_.
             return (ConnectRedirect redirect_to (dyo_target output # redirected)))
      else raise_code (CircularRedirect [redirect_to]))"
| "connect_into_target ctx ConnectDispose output = return ConnectDispose"
| "connect_into_target ctx (ConnectBasic self) output =
     ebind (basic_connect_into_target ctx self output) (\<lambda>self. return (ConnectBasic self))"
| "connect_into_target ctx (ConnectSerialize self) output =
     ebind (implicit_serialize ctx self output) (\<lambda>self. return (ConnectSerialize self))"
| "connect_into_target ctx (ConnectDeserialize self) output =
     ebind (implicit_deserialize ctx self output) (\<lambda>self. return (ConnectDeserialize self))"
| "connect_into_target ctx (ConnectScript self) output =
     ebind (implicit_script_conversion ctx self output) (\<lambda>self. return (ConnectScript self))"
| "connect_into_target ctx (ConnectCancel self) output =
     ebind (connect_cancel_into_target ctx self output) (\<lambda>self. return (ConnectCancel self))"

text \<open>No connector overrides \<open>is_finished\<close>.\<close>

definition connector_is_finished :: "connector \<Rightarrow> diagram_error_code + unit" where
  "connector_is_finished self = Inr ()"

end
