(* ===== verification/Building.thy ===== *)
theory Building
  imports Construction SplitBuilding
begin

text \<open>
  Building the operations of a diagram: the methods of \<open>BuilderContext\<close> in
  \<open>src/src/diagram/workflow_builder.rs\<close>, the \<open>IncrementalScopeBuilder\<close> of
  \<open>src/src/operation/scope.rs\<close> and \<open>build_diagram_operation\<close> of each schema.

  An operation that cannot be built yet returns \<open>BuildDefer\<close> and is tried again in the next round.
\<close>

subsection \<open>Setting inputs\<close>

definition standard_input_connection ::
  "dyn_input_slot \<Rightarrow> diagram_registry \<Rightarrow> diagram_error_code + connector" where
  "standard_input_connection input_slot registry =
     (if dis_type input_slot = script_message_type_name
      then rbind (implicit_script_message_new input_slot) (\<lambda>c. Inr (ConnectScript c))
      else if dis_type input_slot = json_message_type_name
      then rbind (implicit_serialization_new input_slot) (\<lambda>c. Inr (ConnectSerialize c))
      else rbind (implicit_deserialization_try_new (dreg_messages registry) input_slot) (\<lambda>deserialization.
        Inr (case deserialization of
               Some c \<Rightarrow> ConnectDeserialize c
             | None \<Rightarrow> ConnectBasic (basic_connect_new input_slot))))"

definition impl_connect_into_target :: "builder_context \<Rightarrow> operation_ref \<Rightarrow> connector \<Rightarrow> unit building" where
  "impl_connect_into_target ctx operation connector st =
     (case hm_get (cons_connect_into_target (bst_construction st)) operation of
        Some _ \<Rightarrow> raise_code (DuplicateInputsCreated operation) st
      | None \<Rightarrow> on_construction (\<lambda>c. c\<lparr>cons_connect_into_target :=
          hm_insert operation \<lparr>tgt_connector = connector, tgt_scope = bctx_scope ctx\<rparr>
            (cons_connect_into_target c)\<rparr>) st)"

definition set_connect_into_target :: "builder_context \<Rightarrow> operation_ref \<Rightarrow> connector \<Rightarrow> unit building" where
  "set_connect_into_target ctx operation connector =
     impl_connect_into_target ctx (context_ref ctx operation) connector"

definition set_input_for_target :: "builder_context \<Rightarrow> operation_ref \<Rightarrow> dyn_input_slot \<Rightarrow> unit building" where
  "set_input_for_target ctx operation input =
     ebind (of_result (standard_input_connection input (bctx_registry ctx))) (\<lambda>connect.
       impl_connect_into_target ctx (context_ref ctx operation) connect)"

definition insert_buffer :: "operation_ref \<Rightarrow> buffer_ref \<Rightarrow> unit building" where
  "insert_buffer operation buffer st =
     (case hm_get (cons_buffers (bst_construction st)) operation of
        Some _ \<Rightarrow> raise_code (DuplicateBuffersCreated operation) st
      | None \<Rightarrow> on_construction (\<lambda>c. c\<lparr>cons_buffers := hm_insert operation buffer (cons_buffers c)\<rparr>) st)"

definition set_buffer_for_operation :: "builder_context \<Rightarrow> operation_ref \<Rightarrow> any_buffer \<Rightarrow> unit building" where
  "set_buffer_for_operation ctx operation buffer =
     ebind (set_input_for_target ctx operation (input_of_buffer buffer)) (\<lambda>_.
       insert_buffer (context_ref ctx operation) (BufferValue buffer))"

text \<open>The search for a buffer follows references to it; \<open>visited\<close> makes it stop on a cycle.\<close>

function follow_buffer ::
  "(operation_ref, buffer_ref) hmap \<Rightarrow> operation_ref list \<Rightarrow> operation_ref \<Rightarrow> diagram_error_code + any_buffer" where
  "follow_buffer buffers visited r =
     (if r \<in> set visited then Inl (CircularRedirect visited)
      else case hm_get buffers r of
        None \<Rightarrow> Inl (UnknownOperation r)
      | Some (BufferValue value) \<Rightarrow> Inr value
      | Some (BufferAt reference) \<Rightarrow> follow_buffer buffers (r # visited) reference)"
  by pat_completeness auto
termination
proof (relation "measure (\<lambda>(buffers, visited, r). card (dom (hm_get buffers) - set visited))")
  fix buffers :: "(operation_ref, buffer_ref) hmap" and visited r b reference
  assume "r \<notin> set visited" and "hm_get buffers r = Some b"
  then have "r \<in> dom (hm_get buffers) - set visited" by auto
  then have "card (dom (hm_get buffers) - set visited - {r}) < card (dom (hm_get buffers) - set visited)"
    by (intro psubset_card_mono) (auto simp: finite_dom_map_of)
  moreover have "dom (hm_get buffers) - set (r # visited) = dom (hm_get buffers) - set visited - {r}" by auto
  ultimately show "((buffers, r # visited, reference), buffers, visited, r)
      \<in> measure (\<lambda>(buffers, visited, r). card (dom (hm_get buffers) - set visited))" by simp
qed simp

declare follow_buffer.simps [simp del]

definition create_buffer_map ::
  "builder_context \<Rightarrow> buffer_selection \<Rightarrow> build_state \<Rightarrow> diagram_error_code + buffer_map" where
  "create_buffer_map ctx inputs st =
     rmap (\<lambda>(k, op_id). rbind (follow_buffer (cons_buffers (bst_construction st)) []
                                 (context_ref ctx (op_of_next op_id))) (\<lambda>b. Inr (k, b)))
       (selection_iter inputs)"

subsection \<open>Child operations and redirections\<close>

definition build_child_operation ::
  "builder_context \<Rightarrow> name \<Rightarrow> name \<Rightarrow> diagram_operation \<Rightarrow> operations \<Rightarrow> next_operation option
     \<Rightarrow> scope_context option \<Rightarrow> unit building" where
  "build_child_operation ctx op_id child_id op sibling_ops on_implicit_error scope =
     (let namespaces = bctx_namespaces ctx @ [op_id];
          error_target = (case on_implicit_error of
            Some err_op \<Rightarrow> in_namespaces namespaces (op_of_next err_op)
          | None \<Rightarrow> get_implicit_error_target ctx)
      in on_construction (\<lambda>c. c\<lparr>cons_generated_operations := cons_generated_operations c @
           [\<lparr>uo_id = child_id, uo_namespaces = namespaces, uo_op = op, uo_sibling_ops = sibling_ops,
             uo_on_implicit_error = error_target,
             bop_scope = (case scope of Some sc \<Rightarrow> sc | None \<Rightarrow> bctx_scope ctx)\<rparr>]\<rparr>))"

definition exposed_and_inner_ids ::
  "builder_context \<Rightarrow> name \<Rightarrow> name \<Rightarrow> next_operation \<Rightarrow> operation_ref \<times> operation_ref" where
  "exposed_and_inner_ids ctx section_id exposed_id child_id =
     (OpNamed \<lparr>nor_namespaces = bctx_namespaces ctx, nor_exposed_namespace = Some section_id,
               nor_name = exposed_id\<rparr>,
      in_namespaces (bctx_namespaces ctx @ [section_id]) (op_of_next child_id))"

definition redirect_to_child_input ::
  "builder_context \<Rightarrow> name \<Rightarrow> name \<Rightarrow> next_operation \<Rightarrow> unit building" where
  "redirect_to_child_input ctx section_id exposed_id child_id =
     (let (exposed, redirect_to) = exposed_and_inner_ids ctx section_id exposed_id child_id
      in impl_connect_into_target ctx exposed (redirect_connection redirect_to))"

definition redirect_to_child_buffer ::
  "builder_context \<Rightarrow> name \<Rightarrow> name \<Rightarrow> next_operation \<Rightarrow> unit building" where
  "redirect_to_child_buffer ctx section_id exposed_id child_id =
     (let (exposed, redirect_to) = exposed_and_inner_ids ctx section_id exposed_id child_id
      in ebind (impl_connect_into_target ctx exposed (redirect_connection redirect_to)) (\<lambda>_.
           insert_buffer exposed (BufferAt redirect_to)))"

definition redirect_exposed_output_to_sibling ::
  "builder_context \<Rightarrow> name \<Rightarrow> name \<Rightarrow> next_operation \<Rightarrow> unit building" where
  "redirect_exposed_output_to_sibling ctx section_id output_id sibling_id =
     (let internal = in_namespaces (bctx_namespaces ctx) (OpNamed
            \<lparr>nor_namespaces = for_child_of section_id, nor_exposed_namespace = None, nor_name = output_id\<rparr>)
      in impl_connect_into_target ctx internal
           (redirect_connection (context_ref ctx (op_of_next sibling_id))))"

definition get_script_environment :: "builder_context \<Rightarrow> name \<Rightarrow> script_environment_value building" where
  "get_script_environment ctx environment st =
     (case hm_get (cons_script_environments (bst_construction st)) environment of
        Some env \<Rightarrow> return env st
      | None \<Rightarrow>
          ebind (require (hm_get (dc_script_environments (bctx_diagram ctx)) environment)
                   (UnknownScriptEnvironment environment)) (\<lambda>env_description.
          ebind (require (hm_get (dreg_scripting (bctx_registry ctx)) (env_builder env_description))
                   (UnknownScriptEnvironmentBuilder (env_builder env_description))) (\<lambda>f.
            case f (env_config env_description) of
              Inl error \<Rightarrow> raise_code (ScriptEnvironmentBuildingError (env_builder env_description) error)
            | Inr env \<Rightarrow>
                ebind (on_construction (\<lambda>c. c\<lparr>cons_script_environments :=
                         hm_insert environment env (cons_script_environments c)\<rparr>)) (\<lambda>_. return env))) st)"

subsection \<open>Building a scope step by step\<close>

record scope_endpoints =
  sep_enter_scope :: entity
  sep_terminate :: entity
  sep_cancel_scope :: entity
  sep_finish_scope_cleanup :: entity

record incremental_scope =
  inc_parent_scope :: entity
  inc_scope_id :: entity
  inc_endpoints :: scope_endpoints
  inc_exit_scope :: entity
  inc_request :: "type_info option"
  inc_response :: "type_info option"
  inc_already_built :: bool
  inc_begin_scope_not_sent :: bool
  inc_external_output_not_sent :: bool

definition incremental_scope_begin ::
  "scope_context \<Rightarrow> commands \<Rightarrow> commands \<times> incremental_scope" where
  "incremental_scope_begin sc s =
     (let (s, scope_id) = spawn s;
          (s, exit_scope) = spawn s;
          (s, enter_scope) = spawn s;
          (s, terminate) = spawn s;
          (s, cancel_scope) = spawn s;
          (s, finish_scope_cleanup) = spawn s;
          s = queue_command (AddOperation (Some (sc_scope sc)) scope_id CreatedScope) s
      in (s, \<lparr>inc_parent_scope = sc_scope sc, inc_scope_id = scope_id,
              inc_endpoints = \<lparr>sep_enter_scope = enter_scope, sep_terminate = terminate,
                sep_cancel_scope = cancel_scope, sep_finish_scope_cleanup = finish_scope_cleanup\<rparr>,
              inc_exit_scope = exit_scope, inc_request = None, inc_response = None,
              inc_already_built = False, inc_begin_scope_not_sent = True,
              inc_external_output_not_sent = True\<rparr>))"

definition inner_scope_context :: "incremental_scope \<Rightarrow> scope_context" where
  "inner_scope_context self =
     \<lparr>sc_scope = inc_scope_id self,
      sc_finish_scope_cleanup = sep_finish_scope_cleanup (inc_endpoints self)\<rparr>"

definition consider_building :: "incremental_scope \<Rightarrow> commands \<Rightarrow> commands \<times> incremental_scope" where
  "consider_building self s =
     (if \<not> inc_already_built self \<and> inc_request self \<noteq> None \<and> inc_response self \<noteq> None
      then (queue_command (FinishScope (inc_scope_id self)) s, self\<lparr>inc_already_built := True\<rparr>)
      else (s, self))"

definition incremental_set_request ::
  "type_info \<Rightarrow> incremental_scope \<Rightarrow> (incremental_scope \<times> dyn_input_slot \<times> dyn_output option) build" where
  "incremental_set_request t self =
     (if inc_request self \<noteq> None \<and> inc_request self \<noteq> Some t
      then raise_code (IncrementalScopeError (RequestMismatch (the (inc_request self)) t))
      else ebind (infallible (consider_building (self\<lparr>inc_request := Some t\<rparr>))) (\<lambda>self.
        return (self\<lparr>inc_begin_scope_not_sent := False\<rparr>,
          \<lparr>dis_scope = inc_parent_scope self, dis_source = inc_scope_id self, dis_type = t\<rparr>,
          if inc_begin_scope_not_sent self
          then Some \<lparr>dyo_scope = inc_scope_id self,
                     dyo_target = sep_enter_scope (inc_endpoints self), dyo_type = t\<rparr>
          else None)))"

definition add_scope_endpoints :: "incremental_scope \<Rightarrow> commands \<Rightarrow> commands" where
  "add_scope_endpoints self s =
     (let e = inc_endpoints self;
          s = queue_command (AddOperation None (sep_terminate e) (CreatedTerminate (inc_scope_id self))) s;
          s = queue_command (AddOperation (Some (inc_scope_id self)) (sep_cancel_scope e)
                (CreatedCancelScope (inc_scope_id self))) s
      in queue_command (AddOperation None (sep_finish_scope_cleanup e)
           (CreatedFinishCleanup (inc_scope_id self))) s)"

definition incremental_set_response ::
  "type_info \<Rightarrow> incremental_scope \<Rightarrow> (incremental_scope \<times> dyn_input_slot \<times> dyn_output option) build" where
  "incremental_set_response t self =
     (if inc_response self \<noteq> None \<and> inc_response self \<noteq> Some t
      then raise_code (IncrementalScopeError (ResponseMismatch (the (inc_response self)) t))
      else ebind (if inc_response self = None then modify (add_scope_endpoints self) else return ()) (\<lambda>_.
        ebind (infallible (consider_building (self\<lparr>inc_response := Some t\<rparr>))) (\<lambda>self.
          return (self\<lparr>inc_external_output_not_sent := False\<rparr>,
            \<lparr>dis_scope = inc_scope_id self,
             dis_source = sep_terminate (inc_endpoints self), dis_type = t\<rparr>,
            if inc_external_output_not_sent self
            then Some \<lparr>dyo_scope = inc_parent_scope self, dyo_target = inc_exit_scope self, dyo_type = t\<rparr>
            else None))))"

text \<open>\<open>MessageRegistry::set_scope_request\<close>, \<open>set_scope_response\<close> and \<open>spawn_basic_scope_stream\<close>.\<close>

definition set_scope_request ::
  "message_registrations \<Rightarrow> type_info \<Rightarrow> incremental_scope
     \<Rightarrow> (incremental_scope \<times> dyn_input_slot \<times> dyn_output option) build" where
  "set_scope_request messages t incremental =
     ebind (of_result (get_operations messages t)) (\<lambda>_. incremental_set_request t incremental)"

definition set_scope_response ::
  "message_registrations \<Rightarrow> type_info \<Rightarrow> incremental_scope
     \<Rightarrow> (incremental_scope \<times> dyn_input_slot \<times> dyn_output option) build" where
  "set_scope_response messages t incremental =
     ebind (of_result (get_operations messages t)) (\<lambda>_. incremental_set_response t incremental)"

definition spawn_scope_stream ::
  "type_info \<Rightarrow> entity \<Rightarrow> entity \<Rightarrow> commands \<Rightarrow> commands \<times> dyn_input_slot \<times> dyn_output" where
  "spawn_scope_stream t in_scope out_scope s =
     (let (s, source) = spawn s;
          (s, target) = spawn s;
          s = queue_command (AddOperation (Some in_scope) source (CreatedStreamRedirect target)) s
      in (s, \<lparr>dis_scope = in_scope, dis_source = source, dis_type = t\<rparr>,
             \<lparr>dyo_scope = out_scope, dyo_target = target, dyo_type = t\<rparr>))"

definition spawn_basic_scope_stream ::
  "message_registrations \<Rightarrow> type_info \<Rightarrow> entity \<Rightarrow> entity \<Rightarrow> (dyn_input_slot \<times> dyn_output) build" where
  "spawn_basic_scope_stream messages t in_scope out_scope =
     ebind (of_result (get_operations messages t)) (\<lambda>_. infallible (spawn_scope_stream t in_scope out_scope))"

subsection \<open>Building the operations of the schemas\<close>

datatype build_status = BuildFinished | BuildDefer bool diagram_error_code

definition build_defer :: "diagram_error_code \<Rightarrow> build_status" where
  "build_defer reason = BuildDefer False reason"

fun status_made_progress :: "build_status \<Rightarrow> bool" where
  "status_made_progress (BuildDefer progress reason) = progress"
| "status_made_progress BuildFinished = True"

fun into_deferral_reason :: "build_status \<Rightarrow> diagram_error_code option" where
  "into_deferral_reason (BuildDefer progress reason) = Some reason"
| "into_deferral_reason BuildFinished = None"

definition status_is_finished :: "build_status \<Rightarrow> bool" where
  "status_is_finished status \<longleftrightarrow> status = BuildFinished"

text \<open>\<open>TraceInfo::new\<close> can fail; the trace itself is not kept.\<close>

definition trace_info :: "builder_context \<Rightarrow> diagram_operation \<Rightarrow> unit building" where
  "trace_info ctx op =
     of_result (case ext_trace_info (bctx_external ctx) op of
                  Inl err \<Rightarrow> Inl (TraceInfoError err) | Inr _ \<Rightarrow> Inr ())"

fun add_node_streams ::
  "builder_context \<Rightarrow> name list \<Rightarrow> (name \<times> next_operation) list \<Rightarrow> (name, dyn_output) hmap \<Rightarrow> unit building" where
  "add_node_streams ctx available [] streams = return ()"
| "add_node_streams ctx available ((n, target) # stream_out) streams =
     (case hm_get streams n of
        None \<Rightarrow> raise_code (MissingStream \<lparr>ms_missing_name = n, ms_available_names = available\<rparr>)
      | Some output \<Rightarrow>
          ebind (add_output_into_target ctx (op_of_next target) output) (\<lambda>_.
            add_node_streams ctx available stream_out (AList.delete n streams)))"

definition build_node :: "node_schema \<Rightarrow> name \<Rightarrow> builder_context \<Rightarrow> build_status building" where
  "build_node self op_id ctx =
     ebind (of_result (get_node_registration (bctx_registry ctx) (node_builder self))) (\<lambda>registration.
     ebind (on_commands (nrg_create_node registration (node_config self) (bctx_scope ctx))) (\<lambda>node.
     ebind (trace_info ctx (OpNode self)) (\<lambda>_.
     ebind (set_input_for_target ctx (op_of_name op_id) (dn_input node)) (\<lambda>_.
     ebind (add_output_into_target ctx (op_of_next (node_next self)) (dn_output node)) (\<lambda>_.
     ebind (add_node_streams ctx (hm_keys (dn_streams node)) (node_stream_out self) (dn_streams node)) (\<lambda>_.
       return BuildFinished))))))"

text \<open>The check for unknown outputs, for both kinds of sections.\<close>

definition check_section_outputs :: "section_schema \<Rightarrow> name list \<Rightarrow> unit building" where
  "check_section_outputs self available =
     each (\<lambda>expected. if expected \<in> set available then return ()
                      else raise_code (SectionError (UnknownOutput expected)))
       (hm_keys (section_connect self))"

definition namespaced :: "name \<Rightarrow> name \<Rightarrow> operation_ref" where
  "namespaced namespace operation =
     op_of_next (NextNamespace \<lparr>nsop_namespace = namespace, nsop_operation = operation\<rparr>)"

definition build_section_from_builder ::
  "section_schema \<Rightarrow> builder_id \<Rightarrow> name \<Rightarrow> builder_context \<Rightarrow> unit building" where
  "build_section_from_builder self section_builder op_id ctx =
     ebind (of_result (get_section_registration (bctx_registry ctx) section_builder)) (\<lambda>registration.
     ebind (on_commands (srg_create_section registration (section_config self) (bctx_scope ctx))) (\<lambda>slots.
     ebind (trace_info ctx (OpSection self)) (\<lambda>_.
     ebind (each (\<lambda>(op, input). set_input_for_target ctx (namespaced op_id op) input) (sls_inputs slots)) (\<lambda>_.
     ebind (check_section_outputs self (hm_keys (sls_outputs slots))) (\<lambda>_.
     ebind (each (\<lambda>(out, output).
              case hm_get (section_connect self) out of
                Some target \<Rightarrow> add_output_into_target ctx (op_of_next target) output
              | None \<Rightarrow> return ()) (sls_outputs slots)) (\<lambda>_.
       each (\<lambda>(op, buffer). set_buffer_for_operation ctx (namespaced op_id op) buffer) (sls_buffers slots)))))))"

fun redirect_each ::
  "(name \<Rightarrow> next_operation \<Rightarrow> unit building) \<Rightarrow> input_remapping \<Rightarrow> unit building" where
  "redirect_each f (RemapForward operations) = each (\<lambda>op. f op (NextName op)) operations"
| "redirect_each f (RemapTo remap) = each (\<lambda>(op, next). f op next) remap"

definition build_section_from_template ::
  "section_schema \<Rightarrow> name \<Rightarrow> name \<Rightarrow> builder_context \<Rightarrow> unit building" where
  "build_section_from_template self section_template op_id ctx =
     ebind (of_result (get_template (dc_templates (bctx_diagram ctx)) section_template)) (\<lambda>template.
     ebind (each (\<lambda>(child_id, op). build_child_operation ctx op_id child_id op (template_ops template) None None)
              (ops_map (template_ops template))) (\<lambda>_.
     ebind (redirect_each (redirect_to_child_input ctx op_id) (template_inputs template)) (\<lambda>_.
     ebind (redirect_each (redirect_to_child_buffer ctx op_id) (template_buffers template)) (\<lambda>_.
     ebind (check_section_outputs self (template_outputs template)) (\<lambda>_.
       each (\<lambda>output.
              case hm_get (section_connect self) output of
                Some target \<Rightarrow> redirect_exposed_output_to_sibling ctx op_id output target
              | None \<Rightarrow> redirect_exposed_output_to_sibling ctx op_id output next_dispose)
         (template_outputs template))))))"

definition build_section :: "section_schema \<Rightarrow> name \<Rightarrow> builder_context \<Rightarrow> build_status building" where
  "build_section self op_id ctx =
     ebind (case section_provider self of
              ProviderBuilder section_builder \<Rightarrow> build_section_from_builder self section_builder op_id ctx
            | ProviderTemplate section_template \<Rightarrow> build_section_from_template self section_template op_id ctx) (\<lambda>_.
     ebind (set_connect_into_target ctx (terminate_for op_id)
              (redirect_connection (context_ref ctx (op_of_next next_terminate)))) (\<lambda>_.
       return BuildFinished))"

definition add_output_if :: "builder_context \<Rightarrow> operation_ref \<Rightarrow> dyn_output option \<Rightarrow> unit building" where
  "add_output_if ctx target output =
     (case output of Some out \<Rightarrow> add_output_into_target ctx target out | None \<Rightarrow> return ())"

definition build_scope_stream ::
  "name \<Rightarrow> builder_context \<Rightarrow> incremental_scope \<Rightarrow> name \<Rightarrow> next_operation \<Rightarrow> unit building" where
  "build_scope_stream op_id ctx scope stream_name stream_out_target =
     (let stream_op = scope_stream_out op_id stream_name
      in ebind (inferred_message_type ctx (PortIn stream_op)) (\<lambda>stream_message_type.
         ebind (on_commands (spawn_basic_scope_stream (bctx_messages ctx) stream_message_type
                  (sc_scope (inner_scope_context scope)) (sc_scope (bctx_scope ctx)))) (\<lambda>(stream_input, stream_output).
         ebind (set_input_for_target ctx stream_op stream_input) (\<lambda>_.
           add_output_into_target ctx (op_of_next stream_out_target) stream_output))))"

definition build_scope_cancel :: "name \<Rightarrow> builder_context \<Rightarrow> unit building" where
  "build_scope_cancel op_id ctx =
     ebind (connect_to_cancel_new False ctx) (\<lambda>connect_to_cancel.
     ebind (set_connect_into_target ctx (cancel_for op_id) (ConnectCancel connect_to_cancel)) (\<lambda>_.
     ebind (connect_to_cancel_new True ctx) (\<lambda>connect_to_implicit_cancel.
       set_connect_into_target ctx (implicit_cancel_for op_id) (ConnectCancel connect_to_implicit_cancel))))"

definition build_scope :: "scope_schema \<Rightarrow> name \<Rightarrow> builder_context \<Rightarrow> build_status building" where
  "build_scope self op_id ctx =
     ebind (trace_info ctx (OpScope self)) (\<lambda>_.
     ebind (on_commands (infallible (incremental_scope_begin (bctx_scope ctx)))) (\<lambda>scope.
     let start_target = in_namespace op_id (op_of_next (scope_start self))
     in ebind (inferred_message_type ctx (PortIn start_target)) (\<lambda>start_message_type.
        ebind (on_commands (set_scope_request (bctx_messages ctx) start_message_type scope))
          (\<lambda>(scope, external_input, begin_scope).
        ebind (add_output_if ctx start_target begin_scope) (\<lambda>_.
        ebind (set_input_for_target ctx (op_of_name op_id) external_input) (\<lambda>_.
        ebind (each (\<lambda>(stream_name, target). build_scope_stream op_id ctx scope stream_name target)
                 (scope_stream_outs self)) (\<lambda>_.
        ebind (inferred_message_type ctx (PortIn (op_of_next (scope_next self)))) (\<lambda>next_message_type.
        ebind (on_commands (set_scope_response (bctx_messages ctx) next_message_type scope))
          (\<lambda>(scope, terminate, external_output).
        ebind (add_output_if ctx (op_of_next (scope_next self)) external_output) (\<lambda>_.
        ebind (set_input_for_target ctx (terminate_for op_id) terminate) (\<lambda>_.
        ebind (build_scope_cancel op_id ctx) (\<lambda>_.
        ebind (each (\<lambda>(child_id, op). build_child_operation ctx op_id child_id op (scope_ops self)
                       (Some (scope_on_implicit_error self)) (Some (inner_scope_context scope)))
                 (ops_map (scope_ops self))) (\<lambda>_.
          return BuildFinished)))))))))))))"

definition build_stream_out :: "stream_out_schema \<Rightarrow> name \<Rightarrow> builder_context \<Rightarrow> build_status building" where
  "build_stream_out self op_id ctx =
     (let redirect_to = context_ref ctx (op_stream_out (stream_out_name self))
      in ebind (set_connect_into_target ctx (op_of_name op_id) (redirect_connection redirect_to)) (\<lambda>_.
           return BuildFinished))"

definition build_fork_clone :: "fork_clone_schema \<Rightarrow> name \<Rightarrow> builder_context \<Rightarrow> build_status building" where
  "build_fork_clone self op_id ctx =
     ebind (inferred_message_type ctx (PortIn (op_of_name op_id))) (\<lambda>inferred_type.
     ebind (on_commands (registry_fork_clone (bctx_messages ctx) inferred_type (bctx_scope ctx))) (\<lambda>fork.
     ebind (trace_info ctx (OpForkClone self)) (\<lambda>_.
     ebind (set_input_for_target ctx (op_of_name op_id) (dfc_input fork)) (\<lambda>_.
     ebind (each (\<lambda>target.
              ebind (on_commands (dfc_clone_output fork (bctx_scope ctx))) (\<lambda>output.
                add_output_into_target ctx (op_of_next target) output)) (fork_clone_next self)) (\<lambda>_.
       return BuildFinished)))))"

definition build_unzip :: "unzip_schema \<Rightarrow> name \<Rightarrow> builder_context \<Rightarrow> build_status building" where
  "build_unzip self op_id ctx =
     ebind (inferred_message_type ctx (PortIn (op_of_name op_id))) (\<lambda>inferred_type.
     ebind (on_commands (registry_unzip (bctx_messages ctx) inferred_type)) (\<lambda>unzip.
     ebind (of_result (rmap (get_type_info_for (bctx_messages ctx)) (uzr_output_types unzip))) (\<lambda>actual_output.
       if length actual_output \<noteq> length (unzip_next self)
       then raise_code (InvalidUnzip inferred_type (length (unzip_next self)))
       else
         ebind (on_commands (uzr_create unzip (bctx_scope ctx))) (\<lambda>created.
         ebind (trace_info ctx (OpUnzip self)) (\<lambda>_.
         ebind (set_input_for_target ctx (op_of_name op_id) (dun_input created)) (\<lambda>_.
         ebind (each (\<lambda>(target, output). add_output_into_target ctx (op_of_next target) output)
                  (zip (unzip_next self) (dun_outputs created))) (\<lambda>_.
           return BuildFinished)))))))"

definition build_fork_result :: "fork_result_schema \<Rightarrow> name \<Rightarrow> builder_context \<Rightarrow> build_status building" where
  "build_fork_result self op_id ctx =
     ebind (inferred_message_type ctx (PortIn (op_of_name op_id))) (\<lambda>inferred_type.
     ebind (on_commands (registry_fork_result (bctx_messages ctx) inferred_type (bctx_scope ctx))) (\<lambda>fork.
     ebind (trace_info ctx (OpForkResult self)) (\<lambda>_.
     ebind (set_input_for_target ctx (op_of_name op_id) (dfr_input fork)) (\<lambda>_.
     ebind (add_output_into_target ctx (op_of_next (fork_result_ok self)) (dfr_ok fork)) (\<lambda>_.
     ebind (add_output_into_target ctx (op_of_next (fork_result_err self)) (dfr_err fork)) (\<lambda>_.
       return BuildFinished))))))"

definition build_split :: "split_schema \<Rightarrow> name \<Rightarrow> builder_context \<Rightarrow> build_status building" where
  "build_split self op_id ctx =
     ebind (inferred_message_type ctx (PortIn (op_of_name op_id))) (\<lambda>input_message_type.
     ebind (on_commands (registry_split (bctx_messages ctx) input_message_type self (bctx_scope ctx))) (\<lambda>split.
     ebind (trace_info ctx (OpSplit self)) (\<lambda>_.
     ebind (set_input_for_target ctx (op_of_name op_id) (dsp_input split)) (\<lambda>_.
     ebind (each (\<lambda>(target, output). add_output_into_target ctx (op_of_next target) output) (dsp_outputs split)) (\<lambda>_.
       return BuildFinished)))))"

text \<open>
  A serialised join takes every buffer as a \<open>JsonBuffer\<close>, which exists for the message types that
  were registered for it in a table of the process (\<open>ext_json_buffers\<close>).
\<close>

definition json_join_layout :: "type_info list \<Rightarrow> buffer_map \<Rightarrow> incompatible_layout + unit" where
  "json_join_layout json_buffers buffers =
     as_result (fold (\<lambda>i compatibility.
         fst (require_buffer_for_identifier
           (\<lambda>b. if ab_type b \<in> set json_buffers then Some b else None)
           ''crossflow::buffer::json_buffer::JsonBuffer'' ab_type i buffers compatibility))
       (hm_keys buffers) empty_layout_report)"

definition clone_field ::
  "message_registrations \<Rightarrow> buffer_map \<Rightarrow> ident \<Rightarrow> diagram_error_code + buffer_map" where
  "clone_field messages buffer_map to_clone =
     (case hm_get buffer_map to_clone of
        None \<Rightarrow> Inl (UnknownJoinField to_clone (hm_keys buffer_map))
      | Some buffer \<Rightarrow>
          rbind (ok_or (join_by_cloning messages buffer) (NotCloneable (ab_type buffer))) (\<lambda>b.
            Inr (hm_insert to_clone b buffer_map)))"

definition build_join :: "join_schema \<Rightarrow> name \<Rightarrow> builder_context \<Rightarrow> build_status building" where
  "build_join self op_id ctx st =
     (if selection_is_empty (join_buffers self) then raise_code EmptyJoin st
      else case create_buffer_map ctx (join_buffers self) st of
        Inl reason \<Rightarrow> return (build_defer reason) st
      | Inr buffer_map \<Rightarrow>
          ebind (of_result (rfold (clone_field (bctx_messages ctx)) buffer_map (join_clone self))) (\<lambda>buffer_map.
          ebind (if join_serialize self
                 then on_commands (try_join (json_join_layout (ext_json_buffers (bctx_external ctx)))
                        json_message_type_name buffer_map (bctx_scope ctx))
                 else ebind (inferred_message_type ctx (PortOut (OutNamed (out_next op_id)))) (\<lambda>target_type.
                        on_commands (registry_join (bctx_messages ctx) target_type buffer_map (bctx_scope ctx)))) (\<lambda>output.
          ebind (add_output_into_target ctx (op_of_next (join_next self)) output) (\<lambda>_.
            return BuildFinished))) st)"

text \<open>
  The target of the errors of a \<open>transform\<close> and of a \<open>script\<close> is placed below the namespaces of the
  context twice: here, and when the output is added.
\<close>

definition error_target_of :: "builder_context \<Rightarrow> next_operation option \<Rightarrow> operation_ref" where
  "error_target_of ctx on_error =
     (case on_error of
        Some target \<Rightarrow> context_ref ctx (op_of_next target)
      | None \<Rightarrow> get_implicit_error_target ctx)"

definition transform_error_type_name :: string where
  "transform_error_type_name = ''crossflow::diagram::transform_schema::TransformError''"

definition build_transform :: "transform_schema \<Rightarrow> name \<Rightarrow> builder_context \<Rightarrow> build_status building" where
  "build_transform self op_id ctx =
     ebind (of_result (case ext_compile_cel (bctx_external ctx) (transform_cel self) of
              Inl err \<Rightarrow> Inl (CannotTransform (TransformParse err)) | Inr program \<Rightarrow> Inr program)) (\<lambda>_.
     ebind (on_commands (infallible (create_map_block json_message_type_name
              (result_type_name json_message_type_name transform_error_type_name) (bctx_scope ctx)))) (\<lambda>node.
     ebind (on_commands (infallible (create_fork_result json_message_type_name transform_error_type_name
              (bctx_scope ctx)))) (\<lambda>fork.
     ebind (on_commands (connect_to (dn_output node) (dfr_input fork))) (\<lambda>_.
     ebind (add_output_into_target ctx (error_target_of ctx (transform_on_error self)) (dfr_err fork)) (\<lambda>_.
     ebind (trace_info ctx (OpTransform self)) (\<lambda>_.
     ebind (set_input_for_target ctx (op_of_name op_id) (dn_input node)) (\<lambda>_.
     ebind (add_output_into_target ctx (op_of_next (transform_next self)) (dfr_ok fork)) (\<lambda>_.
       return BuildFinished))))))))"

definition build_buffer :: "buffer_schema \<Rightarrow> name \<Rightarrow> builder_context \<Rightarrow> build_status building" where
  "build_buffer self op_id ctx =
     ebind (if buffer_serialize self then return json_message_type_name
            else inferred_message_type ctx (PortIn (op_of_name op_id))) (\<lambda>message_info.
     ebind (on_commands (registry_create_buffer (bctx_messages ctx) message_info (buffer_settings self)
              (bctx_scope ctx))) (\<lambda>buffer.
     ebind (trace_info ctx (OpBuffer self)) (\<lambda>_.
     ebind (set_buffer_for_operation ctx (op_of_name op_id) buffer) (\<lambda>_.
       return BuildFinished))))"

definition build_buffer_access :: "buffer_access_schema \<Rightarrow> name \<Rightarrow> builder_context \<Rightarrow> build_status building" where
  "build_buffer_access self op_id ctx =
     ebind (inferred_message_type ctx (PortIn (op_of_next (access_next self)))) (\<lambda>target_type st.
       case create_buffer_map ctx (access_buffers self) st of
         Inl reason \<Rightarrow> return (build_defer reason) st
       | Inr buffer_map \<Rightarrow>
           ebind (on_commands (registry_buffer_access (bctx_messages ctx) target_type buffer_map (bctx_scope ctx))) (\<lambda>node.
           ebind (trace_info ctx (OpBufferAccess self)) (\<lambda>_.
           ebind (set_input_for_target ctx (op_of_name op_id) (dn_input node)) (\<lambda>_.
           ebind (add_output_into_target ctx (op_of_next (access_next self)) (dn_output node)) (\<lambda>_.
             return BuildFinished)))) st)"

definition build_listen :: "listen_schema \<Rightarrow> builder_context \<Rightarrow> build_status building" where
  "build_listen self ctx =
     ebind (inferred_message_type ctx (PortIn (op_of_next (listen_next self)))) (\<lambda>target_type st.
       case create_buffer_map ctx (listen_buffers self) st of
         Inl reason \<Rightarrow> return (build_defer reason) st
       | Inr buffer_map \<Rightarrow>
           ebind (on_commands (registry_listen (bctx_messages ctx) target_type buffer_map (bctx_scope ctx))) (\<lambda>output.
           ebind (add_output_into_target ctx (op_of_next (listen_next self)) output) (\<lambda>_.
             return BuildFinished)) st)"

text \<open>\<open>Builder::create_node\<close> for a callback that streams named script messages.\<close>

definition create_script_node ::
  "type_info \<Rightarrow> type_info \<Rightarrow> type_info \<Rightarrow> scope_context \<Rightarrow> commands \<Rightarrow> commands \<times> dyn_node \<times> entity" where
  "create_script_node request response stream sc s =
     (let (s, source) = spawn s;
          (s, target) = spawn s;
          s = queue_command (AddOperation (Some (sc_scope sc)) source (CreatedCallback target)) s;
          (s, stream_target) = spawn s
      in (s, \<lparr>dn_input = \<lparr>dis_scope = sc_scope sc, dis_source = source, dis_type = request\<rparr>,
              dn_output = \<lparr>dyo_scope = sc_scope sc, dyo_target = target, dyo_type = response\<rparr>,
              dn_streams = []\<rparr>, stream_target))"

definition add_script_streams ::
  "script_schema \<Rightarrow> entity \<Rightarrow> builder_context \<Rightarrow> unit building" where
  "add_script_streams self streams ctx =
     (if script_stream_out self = [] then return ()
      else
        ebind (on_commands (modify (queue_command (AddOperation (Some (sc_scope (bctx_scope ctx))) streams CreatedSplit)))) (\<lambda>_.
        ebind (on_commands (split_chains map_key_space script_message_type_name (bctx_scope ctx)
                 (map (\<lambda>(n, target). (SplitSpecific n, target)) (script_stream_out self))
                 \<lparr>spo_scope = sc_scope (bctx_scope ctx), spo_source = streams, spo_used = []\<rparr>)) (\<lambda>outputs.
          each (\<lambda>(target, output). add_output_into_target ctx (op_of_next target) output) outputs)))"

definition build_script :: "script_schema \<Rightarrow> name \<Rightarrow> builder_context \<Rightarrow> build_status building" where
  "build_script self op_id ctx =
     ebind (get_script_environment ctx (script_environment self)) (\<lambda>env.
     ebind (of_result (case sev_compile env (script_run self) (script_config self) of
              Inl error \<Rightarrow> Inl (ScriptCompileError (script_environment self) error) | Inr script \<Rightarrow> Inr script)) (\<lambda>_.
     ebind (on_commands (infallible (create_script_node script_message_type_name
              (result_type_name script_message_type_name string_type_name) script_message_type_name
              (bctx_scope ctx)))) (\<lambda>(node, streams).
     ebind (on_commands (infallible (chain_fork_result script_message_type_name string_type_name
              (dyo_target (dn_output node)) (bctx_scope ctx)))) (\<lambda>(ok, err).
     ebind (trace_info ctx (OpScript self)) (\<lambda>_.
     ebind (set_input_for_target ctx (op_of_name op_id) (dn_input node)) (\<lambda>_.
     ebind (add_output_into_target ctx (op_of_next (script_next self)) ok) (\<lambda>_.
     ebind (add_output_into_target ctx (error_target_of ctx (script_on_error self)) err) (\<lambda>_.
     ebind (add_script_streams self streams ctx) (\<lambda>_.
       return BuildFinished)))))))))"

fun build_diagram_operation :: "diagram_operation \<Rightarrow> name \<Rightarrow> builder_context \<Rightarrow> build_status building" where
  "build_diagram_operation (OpBuffer op) op_id ctx = build_buffer op op_id ctx"
| "build_diagram_operation (OpBufferAccess op) op_id ctx = build_buffer_access op op_id ctx"
| "build_diagram_operation (OpForkClone op) op_id ctx = build_fork_clone op op_id ctx"
| "build_diagram_operation (OpForkResult op) op_id ctx = build_fork_result op op_id ctx"
| "build_diagram_operation (OpJoin op) op_id ctx = build_join op op_id ctx"
| "build_diagram_operation (OpListen op) op_id ctx = build_listen op ctx"
| "build_diagram_operation (OpNode op) op_id ctx = build_node op op_id ctx"
| "build_diagram_operation (OpScope op) op_id ctx = build_scope op op_id ctx"
| "build_diagram_operation (OpScript op) op_id ctx = build_script op op_id ctx"
| "build_diagram_operation (OpSection op) op_id ctx = build_section op op_id ctx"
| "build_diagram_operation (OpSplit op) op_id ctx = build_split op op_id ctx"
| "build_diagram_operation (OpStreamOutput op) op_id ctx = build_stream_out op op_id ctx"
| "build_diagram_operation (OpTransform op) op_id ctx = build_transform op op_id ctx"
| "build_diagram_operation (OpUnzip op) op_id ctx = build_unzip op op_id ctx"

end
