(* ===== verification/RegistryAccess.thy ===== *)
theory RegistryAccess
  imports Construction Registration
begin

text \<open>
  \<open>MetadataAccess\<close> for the registry itself, \<open>impl MetadataAccess for DiagramElementRegistry\<close> of
  \<open>src/src/diagram/registration/registration_metadata.rs\<close>, and the metadata that a registry exports.

  The inference is run on either: the workflow builder passes the registry, an editor passes exported
  metadata. Both implementations of every method agree (\<open>registry_access_agrees\<close>), so the theorems
  about the inference, which are stated for metadata, hold for the registry.
\<close>

definition registry_metadata :: "diagram_registry \<Rightarrow> element_metadata" where
  "registry_metadata self =
     \<lparr>em_nodes = map (\<lambda>(k, r). (k, nrg_metadata r)) (dreg_nodes self),
      em_sections = map (\<lambda>(k, r). (k, srg_metadata r)) (dreg_sections self),
      em_messages = registrations_metadata (dreg_messages self),
      em_reverse_message_lookup = mrs_reverse_lookup (dreg_messages self)\<rparr>"

definition operations_by_index :: "diagram_registry \<Rightarrow> nat \<Rightarrow> diagram_error_code + message_operations" where
  "operations_by_index self i = rbind (get_by_index (dreg_messages self) i) registration_operations"

definition registry_json_message_index :: "diagram_registry \<Rightarrow> diagram_error_code + nat" where
  "registry_json_message_index self =
     ok_or (rml_json_message (mrs_reverse_lookup (dreg_messages self))) (UnregisteredTypes [json_message_type_name])"

definition registry_script_message_index :: "diagram_registry \<Rightarrow> diagram_error_code + nat" where
  "registry_script_message_index self =
     ok_or (rml_script_message (mrs_reverse_lookup (dreg_messages self))) (UnregisteredTypes [script_message_type_name])"

definition registry_node_metadata :: "diagram_registry \<Rightarrow> builder_id \<Rightarrow> diagram_error_code + node_metadata" where
  "registry_node_metadata self builder =
     rbind (get_node_registration self builder) (\<lambda>r. Inr (nrg_metadata r))"

definition registry_section_metadata :: "diagram_registry \<Rightarrow> builder_id \<Rightarrow> diagram_error_code + section_metadata" where
  "registry_section_metadata self builder =
     rbind (get_section_registration self builder) (\<lambda>r. Inr (srg_metadata r))"

definition registry_message_type_name :: "diagram_registry \<Rightarrow> nat \<Rightarrow> diagram_error_code + string" where
  "registry_message_type_name self i =
     rbind (get_by_index (dreg_messages self) i) (\<lambda>r. Inr (mrg_type_info r))"

text \<open>The look-ups of one supported operation: the entry, or an error with the name of the type.\<close>

definition registered_entry ::
  "(message_operations \<Rightarrow> 'a option) \<Rightarrow> (string \<Rightarrow> diagram_error_code) \<Rightarrow> diagram_registry \<Rightarrow> nat
     \<Rightarrow> diagram_error_code + 'a" where
  "registered_entry field missing self i =
     rbind (operations_by_index self i) (\<lambda>ops.
       case field ops of
         Some x \<Rightarrow> Inr x
       | None \<Rightarrow> rbind (registry_message_type_name self i) (\<lambda>type_name. Inl (missing type_name)))"

definition registry_join_layout :: "diagram_registry \<Rightarrow> nat \<Rightarrow> diagram_error_code + nat layout_hints" where
  "registry_join_layout =
     registered_entry (\<lambda>ops. map_option jnr_layout (mop_join ops)) NotJoinable"

definition registry_buffer_access_request_type :: "diagram_registry \<Rightarrow> nat \<Rightarrow> diagram_error_code + nat" where
  "registry_buffer_access_request_type =
     registered_entry (\<lambda>ops. map_option (bam_request_message \<circ> bar_metadata) (mop_buffer_access ops)) CannotAccessBuffers"

definition registry_buffer_access_layout :: "diagram_registry \<Rightarrow> nat \<Rightarrow> diagram_error_code + nat layout_hints" where
  "registry_buffer_access_layout =
     registered_entry (\<lambda>ops. map_option (bam_layout \<circ> bar_metadata) (mop_buffer_access ops)) CannotAccessBuffers"

definition registry_listen_layout :: "diagram_registry \<Rightarrow> nat \<Rightarrow> diagram_error_code + nat layout_hints" where
  "registry_listen_layout =
     registered_entry (\<lambda>ops. map_option lsr_layout (mop_listen ops)) CannotListen"

definition registry_fork_result_output_types :: "diagram_registry \<Rightarrow> nat \<Rightarrow> diagram_error_code + (nat \<times> nat)" where
  "registry_fork_result_output_types =
     registered_entry (\<lambda>ops. map_option frr_output_types (mop_fork_result ops)) CannotForkResult"

definition registry_unzip_output_types :: "diagram_registry \<Rightarrow> nat \<Rightarrow> diagram_error_code + nat list" where
  "registry_unzip_output_types =
     registered_entry (\<lambda>ops. map_option uzr_output_types (mop_unzip ops)) NotUnzippable"

definition registry_split_output_type :: "diagram_registry \<Rightarrow> nat \<Rightarrow> diagram_error_code + nat" where
  "registry_split_output_type =
     registered_entry (\<lambda>ops. map_option spr_output_type (mop_split ops)) NotSplittable"

definition registry_can_convert :: "diagram_registry \<Rightarrow> nat \<Rightarrow> nat \<Rightarrow> diagram_error_code + bool" where
  "registry_can_convert self from_index to_index =
     rbind (rbind (get_by_index (dreg_messages self) from_index) registration_operations) (\<lambda>ops.
       Inr (hm_get (mop_into_impls ops) to_index \<noteq> None))"

definition registry_can_clone :: "diagram_registry \<Rightarrow> nat \<Rightarrow> diagram_error_code + bool" where
  "registry_can_clone self i = rbind (operations_by_index self i) (\<lambda>ops. Inr (mop_fork_clone ops \<noteq> None))"

definition registry_can_serialize :: "diagram_registry \<Rightarrow> nat \<Rightarrow> diagram_error_code + bool" where
  "registry_can_serialize self i = rbind (operations_by_index self i) (\<lambda>ops. Inr (mop_serialize ops \<noteq> None))"

definition registry_can_deserialize :: "diagram_registry \<Rightarrow> nat \<Rightarrow> diagram_error_code + bool" where
  "registry_can_deserialize self i = rbind (operations_by_index self i) (\<lambda>ops. Inr (mop_deserialize ops \<noteq> None))"

definition registry_into_script_message :: "diagram_registry \<Rightarrow> nat \<Rightarrow> diagram_error_code + bool" where
  "registry_into_script_message self i = rbind (operations_by_index self i) (\<lambda>ops. Inr (supports_into_script_message (dreg_messages self) ops))"

definition registry_from_script_message :: "diagram_registry \<Rightarrow> nat \<Rightarrow> diagram_error_code + bool" where
  "registry_from_script_message self i = rbind (operations_by_index self i) (\<lambda>ops. Inr (supports_from_script_message (dreg_messages self) ops))"

definition registry_can_split :: "diagram_registry \<Rightarrow> nat \<Rightarrow> diagram_error_code + bool" where
  "registry_can_split self i = rbind (operations_by_index self i) (\<lambda>ops. Inr (mop_split ops \<noteq> None))"

definition registry_reverse_lookup :: "diagram_registry \<Rightarrow> reverse_message_lookup" where
  "registry_reverse_lookup self = mrs_reverse_lookup (dreg_messages self)"

definition metadata_reverse_lookup :: "element_metadata \<Rightarrow> reverse_message_lookup" where
  "metadata_reverse_lookup self = em_reverse_message_lookup self"

subsection \<open>Agreement with the exported metadata\<close>

lemma metadata_get_by_index:
  "em_message (registry_metadata self) i =
     rbind (get_by_index (dreg_messages self) i) (\<lambda>r.
       Inr \<lparr>mm_type_name = mrg_type_info r,
            mm_operations = map_option (metadata_of_operations (dreg_messages self)) (mrg_operations r)\<rparr>)"
  by (simp add: em_message_def registry_metadata_def registrations_metadata_def get_by_index_def)

lemma metadata_operations:
  "message_operations_for (registry_metadata self) i =
     rbind (operations_by_index self i) (\<lambda>ops. Inr (metadata_of_operations (dreg_messages self) ops))"
  by (auto simp: message_operations_for_def metadata_get_by_index operations_by_index_def
      registration_operations_def unregistered_def rbind_def ok_or_def split: sum.split option.split)

lemma metadata_type_name:
  "message_type_name (registry_metadata self) i = registry_message_type_name self i"
  by (auto simp: message_type_name_def metadata_get_by_index registry_message_type_name_def rbind_def
      split: sum.split)

lemma registered_entry_agrees:
  assumes "\<And>ops. field' (metadata_of_operations (dreg_messages self) ops) = field ops"
  shows "registered_entry field missing self i = supported_entry field' missing (registry_metadata self) i"
  unfolding registered_entry_def supported_entry_def metadata_operations metadata_type_name
  by (simp add: rbind_def assms split: sum.split)

text \<open>C24: the registry and the metadata that it exports are the same to the inference. Each of the twenty
  methods of \<open>MetadataAccess\<close> returns the same value or the same error on a registry and on its
  metadata, for every index and every name.\<close>

theorem registry_access_agrees:
  "registry_json_message_index reg = json_message_index (registry_metadata reg)
   \<and> registry_script_message_index reg = script_message_index (registry_metadata reg)
   \<and> registry_node_metadata reg builder = node_metadata_of (registry_metadata reg) builder
   \<and> registry_section_metadata reg builder = section_metadata_of (registry_metadata reg) builder
   \<and> registry_message_type_name reg i = message_type_name (registry_metadata reg) i
   \<and> registry_join_layout reg i = join_layout (registry_metadata reg) i
   \<and> registry_buffer_access_request_type reg i = buffer_access_request_type (registry_metadata reg) i
   \<and> registry_buffer_access_layout reg i = buffer_access_layout (registry_metadata reg) i
   \<and> registry_listen_layout reg i = listen_layout (registry_metadata reg) i
   \<and> registry_can_convert reg i j = can_convert (registry_metadata reg) i j
   \<and> registry_can_clone reg i = can_clone (registry_metadata reg) i
   \<and> registry_can_serialize reg i = can_serialize (registry_metadata reg) i
   \<and> registry_can_deserialize reg i = can_deserialize (registry_metadata reg) i
   \<and> registry_into_script_message reg i = into_script_message (registry_metadata reg) i
   \<and> registry_from_script_message reg i = from_script_message (registry_metadata reg) i
   \<and> registry_fork_result_output_types reg i = fork_result_output_types (registry_metadata reg) i
   \<and> registry_unzip_output_types reg i = unzip_output_types (registry_metadata reg) i
   \<and> registry_split_output_type reg i = split_output_type (registry_metadata reg) i
   \<and> registry_can_split reg i = can_split (registry_metadata reg) i
   \<and> registry_reverse_lookup reg = metadata_reverse_lookup (registry_metadata reg)"
proof (intro conjI)
  have lookup: "hm_get (map (\<lambda>(k, r). (k, f r)) m) k = map_option f (hm_get m k)" for f and m :: "('k, 'v) hmap" and k
    by (induction m) auto
  show "registry_json_message_index reg = json_message_index (registry_metadata reg)"
    and "registry_script_message_index reg = script_message_index (registry_metadata reg)"
    by (simp_all add: registry_json_message_index_def json_message_index_def registry_script_message_index_def
        script_message_index_def registry_metadata_def)
  show "registry_node_metadata reg builder = node_metadata_of (registry_metadata reg) builder"
    by (simp add: registry_node_metadata_def node_metadata_of_def get_node_registration_def registry_metadata_def
        lookup ok_or_def split: option.split)
  show "registry_section_metadata reg builder = section_metadata_of (registry_metadata reg) builder"
    by (simp add: registry_section_metadata_def section_metadata_of_def get_section_registration_def
        registry_metadata_def lookup ok_or_def split: option.split)
  show "registry_message_type_name reg i = message_type_name (registry_metadata reg) i"
    by (simp add: metadata_type_name)
  show "registry_can_convert reg i j = can_convert (registry_metadata reg) i j"
    by (auto simp: registry_can_convert_def can_convert_def metadata_operations operations_by_index_def rbind_def
        metadata_of_operations_def set_hm_keys split: sum.split)
  show "registry_reverse_lookup reg = metadata_reverse_lookup (registry_metadata reg)"
    by (simp add: registry_reverse_lookup_def metadata_reverse_lookup_def registry_metadata_def)
qed (simp_all add: registry_join_layout_def join_layout_def registry_buffer_access_request_type_def
    buffer_access_request_type_def registry_buffer_access_layout_def buffer_access_layout_def
    registry_listen_layout_def listen_layout_def registry_fork_result_output_types_def
    fork_result_output_types_def registry_unzip_output_types_def unzip_output_types_def
    registry_split_output_type_def split_output_type_def registered_entry_agrees metadata_of_operations_def
    registry_can_clone_def can_clone_def registry_can_serialize_def can_serialize_def
    registry_can_deserialize_def can_deserialize_def registry_into_script_message_def into_script_message_def
    registry_from_script_message_def from_script_message_def registry_can_split_def can_split_def
    metadata_operations rbind_def option.map_comp split: sum.split)

end
