(* ===== verification/Workflow.thy ===== *)
theory Workflow
  imports Building RegistryAccess Inference
begin

text \<open>
  Creating a workflow from a diagram: \<open>create_workflow\<close> and
  \<open>initialize_builtin_operations\<close> of \<open>src/src/diagram/workflow_builder.rs\<close>.

  After the inference the operations are built in rounds. A round tries every unfinished operation
  once (\<open>build_round\<close>) and then connects outputs until no connector produces new ones
  (\<open>connect_loop\<close>). A counter bounds the rounds and the passes of the inner loop together, so both
  loops are total functions. The hash maps are drained in the order of their lists.
\<close>

subsection \<open>The start of the construction\<close>

text \<open>\<open>Scope\<close>: the endpoints of the workflow that is built.\<close>

record workflow_scope =
  wsc_start :: dyn_output
  wsc_terminate :: dyn_input_slot
  wsc_streams :: "(name, dyn_input_slot) hmap"

record workflow_env =
  wen_external :: external_code
  wen_registry :: diagram_registry
  wen_inference :: "(port_ref, nat) hmap"
  wen_diagram :: diagram
  wen_scope :: scope_context

definition root_on_implicit_error :: "workflow_env \<Rightarrow> operation_ref" where
  "root_on_implicit_error env = op_of_next (diagram_on_implicit_error (wen_diagram env))"

definition root_diagram_context :: "workflow_env \<Rightarrow> diagram_context" where
  "root_diagram_context env =
     \<lparr>dc_operations = dg_ops (wen_diagram env), dc_templates = dg_templates (wen_diagram env),
      dc_on_implicit_error = root_on_implicit_error env,
      dc_script_environments = dg_script_environments (wen_diagram env),
      dc_default_trace = dg_default_trace (wen_diagram env), dc_namespaces = []\<rparr>"

definition builder_context_in :: "workflow_env \<Rightarrow> scope_context \<Rightarrow> diagram_context \<Rightarrow> builder_context" where
  "builder_context_in env scope context =
     \<lparr>bctx_external = wen_external env, bctx_registry = wen_registry env,
      bctx_inference = wen_inference env, bctx_scope = scope, bctx_diagram = context\<rparr>"

definition initialize_builtin_operations ::
  "next_operation \<Rightarrow> workflow_scope \<Rightarrow> builder_context \<Rightarrow> unit building" where
  "initialize_builtin_operations start scope ctx =
     ebind (add_output_into_target ctx (op_of_next start) (wsc_start scope)) (\<lambda>_.
     ebind (set_input_for_target ctx (OpTerminate []) (wsc_terminate scope)) (\<lambda>_.
     ebind (each (\<lambda>(n, input). set_input_for_target ctx (op_stream_out n) input) (wsc_streams scope)) (\<lambda>_.
     ebind (set_connect_into_target ctx OpDispose ConnectDispose) (\<lambda>_.
     ebind (connect_to_cancel_new False ctx) (\<lambda>connect_to_cancel.
     ebind (set_connect_into_target ctx (OpCancel []) (ConnectCancel connect_to_cancel)) (\<lambda>_.
     ebind (connect_to_cancel_new True ctx) (\<lambda>connect_to_implicit_cancel.
       set_connect_into_target ctx (OpImplicitCancel []) (ConnectCancel connect_to_implicit_cancel))))))))"

definition build_operation_new ::
  "name \<Rightarrow> diagram_operation \<Rightarrow> operations \<Rightarrow> operation_ref \<Rightarrow> scope_context \<Rightarrow> build_operation" where
  "build_operation_new op_id op sibling_ops on_implicit_error scope =
     \<lparr>uo_id = op_id, uo_namespaces = [], uo_op = op, uo_sibling_ops = sibling_ops,
      uo_on_implicit_error = on_implicit_error, bop_scope = scope\<rparr>"

definition as_operation_ref :: "build_operation \<Rightarrow> operation_ref" where
  "as_operation_ref self =
     OpNamed \<lparr>nor_namespaces = uo_namespaces self, nor_exposed_namespace = None, nor_name = uo_id self\<rparr>"

definition initial_operations :: "workflow_env \<Rightarrow> build_operation list" where
  "initial_operations env =
     map (\<lambda>(op_id, op). build_operation_new op_id op (dg_ops (wen_diagram env))
            (root_on_implicit_error env) (wen_scope env))
       (ops_map (dg_ops (wen_diagram env)))"

subsection \<open>Building the operations\<close>

record build_progress =
  bpr_build :: build_state
  bpr_deferred_operations :: "build_operation list"
  bpr_deferred_statuses :: "(operation_ref \<times> build_status) list"
  bpr_made_progress :: bool

definition transfer_generated_operations ::
  "construction \<Rightarrow> build_operation list \<Rightarrow> bool \<Rightarrow> construction \<times> build_operation list \<times> bool" where
  "transfer_generated_operations self deferred_operations made_progress =
     (self\<lparr>cons_generated_operations := []\<rparr>,
      deferred_operations @ cons_generated_operations self,
      made_progress \<or> cons_generated_operations self \<noteq> [])"

definition operation_context :: "workflow_env \<Rightarrow> build_operation \<Rightarrow> builder_context" where
  "operation_context env unfinished =
     builder_context_in env (bop_scope unfinished)
       ((root_diagram_context env)\<lparr>dc_operations := uo_sibling_ops unfinished,
          dc_on_implicit_error := uo_on_implicit_error unfinished,
          dc_namespaces := uo_namespaces unfinished\<rparr>)"

definition build_one ::
  "workflow_env \<Rightarrow> build_progress \<Rightarrow> build_operation \<Rightarrow> diagram_error fault + build_progress" where
  "build_one env s unfinished =
     (let (st, result) = build_diagram_operation (uo_op unfinished) (uo_id unfinished)
            (operation_context env unfinished) (bpr_build s)
      in rbind (fault_in_port result (PortIn (as_operation_ref unfinished))) (\<lambda>status.
           let (c, deferred, made_progress) = transfer_generated_operations (bst_construction st)
                 (bpr_deferred_operations s) (bpr_made_progress s);
               s' = \<lparr>bpr_build = st\<lparr>bst_construction := c\<rparr>, bpr_deferred_operations = deferred,
                     bpr_deferred_statuses = bpr_deferred_statuses s,
                     bpr_made_progress = made_progress \<or> status_made_progress status\<rparr>
           in Inr (if status_is_finished status then s'
                   else s'\<lparr>bpr_deferred_statuses :=
                             bpr_deferred_statuses s' @ [(as_operation_ref unfinished, status)],
                           bpr_deferred_operations := bpr_deferred_operations s' @ [unfinished]\<rparr>)))"

record workflow_state =
  wst_construction :: construction
  wst_connector :: construction
  wst_commands :: commands
  wst_unfinished :: "build_operation list"
  wst_deferred_statuses :: "(operation_ref \<times> build_status) list"
  wst_made_progress :: bool
  wst_iterations :: nat

definition build_round :: "workflow_env \<Rightarrow> workflow_state \<Rightarrow> diagram_error fault + workflow_state" where
  "build_round env w =
     rbind (rfold (build_one env)
              \<lparr>bpr_build = \<lparr>bst_construction = wst_construction w, bst_commands = wst_commands w\<rparr>,
               bpr_deferred_operations = [], bpr_deferred_statuses = wst_deferred_statuses w,
               bpr_made_progress = False\<rparr> (wst_unfinished w)) (\<lambda>s.
       Inr (w\<lparr>wst_construction := bst_construction (bpr_build s),
              wst_commands := bst_commands (bpr_build s),
              wst_unfinished := bpr_deferred_operations s,
              wst_deferred_statuses := bpr_deferred_statuses s,
              wst_made_progress := bpr_made_progress s,
              wst_connector := (wst_connector w)
                \<lparr>cons_buffers := cons_buffers (bst_construction (bpr_build s))\<rparr>\<rparr>))"

subsection \<open>Connecting outputs to their targets\<close>

fun connect_outputs ::
  "builder_context \<Rightarrow> connector \<Rightarrow> dyn_output list \<Rightarrow> connector building" where
  "connect_outputs ctx c [] = return c"
| "connect_outputs ctx c (output # outputs) =
     ebind (connect_into_target ctx c output) (\<lambda>c. connect_outputs ctx c outputs)"

record connect_pass_state =
  cps_targets :: "(operation_ref, build_target) hmap"
  cps_build :: build_state
  cps_deferred_connections :: "(operation_ref, dyn_output list) hmap"
  cps_made_progress :: bool

definition connect_context :: "workflow_env \<Rightarrow> scope_context \<Rightarrow> builder_context" where
  "connect_context env scope = builder_context_in env scope (root_diagram_context env)"

definition connect_target ::
  "workflow_env \<Rightarrow> bool \<Rightarrow> connect_pass_state \<Rightarrow> operation_ref \<times> dyn_output list
     \<Rightarrow> diagram_error fault + connect_pass_state" where
  "connect_target env all_built s = (\<lambda>(r, outputs).
     case hm_get (cps_targets s) r of
       None \<Rightarrow>
         if all_built then Inl (Failed (error_of_code (UnknownOperation r)))
         else Inr (s\<lparr>cps_deferred_connections := hm_insert r outputs (cps_deferred_connections s)\<rparr>)
     | Some target \<Rightarrow>
         let (st, result) = connect_outputs (connect_context env (tgt_scope target))
               (tgt_connector target) outputs (cps_build s)
         in rbind (fault_in_port result (PortIn r)) (\<lambda>c.
              Inr (s\<lparr>cps_targets := hm_insert r (target\<lparr>tgt_connector := c\<rparr>) (cps_targets s),
                     cps_build := st,
                     cps_made_progress := cps_made_progress s \<or> outputs \<noteq> []\<rparr>)))"

definition hm_extend :: "('k, 'v) hmap \<Rightarrow> ('k, 'v) hmap \<Rightarrow> ('k, 'v) hmap" where
  "hm_extend m entries = fold (\<lambda>(k, v). hm_insert k v) entries m"

definition max_iterations :: nat where
  "max_iterations = 10000"

definition excessive :: "nat \<Rightarrow> bool" where
  "excessive iterations \<longleftrightarrow> iterations > max_iterations"

lemma excessive_code [code]: "excessive iterations \<longleftrightarrow> 10000 < int iterations"
  by (auto simp: excessive_def max_iterations_def)

text \<open>One pass of the inner loop. The result also tells whether connectors produced new outputs.\<close>

definition connect_pass ::
  "workflow_env \<Rightarrow> workflow_state \<Rightarrow> diagram_error fault + workflow_state \<times> bool" where
  "connect_pass env w =
     rbind (rfold (connect_target env (wst_unfinished w = []))
              \<lparr>cps_targets = cons_connect_into_target (wst_construction w),
               cps_build = \<lparr>bst_construction = wst_connector w, bst_commands = wst_commands w\<rparr>,
               cps_deferred_connections = [], cps_made_progress = wst_made_progress w\<rparr>
              (cons_outputs_into_target (wst_construction w))) (\<lambda>s.
       let connector = bst_construction (cps_build s);
           new_connections = (cons_outputs_into_target connector \<noteq> []);
           outputs = hm_extend (hm_extend [] (cons_outputs_into_target connector))
                       (cps_deferred_connections s);
           (connector, unfinished, made_progress) = transfer_generated_operations
             (connector\<lparr>cons_outputs_into_target := []\<rparr>) (wst_unfinished w) (cps_made_progress s);
           iterations = Suc (wst_iterations w)
       in if excessive iterations then Inl (Failed (error_of_code ExcessiveIterations))
          else Inr (w\<lparr>wst_construction := (wst_construction w)
                        \<lparr>cons_connect_into_target := cps_targets s,
                         cons_outputs_into_target := outputs\<rparr>,
                      wst_connector := connector,
                      wst_commands := bst_commands (cps_build s),
                      wst_unfinished := unfinished,
                      wst_made_progress := made_progress,
                      wst_iterations := iterations\<rparr>, new_connections))"

lemma connect_pass_iterations:
  "connect_pass env w = Inr (w', new) \<Longrightarrow> wst_iterations w' = Suc (wst_iterations w) \<and> wst_iterations w' \<le> max_iterations"
  by (auto simp: connect_pass_def excessive_def rbind_def Let_def split: sum.splits prod.splits if_splits)

function connect_loop :: "workflow_env \<Rightarrow> workflow_state \<Rightarrow> diagram_error fault + workflow_state" where
  "connect_loop env w =
     (case connect_pass env w of
        Inl e \<Rightarrow> Inl e
      | Inr (w', new_connections) \<Rightarrow> if new_connections then connect_loop env w' else Inr w')"
  by pat_completeness auto
termination
  by (relation "measure (\<lambda>(env, w). Suc max_iterations - wst_iterations w)")
     (auto dest!: connect_pass_iterations)

declare connect_loop.simps [simp del]

lemma connect_loop_iterations:
  "connect_loop env w = Inr w' \<Longrightarrow> wst_iterations w < wst_iterations w' \<and> wst_iterations w' \<le> max_iterations"
proof (induction env w rule: connect_loop.induct)
  case (1 env w)
  from 1(2) obtain v new where pass: "connect_pass env w = Inr (v, new)"
    by (auto simp: connect_loop.simps [of env w] split: sum.splits)
  note iterations = connect_pass_iterations [OF pass]
  show ?case
  proof (cases new)
    case True
    then have "connect_loop env v = Inr w'" using 1(2) pass by (simp add: connect_loop.simps [of env w])
    from 1(1) [OF pass refl True this] iterations show ?thesis by simp
  next
    case False
    then have "v = w'" using 1(2) pass by (simp add: connect_loop.simps [of env w])
    then show ?thesis using iterations by simp
  qed
qed

subsection \<open>The loop of the construction\<close>

definition deferral_reasons ::
  "(operation_ref \<times> build_status) list \<Rightarrow> (operation_ref \<times> diagram_error_code) list" where
  "deferral_reasons statuses =
     List.map_filter (\<lambda>(r, status). map_option (Pair r) (into_deferral_reason status)) statuses"

text \<open>One iteration of the outer loop.\<close>

definition build_iteration :: "workflow_env \<Rightarrow> workflow_state \<Rightarrow> diagram_error fault + workflow_state" where
  "build_iteration env w =
     rbind (build_round env w) (\<lambda>w.
     rbind (connect_loop env w) (\<lambda>w.
       if \<not> wst_made_progress w
       then Inl (Failed (error_of_code (BuildHalted (deferral_reasons (wst_deferred_statuses w)))))
       else if excessive (Suc (wst_iterations w))
       then Inl (Failed (error_of_code ExcessiveIterations))
       else Inr (w\<lparr>wst_iterations := Suc (wst_iterations w)\<rparr>)))"

definition is_complete :: "workflow_state \<Rightarrow> bool" where
  "is_complete w \<longleftrightarrow> wst_unfinished w = [] \<and> \<not> has_outputs (wst_construction w)"

lemma build_round_iterations:
  "build_round env w = Inr w' \<Longrightarrow> wst_iterations w' = wst_iterations w"
  by (auto simp: build_round_def rbind_def split: sum.splits)

lemma build_iteration_Inr:
  assumes "build_iteration env w = Inr w'"
  obtains u v where "build_round env w = Inr u" and "connect_loop env u = Inr v"
    and "w' = v\<lparr>wst_iterations := Suc (wst_iterations v)\<rparr>"
    and "Suc (wst_iterations v) \<le> max_iterations"
  using assms by (auto simp: build_iteration_def excessive_def rbind_def split: sum.splits if_splits)

lemma build_iteration_iterations:
  assumes "build_iteration env w = Inr w'"
  shows "wst_iterations w < wst_iterations w' \<and> wst_iterations w' \<le> max_iterations"
  using assms
proof (rule build_iteration_Inr)
  fix u v
  assume round: "build_round env w = Inr u" and loop: "connect_loop env u = Inr v"
    and w': "w' = v\<lparr>wst_iterations := Suc (wst_iterations v)\<rparr>" "Suc (wst_iterations v) \<le> max_iterations"
  show ?thesis
    using build_round_iterations [OF round] connect_loop_iterations [OF loop] w' by simp
qed

function build_loop :: "workflow_env \<Rightarrow> workflow_state \<Rightarrow> diagram_error fault + workflow_state" where
  "build_loop env w =
     (if is_complete w then Inr w
      else case build_iteration env w of Inl e \<Rightarrow> Inl e | Inr w' \<Rightarrow> build_loop env w')"
  by pat_completeness auto
termination
  by (relation "measure (\<lambda>(env, w). Suc max_iterations - wst_iterations w)")
     (auto dest!: build_iteration_iterations)

declare build_loop.simps [simp del]

definition finishing_errors ::
  "(operation_ref, build_target) hmap \<Rightarrow> (operation_ref, diagram_error_code) hmap" where
  "finishing_errors targets =
     List.map_filter (\<lambda>(op, target). case connector_is_finished (tgt_connector target) of
         Inl err \<Rightarrow> Some (op, err) | Inr _ \<Rightarrow> None) targets"

definition finishing_result ::
  "(operation_ref, diagram_error_code) hmap \<Rightarrow> diagram_error_code + unit" where
  "finishing_result errors = (if errors = [] then Inr () else Inl (FinishingErrors errors))"

text \<open>\<open>create_workflow\<close> after the inference, from the state in which the commands are.\<close>

definition initial_state :: "workflow_env \<Rightarrow> construction \<Rightarrow> commands \<Rightarrow> workflow_state" where
  "initial_state env c s =
     \<lparr>wst_construction = c, wst_connector = empty_construction, wst_commands = s,
      wst_unfinished = initial_operations env, wst_deferred_statuses = [],
      wst_made_progress = False, wst_iterations = 0\<rparr>"

definition construct_workflow ::
  "workflow_env \<Rightarrow> workflow_scope \<Rightarrow> commands \<Rightarrow> diagram_error fault + workflow_state" where
  "construct_workflow env scope s =
     (let (st, result) = initialize_builtin_operations (dg_start (wen_diagram env)) scope
            (connect_context env (wen_scope env))
            \<lparr>bst_construction = empty_construction, bst_commands = s\<rparr>
      in rbind (map_sum (\<lambda>e. case e of Failed c \<Rightarrow> Failed (error_of_code c) | Panicked p \<Rightarrow> Panicked p) id result) (\<lambda>_.
         rbind (build_loop env (initial_state env (bst_construction st) (bst_commands st))) (\<lambda>w.
         rbind (may_fail_code (finishing_result
                  (finishing_errors (cons_connect_into_target (wst_construction w))))) (\<lambda>_.
           Inr w))))"

subsection \<open>Creating a workflow\<close>

definition boundary_conditions_new ::
  "type_info \<Rightarrow> type_info \<Rightarrow> (name, type_info) hmap \<Rightarrow> diagram_registry
     \<Rightarrow> diagram_error_code + boundary_conditions" where
  "boundary_conditions_new request response streams registry =
     rbind (get_index_dyn (dreg_messages registry) request) (\<lambda>request_index.
     rbind (get_index_dyn (dreg_messages registry) response) (\<lambda>response_index.
     rbind (rfold (\<lambda>m (n, t). rbind (get_index_dyn (dreg_messages registry) t) (\<lambda>i. Inr (hm_insert n i m)))
              [] streams) (\<lambda>stream_indices.
       Inr \<lparr>bc_request = request_index, bc_response = response_index, bc_streams = stream_indices\<rparr>)))"

definition create_workflow ::
  "external_code \<Rightarrow> diagram_registry \<Rightarrow> type_info \<Rightarrow> type_info \<Rightarrow> (name, type_info) hmap
     \<Rightarrow> diagram \<Rightarrow> workflow_scope \<Rightarrow> scope_context \<Rightarrow> commands
     \<Rightarrow> (diagram_error fault + workflow_state) option" where
  "create_workflow ext registry request response streams d scope sc s =
     (case boundary_conditions_new request response streams registry of
        Inl e \<Rightarrow> Some (Inl (Failed (error_of_code e)))
      | Inr boundary \<Rightarrow>
          map_option (\<lambda>inference. rbind inference (\<lambda>types.
              construct_workflow \<lparr>wen_external = ext, wen_registry = registry, wen_inference = types,
                wen_diagram = d, wen_scope = sc\<rparr> scope s))
            (infer_message_types d (registry_metadata registry) boundary))"

end
