(* ===== verification/BuildingProofs.thy ===== *)
theory BuildingProofs
  imports Workflow
begin

text \<open>
  What building an operation leaves alone. \<open>extends c c'\<close>: the construction \<open>c'\<close> has all connectors,
  buffers, waiting outputs, generated operations and script environments of \<open>c\<close>, in their order. Every
  step of \<open>build_diagram_operation\<close> extends the construction, also when it ends with an error.
\<close>

definition extends :: "construction \<Rightarrow> construction \<Rightarrow> bool" where
  "extends c c' \<longleftrightarrow>
     hm_get (cons_connect_into_target c) \<subseteq>\<^sub>m hm_get (cons_connect_into_target c')
     \<and> (\<forall>r outputs. hm_get (cons_outputs_into_target c) r = Some outputs
          \<longrightarrow> (\<exists>more. hm_get (cons_outputs_into_target c') r = Some (outputs @ more)))
     \<and> hm_get (cons_buffers c) \<subseteq>\<^sub>m hm_get (cons_buffers c')
     \<and> (\<exists>more. cons_generated_operations c' = cons_generated_operations c @ more)
     \<and> hm_get (cons_script_environments c) \<subseteq>\<^sub>m hm_get (cons_script_environments c')"

lemma extends_refl [simp]: "extends c c"
  by (simp add: extends_def)

lemma extends_target:
  "extends c c' \<Longrightarrow> hm_get (cons_connect_into_target c) r = Some t
     \<Longrightarrow> hm_get (cons_connect_into_target c') r = Some t"
  by (auto simp: extends_def map_le_def dom_def)

lemma extends_outputs:
  "extends c c' \<Longrightarrow> hm_get (cons_outputs_into_target c) r = Some outputs
     \<Longrightarrow> \<exists>more. hm_get (cons_outputs_into_target c') r = Some (outputs @ more)"
  by (simp add: extends_def)

lemma extends_trans: "extends a b \<Longrightarrow> extends b c \<Longrightarrow> extends a c"
  unfolding extends_def by (fastforce intro: map_le_trans)

lemma map_le_upd_new: "m k = None \<Longrightarrow> m \<subseteq>\<^sub>m m(k \<mapsto> v)"
  by (auto simp: map_le_def)

lemma extends_push_output: "extends c0 c \<Longrightarrow> extends c0 (push_output r output c)"
  by (rule extends_trans) (auto simp: extends_def push_output_def split: option.split)

lemma extends_generated:
  "extends c0 c \<Longrightarrow> extends c0 (c\<lparr>cons_generated_operations := cons_generated_operations c @ ops\<rparr>)"
  by (rule extends_trans) (auto simp: extends_def)

subsection \<open>Rules for the steps\<close>

lemma keeps_return [keeps_rules]: "keeps P (return x)"
  by (simp add: keeps_def return_def)

lemma keeps_raise_code [keeps_rules]: "keeps P (raise_code e)"
  by (simp add: keeps_def raise_code_def)

lemma keeps_of_result [keeps_rules]: "keeps P (of_result r)"
  by (simp add: keeps_def of_result_def)

lemma keeps_require [keeps_rules]: "keeps P (require x e)"
  by (simp add: require_def keeps_of_result)

lemma keeps_case_option [keeps_rules]:
  "(x = None \<Longrightarrow> keeps P m) \<Longrightarrow> (\<And>y. x = Some y \<Longrightarrow> keeps P (f y))
     \<Longrightarrow> keeps P (case x of None \<Rightarrow> m | Some y \<Rightarrow> f y)"
  by (cases x) simp_all

lemma keeps_case_sum [keeps_rules]:
  "(\<And>a. x = Inl a \<Longrightarrow> keeps P (f a)) \<Longrightarrow> (\<And>b. x = Inr b \<Longrightarrow> keeps P (g b))
     \<Longrightarrow> keeps P (case x of Inl a \<Rightarrow> f a | Inr b \<Rightarrow> g b)"
  by (cases x) simp_all

lemma keeps_case_prod [keeps_rules]: "(\<And>a b. p = (a, b) \<Longrightarrow> keeps P (f a b)) \<Longrightarrow> keeps P (case p of (a, b) \<Rightarrow> f a b)"
  by (cases p) simp

lemma keeps_Let [keeps_rules]: "keeps P (f x) \<Longrightarrow> keeps P (Let x f)"
  by simp

named_theorems extending_rules \<open>steps of the construction extend it\<close>

abbreviation extending :: "construction \<Rightarrow> 'a building \<Rightarrow> bool" where
  "extending c0 m \<equiv> keeps (\<lambda>st. extends c0 (bst_construction st)) m"

lemma extending_on_commands [extending_rules]: "extending c0 (on_commands m)"
  by (simp add: keeps_def on_commands_def split_def Let_def)

lemma extending_on_construction:
  "(\<And>c. extends c0 c \<Longrightarrow> extends c0 (f c)) \<Longrightarrow> extending c0 (on_construction f)"
  by (simp add: keeps_def on_construction_def modify_def)

lemma extending_add_output [extending_rules]: "extending c0 (add_output_into_target ctx r output)"
  unfolding add_output_into_target_def by (intro extending_on_construction extends_push_output)

lemma extending_inferred_type [extending_rules]: "extending c0 (inferred_message_type ctx port)"
  unfolding inferred_message_type_def Let_def by (rule keeps_of_result)

lemma extending_trace_info [extending_rules]: "extending c0 (trace_info ctx op)"
  unfolding trace_info_def by (rule keeps_of_result)

lemma extending_impl_connect [extending_rules]: "extending c0 (impl_connect_into_target ctx r c)"
proof (rule keepsI)
  fix st :: build_state
  assume st: "extends c0 (bst_construction st)"
  show "extends c0 (bst_construction (fst (impl_connect_into_target ctx r c st)))"
  proof (cases "hm_get (cons_connect_into_target (bst_construction st)) r")
    case None
    then show ?thesis
      using st by (auto simp: impl_connect_into_target_def on_construction_def modify_def
          elim!: extends_trans) (simp add: extends_def map_le_upd_new)
  qed (use st in \<open>simp add: impl_connect_into_target_def raise_code_def\<close>)
qed

lemma extending_insert_buffer [extending_rules]: "extending c0 (insert_buffer r b)"
proof (rule keepsI)
  fix st :: build_state
  assume st: "extends c0 (bst_construction st)"
  show "extends c0 (bst_construction (fst (insert_buffer r b st)))"
  proof (cases "hm_get (cons_buffers (bst_construction st)) r")
    case None
    then show ?thesis
      using st by (auto simp: insert_buffer_def on_construction_def modify_def
          elim!: extends_trans) (simp add: extends_def map_le_upd_new)
  qed (use st in \<open>simp add: insert_buffer_def raise_code_def\<close>)
qed

lemma extending_child [extending_rules]:
  "extending c0 (build_child_operation ctx op_id child_id op ops err scope)"
  unfolding build_child_operation_def Let_def by (intro extending_on_construction extends_generated)

lemma extending_script_environment [extending_rules]: "extending c0 (get_script_environment ctx environment)"
proof (rule keepsI)
  fix st :: build_state
  assume st: "extends c0 (bst_construction st)"
  have new: "extends c0 (c\<lparr>cons_script_environments := hm_insert environment env (cons_script_environments c)\<rparr>)"
    if "extends c0 c" "hm_get (cons_script_environments c) environment = None" for c env
    using that by (auto elim!: extends_trans) (simp add: extends_def map_le_upd_new)
  show "extends c0 (bst_construction (fst (get_script_environment ctx environment st)))"
    using st by (auto simp: get_script_environment_def return_def require_def of_result_def raise_code_def
        on_construction_def modify_def ebind_def new split: option.split sum.split)
qed

lemma extending_set_connect [extending_rules]: "extending c0 (set_connect_into_target ctx r c)"
  unfolding set_connect_into_target_def by (rule extending_impl_connect)

lemma extending_set_input [extending_rules]: "extending c0 (set_input_for_target ctx r input)"
  unfolding set_input_for_target_def by (intro keeps_rules extending_rules)

lemma extending_set_buffer [extending_rules]: "extending c0 (set_buffer_for_operation ctx r b)"
  unfolding set_buffer_for_operation_def by (intro keeps_rules extending_rules)

lemma extending_redirect_input [extending_rules]: "extending c0 (redirect_to_child_input ctx s e c)"
  unfolding redirect_to_child_input_def Let_def by (intro keeps_rules extending_rules)

lemma extending_redirect_buffer [extending_rules]: "extending c0 (redirect_to_child_buffer ctx s e c)"
  unfolding redirect_to_child_buffer_def Let_def by (intro keeps_rules extending_rules)

lemma extending_redirect_output [extending_rules]: "extending c0 (redirect_exposed_output_to_sibling ctx s e c)"
  unfolding redirect_exposed_output_to_sibling_def Let_def by (intro keeps_rules extending_rules)

lemma extending_redirect_each [extending_rules]:
  "(\<And>op next. extending c0 (f op next)) \<Longrightarrow> extending c0 (redirect_each f remap)"
  by (cases remap) (simp_all add: keeps_each split_def)

lemma extending_connect_to_cancel [extending_rules]: "extending c0 (connect_to_cancel_new implicit ctx)"
  unfolding connect_to_cancel_new_def by (intro keeps_rules extending_rules)

subsection \<open>Every operation extends the construction\<close>

lemma extending_node_streams [extending_rules]: "extending c0 (add_node_streams ctx available stream_out streams)"
proof (induction stream_out arbitrary: streams)
  case (Cons nt stream_out)
  then show ?case by (cases nt) (auto intro!: keeps_rules extending_rules)
qed (simp add: keeps_return)

lemma extending_build_node: "extending c0 (build_node self op_id ctx)"
  unfolding build_node_def by (intro keeps_rules extending_rules)

lemma extending_check_outputs [extending_rules]: "extending c0 (check_section_outputs self available)"
  unfolding check_section_outputs_def by (intro keeps_rules)

lemma extending_build_section: "extending c0 (build_section self op_id ctx)"
  unfolding build_section_def build_section_from_builder_def build_section_from_template_def
  by (cases "section_provider self") (simp_all, (intro keeps_rules extending_rules)+)

lemma extending_add_output_if [extending_rules]: "extending c0 (add_output_if ctx r output)"
  unfolding add_output_if_def by (intro keeps_rules extending_rules)

lemma extending_build_scope: "extending c0 (build_scope self op_id ctx)"
  unfolding build_scope_def build_scope_stream_def build_scope_cancel_def Let_def
  by (intro keeps_rules extending_rules)

lemma extending_deferring:
  assumes "\<And>buffer_map. extending c0 (f buffer_map)"
  shows "extending c0 (\<lambda>st. case create_buffer_map ctx bs st of
     Inl reason \<Rightarrow> return (build_defer reason) st | Inr buffer_map \<Rightarrow> f buffer_map st)"
  using assms by (auto simp: keeps_def return_def split: sum.split)

text \<open>\<open>build_join\<close> in the form of the other operations that can be deferred.\<close>

lemma build_join_eq:
  "build_join self op_id ctx =
     (if selection_is_empty (join_buffers self) then raise_code EmptyJoin
      else (\<lambda>st. case create_buffer_map ctx (join_buffers self) st of
        Inl reason \<Rightarrow> return (build_defer reason) st
      | Inr buffer_map \<Rightarrow>
          ebind (of_result (rfold (clone_field (bctx_messages ctx)) buffer_map (join_clone self))) (\<lambda>buffer_map.
          ebind (if join_serialize self
                 then on_commands (try_join (json_join_layout (ext_json_buffers (bctx_external ctx)))
                        json_message_type_name buffer_map (bctx_scope ctx))
                 else ebind (inferred_message_type ctx (PortOut (OutNamed (out_next op_id)))) (\<lambda>target_type.
                        on_commands (registry_join (bctx_messages ctx) target_type buffer_map (bctx_scope ctx)))) (\<lambda>output.
          ebind (add_output_into_target ctx (op_of_next (join_next self)) output) (\<lambda>_.
            return BuildFinished))) st))"
  by (rule ext) (simp add: build_join_def)

lemma extending_build_join: "extending c0 (build_join self op_id ctx)"
  unfolding build_join_eq by (intro keeps_rules extending_rules extending_deferring)

lemma extending_build_buffer_access: "extending c0 (build_buffer_access self op_id ctx)"
  unfolding build_buffer_access_def by (intro keeps_rules extending_rules extending_deferring)

lemma extending_build_listen: "extending c0 (build_listen self ctx)"
  unfolding build_listen_def by (intro keeps_rules extending_rules extending_deferring)

lemma extending_build_script: "extending c0 (build_script self op_id ctx)"
  unfolding build_script_def add_script_streams_def by (intro keeps_rules extending_rules)

lemma build_extends: "extending c0 (build_diagram_operation op op_id ctx)"
proof (cases op)
  case (OpStreamOutput x)
  show ?thesis
    unfolding OpStreamOutput build_diagram_operation.simps build_stream_out_def Let_def by (intro keeps_rules extending_rules)
next
  case (OpForkClone x)
  show ?thesis
    unfolding OpForkClone build_diagram_operation.simps build_fork_clone_def by (intro keeps_rules extending_rules)
next
  case (OpUnzip x)
  show ?thesis
    unfolding OpUnzip build_diagram_operation.simps build_unzip_def by (intro keeps_rules extending_rules)
next
  case (OpForkResult x)
  show ?thesis
    unfolding OpForkResult build_diagram_operation.simps build_fork_result_def by (intro keeps_rules extending_rules)
next
  case (OpSplit x)
  show ?thesis
    unfolding OpSplit build_diagram_operation.simps build_split_def by (intro keeps_rules extending_rules)
next
  case (OpTransform x)
  show ?thesis
    unfolding OpTransform build_diagram_operation.simps build_transform_def by (intro keeps_rules extending_rules)
next
  case (OpBuffer x)
  show ?thesis
    unfolding OpBuffer build_diagram_operation.simps build_buffer_def by (intro keeps_rules extending_rules)
qed (simp_all add: extending_build_node extending_build_section extending_build_scope extending_build_join
    extending_build_buffer_access extending_build_listen extending_build_script)

subsection \<open>Deferral\<close>

text \<open>An operation that is deferred has not changed anything.\<close>

definition defers_cleanly :: "build_status building \<Rightarrow> bool" where
  "defers_cleanly m \<longleftrightarrow>
     (\<forall>st st' progress reason. m st = (st', Inr (BuildDefer progress reason)) \<longrightarrow> st' = st \<and> \<not> progress)"

definition never_defers :: "build_status building \<Rightarrow> bool" where
  "never_defers m \<longleftrightarrow> (\<forall>st st' progress reason. m st \<noteq> (st', Inr (BuildDefer progress reason)))"

lemma never_defers_ebind: "(\<And>x. never_defers (f x)) \<Longrightarrow> never_defers (ebind m f)"
  by (auto simp: never_defers_def ebind_def split: prod.splits sum.splits)

lemma never_defers_return: "never_defers (return BuildFinished)"
  by (simp add: never_defers_def return_def)

lemma never_defers_raise: "never_defers (raise_code e)"
  by (simp add: never_defers_def raise_code_def)

lemma never_defers_if: "never_defers m \<Longrightarrow> never_defers m' \<Longrightarrow> never_defers (if b then m else m')"
  by simp

lemma never_defers_case_prod: "(\<And>a b. never_defers (f a b)) \<Longrightarrow> never_defers (case p of (a, b) \<Rightarrow> f a b)"
  by (cases p) simp

lemmas never_defers_rules =
  never_defers_ebind never_defers_return never_defers_raise never_defers_if never_defers_case_prod

lemma never_defers_cleanly: "never_defers m \<Longrightarrow> defers_cleanly m"
  by (simp add: never_defers_def defers_cleanly_def)

lemma defers_cleanly_deferring:
  assumes "\<And>buffer_map. never_defers (f buffer_map)"
  shows "defers_cleanly (\<lambda>st. case create_buffer_map ctx bs st of
     Inl reason \<Rightarrow> return (build_defer reason) st | Inr buffer_map \<Rightarrow> f buffer_map st)"
  using assms by (auto simp: defers_cleanly_def never_defers_def return_def build_defer_def split: sum.split)

lemma defers_cleanly_inferred:
  assumes "\<And>t. defers_cleanly (f t)"
  shows "defers_cleanly (ebind (inferred_message_type ctx port) f)"
  unfolding defers_cleanly_def
proof (intro allI impI)
  fix st st' progress reason
  assume "ebind (inferred_message_type ctx port) f st = (st', Inr (BuildDefer progress reason))"
  then obtain t where "f t st = (st', Inr (BuildDefer progress reason))"
    by (auto simp: inferred_message_type_def of_result_def ebind_def Let_def split: sum.splits)
  then show "st' = st \<and> \<not> progress" using assms unfolding defers_cleanly_def by blast
qed

lemma defers_cleanly_if: "defers_cleanly m \<Longrightarrow> defers_cleanly m' \<Longrightarrow> defers_cleanly (if b then m else m')"
  by simp

lemma build_defers_cleanly: "defers_cleanly (build_diagram_operation op op_id ctx)"
proof (cases op)
  case (OpJoin x)
  show ?thesis
    unfolding OpJoin build_diagram_operation.simps build_join_eq
    by (intro defers_cleanly_if defers_cleanly_deferring never_defers_cleanly [OF never_defers_raise]
        never_defers_rules)
next
  case (OpBufferAccess x)
  then show ?thesis
    by (simp add: build_buffer_access_def)
       (intro defers_cleanly_inferred defers_cleanly_deferring never_defers_rules)
next
  case (OpListen x)
  then show ?thesis
    by (simp add: build_listen_def)
       (intro defers_cleanly_inferred defers_cleanly_deferring never_defers_rules)
next
  case (OpBuffer x)
  show ?thesis
    unfolding OpBuffer build_diagram_operation.simps build_buffer_def
    by (intro never_defers_cleanly never_defers_rules)
next
  case (OpScript x)
  show ?thesis
    unfolding OpScript build_diagram_operation.simps build_script_def
    by (intro never_defers_cleanly never_defers_rules)
qed (simp_all add: build_node_def build_section_def build_scope_def build_stream_out_def build_fork_clone_def
    build_unzip_def build_fork_result_def build_split_def build_transform_def Let_def,
    (intro never_defers_cleanly never_defers_rules)+)

end
