(* ===== verification/Connecting.thy ===== *)
theory Connecting
  imports BuildingProofs
begin

text \<open>
  What connecting an output does. A connector only adds: outputs that it sends on, commands, and
  conversions that it remembers. Where it sends its outputs, its route, never changes.

  The functions that the registry holds are arbitrary, so that they do not take back commands is the
  hypothesis \<open>registry_queues_only\<close>.
\<close>

subsection \<open>Functions that only add commands\<close>

definition queues_only :: "(commands \<Rightarrow> commands \<times> 'a) \<Rightarrow> bool" where
  "queues_only m \<longleftrightarrow> (\<forall>s. set (cmd_queue s) \<subseteq> set (cmd_queue (fst (m s))))"

definition operations_queue_only :: "message_operations \<Rightarrow> bool" where
  "operations_queue_only ops \<longleftrightarrow>
     (\<forall>d sc. mop_deserialize ops = Some d \<longrightarrow> queues_only (des_create_node d sc))
     \<and> (\<forall>x sc. mop_serialize ops = Some x \<longrightarrow> queues_only (ser_into_json_message x sc))
     \<and> (\<forall>f sc. mop_to_string ops = Some f \<longrightarrow> queues_only (f sc))
     \<and> (\<forall>access t sc. mop_buffer_access ops = Some access \<longrightarrow>
          queues_only (bar_into_script_message access t sc) \<and> queues_only (bar_from_script_message access t sc))
     \<and> (\<forall>listen sc. mop_listen ops = Some listen \<longrightarrow>
          queues_only (lsr_into_script_message listen sc) \<and> queues_only (lsr_from_script_message listen sc))
     \<and> (\<forall>i f sc. hm_get (mop_from_impls ops) i = Some f \<longrightarrow> queues_only (f sc))
     \<and> (\<forall>i f sc. hm_get (mop_try_into_impls ops) i = Some f \<longrightarrow> queues_only (f sc))
     \<and> (\<forall>i f sc. hm_get (mop_try_from_impls ops) i = Some f \<longrightarrow> queues_only (f sc))"

definition registry_queues_only :: "message_registrations \<Rightarrow> bool" where
  "registry_queues_only messages \<longleftrightarrow>
     (\<forall>r \<in> set (mrs_messages messages). \<forall>ops. mrg_operations r = Some ops \<longrightarrow> operations_queue_only ops)"

definition queue_kept :: "message_registrations \<Rightarrow> build_command set \<Rightarrow> commands \<Rightarrow> bool" where
  "queue_kept messages q s \<longleftrightarrow> (registry_queues_only messages \<longrightarrow> q \<subseteq> set (cmd_queue s))"

named_theorems queue_rules \<open>operations that only add commands\<close>

abbreviation adding :: "message_registrations \<Rightarrow> build_command set \<Rightarrow> (commands \<Rightarrow> commands \<times> ('e + 'a)) \<Rightarrow> bool" where
  "adding messages q m \<equiv> keeps (queue_kept messages q) m"

lemma adding_queues_only: "(registry_queues_only messages \<Longrightarrow> queues_only m) \<Longrightarrow> adding messages q m"
  by (auto simp: keeps_def queue_kept_def queues_only_def)

lemma adding_infallible: "(registry_queues_only messages \<Longrightarrow> queues_only f) \<Longrightarrow> adding messages q (infallible f)"
  by (auto simp: keeps_def queue_kept_def queues_only_def infallible_def Let_def split_def)

lemma queues_only_map_block [queue_rules]: "queues_only (create_map_block t u sc)"
  by (auto simp: queues_only_def create_map_block_def spawn_def queue_command_def)

lemma adding_connect_to [queue_rules]: "adding messages q (connect_to output input)"
  unfolding connect_to_def
  by (intro keeps_rules) (auto simp: queue_kept_def queue_command_def)

lemma adding_result [queue_rules]:
  "(\<And>x. r = Inr x \<Longrightarrow> adding messages q (f x)) \<Longrightarrow> adding messages q (ebind (of_result r) f)"
  by (cases r) (simp_all add: keeps_def ebind_def of_result_def)

lemma get_operations_queue_only:
  "get_operations messages t = Inr ops \<Longrightarrow> registry_queues_only messages \<Longrightarrow> operations_queue_only ops"
  by (auto simp: get_operations_def get_dyn_def get_registration_def rbind_eq_Inr registry_queues_only_def
      split: option.splits if_splits)

lemma by_index_queue_only:
  "get_operations_by_index messages i = Inr ops \<Longrightarrow> registry_queues_only messages \<Longrightarrow> operations_queue_only ops"
  by (auto simp: get_operations_by_index_def get_by_index_def registration_operations_def rbind_eq_Inr
      registry_queues_only_def split: if_splits)

lemma get_dyn_member: "get_dyn messages t = Inr r \<Longrightarrow> r \<in> set (mrs_messages messages)"
  by (auto simp: get_dyn_def get_registration_def split: option.splits if_splits)

lemma conversion_queues_only:
  assumes "conversion_from messages t u = Inr f" and "registry_queues_only messages"
  shows "queues_only (f sc)"
proof -
  obtain r ops i where r: "get_dyn messages u = Inr r" "mrg_operations r = Some ops"
    and f: "hm_get (mop_from_impls ops) i = Some f"
    using assms(1) by (auto simp: conversion_from_def registration_operations_def rbind_eq_Inr)
  have "operations_queue_only ops"
    using assms(2) get_dyn_member [OF r(1)] r(2) by (auto simp: registry_queues_only_def)
  then show ?thesis using f by (simp add: operations_queue_only_def)
qed

lemma adding_try_serialize [queue_rules]: "adding messages q (try_serialize messages t sc)"
  unfolding try_serialize_def
  by (intro queue_rules keeps_rules adding_queues_only)
     (auto dest: get_operations_queue_only simp: operations_queue_only_def)

lemma adding_deserialize [queue_rules]: "adding messages q (deserialize messages t sc)"
  unfolding deserialize_def try_deserialize_def
  by (intro keeps_ebind adding_result keeps_rules adding_queues_only)
     (auto dest: get_operations_queue_only simp: operations_queue_only_def)

lemma adding_try_to_string [queue_rules]: "adding messages q (try_to_string messages t sc)"
  unfolding try_to_string_def
  by (intro adding_result keeps_rules adding_infallible)
     (auto dest: get_operations_queue_only simp: operations_queue_only_def)

lemma adding_trigger [queue_rules]: "adding messages q (registry_trigger messages t sc)"
  unfolding registry_trigger_def create_trigger_def
  by (intro adding_result keeps_rules adding_infallible queue_rules)

lemma adding_serialized_request:
  assumes "\<And>access x req_ops. mop_buffer_access ops = Some access \<Longrightarrow> field req_ops = Some x
      \<Longrightarrow> adding messages q (f (Some (access, x)))"
    and "adding messages q (f None)"
  shows "adding messages q (ebind (serialized_request messages field ops) f)"
proof (cases "mop_buffer_access ops")
  case None
  then have "ebind (serialized_request messages field ops) f = f None"
    by (simp add: fun_eq_iff serialized_request_def ebind_def return_def)
  then show ?thesis using assms(2) by simp
next
  case (Some access)
  let ?r = "get_operations_by_index messages (bam_request_message (bar_metadata access))"
  have "ebind (serialized_request messages field ops) f =
      ebind (of_result ?r) (\<lambda>req_ops. f (case field req_ops of None \<Rightarrow> None | Some x \<Rightarrow> Some (access, x)))"
    by (simp add: fun_eq_iff serialized_request_def Some ebind_def return_def of_result_def
        split: sum.split prod.split)
  then show ?thesis
    using assms(1) [OF Some] assms(2) by (auto intro!: adding_result split: option.split)
qed

lemma adding_try_into_script [queue_rules]: "adding messages q (try_into_script_message messages t sc)"
proof -
  have rest: "adding messages q (ebind (serialized_request messages mop_serialize ops) (\<lambda>req.
             case req of
               Some (access, x) \<Rightarrow> ebind (bar_into_script_message access (ser_serialize x) sc) (\<lambda>fork. return (Some fork))
             | None \<Rightarrow>
                 (case mop_listen ops of
                    Some listen \<Rightarrow> ebind (lsr_into_script_message listen sc) (\<lambda>fork. return (Some fork))
                  | None \<Rightarrow>
                      (case mop_serialize ops of
                         Some x \<Rightarrow> ebind (json_into_script x sc) (\<lambda>fork. return (Some fork))
                       | None \<Rightarrow> return None))))"
    if ops: "get_operations messages t = Inr ops" for ops
  proof -
    note only = get_operations_queue_only [OF ops]
    have "adding messages q (bar_into_script_message access u sc)"
      if "mop_buffer_access ops = Some access" for access u
      using that only by (intro adding_queues_only) (auto simp: operations_queue_only_def)
    moreover have "adding messages q (lsr_into_script_message listen sc)" if "mop_listen ops = Some listen" for listen
      using that only by (intro adding_queues_only) (auto simp: operations_queue_only_def)
    moreover have "adding messages q (ser_into_json_message x sc)" if "mop_serialize ops = Some x" for x
      using that only by (intro adding_queues_only) (auto simp: operations_queue_only_def)
    ultimately show ?thesis
      by (intro adding_serialized_request)
         (auto simp: json_into_script_def intro!: keeps_rules queue_rules adding_infallible)
  qed
  show ?thesis
    unfolding try_into_script_message_def
  proof (intro adding_result keeps_case_option)
    fix ops i f
    assume "get_operations messages t = Inr ops" "hm_get (mop_try_into_impls ops) i = Some f"
    then show "adding messages q (ebind (infallible (f sc)) (\<lambda>fork. return (Some fork)))"
      by (intro keeps_ebind keeps_return adding_infallible)
         (auto dest: get_operations_queue_only simp: operations_queue_only_def)
  qed (rule rest)
qed

lemma adding_from_script [queue_rules]: "adding messages q (from_script_message_fork messages t sc)"
proof -
  have rest: "adding messages q (ebind (serialized_request messages mop_deserialize ops) (\<lambda>req.
             case req of
               Some (access, x) \<Rightarrow> ebind (bar_from_script_message access (des_deserialize x) sc) (\<lambda>fork. return (Some fork))
             | None \<Rightarrow>
                 (case mop_listen ops of
                    Some listen \<Rightarrow> ebind (lsr_from_script_message listen sc) (\<lambda>fork. return (Some fork))
                  | None \<Rightarrow>
                      (case mop_deserialize ops of
                         Some x \<Rightarrow> ebind (script_into_json x sc) (\<lambda>fork. return (Some fork))
                       | None \<Rightarrow> return None))))"
    if ops: "get_operations messages t = Inr ops" for ops
  proof -
    note only = get_operations_queue_only [OF ops]
    have "adding messages q (bar_from_script_message access u sc)"
      if "mop_buffer_access ops = Some access" for access u
      using that only by (intro adding_queues_only) (auto simp: operations_queue_only_def)
    moreover have "adding messages q (lsr_from_script_message listen sc)" if "mop_listen ops = Some listen" for listen
      using that only by (intro adding_queues_only) (auto simp: operations_queue_only_def)
    moreover have "adding messages q (des_create_node x sc)" if "mop_deserialize ops = Some x" for x
      using that only by (intro adding_queues_only) (auto simp: operations_queue_only_def)
    ultimately show ?thesis
      by (intro adding_serialized_request)
         (auto simp: script_into_json_def intro!: keeps_rules queue_rules adding_infallible)
  qed
  have "adding messages q (try_from_script_message messages t sc)"
    unfolding try_from_script_message_def
  proof (intro adding_result keeps_case_option)
    fix ops i f
    assume "get_operations messages t = Inr ops" "hm_get (mop_try_from_impls ops) i = Some f"
    then show "adding messages q (ebind (infallible (f sc)) (\<lambda>fork. return (Some fork)))"
      by (intro keeps_ebind keeps_return adding_infallible)
         (auto dest: get_operations_queue_only simp: operations_queue_only_def)
  qed (rule rest)
  then show ?thesis unfolding from_script_message_fork_def by (intro keeps_ebind keeps_require)
qed

subsection \<open>What a connector preserves\<close>

definition waiting :: "construction \<Rightarrow> operation_ref \<Rightarrow> dyn_output list" where
  "waiting c r = (case hm_get (cons_outputs_into_target c) r of None \<Rightarrow> [] | Some outputs \<Rightarrow> outputs)"

lemma extends_waiting: "extends c c' \<Longrightarrow> set (waiting c r) \<subseteq> set (waiting c' r)"
  using extends_outputs [of c c' r] by (cases "hm_get (cons_outputs_into_target c) r") (auto simp: waiting_def)

text \<open>
  The state while outputs are connected: nothing is lost, no operation is generated, and the hash map
  of outputs keeps its keys distinct.
\<close>

definition preserved ::
  "message_registrations \<Rightarrow> construction \<Rightarrow> build_command set \<Rightarrow> build_state \<Rightarrow> bool" where
  "preserved messages c0 q st \<longleftrightarrow>
     extends c0 (bst_construction st) \<and> queue_kept messages q (bst_commands st)
     \<and> (hm_wf (cons_outputs_into_target c0) \<longrightarrow> hm_wf (cons_outputs_into_target (bst_construction st)))
     \<and> cons_generated_operations (bst_construction st) = cons_generated_operations c0"

lemma preserved_start: "preserved messages (bst_construction st) (set (cmd_queue (bst_commands st))) st"
  by (simp add: preserved_def queue_kept_def)

named_theorems connecting_rules \<open>what connectors preserve\<close>

abbreviation preserving ::
  "message_registrations \<Rightarrow> construction \<Rightarrow> build_command set \<Rightarrow> 'a building \<Rightarrow> bool" where
  "preserving messages c0 q m \<equiv> keeps (preserved messages c0 q) m"

lemma preserving_on_commands [connecting_rules]: "adding messages q m \<Longrightarrow> preserving messages c0 q (on_commands m)"
  by (auto simp: keeps_def on_commands_def preserved_def split_def Let_def)

lemma preserving_add_output [connecting_rules]: "preserving messages c0 q (add_output_into_target ctx r output)"
  using extends_push_output
  by (auto simp: keeps_def add_output_into_target_def on_construction_def modify_def preserved_def)
     (simp_all add: push_output_def hm_wf_entry)

lemma preserving_implicit_error [connecting_rules]: "preserving messages c0 q (add_implicit_error ctx err)"
  unfolding add_implicit_error_def by (rule preserving_add_output)

lemma preserving_result [connecting_rules]:
  "(\<And>x. r = Inr x \<Longrightarrow> preserving messages c0 q (f x)) \<Longrightarrow> preserving messages c0 q (ebind (of_result r) f)"
  by (cases r) (simp_all add: keeps_def ebind_def of_result_def)

lemma preserving_compatible [connecting_rules]: "preserving messages c0 q (basic_is_compatible ctx self t)"
  unfolding basic_is_compatible_def by (intro keeps_rules)

lemma preserving_basic [connecting_rules]:
  "preserving (bctx_messages ctx) c0 q (basic_connect_into_target ctx self output)"
  unfolding basic_connect_into_target_def
  by (intro keeps_if keeps_case_option preserving_result keeps_ebind keeps_case_prod keeps_return connecting_rules
      queue_rules adding_infallible) (simp_all add: conversion_queues_only)

lemma preserving_try_serialize [connecting_rules]:
  "preserving (bctx_messages ctx) c0 q (try_implicit_serialize ctx self incoming)"
  unfolding try_implicit_serialize_def by (intro keeps_rules connecting_rules queue_rules)

lemma preserving_try_stringify [connecting_rules]:
  "preserving (bctx_messages ctx) c0 q (try_implicit_stringify ctx self incoming)"
  unfolding try_implicit_stringify_def by (intro keeps_rules connecting_rules queue_rules)

lemma preserving_through [connecting_rules]:
  "(\<And>t sc. adding (bctx_messages ctx) q (create (bctx_messages ctx) t sc))
     \<Longrightarrow> preserving (bctx_messages ctx) c0 q (deserialize_through ctx basic existing create incoming)"
  unfolding deserialize_through_def by (intro keeps_rules connecting_rules queue_rules)

lemma preserving_connect: "preserving (bctx_messages ctx) c0 q (connect_into_target ctx c output)"
proof (cases c)
  case (ConnectCancel x)
  then show ?thesis
    by (simp add: connect_cancel_into_target_def Let_def) (intro keeps_rules connecting_rules queue_rules)
qed (auto simp: implicit_serialize_def implicit_deserialize_def implicit_script_conversion_def
    intro!: keeps_rules connecting_rules queue_rules)

lemma preserving_outputs: "preserving (bctx_messages ctx) c0 q (connect_outputs ctx c outputs)"
  by (induction outputs arbitrary: c) (auto intro!: keeps_rules preserving_connect)

subsection \<open>Routes\<close>

text \<open>The route of a connector: the operation that a redirection leads to, and whether it disposes.\<close>

fun route :: "connector \<Rightarrow> operation_ref option \<times> bool" where
  "route (ConnectRedirect r redirected) = (Some r, False)"
| "route ConnectDispose = (None, True)"
| "route _ = (None, False)"

definition routes :: "(operation_ref, build_target) hmap \<Rightarrow> operation_ref \<Rightarrow> (operation_ref option \<times> bool) option" where
  "routes targets r = map_option (route \<circ> tgt_connector) (hm_get targets r)"

lemma ebind_eq_Inr: "ebind m f w = (w', Inr y) \<longleftrightarrow> (\<exists>v x. m w = (v, Inr x) \<and> f x v = (w', Inr y))"
  by (auto simp: ebind_def split: prod.splits sum.splits)

lemma connect_keeps_route: "connect_into_target ctx c output st = (st', Inr c') \<Longrightarrow> route c' = route c"
  by (cases c) (auto simp: ebind_eq_Inr return_def raise_code_def split: if_splits)

lemma connect_outputs_keeps_route: "connect_outputs ctx c outputs st = (st', Inr c') \<Longrightarrow> route c' = route c"
  by (induction outputs arbitrary: c st) (auto simp: return_def ebind_eq_Inr dest!: connect_keeps_route)

definition connected_in :: "commands \<Rightarrow> dyn_output \<Rightarrow> bool" where
  "connected_in s output \<longleftrightarrow> (\<exists>t. ConnectTarget (dyo_target output) t \<in> set (cmd_queue s))"

lemma connect_to_connects:
  "on_commands (connect_to output input) st = (st', Inr x) \<Longrightarrow> connected_in (bst_commands st') output"
  by (auto simp: on_commands_def connect_to_def raise_code_def modify_def connected_in_def queue_command_def
      split: if_splits)

lemma basic_connects:
  "basic_connect_into_target ctx self output st = (st', Inr x) \<Longrightarrow> connected_in (bst_commands st') output"
  by (auto simp: basic_connect_into_target_def ebind_eq_Inr return_def split: if_splits option.splits
      dest!: connect_to_connects)

lemma serialize_connects:
  "try_implicit_serialize ctx self output st = (st', Inr (x, True)) \<Longrightarrow> connected_in (bst_commands st') output"
  by (auto simp: try_implicit_serialize_def ebind_eq_Inr return_def split: if_splits option.splits
      dest!: connect_to_connects basic_connects)

lemma stringify_connects:
  "try_implicit_stringify ctx self output st = (st', Inr (x, True)) \<Longrightarrow> connected_in (bst_commands st') output"
  by (auto simp: try_implicit_stringify_def ebind_eq_Inr return_def split: if_splits option.splits
      dest!: connect_to_connects basic_connects)

lemma through_connects:
  "deserialize_through ctx basic existing create output st = (st', Inr x) \<Longrightarrow> connected_in (bst_commands st') output"
  by (auto simp: deserialize_through_def ebind_eq_Inr return_def split: option.splits
      dest!: connect_to_connects)

lemma deserialize_connects:
  "implicit_deserialize ctx self output st = (st', Inr x) \<Longrightarrow> connected_in (bst_commands st') output"
  by (auto simp: implicit_deserialize_def ebind_eq_Inr return_def raise_code_def split: if_splits
      dest!: basic_connects through_connects)

lemma script_connects:
  "implicit_script_conversion ctx self output st = (st', Inr x) \<Longrightarrow> connected_in (bst_commands st') output"
  by (auto simp: implicit_script_conversion_def ebind_eq_Inr return_def raise_code_def
      split: if_splits option.splits dest!: basic_connects connect_to_connects)

lemma cancel_connects:
  "connect_cancel_into_target ctx self output st = (st', Inr x) \<Longrightarrow> connected_in (bst_commands st') output"
  by (auto simp: connect_cancel_into_target_def Let_def ebind_eq_Inr return_def
      split: if_splits option.splits dest!: connect_to_connects serialize_connects stringify_connects)

text \<open>Where an output is after it was handed to a connector.\<close>

definition placed :: "operation_ref option \<times> bool \<Rightarrow> build_state \<Rightarrow> dyn_output \<Rightarrow> bool" where
  "placed rt st output \<longleftrightarrow>
     snd rt \<or> connected_in (bst_commands st) output
     \<or> (\<exists>r. fst rt = Some r \<and> output \<in> set (waiting (bst_construction st) r))"

lemma waiting_push_output: "output \<in> set (waiting (push_output r output c) r)"
  by (simp add: waiting_def push_output_def)

lemma connect_moves_output:
  assumes "connect_into_target ctx c output st = (st', Inr c')" and "bctx_namespaces ctx = []"
    and "fst (route c) = Some r"
  shows "output \<in> set (waiting (bst_construction st') r)"
  using assms
  by (cases c) (auto simp: ebind_eq_Inr return_def raise_code_def add_output_into_target_def on_construction_def
      modify_def context_ref_def into_operation_ref_def waiting_push_output split: if_splits)

lemma connect_places:
  assumes "connect_into_target ctx c output st = (st', Inr c')" and "bctx_namespaces ctx = []"
  shows "placed (route c) st' output"
proof (cases "fst (route c)")
  case (Some r)
  then show ?thesis using connect_moves_output [OF assms] by (simp add: placed_def)
next
  case None
  then show ?thesis
    using assms(1)
    by (cases c) (auto simp: placed_def implicit_serialize_def ebind_eq_Inr return_def raise_code_def
        split: if_splits
        dest!: basic_connects serialize_connects deserialize_connects script_connects cancel_connects)
qed

lemma preserved_connect:
  "connect_into_target ctx c output st = (st', r)
     \<Longrightarrow> preserved (bctx_messages ctx) (bst_construction st) (set (cmd_queue (bst_commands st))) st'"
proof -
  have "preserved (bctx_messages ctx) (bst_construction st) (set (cmd_queue (bst_commands st)))
      (fst (connect_into_target ctx c output st))"
    by (rule keepsD [OF preserving_connect preserved_start])
  then show "connect_into_target ctx c output st = (st', r) \<Longrightarrow>
      preserved (bctx_messages ctx) (bst_construction st) (set (cmd_queue (bst_commands st))) st'"
    by simp
qed

lemma preserved_outputs:
  "connect_outputs ctx c outputs st = (st', r)
     \<Longrightarrow> preserved (bctx_messages ctx) (bst_construction st) (set (cmd_queue (bst_commands st))) st'"
proof -
  have "preserved (bctx_messages ctx) (bst_construction st) (set (cmd_queue (bst_commands st)))
      (fst (connect_outputs ctx c outputs st))"
    by (rule keepsD [OF preserving_outputs preserved_start])
  then show "connect_outputs ctx c outputs st = (st', r) \<Longrightarrow>
      preserved (bctx_messages ctx) (bst_construction st) (set (cmd_queue (bst_commands st))) st'"
    by simp
qed

lemma preserved_trans:
  "preserved messages (bst_construction st) (set (cmd_queue (bst_commands st))) st'
     \<Longrightarrow> preserved messages (bst_construction st') (set (cmd_queue (bst_commands st'))) st''
     \<Longrightarrow> preserved messages (bst_construction st) (set (cmd_queue (bst_commands st))) st''"
  using extends_trans by (auto simp: preserved_def queue_kept_def)

lemma connected_in_mono:
  "connected_in s output \<Longrightarrow> set (cmd_queue s) \<subseteq> set (cmd_queue s') \<Longrightarrow> connected_in s' output"
  by (auto simp: connected_in_def)

lemma placed_mono:
  assumes "preserved messages (bst_construction st) (set (cmd_queue (bst_commands st))) st'"
    and "registry_queues_only messages" and "placed rt st output"
  shows "placed rt st' output"
  using assms extends_waiting connected_in_mono unfolding placed_def preserved_def queue_kept_def by blast

lemma connect_outputs_places:
  assumes "connect_outputs ctx c outputs st = (st', Inr c')" and "bctx_namespaces ctx = []"
    and "registry_queues_only (bctx_messages ctx)" and "output \<in> set outputs"
  shows "placed (route c) st' output"
  using assms
proof (induction outputs arbitrary: c st)
  case (Cons x outputs)
  from Cons.prems(1) obtain v d where v: "connect_into_target ctx c x st = (v, Inr d)"
    and rest: "connect_outputs ctx d outputs v = (st', Inr c')"
    by (auto simp: ebind_eq_Inr)
  show ?case
  proof (cases "output = x")
    case True
    then show ?thesis
      using placed_mono [OF preserved_outputs [OF rest] assms(3) connect_places [OF v assms(2)]] by simp
  next
    case False
    then show ?thesis
      using Cons.IH [OF rest assms(2,3)] Cons.prems(4) connect_keeps_route [OF v] by simp
  qed
qed simp

lemma connect_outputs_redirects:
  assumes "connect_outputs ctx c outputs st = (st', Inr c')" and "bctx_namespaces ctx = []"
    and "fst (route c) = Some r" and "outputs \<noteq> []"
  shows "waiting (bst_construction st') r \<noteq> []"
proof (cases outputs)
  case (Cons x rest)
  from assms(1) obtain v d where v: "connect_into_target ctx c x st = (v, Inr d)"
    and rest: "connect_outputs ctx d rest v = (st', Inr c')"
    by (auto simp: ebind_eq_Inr Cons)
  have "x \<in> set (waiting (bst_construction v) r)" using connect_moves_output [OF v assms(2,3)] .
  moreover have "extends (bst_construction v) (bst_construction st')"
    using preserved_outputs [OF rest] by (simp add: preserved_def)
  ultimately have "x \<in> set (waiting (bst_construction st') r)" using extends_waiting by blast
  then show ?thesis by auto
qed (use assms(4) in simp)

end
