(* ===== verification/WorkflowProofs.thy ===== *)
theory WorkflowProofs
  imports Connecting
begin

text \<open>
  What the loops of the workflow builder guarantee: a pass of the inner loop keeps all routes and hands
  every waiting output to the connector of its target (\<open>connect_pass_spec\<close>). From this follow that the
  inner loop settles all outputs once every operation is built, and that it never ends normally when
  an output waits in a cycle of redirections.
\<close>

subsection \<open>One target\<close>

abbreviation env_messages :: "workflow_env \<Rightarrow> message_registrations" where
  "env_messages env \<equiv> dreg_messages (wen_registry env)"

lemma connect_context_simps [simp]:
  "bctx_namespaces (connect_context env sc) = []"
  "bctx_messages (connect_context env sc) = env_messages env"
  by (simp_all add: connect_context_def builder_context_in_def root_diagram_context_def)

abbreviation preserved_since :: "message_registrations \<Rightarrow> build_state \<Rightarrow> build_state \<Rightarrow> bool" where
  "preserved_since messages st st' \<equiv>
     preserved messages (bst_construction st) (set (cmd_queue (bst_commands st))) st'"

lemma connect_target_absent:
  assumes "connect_target env all_built s (r, outputs) = Inr s'" and "routes (cps_targets s) r = None"
  shows "\<not> all_built"
    and "s' = s\<lparr>cps_deferred_connections := hm_insert r outputs (cps_deferred_connections s)\<rparr>"
  using assms by (auto simp: connect_target_def routes_def split: if_splits)

lemma connect_target_present:
  assumes "connect_target env all_built s (r, outputs) = Inr s'" and "routes (cps_targets s) r = Some rt"
  obtains target c where "hm_get (cps_targets s) r = Some target" and "route (tgt_connector target) = rt"
    and "connect_outputs (connect_context env (tgt_scope target)) (tgt_connector target) outputs (cps_build s)
           = (cps_build s', Inr c)"
    and "cps_targets s' = hm_insert r (target\<lparr>tgt_connector := c\<rparr>) (cps_targets s)"
    and "cps_deferred_connections s' = cps_deferred_connections s"
proof -
  obtain target where target: "hm_get (cps_targets s) r = Some target" "route (tgt_connector target) = rt"
    using assms(2) by (auto simp: routes_def)
  obtain st result where run: "connect_outputs (connect_context env (tgt_scope target)) (tgt_connector target)
      outputs (cps_build s) = (st, result)"
    by fastforce
  obtain c where "result = Inr c" "s' = s\<lparr>cps_targets := hm_insert r (target\<lparr>tgt_connector := c\<rparr>) (cps_targets s),
      cps_build := st, cps_made_progress := cps_made_progress s \<or> outputs \<noteq> []\<rparr>"
    using assms(1) target run by (auto simp: connect_target_def rbind_eq_Inr)
  with target run that show thesis by simp
qed

lemma connect_target_routes:
  assumes "connect_target env all_built s (r, outputs) = Inr s'"
  shows "routes (cps_targets s') = routes (cps_targets s)"
proof (cases "routes (cps_targets s) r")
  case None
  then show ?thesis using connect_target_absent [OF assms] by simp
next
  case (Some rt)
  show ?thesis
  proof (rule connect_target_present [OF assms Some])
    fix target c
    assume target: "hm_get (cps_targets s) r = Some target"
      and run: "connect_outputs (connect_context env (tgt_scope target)) (tgt_connector target) outputs
        (cps_build s) = (cps_build s', Inr c)"
      and s': "cps_targets s' = hm_insert r (target\<lparr>tgt_connector := c\<rparr>) (cps_targets s)"
    show ?thesis
      using target connect_outputs_keeps_route [OF run] by (auto simp: fun_eq_iff routes_def s')
  qed
qed

lemma connect_target_preserved:
  assumes "connect_target env all_built s (r, outputs) = Inr s'"
  shows "preserved_since (env_messages env) (cps_build s) (cps_build s')"
proof (cases "routes (cps_targets s) r")
  case None
  then show ?thesis using connect_target_absent [OF assms] preserved_start by simp
next
  case (Some rt)
  show ?thesis
    by (rule connect_target_present [OF assms Some]) (metis preserved_outputs connect_context_simps(2))
qed

lemma connect_target_deferred:
  assumes "connect_target env all_built s (r, outputs) = Inr s'"
  shows "all_built \<Longrightarrow> cps_deferred_connections s' = cps_deferred_connections s"
    and "set (hm_keys (cps_deferred_connections s')) \<subseteq>
      set (hm_keys (cps_deferred_connections s)) \<union> {r. routes (cps_targets s) r = None}"
proof -
  show "all_built \<Longrightarrow> cps_deferred_connections s' = cps_deferred_connections s"
    using connect_target_absent [OF assms] connect_target_present [OF assms] by (metis not_None_eq)
  show "set (hm_keys (cps_deferred_connections s')) \<subseteq>
      set (hm_keys (cps_deferred_connections s)) \<union> {r. routes (cps_targets s) r = None}"
  proof (cases "routes (cps_targets s) r")
    case None
    then show ?thesis using connect_target_absent [OF assms] by (auto simp: set_hm_keys)
  next
    case (Some rt)
    show ?thesis by (rule connect_target_present [OF assms Some]) simp
  qed
qed

lemma connect_target_redirects:
  assumes "connect_target env all_built s (r, outputs) = Inr s'" and "routes (cps_targets s) r = Some rt"
    and "fst rt = Some t" and "outputs \<noteq> []"
  shows "waiting (bst_construction (cps_build s')) t \<noteq> []"
  by (rule connect_target_present [OF assms(1,2)])
     (metis connect_outputs_redirects connect_context_simps(1) assms(3,4))

lemma connect_target_places:
  assumes "connect_target env True s (r, outputs) = Inr s'" and "registry_queues_only (env_messages env)"
  obtains rt where "routes (cps_targets s) r = Some rt"
    and "\<And>output. output \<in> set outputs \<Longrightarrow> placed rt (cps_build s') output"
proof -
  obtain rt where rt: "routes (cps_targets s) r = Some rt"
    using connect_target_absent(1) [OF assms(1)] by (cases "routes (cps_targets s) r") auto
  have "placed rt (cps_build s') x" if "x \<in> set outputs" for x
    by (rule connect_target_present [OF assms(1) rt])
       (metis connect_outputs_places connect_context_simps assms(2) that)
  with rt that show thesis by blast
qed

subsection \<open>All targets of a pass\<close>

lemma connect_targets_preserved:
  assumes "rfold (connect_target env all_built) s pending = Inr s'"
  shows "routes (cps_targets s') = routes (cps_targets s)"
    and "preserved_since (env_messages env) (cps_build s) (cps_build s')"
    and "all_built \<Longrightarrow> cps_deferred_connections s' = cps_deferred_connections s"
    and "set (hm_keys (cps_deferred_connections s')) \<subseteq>
      set (hm_keys (cps_deferred_connections s)) \<union> {r. routes (cps_targets s) r = None}"
proof -
  have "routes (cps_targets s') = routes (cps_targets s)
    \<and> preserved_since (env_messages env) (cps_build s) (cps_build s')
    \<and> (all_built \<longrightarrow> cps_deferred_connections s' = cps_deferred_connections s)
    \<and> set (hm_keys (cps_deferred_connections s')) \<subseteq>
        set (hm_keys (cps_deferred_connections s)) \<union> {r. routes (cps_targets s) r = None}"
    using assms
  proof (induction pending arbitrary: s)
    case Nil
    then show ?case by (simp add: preserved_start)
  next
    case (Cons x pending)
    obtain r outputs where x: "x = (r, outputs)" by fastforce
    from Cons.prems obtain u where u: "connect_target env all_built s (r, outputs) = Inr u"
      and rest: "rfold (connect_target env all_built) u pending = Inr s'"
      by (auto simp: x rbind_eq_Inr)
    note IH = Cons.IH [OF rest]
    show ?case
      using IH connect_target_routes [OF u] connect_target_deferred [OF u]
        preserved_trans [OF connect_target_preserved [OF u], of "cps_build s'"] by auto
  qed
  then show "routes (cps_targets s') = routes (cps_targets s)"
    and "preserved_since (env_messages env) (cps_build s) (cps_build s')"
    and "all_built \<Longrightarrow> cps_deferred_connections s' = cps_deferred_connections s"
    and "set (hm_keys (cps_deferred_connections s')) \<subseteq>
      set (hm_keys (cps_deferred_connections s)) \<union> {r. routes (cps_targets s) r = None}"
    by blast+
qed

lemma connect_targets_split:
  assumes "rfold (connect_target env all_built) s pending = Inr s'" and "(r, outputs) \<in> set pending"
  obtains u v where "connect_target env all_built u (r, outputs) = Inr v"
    and "routes (cps_targets u) = routes (cps_targets s)"
    and "preserved_since (env_messages env) (cps_build v) (cps_build s')"
proof -
  obtain before after where pending: "pending = before @ (r, outputs) # after"
    using assms(2) by (meson split_list)
  obtain u v where u: "rfold (connect_target env all_built) s before = Inr u"
    and v: "connect_target env all_built u (r, outputs) = Inr v"
    and rest: "rfold (connect_target env all_built) v after = Inr s'"
    using assms(1) by (auto simp: pending rfold_append rbind_eq_Inr)
  show thesis
    by (rule that [OF v connect_targets_preserved(1) [OF u] connect_targets_preserved(2) [OF rest]])
qed

lemma connect_targets_redirects:
  assumes "rfold (connect_target env all_built) s pending = Inr s'" and "(r, outputs) \<in> set pending"
    and "routes (cps_targets s) r = Some rt" and "fst rt = Some t" and "outputs \<noteq> []"
  shows "waiting (bst_construction (cps_build s')) t \<noteq> []"
proof (rule connect_targets_split [OF assms(1,2)])
  fix u v
  assume step: "connect_target env all_built u (r, outputs) = Inr v"
    and u: "routes (cps_targets u) = routes (cps_targets s)"
    and v: "preserved_since (env_messages env) (cps_build v) (cps_build s')"
  have "waiting (bst_construction (cps_build v)) t \<noteq> []"
    by (rule connect_target_redirects [OF step _ assms(4,5)]) (simp add: u assms(3))
  moreover have "set (waiting (bst_construction (cps_build v)) t) \<subseteq> set (waiting (bst_construction (cps_build s')) t)"
    by (rule extends_waiting) (use v in \<open>simp add: preserved_def\<close>)
  ultimately show ?thesis by auto
qed

lemma connect_targets_places:
  assumes "rfold (connect_target env True) s pending = Inr s'" and "(r, outputs) \<in> set pending"
    and "registry_queues_only (env_messages env)" and "output \<in> set outputs"
  obtains rt where "routes (cps_targets s) r = Some rt" and "placed rt (cps_build s') output"
proof (rule connect_targets_split [OF assms(1,2)])
  fix u v
  assume step: "connect_target env True u (r, outputs) = Inr v"
    and u: "routes (cps_targets u) = routes (cps_targets s)"
    and v: "preserved_since (env_messages env) (cps_build v) (cps_build s')"
  obtain rt where "routes (cps_targets u) r = Some rt" "placed rt (cps_build v) output"
    using connect_target_places [OF step assms(3)] assms(4) by metis
  with u that placed_mono [OF v assms(3)] show thesis by simp
qed

subsection \<open>One pass\<close>

lemma hm_extend_other: "k \<notin> set (hm_keys entries) \<Longrightarrow> hm_get (hm_extend m entries) k = hm_get m k"
  by (induction entries arbitrary: m) (auto simp: hm_extend_def hm_keys_def)

lemma hm_extend_wf: "hm_wf entries \<Longrightarrow> hm_get (hm_extend m entries) = hm_get m ++ hm_get entries"
proof (induction entries arbitrary: m)
  case (Cons kv entries)
  obtain k v where kv: "kv = (k, v)" by fastforce
  have "k \<notin> dom (map_of entries)" using Cons.prems by (simp add: kv hm_wf_def dom_map_of_conv_image_fst)
  moreover have "hm_wf entries" using Cons.prems by (simp add: hm_wf_def)
  then have "hm_get (hm_extend m (kv # entries)) = (hm_get m)(k \<mapsto> v) ++ hm_get entries"
    using Cons.IH [of "hm_insert k v m"] by (simp add: kv hm_extend_def fun_upd_def)
  ultimately show ?case
    by (auto simp: kv fun_eq_iff map_add_def dom_def split: option.split)
qed (simp add: hm_extend_def)

definition ready :: "workflow_state \<Rightarrow> bool" where
  "ready w \<longleftrightarrow>
     cons_outputs_into_target (wst_connector w) = [] \<and> cons_generated_operations (wst_connector w) = []"

abbreviation wst_targets :: "workflow_state \<Rightarrow> (operation_ref, build_target) hmap" where
  "wst_targets w \<equiv> cons_connect_into_target (wst_construction w)"

definition pass_start :: "workflow_state \<Rightarrow> connect_pass_state" where
  "pass_start w =
     \<lparr>cps_targets = wst_targets w,
      cps_build = \<lparr>bst_construction = wst_connector w, bst_commands = wst_commands w\<rparr>,
      cps_deferred_connections = [], cps_made_progress = wst_made_progress w\<rparr>"

definition pass_result ::
  "workflow_env \<Rightarrow> workflow_state \<Rightarrow> workflow_state \<Rightarrow> bool \<Rightarrow> connect_pass_state \<Rightarrow> bool" where
  "pass_result env w w' new s \<longleftrightarrow>
     rfold (connect_target env (wst_unfinished w = [])) (pass_start w)
       (cons_outputs_into_target (wst_construction w)) = Inr s
     \<and> (new \<longleftrightarrow> cons_outputs_into_target (bst_construction (cps_build s)) \<noteq> [])
     \<and> wst_targets w' = cps_targets s
     \<and> cons_outputs_into_target (wst_construction w') =
         hm_extend (hm_extend [] (cons_outputs_into_target (bst_construction (cps_build s))))
           (cps_deferred_connections s)
     \<and> wst_commands w' = bst_commands (cps_build s) \<and> wst_unfinished w' = wst_unfinished w \<and> ready w'
     \<and> hm_wf (cons_outputs_into_target (bst_construction (cps_build s)))
     \<and> preserved_since (env_messages env) (cps_build (pass_start w)) (cps_build s)"

lemma connect_pass_Inr:
  assumes "connect_pass env w = Inr (w', new)" and "ready w"
  shows "\<exists>s. pass_result env w w' new s"
proof -
  obtain s where fold: "rfold (connect_target env (wst_unfinished w = [])) (pass_start w)
      (cons_outputs_into_target (wst_construction w)) = Inr s"
    using assms(1) by (auto simp: connect_pass_def pass_start_def rbind_eq_Inr)
  note preserved = connect_targets_preserved(2) [OF fold]
  from preserved assms(2) have generated: "cons_generated_operations (bst_construction (cps_build s)) = []"
    and "hm_wf (cons_outputs_into_target (bst_construction (cps_build s)))"
    by (simp_all add: preserved_def ready_def hm_wf_def pass_start_def)
  moreover have "w' = w\<lparr>wst_construction := (wst_construction w)
             \<lparr>cons_connect_into_target := cps_targets s,
              cons_outputs_into_target := hm_extend (hm_extend []
                (cons_outputs_into_target (bst_construction (cps_build s)))) (cps_deferred_connections s)\<rparr>,
           wst_connector := bst_construction (cps_build s)
             \<lparr>cons_outputs_into_target := [], cons_generated_operations := []\<rparr>,
           wst_commands := bst_commands (cps_build s), wst_unfinished := wst_unfinished w,
           wst_made_progress := cps_made_progress s, wst_iterations := Suc (wst_iterations w)\<rparr>
      \<and> new = (cons_outputs_into_target (bst_construction (cps_build s)) \<noteq> [])"
    using assms(1) generated unfolding connect_pass_def fold [unfolded pass_start_def]
    by (simp add: Let_def transfer_generated_operations_def split: if_splits)
  ultimately show ?thesis
    using fold preserved by (auto simp: pass_result_def ready_def)
qed

lemma waiting_in:
  "output \<in> set (waiting c r) \<Longrightarrow> \<exists>outputs. (r, outputs) \<in> set (cons_outputs_into_target c) \<and> output \<in> set outputs"
  by (cases "hm_get (cons_outputs_into_target c) r") (auto simp: waiting_def dest: map_of_SomeD)

lemma connect_pass_preserved:
  assumes "connect_pass env w = Inr (w', new)" and "ready w"
  shows "routes (wst_targets w') = routes (wst_targets w)" and "ready w'"
    and "wst_unfinished w' = wst_unfinished w"
    and "registry_queues_only (env_messages env) \<Longrightarrow>
      set (cmd_queue (wst_commands w)) \<subseteq> set (cmd_queue (wst_commands w'))"
proof -
  obtain s where s: "pass_result env w w' new s" using connect_pass_Inr [OF assms] by blast
  then have "routes (cps_targets s) = routes (cps_targets (pass_start w))"
    using connect_targets_preserved(1) unfolding pass_result_def by blast
  then show "routes (wst_targets w') = routes (wst_targets w)" and "ready w'"
    and "wst_unfinished w' = wst_unfinished w"
    and "registry_queues_only (env_messages env) \<Longrightarrow>
      set (cmd_queue (wst_commands w)) \<subseteq> set (cmd_queue (wst_commands w'))"
    using s by (simp_all add: pass_result_def pass_start_def preserved_def queue_kept_def)
qed

lemma connect_pass_redirects:
  assumes "connect_pass env w = Inr (w', new)" and "ready w" and "waiting (wst_construction w) r \<noteq> []"
    and "routes (wst_targets w) r = Some rt" and "fst rt = Some t" and "routes (wst_targets w) t \<noteq> None"
  shows "waiting (wst_construction w') t \<noteq> []" and new
proof -
  obtain s where s: "pass_result env w w' new s" using connect_pass_Inr [OF assms(1,2)] by blast
  obtain outputs where outputs: "(r, outputs) \<in> set (cons_outputs_into_target (wst_construction w))" "outputs \<noteq> []"
    using waiting_in [OF hd_in_set [OF assms(3)]] by (metis empty_iff empty_set)
  from s have fold: "rfold (connect_target env (wst_unfinished w = [])) (pass_start w)
      (cons_outputs_into_target (wst_construction w)) = Inr s"
    by (simp add: pass_result_def)
  have moved: "waiting (bst_construction (cps_build s)) t \<noteq> []"
    by (rule connect_targets_redirects [OF fold outputs(1) _ assms(5) outputs(2)])
       (simp add: assms(4) pass_start_def)
  have "t \<notin> set (hm_keys (cps_deferred_connections s))"
    using connect_targets_preserved(4) [OF fold] assms(6) by (auto simp: hm_keys_def pass_start_def)
  then have "waiting (wst_construction w') t = waiting (bst_construction (cps_build s)) t"
    using s hm_extend_wf [of "cons_outputs_into_target (bst_construction (cps_build s))" "[]"]
    by (simp add: pass_result_def waiting_def hm_extend_other)
  then show "waiting (wst_construction w') t \<noteq> []" and new
    using moved s by (auto simp: pass_result_def waiting_def)
qed

lemma connect_pass_all_built:
  assumes "pass_result env w w' new s" and "wst_unfinished w = []"
  shows "cons_outputs_into_target (wst_construction w') = hm_extend [] (cons_outputs_into_target (bst_construction (cps_build s)))"
    and "waiting (wst_construction w') = waiting (bst_construction (cps_build s))"
proof -
  have "cps_deferred_connections s = []"
    using connect_targets_preserved(3) assms unfolding pass_result_def by (fastforce simp: pass_start_def)
  then show "cons_outputs_into_target (wst_construction w') = hm_extend [] (cons_outputs_into_target (bst_construction (cps_build s)))"
    using assms(1) by (simp add: pass_result_def hm_extend_def)
  then show "waiting (wst_construction w') = waiting (bst_construction (cps_build s))"
    using assms(1) hm_extend_wf [of "cons_outputs_into_target (bst_construction (cps_build s))" "[]"]
    by (simp add: pass_result_def waiting_def fun_eq_iff)
qed

lemma connect_pass_places:
  assumes "connect_pass env w = Inr (w', new)" and "ready w" and "wst_unfinished w = []"
    and "registry_queues_only (env_messages env)" and "output \<in> set (waiting (wst_construction w) r)"
  obtains rt where "routes (wst_targets w) r = Some rt"
    and "placed rt \<lparr>bst_construction = wst_construction w', bst_commands = wst_commands w'\<rparr> output"
proof -
  obtain s where s: "pass_result env w w' new s" using connect_pass_Inr [OF assms(1,2)] by blast
  obtain outputs where outputs: "(r, outputs) \<in> set (cons_outputs_into_target (wst_construction w))" "output \<in> set outputs"
    using waiting_in [OF assms(5)] by blast
  from s assms(3) have fold: "rfold (connect_target env True) (pass_start w)
      (cons_outputs_into_target (wst_construction w)) = Inr s"
    by (simp add: pass_result_def)
  obtain rt where rt: "routes (wst_targets w) r = Some rt" and placed: "placed rt (cps_build s) output"
    using connect_targets_places [OF fold outputs(1) assms(4) outputs(2)] by (auto simp: pass_start_def)
  have "placed rt \<lparr>bst_construction = wst_construction w', bst_commands = wst_commands w'\<rparr> output"
    using placed s connect_pass_all_built(2) [OF s assms(3)] by (simp add: placed_def pass_result_def)
  with rt show thesis by (rule that)
qed

lemma connect_pass_settled:
  assumes "connect_pass env w = Inr (w', False)" and "ready w" and "wst_unfinished w = []"
  shows "cons_outputs_into_target (wst_construction w') = []"
proof -
  obtain s where s: "pass_result env w w' False s" using connect_pass_Inr [OF assms(1,2)] by blast
  then show ?thesis using connect_pass_all_built(1) [OF s assms(3)] by (simp add: pass_result_def hm_extend_def)
qed

subsection \<open>The inner loop\<close>

text \<open>\<open>disposed rts r\<close>: following the redirections from \<open>r\<close> leads to an operation that disposes.\<close>

inductive disposed :: "(operation_ref \<Rightarrow> (operation_ref option \<times> bool) option) \<Rightarrow> operation_ref \<Rightarrow> bool"
  for rts where
  here: "rts r = Some (t, True) \<Longrightarrow> disposed rts r"
| there: "rts r = Some (Some t, b) \<Longrightarrow> disposed rts t \<Longrightarrow> disposed rts r"

lemma connect_loop_queue:
  assumes "connect_loop env w = Inr w'" and "ready w" and "registry_queues_only (env_messages env)"
  shows "set (cmd_queue (wst_commands w)) \<subseteq> set (cmd_queue (wst_commands w'))"
  using assms
proof (induction env w rule: connect_loop.induct)
  case (1 env w)
  from 1(2) obtain v new where pass: "connect_pass env w = Inr (v, new)"
    by (auto simp: connect_loop.simps [of env w] split: sum.splits)
  note step = connect_pass_preserved [OF pass 1(3)]
  show ?case
  proof (cases new)
    case True
    then have "connect_loop env v = Inr w'" using 1(2) pass by (simp add: connect_loop.simps [of env w])
    from 1(1) [OF pass refl True this step(2) 1(4)] step(4) [OF 1(4)] show ?thesis by blast
  next
    case False
    then have "v = w'" using 1(2) pass by (simp add: connect_loop.simps [of env w])
    then show ?thesis using step(4) [OF 1(4)] by simp
  qed
qed

lemma connect_loop_settles:
  assumes "connect_loop env w = Inr w'" and "ready w" and "wst_unfinished w = []"
    and "registry_queues_only (env_messages env)"
  shows "cons_outputs_into_target (wst_construction w') = []" and "wst_unfinished w' = []"
    and "\<And>r output. output \<in> set (waiting (wst_construction w) r)
      \<Longrightarrow> disposed (routes (wst_targets w)) r \<or> connected_in (wst_commands w') output"
proof -
  have "cons_outputs_into_target (wst_construction w') = [] \<and> wst_unfinished w' = []
    \<and> (\<forall>r output. output \<in> set (waiting (wst_construction w) r)
      \<longrightarrow> disposed (routes (wst_targets w)) r \<or> connected_in (wst_commands w') output)"
    using assms
  proof (induction env w rule: connect_loop.induct)
    case (1 env w)
    from 1(2) obtain v new where pass: "connect_pass env w = Inr (v, new)"
      by (auto simp: connect_loop.simps [of env w] split: sum.splits)
    note step = connect_pass_preserved [OF pass 1(3)]
    have unfinished: "wst_unfinished v = []" using step(3) 1(4) by simp
    have settled: "disposed (routes (wst_targets w)) r \<or> connected_in (wst_commands w') x"
      if later: "set (cmd_queue (wst_commands v)) \<subseteq> set (cmd_queue (wst_commands w'))"
        and IH: "\<And>t. x \<in> set (waiting (wst_construction v) t)
          \<Longrightarrow> disposed (routes (wst_targets v)) t \<or> connected_in (wst_commands w') x"
        and x: "x \<in> set (waiting (wst_construction w) r)" for r x
    proof -
      obtain rt where rt: "routes (wst_targets w) r = Some rt"
        and placed: "placed rt \<lparr>bst_construction = wst_construction v, bst_commands = wst_commands v\<rparr> x"
        by (rule connect_pass_places [OF pass 1(3,4,5) x])
      from placed consider (dispose) "snd rt" | (connected) "connected_in (wst_commands v) x"
        | (redirect) t where "fst rt = Some t" "x \<in> set (waiting (wst_construction v) t)"
        by (auto simp: placed_def)
      then show ?thesis
      proof cases
        case dispose
        then show ?thesis using disposed.here [of "routes (wst_targets w)" r "fst rt"] rt by (cases rt) simp
      next
        case connected
        then show ?thesis using connected_in_mono [OF _ later] by blast
      next
        case redirect
        then show ?thesis
          using IH [OF redirect(2)] step(1) disposed.there [of "routes (wst_targets w)" r t "snd rt"] rt
          by (cases rt) auto
      qed
    qed
    show ?case
    proof (cases new)
      case True
      then have loop: "connect_loop env v = Inr w'" using 1(2) pass by (simp add: connect_loop.simps [of env w])
      show ?thesis
        using 1(1) [OF pass refl True loop step(2) unfinished 1(5)]
          settled [OF connect_loop_queue [OF loop step(2) 1(5)]] by blast
    next
      case False
      then have w': "v = w'" using 1(2) pass by (simp add: connect_loop.simps [of env w])
      have "cons_outputs_into_target (wst_construction v) = []"
        using connect_pass_settled [OF _ 1(3,4)] pass False by simp
      then show ?thesis using settled w' unfinished by (auto simp: waiting_def)
    qed
  qed
  then show "cons_outputs_into_target (wst_construction w') = []" and "wst_unfinished w' = []"
    and "\<And>r output. output \<in> set (waiting (wst_construction w) r)
      \<Longrightarrow> disposed (routes (wst_targets w)) r \<or> connected_in (wst_commands w') output"
    by blast+
qed

text \<open>\<open>redirect_cycle rts R\<close>: each operation of \<open>R\<close> is redirected to an operation of \<open>R\<close>.\<close>

definition redirect_cycle ::
  "(operation_ref \<Rightarrow> (operation_ref option \<times> bool) option) \<Rightarrow> operation_ref list \<Rightarrow> bool" where
  "redirect_cycle rts rs \<longleftrightarrow>
     list_all (\<lambda>r. case rts r of Some (Some t, _) \<Rightarrow> t \<in> set rs | _ \<Rightarrow> False) rs"

lemma redirect_cycleD:
  "redirect_cycle rts rs \<Longrightarrow> r \<in> set rs \<Longrightarrow> \<exists>t b. rts r = Some (Some t, b) \<and> t \<in> set rs"
  by (fastforce simp: redirect_cycle_def list_all_iff split: option.splits prod.splits)

lemma connect_loop_cycle:
  assumes "ready w" and "redirect_cycle (routes (wst_targets w)) rs" and "r \<in> set rs"
    and "waiting (wst_construction w) r \<noteq> []"
  shows "\<exists>e. connect_loop env w = Inl e"
  using assms
proof (induction env w arbitrary: r rule: connect_loop.induct)
  case (1 env w)
  show ?case
  proof (cases "connect_pass env w")
    case (Inr p)
    then obtain v new where pass: "connect_pass env w = Inr (v, new)" by (cases p) simp
    obtain t b where t: "routes (wst_targets w) r = Some (Some t, b)" "t \<in> set rs"
      using redirect_cycleD [OF 1(3,4)] by blast
    have "routes (wst_targets w) t \<noteq> None" using redirect_cycleD [OF 1(3) t(2)] by auto
    then have moved: "waiting (wst_construction v) t \<noteq> []" new
      using connect_pass_redirects [OF pass 1(2,5) t(1)] by simp_all
    note step = connect_pass_preserved [OF pass 1(2)]
    have "\<exists>e. connect_loop env v = Inl e"
      by (rule 1(1) [OF pass refl moved(2) step(2) _ t(2) moved(1)]) (simp_all add: step(1) 1(3))
    then show ?thesis using pass moved(2) by (simp add: connect_loop.simps [of env w])
  qed (simp add: connect_loop.simps [of env w])
qed

end
