(* ===== verification/BuildingExamples.thy ===== *)
theory BuildingExamples
  imports Workflow Examples
begin

text \<open>
  Concrete registries and diagrams on which the workflow builder is run.

  The registry knows a single message type, and one builder of nodes that pass it on.
\<close>

definition registrations_of :: "type_info \<Rightarrow> message_registrations" where
  "registrations_of t =
     \<lparr>mrs_messages = [\<lparr>mrg_type_info = t, mrg_operations = Some message_operations_new\<rparr>],
      mrs_indices = [(t, 0)],
      mrs_reverse_lookup = \<lparr>rml_result = [], rml_unzip = [], rml_split = [],
        rml_json_message = (if t = json_message_type_name then Some 0 else None), rml_script_message = None\<rparr>,
      mrs_join_clones = []\<rparr>"

definition node_of :: "type_info \<Rightarrow> node_registration" where
  "node_of t =
     \<lparr>nrg_metadata = \<lparr>nm_request = 0, nm_response = 0, nm_streams = []\<rparr>,
      nrg_create_node = (\<lambda>config sc. infallible (create_map_block t t sc))\<rparr>"

definition registry_of :: "type_info \<Rightarrow> diagram_registry" where
  "registry_of t =
     \<lparr>dreg_nodes = [(''n'', node_of t)], dreg_sections = [], dreg_scripting = [],
      dreg_messages = registrations_of t\<rparr>"

definition no_failures :: external_code where
  "no_failures = \<lparr>ext_compile_cel = (\<lambda>_. Inr ()), ext_json_buffers = [], ext_trace_info = (\<lambda>_. Inr ())\<rparr>"

text \<open>The root scope: the entities 0 to 3 exist before the workflow is built.\<close>

definition root_scope :: scope_context where
  "root_scope = \<lparr>sc_scope = 0, sc_finish_scope_cleanup = 1\<rparr>"

definition root_endpoints :: "type_info \<Rightarrow> workflow_scope" where
  "root_endpoints t =
     \<lparr>wsc_start = \<lparr>dyo_scope = 0, dyo_target = 2, dyo_type = t\<rparr>,
      wsc_terminate = \<lparr>dis_scope = 0, dis_source = 3, dis_type = t\<rparr>,
      wsc_streams = []\<rparr>"

definition run_builder :: "type_info \<Rightarrow> diagram \<Rightarrow> (diagram_error fault + workflow_state) option" where
  "run_builder t d =
     create_workflow no_failures (registry_of t) t t [] d (root_endpoints t) root_scope
       \<lparr>cmd_next = 4, cmd_queue = []\<rparr>"

definition outcome :: "(diagram_error fault + workflow_state) option \<Rightarrow> (diagram_error fault + build_command list) option" where
  "outcome r = map_option (map_sum id (cmd_queue \<circ> wst_commands)) r"

definition node_to :: "next_operation \<Rightarrow> diagram_operation" where
  "node_to next = OpNode \<lparr>node_builder = ''n'', node_config = '''', node_next = next,
     node_stream_out = [], node_trace = no_trace\<rparr>"

definition template_section :: "name \<Rightarrow> (name, next_operation) hmap \<Rightarrow> diagram_operation" where
  "template_section template connected = OpSection
     \<lparr>section_provider = ProviderTemplate template, section_config = '''', section_connect = connected,
      section_trace = no_trace\<rparr>"

subsection \<open>A transform inside of a scope\<close>

definition transform_with :: "next_operation option \<Rightarrow> diagram_operation" where
  "transform_with on_error = OpTransform
     \<lparr>transform_cel = ''request'', transform_next = next_terminate, transform_on_error = on_error,
      transform_trace = no_trace\<rparr>"

definition scoped_transform :: "next_operation option \<Rightarrow> diagram" where
  "scoped_transform on_error = root_diagram
     [(''scope'', OpScope (ScopeSchema (NextName ''t'') None
         (Operations 1 [(''t'', transform_with on_error)]) [] next_terminate
         \<lparr>scope_uninterruptible = False\<rparr> no_trace))] (NextName ''scope'')"

subsection \<open>An output that gets lost\<close>

definition lossy :: diagram where
  "lossy =
     (root_diagram
        [(''s'', template_section ''a'' [(''o'', NextNamespace \<lparr>nsop_namespace = ''t'', nsop_operation = ''i''\<rparr>)]),
         (''t'', template_section ''b'' [])]
        (NextNamespace \<lparr>nsop_namespace = ''t'', nsop_operation = ''i''\<rparr>))
      \<lparr>dg_templates :=
         [(''a'', \<lparr>template_inputs = RemapForward [''n''], template_outputs = [''o''],
             template_buffers = RemapForward [],
             template_ops = Operations 1 [(''n'', node_to (NextName ''o''))]\<rparr>),
          (''b'', \<lparr>template_inputs = RemapTo [(''i'', NextNamespace \<lparr>nsop_namespace = ''u'', nsop_operation = ''n''\<rparr>)],
             template_outputs = [], template_buffers = RemapForward [],
             template_ops = Operations 2 [(''u'', template_section ''c'' [])]\<rparr>),
          (''c'', \<lparr>template_inputs = RemapForward [''n''], template_outputs = [],
             template_buffers = RemapForward [],
             template_ops = Operations 3 [(''n'', node_to next_terminate)]\<rparr>)]\<rparr>"

lemma lossy_run:
  "case outcome (run_builder ''A'' lossy) of
     Some (Inr queue) \<Rightarrow> AddOperation (Some 0) 10 (CreatedMap 11) \<in> set queue
       \<and> list_all (\<lambda>c. case c of ConnectTarget a b \<Rightarrow> a \<noteq> 11 | _ \<Rightarrow> True) queue
   | _ \<Rightarrow> False"
  by code_simp

lemma scoped_transform_run:
  "outcome (run_builder json_message_type_name (scoped_transform None)) =
     Some (Inl (Failed (error_of_code (UnknownOperation (OpCancel [''scope'', ''scope''])))))"
  "case outcome (run_builder json_message_type_name (scoped_transform (Some next_dispose))) of
     Some (Inr queue) \<Rightarrow> AddOperation (Some 0) 10 CreatedScope \<in> set queue
       \<and> AddOperation (Some 0) 17 (CreatedCancel False) \<in> set queue
       \<and> list_all (\<lambda>c. case c of AddOperation sc _ (CreatedCancel _) \<Rightarrow> sc \<noteq> Some 10 | _ \<Rightarrow> True) queue
   | _ \<Rightarrow> False"
  by code_simp+

subsection \<open>A section that cancels\<close>

definition cancelling_section :: diagram where
  "cancelling_section =
     (root_diagram [(''s'', template_section ''a'' [])]
        (NextNamespace \<lparr>nsop_namespace = ''s'', nsop_operation = ''n''\<rparr>))
      \<lparr>dg_templates :=
         [(''a'', \<lparr>template_inputs = RemapForward [''n''], template_outputs = [],
             template_buffers = RemapForward [],
             template_ops = Operations 1 [(''n'', node_to (NextBuiltin BuiltinCancel))]\<rparr>)]\<rparr>"

lemma cancelling_section_run:
  "outcome (run_builder ''A'' cancelling_section) =
     Some (Inl (Failed (error_of_code (UnknownOperation (OpCancel [''s''])))))"
  by code_simp

subsection \<open>States of the builder\<close>

definition example_env :: workflow_env where
  "example_env =
     \<lparr>wen_external = no_failures, wen_registry = registry_of ''A'', wen_inference = [],
      wen_diagram = root_diagram [] next_terminate, wen_scope = root_scope\<rparr>"

text \<open>An output that waits at the first of two operations that are redirected to each other.\<close>

definition cyclic_state :: workflow_state where
  "cyclic_state =
     (initial_state example_env
        (empty_construction
           \<lparr>cons_connect_into_target :=
              [(op_of_name ''x'', \<lparr>tgt_connector = redirect_connection (op_of_name ''y''), tgt_scope = root_scope\<rparr>),
               (op_of_name ''y'', \<lparr>tgt_connector = redirect_connection (op_of_name ''x''), tgt_scope = root_scope\<rparr>)],
            cons_outputs_into_target := [(op_of_name ''x'', [wsc_start (root_endpoints ''A'')])]\<rparr>)
        \<lparr>cmd_next = 4, cmd_queue = []\<rparr>)"

text \<open>A join whose buffer does not exist.\<close>

definition early_join :: diagram_operation where
  "early_join = OpJoin
     \<lparr>join_next = next_terminate, join_buffers = SelectArray [NextName ''b''], join_clone = [],
      join_serialize = True, join_trace = no_trace\<rparr>"

text \<open>An output that waits at the termination, with every operation built.\<close>

definition last_state :: workflow_state where
  "last_state =
     initial_state example_env
       (empty_construction
          \<lparr>cons_connect_into_target :=
             [(OpTerminate [], \<lparr>tgt_connector = ConnectBasic (basic_connect_new (wsc_terminate (root_endpoints ''A''))),
                tgt_scope = root_scope\<rparr>)],
           cons_outputs_into_target := [(OpTerminate [], [wsc_start (root_endpoints ''A'')])]\<rparr>)
       \<lparr>cmd_next = 4, cmd_queue = []\<rparr>"

end
