(* ===== verification/WorkflowRuns.thy ===== *)
theory WorkflowRuns
  imports WorkflowProofs BuildingExamples
begin

text \<open>
  The properties of the workflow builder, over the loops of \<open>Workflow\<close>, and runs of the builder on the
  diagrams of \<open>BuildingExamples\<close> that show where it goes wrong.
\<close>

subsection \<open>What a round keeps\<close>

definition keeps_pending :: "construction \<Rightarrow> construction \<Rightarrow> bool" where
  "keeps_pending c c' \<longleftrightarrow>
     hm_get (cons_connect_into_target c) \<subseteq>\<^sub>m hm_get (cons_connect_into_target c')
     \<and> (\<forall>r. set (waiting c r) \<subseteq> set (waiting c' r))"

lemma keeps_pending_trans: "keeps_pending a b \<Longrightarrow> keeps_pending b c \<Longrightarrow> keeps_pending a c"
  unfolding keeps_pending_def by (meson map_le_trans order_trans)

lemma build_one_pending:
  assumes "build_one env s unfinished = Inr s'"
  shows "keeps_pending (bst_construction (bpr_build s)) (bst_construction (bpr_build s'))"
    and "\<exists>more. bpr_deferred_statuses s' = bpr_deferred_statuses s @ more"
proof -
  obtain st r where run: "build_diagram_operation (uo_op unfinished) (uo_id unfinished)
      (operation_context env unfinished) (bpr_build s) = (st, r)"
    by fastforce
  have "extends (bst_construction (bpr_build s)) (bst_construction st)"
    using run by (metis keepsD [OF build_extends extends_refl] fst_conv)
  then have "keeps_pending (bst_construction (bpr_build s)) (bst_construction st)"
    using extends_waiting by (simp add: keeps_pending_def) (simp add: extends_def)
  moreover have s': "bst_construction (bpr_build s') = (bst_construction st)\<lparr>cons_generated_operations := []\<rparr>
      \<and> (\<exists>more. bpr_deferred_statuses s' = bpr_deferred_statuses s @ more)"
    using assms run
    by (auto simp: build_one_def rbind_eq_Inr transfer_generated_operations_def Let_def split: if_splits)
  ultimately show "keeps_pending (bst_construction (bpr_build s)) (bst_construction (bpr_build s'))"
    and "\<exists>more. bpr_deferred_statuses s' = bpr_deferred_statuses s @ more"
    using s' by (auto simp: keeps_pending_def waiting_def)
qed

lemma build_round_pending:
  assumes "build_round env w = Inr u"
  shows "keeps_pending (wst_construction w) (wst_construction u)"
    and "\<exists>more. wst_deferred_statuses u = wst_deferred_statuses w @ more"
    and "ready w \<Longrightarrow> ready u"
proof -
  let ?start = "\<lparr>bpr_build = \<lparr>bst_construction = wst_construction w, bst_commands = wst_commands w\<rparr>,
               bpr_deferred_operations = [], bpr_deferred_statuses = wst_deferred_statuses w,
               bpr_made_progress = False\<rparr>"
  obtain s where s: "rfold (build_one env) ?start (wst_unfinished w) = Inr s"
    and u: "wst_construction u = bst_construction (bpr_build s)"
      "wst_deferred_statuses u = bpr_deferred_statuses s"
      "wst_connector u = (wst_connector w)\<lparr>cons_buffers := cons_buffers (bst_construction (bpr_build s))\<rparr>"
    using assms by (auto simp: build_round_def rbind_eq_Inr)
  have "keeps_pending (wst_construction w) (bst_construction (bpr_build s))
      \<and> (\<exists>more. bpr_deferred_statuses s = wst_deferred_statuses w @ more)"
  proof (rule rfold_invariant [OF s])
    show "keeps_pending (wst_construction w) (bst_construction (bpr_build ?start))
      \<and> (\<exists>more. bpr_deferred_statuses ?start = wst_deferred_statuses w @ more)"
      by (simp add: keeps_pending_def)
  next
    fix s x t
    assume IH: "keeps_pending (wst_construction w) (bst_construction (bpr_build s))
      \<and> (\<exists>more. bpr_deferred_statuses s = wst_deferred_statuses w @ more)"
      and step: "build_one env s x = Inr t"
    show "keeps_pending (wst_construction w) (bst_construction (bpr_build t))
      \<and> (\<exists>more. bpr_deferred_statuses t = wst_deferred_statuses w @ more)"
      using IH build_one_pending [OF step] keeps_pending_trans by fastforce
  qed
  then show "keeps_pending (wst_construction w) (wst_construction u)"
    and "\<exists>more. wst_deferred_statuses u = wst_deferred_statuses w @ more"
    and "ready w \<Longrightarrow> ready u"
    using u by (simp_all add: ready_def)
qed

lemma routes_mono: "keeps_pending (wst_construction w) (wst_construction u)
    \<Longrightarrow> routes (wst_targets w) r = Some rt \<Longrightarrow> routes (wst_targets u) r = Some rt"
  by (auto simp: keeps_pending_def routes_def map_le_def dom_def)

lemma redirect_cycle_mono:
  assumes "\<And>r rt. rts r = Some rt \<Longrightarrow> rts' r = Some rt" and "redirect_cycle rts rs"
  shows "redirect_cycle rts' rs"
  using assms(2) assms(1) unfolding redirect_cycle_def list_all_iff by (fastforce split: option.splits)

lemma outcome_Inl: "outcome r = Some (Inl e) \<longleftrightarrow> r = Some (Inl e)"
proof (cases r)
  case (Some x)
  then show ?thesis by (cases x) (simp_all add: outcome_def)
qed (simp add: outcome_def)

lemma outcome_success:
  assumes "case outcome r of Some (Inr queue) \<Rightarrow> P queue | _ \<Rightarrow> False"
  obtains w where "r = Some (Inr w)" and "P (cmd_queue (wst_commands w))"
proof (cases r)
  case (Some x)
  then show thesis using assms that by (cases x) (simp_all add: outcome_def)
qed (use assms in \<open>simp add: outcome_def\<close>)

subsection \<open>The properties\<close>

text \<open>Creating a workflow always returns once the message types are inferred. The rounds of building
  and connecting never loop: \<open>create_workflow\<close> has no result exactly if the boundary conditions are
  valid and the inference of message types has none.\<close>

theorem workflow_creation_returns:
  "create_workflow ext registry request response streams d scope sc s = None
   \<longleftrightarrow> (\<exists>boundary. boundary_conditions_new request response streams registry = Inr boundary
         \<and> infer_message_types d (registry_metadata registry) boundary = None)"
  by (auto simp: create_workflow_def split: sum.splits)

text \<open>C8: building an operation only adds. Whatever operation of a diagram is built, in whatever context
  and also when it fails, the connectors, buffers, waiting outputs, generated operations and script
  environments that exist stay as they are.\<close>

theorem building_only_adds:
  "extends (bst_construction st) (bst_construction (fst (build_diagram_operation op op_id ctx st)))"
  by (rule keepsD [OF build_extends extends_refl])

text \<open>C17: an operation that is deferred leaves no trace. When \<open>build_diagram_operation\<close> asks to be tried
  again, neither the construction nor the commands have changed and no progress is reported, so the
  next attempt cannot create anything twice.\<close>

theorem deferred_operation_changes_nothing:
  assumes "build_diagram_operation op op_id ctx st = (st', Inr (BuildDefer progress reason))"
  shows "st' = st \<and> \<not> progress"
  using assms build_defers_cleanly [of op op_id ctx] unfolding defers_cleanly_def by blast

lemma deferred_operation_changes_nothing_witness:
  "\<exists>progress reason. build_diagram_operation early_join ''j'' (connect_context example_env root_scope)
       \<lparr>bst_construction = empty_construction, bst_commands = \<lparr>cmd_next = 4, cmd_queue = []\<rparr>\<rparr>
     = (\<lparr>bst_construction = empty_construction, bst_commands = \<lparr>cmd_next = 4, cmd_queue = []\<rparr>\<rparr>,
        Inr (BuildDefer progress reason)) \<and> \<not> progress"
proof -
  let ?st = "\<lparr>bst_construction = empty_construction, bst_commands = \<lparr>cmd_next = 4, cmd_queue = []\<rparr>\<rparr>"
  have "build_diagram_operation early_join ''j'' (connect_context example_env root_scope) ?st
      = (?st, Inr (BuildDefer False (UnknownOperation (op_of_name ''b''))))"
    by (simp add: early_join_def build_join_def create_buffer_map_def follow_buffer.simps empty_construction_def
        return_def build_defer_def context_ref_def into_operation_ref_def op_of_name_def)
  from deferred_operation_changes_nothing [OF this] this show ?thesis by blast
qed

text \<open>C3: once every operation is built, no output is lost. If a round of building leaves no operation
  unfinished and the iteration succeeds, then the construction is complete after it, and every output
  that waited after the round is connected by a command or leads to \<open>dispose\<close>. The functions held by
  the registry are assumed not to take back commands.\<close>

theorem last_iteration_settles_outputs:
  assumes "build_round env w = Inr u" and "wst_unfinished u = []" and "ready w"
    and "registry_queues_only (dreg_messages (wen_registry env))"
    and "build_iteration env w = Inr w'"
    and "output \<in> set (waiting (wst_construction u) r)"
  shows "is_complete w'
    \<and> (disposed (routes (wst_targets u)) r \<or> connected_in (wst_commands w') output)"
proof (rule build_iteration_Inr [OF assms(5)])
  fix u' v
  assume "build_round env w = Inr u'" and loop: "connect_loop env u' = Inr v"
    and w': "w' = v\<lparr>wst_iterations := Suc (wst_iterations v)\<rparr>"
  then have u': "u' = u" using assms(1) by simp
  note settles = connect_loop_settles [OF loop [unfolded u'] build_round_pending(3) [OF assms(1,3)] assms(2,4)]
  show ?thesis using settles(1,2) settles(3) [OF assms(6)] by (simp add: w' is_complete_def has_outputs_def)
qed

lemma last_iteration_settles_outputs_witness:
  "\<exists>u w'. build_round example_env last_state = Inr u \<and> build_iteration example_env last_state = Inr w'
     \<and> is_complete w'
     \<and> (disposed (routes (wst_targets u)) (OpTerminate [])
        \<or> connected_in (wst_commands w') (wsc_start (root_endpoints ''A'')))"
proof -
  let ?ok = "\<lambda>r. case r of Inr _ \<Rightarrow> True | Inl _ \<Rightarrow> False"
  let ?round = "build_round example_env last_state" and ?iteration = "build_iteration example_env last_state"
  have "?ok ?round" and "?ok ?iteration" by code_simp+
  then obtain u w' where u: "?round = Inr u" and w': "?iteration = Inr w'" by (auto split: sum.splits)
  have "case ?round of Inr u \<Rightarrow> wst_unfinished u = [] \<and> wsc_start (root_endpoints ''A'')
      \<in> set (waiting (wst_construction u) (OpTerminate [])) | Inl _ \<Rightarrow> False"
    by code_simp
  then have "wst_unfinished u = []"
    and waits: "wsc_start (root_endpoints ''A'') \<in> set (waiting (wst_construction u) (OpTerminate []))"
    by (simp_all add: u)
  moreover have "ready last_state" by (simp add: last_state_def initial_state_def ready_def empty_construction_def)
  moreover have "registry_queues_only (dreg_messages (wen_registry example_env))"
    by (simp add: example_env_def registry_of_def registrations_of_def registry_queues_only_def
        operations_queue_only_def message_operations_new_def)
  ultimately show ?thesis
    using last_iteration_settles_outputs [OF u _ _ _ w' waits] u w' by blast
qed

text \<open>C26: outputs that run in circles are always reported. If an output waits at an operation of a cycle
  of redirections, the construction fails, whatever operations are still to be built: the inner loop
  reports the circularity or runs into the bound on the iterations, unless an error comes first.\<close>

theorem redirect_cycle_fails:
  assumes "ready w" and "redirect_cycle (routes (wst_targets w)) rs" and "r \<in> set rs"
    and "waiting (wst_construction w) r \<noteq> []"
  shows "\<exists>e. build_loop env w = Inl e"
proof -
  have "has_outputs (wst_construction w)"
    using waiting_in [OF hd_in_set [OF assms(4)]] by (force simp: has_outputs_def)
  then have "\<not> is_complete w" by (simp add: is_complete_def)
  moreover have "\<exists>e. build_iteration env w = Inl e"
  proof (cases "build_round env w")
    case (Inr u)
    note kept = build_round_pending [OF Inr]
    have "waiting (wst_construction u) r \<noteq> []"
      using kept(1) assms(4) by (auto simp: keeps_pending_def dest: spec [of _ r])
    moreover have "redirect_cycle (routes (wst_targets u)) rs"
      using redirect_cycle_mono [OF routes_mono [OF kept(1)] assms(2)] .
    ultimately show ?thesis
      using connect_loop_cycle [OF kept(3) [OF assms(1)] _ assms(3), of env] Inr
      by (auto simp: build_iteration_def)
  qed (simp add: build_iteration_def)
  ultimately show ?thesis by (auto simp: build_loop.simps [of env w])
qed

lemma redirect_cycle_fails_witness: "\<exists>e. build_loop example_env cyclic_state = Inl e"
proof (rule redirect_cycle_fails)
  show "ready cyclic_state"
    by (simp add: cyclic_state_def initial_state_def ready_def empty_construction_def)
  show "redirect_cycle (routes (wst_targets cyclic_state)) [op_of_name ''x'', op_of_name ''y'']"
    by code_simp
  show "op_of_name ''x'' \<in> set [op_of_name ''x'', op_of_name ''y'']" by simp
  show "waiting (wst_construction cyclic_state) (op_of_name ''x'') \<noteq> []" by code_simp
qed

text \<open>A workflow can be created although an output of it is lost. In \<open>lossy\<close> the node of a section
  sends its response to the input of another section, whose nested section is not built yet when the
  response arrives. The response is overwritten by outputs that wait there already: the workflow is
  created, the node exists (its response is entity 11), and nothing is ever connected to its response.\<close>

theorem waiting_output_is_lost:
  "\<exists>w. run_builder ''A'' lossy = Some (Inr w)
     \<and> AddOperation (Some 0) 10 (CreatedMap 11) \<in> set (cmd_queue (wst_commands w))
     \<and> (\<forall>t. ConnectTarget 11 t \<notin> set (cmd_queue (wst_commands w)))"
  by (rule outcome_success [OF lossy_run]) (fastforce simp: list_all_iff)

text \<open>A \<open>transform\<close> without explicit error target cannot be used inside of a scope. Its error
  output, and that of a \<open>script\<close>, is sent to the target placed below the namespaces twice, which is an
  operation that does not exist; with \<open>dispose\<close>, which has no namespaces, the same diagram is
  created.\<close>

theorem scoped_transform_fails:
  "error_target_of ctx (Some target) = in_namespaces (bctx_namespaces ctx) (op_of_next target)
   \<and> context_ref ctx (error_target_of ctx (Some target))
       = in_namespaces (bctx_namespaces ctx @ bctx_namespaces ctx) (op_of_next target)
   \<and> run_builder json_message_type_name (scoped_transform None)
       = Some (Inl (Failed (error_of_code (UnknownOperation (OpCancel [''scope'', ''scope''])))))
   \<and> (\<exists>w. run_builder json_message_type_name (scoped_transform (Some next_dispose)) = Some (Inr w))"
proof -
  have "\<exists>w. run_builder json_message_type_name (scoped_transform (Some next_dispose)) = Some (Inr w)"
    by (rule outcome_success [OF scoped_transform_run(2)]) blast
  moreover have "run_builder json_message_type_name (scoped_transform None)
       = Some (Inl (Failed (error_of_code (UnknownOperation (OpCancel [''scope'', ''scope''])))))"
    using scoped_transform_run(1) by (simp add: outcome_Inl)
  ultimately show ?thesis
    by (simp add: error_target_of_def context_ref_def into_operation_ref_def in_namespaces_compose)
qed

text \<open>An operation inside of a section cannot be connected to \<open>cancel\<close>: \<open>build_section\<close> redirects the
  termination of the section to its parent, but not the two cancel operations.\<close>

theorem cancelling_section_fails:
  "run_builder ''A'' cancelling_section = Some (Inl (Failed (error_of_code (UnknownOperation (OpCancel [''s''])))))"
  using cancelling_section_run by (simp add: outcome_Inl)

text \<open>The cancel operations of a scope are created in the scope around it: \<open>ConnectToCancel\<close> is given the
  builder of the parent.\<close>

theorem scope_cancel_in_parent:
  "\<exists>w. run_builder json_message_type_name (scoped_transform (Some next_dispose)) = Some (Inr w)
     \<and> AddOperation (Some 0) 10 CreatedScope \<in> set (cmd_queue (wst_commands w))
     \<and> AddOperation (Some 0) 17 (CreatedCancel False) \<in> set (cmd_queue (wst_commands w))
     \<and> (\<forall>op implicit. AddOperation (Some 10) op (CreatedCancel implicit) \<notin> set (cmd_queue (wst_commands w)))"
  by (rule outcome_success [OF scoped_transform_run(2)]) (fastforce simp: list_all_iff)

text \<open>The error of an implicit conversion goes to the target of the root, whatever scope the conversion
  is made for.\<close>

theorem implicit_error_target_is_root:
  "get_implicit_error_target (connect_context env scope) = root_on_implicit_error env"
  by (simp add: get_implicit_error_target_def connect_context_def builder_context_in_def root_diagram_context_def)

text \<open>The reasons that a halted build reports include those of operations that were built later: the
  list of deferrals is never cleared.\<close>

theorem deferrals_accumulate:
  assumes "build_round env w = Inr u"
  shows "\<exists>more. wst_deferred_statuses u = wst_deferred_statuses w @ more"
  using assms by (rule build_round_pending(2))

lemma deferrals_accumulate_witness:
  "\<exists>u more. build_round example_env last_state = Inr u
     \<and> wst_deferred_statuses u = wst_deferred_statuses last_state @ more"
proof -
  have "case build_round example_env last_state of Inr _ \<Rightarrow> True | Inl _ \<Rightarrow> False" by code_simp
  then show ?thesis using deferrals_accumulate [of example_env last_state] by (auto split: sum.splits)
qed

end
