(* ===== verification/Spec2Isabelle.thy ===== *)
theory Spec2Isabelle
  imports Examples BufferNode ServiceRuns ContinuousRuns ScopeRuns Debugger Joining Collecting Splitting Trimming Registering WorkflowRuns
begin

text \<open>
  Crossflow executes workflows: graphs of operations that exchange messages inside sessions. Diagrams
  describe workflows as data. This development models three parts of the library and proves what makes
  them correct: the inference of the message types of a diagram, the construction of a workflow from a
  diagram and a registry, and the execution of messages, buffers, services, scopes and operations.
  Where the code does not do what it should, a theorem shows the behaviour.

  \<^bold>\<open>Diagrams\<close> (\<open>src/src/diagram.rs\<close>, \<open>src/src/diagram/\<close>)
  \<^item> \<open>Refs\<close>: references to operations, outputs and ports, and how a builder below a list of namespaces
    makes and prints them (\<open>operation_ref.rs\<close>, \<open>output_ref.rs\<close>, \<open>diagram_context.rs\<close>).
  \<^item> \<open>Layout\<close>: buffer maps, layout hints and the report of incompatible layouts (\<open>buffer_map.rs\<close>).
  \<^item> \<open>Errors\<close>, \<open>Metadata\<close>, \<open>Diagram\<close>: the error codes, the metadata of a registry and the schemas.
  \<^item> \<open>Validation\<close>: the check for circular operation dependencies, reserved names and the use of
    templates (\<open>Diagram::validate_*\<close>). Operations hold shared pointers, so they carry an identity.
  \<^item> \<open>Constraints\<close>, \<open>Generation\<close>: every operation records connections, redirections and constraints in
    \<open>Inferences\<close> (\<open>inference.rs\<close>); rounds of generation visit nested operations.
  \<^item> \<open>Evaluation\<close>: the eleven constraints and the search for the types that flow into an operation.
  \<^item> \<open>Worklist\<close>, \<open>Inference\<close>, \<open>Solution\<close>: the loop that propagates types, as a
    \<open>partial_function (option)\<close> whose value \<open>None\<close> means that it runs forever, the entry points, and
    what a solution satisfies. \<open>Examples\<close> holds concrete diagrams.

  \<^bold>\<open>Registry and construction\<close> (\<open>src/src/diagram/registration/\<close>, \<open>src/src/diagram/workflow_builder.rs\<close>)
  \<^item> \<open>Registry\<close>: what a registry holds of every message type, and the methods that create operations
    through it (\<open>message_registration.rs\<close>). Creating spawns entities and queues commands (\<open>commands\<close>).
  \<^item> \<open>Registration\<close>, \<open>RegistryProofs\<close>, \<open>Registering\<close>: how registrations fill the tables
    (\<open>common_operations.rs\<close>, \<open>serialization.rs\<close> and the \<open>register_\<close> functions of the schemas), and the
    invariant of the tables. \<open>RegistryAccess\<close>: what the inference reads from a registry.
  \<^item> \<open>SplitBuilding\<close>: the keys and outputs of a \<open>split\<close> (\<open>chain/split.rs\<close>, \<open>split_schema.rs\<close>).
  \<^item> \<open>Construction\<close>: the state of the construction and the connectors, which convert messages when the
    types of an output and its target differ (\<open>workflow_builder.rs\<close>, \<open>serialization.rs\<close>, \<open>script_schema.rs\<close>).
  \<^item> \<open>Building\<close>: \<open>build_diagram_operation\<close> of every kind of operation (\<open>*_schema.rs\<close>).
  \<^item> \<open>Workflow\<close>: \<open>create_workflow\<close>, with its rounds of building and passes of connecting. The bound of
    \<open>10000\<close> iterations is the code's own, and the measure of the loops is what is left of it.
  \<^item> \<open>BuildingProofs\<close>: building only adds to the construction. \<open>Connecting\<close>, \<open>WorkflowProofs\<close>: where outputs
    wait and what a pass does with them. The functions held by a registry are parameters; the hypothesis
    \<open>registry_queues_only\<close> says that they do not take back commands.
  \<^item> \<open>BuildingExamples\<close>, \<open>WorkflowRuns\<close>: concrete diagrams and registries, and the properties.

  \<^bold>\<open>Execution\<close>
  \<^item> \<open>Inputs\<close>: the queue of messages in front of every operation (\<open>input.rs\<close>), the roster of
    operations to execute and the status of a session.
  \<^item> \<open>Debugger\<close>: breakpoints, paused sessions and steps (\<open>debug.rs\<close>), and how an active debugger decides
    which message an operation may take (\<open>input.rs\<close>).
  \<^item> \<open>BufferStore\<close>: the contents of a buffer per session, with retention policies
    (\<open>buffer/buffer_manager.rs\<close>). The locale \<open>retention_queue\<close> is its contract.
  \<^item> \<open>BufferNode\<close>: the operation that stores its inputs, wakes its listeners and obeys the gate of a
    session (\<open>operation/operate_buffer.rs\<close>, \<open>buffer/buffer_gate.rs\<close>).
  \<^item> \<open>Delivery\<close>: the queue of requests of a service (\<open>service/delivery.rs\<close>), serial or one per label.
  \<^item> \<open>AsyncService\<close>, \<open>ServiceRuns\<close>: an asynchronous service with its tasks as a step relation
    (\<open>service/async_srv.rs\<close>, \<open>operation/operate_task.rs\<close>): requests, ends of tasks, closures of
    cancelled tasks, unblocks and cleanups in any order.
  \<^item> \<open>Continuous\<close>, \<open>ContinuousRuns\<close>: a continuous service (\<open>service/continuous.rs\<close>), whose system sees
    its active orders in every cycle and responds to some of them, as a step relation. A run queues a
    command, and its application, a later step, finds the orders by their index in that run.
  \<^item> \<open>Effects\<close>, \<open>CleanupTracking\<close>, \<open>Scope\<close>: operations on a state that can fail, the nodes that a
    cleanup waits for (\<open>operation/cleanup.rs\<close>), and a scope with its sessions as a step relation
    (\<open>operation/scope.rs\<close>): begin, first output, cancellation, early cleanup by the parent, cleanup
    workflows and the end of a session.
  \<^item> \<open>Lifecycle\<close>: an abstract machine of sessions that are open, closing and reported, and the proof that
    the scope simulates it (locale \<open>simulation\<close>). \<open>Tracking\<close>: the invariant that connects what a scope
    awaits with what its nodes still have to answer. \<open>ScopeRuns\<close>: the properties and concrete runs.

  \<^bold>\<open>Operations and their wiring\<close>
  \<^item> \<open>Wiring\<close>: how operations are connected, what connecting an output to an input changes
    (\<open>builder/connect.rs\<close>), and the search for what is downstream of an operation (\<open>operation.rs\<close>).
  \<^item> \<open>Reachability\<close>: the search for activity upstream of an operation, through the \<open>is_reachable\<close> of every
    operation. \<open>ReachabilityProofs\<close> defines what it should find, the least set of live operations, and
    shows that it finds only these and, without joins and closed gates, all of these.
    \<open>ReachabilityRuns\<close>: the properties, and workflows on which the answer is wrong.
    \<open>UpstreamActivity\<close>: the same for the search that a collect starts at its inputs.
  \<^item> \<open>Operations\<close>: noop, fork clone, unzip, spread, branching, filters and cancel operations, and the
    disposals and cancellations that they report (\<open>operation/\<close>, \<open>disposal.rs\<close>).
  \<^item> \<open>Joining\<close>: a join is the zip of the queues of its buffers. Its loop is a partial function.
  \<^item> \<open>Collecting\<close>: a collect cuts the messages of every session into collections, and settles what it
    has when upstream is not active any more.
  \<^item> \<open>Splitting\<close>: a split sends the elements of a list, a map or a JSON value to the outputs for their
    names or positions (\<open>operate_split.rs\<close>, \<open>chain/split.rs\<close>).
  \<^item> \<open>TrimNodes\<close>, \<open>Trimming\<close>: which operations lie between the points of a trim, as paths in the graph of
    \<open>Wiring\<close>, and how a trim holds its message until they are clean.

  \<^bold>\<open>Correspondence.\<close> A struct is a record, an enum a datatype with its constructors, an entity a number.
  A hash map is an association list (\<open>hmap\<close> of \<open>Prelude\<close>, the locale \<open>hash_map\<close> states its laws), so
  the order of iteration is that of the list and a theorem for all lists holds for every order. A
  function that returns \<open>Result\<close> has a sum type with the error on the left; a panic is an error value
  of its own. The ECS world is a record of the components that the modelled operations read and write.
  Numbers that only count (sequence numbers) are natural numbers. Loops are structural, terminate by a
  measure that is proved, or are partial functions. Only the search for activity carries a fuel, which
  counts the operations and the nested sessions; \<open>search_returns\<close> shows that it never runs out.

  \<^bold>\<open>Not modelled.\<close> Generic Rust code that only instantiates type parameters (node and section builders,
  the typed building API, streams), what the queued commands of a construction do to the ECS world
  beyond the operations above, bindings to other systems (Python, gRPC, Zenoh), CEL programs and
  scripts (parameters of the construction), the recording of traces, serialisation, type-erased access to buffers,
  blocking services and the polling of futures. The manifest lists every part with the reason.
\<close>

section \<open>Message type inference\<close>

text \<open>C33: the inference returns unless its propagation loop runs forever. Validation, the rounds that
  generate constraints and the search for circular redirections return on every diagram: if
  \<open>Diagram::infer_message_types\<close> never returns, the diagram passed all of them, and the loop that
  propagates message types is the phase that hangs.\<close>

theorem inference_hangs_in_propagation_only:
  assumes "infer_message_types d md boundary = None"
  shows "\<exists>gen. generate md d (unfinished_operations d) default_inferences = Some (Inr gen)
    \<and> test_circular_redirects gen = Inr ()
    \<and> propagate md (collect_dependents gen) (hm_keys (inf_evaluations gen))
        (set_boundary_conditions d boundary gen) = None"
proof -
  have "evaluate_message_type_inferences d md boundary = None"
    using assms by (simp add: infer_message_types_def)
  then show ?thesis by (rule evaluate_inferences_None) blast
qed

lemma inference_hangs_in_propagation_only_witness:
  "\<exists>gen. generate seesaw_metadata seesaw (unfinished_operations seesaw) default_inferences = Some (Inr gen)
    \<and> test_circular_redirects gen = Inr ()
    \<and> propagate seesaw_metadata (collect_dependents gen) (hm_keys (inf_evaluations gen))
        (set_boundary_conditions seesaw seesaw_boundary gen) = None"
  by (rule inference_hangs_in_propagation_only [OF seesaw_diverges])

text \<open>C22: the inference returns for every diagram whose generated constraints have acyclic
  dependencies: a rank decreases from each port to the ports with a constraint that depend on it.\<close>

theorem inference_returns_when_ranked:
  assumes "generate md d (unfinished_operations d) default_inferences = Some (Inr gen)"
    and "ranked_dependencies rank gen"
  shows "\<exists>r. infer_message_types d md boundary = Some r"
  using evaluate_inferences_returns [of md d rank boundary] assms
  by (auto simp: infer_message_types_def)

lemma inference_returns_when_ranked_witness:
  "\<exists>r. infer_message_types fan seesaw_metadata seesaw_boundary = Some r"
  by (rule inference_returns_when_ranked [OF fan_generated fan_ranked])

text \<open>C38: the inference may run forever on a diagram that all checks accept. The outputs of a
  \<open>fork_clone\<close> and a \<open>split\<close> that feed each other flip between two message types, each of which is the
  split output of the other.\<close>

theorem inference_can_diverge:
  "infer_message_types seesaw seesaw_metadata seesaw_boundary = None
   \<and> validate_operation_names seesaw = Some (Inr ()) \<and> validate_template_usage seesaw = Some (Inr ())
   \<and> test_circular_redirects (generated seesaw_metadata seesaw) = Inr ()"
  using seesaw_diverges seesaw_accepted by blast

text \<open>C5: a successful inference is a fixpoint. After \<open>evaluate_message_type_inferences\<close> succeeds, every
  port whose constraint evaluates to a type has that type, provided that no operation that looks at
  its incoming types is the target of a redirection.\<close>

theorem inference_is_fixpoint:
  assumes "evaluate_message_type_inferences d md boundary = Some (Inr infs)"
    and "unredirected_inputs infs" and "port \<in> set (hm_keys (inf_evaluations infs))"
  shows "evaluate_port md infs port = Inr None
    \<or> evaluate_port md infs port = Inr (port_type infs port)"
  using assms by (rule inferred_fixpoint)

lemma inference_is_fixpoint_witness:
  "evaluate_port seesaw_metadata fan_solution fan_clone = Inr None
    \<or> evaluate_port seesaw_metadata fan_solution fan_clone = Inr (port_type fan_solution fan_clone)"
  by (rule inference_is_fixpoint [OF fan_solved fan_facts(1,2)])

text \<open>C13: the type inferred for the input of a \<open>fork_clone\<close>, \<open>fork_result\<close>, \<open>unzip\<close> or \<open>split\<close> supports
  that operation according to the registry, on every diagram and in every order of evaluation. Two
  conditions are assumed: the type of the port was not fixed before the propagation, neither when the
  constraints were generated nor by the boundary conditions of the workflow, so that an evaluation
  selected it; and the registry can split JSON messages if it knows them, since the input of a split
  may be converted to one.\<close>

theorem inferred_types_supported:
  assumes "evaluate_message_type_inferences d md boundary = Some (Inr infs)"
    and "generate md d (unfinished_operations d) default_inferences = Some (Inr gen)"
    and "constraint_of infs port = Some c" and "port_type infs port = Some t"
    and "port_type (set_boundary_conditions d boundary gen) port = None"
    and "splits_json md"
  shows "type_supported md c t"
  using assms by (rule inferred_supported)

lemma inferred_types_supported_witness:
  "type_supported seesaw_metadata (CloneInput (op_of_name ''clone'') [OpTerminate [], OpTerminate []]) 0"
  by (rule inferred_types_supported [OF fan_solved fan_generated fan_facts(3,4,5)]) code_simp

text \<open>\<open>infer_message_types\<close> reports a type for every port of the diagram, and the start of the
  workflow has the request type of the boundary conditions.\<close>

theorem inference_is_total:
  assumes "infer_message_types d md boundary = Some (Inr types)"
  shows "\<exists>infs. evaluate_message_type_inferences d md boundary = Some (Inr infs)
    \<and> hm_get types = port_type infs
    \<and> (\<forall>port \<in> set (hm_keys (inf_evaluations infs)). hm_get types port \<noteq> None)
    \<and> hm_get types (PortOut (OutStart [])) = Some (bc_request boundary)"
  using infer_message_types_lookup [OF assms] boundary_types by metis

lemma inference_is_total_witness:
  "\<exists>infs. evaluate_message_type_inferences fan seesaw_metadata seesaw_boundary = Some (Inr infs)
    \<and> hm_get fan_types = port_type infs
    \<and> (\<forall>port \<in> set (hm_keys (inf_evaluations infs)). hm_get fan_types port \<noteq> None)
    \<and> hm_get fan_types (PortOut (OutStart [])) = Some (bc_request seesaw_boundary)"
  by (rule inference_is_total [OF fan_inferred])

text \<open>C28: the search for incoming message types finds the types of exactly the outputs that are
  connected to the operation or to an operation that is redirected into it in any number of steps,
  sorted and without repetition.\<close>

theorem message_types_into_spec:
  assumes "impl_get_message_types_into infs input connection_necessary = Inr types"
  shows "set types = types_flowing_into infs input \<and> sorted types \<and> distinct types"
  using assms by (rule impl_get_message_types_into_Inr)

lemma message_types_into_spec_witness:
  "set [0::nat] = types_flowing_into fan_solution (op_of_name ''clone'') \<and> sorted [0::nat] \<and> distinct [0::nat]"
proof (rule message_types_into_spec)
  show "impl_get_message_types_into fan_solution (op_of_name ''clone'') True = Inr [0]" by code_simp
qed

text \<open>Once the generated inferences have passed the test for circular redirections, the search for
  incoming message types never reports one, for any operation: its own check cannot fail.\<close>

theorem circular_redirect_unreachable:
  assumes "generate md d (unfinished_operations d) default_inferences = Some (Inr gen)"
    and "test_circular_redirects gen = Inr ()"
  shows "impl_get_message_types_into gen input necessary \<noteq> Inl (CircularRedirect ops)"
  using generate_default(2) [OF assms(1)] assms(2) by (rule types_into_not_circular)

lemma circular_redirect_unreachable_witness:
  "impl_get_message_types_into (generated seesaw_metadata fan) (op_of_name ''clone'') True
     \<noteq> Inl (CircularRedirect [op_of_name ''clone''])"
  by (rule circular_redirect_unreachable [OF fan_generated fan_facts(6)])

text \<open>The evaluation of a constraint depends on nothing but the wiring and the message types of the
  ports in its read set: its dependencies and the outputs that reach its operation through
  redirections.\<close>

theorem evaluation_locality:
  assumes "same_wiring a b"
    and "\<And>port. port \<in> read_set b c \<Longrightarrow> get_inference_of a port = get_inference_of b port"
  shows "evaluate_constraint a md c = evaluate_constraint b md c"
  using assms by (rule evaluate_constraint_agree)

lemma evaluation_locality_witness:
  "evaluate_constraint (fixed (PortIn OpDispose) 1 fan_solution) seesaw_metadata (ExactMatch fan_clone) =
     evaluate_constraint fan_solution seesaw_metadata (ExactMatch fan_clone)"
proof (rule evaluation_locality)
  show "same_wiring (fixed (PortIn OpDispose) 1 fan_solution) fan_solution" by simp
  show "get_inference_of (fixed (PortIn OpDispose) 1 fan_solution) port = get_inference_of fan_solution port"
    if "port \<in> read_set fan_solution (ExactMatch fan_clone)" for port
    using that by (simp add: read_set_def get_inference_of_def fixed_def op_of_name_def)
qed

text \<open>The outcome of the inference depends on the order in which ports are evaluated, which is the
  iteration order of a hash map. The same diagram is solved in one order and rejected in another,
  because \<open>dispose\<close> is not a known port while the type of a \<open>fork_clone\<close> is still open.\<close>

theorem inference_depends_on_order:
  "\<exists>queue queue'. mset queue = mset queue'
     \<and> (\<exists>infs. propagation_in_order queue seesaw_metadata cascade seesaw_boundary = Some (Inr infs))
     \<and> propagation_in_order queue' seesaw_metadata cascade seesaw_boundary =
         Some (Inl (code_in_port (UnknownPort (PortIn OpDispose)) (PortIn (op_of_name ''second''))))"
  using cascade_orders cascade_succeeds cascade_fails by blast

text \<open>A template that exposes one operation both as an input and as a buffer passes validation and
  fails an assertion of the inference: the second redirection of the exposed port panics.\<close>

theorem double_exposure_panics:
  "validate_operation_names doubled = Some (Inr ()) \<and> validate_template_usage doubled = Some (Inr ())
   \<and> infer_message_types doubled seesaw_metadata seesaw_boundary =
       Some (Inl (Panicked ''assertion failed: port_constraint.is_none()''))"
  using doubled_accepted doubled_panics by blast

section \<open>Validation\<close>

text \<open>\<open>Diagram::validate_operation_names\<close> returns for every diagram, circular ones included, and if it
  accepts then \<open>validate_template_usage\<close> returns as well.\<close>

theorem validation_returns:
  "(\<exists>r. validate_operation_names d = Some r)
   \<and> (validate_operation_names d = Some (Inr ()) \<longrightarrow> (\<exists>r. validate_template_usage d = Some r))"
  using validate_operation_names_returns validate_template_usage_returns by blast

lemma validation_returns_witness:
  "(\<exists>r. validate_operation_names seesaw = Some r) \<and> (\<exists>r. validate_template_usage seesaw = Some r)"
  using validation_returns [of seesaw] seesaw_accepted by blast

text \<open>C10: the check for circular operation dependencies accepts finitely nested diagrams only: some number
  bounds the depth to which scopes and sections expand.\<close>

theorem circular_check_sound:
  assumes "check_circular_operation_dependency ops templates = Inr ()"
  shows "\<exists>n. nested_within n templates ops"
  using assms by (rule check_circular_nested)

lemma circular_check_sound_witness: "\<exists>n. nested_within n (dg_templates doubled) (dg_ops doubled)"
  by (rule circular_check_sound [OF validate_operation_names_cases(1) [OF doubled_accepted(1)]])

text \<open>The check for circular operation dependencies reports no circularity on a finitely nested diagram
  in which equal pointers mean equal operation maps.\<close>

theorem circular_check_complete:
  assumes "nested_within d templates ops" and "operations_consistent templates ops"
  shows "check_circular_operation_dependency ops templates \<noteq> Inl (CircularOperationDependency names)"
  using assms by (rule check_circular_complete)

lemma circular_check_complete_witness:
  "check_circular_operation_dependency (Operations 0 [(''sink'', sink_node)]) []
     \<noteq> Inl (CircularOperationDependency [''sink''])"
proof (rule circular_check_complete)
  show nested: "nested_within 0 [] (Operations 0 [(''sink'', sink_node)])" by code_simp
  have "x = y" if "sub_map [] x y" "nested_within 0 [] x" for x y
    using that by (auto simp: sub_map_unfold [of _ x])
  then show "operations_consistent [] (Operations 0 [(''sink'', sink_node)])"
    using nested by (auto simp: operations_consistent_def)
qed

text \<open>A diagram accepted by \<open>validate_operation_names\<close> uses no reserved name for an operation, at
  any depth of scopes and templates.\<close>

theorem accepted_names_not_reserved:
  assumes "validate_operation_names d = Some (Inr ())"
    and "sub_map (dg_templates d) (dg_ops d) ops" and "n \<in> set (hm_keys (ops_map ops))"
  shows "n \<notin> set reserved_operation_names"
proof -
  obtain k where "nested_within k (dg_templates d) (dg_ops d)"
    using check_circular_nested [OF validate_operation_names_cases(1) [OF assms(1)]] by blast
  then have "\<exists>cs. names_step (dg_templates d) ops = Inr cs"
    using names.loop_success [OF _ validate_operation_names_cases(2) [OF assms(1)] _ assms(2)] by auto
  then show ?thesis
    using assms(3) by (auto simp: names_step_def rbind_eq_Inr validate_names_of_iff)
qed

lemma accepted_names_not_reserved_witness: "''clone'' \<notin> set reserved_operation_names"
proof (rule accepted_names_not_reserved [OF seesaw_accepted(1) sub_refl])
  show "''clone'' \<in> set (hm_keys (ops_map (dg_ops seesaw)))" by code_simp
qed

section \<open>References and layouts\<close>

text \<open>C40: the printed form of an operation reference determines the reference, when its names are not empty
  and contain neither a colon nor an opening bracket at their start.\<close>

theorem display_operation_ref_injective:
  assumes "plain_ref r" and "plain_ref r'" and "display_op r = display_op r'"
  shows "r = r'"
  using assms by (rule display_op_determines)

lemma display_operation_ref_injective_witness:
  "in_namespaces [''a''] (in_namespaces [''b''] (op_of_name ''n'')) = in_namespaces [''a'', ''b''] (op_of_name ''n'')"
  by (rule display_operation_ref_injective) code_simp+

text \<open>The references under which the inference stores operations are unique: they determine the
  namespaces and the name of the operation, and never clash with the ports a section exposes.\<close>

theorem operation_refs_unique:
  "(into_operation_ref ps (op_of_name n) = into_operation_ref qs (op_of_name m) \<longleftrightarrow> ps = qs \<and> n = m)
   \<and> into_operation_ref ps (op_of_name n) \<noteq> into_operation_ref qs (exposed_input s m)"
  using into_operation_ref_unique into_operation_ref_exposed by blast

text \<open>Evaluating the hints of a layout succeeds exactly when the layout hints distinct identifiers
  that the buffer map contains, and the result is then the map of these hints. Identifiers of the
  buffer map that the layout does not ask for are not an error.\<close>

theorem layout_hints_evaluated:
  assumes "distinct ids"
  shows "(\<forall>m. evaluate_hints (set_hints hs (hint_evaluation_new ids)) = Inr m \<longrightarrow>
      distinct (map fst hs) \<and> set (map fst hs) \<subseteq> set ids \<and> hm_get m = map_of hs)
    \<and> (distinct (map fst hs) \<and> set (map fst hs) \<subseteq> set ids \<longrightarrow>
      (\<exists>m. evaluate_hints (set_hints hs (hint_evaluation_new ids)) = Inr m))"
proof -
  let ?ev = "hint_evaluation_new ids"
  have new: "distinct (unevaluated ?ev)" "missing_buffers (compatibility ?ev) = []"
    "set (unevaluated ?ev) = set ids" "incompatible_buffers (compatibility ?ev) = []"
    "hm_get (evaluated ?ev) = Map.empty"
    using assms by (simp_all add: hint_evaluation_new_def empty_layout_report_def)
  show ?thesis
    using set_hints_missing [OF new(1,2), of hs] set_hints_evaluated [OF new(1), of hs]
    by (auto simp: evaluate_hints_Inr set_hints_incompatible new(3,4,5))
qed

lemma layout_hints_evaluated_witness:
  "\<exists>m. evaluate_hints (set_hints [(Name ''a'', Exact (0::nat))]
      (hint_evaluation_new [Name ''a'', Name ''unknown''])) = Inr m"
  using layout_hints_evaluated [of "[Name ''a'', Name ''unknown'']" "[(Name ''a'', Exact (0::nat))]"]
  by simp

end
